(* ===== verification/Prelude.thy ===== *)
theory Prelude
  imports Complex_Main "HOL-Library.Word" "HOL-Library.Multiset"
begin

text \<open>
  The prelude of the development: the machine types and the C idioms the sources use
  (truncating division, \<^verbatim>\<open>clamp\<close>, \<^verbatim>\<open>strcmp\<close>-style comparison of team
  names, world coordinates), the random source, and the list lemmas that the component
  theories share. The collection \<open>bufsimps\<close> holds the rules that unfold the buffer
  abstractions.
\<close>

unbundle bit_operations_syntax

named_theorems bufsimps "unfolding rules for the buffer and container abstractions"
named_theorems preserves "an operation keeps the invariant of its component"

subsection \<open>Machine types\<close>

type_synonym uchar = "8 word"
type_synonym i32 = "32 word"
type_synonym u32 = "32 word"

text \<open>Game text is kept as strings without their terminating zero: \<open>s = t\<close> is
  \<^verbatim>\<open>!strcmp(s, t)\<close> and \<open>s = []\<close> is \<^verbatim>\<open>!s[0]\<close>.\<close>

type_synonym cstr = string

definition INT_MAX :: int where "INT_MAX = 2147483647"
definition INT_MIN :: int where "INT_MIN = - 2147483648"

text \<open>Integer division of C rounds towards zero.\<close>

definition cdiv :: "int \<Rightarrow> int \<Rightarrow> int" where
  "cdiv a b = (if (a < 0) = (b < 0) then \<bar>a\<bar> div \<bar>b\<bar> else - (\<bar>a\<bar> div \<bar>b\<bar>))"

definition clamp :: "int \<Rightarrow> int \<Rightarrow> int \<Rightarrow> int" where
  "clamp a b c = max b (min a c)"

lemma cdiv_nonneg [simp]: "0 \<le> a \<Longrightarrow> 0 < b \<Longrightarrow> cdiv a b = a div b"
  by (simp add: cdiv_def)

lemma cdiv_mono:
  assumes "a \<le> b" "0 < k"
  shows "cdiv a k \<le> cdiv b k"
proof (cases "a < 0 \<and> 0 \<le> b")
  case True
  then have "0 \<le> - a div k" "0 \<le> b div k" using assms(2) by (simp_all add: pos_imp_zdiv_nonneg_iff)
  then show ?thesis using True assms(2) by (simp add: cdiv_def)
next
  case False
  with assms show ?thesis by (auto simp: cdiv_def intro: zdiv_mono1)
qed

lemma clamp_bounds: "b \<le> c \<Longrightarrow> b \<le> clamp a b c \<and> clamp a b c \<le> c"
  by (auto simp: clamp_def)

subsection \<open>World coordinates\<close>

text \<open>The sources keep positions as single precision floats. The model keeps them as
  exact rationals: comparisons and differences are computed without rounding.\<close>

record vec =
  vx :: rat
  vy :: rat
  vz :: rat

definition vec0 :: vec where "vec0 = \<lparr>vx = 0, vy = 0, vz = 0\<rparr>"

text \<open>The position given to an entity that is nowhere: \<^verbatim>\<open>vec(-1e10f, -1e10f, -1e10f)\<close>.\<close>

definition vec_nowhere :: vec where
  "vec_nowhere = \<lparr>vx = - 10000000000, vy = - 10000000000, vz = - 10000000000\<rparr>"

text \<open>\<^verbatim>\<open>int(f)\<close>: conversion of a float to an integer drops the fraction.\<close>

definition trunc :: "rat \<Rightarrow> int" where
  "trunc q = (if 0 \<le> q then \<lfloor>q\<rfloor> else - \<lfloor>- q\<rfloor>)"

text \<open>\<^verbatim>\<open>DMF\<close>, the scale of world locations on the wire.\<close>

definition DMF :: rat where "DMF = 16"

definition dmf_int :: "rat \<Rightarrow> int" where
  "dmf_int q = trunc (q * DMF)"

text \<open>A position quantised to the wire scale and back, as \<^verbatim>\<open>vec(ivec(o.mul(DMF))).div(DMF)\<close>.\<close>

definition quantise :: "vec \<Rightarrow> vec" where
  "quantise v = \<lparr>vx = of_int (dmf_int (vx v)) / DMF, vy = of_int (dmf_int (vy v)) / DMF,
                 vz = of_int (dmf_int (vz v)) / DMF\<rparr>"

lemma trunc_of_int [simp]: "trunc (of_int n) = n"
  by (auto simp: trunc_def floor_minus)

lemma quantise_idem: "quantise (quantise v) = quantise v"
  by (simp add: quantise_def dmf_int_def DMF_def)

subsection \<open>Random numbers\<close>

text \<open>The random source is the stream of the values that \<^verbatim>\<open>randomMT\<close> will return;
  each use takes the first and leaves the rest. \<^verbatim>\<open>rnd(x)\<close> drops the sign bit and
  reduces modulo \<open>x\<close>.\<close>

type_synonym rng = "nat \<Rightarrow> u32"

definition rnd :: "int \<Rightarrow> rng \<Rightarrow> int \<times> rng" where
  "rnd x g = (uint (g 0 AND 0x7FFFFFFF) mod x, (\<lambda>n. g (Suc n)))"

lemma rnd_bounds: "0 < x \<Longrightarrow> 0 \<le> fst (rnd x g) \<and> fst (rnd x g) < x"
  by (simp add: rnd_def)

subsection \<open>Lists\<close>

definition upd_nth :: "int \<Rightarrow> ('a \<Rightarrow> 'a) \<Rightarrow> 'a list \<Rightarrow> 'a list" where
  "upd_nth i f xs = (if 0 \<le> i \<and> i < int (length xs) then xs[nat i := f (xs ! nat i)] else xs)"

definition inrange :: "int \<Rightarrow> 'a list \<Rightarrow> bool" where
  "inrange i xs \<longleftrightarrow> 0 \<le> i \<and> i < int (length xs)"

lemma length_upd_nth [simp]: "length (upd_nth i f xs) = length xs"
  by (simp add: upd_nth_def)

lemma nth_upd_nth:
  "j < length xs \<Longrightarrow> upd_nth i f xs ! j = (if int j = i then f (xs ! j) else xs ! j)"
  by (auto simp: upd_nth_def nth_list_update)

lemma upd_nth_nat: "i < length xs \<Longrightarrow> upd_nth (int i) f xs = xs[i := f (xs ! i)]"
  by (simp add: upd_nth_def)

lemma upd_nth_upd_nth [simp]: "upd_nth i f (upd_nth i g xs) = upd_nth i (\<lambda>x. f (g x)) xs"
  by (auto simp: upd_nth_def)

lemma upd_nth_id [simp]: "upd_nth i (\<lambda>x. x) xs = xs"
  by (simp add: upd_nth_def)

lemma nth_nat_upd_nth [simp]: "inrange i xs \<Longrightarrow> upd_nth i f xs ! nat i = f (xs ! nat i)"
  by (simp add: upd_nth_def inrange_def nat_less_iff)

lemma nth_nat_upd_nth_other [simp]: "inrange j xs \<Longrightarrow> i \<noteq> j \<Longrightarrow> upd_nth i f xs ! nat j = xs ! nat j"
  by (auto simp: upd_nth_def inrange_def)

lemma inrange_upd_nth [simp]: "inrange j (upd_nth i f xs) = inrange j xs"
  by (simp add: inrange_def)

lemma upd_nth_cong: "inrange i xs \<Longrightarrow> f (xs ! nat i) = g (xs ! nat i) \<Longrightarrow> upd_nth i f xs = upd_nth i g xs"
  by (simp add: upd_nth_def inrange_def)

lemma upd_nth_same: "inrange i xs \<Longrightarrow> f (xs ! nat i) = xs ! nat i \<Longrightarrow> upd_nth i f xs = xs"
  by (simp add: upd_nth_def inrange_def)

text \<open>\<^verbatim>\<open>vector::removeunordered\<close>: the last element takes the place of the removed one.\<close>

definition remove_unordered :: "nat \<Rightarrow> 'a list \<Rightarrow> 'a list" where
  "remove_unordered i xs = butlast (xs[i := last xs])"

lemma length_remove_unordered [simp]: "length (remove_unordered i xs) = length xs - 1"
  by (simp add: remove_unordered_def)

lemma take_remove_unordered: "i < length xs \<Longrightarrow> take i (remove_unordered i xs) = take i xs"
  by (simp add: remove_unordered_def take_butlast)

lemma mset_remove_unordered:
  assumes "i < length xs"
  shows "mset (remove_unordered i xs) = mset xs - {#xs ! i#}"
proof -
  obtain ys y where xs: "xs = ys @ [y]" using assms by (cases xs rule: rev_cases) auto
  show ?thesis
  proof (cases "i = length ys")
    case True
    then show ?thesis by (simp add: remove_unordered_def xs)
  next
    case False
    then have "i < length ys" using assms xs by simp
    moreover from this have "ys ! i \<in># mset ys" by simp
    ultimately show ?thesis
      by (simp add: remove_unordered_def xs list_update_append nth_append mset_update)
  qed
qed

text \<open>A loop over the indices of a list whose step changes only the element at its index.\<close>

lemma map_upd_nth_prefix:
  "i < length xs \<Longrightarrow> upd_nth (int i) f (map f (take i xs) @ drop i xs) = map f (take (Suc i) xs) @ drop (Suc i) xs"
  by (simp add: upd_nth_def list_update_append nth_append Cons_nth_drop_Suc [symmetric] take_Suc_conv_app_nth)

lemma fold_index_loop:
  assumes step: "\<And>i s. i < length (get s) \<Longrightarrow> P s
      \<Longrightarrow> get (op (int i) s) = upd_nth (int i) h (get s) \<and> P (op (int i) s)"
    and "P s"
  shows "get (fold op (map int [0..<length (get s)]) s) = map h (get s)
    \<and> P (fold op (map int [0..<length (get s)]) s)"
proof -
  have "get (fold op (map int [0..<n]) s) = map h (take n (get s)) @ drop n (get s)
      \<and> P (fold op (map int [0..<n]) s)" if "n \<le> length (get s)" for n
    using that
  proof (induction n)
    case 0
    then show ?case using assms(2) by simp
  next
    case (Suc n)
    let ?s = "fold op (map int [0..<n]) s"
    from Suc have IH: "get ?s = map h (take n (get s)) @ drop n (get s)" "P ?s" by auto
    moreover from IH(1) Suc.prems have "n < length (get ?s)" by simp
    ultimately have "get (op (int n) ?s) = upd_nth (int n) h (get ?s)" "P (op (int n) ?s)"
      using step by blast+
    then show ?case using Suc.prems IH(1) map_upd_nth_prefix [of n "get s" h] by simp
  qed
  from this [of "length (get s)"] show ?thesis by simp
qed

text \<open>A loop over the indices that establishes a fact for each element in turn.\<close>

lemma fold_index_establish:
  assumes step: "\<And>i s. i < length (get s) \<Longrightarrow> P s \<Longrightarrow> length (get (op (int i) s)) = length (get s)
      \<and> (\<forall>j < length (get s). j \<noteq> i \<longrightarrow> get (op (int i) s) ! j = get s ! j)
      \<and> Q (get (op (int i) s) ! i) \<and> P (op (int i) s)"
    and "P s"
  shows "\<forall>j < length (get s). Q (get (fold op (map int [0..<length (get s)]) s) ! j)"
proof -
  have "length (get (fold op (map int [0..<n]) s)) = length (get s) \<and> P (fold op (map int [0..<n]) s)
      \<and> (\<forall>j < n. Q (get (fold op (map int [0..<n]) s) ! j))" if "n \<le> length (get s)" for n
    using that
  proof (induction n)
    case 0
    then show ?case using assms(2) by simp
  next
    case (Suc n)
    let ?s = "fold op (map int [0..<n]) s"
    from Suc have IH: "length (get ?s) = length (get s)" "P ?s" "\<forall>j < n. Q (get ?s ! j)" by auto
    have "n < length (get ?s)" using IH(1) Suc.prems by simp
    from step [OF this IH(2)] IH(1,3) Suc.prems show ?case by (auto simp: less_Suc_eq)
  qed
  from this [of "length (get s)"] show ?thesis by simp
qed

lemma set_upd_nth: "set (upd_nth i f xs) \<subseteq> set xs \<union> f ` set xs"
  unfolding upd_nth_def
  by (auto dest!: set_update_subset_insert [THEN subsetD])

end
