(* ===== verification/Messages.thy ===== *)
theory Messages
  imports Prelude
begin

text \<open>
  The network messages of \<^verbatim>\<open>src/src/fpsgame/game.h\<close>: the message codes in the
  order of their enumeration, the table of fixed message sizes with its lookup
  (\<^verbatim>\<open>msgsizelookup\<close> of \<^verbatim>\<open>server.cpp\<close>), and the effects that the handlers of
  the server leave behind instead of performing input and output.
\<close>

subsection \<open>Message codes\<close>

abbreviation (input) N_CONNECT :: int where "N_CONNECT \<equiv> 0"
abbreviation (input) N_SERVINFO :: int where "N_SERVINFO \<equiv> 1"
abbreviation (input) N_WELCOME :: int where "N_WELCOME \<equiv> 2"
abbreviation (input) N_INITCLIENT :: int where "N_INITCLIENT \<equiv> 3"
abbreviation (input) N_POS :: int where "N_POS \<equiv> 4"
abbreviation (input) N_TEXT :: int where "N_TEXT \<equiv> 5"
abbreviation (input) N_SOUND :: int where "N_SOUND \<equiv> 6"
abbreviation (input) N_CDIS :: int where "N_CDIS \<equiv> 7"
abbreviation (input) N_SHOOT :: int where "N_SHOOT \<equiv> 8"
abbreviation (input) N_EXPLODE :: int where "N_EXPLODE \<equiv> 9"
abbreviation (input) N_SUICIDE :: int where "N_SUICIDE \<equiv> 10"
abbreviation (input) N_DIED :: int where "N_DIED \<equiv> 11"
abbreviation (input) N_DAMAGE :: int where "N_DAMAGE \<equiv> 12"
abbreviation (input) N_HITPUSH :: int where "N_HITPUSH \<equiv> 13"
abbreviation (input) N_SHOTFX :: int where "N_SHOTFX \<equiv> 14"
abbreviation (input) N_EXPLODEFX :: int where "N_EXPLODEFX \<equiv> 15"
abbreviation (input) N_TRYSPAWN :: int where "N_TRYSPAWN \<equiv> 16"
abbreviation (input) N_SPAWNSTATE :: int where "N_SPAWNSTATE \<equiv> 17"
abbreviation (input) N_SPAWN :: int where "N_SPAWN \<equiv> 18"
abbreviation (input) N_FORCEDEATH :: int where "N_FORCEDEATH \<equiv> 19"
abbreviation (input) N_GUNSELECT :: int where "N_GUNSELECT \<equiv> 20"
abbreviation (input) N_TAUNT :: int where "N_TAUNT \<equiv> 21"
abbreviation (input) N_MAPCHANGE :: int where "N_MAPCHANGE \<equiv> 22"
abbreviation (input) N_MAPVOTE :: int where "N_MAPVOTE \<equiv> 23"
abbreviation (input) N_TEAMINFO :: int where "N_TEAMINFO \<equiv> 24"
abbreviation (input) N_ITEMSPAWN :: int where "N_ITEMSPAWN \<equiv> 25"
abbreviation (input) N_ITEMPICKUP :: int where "N_ITEMPICKUP \<equiv> 26"
abbreviation (input) N_ITEMACC :: int where "N_ITEMACC \<equiv> 27"
abbreviation (input) N_TELEPORT :: int where "N_TELEPORT \<equiv> 28"
abbreviation (input) N_JUMPPAD :: int where "N_JUMPPAD \<equiv> 29"
abbreviation (input) N_PING :: int where "N_PING \<equiv> 30"
abbreviation (input) N_PONG :: int where "N_PONG \<equiv> 31"
abbreviation (input) N_CLIENTPING :: int where "N_CLIENTPING \<equiv> 32"
abbreviation (input) N_TIMEUP :: int where "N_TIMEUP \<equiv> 33"
abbreviation (input) N_FORCEINTERMISSION :: int where "N_FORCEINTERMISSION \<equiv> 34"
abbreviation (input) N_SERVMSG :: int where "N_SERVMSG \<equiv> 35"
abbreviation (input) N_ITEMLIST :: int where "N_ITEMLIST \<equiv> 36"
abbreviation (input) N_RESUME :: int where "N_RESUME \<equiv> 37"
abbreviation (input) N_EDITMODE :: int where "N_EDITMODE \<equiv> 38"
abbreviation (input) N_EDITENT :: int where "N_EDITENT \<equiv> 39"
abbreviation (input) N_EDITF :: int where "N_EDITF \<equiv> 40"
abbreviation (input) N_EDITT :: int where "N_EDITT \<equiv> 41"
abbreviation (input) N_EDITM :: int where "N_EDITM \<equiv> 42"
abbreviation (input) N_FLIP :: int where "N_FLIP \<equiv> 43"
abbreviation (input) N_COPY :: int where "N_COPY \<equiv> 44"
abbreviation (input) N_PASTE :: int where "N_PASTE \<equiv> 45"
abbreviation (input) N_ROTATE :: int where "N_ROTATE \<equiv> 46"
abbreviation (input) N_REPLACE :: int where "N_REPLACE \<equiv> 47"
abbreviation (input) N_DELCUBE :: int where "N_DELCUBE \<equiv> 48"
abbreviation (input) N_REMIP :: int where "N_REMIP \<equiv> 49"
abbreviation (input) N_EDITVSLOT :: int where "N_EDITVSLOT \<equiv> 50"
abbreviation (input) N_UNDO :: int where "N_UNDO \<equiv> 51"
abbreviation (input) N_REDO :: int where "N_REDO \<equiv> 52"
abbreviation (input) N_NEWMAP :: int where "N_NEWMAP \<equiv> 53"
abbreviation (input) N_GETMAP :: int where "N_GETMAP \<equiv> 54"
abbreviation (input) N_SENDMAP :: int where "N_SENDMAP \<equiv> 55"
abbreviation (input) N_CLIPBOARD :: int where "N_CLIPBOARD \<equiv> 56"
abbreviation (input) N_EDITVAR :: int where "N_EDITVAR \<equiv> 57"
abbreviation (input) N_MASTERMODE :: int where "N_MASTERMODE \<equiv> 58"
abbreviation (input) N_KICK :: int where "N_KICK \<equiv> 59"
abbreviation (input) N_CLEARBANS :: int where "N_CLEARBANS \<equiv> 60"
abbreviation (input) N_CURRENTMASTER :: int where "N_CURRENTMASTER \<equiv> 61"
abbreviation (input) N_SPECTATOR :: int where "N_SPECTATOR \<equiv> 62"
abbreviation (input) N_SETMASTER :: int where "N_SETMASTER \<equiv> 63"
abbreviation (input) N_SETTEAM :: int where "N_SETTEAM \<equiv> 64"
abbreviation (input) N_BASES :: int where "N_BASES \<equiv> 65"
abbreviation (input) N_BASEINFO :: int where "N_BASEINFO \<equiv> 66"
abbreviation (input) N_BASESCORE :: int where "N_BASESCORE \<equiv> 67"
abbreviation (input) N_REPAMMO :: int where "N_REPAMMO \<equiv> 68"
abbreviation (input) N_BASEREGEN :: int where "N_BASEREGEN \<equiv> 69"
abbreviation (input) N_ANNOUNCE :: int where "N_ANNOUNCE \<equiv> 70"
abbreviation (input) N_LISTDEMOS :: int where "N_LISTDEMOS \<equiv> 71"
abbreviation (input) N_SENDDEMOLIST :: int where "N_SENDDEMOLIST \<equiv> 72"
abbreviation (input) N_GETDEMO :: int where "N_GETDEMO \<equiv> 73"
abbreviation (input) N_SENDDEMO :: int where "N_SENDDEMO \<equiv> 74"
abbreviation (input) N_DEMOPLAYBACK :: int where "N_DEMOPLAYBACK \<equiv> 75"
abbreviation (input) N_RECORDDEMO :: int where "N_RECORDDEMO \<equiv> 76"
abbreviation (input) N_STOPDEMO :: int where "N_STOPDEMO \<equiv> 77"
abbreviation (input) N_CLEARDEMOS :: int where "N_CLEARDEMOS \<equiv> 78"
abbreviation (input) N_TAKEFLAG :: int where "N_TAKEFLAG \<equiv> 79"
abbreviation (input) N_RETURNFLAG :: int where "N_RETURNFLAG \<equiv> 80"
abbreviation (input) N_RESETFLAG :: int where "N_RESETFLAG \<equiv> 81"
abbreviation (input) N_INVISFLAG :: int where "N_INVISFLAG \<equiv> 82"
abbreviation (input) N_TRYDROPFLAG :: int where "N_TRYDROPFLAG \<equiv> 83"
abbreviation (input) N_DROPFLAG :: int where "N_DROPFLAG \<equiv> 84"
abbreviation (input) N_SCOREFLAG :: int where "N_SCOREFLAG \<equiv> 85"
abbreviation (input) N_INITFLAGS :: int where "N_INITFLAGS \<equiv> 86"
abbreviation (input) N_SAYTEAM :: int where "N_SAYTEAM \<equiv> 87"
abbreviation (input) N_CLIENT :: int where "N_CLIENT \<equiv> 88"
abbreviation (input) N_AUTHTRY :: int where "N_AUTHTRY \<equiv> 89"
abbreviation (input) N_AUTHKICK :: int where "N_AUTHKICK \<equiv> 90"
abbreviation (input) N_AUTHCHAL :: int where "N_AUTHCHAL \<equiv> 91"
abbreviation (input) N_AUTHANS :: int where "N_AUTHANS \<equiv> 92"
abbreviation (input) N_REQAUTH :: int where "N_REQAUTH \<equiv> 93"
abbreviation (input) N_PAUSEGAME :: int where "N_PAUSEGAME \<equiv> 94"
abbreviation (input) N_GAMESPEED :: int where "N_GAMESPEED \<equiv> 95"
abbreviation (input) N_ADDBOT :: int where "N_ADDBOT \<equiv> 96"
abbreviation (input) N_DELBOT :: int where "N_DELBOT \<equiv> 97"
abbreviation (input) N_INITAI :: int where "N_INITAI \<equiv> 98"
abbreviation (input) N_FROMAI :: int where "N_FROMAI \<equiv> 99"
abbreviation (input) N_BOTLIMIT :: int where "N_BOTLIMIT \<equiv> 100"
abbreviation (input) N_BOTBALANCE :: int where "N_BOTBALANCE \<equiv> 101"
abbreviation (input) N_MAPCRC :: int where "N_MAPCRC \<equiv> 102"
abbreviation (input) N_CHECKMAPS :: int where "N_CHECKMAPS \<equiv> 103"
abbreviation (input) N_SWITCHNAME :: int where "N_SWITCHNAME \<equiv> 104"
abbreviation (input) N_SWITCHMODEL :: int where "N_SWITCHMODEL \<equiv> 105"
abbreviation (input) N_SWITCHTEAM :: int where "N_SWITCHTEAM \<equiv> 106"
abbreviation (input) N_INITTOKENS :: int where "N_INITTOKENS \<equiv> 107"
abbreviation (input) N_TAKETOKEN :: int where "N_TAKETOKEN \<equiv> 108"
abbreviation (input) N_EXPIRETOKENS :: int where "N_EXPIRETOKENS \<equiv> 109"
abbreviation (input) N_DROPTOKENS :: int where "N_DROPTOKENS \<equiv> 110"
abbreviation (input) N_DEPOSITTOKENS :: int where "N_DEPOSITTOKENS \<equiv> 111"
abbreviation (input) N_STEALTOKENS :: int where "N_STEALTOKENS \<equiv> 112"
abbreviation (input) N_SERVCMD :: int where "N_SERVCMD \<equiv> 113"
abbreviation (input) N_DEMOPACKET :: int where "N_DEMOPACKET \<equiv> 114"
abbreviation (input) NUMMSG :: int where "NUMMSG \<equiv> 115"

text \<open>The size of a message includes its code; 0 stands for variable or unchecked.\<close>

definition msgsizes :: "(int \<times> int) list" where
  "msgsizes = [
    (N_CONNECT, 0), (N_SERVINFO, 0), (N_WELCOME, 1), (N_INITCLIENT, 0), (N_POS, 0), (N_TEXT, 0),
    (N_SOUND, 2), (N_CDIS, 2), (N_SHOOT, 0), (N_EXPLODE, 0), (N_SUICIDE, 1), (N_DIED, 5),
    (N_DAMAGE, 6), (N_HITPUSH, 7), (N_SHOTFX, 10), (N_EXPLODEFX, 4), (N_TRYSPAWN, 1),
    (N_SPAWNSTATE, 14), (N_SPAWN, 3), (N_FORCEDEATH, 2), (N_GUNSELECT, 2), (N_TAUNT, 1),
    (N_MAPCHANGE, 0), (N_MAPVOTE, 0), (N_TEAMINFO, 0), (N_ITEMSPAWN, 2), (N_ITEMPICKUP, 2),
    (N_ITEMACC, 3), (N_PING, 2), (N_PONG, 2), (N_CLIENTPING, 2), (N_TIMEUP, 2),
    (N_FORCEINTERMISSION, 1), (N_SERVMSG, 0), (N_ITEMLIST, 0), (N_RESUME, 0), (N_EDITMODE, 2),
    (N_EDITENT, 11), (N_EDITF, 16), (N_EDITT, 16), (N_EDITM, 16), (N_FLIP, 14), (N_COPY, 14),
    (N_PASTE, 14), (N_ROTATE, 15), (N_REPLACE, 17), (N_DELCUBE, 14), (N_REMIP, 1),
    (N_EDITVSLOT, 16), (N_UNDO, 0), (N_REDO, 0), (N_NEWMAP, 2), (N_GETMAP, 1), (N_SENDMAP, 0),
    (N_EDITVAR, 0), (N_MASTERMODE, 2), (N_KICK, 0), (N_CLEARBANS, 1), (N_CURRENTMASTER, 0),
    (N_SPECTATOR, 3), (N_SETMASTER, 0), (N_SETTEAM, 0), (N_BASES, 0), (N_BASEINFO, 0),
    (N_BASESCORE, 0), (N_REPAMMO, 1), (N_BASEREGEN, 6), (N_ANNOUNCE, 2), (N_LISTDEMOS, 1),
    (N_SENDDEMOLIST, 0), (N_GETDEMO, 3), (N_SENDDEMO, 0), (N_DEMOPLAYBACK, 3), (N_RECORDDEMO, 2),
    (N_STOPDEMO, 1), (N_CLEARDEMOS, 2), (N_TAKEFLAG, 3), (N_RETURNFLAG, 4), (N_RESETFLAG, 6),
    (N_INVISFLAG, 3), (N_TRYDROPFLAG, 1), (N_DROPFLAG, 7), (N_SCOREFLAG, 10), (N_INITFLAGS, 0),
    (N_SAYTEAM, 0), (N_CLIENT, 0), (N_AUTHTRY, 0), (N_AUTHKICK, 0), (N_AUTHCHAL, 0),
    (N_AUTHANS, 0), (N_REQAUTH, 0), (N_PAUSEGAME, 0), (N_GAMESPEED, 0), (N_ADDBOT, 2),
    (N_DELBOT, 1), (N_INITAI, 0), (N_FROMAI, 2), (N_BOTLIMIT, 2), (N_BOTBALANCE, 2),
    (N_MAPCRC, 0), (N_CHECKMAPS, 1), (N_SWITCHNAME, 0), (N_SWITCHMODEL, 2), (N_SWITCHTEAM, 0),
    (N_INITTOKENS, 0), (N_TAKETOKEN, 2), (N_EXPIRETOKENS, 0), (N_DROPTOKENS, 0),
    (N_DEPOSITTOKENS, 2), (N_STEALTOKENS, 0), (N_SERVCMD, 0), (N_DEMOPACKET, 0)
  ]"

definition msgsizelookup :: "int \<Rightarrow> int" where
  "msgsizelookup msg = (if 0 \<le> msg \<and> msg < NUMMSG
     then (case map_of (rev msgsizes) msg of None \<Rightarrow> - 1 | Some n \<Rightarrow> n) else - 1)"

subsection \<open>Effects\<close>

text \<open>\<open>Sendf cn chan args exclude\<close> is a call of \<^verbatim>\<open>sendf\<close> or of \<^verbatim>\<open>sendpacket\<close> with
  the values serialised in order (\<open>cn = -1\<close> broadcasts, except to \<open>exclude\<close>);
  \<open>Event\<close> calls the listeners of a script event, and \<open>Disconnect cn reason\<close> asks the engine to drop a client.
  \<open>SendData cn chan reliable block start size\<close> is a call of \<^verbatim>\<open>sendpacket\<close> with a packet that points to \<open>size\<close> bytes from \<open>start\<close>
  on in a block of memory, and \<open>DemoWrite time chan data\<close> a record of the demo. An argument \<open>MV v\<close> stands for the three
  coordinates of \<open>v\<close> after the sender has scaled and rounded them in floating point, and \<open>MB b\<close> for bytes that are sent
  as they are.\<close>

datatype marg = MI int | MS string | MV vec | MB "uchar list"

datatype effect =
    Sendf int int "marg list" int
  | Event string "marg list"
  | Disconnect int int
  | SendData int int bool nat int int
  | DemoWrite int int "uchar list"

abbreviation sendf :: "int \<Rightarrow> int \<Rightarrow> marg list \<Rightarrow> effect" where
  "sendf cn chan args \<equiv> Sendf cn chan args (- 1)"

end
