(* ===== verification/Game.thy ===== *)
theory Game
  imports Messages
begin

text \<open>
  The rules shared by the game modes, from \<^verbatim>\<open>src/src/fpsgame/game.h\<close>: the
  enumerations, the table of game modes with the \<^verbatim>\<open>m_*\<close> macros, the item and
  weapon tables, and \<^verbatim>\<open>fpsstate\<close>, the health, armour and ammunition of a player,
  with all its operations.
\<close>

subsection \<open>Enumerations\<close>

abbreviation (input) NOTUSED :: int where "NOTUSED \<equiv> 0"
abbreviation (input) LIGHT :: int where "LIGHT \<equiv> 1"
abbreviation (input) MAPMODEL :: int where "MAPMODEL \<equiv> 2"
abbreviation (input) PLAYERSTART :: int where "PLAYERSTART \<equiv> 3"
abbreviation (input) ENVMAP :: int where "ENVMAP \<equiv> 4"
abbreviation (input) PARTICLES :: int where "PARTICLES \<equiv> 5"
abbreviation (input) MAPSOUND :: int where "MAPSOUND \<equiv> 6"
abbreviation (input) SPOTLIGHT :: int where "SPOTLIGHT \<equiv> 7"
abbreviation (input) I_SHELLS :: int where "I_SHELLS \<equiv> 8"
abbreviation (input) I_BULLETS :: int where "I_BULLETS \<equiv> 9"
abbreviation (input) I_ROCKETS :: int where "I_ROCKETS \<equiv> 10"
abbreviation (input) I_ROUNDS :: int where "I_ROUNDS \<equiv> 11"
abbreviation (input) I_GRENADES :: int where "I_GRENADES \<equiv> 12"
abbreviation (input) I_CARTRIDGES :: int where "I_CARTRIDGES \<equiv> 13"
abbreviation (input) I_HEALTH :: int where "I_HEALTH \<equiv> 14"
abbreviation (input) I_BOOST :: int where "I_BOOST \<equiv> 15"
abbreviation (input) I_GREENARMOUR :: int where "I_GREENARMOUR \<equiv> 16"
abbreviation (input) I_YELLOWARMOUR :: int where "I_YELLOWARMOUR \<equiv> 17"
abbreviation (input) I_QUAD :: int where "I_QUAD \<equiv> 18"
abbreviation (input) TELEPORT :: int where "TELEPORT \<equiv> 19"
abbreviation (input) TELEDEST :: int where "TELEDEST \<equiv> 20"
abbreviation (input) MONSTER :: int where "MONSTER \<equiv> 21"
abbreviation (input) CARROT :: int where "CARROT \<equiv> 22"
abbreviation (input) JUMPPAD :: int where "JUMPPAD \<equiv> 23"
abbreviation (input) BASE :: int where "BASE \<equiv> 24"
abbreviation (input) RESPAWNPOINT :: int where "RESPAWNPOINT \<equiv> 25"
abbreviation (input) BOX :: int where "BOX \<equiv> 26"
abbreviation (input) BARREL :: int where "BARREL \<equiv> 27"
abbreviation (input) PLATFORM :: int where "PLATFORM \<equiv> 28"
abbreviation (input) ELEVATOR :: int where "ELEVATOR \<equiv> 29"
abbreviation (input) FLAG :: int where "FLAG \<equiv> 30"
abbreviation (input) MAXENTTYPES :: int where "MAXENTTYPES \<equiv> 31"

abbreviation (input) GUN_FIST :: int where "GUN_FIST \<equiv> 0"
abbreviation (input) GUN_SG :: int where "GUN_SG \<equiv> 1"
abbreviation (input) GUN_CG :: int where "GUN_CG \<equiv> 2"
abbreviation (input) GUN_RL :: int where "GUN_RL \<equiv> 3"
abbreviation (input) GUN_RIFLE :: int where "GUN_RIFLE \<equiv> 4"
abbreviation (input) GUN_GL :: int where "GUN_GL \<equiv> 5"
abbreviation (input) GUN_PISTOL :: int where "GUN_PISTOL \<equiv> 6"
abbreviation (input) GUN_FIREBALL :: int where "GUN_FIREBALL \<equiv> 7"
abbreviation (input) GUN_ICEBALL :: int where "GUN_ICEBALL \<equiv> 8"
abbreviation (input) GUN_SLIMEBALL :: int where "GUN_SLIMEBALL \<equiv> 9"
abbreviation (input) GUN_BITE :: int where "GUN_BITE \<equiv> 10"
abbreviation (input) GUN_BARREL :: int where "GUN_BARREL \<equiv> 11"
abbreviation (input) NUMGUNS :: int where "NUMGUNS \<equiv> 12"

abbreviation (input) A_BLUE :: int where "A_BLUE \<equiv> 0"
abbreviation (input) A_GREEN :: int where "A_GREEN \<equiv> 1"
abbreviation (input) A_YELLOW :: int where "A_YELLOW \<equiv> 2"

abbreviation (input) M_TEAM :: int where "M_TEAM \<equiv> 1"
abbreviation (input) M_NOITEMS :: int where "M_NOITEMS \<equiv> 2"
abbreviation (input) M_NOAMMO :: int where "M_NOAMMO \<equiv> 4"
abbreviation (input) M_INSTA :: int where "M_INSTA \<equiv> 8"
abbreviation (input) M_EFFICIENCY :: int where "M_EFFICIENCY \<equiv> 16"
abbreviation (input) M_TACTICS :: int where "M_TACTICS \<equiv> 32"
abbreviation (input) M_CAPTURE :: int where "M_CAPTURE \<equiv> 64"
abbreviation (input) M_REGEN :: int where "M_REGEN \<equiv> 128"
abbreviation (input) M_CTF :: int where "M_CTF \<equiv> 256"
abbreviation (input) M_PROTECT :: int where "M_PROTECT \<equiv> 512"
abbreviation (input) M_HOLD :: int where "M_HOLD \<equiv> 1024"
abbreviation (input) M_EDIT :: int where "M_EDIT \<equiv> 4096"
abbreviation (input) M_DEMO :: int where "M_DEMO \<equiv> 8192"
abbreviation (input) M_LOCAL :: int where "M_LOCAL \<equiv> 16384"
abbreviation (input) M_LOBBY :: int where "M_LOBBY \<equiv> 32768"
abbreviation (input) M_DMSP :: int where "M_DMSP \<equiv> 65536"
abbreviation (input) M_CLASSICSP :: int where "M_CLASSICSP \<equiv> 131072"
abbreviation (input) M_SLOWMO :: int where "M_SLOWMO \<equiv> 262144"
abbreviation (input) M_COLLECT :: int where "M_COLLECT \<equiv> 524288"

abbreviation (input) CS_ALIVE :: int where "CS_ALIVE \<equiv> 0"
abbreviation (input) CS_DEAD :: int where "CS_DEAD \<equiv> 1"
abbreviation (input) CS_SPAWNING :: int where "CS_SPAWNING \<equiv> 2"
abbreviation (input) CS_LAGGED :: int where "CS_LAGGED \<equiv> 3"
abbreviation (input) CS_EDITING :: int where "CS_EDITING \<equiv> 4"
abbreviation (input) CS_SPECTATOR :: int where "CS_SPECTATOR \<equiv> 5"
abbreviation (input) AI_NONE :: int where "AI_NONE \<equiv> 0"
abbreviation (input) AI_BOT :: int where "AI_BOT \<equiv> 1"
abbreviation (input) PRIV_NONE :: int where "PRIV_NONE \<equiv> 0"
abbreviation (input) PRIV_MASTER :: int where "PRIV_MASTER \<equiv> 1"
abbreviation (input) PRIV_AUTH :: int where "PRIV_AUTH \<equiv> 2"
abbreviation (input) PRIV_ADMIN :: int where "PRIV_ADMIN \<equiv> 3"
abbreviation (input) MM_AUTH :: int where "MM_AUTH \<equiv> - 1"
abbreviation (input) MM_OPEN :: int where "MM_OPEN \<equiv> 0"
abbreviation (input) MM_VETO :: int where "MM_VETO \<equiv> 1"
abbreviation (input) MM_LOCKED :: int where "MM_LOCKED \<equiv> 2"
abbreviation (input) MM_PRIVATE :: int where "MM_PRIVATE \<equiv> 3"
abbreviation (input) MM_PASSWORD :: int where "MM_PASSWORD \<equiv> 4"

subsection \<open>Game modes\<close>

definition gamemodes :: "(string \<times> int) list" where
  "gamemodes =
    [(''SP'', M_LOCAL OR M_CLASSICSP),
     (''DMSP'', M_LOCAL OR M_DMSP),
     (''demo'', M_DEMO OR M_LOCAL),
     (''ffa'', M_LOBBY),
     (''coop edit'', M_EDIT),
     (''teamplay'', M_TEAM),
     (''instagib'', M_NOITEMS OR M_INSTA),
     (''insta team'', M_NOITEMS OR M_INSTA OR M_TEAM),
     (''efficiency'', M_NOITEMS OR M_EFFICIENCY),
     (''effic team'', M_NOITEMS OR M_EFFICIENCY OR M_TEAM),
     (''tactics'', M_NOITEMS OR M_TACTICS),
     (''tac team'', M_NOITEMS OR M_TACTICS OR M_TEAM),
     (''capture'', M_NOAMMO OR M_TACTICS OR M_CAPTURE OR M_TEAM),
     (''regen capture'', M_NOITEMS OR M_CAPTURE OR M_REGEN OR M_TEAM),
     (''ctf'', M_CTF OR M_TEAM),
     (''insta ctf'', M_NOITEMS OR M_INSTA OR M_CTF OR M_TEAM),
     (''protect'', M_CTF OR M_PROTECT OR M_TEAM),
     (''insta protect'', M_NOITEMS OR M_INSTA OR M_CTF OR M_PROTECT OR M_TEAM),
     (''hold'', M_CTF OR M_HOLD OR M_TEAM),
     (''insta hold'', M_NOITEMS OR M_INSTA OR M_CTF OR M_HOLD OR M_TEAM),
     (''effic ctf'', M_NOITEMS OR M_EFFICIENCY OR M_CTF OR M_TEAM),
     (''effic protect'', M_NOITEMS OR M_EFFICIENCY OR M_CTF OR M_PROTECT OR M_TEAM),
     (''effic hold'', M_NOITEMS OR M_EFFICIENCY OR M_CTF OR M_HOLD OR M_TEAM),
     (''collect'', M_COLLECT OR M_TEAM),
     (''insta collect'', M_NOITEMS OR M_INSTA OR M_COLLECT OR M_TEAM),
     (''effic collect'', M_NOITEMS OR M_EFFICIENCY OR M_COLLECT OR M_TEAM)]"

abbreviation (input) STARTGAMEMODE :: int where "STARTGAMEMODE \<equiv> - 3"

definition NUMGAMEMODES :: int where "NUMGAMEMODES = int (length gamemodes)"

definition mode_flags :: "int \<Rightarrow> int" where
  "mode_flags mode = snd (gamemodes ! nat (mode - STARTGAMEMODE))"

definition m_valid :: "int \<Rightarrow> bool" where
  "m_valid mode \<longleftrightarrow> STARTGAMEMODE \<le> mode \<and> mode < STARTGAMEMODE + NUMGAMEMODES"

definition m_check :: "int \<Rightarrow> int \<Rightarrow> bool" where
  "m_check mode flag \<longleftrightarrow> m_valid mode \<and> mode_flags mode AND flag \<noteq> 0"

definition m_checknot :: "int \<Rightarrow> int \<Rightarrow> bool" where
  "m_checknot mode flag \<longleftrightarrow> m_valid mode \<and> mode_flags mode AND flag = 0"

definition m_checkall :: "int \<Rightarrow> int \<Rightarrow> bool" where
  "m_checkall mode flag \<longleftrightarrow> m_valid mode \<and> mode_flags mode AND flag = flag"

definition m_checkonly :: "int \<Rightarrow> int \<Rightarrow> int \<Rightarrow> bool" where
  "m_checkonly mode flag exclude \<longleftrightarrow> m_valid mode \<and> mode_flags mode AND (flag OR exclude) = flag"

definition m_noitems :: "int \<Rightarrow> bool" where "m_noitems g = m_check g M_NOITEMS"
definition m_noammo :: "int \<Rightarrow> bool" where "m_noammo g = m_check g (M_NOAMMO OR M_NOITEMS)"
definition m_insta :: "int \<Rightarrow> bool" where "m_insta g = m_check g M_INSTA"
definition m_tactics :: "int \<Rightarrow> bool" where "m_tactics g = m_check g M_TACTICS"
definition m_efficiency :: "int \<Rightarrow> bool" where "m_efficiency g = m_check g M_EFFICIENCY"
definition m_capture :: "int \<Rightarrow> bool" where "m_capture g = m_check g M_CAPTURE"
definition m_capture_only :: "int \<Rightarrow> bool" where "m_capture_only g = m_checkonly g M_CAPTURE M_REGEN"
definition m_regencapture :: "int \<Rightarrow> bool" where "m_regencapture g = m_checkall g (M_CAPTURE OR M_REGEN)"
definition m_ctf :: "int \<Rightarrow> bool" where "m_ctf g = m_check g M_CTF"
definition m_ctf_only :: "int \<Rightarrow> bool" where "m_ctf_only g = m_checkonly g M_CTF (M_PROTECT OR M_HOLD)"
definition m_protect :: "int \<Rightarrow> bool" where "m_protect g = m_checkall g (M_CTF OR M_PROTECT)"
definition m_hold :: "int \<Rightarrow> bool" where "m_hold g = m_checkall g (M_CTF OR M_HOLD)"
definition m_collect :: "int \<Rightarrow> bool" where "m_collect g = m_check g M_COLLECT"
definition m_teammode :: "int \<Rightarrow> bool" where "m_teammode g = m_check g M_TEAM"
definition m_demo :: "int \<Rightarrow> bool" where "m_demo g = m_check g M_DEMO"
definition m_edit :: "int \<Rightarrow> bool" where "m_edit g = m_check g M_EDIT"
definition m_lobby :: "int \<Rightarrow> bool" where "m_lobby g = m_check g M_LOBBY"
definition m_timed :: "int \<Rightarrow> bool" where "m_timed g = m_checknot g (M_DEMO OR M_EDIT OR M_LOCAL)"
definition m_botmode :: "int \<Rightarrow> bool" where "m_botmode g = m_checknot g (M_DEMO OR M_LOCAL)"
definition m_mp :: "int \<Rightarrow> bool" where "m_mp g = m_checknot g M_LOCAL"
definition m_sp :: "int \<Rightarrow> bool" where "m_sp g = m_check g (M_DMSP OR M_CLASSICSP)"
definition m_dmsp :: "int \<Rightarrow> bool" where "m_dmsp g = m_check g M_DMSP"
definition m_classicsp :: "int \<Rightarrow> bool" where "m_classicsp g = m_check g M_CLASSICSP"

definition isteam :: "int \<Rightarrow> cstr \<Rightarrow> cstr \<Rightarrow> bool" where
  "isteam g a b \<longleftrightarrow> m_teammode g \<and> a = b"

lemmas mode_defs = m_noitems_def m_noammo_def m_insta_def m_tactics_def m_efficiency_def
  m_capture_def m_capture_only_def m_regencapture_def m_ctf_def m_ctf_only_def m_protect_def
  m_hold_def m_collect_def m_teammode_def m_demo_def m_edit_def m_lobby_def m_timed_def
  m_botmode_def m_mp_def m_sp_def m_dmsp_def m_classicsp_def

lemmas mode_eval = mode_defs m_check_def m_checknot_def m_checkall_def m_checkonly_def m_valid_def
  mode_flags_def NUMGAMEMODES_def gamemodes_def

definition mastermodenames :: "string list" where
  "mastermodenames = [''auth'', ''open'', ''veto'', ''locked'', ''private'', ''password'']"

definition mastermodename :: "int \<Rightarrow> string \<Rightarrow> string" where
  "mastermodename n unknown = (if MM_AUTH \<le> n \<and> nat (n - MM_AUTH) < length mastermodenames
     then mastermodenames ! nat (n - MM_AUTH) else unknown)"

definition modename :: "int \<Rightarrow> string \<Rightarrow> string" where
  "modename n unknown = (if m_valid n then fst (gamemodes ! nat (n - STARTGAMEMODE)) else unknown)"

text \<open>\<^verbatim>\<open>modecode\<close> searches the table from the first mode that is not a local one
  (index 3) and falls back to mode 0.\<close>

fun modecode_from :: "string \<Rightarrow> int \<Rightarrow> (string \<times> int) list \<Rightarrow> int" where
  "modecode_from name i [] = 0"
| "modecode_from name i (m # ms) =
     (if name = fst m then i + STARTGAMEMODE else modecode_from name (i + 1) ms)"

definition modecode :: "string \<Rightarrow> int" where
  "modecode name = modecode_from name (0 - STARTGAMEMODE) (drop (nat (0 - STARTGAMEMODE)) gamemodes)"

subsection \<open>Items and weapons\<close>

record itemstat =
  is_add :: int
  is_max :: int
  is_info :: int

definition itemstats :: "itemstat list" where
  "itemstats =
    [\<lparr>is_add = 10, is_max = 30, is_info = GUN_SG\<rparr>,
     \<lparr>is_add = 20, is_max = 60, is_info = GUN_CG\<rparr>,
     \<lparr>is_add = 5, is_max = 15, is_info = GUN_RL\<rparr>,
     \<lparr>is_add = 5, is_max = 15, is_info = GUN_RIFLE\<rparr>,
     \<lparr>is_add = 10, is_max = 30, is_info = GUN_GL\<rparr>,
     \<lparr>is_add = 30, is_max = 120, is_info = GUN_PISTOL\<rparr>,
     \<lparr>is_add = 25, is_max = 100, is_info = - 1\<rparr>,
     \<lparr>is_add = 100, is_max = 200, is_info = 50\<rparr>,
     \<lparr>is_add = 100, is_max = 100, is_info = A_GREEN\<rparr>,
     \<lparr>is_add = 200, is_max = 200, is_info = A_YELLOW\<rparr>,
     \<lparr>is_add = 20000, is_max = 30000, is_info = - 1\<rparr>]"

record guninfo =
  attackdelay :: int
  gun_damage :: int
  spread :: int
  projspeed :: int
  kickamount :: int
  gun_range :: int
  gun_rays :: int
  hitpush :: int
  exprad :: int
  ttl :: int

definition guns :: "guninfo list" where
  "guns =
    [\<lparr>attackdelay = 250, gun_damage = 50, spread = 0, projspeed = 0, kickamount = 0, gun_range = 14, gun_rays = 1, hitpush = 80, exprad = 0, ttl = 0\<rparr>,
     \<lparr>attackdelay = 1400, gun_damage = 10, spread = 400, projspeed = 0, kickamount = 20, gun_range = 1024, gun_rays = 20, hitpush = 80, exprad = 0, ttl = 0\<rparr>,
     \<lparr>attackdelay = 100, gun_damage = 30, spread = 100, projspeed = 0, kickamount = 7, gun_range = 1024, gun_rays = 1, hitpush = 80, exprad = 0, ttl = 0\<rparr>,
     \<lparr>attackdelay = 800, gun_damage = 120, spread = 0, projspeed = 320, kickamount = 10, gun_range = 1024, gun_rays = 1, hitpush = 160, exprad = 40, ttl = 0\<rparr>,
     \<lparr>attackdelay = 1500, gun_damage = 100, spread = 0, projspeed = 0, kickamount = 30, gun_range = 2048, gun_rays = 1, hitpush = 80, exprad = 0, ttl = 0\<rparr>,
     \<lparr>attackdelay = 600, gun_damage = 90, spread = 0, projspeed = 200, kickamount = 10, gun_range = 1024, gun_rays = 1, hitpush = 250, exprad = 45, ttl = 1500\<rparr>,
     \<lparr>attackdelay = 500, gun_damage = 35, spread = 50, projspeed = 0, kickamount = 7, gun_range = 1024, gun_rays = 1, hitpush = 80, exprad = 0, ttl = 0\<rparr>,
     \<lparr>attackdelay = 200, gun_damage = 20, spread = 0, projspeed = 200, kickamount = 1, gun_range = 1024, gun_rays = 1, hitpush = 80, exprad = 40, ttl = 0\<rparr>,
     \<lparr>attackdelay = 200, gun_damage = 40, spread = 0, projspeed = 120, kickamount = 1, gun_range = 1024, gun_rays = 1, hitpush = 80, exprad = 40, ttl = 0\<rparr>,
     \<lparr>attackdelay = 200, gun_damage = 30, spread = 0, projspeed = 640, kickamount = 1, gun_range = 1024, gun_rays = 1, hitpush = 80, exprad = 40, ttl = 0\<rparr>,
     \<lparr>attackdelay = 250, gun_damage = 50, spread = 0, projspeed = 0, kickamount = 1, gun_range = 12, gun_rays = 1, hitpush = 80, exprad = 0, ttl = 0\<rparr>,
     \<lparr>attackdelay = 0, gun_damage = 120, spread = 0, projspeed = 0, kickamount = 0, gun_range = 0, gun_rays = 1, hitpush = 80, exprad = 40, ttl = 0\<rparr>]"

definition EXP_SELFDAMDIV :: int where "EXP_SELFDAMDIV = 2"
definition EXP_DISTSCALE :: rat where "EXP_DISTSCALE = 3 / 2"

definition itemstat_of :: "int \<Rightarrow> itemstat" where
  "itemstat_of i = itemstats ! nat i"

definition gun :: "int \<Rightarrow> guninfo" where
  "gun g = guns ! nat g"

subsection \<open>fpsstate\<close>

record fpsstate =
  health :: int
  maxhealth :: int
  armour :: int
  armourtype :: int
  quadmillis :: int
  gunselect :: int
  gunwait :: int
  ammo :: "int list"
  aitype :: int
  skill :: int

definition baseammo :: "int \<Rightarrow> int \<Rightarrow> int \<Rightarrow> fpsstate \<Rightarrow> fpsstate" where
  "baseammo g k scale s =
     s\<lparr>ammo := (ammo s)[nat g := cdiv (is_add (itemstat_of (g - GUN_SG)) * k) scale]\<rparr>"

definition addammo :: "int \<Rightarrow> int \<Rightarrow> int \<Rightarrow> fpsstate \<Rightarrow> fpsstate" where
  "addammo g k scale s = (let is = itemstat_of (g - GUN_SG)
     in s\<lparr>ammo := (ammo s)[nat g := min (ammo s ! nat g + cdiv (is_add is * k) scale) (is_max is)]\<rparr>)"

definition hasmaxammo :: "int \<Rightarrow> fpsstate \<Rightarrow> bool" where
  "hasmaxammo type s \<longleftrightarrow> ammo s ! nat (type - I_SHELLS + GUN_SG) \<ge> is_max (itemstat_of (type - I_SHELLS))"

text \<open>The case of the green armour falls through into that of the yellow one.\<close>

definition canpickup :: "int \<Rightarrow> fpsstate \<Rightarrow> bool" where
  "canpickup type s =
     (if type < I_SHELLS \<or> type > I_QUAD then False
      else let is = itemstat_of (type - I_SHELLS)
        in if type = I_BOOST then maxhealth s < is_max is \<or> health s < maxhealth s
           else if type = I_HEALTH then health s < maxhealth s
           else if type = I_GREENARMOUR \<and> armourtype s = A_YELLOW \<and> armour s \<ge> 100 then False
           else if type = I_GREENARMOUR \<or> type = I_YELLOWARMOUR
             then armourtype s = 0 \<or> armour s < is_max is
           else if type = I_QUAD then quadmillis s < is_max is
           else ammo s ! nat (is_info is) < is_max is)"

definition pickup_health :: "itemstat \<Rightarrow> fpsstate \<Rightarrow> fpsstate" where
  "pickup_health is s = s\<lparr>health := min (health s + is_add is) (maxhealth s)\<rparr>"

definition pickup :: "int \<Rightarrow> fpsstate \<Rightarrow> fpsstate" where
  "pickup type s =
     (if type < I_SHELLS \<or> type > I_QUAD then s
      else let is = itemstat_of (type - I_SHELLS)
        in if type = I_BOOST
             then pickup_health is (s\<lparr>maxhealth := min (maxhealth s + is_info is) (is_max is)\<rparr>)
           else if type = I_HEALTH then pickup_health is s
           else if type = I_GREENARMOUR \<or> type = I_YELLOWARMOUR
             then s\<lparr>armour := min (armour s + is_add is) (is_max is), armourtype := is_info is\<rparr>
           else if type = I_QUAD then s\<lparr>quadmillis := min (quadmillis s + is_add is) (is_max is)\<rparr>
           else s\<lparr>ammo := (ammo s)[nat (is_info is) :=
                    min (ammo s ! nat (is_info is) + is_add is) (is_max is)]\<rparr>)"

definition fps_respawn :: "fpsstate \<Rightarrow> fpsstate" where
  "fps_respawn s = s\<lparr>maxhealth := 100, health := 100, armour := 0, armourtype := A_BLUE,
     quadmillis := 0, gunselect := GUN_PISTOL, gunwait := 0,
     ammo := (replicate (nat NUMGUNS) 0)[nat GUN_FIST := 1]\<rparr>"

text \<open>The loop that draws a second gun until it differs from the first may, for an unlucky
  random source, never end: \<open>None\<close>.\<close>

partial_function (option) draw_other :: "int \<Rightarrow> rng \<Rightarrow> (int \<times> rng) option" where
  "draw_other g1 r = (let g2 = fst (rnd 5 r) + 1
     in if g1 = g2 then draw_other g1 (snd (rnd 5 r)) else Some (g2, snd (rnd 5 r)))"

text \<open>\<open>has\<close> is the setting \<^verbatim>\<open>server::hide_and_seek\<close>, \<open>rba\<close> is
  \<^verbatim>\<open>server::regenbluearmour\<close>.\<close>

definition spawnstate :: "bool \<Rightarrow> bool \<Rightarrow> int \<Rightarrow> fpsstate \<Rightarrow> rng \<Rightarrow> (fpsstate \<times> rng) option" where
  "spawnstate has rba g s r =
     (if m_demo g then Some (s\<lparr>gunselect := GUN_FIST\<rparr>, r)
      else if m_insta g
      then Some (s\<lparr>armour := 0, health := 1, gunselect := GUN_RIFLE,
                   ammo := (ammo s)[nat GUN_RIFLE := 100]\<rparr>, r)
      else if m_regencapture g
      then (let s = (if rba then s\<lparr>armourtype := A_BLUE, armour := 25\<rparr> else s)
            in Some (s\<lparr>gunselect := GUN_PISTOL,
                       ammo := (ammo s)[nat GUN_PISTOL := 40, nat GUN_GL := 1]\<rparr>, r))
      else if m_tactics g
      then (let s = s\<lparr>armourtype := A_GREEN, armour := 100, ammo := (ammo s)[nat GUN_PISTOL := 40]\<rparr>;
                (d, r) = rnd 5 r; spawngun1 = d + 1;
                s = baseammo spawngun1 (if m_noitems g then 2 else 1) 1 (s\<lparr>gunselect := spawngun1\<rparr>)
            in case draw_other spawngun1 r of
                 None \<Rightarrow> None
               | Some (spawngun2, r) \<Rightarrow>
                   (let s = baseammo spawngun2 (if m_noitems g then 2 else 1) 1 s
                    in Some (if m_noitems g
                             then s\<lparr>ammo := (ammo s)[nat GUN_GL := ammo s ! nat GUN_GL + 1]\<rparr> else s, r)))
      else if m_efficiency g
      then (let s = s\<lparr>armourtype := A_GREEN, armour := 100\<rparr>
            in if has
               then Some ((fold (\<lambda>i s. baseammo (i + 1) 10 1 s) [0, 1, 2, 3, 4] s)\<lparr>gunselect := GUN_GL\<rparr>, r)
               else (let s = (fold (\<lambda>i s. baseammo (i + 1) 2 1 s) [0, 1, 2, 3, 4] s)\<lparr>gunselect := GUN_CG\<rparr>
                     in Some (s\<lparr>ammo := (ammo s)[nat GUN_CG := cdiv (ammo s ! nat GUN_CG) 2]\<rparr>, r)))
      else if m_ctf g \<or> m_collect g
      then Some (s\<lparr>armourtype := A_BLUE, armour := 50,
                   ammo := (ammo s)[nat GUN_PISTOL := 40, nat GUN_GL := 1]\<rparr>, r)
      else if m_sp g
      then (let s = (if m_dmsp g then s\<lparr>armourtype := A_BLUE, armour := 25\<rparr> else s)
            in Some (s\<lparr>ammo := (ammo s)[nat GUN_PISTOL := 80, nat GUN_GL := 1]\<rparr>, r))
      else Some (s\<lparr>armourtype := A_BLUE, armour := 25,
                   ammo := (ammo s)[nat GUN_PISTOL := 40, nat GUN_GL := 1]\<rparr>, r))"

text \<open>Armour absorbs 25, 50 or 75 percent of the damage as far as it lasts. The result is
  what the health lost. The product is exact here; the program's has 32 bits, which makes no difference for damage of less than 28 million
  points, and only a shot whose rays have wrapped around can have more (\<open>shot_damage\<close> in the theory \<open>Combat\<close>).\<close>

definition fps_dodamage :: "int \<Rightarrow> fpsstate \<Rightarrow> int \<times> fpsstate" where
  "fps_dodamage dmg s =
     (let ad = cdiv (dmg * (armourtype s + 1) * 25) 100;
          ad = (if ad > armour s then armour s else ad);
          dmg = dmg - ad
      in (dmg, s\<lparr>armour := armour s - ad, health := health s - dmg\<rparr>))"

text \<open>The bound on the gun is off by one: \<open>gun = NUMGUNS\<close> reads past the array, \<open>None\<close>.\<close>

definition hasammo :: "int \<Rightarrow> int \<Rightarrow> fpsstate \<Rightarrow> bool option" where
  "hasammo g exclude s =
     (if g \<ge> 0 \<and> g \<le> NUMGUNS \<and> g \<noteq> exclude
      then (if nat g < length (ammo s) then Some (ammo s ! nat g > 0) else None)
      else Some False)"


subsection \<open>The table of modes\<close>

lemma valid_mode_induct:
  assumes "\<forall>g \<in> set [- 3..22]. m_valid g \<longrightarrow> P g" and "m_valid g"
  shows "P g"
proof -
  have "g \<in> set [- 3..22]"
    unfolding set_upto using assms(2) by (simp add: m_valid_def NUMGAMEMODES_def gamemodes_def)
  with assms show ?thesis by blast
qed

text \<open>Capture, flag and collect modes exclude each other, every one of them is a team
  mode that is played against the clock, and no other mode than those three kinds uses the
  team score of a mode object.\<close>

lemma objective_modes_exclusive:
  assumes "m_valid g"
  shows "\<not> (m_capture g \<and> m_ctf g) \<and> \<not> (m_capture g \<and> m_collect g) \<and> \<not> (m_ctf g \<and> m_collect g)
    \<and> (m_capture g \<or> m_ctf g \<or> m_collect g \<longrightarrow> m_teammode g \<and> m_timed g \<and> m_botmode g)
    \<and> (m_protect g \<or> m_hold g \<or> m_ctf_only g \<longleftrightarrow> m_ctf g)
    \<and> (m_regencapture g \<or> m_capture_only g \<longleftrightarrow> m_capture g)"
  by (rule valid_mode_induct [OF _ assms]) code_simp

text \<open>The name of a multiplayer mode is turned back into the same mode number by
  \<^verbatim>\<open>modecode\<close>, so the text of a vote and the number of the mode agree.\<close>

lemma modecode_modename:
  assumes "m_valid g" and "0 \<le> g"
  shows "modecode (modename g unknown) = g"
proof -
  have "\<forall>g \<in> set [- 3..22]. m_valid g \<longrightarrow> 0 \<le> g
      \<longrightarrow> modecode (fst (gamemodes ! nat (g - STARTGAMEMODE))) = g" by code_simp
  from valid_mode_induct [OF this assms(1)] assms show ?thesis by (simp add: modename_def)
qed

subsection \<open>The state of a player\<close>

text \<open>The invariant of a player's state: health below its ceiling, the ceiling and the armour
  within what the items give, one ammunition counter per gun, none negative.\<close>

definition fps_ok :: "fpsstate \<Rightarrow> bool" where
  "fps_ok s \<longleftrightarrow> health s \<le> maxhealth s \<and> 100 \<le> maxhealth s \<and> maxhealth s \<le> 200
     \<and> A_BLUE \<le> armourtype s \<and> armourtype s \<le> A_YELLOW
     \<and> 0 \<le> armour s \<and> armour s \<le> (if armourtype s = A_YELLOW then 200 else 100)
     \<and> 0 \<le> quadmillis s \<and> quadmillis s \<le> 30000
     \<and> length (ammo s) = nat NUMGUNS \<and> (\<forall>a \<in> set (ammo s). 0 \<le> a)"

lemma item_types:
  assumes "I_SHELLS \<le> t" "t \<le> I_QUAD"
  obtains "t = I_SHELLS" | "t = I_BULLETS" | "t = I_ROCKETS" | "t = I_ROUNDS" | "t = I_GRENADES"
    | "t = I_CARTRIDGES" | "t = I_HEALTH" | "t = I_BOOST" | "t = I_GREENARMOUR"
    | "t = I_YELLOWARMOUR" | "t = I_QUAD"
proof -
  have "t = I_SHELLS \<or> t = I_BULLETS \<or> t = I_ROCKETS \<or> t = I_ROUNDS \<or> t = I_GRENADES
      \<or> t = I_CARTRIDGES \<or> t = I_HEALTH \<or> t = I_BOOST \<or> t = I_GREENARMOUR
      \<or> t = I_YELLOWARMOUR \<or> t = I_QUAD"
    using assms by arith
  then show thesis using that by blast
qed

lemma all_update_nonneg:
  "(\<forall>a \<in> set xs. 0 \<le> a) \<Longrightarrow> 0 \<le> (v::int) \<Longrightarrow> \<forall>a \<in> set (xs[i := v]). 0 \<le> a"
  by (auto dest!: set_update_subset_insert [THEN subsetD])

lemma ammo_nonneg: "fps_ok s \<Longrightarrow> 0 \<le> g \<Longrightarrow> g < NUMGUNS \<Longrightarrow> 0 \<le> ammo s ! nat g"
  by (auto simp: fps_ok_def)

lemma set_ammo_ok [preserves]:
  "fps_ok s \<Longrightarrow> 0 \<le> v \<Longrightarrow> fps_ok (s\<lparr>ammo := (ammo s)[i := v]\<rparr>)"
  unfolding fps_ok_def using all_update_nonneg [of "ammo s" v i] by simp

lemma pickup_ammo:
  assumes "fps_ok s" "t \<in> {I_SHELLS..I_CARTRIDGES}"
  shows "fps_ok (pickup t s)" 
proof -
  have g: "0 \<le> is_info (itemstat_of (t - I_SHELLS)) \<and> is_info (itemstat_of (t - I_SHELLS)) < NUMGUNS
      \<and> 0 \<le> is_add (itemstat_of (t - I_SHELLS)) \<and> 0 \<le> is_max (itemstat_of (t - I_SHELLS))"
    by (rule item_types [of t]) (use assms(2) in \<open>simp_all add: itemstat_of_def itemstats_def\<close>)
  then have "0 \<le> ammo s ! nat (is_info (itemstat_of (t - I_SHELLS)))"
    using ammo_nonneg [OF assms(1)] by blast
  with g assms show ?thesis
    by (auto simp: pickup_def Let_def intro!: set_ammo_ok)
qed

lemma pickup_ok [preserves]: "fps_ok s \<Longrightarrow> fps_ok (pickup t s)"
proof (cases "t < I_HEALTH \<or> I_QUAD < t")
  case True
  assume "fps_ok s"
  then show ?thesis
    using True pickup_ammo [of s t] by (cases "t < I_SHELLS \<or> I_QUAD < t") (auto simp: pickup_def)
next
  case False
  assume ok: "fps_ok s"
  from False have "t = I_HEALTH \<or> t = I_BOOST \<or> t = I_GREENARMOUR \<or> t = I_YELLOWARMOUR \<or> t = I_QUAD"
    by arith
  then show ?thesis using ok
    by (elim disjE) (auto simp: pickup_def pickup_health_def itemstat_of_def itemstats_def
      fps_ok_def Let_def min_def)
qed

lemma fps_respawn_ok [preserves]: "fps_ok (fps_respawn s)"
  by (simp add: fps_ok_def fps_respawn_def eval_nat_numeral)

lemma baseammo_ok [preserves]:
  assumes "fps_ok s" "g \<in> {GUN_SG..GUN_PISTOL}" "0 \<le> k" "0 < scale"
  shows "fps_ok (baseammo g k scale s)"
proof -
  have "0 \<le> is_add (itemstat_of (g - GUN_SG))"
  proof -
    have "g = 1 \<or> g = 2 \<or> g = 3 \<or> g = 4 \<or> g = 5 \<or> g = 6" using assms(2) by auto
    then show ?thesis by (elim disjE) (simp_all add: itemstat_of_def itemstats_def)
  qed
  then have "0 \<le> cdiv (is_add (itemstat_of (g - GUN_SG)) * k) scale"
    using assms(3,4) by (simp add: pos_imp_zdiv_nonneg_iff)
  then show ?thesis unfolding baseammo_def by (rule set_ammo_ok [OF assms(1)])
qed

lemma addammo_ok [preserves]:
  assumes "fps_ok s" "g \<in> {GUN_SG..GUN_PISTOL}" "0 \<le> k" "0 < scale"
  shows "fps_ok (addammo g k scale s)"
proof -
  have st: "0 \<le> is_add (itemstat_of (g - GUN_SG)) \<and> 0 \<le> is_max (itemstat_of (g - GUN_SG))"
  proof -
    have "g = 1 \<or> g = 2 \<or> g = 3 \<or> g = 4 \<or> g = 5 \<or> g = 6" using assms(2) by auto
    then show ?thesis by (elim disjE) (simp_all add: itemstat_of_def itemstats_def)
  qed
  moreover have "0 \<le> ammo s ! nat g" by (rule ammo_nonneg [OF assms(1)]) (use assms(2) in auto)
  ultimately have "0 \<le> min (ammo s ! nat g + cdiv (is_add (itemstat_of (g - GUN_SG)) * k) scale)
      (is_max (itemstat_of (g - GUN_SG)))"
    using assms(3,4) by (simp add: pos_imp_zdiv_nonneg_iff)
  then show ?thesis unfolding addammo_def Let_def by (rule set_ammo_ok [OF assms(1)])
qed

lemma draw_other_range:
  assumes "draw_other g1 r = Some (g2, r')"
  shows "1 \<le> g2 \<and> g2 \<le> 5 \<and> g2 \<noteq> g1"
proof -
  have "1 \<le> fst p \<and> fst p \<le> 5 \<and> fst p \<noteq> g1" if "draw_other g1 r = Some p" for p
  proof (rule draw_other.raw_induct [OF _ that])
    fix f g1 r p
    assume IH: "\<And>g1 r p. f g1 r = Some p \<Longrightarrow> 1 \<le> fst p \<and> fst p \<le> 5 \<and> fst p \<noteq> g1"
      and eq: "(let g2 = fst (rnd 5 r) + 1
        in if g1 = g2 then f g1 (snd (rnd 5 r)) else Some (g2, snd (rnd 5 r))) = Some p"
    show "1 \<le> fst p \<and> fst p \<le> 5 \<and> fst p \<noteq> g1"
    proof (cases "g1 = fst (rnd 5 r) + 1")
      case True
      with eq show ?thesis by (auto simp: Let_def dest: IH)
    next
      case False
      with eq rnd_bounds [of 5 r] show ?thesis by (auto simp: Let_def)
    qed
  qed
  from this [OF assms] show ?thesis by simp
qed

text \<open>The second draw ends as soon as the source yields another gun.\<close>

lemma draw_other_ends:
  "fst (rnd 5 (\<lambda>k. r (n + k))) + 1 \<noteq> g1 \<Longrightarrow> \<exists>g2 r'. draw_other g1 r = Some (g2, r')"
proof (induction n arbitrary: r)
  case 0
  then show ?case by (subst draw_other.simps) (simp add: Let_def)
next
  case (Suc n)
  have "\<exists>g2 r'. draw_other g1 (\<lambda>k. r (Suc k)) = Some (g2, r')" by (rule Suc.IH) (use Suc.prems in simp)
  then show ?case by (subst draw_other.simps) (auto simp: Let_def rnd_def)
qed

lemma fps_ok_updates [preserves]:
  "fps_ok s \<Longrightarrow> fps_ok (s\<lparr>gunselect := g\<rparr>)"
  "fps_ok s \<Longrightarrow> armour s = 0 \<Longrightarrow> h \<le> 100 \<Longrightarrow> fps_ok (s\<lparr>armour := 0, health := h\<rparr>)"
  "fps_ok s \<Longrightarrow> 0 \<le> t \<Longrightarrow> t < A_YELLOW \<Longrightarrow> 0 \<le> a \<Longrightarrow> a \<le> 100 \<Longrightarrow> fps_ok (s\<lparr>armourtype := t, armour := a\<rparr>)"
  by (auto simp: fps_ok_def)

lemma fold_baseammo_ok [preserves]:
  "fps_ok s \<Longrightarrow> 0 \<le> k \<Longrightarrow> fps_ok (fold (\<lambda>i s. baseammo (i + 1) k 1 s) [0, 1, 2, 3, 4] s)"
  by (auto intro!: baseammo_ok)

lemma set_ammo2_ok [preserves]:
  "fps_ok s \<Longrightarrow> 0 \<le> v \<Longrightarrow> 0 \<le> w \<Longrightarrow> fps_ok (s\<lparr>ammo := (ammo s)[i := v, j := w]\<rparr>)"
  using set_ammo_ok [OF set_ammo_ok, of s v w i j] by simp

lemma armour_ammo_ok [preserves]:
  "fps_ok s \<Longrightarrow> 0 \<le> t \<Longrightarrow> t < A_YELLOW \<Longrightarrow> 0 \<le> a \<Longrightarrow> a \<le> 100 \<Longrightarrow> 0 \<le> v
    \<Longrightarrow> fps_ok (s\<lparr>armourtype := t, armour := a, ammo := (ammo s)[i := v]\<rparr>)"
  using set_ammo_ok [OF fps_ok_updates(3), of s t a v i] by simp

lemma armour_ammo2_ok [preserves]:
  "fps_ok s \<Longrightarrow> 0 \<le> t \<Longrightarrow> t < A_YELLOW \<Longrightarrow> 0 \<le> a \<Longrightarrow> a \<le> 100 \<Longrightarrow> 0 \<le> v \<Longrightarrow> 0 \<le> w
    \<Longrightarrow> fps_ok (s\<lparr>armourtype := t, armour := a, ammo := (ammo s)[i := v, j := w]\<rparr>)"
  using set_ammo2_ok [OF fps_ok_updates(3), of s t a v w i j] by simp

lemma spawnstate_tactics:
  assumes "m_tactics g" "\<not> m_demo g" "\<not> m_insta g" "\<not> m_regencapture g" "fps_ok s"
    and sp: "spawnstate has rba g s r = Some (s', r')"
  shows "fps_ok s'"
proof -
  define n :: int where "n = (if m_noitems g then 2 else 1)"
  define s1 where "s1 = s\<lparr>armourtype := A_GREEN, armour := 100, ammo := (ammo s)[nat GUN_PISTOL := 40]\<rparr>"
  define g1 where "g1 = fst (rnd 5 r) + 1"
  define s2 where "s2 = baseammo g1 n 1 (s1\<lparr>gunselect := g1\<rparr>)"
  have g1: "1 \<le> g1 \<and> g1 \<le> 5" using rnd_bounds [of 5 r] by (simp add: g1_def)
  have n: "0 \<le> n" by (simp add: n_def)
  have "fps_ok s1" unfolding s1_def by (rule armour_ammo_ok) (simp_all add: assms)
  then have ok2: "fps_ok s2" unfolding s2_def
    by (intro baseammo_ok fps_ok_updates) (use g1 n in auto)
  from sp obtain g2 r2 where d: "draw_other g1 (snd (rnd 5 r)) = Some (g2, r2)"
    and s': "s' = (if m_noitems g then (baseammo g2 n 1 s2)\<lparr>ammo := (ammo (baseammo g2 n 1 s2))
        [nat GUN_GL := ammo (baseammo g2 n 1 s2) ! nat GUN_GL + 1]\<rparr> else baseammo g2 n 1 s2)"
    using assms(1-4) unfolding spawnstate_def
    by (auto simp: Let_def case_prod_beta s2_def g1_def s1_def n_def split: option.splits)
  have ok3: "fps_ok (baseammo g2 n 1 s2)"
    by (rule baseammo_ok [OF ok2]) (use draw_other_range [OF d] n in auto)
  moreover have "0 \<le> ammo (baseammo g2 n 1 s2) ! nat GUN_GL" by (rule ammo_nonneg [OF ok3]) auto
  ultimately show ?thesis unfolding s' by (auto intro!: set_ammo_ok)
qed

lemma spawnstate_ok [preserves]:
  assumes "fps_ok s" "armour s = 0" and sp: "spawnstate has rba g s r = Some (s', r')"
  shows "fps_ok s'"
proof (cases "m_tactics g \<and> \<not> m_demo g \<and> \<not> m_insta g \<and> \<not> m_regencapture g")
  case True
  then show ?thesis using spawnstate_tactics assms by blast
next
  case False
  define f where "f k = fold (\<lambda>i s. baseammo (i + 1) k 1 s) [0, 1, 2, 3, 4]
    (s\<lparr>armourtype := A_GREEN, armour := 100\<rparr>)" for k
  have okf: "fps_ok (f k)" if "0 \<le> k" for k
    unfolding f_def using assms that by (intro fold_baseammo_ok fps_ok_updates) auto
  have cg: "0 \<le> ammo (f 2) ! nat GUN_CG" by (rule ammo_nonneg [OF okf]) auto
  have "0 \<le> cdiv (ammo (f 2) ! nat GUN_CG) 2"
    using cg by (simp add: pos_imp_zdiv_nonneg_iff)
  then have eff: "fps_ok ((f 2)\<lparr>ammo := (ammo (f 2))[nat GUN_CG := cdiv (ammo (f 2) ! nat GUN_CG) 2]\<rparr>)"
    by (intro set_ammo_ok okf) auto
  have r: "(f 2)\<lparr>gunselect := GUN_CG, ammo := (ammo (f 2))[nat GUN_CG := cdiv (ammo (f 2) ! nat GUN_CG) 2]\<rparr>
    = ((f 2)\<lparr>ammo := (ammo (f 2))[nat GUN_CG := cdiv (ammo (f 2) ! nat GUN_CG) 2]\<rparr>)\<lparr>gunselect := GUN_CG\<rparr>" by simp
  have gs: "fps_ok (s\<lparr>gunselect := x, ammo := (ammo s)[i := v, j := w]\<rparr>)"
    "fps_ok (s\<lparr>armourtype := A_BLUE, armour := 25, gunselect := x, ammo := (ammo s)[i := v, j := w]\<rparr>)"
    "fps_ok (s\<lparr>armour := 0, health := 1, gunselect := x, ammo := (ammo s)[i := v]\<rparr>)"
    if "0 \<le> v" "0 \<le> w" for x i v j w
    using set_ammo2_ok [OF fps_ok_updates(1), of s v w x i j]
      set_ammo2_ok [OF fps_ok_updates(1) [OF fps_ok_updates(3)], of s A_BLUE 25 v w x i j]
      set_ammo_ok [OF fps_ok_updates(1) [OF fps_ok_updates(2)], of s 1 v x i] that assms
    by simp_all
  consider (demo) "m_demo g" | (insta) "\<not> m_demo g" "m_insta g"
    | (regen) "\<not> m_demo g" "\<not> m_insta g" "m_regencapture g"
    | (efficiency) "\<not> m_demo g" "\<not> m_insta g" "\<not> m_regencapture g" "\<not> m_tactics g" "m_efficiency g"
    | (rest) "\<not> m_demo g" "\<not> m_insta g" "\<not> m_regencapture g" "\<not> m_tactics g" "\<not> m_efficiency g"
    using False by blast
  then show ?thesis
  proof cases
    case demo
    with sp assms show ?thesis by (auto simp: spawnstate_def intro: fps_ok_updates)
  next
    case insta
    with sp show ?thesis by (auto simp: spawnstate_def gs(3) [of 100 0])
  next
    case regen
    with sp show ?thesis by (cases rba) (auto simp: spawnstate_def Let_def gs)
  next
    case efficiency
    with sp have "s' = (f 10)\<lparr>gunselect := GUN_GL\<rparr>
      \<or> s' = (f 2)\<lparr>gunselect := GUN_CG, ammo := (ammo (f 2))[nat GUN_CG := cdiv (ammo (f 2) ! nat GUN_CG) 2]\<rparr>"
      by (cases has) (simp_all add: spawnstate_def f_def Let_def del: fold_simps)
    then show ?thesis
      using fps_ok_updates(1) [OF okf [of 10]] fps_ok_updates(1) [OF eff] unfolding r by auto
  next
    case rest
    with sp assms show ?thesis
      by (auto simp: spawnstate_def Let_def set_ammo2_ok armour_ammo2_ok split: if_splits)
  qed
qed

lemma fps_dodamage_absorbed:
  assumes "fps_ok s" "0 \<le> d" "fps_dodamage d s = (lost, s')"
  defines "ad \<equiv> min (armour s) (d * (armourtype s + 1) * 25 div 100)"
  shows "armour s' = armour s - ad \<and> health s' = health s - (d - ad) \<and> lost = d - ad
    \<and> 0 \<le> ad \<and> ad \<le> d"
proof -
  have t: "0 \<le> armourtype s" "armourtype s \<le> 2" "0 \<le> armour s" using assms(1) by (auto simp: fps_ok_def)
  have nn: "0 \<le> d * (armourtype s + 1) * 25" using t assms(2) by simp
  have "d * (armourtype s + 1) \<le> d * 4" by (rule mult_left_mono) (use t assms(2) in auto)
  then have "d * (armourtype s + 1) * 25 div 100 \<le> d" by simp
  moreover have "0 \<le> d * (armourtype s + 1) * 25 div 100" using nn by simp
  ultimately show ?thesis
    using assms(3) t nn unfolding fps_dodamage_def ad_def by (auto simp: Let_def min_def)
qed

lemma fps_dodamage_ok [preserves]:
  assumes "fps_ok s" "0 \<le> d" "fps_dodamage d s = (lost, s')"
  shows "fps_ok s'"
proof -
  have eq: "s' = s\<lparr>armour := armour s', health := health s'\<rparr>"
    using assms(3) by (auto simp: fps_dodamage_def Let_def)
  have "0 \<le> armour s' \<and> armour s' \<le> armour s \<and> health s' \<le> health s"
    using fps_dodamage_absorbed [OF assms] by auto
  then show ?thesis using assms(1) by (subst eq) (auto simp: fps_ok_def split: if_splits)
qed


definition sample_player :: fpsstate where
  "sample_player = fps_respawn \<lparr>health = 0, maxhealth = 0, armour = 0, armourtype = 0,
     quadmillis = 0, gunselect = 0, gunwait = 0, ammo = [], aitype = 0, skill = 0\<rparr>"




text \<open>An item that may be picked up changes the player, and for the better: no counter goes
  down except that green armour may replace worn yellow armour, and the item is then worth
  taking, since the armour points grow.\<close>

lemma pickup_improves:
  assumes "fps_ok s" and "canpickup t s"
  shows "pickup t s \<noteq> s \<and> health s \<le> health (pickup t s) \<and> maxhealth s \<le> maxhealth (pickup t s)
    \<and> armour s \<le> armour (pickup t s) \<and> quadmillis s \<le> quadmillis (pickup t s)
    \<and> (\<forall>g < length (ammo s). ammo s ! g \<le> ammo (pickup t s) ! g)"
proof -
  have r: "I_SHELLS \<le> t" "t \<le> I_QUAD" using assms(2) by (auto simp: canpickup_def split: if_splits)
  have l: "length (ammo s) = 12" using assms(1) by (simp add: fps_ok_def)
  have upd: "s\<lparr>ammo := (ammo s)[i := v]\<rparr> \<noteq> s \<and> (\<forall>g < length (ammo s). ammo s ! g \<le> (ammo s)[i := v] ! g)"
    if "ammo s ! i < v" "i < 12" for i v
    using that l by (auto simp: nth_list_update dest: arg_cong [where f = "\<lambda>s. ammo s ! i"])
  have changed: "pickup t s \<noteq> s" if "f (pickup t s) \<noteq> f s" for f :: "fpsstate \<Rightarrow> int"
    using that by auto
  show ?thesis
  proof (cases "t \<le> I_CARTRIDGES")
    case True
    define i where "i = nat (is_info (itemstat_of (t - I_SHELLS)))"
    define v where "v = min (ammo s ! i + is_add (itemstat_of (t - I_SHELLS))) (is_max (itemstat_of (t - I_SHELLS)))"
    have st: "0 < is_add (itemstat_of (t - I_SHELLS)) \<and> i < 12"
      unfolding i_def by (rule item_types [OF r]) (use True in \<open>simp_all add: itemstat_of_def itemstats_def\<close>)
    have "ammo s ! i < v" using assms(2) r True st unfolding canpickup_def v_def i_def
      by (auto simp: Let_def)
    moreover have "pickup t s = s\<lparr>ammo := (ammo s)[i := v]\<rparr>"
      using r True unfolding pickup_def v_def i_def by (auto simp: Let_def)
    ultimately show ?thesis using upd [of i v] st by simp
  next
    case False
    with r have "t = I_HEALTH \<or> t = I_BOOST \<or> t = I_GREENARMOUR \<or> t = I_YELLOWARMOUR \<or> t = I_QUAD"
      by arith
    then show ?thesis using assms changed [of health] changed [of maxhealth] changed [of armour]
        changed [of armourtype] changed [of quadmillis]
      by (elim disjE) (auto simp: canpickup_def pickup_def pickup_health_def itemstat_of_def itemstats_def
        fps_ok_def Let_def min_def split: if_splits)
  qed
qed

lemma spawnstate_tactics_ready:
  assumes "m_tactics g" "\<not> m_demo g" "\<not> m_insta g" "\<not> m_regencapture g" "length (ammo s) = 12"
    and sp: "spawnstate has rba g s r = Some (s', r')"
  shows "health s' = health s \<and> 0 < ammo s' ! nat (gunselect s')"
proof -
  define n :: int where "n = (if m_noitems g then 2 else 1)"
  define s1 where "s1 = s\<lparr>armourtype := A_GREEN, armour := 100, ammo := (ammo s)[nat GUN_PISTOL := 40]\<rparr>"
  define g1 where "g1 = fst (rnd 5 r) + 1"
  define s2 where "s2 = baseammo g1 n 1 (s1\<lparr>gunselect := g1\<rparr>)"
  have g1: "1 \<le> g1 \<and> g1 \<le> 5" using rnd_bounds [of 5 r] by (simp add: g1_def)
  have n: "0 < n" by (simp add: n_def)
  from sp obtain g2 r2 where d: "draw_other g1 (snd (rnd 5 r)) = Some (g2, r2)"
    and s': "s' = (if m_noitems g then (baseammo g2 n 1 s2)\<lparr>ammo := (ammo (baseammo g2 n 1 s2))
        [nat GUN_GL := ammo (baseammo g2 n 1 s2) ! nat GUN_GL + 1]\<rparr> else baseammo g2 n 1 s2)"
    using assms(1-4) unfolding spawnstate_def
    by (auto simp: Let_def case_prod_beta s2_def g1_def s1_def n_def split: option.splits)
  have g2: "1 \<le> g2" "g2 \<le> 5" "nat g2 \<noteq> nat g1" using draw_other_range [OF d] g1 by auto
  have pos: "0 < is_add (itemstat_of (g1 - GUN_SG)) * n"
  proof -
    have "g1 = 1 \<or> g1 = 2 \<or> g1 = 3 \<or> g1 = 4 \<or> g1 = 5" using g1 by auto
    then show ?thesis using n by (elim disjE) (simp_all add: itemstat_of_def itemstats_def)
  qed
  have a: "ammo (baseammo g2 n 1 s2) ! nat g1 = is_add (itemstat_of (g1 - GUN_SG)) * n"
    using g1 g2 assms(5) pos by (simp add: baseammo_def s2_def s1_def nat_less_iff)
  have "gunselect s' = g1" "health s' = health s"
    unfolding s' by (simp_all add: s2_def s1_def baseammo_def)
  moreover have "length (ammo (baseammo g2 n 1 s2)) = 12"
    using assms(5) by (simp add: baseammo_def s2_def s1_def)
  moreover from this have "0 < ammo s' ! nat g1"
    unfolding s' using a pos by (cases "nat g1 = nat GUN_GL") (auto simp: nth_list_update)
  ultimately show ?thesis by simp
qed

text \<open>Whenever the random source does not repeat the first gun for ever, spawning returns in
  every mode, and the spawned player is alive, in a valid state, and has ammunition for the
  gun in hand.\<close>

lemma spawnstate_ready:
  assumes "uint (r (Suc n) AND 0x7FFFFFFF) mod 5 \<noteq> uint (r 0 AND 0x7FFFFFFF) mod 5"
  shows "\<exists>s' r'. spawnstate has rba g (fps_respawn s) r = Some (s', r') \<and> fps_ok s'
    \<and> 0 < health s' \<and> 0 < ammo s' ! nat (gunselect s')"
proof -
  let ?s = "fps_respawn s"
  have "\<exists>g2 r'. draw_other (fst (rnd 5 r) + 1) (snd (rnd 5 r)) = Some (g2, r')"
    by (rule draw_other_ends [where n = n]) (use assms in \<open>simp add: rnd_def\<close>)
  then have "\<exists>s' r'. spawnstate has rba g ?s r = Some (s', r')"
    by (auto simp: spawnstate_def Let_def case_prod_beta)
  then obtain s' r' where sp: "spawnstate has rba g ?s r = Some (s', r')" by blast
  have ok: "fps_ok s'" by (rule spawnstate_ok [OF fps_respawn_ok _ sp]) (simp add: fps_respawn_def)
  have "0 < health s' \<and> 0 < ammo s' ! nat (gunselect s')"
  proof (cases "m_tactics g \<and> \<not> m_demo g \<and> \<not> m_insta g \<and> \<not> m_regencapture g")
    case True
    then show ?thesis using spawnstate_tactics_ready [OF _ _ _ _ _ sp] by (simp add: fps_respawn_def)
  next
    case False
    with sp show ?thesis
      by (cases has; cases rba) (auto simp: spawnstate_def fps_respawn_def Let_def baseammo_def itemstat_of_def
        itemstats_def cdiv_def eval_nat_numeral split: if_splits)
  qed
  with sp ok show ?thesis by blast
qed

text \<open>The bound of \<^verbatim>\<open>hasammo\<close> admits one gun too many. For the gun number
  \<open>NUMGUNS\<close> a well-formed state has no counter and the read is out of range; for every other
  argument the answer is whether the gun exists, is not excluded and has ammunition.\<close>

lemma hasammo_bound:
  assumes "fps_ok s"
  shows "hasammo g excl s = (if g = NUMGUNS \<and> excl \<noteq> NUMGUNS then None
    else Some (0 \<le> g \<and> g < NUMGUNS \<and> g \<noteq> excl \<and> 0 < ammo s ! nat g))"
  using assms by (auto simp: hasammo_def fps_ok_def nat_less_iff)

end
