(* ===== verification/World.thy ===== *)
theory World
  imports Game
begin

text \<open>
  The state of the server that the components share, from
  \<^verbatim>\<open>src/src/fpsgame/server.cpp\<close>: the state of a player in a game
  (\<^verbatim>\<open>projectilestate\<close>, \<^verbatim>\<open>gamestate\<close>), the record that survives a disconnect
  (\<^verbatim>\<open>savedscore\<close>), a connected client (\<^verbatim>\<open>clientinfo\<close>) with its operations, and
  \<open>world\<close>, the globals of the namespace \<^verbatim>\<open>server\<close>. A handler takes the world to the
  next world; what it sends and the script events it raises are appended to \<open>outbox\<close>.
  Times, scores and counters are mathematical integers.
\<close>

subsection \<open>projectilestate\<close>

text \<open>\<^verbatim>\<open>projectilestate<8>\<close>: an array of eight identifiers and the number in use.\<close>

record projectilestate =
  projs :: "int list"
  numprojs :: nat

definition NPROJ :: nat where "NPROJ = 8"

definition proj_new :: projectilestate where
  "proj_new = \<lparr>projs = replicate NPROJ 0, numprojs = 0\<rparr>"

definition proj_reset :: "projectilestate \<Rightarrow> projectilestate" where
  "proj_reset p = p\<lparr>numprojs := 0\<rparr>"

definition proj_add :: "int \<Rightarrow> projectilestate \<Rightarrow> projectilestate" where
  "proj_add val p = (let p = (if numprojs p \<ge> NPROJ then p\<lparr>numprojs := 0\<rparr> else p)
     in p\<lparr>projs := (projs p)[numprojs p := val], numprojs := numprojs p + 1\<rparr>)"

fun proj_remove_from :: "nat \<Rightarrow> int \<Rightarrow> nat \<Rightarrow> projectilestate \<Rightarrow> bool \<times> projectilestate" where
  "proj_remove_from 0 val i p = (False, p)"
| "proj_remove_from (Suc k) val i p =
     (if projs p ! i = val
      then (True, p\<lparr>projs := (projs p)[i := projs p ! (numprojs p - 1)], numprojs := numprojs p - 1\<rparr>)
      else proj_remove_from k val (Suc i) p)"

definition proj_remove :: "int \<Rightarrow> projectilestate \<Rightarrow> bool \<times> projectilestate" where
  "proj_remove val p = proj_remove_from (numprojs p) val 0 p"

subsection \<open>gamestate\<close>

record gamestate = fpsstate +
  gs_o :: vec
  gs_cam :: vec
  gs_state :: int
  gs_editstate :: int
  gs_lastdeath :: int
  gs_deadflush :: int
  gs_lastspawn :: int
  gs_lifesequence :: int
  gs_lastshot :: int
  gs_rockets :: projectilestate
  gs_grenades :: projectilestate
  gs_frags :: int
  gs_flags :: int
  gs_deaths :: int
  gs_suicides :: int
  gs_teamkills :: int
  gs_shotdamage :: int
  gs_damage :: int
  gs_explosivedamage :: int
  gs_tokens :: int
  gs_hits :: int
  gs_misses :: int
  gs_shots :: int
  gs_lasttimeplayed :: int
  gs_timeplayed :: int
  gs_effectiveness :: rat
  gs_disconnecttime :: int

text \<open>An operation of the base class \<^verbatim>\<open>fpsstate\<close> acts on the inherited part.\<close>

definition on_fps :: "(fpsstate \<Rightarrow> fpsstate) \<Rightarrow> gamestate \<Rightarrow> gamestate" where
  "on_fps f s = (let t = f (fpsstate.truncate s)
     in s\<lparr>health := health t, maxhealth := maxhealth t, armour := armour t, armourtype := armourtype t,
          quadmillis := quadmillis t, gunselect := gunselect t, gunwait := gunwait t, ammo := ammo t,
          aitype := aitype t, skill := skill t\<rparr>)"

abbreviation (input) DEATHMILLIS :: int where "DEATHMILLIS \<equiv> 300"

definition isalive :: "int \<Rightarrow> gamestate \<Rightarrow> bool" where
  "isalive gamemillis s \<longleftrightarrow> gs_state s = CS_ALIVE
     \<or> (gs_state s = CS_DEAD \<and> gamemillis - gs_lastdeath s \<le> DEATHMILLIS)"

definition waitexpired :: "int \<Rightarrow> gamestate \<Rightarrow> bool" where
  "waitexpired gamemillis s \<longleftrightarrow> gamemillis - gs_lastshot s \<ge> gunwait s"

definition gs_respawn :: "gamestate \<Rightarrow> gamestate" where
  "gs_respawn s = (on_fps fps_respawn s)\<lparr>gs_o := vec_nowhere, gs_deadflush := 0, gs_lastspawn := - 1,
     gs_lastshot := 0, gs_tokens := 0\<rparr>"

definition gs_reset :: "gamestate \<Rightarrow> gamestate" where
  "gs_reset s = gs_respawn
     ((if gs_state s \<noteq> CS_SPECTATOR then s\<lparr>gs_state := CS_DEAD, gs_editstate := CS_DEAD\<rparr> else s)
      \<lparr>maxhealth := 100, gs_rockets := proj_reset (gs_rockets s), gs_grenades := proj_reset (gs_grenades s),
       gs_timeplayed := 0, gs_effectiveness := 0, gs_frags := 0, gs_flags := 0, gs_deaths := 0,
       gs_suicides := 0, gs_teamkills := 0, gs_shotdamage := 0, gs_explosivedamage := 0, gs_damage := 0,
       gs_hits := 0, gs_misses := 0, gs_shots := 0, gs_tokens := 0, gs_lastdeath := 0\<rparr>)"

definition gs_reassign :: "gamestate \<Rightarrow> gamestate" where
  "gs_reassign s = (gs_respawn s)\<lparr>gs_rockets := proj_reset (gs_rockets s), gs_grenades := proj_reset (gs_grenades s)\<rparr>"

subsection \<open>savedscore\<close>

record savedscore =
  sc_ip :: u32
  sc_name :: cstr
  sc_frags :: int
  sc_flags :: int
  sc_deaths :: int
  sc_suicides :: int
  sc_teamkills :: int
  sc_shotdamage :: int
  sc_explosivedamage :: int
  sc_damage :: int
  sc_hits :: int
  sc_misses :: int
  sc_shots :: int
  sc_timeplayed :: int
  sc_effectiveness :: rat
  sc_disconnecttime :: int

definition sc_save :: "gamestate \<Rightarrow> savedscore \<Rightarrow> savedscore" where
  "sc_save gs sc = sc\<lparr>sc_frags := gs_frags gs, sc_flags := gs_flags gs, sc_deaths := gs_deaths gs,
     sc_suicides := gs_suicides gs, sc_teamkills := gs_teamkills gs, sc_shotdamage := gs_shotdamage gs,
     sc_explosivedamage := gs_explosivedamage gs, sc_damage := gs_damage gs,
     sc_timeplayed := gs_timeplayed gs, sc_effectiveness := gs_effectiveness gs, sc_hits := gs_hits gs,
     sc_misses := gs_misses gs, sc_shots := gs_shots gs, sc_disconnecttime := gs_disconnecttime gs\<rparr>"

definition sc_restore :: "savedscore \<Rightarrow> gamestate \<Rightarrow> gamestate" where
  "sc_restore sc gs = gs\<lparr>gs_frags := sc_frags sc, gs_flags := sc_flags sc, gs_deaths := sc_deaths sc,
     gs_suicides := sc_suicides sc, gs_teamkills := sc_teamkills sc, gs_shotdamage := sc_shotdamage sc,
     gs_explosivedamage := sc_explosivedamage sc, gs_damage := sc_damage sc,
     gs_timeplayed := sc_timeplayed sc, gs_effectiveness := sc_effectiveness sc, gs_hits := sc_hits sc,
     gs_misses := sc_misses sc, gs_shots := sc_shots sc, gs_disconnecttime := sc_disconnecttime sc\<rparr>"

subsection \<open>Game events\<close>

text \<open>The number of rays is what the client sent, and the code computes with it in 32 bits.\<close>

record hitinfo =
  hi_target :: int
  hi_lifesequence :: int
  hi_rays :: i32
  hi_dist :: rat
  hi_dir :: vec

datatype gameevent =
    ShotEvent (ev_millis: int) (ev_id: int) (ev_gun: int) (ev_from: vec) (ev_to: vec) (ev_hits: "hitinfo list")
  | ExplodeEvent (ev_millis: int) (ev_id: int) (ev_gun: int) (ev_hits: "hitinfo list")
  | SuicideEvent
  | PickupEvent (ev_ent: int)

fun keepable :: "gameevent \<Rightarrow> bool" where
  "keepable (ExplodeEvent _ _ _ _) = True"
| "keepable _ = False"

subsection \<open>clientinfo\<close>

text \<open>The messages whose rate \<^verbatim>\<open>message::limit\<close> bounds, with a time stamp \<^verbatim>\<open>n_..._millis\<close> for each in
  \<^verbatim>\<open>clientinfo\<close> and a waiting time in \<^verbatim>\<open>message::resend_time\<close>.\<close>

datatype limited = LText | LSayteam | LMapvote | LSwitchname | LSwitchteam | LKick | LNewmap

lemma limited_UNIV: "UNIV = {LText, LSayteam, LMapvote, LSwitchname, LSwitchteam, LKick, LNewmap}"
  by (auto intro: limited.exhaust)

instantiation limited :: enum
begin

definition enum_limited :: "limited list" where
  "enum_limited = [LText, LSayteam, LMapvote, LSwitchname, LSwitchteam, LKick, LNewmap]"

definition enum_all_limited :: "(limited \<Rightarrow> bool) \<Rightarrow> bool" where
  "enum_all_limited P \<longleftrightarrow> list_all P (enum_class.enum :: limited list)"

definition enum_ex_limited :: "(limited \<Rightarrow> bool) \<Rightarrow> bool" where
  "enum_ex_limited P \<longleftrightarrow> list_ex P (enum_class.enum :: limited list)"

instance
  by standard (simp_all add: enum_limited_def enum_all_limited_def enum_ex_limited_def limited_UNIV)

end

record clientinfo =
  ci_n :: int
  ci_clientnum :: int
  ci_ownernum :: int
  ci_name :: cstr
  ci_team :: cstr
  ci_mapvote :: cstr
  ci_modevote :: int
  ci_playermodel :: int
  ci_privilege :: int
  ci_connected :: bool
  ci_local :: bool
  ci_timesync :: bool
  ci_gameoffset :: int
  ci_lastevent :: int
  ci_pushed :: int
  ci_exceeded :: int
  ci_overflow :: int
  ci_state :: gamestate
  ci_events :: "gameevent list"
  ci_bots :: "int list"
  ci_ping :: int
  ci_aireinit :: int
  ci_clientmap :: cstr
  ci_mapcrc :: int
  ci_warned :: bool
  ci_gameclip :: bool
  ci_timetrial :: int
  ci_spy :: bool
  ci_maploaded :: int
  ci_rank :: int
  ci_connectmillis :: int
  ci_playerid :: int
  ci_lastposupdate :: int
  ci_lag :: int
  ci_last_lag :: int
  ci_specmillis :: int
  ci_sessionid :: int
  ci_no_spawn :: int
  ci_needclipboard :: int
  ci_using_reservedslot :: bool
  ci_position :: "uchar list"
  ci_messages :: "uchar list"
  ci_lastpingupdate :: int
  ci_clientmillis :: int
  ci_allow_self_unspec :: bool
  ci_spec_millis :: int
  ci_limits :: "limited \<Rightarrow> int"
  ci_wsdata :: int
  ci_wslen :: int
  ci_hide_privilege :: bool
  ci_clipboard :: "uchar list option"
  ci_lastclipboard :: int
  ci_getmap :: bool
  ci_getdemo :: bool
  ci_connectauth :: int
  ci_disconnect_reason :: cstr

definition addevent :: "gameevent \<Rightarrow> clientinfo \<Rightarrow> clientinfo" where
  "addevent e ci = (if gs_state (ci_state ci) = CS_SPECTATOR \<or> length (ci_events ci) > 100 then ci
     else ci\<lparr>ci_events := ci_events ci @ [e]\<rparr>)"

abbreviation (input) PUSHMILLIS :: int where "PUSHMILLIS \<equiv> 3000"

text \<open>\<open>rtt\<close> is the round trip time plus its variance of the peer of the owner, when there is
  one (\<^verbatim>\<open>ENET_PEER_DEFAULT_ROUND_TRIP_TIME\<close> is 500).\<close>

definition calcpushrange :: "int option \<Rightarrow> int" where
  "calcpushrange rtt = PUSHMILLIS + (case rtt of Some t \<Rightarrow> t | None \<Rightarrow> 500)"

definition checkpushed :: "int \<Rightarrow> int \<Rightarrow> clientinfo \<Rightarrow> bool" where
  "checkpushed millis rg ci \<longleftrightarrow> millis \<ge> ci_pushed ci - rg \<and> millis \<le> ci_pushed ci + rg"

definition scheduleexceeded :: "int option \<Rightarrow> clientinfo \<Rightarrow> int \<Rightarrow> int" where
  "scheduleexceeded rtt ci nextexceeded =
     (if gs_state (ci_state ci) \<noteq> CS_ALIVE \<or> ci_exceeded ci = 0 then nextexceeded
      else let range = calcpushrange rtt
        in if nextexceeded = 0 \<or> ci_exceeded ci + range < nextexceeded then ci_exceeded ci + range
           else nextexceeded)"

definition setexceeded :: "int \<Rightarrow> int option \<Rightarrow> clientinfo \<Rightarrow> int \<Rightarrow> clientinfo \<times> int" where
  "setexceeded gamemillis rtt ci nextexceeded =
     (let ci = (if gs_state (ci_state ci) = CS_ALIVE \<and> ci_exceeded ci = 0
                   \<and> \<not> checkpushed gamemillis (calcpushrange rtt) ci
                then ci\<lparr>ci_exceeded := gamemillis\<rparr> else ci)
      in (ci, scheduleexceeded rtt ci nextexceeded))"

definition setpushed :: "int \<Rightarrow> int option \<Rightarrow> clientinfo \<Rightarrow> clientinfo" where
  "setpushed gamemillis rtt ci =
     (let ci = ci\<lparr>ci_pushed := max (ci_pushed ci) gamemillis\<rparr>
      in if ci_exceeded ci \<noteq> 0 \<and> checkpushed (ci_exceeded ci) (calcpushrange rtt) ci
         then ci\<lparr>ci_exceeded := 0\<rparr> else ci)"

definition checkexceeded :: "int \<Rightarrow> int option \<Rightarrow> clientinfo \<Rightarrow> bool" where
  "checkexceeded gamemillis rtt ci \<longleftrightarrow> gs_state (ci_state ci) = CS_ALIVE \<and> ci_exceeded ci \<noteq> 0
     \<and> gamemillis > ci_exceeded ci + calcpushrange rtt"

definition ci_mapchange :: "clientinfo \<Rightarrow> clientinfo" where
  "ci_mapchange ci = ci\<lparr>ci_mapvote := [], ci_modevote := INT_MAX, ci_state := gs_reset (ci_state ci),
     ci_events := [], ci_overflow := 0, ci_timesync := False, ci_lastevent := 0, ci_exceeded := 0,
     ci_pushed := 0, ci_maploaded := 0, ci_clientmap := [], ci_mapcrc := 0, ci_warned := False, ci_gameclip := False\<rparr>"

definition ci_reassign :: "clientinfo \<Rightarrow> clientinfo" where
  "ci_reassign ci = ci\<lparr>ci_state := gs_reassign (ci_state ci), ci_events := [], ci_timesync := False,
     ci_lastevent := 0\<rparr>"

definition ci_reset :: "clientinfo \<Rightarrow> clientinfo" where
  "ci_reset ci = ci_mapchange (ci\<lparr>ci_name := [], ci_team := [], ci_playermodel := - 1,
     ci_privilege := PRIV_NONE, ci_connected := False, ci_local := False, ci_ping := 0,
     ci_lastposupdate := 0, ci_lag := 0, ci_last_lag := 0, ci_spy := False, ci_timetrial := 0, ci_no_spawn := 0,
     ci_aireinit := 0, ci_using_reservedslot := False, ci_needclipboard := 0, ci_position := [],
     ci_messages := [], ci_lastpingupdate := 0, ci_clientmillis := 0, ci_hide_privilege := False, ci_connectauth := 0,
     ci_clipboard := None, ci_lastclipboard := 0\<rparr>)"

definition geteventmillis :: "int \<Rightarrow> int \<Rightarrow> clientinfo \<Rightarrow> int \<times> clientinfo" where
  "geteventmillis servmillis clientmillis ci =
     (if \<not> ci_timesync ci \<or> (ci_events ci = [] \<and> waitexpired servmillis (ci_state ci))
      then (servmillis, ci\<lparr>ci_timesync := True, ci_gameoffset := servmillis - clientmillis\<rparr>)
      else (ci_gameoffset ci + clientmillis, ci))"

text \<open>A new \<^verbatim>\<open>clientinfo\<close>: the members that its constructors leave unset are zero.\<close>

definition gs_new :: gamestate where
  "gs_new = \<lparr>health = 0, maxhealth = 100, armour = 0, armourtype = 0, quadmillis = 0, gunselect = 0,
     gunwait = 0, ammo = replicate (nat NUMGUNS) 0, aitype = AI_NONE, skill = 0, gs_o = vec0, gs_cam = vec0,
     gs_state = CS_DEAD, gs_editstate = CS_DEAD, gs_lastdeath = 0, gs_deadflush = 0, gs_lastspawn = 0,
     gs_lifesequence = 0, gs_lastshot = 0, gs_rockets = proj_new, gs_grenades = proj_new, gs_frags = 0,
     gs_flags = 0, gs_deaths = 0, gs_suicides = 0, gs_teamkills = 0, gs_shotdamage = 0, gs_damage = 0,
     gs_explosivedamage = 0, gs_tokens = 0, gs_hits = 0, gs_misses = 0, gs_shots = 0,
     gs_lasttimeplayed = 0, gs_timeplayed = 0, gs_effectiveness = 0, gs_disconnecttime = 0\<rparr>"

definition ci_new :: clientinfo where
  "ci_new = ci_reset \<lparr>ci_n = 0, ci_clientnum = 0, ci_ownernum = 0, ci_name = [], ci_team = [],
     ci_mapvote = [], ci_modevote = 0, ci_playermodel = 0, ci_privilege = 0, ci_connected = False,
     ci_local = False, ci_timesync = False, ci_gameoffset = 0, ci_lastevent = 0, ci_pushed = 0,
     ci_exceeded = 0, ci_overflow = 0, ci_state = gs_new, ci_events = [], ci_bots = [], ci_ping = 0,
     ci_aireinit = 0, ci_clientmap = [], ci_mapcrc = 0, ci_warned = False, ci_gameclip = False, ci_timetrial = 0,
     ci_spy = False, ci_maploaded = 0, ci_rank = 0, ci_connectmillis = 0, ci_playerid = 0,
     ci_lastposupdate = 0, ci_lag = 0, ci_last_lag = 0, ci_specmillis = 0, ci_sessionid = 0, ci_no_spawn = 0, ci_needclipboard = 0,
     ci_using_reservedslot = False, ci_position = [], ci_messages = [], ci_lastpingupdate = 0, ci_clientmillis = 0,
     ci_allow_self_unspec = False, ci_spec_millis = 0, ci_limits = (\<lambda>_. 0), ci_wsdata = - 1, ci_wslen = 0, ci_hide_privilege = False,
     ci_clipboard = None, ci_lastclipboard = 0, ci_getmap = False, ci_getdemo = False, ci_connectauth = 0, ci_disconnect_reason = []\<rparr>"

subsection \<open>The globals of the server\<close>

record entity =
  e_o :: vec
  e_attr1 :: int
  e_attr2 :: int
  e_type :: int

record server_entity =
  se_type :: int
  se_spawntime :: int
  se_spawned :: bool
  se_lastpickup :: int

abbreviation (input) MAXCLIENTS :: int where "MAXCLIENTS \<equiv> 128"
abbreviation (input) MAXBOTS :: int where "MAXBOTS \<equiv> 32"
abbreviation (input) MAXSPIES :: int where "MAXSPIES \<equiv> 5"

text \<open>\<open>timeupdate_hook\<close> stands for the listeners of \<^verbatim>\<open>event_timeupdate\<close>, which may give the game
  a new limit: it maps the limit and the game time to the limit they leave. \<open>peer_rtt\<close> is the round
  trip time that the network library reports for a client, \<open>client_ip\<close> the address it reports, and
  \<open>utf8\<close> the conversion \<^verbatim>\<open>convert2utf8\<close> of game text for the scripts. \<open>damage_hook\<close> and
  \<open>suicide_hook\<close> are the answers of the listeners of \<^verbatim>\<open>event_damage\<close> and \<^verbatim>\<open>event_suicide\<close>, which
  can veto what they are told; \<open>respawn_hook\<close> is that of \<^verbatim>\<open>event_respawnrequest\<close>. \<open>setnextgame_hook\<close> is
  the listener of \<^verbatim>\<open>event_setnextgame\<close>, which chooses the next mode, map and time, and \<open>mapents\<close> reads
  the entities of a map file. \<open>overspeed\<close> is the test of the magnitude and the direction that a position message
  gives, in floating point with sine and cosine, against the greatest speed. \<open>curmillis\<close> is the clock
  \<^verbatim>\<open>getmilliseconds\<close>, and \<open>editpacket_hook\<close> the answer of the listeners of \<^verbatim>\<open>event_editpacket\<close>. The table of \<^verbatim>\<open>teaminfo\<close> is a list of team names and frags, at
  most one entry for a name.\<close>

text \<open>What the server sends in bulk. A \<open>worldstate\<close> is a block of memory that packets point into; \<open>ws_block\<close> is the number of
  its allocation, which stands for its address. \<open>servermtu\<close>, \<open>enet_time\<close> and \<open>peer_accepts\<close> are what the network library reports:
  the size of its datagrams, its clock, and whether the peer of a client takes a packet into its queue.\<close>

record worldstate =
  ws_block :: nat
  ws_uses :: int
  ws_data :: "uchar list"

record delayed_sendpacket =
  dp_time :: int
  dp_channel :: int
  dp_data :: "uchar list"

record netstate =
  worldstates :: "worldstate list"
  reliablemessages :: bool
  delayed_sendpackets :: "delayed_sendpacket list"
  lastsend :: u32
  packetdelay :: u32
  nextblock :: nat
  demoffset :: int
  servermtu :: int
  enet_time :: u32
  peer_accepts :: "int \<Rightarrow> bool"

text \<open>The settings and the answers of scripts: \<open>resend_time\<close> is \<^verbatim>\<open>message::resend_time\<close>, the hooks are the listeners of
  \<^verbatim>\<open>event_text\<close>, \<^verbatim>\<open>event_sayteam\<close>, \<^verbatim>\<open>event_allow_rename\<close>, \<^verbatim>\<open>event_mapvote\<close>, \<^verbatim>\<open>event_chteamrequest\<close> and
  \<^verbatim>\<open>event_setmastermode_request\<close>, \<open>fresh_memory\<close> is what a new packet of a size holds before it is written, \<open>hostname\<close> the
  text of the address of a client, and \<open>convert2cube\<close> the conversion of texts of scripts for the game. \<open>demos\<close> are the demos that are
  kept with their descriptions, \<open>demo_file\<close> is the description and what is read back of the file that is being recorded, and \<open>demo_opens\<close>
  whether such a file can be made. \<open>password_ok\<close> compares a password with the hash that a client sent for its number and session,
  \<open>connecting_hook\<close> is the answer of the listeners of \<^verbatim>\<open>event_connecting\<close> with the privilege that they give to the client and whether
  they make it a spy, and \<open>vote_tail\<close> is what the memory holds behind the first 64 bytes of \<^verbatim>\<open>mapvote\<close>.\<close>

record settings =
  resend_time :: "limited \<Rightarrow> int"
  text_hook :: "int \<Rightarrow> cstr \<Rightarrow> bool"
  sayteam_hook :: "int \<Rightarrow> cstr \<Rightarrow> bool"
  rename_hook :: "int \<Rightarrow> cstr \<Rightarrow> bool"
  mapvote_hook :: "int \<Rightarrow> cstr \<Rightarrow> cstr \<Rightarrow> bool"
  chteam_hook :: "int \<Rightarrow> cstr \<Rightarrow> cstr \<Rightarrow> int \<Rightarrow> bool"
  mastermode_hook :: "int \<Rightarrow> cstr \<Rightarrow> cstr \<Rightarrow> bool"
  fresh_memory :: "nat \<Rightarrow> uchar list"
  hostname :: "int \<Rightarrow> cstr"
  convert2cube :: "cstr \<Rightarrow> cstr"
  mastermask :: int
  allow_mm_veto :: bool
  allow_mm_locked :: bool
  allow_mm_private :: bool
  allow_mm_private_reconnect :: bool
  allowedips :: "u32 list"
  display_open :: bool
  mapdata :: bool
  demonextmatch :: bool
  autorecorddemo :: bool
  demos :: "(cstr \<times> uchar list) list"
  demo_file :: "cstr \<times> uchar list"
  demo_opens :: bool
  serverpass :: cstr
  slotpass :: cstr
  serverauth :: cstr
  serverdesc :: cstr
  spec_slots :: bool
  password_ok :: "int \<Rightarrow> int \<Rightarrow> cstr \<Rightarrow> cstr \<Rightarrow> bool"
  connecting_hook :: "int \<Rightarrow> cstr \<Rightarrow> cstr \<Rightarrow> cstr \<Rightarrow> bool \<Rightarrow> bool \<times> int \<times> bool"
  vote_tail :: cstr

record world =
  gamemode :: int
  gamemillis :: int
  gamelimit :: int
  nextexceeded :: int
  curtime :: int
  lastmillis :: int
  totalmillis :: int
  interm :: int
  intermtime :: int
  overtime :: bool
  gamepaused :: bool
  gamespeed :: int
  smapname :: cstr
  notgotitems :: bool
  ctftkpenalty :: bool
  hide_and_seek :: bool
  regenbluearmour :: bool
  ments :: "entity list"
  sents :: "server_entity list"
  connects :: "clientinfo list"
  clients :: "clientinfo list"
  bots :: "int option list"
  spycn :: int
  rngst :: rng
  outbox :: "effect list"
  teaminfos :: "(cstr \<times> int) list"
  scores :: "savedscore list"
  persistteams :: bool
  restrictpausegame :: bool
  pausegame_owner :: int
  dorefresh :: bool
  botbalance :: bool
  botlimit :: int
  next_botid :: int
  mastermode :: int
  spectator_delay :: int
  reset_mm :: bool
  shouldstep :: bool
  next_timeupdate :: int
  mapreload :: bool
  maxclients :: int
  reservedslots :: int
  reservedslots_use :: int
  disc_window :: int
  disc_msgs :: int
  disc_record :: "(u32 \<times> int list) list"
  next_gamemode :: cstr
  next_mapname :: cstr
  next_gametime :: int
  mapents :: "cstr \<Rightarrow> entity list option"
  respawn_hook :: "int \<Rightarrow> int \<Rightarrow> bool"
  demorecord :: bool
  nonlocalclients :: int
  mcrc :: u32
  overspeed :: "int \<Rightarrow> int \<Rightarrow> bool"
  sents_type_index :: "int list"
  restrictgamespeed :: bool
  curmillis :: int
  resend_spec :: int
  editpacket_hook :: "int \<Rightarrow> bool"
  setnextgame_hook :: "cstr \<times> cstr \<times> int \<Rightarrow> cstr \<times> cstr \<times> int"
  client_ip :: "int \<Rightarrow> u32"
  damage_hook :: "int \<Rightarrow> int \<Rightarrow> int \<Rightarrow> int \<Rightarrow> vec \<Rightarrow> bool"
  suicide_hook :: "int \<Rightarrow> bool"
  timeupdate_hook :: "int \<Rightarrow> int \<Rightarrow> int"
  peer_rtt :: "int \<Rightarrow> int option"
  utf8 :: "cstr \<Rightarrow> cstr"
  net :: netstate
  conf :: settings

definition emit :: "effect \<Rightarrow> 'a world_scheme \<Rightarrow> 'a world_scheme" where
  "emit e w = w\<lparr>outbox := outbox w @ [e]\<rparr>"

text \<open>\<^verbatim>\<open>rnd\<close> on the server's random source.\<close>

definition draw :: "int \<Rightarrow> 'a world_scheme \<Rightarrow> int \<times> 'a world_scheme" where
  "draw x w = (let (n, r) = rnd x (rngst w) in (n, w\<lparr>rngst := r\<rparr>))"

text \<open>A client is identified by its number. Updating a client through its pointer is updating the
  record with that number.\<close>

definition upd_client :: "int \<Rightarrow> (clientinfo \<Rightarrow> clientinfo) \<Rightarrow> 'a world_scheme \<Rightarrow> 'a world_scheme" where
  "upd_client cn f w =
     w\<lparr>clients := map (\<lambda>ci. if ci_clientnum ci = cn then f ci else ci) (clients w),
       connects := map (\<lambda>ci. if ci_clientnum ci = cn then f ci else ci) (connects w)\<rparr>"

definition upd_state :: "int \<Rightarrow> (gamestate \<Rightarrow> gamestate) \<Rightarrow> 'a world_scheme \<Rightarrow> 'a world_scheme" where
  "upd_state cn f = upd_client cn (\<lambda>ci. ci\<lparr>ci_state := f (ci_state ci)\<rparr>)"

definition find_client :: "int \<Rightarrow> 'a world_scheme \<Rightarrow> clientinfo option" where
  "find_client cn w = find (\<lambda>ci. ci_clientnum ci = cn) (clients w @ connects w)"

text \<open>\<^verbatim>\<open>getinfo\<close>: the numbers from \<^verbatim>\<open>spycn\<close> belong to spies, those below \<^verbatim>\<open>MAXCLIENTS\<close> are
  slots of the engine's client table, and the others are bots.\<close>

definition getinfo :: "int \<Rightarrow> 'a world_scheme \<Rightarrow> clientinfo option" where
  "getinfo n w =
     (case (if n \<ge> spycn w then find (\<lambda>ci. ci_spy ci \<and> ci_clientnum ci = n) (clients w @ connects w) else None) of
        Some ci \<Rightarrow> Some ci
      | None \<Rightarrow>
          if n < MAXCLIENTS then find (\<lambda>ci. aitype (ci_state ci) = AI_NONE \<and> ci_n ci = n) (clients w @ connects w)
          else if inrange (n - MAXCLIENTS) (bots w)
          then (case bots w ! nat (n - MAXCLIENTS) of
                  None \<Rightarrow> None | Some cn \<Rightarrow> find (\<lambda>ci. ci_clientnum ci = cn) (clients w))
          else None)"

definition hasnonlocalclients :: "'a world_scheme \<Rightarrow> bool" where
  "hasnonlocalclients w \<longleftrightarrow> nonlocalclients w \<noteq> 0"

text \<open>The test that guards the messages of the game modes.\<close>

definition can_play :: "clientinfo \<Rightarrow> bool" where
  "can_play ci \<longleftrightarrow> gs_state (ci_state ci) \<noteq> CS_SPECTATOR \<or> ci_local ci \<or> ci_privilege ci \<noteq> 0"

definition numclients :: "int \<Rightarrow> bool \<Rightarrow> bool \<Rightarrow> bool \<Rightarrow> 'a world_scheme \<Rightarrow> int" where
  "numclients exclude nospec noai priv w =
     int (length (filter (\<lambda>ci. ci_clientnum ci \<noteq> exclude
        \<and> (\<not> nospec \<or> gs_state (ci_state ci) \<noteq> CS_SPECTATOR \<or> (priv \<and> (ci_privilege ci \<noteq> 0 \<or> ci_local ci)))
        \<and> (\<not> noai \<or> aitype (ci_state ci) = AI_NONE)) (clients w)))
     - int (length (filter ci_spy (clients w @ connects w)))"

subsection \<open>Ranks and the intermission\<close>

definition get_teams :: "'a world_scheme \<Rightarrow> cstr list" where
  "get_teams w = remdups (map (\<lambda>ci. utf8 w (ci_team ci)) (clients w))"

text \<open>The players in the order of their frags, each as its frags and its index among the clients.
  \<^verbatim>\<open>std::sort\<close> leaves the order of equals open; equals get the same rank.\<close>

definition ranked_players :: "cstr option \<Rightarrow> 'a world_scheme \<Rightarrow> (int \<times> nat) list" where
  "ranked_players team w = sort_key (\<lambda>p. - fst p)
     (map (\<lambda>i. (gs_frags (ci_state (clients w ! i)), i))
        (filter (\<lambda>i. gs_state (ci_state (clients w ! i)) \<noteq> CS_SPECTATOR
           \<and> (case team of None \<Rightarrow> True | Some t \<Rightarrow> ci_team (clients w ! i) = t)) [0..<length (clients w)]))"

fun assign_ranks :: "int \<Rightarrow> int option \<Rightarrow> (int \<times> nat) list \<Rightarrow> clientinfo list \<Rightarrow> clientinfo list" where
  "assign_ranks rank prev [] cs = cs"
| "assign_ranks rank prev ((score, i) # ps) cs =
     (let rank = (if prev = Some score then rank else rank + 1)
      in assign_ranks rank (Some score) ps (cs[i := (cs ! i)\<lparr>ci_rank := rank\<rparr>]))"

definition calc_team_ranks :: "cstr option \<Rightarrow> 'a world_scheme \<Rightarrow> 'a world_scheme" where
  "calc_team_ranks team w = w\<lparr>clients := assign_ranks 0 None (ranked_players team w) (clients w)\<rparr>"

definition calc_player_ranks :: "'a world_scheme \<Rightarrow> 'a world_scheme" where
  "calc_player_ranks w =
     (if m_edit (gamemode w) then w
      else if m_teammode (gamemode w) then fold (\<lambda>t. calc_team_ranks (Some t)) (get_teams w) w
      else calc_team_ranks None w)"

text \<open>The body of \<^verbatim>\<open>checkintermission\<close> once its test for overtime is decided.\<close>

definition enter_intermission :: "'a world_scheme \<Rightarrow> 'a world_scheme" where
  "enter_intermission w =
     (let w = emit (Event ''timeupdate'' [MI 0, MI 0]) w;
          w = w\<lparr>gamelimit := timeupdate_hook w (gamelimit w) (gamemillis w)\<rparr>
      in if gamemillis w < gamelimit w then w
         else let w = emit (sendf (- 1) 1 [MI N_TIMEUP, MI 0]) w;
                  w = calc_player_ranks (w\<lparr>interm := gamemillis w + intermtime w\<rparr>)
              in emit (Event ''intermission'' []) w)"

definition startintermission :: "'a world_scheme \<Rightarrow> 'a world_scheme" where
  "startintermission w =
     (let w = w\<lparr>gamelimit := min (gamelimit w) (gamemillis w)\<rparr>
      in if gamemillis w \<ge> gamelimit w \<and> interm w = 0 then enter_intermission w else w)"

subsection \<open>Lemmas on the world\<close>

lemma emit_simps [simp]:
  "clients (emit e w) = clients w" "connects (emit e w) = connects w" "outbox (emit e w) = outbox w @ [e]"
  "gamemode (emit e w) = gamemode w" "gamemillis (emit e w) = gamemillis w" "gamelimit (emit e w) = gamelimit w"
  "lastmillis (emit e w) = lastmillis w" "totalmillis (emit e w) = totalmillis w" "curtime (emit e w) = curtime w"
  "interm (emit e w) = interm w" "bots (emit e w) = bots w" "rngst (emit e w) = rngst w" "sents (emit e w) = sents w"
  "ments (emit e w) = ments w" "notgotitems (emit e w) = notgotitems w" "spycn (emit e w) = spycn w"
  "ctftkpenalty (emit e w) = ctftkpenalty w" "intermtime (emit e w) = intermtime w"
  "timeupdate_hook (emit e w) = timeupdate_hook w" "utf8 (emit e w) = utf8 w"
  "teaminfos (emit e w) = teaminfos w" "scores (emit e w) = scores w" "smapname (emit e w) = smapname w"
  "gamepaused (emit e w) = gamepaused w" "damage_hook (emit e w) = damage_hook w" "suicide_hook (emit e w) = suicide_hook w"
  "client_ip (emit e w) = client_ip w" "overtime (emit e w) = overtime w"
  "dorefresh (emit e w) = dorefresh w" "botbalance (emit e w) = botbalance w"
  "botlimit (emit e w) = botlimit w" "next_botid (emit e w) = next_botid w"
  "mastermode (emit e w) = mastermode w" "spectator_delay (emit e w) = spectator_delay w"
  "mapents (emit e w) = mapents w" "maxclients (emit e w) = maxclients w"
  "disc_record (emit e w) = disc_record w" "respawn_hook (emit e w) = respawn_hook w"
  "demorecord (emit e w) = demorecord w" "nonlocalclients (emit e w) = nonlocalclients w" "mcrc (emit e w) = mcrc w"
  "overspeed (emit e w) = overspeed w"
  "nextexceeded (emit e w) = nextexceeded w" "peer_rtt (emit e w) = peer_rtt w" "more (emit e w) = more w"
  by (simp_all add: emit_def)

lemma upd_client_simps [simp]:
  "outbox (upd_client cn f w) = outbox w"
  "gamemode (upd_client cn f w) = gamemode w" "gamemillis (upd_client cn f w) = gamemillis w"
  "gamelimit (upd_client cn f w) = gamelimit w" "lastmillis (upd_client cn f w) = lastmillis w"
  "totalmillis (upd_client cn f w) = totalmillis w" "curtime (upd_client cn f w) = curtime w"
  "interm (upd_client cn f w) = interm w" "bots (upd_client cn f w) = bots w" "rngst (upd_client cn f w) = rngst w"
  "sents (upd_client cn f w) = sents w" "ments (upd_client cn f w) = ments w"
  "notgotitems (upd_client cn f w) = notgotitems w" "spycn (upd_client cn f w) = spycn w"
  "intermtime (upd_client cn f w) = intermtime w" "timeupdate_hook (upd_client cn f w) = timeupdate_hook w"
  "teaminfos (upd_client cn f w) = teaminfos w" "scores (upd_client cn f w) = scores w"
  "damage_hook (upd_client cn f w) = damage_hook w" "suicide_hook (upd_client cn f w) = suicide_hook w"
  "peer_rtt (upd_client cn f w) = peer_rtt w" "client_ip (upd_client cn f w) = client_ip w"
  "dorefresh (upd_client cn f w) = dorefresh w" "botbalance (upd_client cn f w) = botbalance w"
  "botlimit (upd_client cn f w) = botlimit w" "next_botid (upd_client cn f w) = next_botid w"
  "mastermode (upd_client cn f w) = mastermode w" "spectator_delay (upd_client cn f w) = spectator_delay w"
  "mapents (upd_client cn f w) = mapents w" "maxclients (upd_client cn f w) = maxclients w"
  "disc_record (upd_client cn f w) = disc_record w" "respawn_hook (upd_client cn f w) = respawn_hook w"
  "demorecord (upd_client cn f w) = demorecord w" "nonlocalclients (upd_client cn f w) = nonlocalclients w" "mcrc (upd_client cn f w) = mcrc w"
  "overspeed (upd_client cn f w) = overspeed w"
  "utf8 (upd_client cn f w) = utf8 w" "more (upd_client cn f w) = more w"
  by (simp_all add: upd_client_def)

lemma draw_simps [simp]:
  "clients (snd (draw x w)) = clients w" "connects (snd (draw x w)) = connects w"
  "outbox (snd (draw x w)) = outbox w" "gamemode (snd (draw x w)) = gamemode w"
  "gamemillis (snd (draw x w)) = gamemillis w" "gamelimit (snd (draw x w)) = gamelimit w"
  "lastmillis (snd (draw x w)) = lastmillis w" "totalmillis (snd (draw x w)) = totalmillis w"
  "interm (snd (draw x w)) = interm w" "bots (snd (draw x w)) = bots w" "sents (snd (draw x w)) = sents w"
  "more (snd (draw x w)) = more w"
  by (simp_all add: draw_def case_prod_beta)

lemma draw_bounds: "0 < x \<Longrightarrow> 0 \<le> fst (draw x w) \<and> fst (draw x w) < x"
  using rnd_bounds [of x "rngst w"] by (simp add: draw_def case_prod_beta)

lemma clientnums_upd_client:
  "(\<And>ci. ci_clientnum (f ci) = ci_clientnum ci)
    \<Longrightarrow> map ci_clientnum (clients (upd_client cn f w)) = map ci_clientnum (clients w)"
  by (simp add: upd_client_def)

lemma length_assign_ranks [simp]: "length (assign_ranks r p ps cs) = length cs"
  by (induction r p ps cs rule: assign_ranks.induct) (simp_all add: Let_def)

text \<open>Assigning ranks changes nothing but ranks.\<close>

lemma assign_ranks_only_rank:
  assumes "\<And>ci r. g (ci\<lparr>ci_rank := r\<rparr>) = g ci"
  shows "map g (assign_ranks r p ps cs) = map g cs"
proof (induction r p ps cs rule: assign_ranks.induct)
  case (2 rank prev score i ps cs)
  have "map g (cs[i := (cs ! i)\<lparr>ci_rank := r\<rparr>]) = map g cs" for r
    using assms by (cases "i < length cs") (simp_all add: map_update list_update_same_conv list_update_beyond)
  then show ?case using 2 by (simp add: Let_def)
qed simp

lemma calc_team_ranks_simps [simp]:
  "more (calc_team_ranks t w) = more w" "gamelimit (calc_team_ranks t w) = gamelimit w"
  "interm (calc_team_ranks t w) = interm w" "outbox (calc_team_ranks t w) = outbox w"
  "gamemillis (calc_team_ranks t w) = gamemillis w" "gamemode (calc_team_ranks t w) = gamemode w"
  by (simp_all add: calc_team_ranks_def)

lemma fold_team_ranks_simps [simp]:
  "more (fold (\<lambda>t. calc_team_ranks (Some t)) ts w) = more w"
  "gamelimit (fold (\<lambda>t. calc_team_ranks (Some t)) ts w) = gamelimit w"
  "interm (fold (\<lambda>t. calc_team_ranks (Some t)) ts w) = interm w"
  "outbox (fold (\<lambda>t. calc_team_ranks (Some t)) ts w) = outbox w"
  "gamemillis (fold (\<lambda>t. calc_team_ranks (Some t)) ts w) = gamemillis w"
  "gamemode (fold (\<lambda>t. calc_team_ranks (Some t)) ts w) = gamemode w"
  by (induction ts arbitrary: w) simp_all

lemma calc_player_ranks_simps [simp]:
  "more (calc_player_ranks w) = more w" "gamelimit (calc_player_ranks w) = gamelimit w"
  "interm (calc_player_ranks w) = interm w" "outbox (calc_player_ranks w) = outbox w"
  "gamemillis (calc_player_ranks w) = gamemillis w" "gamemode (calc_player_ranks w) = gamemode w"
  by (simp_all add: calc_player_ranks_def)

lemma startintermission_simps [simp]:
  "more (startintermission w) = more w" "gamemillis (startintermission w) = gamemillis w"
  "gamemode (startintermission w) = gamemode w"
  by (simp_all add: startintermission_def enter_intermission_def Let_def)

lemma startintermission_ends:
  assumes "interm w = 0" "timeupdate_hook w (min (gamelimit w) (gamemillis w)) (gamemillis w) \<le> gamemillis w"
  shows "interm (startintermission w) = gamemillis w + intermtime w \<and> gamelimit (startintermission w) \<le> gamemillis w"
  using assms by (simp add: startintermission_def enter_intermission_def Let_def)

lemma map_clients_team_ranks:
  assumes "\<And>ci r. g (ci\<lparr>ci_rank := r\<rparr>) = g ci"
  shows "map g (clients (calc_team_ranks t w)) = map g (clients w)"
  using assms by (simp add: calc_team_ranks_def assign_ranks_only_rank)

lemma map_clients_player_ranks:
  assumes "\<And>ci r. g (ci\<lparr>ci_rank := r\<rparr>) = g ci"
  shows "map g (clients (calc_player_ranks w)) = map g (clients w)"
proof -
  have "map g (clients (fold (\<lambda>t. calc_team_ranks (Some t)) ts w)) = map g (clients w)" for ts
    by (induction ts arbitrary: w) (simp_all add: map_clients_team_ranks assms)
  then show ?thesis using assms by (simp add: calc_player_ranks_def map_clients_team_ranks)
qed

lemma map_clients_startintermission:
  assumes "\<And>ci r. g (ci\<lparr>ci_rank := r\<rparr>) = g ci"
  shows "map g (clients (startintermission w)) = map g (clients w)"
  by (simp add: startintermission_def enter_intermission_def Let_def map_clients_player_ranks [of g, OF assms])

subsection \<open>Ranks\<close>

lemma assign_ranks_other: "i \<notin> snd ` set ps \<Longrightarrow> assign_ranks r p ps cs ! i = cs ! i"
  by (induction r p ps cs rule: assign_ranks.induct) (auto simp: Let_def)

lemma greater_scores_Cons:
  assumes "\<And>t. t \<in> S \<Longrightarrow> t \<le> (h::int)" "finite S" "s \<in> S" "\<And>p. prev = Some p \<Longrightarrow> h \<le> p"
  shows "card {t \<in> insert h S. s < t \<and> prev \<noteq> Some t} + (if prev = Some s then 0 else 1)
    = (if prev = Some h then 0 else 1) + card {t \<in> S. s < t \<and> Some h \<noteq> Some t} + (if h = s then 0 else 1)"
proof (cases "h = s")
  case True
  have E: "{t \<in> insert h S. s < t \<and> prev \<noteq> Some t} = {}" "{t \<in> S. s < t \<and> Some h \<noteq> Some t} = {}"
    using assms(1) True by force+
  show ?thesis unfolding E using True by simp
next
  case False
  with assms(1,3) have hs: "s < h" by force
  have ps: "prev \<noteq> Some s" using assms(4) hs by force
  have sub: "{t \<in> insert h S. s < t \<and> prev \<noteq> Some t}
      = (if prev = Some h then {} else {h}) \<union> {t \<in> S. s < t \<and> Some h \<noteq> Some t}"
    using hs assms(1,4) by force
  have "card ((if prev = Some h then {} else {h}) \<union> {t \<in> S. s < t \<and> Some h \<noteq> Some t})
      = card (if prev = Some h then {} else {h}) + card {t \<in> S. s < t \<and> Some h \<noteq> Some t}"
    by (rule card_Un_disjoint) (use assms(2) in auto)
  then show ?thesis using False ps unfolding sub by auto
qed

lemma assign_ranks_spec:
  assumes "sorted (map (\<lambda>p. - fst p) ps)" "distinct (map snd ps)" "\<forall>p \<in> set ps. snd p < length cs"
    and "\<forall>p \<in> set ps. \<forall>q. prev = Some q \<longrightarrow> fst p \<le> q" and "(s, i) \<in> set ps"
  shows "assign_ranks r prev ps cs ! i = (cs ! i)\<lparr>ci_rank :=
    r + int (card {t \<in> fst ` set ps. s < t \<and> prev \<noteq> Some t} + (if prev = Some s then 0 else 1))\<rparr>"
  using assms
proof (induction r prev ps cs rule: assign_ranks.induct)
  case (1 r prev cs)
  from "1.prems"(5) have False by simp
  then show ?case ..
next
  case (2 r prev h k ps cs)
  let ?r = "if prev = Some h then r else r + 1"
  let ?cs = "cs[k := (cs ! k)\<lparr>ci_rank := ?r\<rparr>]"
  define A where "A = card {t \<in> fst ` set ps. s < t \<and> Some h \<noteq> Some t}"
  define B where "B = card {t \<in> fst ` set ((h, k) # ps). s < t \<and> prev \<noteq> Some t}"
  have le: "t \<le> h" if "t \<in> fst ` set ps" for t using "2.prems"(1) that by auto
  have unf: "assign_ranks r prev ((h, k) # ps) cs = assign_ranks ?r (Some h) ps ?cs" by (simp add: Let_def)
  show ?case unfolding B_def [symmetric] unf
  proof (cases "(s, i) \<in> set ps")
    case True
    have "i \<in> snd ` set ps" "s \<in> fst ` set ps"
      using image_eqI [of i snd "(s, i)", OF _ True] image_eqI [of s fst "(s, i)", OF _ True] by simp_all
    then have ik: "i \<noteq> k" and s: "s \<in> fst ` set ps" using "2.prems"(2) by auto
    have "assign_ranks ?r (Some h) ps ?cs ! i = (?cs ! i)\<lparr>ci_rank := ?r + int (A + (if Some h = Some s then 0 else 1))\<rparr>"
      unfolding A_def
    proof (rule "2.IH")
      show "?r = (if prev = Some h then r else r + 1)" ..
      show "sorted (map (\<lambda>p. - fst p) ps)" "distinct (map snd ps)" using "2.prems"(1,2) by simp_all
      show "\<forall>p \<in> set ps. snd p < length ?cs" using "2.prems"(3) by simp
      show "\<forall>p \<in> set ps. \<forall>q. Some h = Some q \<longrightarrow> fst p \<le> q" using le by simp
    qed (rule True)
    moreover have "card {t \<in> insert h (fst ` set ps). s < t \<and> prev \<noteq> Some t} + (if prev = Some s then 0 else 1)
        = (if prev = Some h then 0 else 1) + A + (if h = s then 0 else 1)"
      unfolding A_def
    proof (rule greater_scores_Cons [OF le])
      show "s \<in> fst ` set ps" by (rule s)
      show "\<And>p. prev = Some p \<Longrightarrow> h \<le> p" using "2.prems"(4) by simp
    qed simp_all
    then have "B + (if prev = Some s then 0 else 1) = (if prev = Some h then 0 else 1) + A + (if h = s then 0 else 1)"
      by (simp add: B_def)
    ultimately show "assign_ranks ?r (Some h) ps ?cs ! i = (cs ! i)\<lparr>ci_rank := r + int (B + (if prev = Some s then 0 else 1))\<rparr>"
      using ik by simp
  next
    case False
    with "2.prems"(5) have eq: "s = h" "i = k" by auto
    have "{t \<in> fst ` set ((h, k) # ps). s < t \<and> prev \<noteq> Some t} = {}" using le eq(1) by fastforce
    then have "B = 0" unfolding B_def by (simp only: card.empty)
    moreover have "k \<notin> snd ` set ps" "k < length cs" using "2.prems"(2,3) by auto
    ultimately show "assign_ranks ?r (Some h) ps ?cs ! i = (cs ! i)\<lparr>ci_rank := r + int (B + (if prev = Some s then 0 else 1))\<rparr>"
      using eq by (simp add: assign_ranks_other)
  qed
qed

definition competes :: "cstr option \<Rightarrow> clientinfo \<Rightarrow> bool" where
  "competes team ci \<longleftrightarrow> gs_state (ci_state ci) \<noteq> CS_SPECTATOR
     \<and> (case team of None \<Rightarrow> True | Some t \<Rightarrow> ci_team ci = t)"

definition rank_in :: "cstr option \<Rightarrow> clientinfo list \<Rightarrow> clientinfo \<Rightarrow> int" where
  "rank_in team cs ci = 1 + int (card {gs_frags (ci_state x) | x. x \<in> set cs \<and> competes team x
     \<and> gs_frags (ci_state ci) < gs_frags (ci_state x)})"

lemma calc_team_ranks_spec:
  assumes "i < length (clients w)"
  shows "clients (calc_team_ranks team w) ! i
     = (if competes team (clients w ! i) then (clients w ! i)\<lparr>ci_rank := rank_in team (clients w) (clients w ! i)\<rparr>
        else clients w ! i)"
proof -
  let ?ps = "ranked_players team w" and ?f = "\<lambda>i. gs_frags (ci_state (clients w ! i))"
  have set: "set ?ps = {(?f i, i) | i. i < length (clients w) \<and> competes team (clients w ! i)}"
    by (auto simp: ranked_players_def competes_def)
  show ?thesis
  proof (cases "competes team (clients w ! i)")
    case True
    have "{t \<in> fst ` set ?ps. ?f i < t \<and> None \<noteq> Some t}
        = {gs_frags (ci_state x) | x. x \<in> set (clients w) \<and> competes team x \<and> ?f i < gs_frags (ci_state x)}"
      unfolding set by (force simp: in_set_conv_nth)
    moreover have "distinct (map snd ?ps)"
      unfolding ranked_players_def by (simp add: distinct_map inj_on_def)
    moreover have "sorted (map (\<lambda>p. - fst p) ?ps)" unfolding ranked_players_def by simp
    ultimately have "assign_ranks 0 None ?ps (clients w) ! i = (clients w ! i)\<lparr>ci_rank := rank_in team (clients w) (clients w ! i)\<rparr>"
      using assign_ranks_spec [of ?ps "clients w" None "?f i" i 0] True assms
      by (simp add: set rank_in_def)
    then show ?thesis using True by (simp add: calc_team_ranks_def)
  next
    case False
    then have "i \<notin> snd ` set ?ps" unfolding set by auto
    then show ?thesis using False by (simp add: calc_team_ranks_def assign_ranks_other)
  qed
qed

lemma rank_in_cong:
  assumes "map (\<lambda>x. (gs_frags (ci_state x), competes team x)) xs = map (\<lambda>x. (gs_frags (ci_state x), competes team x)) ys"
  shows "rank_in team xs ci = rank_in team ys ci"
proof -
  let ?g = "\<lambda>x. (gs_frags (ci_state x), competes team x)"
  have "{gs_frags (ci_state x) | x. x \<in> set zs \<and> competes team x \<and> n < gs_frags (ci_state x)}
      = {t. (t, True) \<in> set (map ?g zs) \<and> n < t}" for zs n by auto
  then show ?thesis unfolding rank_in_def by (simp only: assms)
qed

lemma fold_team_ranks_spec:
  assumes "i < length (clients w)" "distinct ts"
  shows "clients (fold (\<lambda>t. calc_team_ranks (Some t)) ts w) ! i
     = (if gs_state (ci_state (clients w ! i)) \<noteq> CS_SPECTATOR \<and> ci_team (clients w ! i) \<in> set ts
        then (clients w ! i)\<lparr>ci_rank := rank_in (Some (ci_team (clients w ! i))) (clients w) (clients w ! i)\<rparr>
        else clients w ! i)"
  using assms
proof (induction ts arbitrary: w)
  case (Cons t ts)
  let ?w = "calc_team_ranks (Some t) w"
  have len: "length (clients ?w) = length (clients w)" by (simp add: calc_team_ranks_def)
  have nth: "clients ?w ! j = (if competes (Some t) (clients w ! j)
      then (clients w ! j)\<lparr>ci_rank := rank_in (Some t) (clients w) (clients w ! j)\<rparr> else clients w ! j)"
    if "j < length (clients w)" for j using calc_team_ranks_spec [OF that] .
  have rank: "rank_in u (clients ?w) ci = rank_in u (clients w) ci" for u ci
    by (rule rank_in_cong, rule map_clients_team_ranks) (cases u, simp_all add: competes_def)
  show ?case
    using Cons.IH [of ?w] Cons.prems nth [of i] by (auto simp: len rank competes_def split: if_splits)
qed simp

text \<open>At the intermission every player who is not a spectator gets as rank one more than the
  number of different scores above its own, among the players of its team in a team mode and
  among all players otherwise, so equal scores share a rank and no rank is skipped.\<close>

lemma player_ranks:
  assumes "\<not> m_edit (gamemode w)" and "i < length (clients w)"
    and "gs_state (ci_state (clients w ! i)) \<noteq> CS_SPECTATOR"
    and "m_teammode (gamemode w) \<Longrightarrow> \<forall>ci \<in> set (clients w). utf8 w (ci_team ci) = ci_team ci"
  shows "clients (calc_player_ranks w) ! i = (clients w ! i)\<lparr>ci_rank :=
    rank_in (if m_teammode (gamemode w) then Some (ci_team (clients w ! i)) else None) (clients w) (clients w ! i)\<rparr>"
proof (cases "m_teammode (gamemode w)")
  case True
  then have "ci_team (clients w ! i) \<in> set (get_teams w)"
    using assms(2,4) nth_mem [OF assms(2)] by (force simp: get_teams_def)
  then show ?thesis
    using fold_team_ranks_spec [OF assms(2), of "get_teams w"] assms(1,3) True
    by (simp add: calc_player_ranks_def get_teams_def)
next
  case False
  then show ?thesis using calc_team_ranks_spec [OF assms(2), of None] assms(1,3)
    by (simp add: calc_player_ranks_def competes_def)
qed

subsection \<open>A small server for the examples\<close>

definition sample_client :: "int \<Rightarrow> cstr \<Rightarrow> int \<Rightarrow> clientinfo" where
  "sample_client n team frags = ci_new\<lparr>ci_n := n, ci_clientnum := n, ci_team := team, ci_connected := True,
     ci_state := (ci_state ci_new)\<lparr>gs_state := CS_ALIVE, gs_frags := frags\<rparr>\<rparr>"

definition sample_net :: netstate where
  "sample_net = \<lparr>worldstates = [], reliablemessages = False, delayed_sendpackets = [], lastsend = 0, packetdelay = 33, nextblock = 0, demoffset = 0,
     servermtu = 1400, enet_time = 40, peer_accepts = (\<lambda>_. True)\<rparr>"

definition sample_conf :: settings where
  "sample_conf = \<lparr>resend_time = (\<lambda>_. 0), text_hook = (\<lambda>_ _. False), sayteam_hook = (\<lambda>_ _. False), rename_hook = (\<lambda>_ _. False),
     mapvote_hook = (\<lambda>_ _ _. False), chteam_hook = (\<lambda>_ _ _ _. False), mastermode_hook = (\<lambda>_ _ _. False), fresh_memory = (\<lambda>n. replicate n 0),
     hostname = (\<lambda>_. ''127.0.0.1''), convert2cube = (\<lambda>s. s), mastermask = 15, allow_mm_veto = True, allow_mm_locked = True, allow_mm_private = True,
     allow_mm_private_reconnect = False, allowedips = [], display_open = True, mapdata = False, demonextmatch = False, autorecorddemo = False, demos = [], demo_file = ([], []), demo_opens = True, serverpass = [],
     slotpass = [], serverauth = [], serverdesc = [], spec_slots = False, password_ok = (\<lambda>_ _ wanted given. wanted = given),
     connecting_hook = (\<lambda>_ _ _ _ _. (False, 0, False)), vote_tail = []\<rparr>"

definition sample_world :: world where
  "sample_world = \<lparr>gamemode = 11, gamemillis = 1000, gamelimit = 600000, nextexceeded = 0, curtime = 10,
     lastmillis = 1000, totalmillis = 5000, interm = 0, intermtime = 10000, overtime = False,
     gamepaused = False, gamespeed = 100, smapname = ''reissen'', notgotitems = False, ctftkpenalty = True,
     hide_and_seek = False, regenbluearmour = True, ments = [], sents = [], connects = [],
     clients = [sample_client 0 ''good'' 3, sample_client 1 ''evil'' 5, sample_client 2 ''good'' 7], bots = [],
     spycn = 1000000, rngst = (\<lambda>n. of_nat n), outbox = [], teaminfos = [],
     scores = [], persistteams = False, restrictpausegame = False, pausegame_owner = - 1, dorefresh = False, botbalance = True,
     botlimit = 8, next_botid = - 2, mastermode = 0, spectator_delay = 0, reset_mm = True, shouldstep = True, next_timeupdate = 0,
     mapreload = False, maxclients = 16, reservedslots = 0, reservedslots_use = 0, disc_window = 0, disc_msgs = 0, disc_record = [],
     next_gamemode = [], next_mapname = [], next_gametime = - 1, mapents = (\<lambda>_. None), respawn_hook = (\<lambda>_ _. False),
     demorecord = False, nonlocalclients = 3, mcrc = 0, overspeed = (\<lambda>_ _. False), sents_type_index = replicate 31 0, restrictgamespeed = False,
     curmillis = 5000, resend_spec = 0, editpacket_hook = (\<lambda>_. False), setnextgame_hook = (\<lambda>g. g), client_ip = (\<lambda>_. 0),
     damage_hook = (\<lambda>_ _ _ _ _. False), suicide_hook = (\<lambda>_. False), timeupdate_hook = (\<lambda>l m. l), peer_rtt = (\<lambda>_. None),
     utf8 = (\<lambda>s. s), net = sample_net, conf = sample_conf\<rparr>"

subsection \<open>Valid players\<close>

definition players_ok :: "'a world_scheme \<Rightarrow> bool" where
  "players_ok w \<longleftrightarrow> (\<forall>ci \<in> set (clients w). fps_ok (fpsstate.truncate (ci_state ci)))"

lemma truncate_on_fps [simp]: "fpsstate.truncate (on_fps f s) = f (fpsstate.truncate s)"
  by (cases "f (fpsstate.truncate s)") (simp add: on_fps_def fpsstate.truncate_def Let_def)

lemma players_ok_frame [simp]: "players_ok (emit e w) = players_ok w" "players_ok (snd (draw n w)) = players_ok w"
  by (simp_all add: players_ok_def)

lemma players_ok_upd_state [preserves]:
  assumes "players_ok w"
    and "\<And>s. fps_ok (fpsstate.truncate s) \<Longrightarrow> fps_ok (fpsstate.truncate (f s))"
  shows "players_ok (upd_state cn f w)"
  using assms by (auto simp: players_ok_def upd_state_def upd_client_def)

lemma players_ok_on_fps [preserves]:
  "players_ok w \<Longrightarrow> (\<And>s. fps_ok s \<Longrightarrow> fps_ok (f s)) \<Longrightarrow> players_ok (upd_state cn (on_fps f) w)"
  by (rule players_ok_upd_state) simp_all

lemma players_ok_startintermission [simp]: "players_ok (startintermission w) = players_ok w"
proof -
  have eq: "players_ok w = (\<forall>s \<in> set (map ci_state (clients w)). fps_ok (fpsstate.truncate s))" for w :: "'a world_scheme"
    by (simp add: players_ok_def)
  have "map ci_state (clients (startintermission w)) = map ci_state (clients w)"
    by (rule map_clients_startintermission) simp
  then show ?thesis by (simp only: eq)
qed

subsection \<open>Projectiles in flight\<close>

definition proj_ok :: "projectilestate \<Rightarrow> bool" where
  "proj_ok p \<longleftrightarrow> length (projs p) = NPROJ \<and> numprojs p \<le> NPROJ"

definition live :: "projectilestate \<Rightarrow> int multiset" where
  "live p = mset (take (numprojs p) (projs p))"

lemma proj_add_live:
  assumes "proj_ok p"
  shows "proj_ok (proj_add v p) \<and> live (proj_add v p) = add_mset v (if numprojs p < NPROJ then live p else {#})"
  using assms by (auto simp: proj_add_def proj_ok_def live_def Let_def take_Suc_conv_app_nth NPROJ_def)

lemma mset_take_swap_last:
  assumes "i < n" "n \<le> length xs"
  shows "mset (take (n - 1) (xs[i := xs ! (n - 1)])) = mset (take n xs) - {#xs ! i#}"
proof -
  obtain m where n: "n = Suc m" using assms(1) by (cases n) auto
  have t: "take n xs = take m xs @ [xs ! m]" using assms n by (simp add: take_Suc_conv_app_nth)
  show ?thesis
  proof (cases "i = m")
    case True
    then show ?thesis using n t assms by (simp add: take_update_swap)
  next
    case False
    then have "i < m" "i < length (take m xs)" using assms n by auto
    moreover from this have "xs ! i \<in># mset (take m xs)" by (auto simp: in_set_conv_nth)
    ultimately show ?thesis using n t False by (simp add: take_update_swap mset_update)
  qed
qed

lemma proj_remove_from_spec:
  assumes "proj_ok p" "i + k = numprojs p" "\<forall>j < i. projs p ! j \<noteq> v"
  shows "proj_remove_from k v i p = (v \<in># live p, snd (proj_remove_from k v i p))
    \<and> proj_ok (snd (proj_remove_from k v i p))
    \<and> live (snd (proj_remove_from k v i p)) = live p - {#v#}"
  using assms
proof (induction k v i p rule: proj_remove_from.induct)
  case (1 v i p)
  then have "v \<notin># live p" by (auto simp: live_def in_set_conv_nth)
  then show ?case using 1 by (simp add: diff_single_trivial)
next
  case (2 k v i p)
  show ?case
  proof (cases "projs p ! i = v")
    case True
    have i: "i < numprojs p" "numprojs p \<le> length (projs p)" using "2.prems" by (auto simp: proj_ok_def)
    then have "v \<in># live p" using True by (auto simp: live_def in_set_conv_nth)
    then show ?thesis using True "2.prems" mset_take_swap_last [OF i] by (auto simp: live_def proj_ok_def)
  next
    case False
    then show ?thesis using "2.prems" "2.IH" [OF False] by (simp add: less_Suc_eq)
  qed
qed

text \<open>The table of a player's projectiles behaves as a bag of identifiers. An explosion is
  credited exactly when its identifier is in flight, and it takes one occurrence away, so a
  projectile explodes once; the bag is emptied when a ninth projectile is launched.\<close>

lemma projectile_bag:
  assumes "proj_ok p"
  shows "proj_ok (proj_add v p) \<and> live (proj_add v p) = add_mset v (if numprojs p < NPROJ then live p else {#})
    \<and> proj_ok (snd (proj_remove v p))
    \<and> fst (proj_remove v p) = (v \<in># live p) \<and> live (snd (proj_remove v p)) = live p - {#v#}"
  using proj_add_live [OF assms] proj_remove_from_spec [OF assms, of 0 "numprojs p" v]
  by (simp add: proj_remove_def) (metis fst_conv)

subsection \<open>Team scores\<close>

text \<open>\<^verbatim>\<open>scores.htfind(team)\<close> and the score found there; a team that is not in the list has none.\<close>

definition team_lookup :: "cstr \<Rightarrow> (cstr \<times> int) list \<Rightarrow> int" where
  "team_lookup t ts = (case find (\<lambda>p. fst p = t) ts of Some p \<Rightarrow> snd p | None \<Rightarrow> 0)"

text \<open>What the server relies on when it asks a mode object for scores: the list of
  \<^verbatim>\<open>getteamscores\<close> names a team at most once, with the score that \<^verbatim>\<open>getteamscore\<close> gives, and a
  team it leaves out has no points.\<close>

locale team_scores =
  fixes getscore :: "'s \<Rightarrow> cstr \<Rightarrow> int" and getscores :: "'s \<Rightarrow> (cstr \<times> int) list" and wf :: "'s \<Rightarrow> bool"
  assumes sound: "wf s \<Longrightarrow> (t, n) \<in> set (getscores s) \<Longrightarrow> n = getscore s t"
    and complete: "wf s \<Longrightarrow> getscore s t \<noteq> 0 \<Longrightarrow> t \<in> fst ` set (getscores s)"
    and distinct_teams: "wf s \<Longrightarrow> distinct (map fst (getscores s))"
begin

lemma lookup_score: "wf s \<Longrightarrow> team_lookup t (getscores s) = getscore s t"
proof (cases "find (\<lambda>p. fst p = t) (getscores s)")
  case None
  assume wf: "wf s"
  have "t \<notin> fst ` set (getscores s)" using None by (auto simp: find_None_iff)
  then have "getscore s t = 0" using complete [OF wf] by blast
  then show ?thesis using None by (simp add: team_lookup_def)
next
  case (Some p)
  assume wf: "wf s"
  from Some have "p \<in> set (getscores s)" "fst p = t" by (auto simp: find_Some_iff)
  then have "(t, snd p) \<in> set (getscores s)" by (metis prod.collapse)
  then have "snd p = getscore s t" by (rule sound [OF wf])
  with Some show ?thesis by (simp add: team_lookup_def)
qed

lemma sum_scores:
  assumes "wf s" and "fst ` set (getscores s) \<subseteq> T" and "finite T"
  shows "(\<Sum>p \<leftarrow> getscores s. snd p) = (\<Sum>t \<in> T. getscore s t)"
proof -
  have d: "distinct (getscores s)" and i: "inj_on fst (set (getscores s))"
    using distinct_teams [OF assms(1)] by (auto simp: distinct_map)
  have "(\<Sum>p \<leftarrow> getscores s. snd p) = (\<Sum>p \<in> set (getscores s). snd p)"
    using d by (simp add: sum_list_distinct_conv_sum_set)
  also have "\<dots> = (\<Sum>p \<in> set (getscores s). getscore s (fst p))"
    by (rule sum.cong) (use sound [OF assms(1)] in auto)
  also have "\<dots> = (\<Sum>t \<in> fst ` set (getscores s). getscore s t)"
    using i by (simp add: sum.reindex)
  also have "\<dots> = (\<Sum>t \<in> T. getscore s t)"
    by (rule sum.mono_neutral_left [OF assms(3,2)]) (use complete [OF assms(1)] in blast)
  finally show ?thesis .
qed

end

end
