(* ===== verification/Combat.thy ===== *)
theory Combat
  imports World
begin

text \<open>
  Fighting and items, from \<^verbatim>\<open>src/src/fpsgame/server.cpp\<close>: damage and death (\<^verbatim>\<open>dodamage\<close>,
  \<^verbatim>\<open>suicide\<close>), the events that clients queue (\<^verbatim>\<open>shotevent\<close>, \<^verbatim>\<open>explodeevent\<close>,
  \<^verbatim>\<open>suicideevent\<close>, \<^verbatim>\<open>pickupevent\<close>) with the queue that delivers them, and the items of the map.
  The mode object that a game may have is a record of its virtual functions, so that the handlers are
  the same for every mode. Anti-cheat is switched off (\<^verbatim>\<open>anti_cheat_enabled\<close>). The rays that a client claims for
  a shot are added and multiplied as the 32-bit numbers that they are.
\<close>

subsection \<open>The interface of a game mode\<close>

text \<open>\<^verbatim>\<open>servmode\<close>: the virtual functions of a mode, each with the state that it works on as its last
  argument. What \<^verbatim>\<open>initclient\<close> and \<^verbatim>\<open>extinfoteam\<close> put into a packet is their result.\<close>

record 's servmode =
  sm_entergame :: "clientinfo \<Rightarrow> 's \<Rightarrow> 's"
  sm_leavegame :: "clientinfo \<Rightarrow> bool \<Rightarrow> 's \<Rightarrow> 's"
  sm_moved :: "clientinfo \<Rightarrow> vec \<Rightarrow> bool \<Rightarrow> vec \<Rightarrow> bool \<Rightarrow> 's \<Rightarrow> 's"
  sm_canspawn :: "clientinfo \<Rightarrow> bool \<Rightarrow> 's \<Rightarrow> bool"
  sm_spawned :: "clientinfo \<Rightarrow> 's \<Rightarrow> 's"
  sm_fragvalue :: "clientinfo \<Rightarrow> clientinfo \<Rightarrow> 's \<Rightarrow> int"
  sm_died :: "clientinfo \<Rightarrow> clientinfo option \<Rightarrow> 's \<Rightarrow> 's"
  sm_canchangeteam :: "clientinfo \<Rightarrow> cstr \<Rightarrow> cstr \<Rightarrow> bool"
  sm_changeteam :: "clientinfo \<Rightarrow> cstr \<Rightarrow> cstr \<Rightarrow> 's \<Rightarrow> 's"
  sm_initclient :: "clientinfo \<Rightarrow> bool \<Rightarrow> 's \<Rightarrow> marg list"
  sm_update :: "'s \<Rightarrow> 's"
  sm_cleanup :: "'s \<Rightarrow> 's"
  sm_setup :: "'s \<Rightarrow> 's"
  sm_newmap :: "'s \<Rightarrow> 's"
  sm_intermission :: "'s \<Rightarrow> 's"
  sm_hidefrags :: bool
  sm_getteamscore :: "cstr \<Rightarrow> 's \<Rightarrow> int"
  sm_getteamscores :: "'s \<Rightarrow> (cstr \<times> int) list"
  sm_extinfoteam :: "cstr \<Rightarrow> 's \<Rightarrow> int list option"

text \<open>The value of a frag where the mode does not say otherwise, and no mode does.\<close>

definition fragvalue :: "clientinfo \<Rightarrow> clientinfo \<Rightarrow> 'a world_scheme \<Rightarrow> int" where
  "fragvalue victim actor w =
     (if ci_clientnum victim = ci_clientnum actor \<or> isteam (gamemode w) (ci_team victim) (ci_team actor) then - 1 else 1)"

definition base_servmode :: "'a world_scheme servmode" where
  "base_servmode = \<lparr>sm_entergame = (\<lambda>_ w. w), sm_leavegame = (\<lambda>_ _ w. w), sm_moved = (\<lambda>_ _ _ _ _ w. w),
     sm_canspawn = (\<lambda>_ _ _. True), sm_spawned = (\<lambda>_ w. w), sm_fragvalue = fragvalue, sm_died = (\<lambda>_ _ w. w),
     sm_canchangeteam = (\<lambda>_ _ _. True), sm_changeteam = (\<lambda>_ _ _ w. w), sm_initclient = (\<lambda>_ _ _. []), sm_update = (\<lambda>w. w),
     sm_cleanup = (\<lambda>w. w), sm_setup = (\<lambda>w. w), sm_newmap = (\<lambda>w. w), sm_intermission = (\<lambda>w. w), sm_hidefrags = False,
     sm_getteamscore = (\<lambda>_ _. 0), sm_getteamscores = (\<lambda>_. []), sm_extinfoteam = (\<lambda>_ _. None)\<rparr>"

type_synonym 'a smode = "'a world_scheme servmode option"

subsection \<open>Clients by number\<close>

definition client :: "int \<Rightarrow> 'a world_scheme \<Rightarrow> clientinfo" where
  "client cn w = (case find_client cn w of Some ci \<Rightarrow> ci | None \<Rightarrow> ci_new)"

abbreviation cstate :: "int \<Rightarrow> 'a world_scheme \<Rightarrow> gamestate" where
  "cstate cn w \<equiv> ci_state (client cn w)"

definition push_client :: "int \<Rightarrow> 'a world_scheme \<Rightarrow> 'a world_scheme" where
  "push_client cn w = upd_client cn (\<lambda>ci. setpushed (gamemillis w) (peer_rtt w (ci_ownernum ci)) ci) w"

subsection \<open>Frags of teams\<close>

definition team_access :: "cstr \<Rightarrow> 'a world_scheme \<Rightarrow> int option" where
  "team_access team w = map_of (teaminfos w) team"

definition team_addfrags :: "cstr \<Rightarrow> int \<Rightarrow> 'a world_scheme \<Rightarrow> 'a world_scheme" where
  "team_addfrags team n w = w\<lparr>teaminfos := map (\<lambda>(t, f). if t = team then (t, f + n) else (t, f)) (teaminfos w)\<rparr>"

definition clearteaminfo :: "'a world_scheme \<Rightarrow> 'a world_scheme" where
  "clearteaminfo w = w\<lparr>teaminfos := []\<rparr>"

definition teamhasplayers :: "cstr \<Rightarrow> 'a world_scheme \<Rightarrow> bool" where
  "teamhasplayers team w \<longleftrightarrow> (\<exists>ci \<in> set (clients w). ci_team ci = team)"

definition pruneteaminfo :: "'a world_scheme \<Rightarrow> bool \<times> 'a world_scheme" where
  "pruneteaminfo w =
     (let ts = filter (\<lambda>(t, f). \<not> (f = 0 \<and> \<not> teamhasplayers t w)) (teaminfos w)
      in (length ts < length (teaminfos w), w\<lparr>teaminfos := ts\<rparr>))"

abbreviation (input) MAXTEAMS :: int where "MAXTEAMS \<equiv> 128"

definition addteaminfo :: "cstr \<Rightarrow> 'a world_scheme \<Rightarrow> 'a world_scheme" where
  "addteaminfo team w =
     (if team_access team w \<noteq> None then w
      else let (pruned, w) = (if int (length (teaminfos w)) \<ge> MAXTEAMS then pruneteaminfo w else (True, w))
        in if \<not> pruned then w else w\<lparr>teaminfos := teaminfos w @ [(team, 0)]\<rparr>)"

subsection \<open>Damage and death\<close>

definition smode_fragvalue :: "'a smode \<Rightarrow> clientinfo \<Rightarrow> clientinfo \<Rightarrow> 'a world_scheme \<Rightarrow> int" where
  "smode_fragvalue sm victim actor w = (case sm of Some m \<Rightarrow> sm_fragvalue m victim actor w | None \<Rightarrow> fragvalue victim actor w)"

definition smode_died :: "'a smode \<Rightarrow> int \<Rightarrow> int option \<Rightarrow> 'a world_scheme \<Rightarrow> 'a world_scheme" where
  "smode_died sm tcn acn w = (case sm of
     Some m \<Rightarrow> sm_died m (client tcn w) (map_option (\<lambda>a. client a w) acn) w | None \<Rightarrow> w)"

text \<open>The share of a frag in the effectiveness of a player: how many friends it had for each enemy.\<close>

definition frag_effect :: "int \<Rightarrow> int \<Rightarrow> 'a world_scheme \<Rightarrow> rat" where
  "frag_effect acn fv w =
     (let friends = (if m_teammode (gamemode w)
                     then int (length (filter (\<lambda>ci. ci_team ci = ci_team (client acn w)) (clients w))) else 1);
          enemies = (if m_teammode (gamemode w)
                     then int (length (filter (\<lambda>ci. ci_team ci \<noteq> ci_team (client acn w)) (clients w)))
                     else int (length (clients w)) - 1)
      in of_int (fv * friends) / of_int (max enemies 1))"

text \<open>The frags of a team after a death, and zero for a team without an entry, as \<^verbatim>\<open>N_DIED\<close> reports them.\<close>

definition credit_team :: "int \<Rightarrow> int \<Rightarrow> 'a world_scheme \<Rightarrow> int \<times> 'a world_scheme" where
  "credit_team acn fv w =
     (let team = ci_team (client acn w)
      in if m_teammode (gamemode w) \<and> team_access team w \<noteq> None
         then let w = team_addfrags team fv w in (the (team_access team w), w)
         else (0, w))"

definition count_death :: "int \<Rightarrow> int \<Rightarrow> 'a world_scheme \<Rightarrow> 'a world_scheme" where
  "count_death tcn acn w =
     (let w = upd_state tcn (\<lambda>s. s\<lparr>gs_deaths := gs_deaths s + 1, gs_suicides := gs_suicides s + (if acn = tcn then 1 else 0)\<rparr>) w
      in if acn \<noteq> tcn \<and> isteam (gamemode w) (ci_team (client acn w)) (ci_team (client tcn w))
         then emit (Event ''teamkill'' [MI acn, MI tcn]) (upd_state acn (\<lambda>s. s\<lparr>gs_teamkills := gs_teamkills s + 1\<rparr>) w)
         else w)"

definition count_frag :: "'a smode \<Rightarrow> int \<Rightarrow> int \<Rightarrow> 'a world_scheme \<Rightarrow> 'a world_scheme" where
  "count_frag sm tcn acn w =
     (let fv = smode_fragvalue sm (client tcn w) (client acn w) w;
          w = upd_state acn (\<lambda>s. s\<lparr>gs_frags := gs_frags s + fv\<rparr>) w;
          w = (if fv > 0 then upd_state acn (\<lambda>s. s\<lparr>gs_effectiveness := gs_effectiveness s + frag_effect acn fv w\<rparr>) w else w);
          (tf, w) = credit_team acn fv w;
          w = emit (Event ''frag'' [MI tcn, MI acn]) w
      in emit (sendf (- 1) 1 [MI N_DIED, MI tcn, MI acn, MI (gs_frags (cstate acn w)), MI tf]) w)"

definition mark_dead :: "int \<Rightarrow> 'a world_scheme \<Rightarrow> 'a world_scheme" where
  "mark_dead tcn w = upd_state tcn (\<lambda>s. s\<lparr>gs_state := CS_DEAD, gs_lastdeath := gamemillis w,
     gs_deadflush := gamemillis w + DEATHMILLIS\<rparr>) w"

text \<open>The position packet that waits to be sent for a dead player is dropped.\<close>

definition clear_position :: "int \<Rightarrow> 'a world_scheme \<Rightarrow> 'a world_scheme" where
  "clear_position cn = upd_client cn (\<lambda>ci. ci\<lparr>ci_position := []\<rparr>)"

definition kill :: "'a smode \<Rightarrow> int \<Rightarrow> int \<Rightarrow> 'a world_scheme \<Rightarrow> 'a world_scheme" where
  "kill sm tcn acn w = mark_dead tcn (smode_died sm tcn (Some acn) (clear_position tcn (count_frag sm tcn acn (count_death tcn acn w))))"

definition hurt :: "int \<Rightarrow> int \<Rightarrow> int \<Rightarrow> 'a world_scheme \<Rightarrow> 'a world_scheme" where
  "hurt tcn acn dmg w =
     (let w = upd_state tcn (on_fps (\<lambda>s. snd (fps_dodamage dmg s))) w;
          w = (if tcn \<noteq> acn \<and> \<not> isteam (gamemode w) (ci_team (client tcn w)) (ci_team (client acn w))
               then upd_state acn (\<lambda>s. s\<lparr>gs_damage := gs_damage s + dmg\<rparr>) w else w)
      in emit (sendf (- 1) 1 [MI N_DAMAGE, MI tcn, MI acn, MI dmg, MI (armour (cstate tcn w)), MI (health (cstate tcn w))]) w)"

definition push :: "int \<Rightarrow> int \<Rightarrow> int \<Rightarrow> int \<Rightarrow> vec \<Rightarrow> 'a world_scheme \<Rightarrow> 'a world_scheme" where
  "push tcn acn dmg g dir w =
     (if tcn = acn then push_client tcn w
      else if dir \<noteq> vec0
      then push_client tcn (emit (sendf (if health (cstate tcn w) \<le> 0 then - 1 else ci_ownernum (client tcn w)) 1
             [MI N_HITPUSH, MI tcn, MI g, MI dmg, MV dir]) w)
      else w)"

definition dodamage :: "'a smode \<Rightarrow> int \<Rightarrow> int \<Rightarrow> int \<Rightarrow> int \<Rightarrow> vec \<Rightarrow> 'a world_scheme \<Rightarrow> 'a world_scheme" where
  "dodamage sm tcn acn dmg g dir w =
     (if damage_hook w tcn acn dmg g dir then w
      else let w = push tcn acn dmg g dir (hurt tcn acn dmg w)
        in if health (cstate tcn w) \<le> 0 then kill sm tcn acn w else w)"

definition suicide :: "'a smode \<Rightarrow> int \<Rightarrow> 'a world_scheme \<Rightarrow> 'a world_scheme" where
  "suicide sm cn w =
     (if suicide_hook w cn \<or> gs_state (cstate cn w) \<noteq> CS_ALIVE then w
      else let fv = smode_fragvalue sm (client cn w) (client cn w) w;
               w = upd_state cn (\<lambda>s. s\<lparr>gs_frags := gs_frags s + fv, gs_deaths := gs_deaths s + 1,
                     gs_suicides := gs_suicides s + 1\<rparr>) w;
               (tf, w) = credit_team cn fv w;
               w = emit (sendf (- 1) 1 [MI N_DIED, MI cn, MI cn, MI (gs_frags (cstate cn w)), MI tf]) w;
               w = smode_died sm cn None (clear_position cn w)
           in upd_state cn (\<lambda>s. gs_respawn (s\<lparr>gs_state := CS_DEAD, gs_lastdeath := gamemillis w\<rparr>)) w)"

subsection \<open>Items\<close>

definition canspawnitem :: "int \<Rightarrow> int \<Rightarrow> bool" where
  "canspawnitem mode type \<longleftrightarrow> \<not> m_noitems mode \<and> type \<ge> I_SHELLS \<and> type \<le> I_QUAD
     \<and> (\<not> m_noammo mode \<or> type < I_SHELLS \<or> type > I_CARTRIDGES)"

definition spawntime :: "int \<Rightarrow> 'a world_scheme \<Rightarrow> int" where
  "spawntime type w =
     (if m_classicsp (gamemode w) then INT_MAX
      else let np = numclients (- 1) True False False w;
               np = (if np < 3 then 4 else if np > 4 then 2 else 3)
           in 1000 * (if type = I_SHELLS \<or> type = I_BULLETS \<or> type = I_ROCKETS \<or> type = I_ROUNDS
                         \<or> type = I_GRENADES \<or> type = I_CARTRIDGES then np * 4
                      else if type = I_HEALTH then np * 5
                      else if type = I_GREENARMOUR then 20
                      else if type = I_YELLOWARMOUR then 30
                      else if type = I_BOOST then 60
                      else if type = I_QUAD then 70
                      else 0))"

definition delayspawn :: "int \<Rightarrow> int \<Rightarrow> bool" where
  "delayspawn mode type =
     (if type = I_GREENARMOUR \<or> type = I_YELLOWARMOUR then \<not> m_classicsp mode
      else type = I_BOOST \<or> type = I_QUAD)"

definition resetitems :: "'a world_scheme \<Rightarrow> 'a world_scheme" where
  "resetitems w = w\<lparr>ments := [], sents := []\<rparr>"

definition NOTUSED_entity :: server_entity where
  "NOTUSED_entity = \<lparr>se_type = 0, se_spawntime = 0, se_spawned = False, se_lastpickup = - 1\<rparr>"

text \<open>The loop of \<^verbatim>\<open>loaditems\<close> fills the table up to each item that can spawn.\<close>

fun load_sents :: "nat \<Rightarrow> entity list \<Rightarrow> 'a world_scheme \<Rightarrow> 'a world_scheme" where
  "load_sents i [] w = w"
| "load_sents i (e # es) w =
     load_sents (Suc i) es
       (if canspawnitem (gamemode w) (e_type e)
        then let se = sents w @ replicate (Suc i - length (sents w)) NOTUSED_entity;
                 it = (se ! i)\<lparr>se_type := e_type e\<rparr>;
                 it = (if m_mp (gamemode w) \<and> delayspawn (gamemode w) (e_type e)
                       then it\<lparr>se_spawntime := spawntime (e_type e) w\<rparr> else it\<lparr>se_spawned := True\<rparr>)
             in w\<lparr>sents := se[i := it]\<rparr>
        else w)"

text \<open>\<open>mapfile\<close> is what \<^verbatim>\<open>loadents\<close> reads from the file of the map, if there is one.\<close>

definition loaditems :: "entity list option \<Rightarrow> 'a world_scheme \<Rightarrow> 'a world_scheme" where
  "loaditems mapfile w =
     (let w = (resetitems w)\<lparr>notgotitems := True\<rparr>
      in if m_edit (gamemode w) then w
         else case mapfile of
                None \<Rightarrow> w
              | Some es \<Rightarrow> (load_sents 0 es (w\<lparr>ments := es\<rparr>))\<lparr>notgotitems := False\<rparr>)"

definition pickup_item :: "int \<Rightarrow> int \<Rightarrow> 'a world_scheme \<Rightarrow> bool \<times> 'a world_scheme" where
  "pickup_item i sender w =
     (if (m_timed (gamemode w) \<and> gamemillis w \<ge> gamelimit w) \<or> \<not> inrange i (sents w) \<or> \<not> se_spawned (sents w ! nat i)
      then (False, w)
      else case getinfo sender w of
             None \<Rightarrow> (False, w)
           | Some ci \<Rightarrow>
               let type = se_type (sents w ! nat i)
               in if \<not> ci_local ci \<and> \<not> canpickup type (fpsstate.truncate (ci_state ci))
                  then (False, emit (sendf sender 1 [MI N_ITEMACC, MI i, MI (- 1)]) w)
                  else let w = w\<lparr>sents := upd_nth i (\<lambda>e. e\<lparr>se_spawned := False, se_spawntime := spawntime type w,
                             se_lastpickup := totalmillis w\<rparr>) (sents w)\<rparr>;
                           w = emit (sendf (- 1) 1 [MI N_ITEMACC, MI i, MI sender]) w
                       in (True, upd_state (ci_clientnum ci) (on_fps (pickup type)) w))"

text \<open>One item in the loop of \<^verbatim>\<open>serverupdate\<close>: the timer runs down, the item appears when it ends, and a
  powerful item is announced ten seconds before.\<close>

definition item_tick :: "int \<Rightarrow> server_entity \<Rightarrow> server_entity" where
  "item_tick ct e =
     (if se_spawntime e = 0 then e
      else if se_spawntime e - ct \<le> 0 then e\<lparr>se_spawntime := 0, se_spawned := True\<rparr>
      else e\<lparr>se_spawntime := se_spawntime e - ct\<rparr>)"

definition item_notice :: "int \<Rightarrow> nat \<Rightarrow> server_entity \<Rightarrow> effect list" where
  "item_notice ct i e =
     (if se_spawntime e = 0 then []
      else if se_spawntime e - ct \<le> 0 then [sendf (- 1) 1 [MI N_ITEMSPAWN, MI (int i)]]
      else if se_spawntime e - ct \<le> 10000 \<and> se_spawntime e > 10000 \<and> (se_type e = I_QUAD \<or> se_type e = I_BOOST)
      then [sendf (- 1) 1 [MI N_ANNOUNCE, MI (se_type e)]] else [])"

definition items_update :: "'a world_scheme \<Rightarrow> 'a world_scheme" where
  "items_update w =
     (if curtime w = 0 then w
      else w\<lparr>sents := map (item_tick (curtime w)) (sents w),
             outbox := outbox w @ concat (map (\<lambda>i. item_notice (curtime w) i (sents w ! i)) [0..<length (sents w)])\<rparr>)"

subsection \<open>Events\<close>

definition quad :: "gamestate \<Rightarrow> int" where
  "quad s = (if quadmillis s \<noteq> 0 then 4 else 1)"

text \<open>\<open>hit_target\<close> is the test that a claimed hit names a living player in the life the client saw.\<close>

definition hit_target :: "hitinfo \<Rightarrow> 'a world_scheme \<Rightarrow> clientinfo option" where
  "hit_target h w = (case getinfo (hi_target h) w of
     Some t \<Rightarrow> if gs_state (ci_state t) = CS_ALIVE \<and> hi_lifesequence h = gs_lifesequence (ci_state t) then Some t else None
   | None \<Rightarrow> None)"

definition count_hit :: "int \<Rightarrow> int \<Rightarrow> 'a world_scheme \<Rightarrow> 'a world_scheme" where
  "count_hit cn tcn = upd_state cn (\<lambda>s. s\<lparr>gs_hits := gs_hits s + (if cn \<noteq> tcn then 1 else 0)\<rparr>)"

definition blast_damage :: "int \<Rightarrow> rat \<Rightarrow> gamestate \<Rightarrow> bool \<Rightarrow> int" where
  "blast_damage g r s self =
     (let d = trunc (of_int (gun_damage (gun g) * quad s) * (1 - r / EXP_DISTSCALE / of_int (exprad (gun g))))
      in if self then cdiv d EXP_SELFDAMDIV else d)"

fun explode_hits :: "'a smode \<Rightarrow> int \<Rightarrow> int \<Rightarrow> int list \<Rightarrow> hitinfo list \<Rightarrow> 'a world_scheme \<Rightarrow> 'a world_scheme" where
  "explode_hits sm cn g seen [] w = w"
| "explode_hits sm cn g seen (h # hs) w =
     explode_hits sm cn g (hi_target h # seen) hs
       (case hit_target h w of
          None \<Rightarrow> w
        | Some t \<Rightarrow>
            if hi_dist h < 0 \<or> hi_dist h > of_int (exprad (gun g)) \<or> hi_target h \<in> set seen then w
            else dodamage sm (ci_clientnum t) cn (blast_damage g (hi_dist h) (cstate cn w) (ci_clientnum t = cn)) g
                   (hi_dir h) (count_hit cn (ci_clientnum t) w))"

definition remove_projectile :: "int \<Rightarrow> int \<Rightarrow> int \<Rightarrow> 'a world_scheme \<Rightarrow> bool \<times> 'a world_scheme" where
  "remove_projectile g pid cn w =
     (if g = GUN_RL then (fst (proj_remove pid (gs_rockets (cstate cn w))),
        upd_state cn (\<lambda>s. s\<lparr>gs_rockets := snd (proj_remove pid (gs_rockets s))\<rparr>) w)
      else if g = GUN_GL then (fst (proj_remove pid (gs_grenades (cstate cn w))),
        upd_state cn (\<lambda>s. s\<lparr>gs_grenades := snd (proj_remove pid (gs_grenades s))\<rparr>) w)
      else (False, w))"

definition explode :: "'a smode \<Rightarrow> int \<Rightarrow> int \<Rightarrow> hitinfo list \<Rightarrow> int \<Rightarrow> 'a world_scheme \<Rightarrow> 'a world_scheme" where
  "explode sm pid g hits cn w =
     (let (found, w) = remove_projectile g pid cn w
      in if \<not> found then w
         else let w = upd_state cn (\<lambda>s. s\<lparr>gs_explosivedamage := gs_explosivedamage s + gun_damage (gun g) * quad s\<rparr>) w;
                  w = emit (Sendf (- 1) 1 [MI N_EXPLODEFX, MI cn, MI g, MI pid] (ci_ownernum (client cn w))) w
              in explode_hits sm cn g [] hits w)"

text \<open>The total of the rays and the damage of a hit wrap around.\<close>

definition shot_damage :: "int \<Rightarrow> i32 \<Rightarrow> gamestate \<Rightarrow> int" where
  "shot_damage g rays s = sint (rays * word_of_int (gun_damage (gun g)) * word_of_int (quad s))"

fun shot_hits :: "'a smode \<Rightarrow> int \<Rightarrow> int \<Rightarrow> i32 \<Rightarrow> hitinfo list \<Rightarrow> 'a world_scheme \<Rightarrow> 'a world_scheme" where
  "shot_hits sm cn g tot [] w = w"
| "shot_hits sm cn g tot (h # hs) w =
     (case hit_target h w of
        None \<Rightarrow> shot_hits sm cn g tot hs w
      | Some t \<Rightarrow>
          if sint (hi_rays h) < 1 \<or> hi_dist h > of_int (gun_range (gun g) + 1) then shot_hits sm cn g tot hs w
          else let tot = tot + hi_rays h
            in if sint tot > gun_rays (gun g) then shot_hits sm cn g tot hs w
               else shot_hits sm cn g tot hs
                 (dodamage sm (ci_clientnum t) cn (shot_damage g (hi_rays h) (cstate cn w)) g (hi_dir h)
                   (count_hit cn (ci_clientnum t) w)))"

definition far_apart :: "vec \<Rightarrow> vec \<Rightarrow> int \<Rightarrow> bool" where
  "far_apart a b r \<longleftrightarrow> (vx a - vx b)\<^sup>2 + (vy a - vy b)\<^sup>2 + (vz a - vz b)\<^sup>2 > of_int (r * r)"

definition shot_refused :: "int \<Rightarrow> int \<Rightarrow> vec \<Rightarrow> vec \<Rightarrow> int \<Rightarrow> 'a world_scheme \<Rightarrow> bool" where
  "shot_refused millis g from to cn w \<longleftrightarrow>
     (let s = cstate cn w
      in \<not> isalive (gamemillis w) s \<or> millis - gs_lastshot s < gunwait s \<or> g < GUN_FIST \<or> g > GUN_PISTOL
         \<or> ammo s ! nat g \<le> 0 \<or> (gun_range (gun g) \<noteq> 0 \<and> far_apart from to (gun_range (gun g) + 1)))"

definition fire :: "int \<Rightarrow> int \<Rightarrow> gamestate \<Rightarrow> gamestate" where
  "fire millis g s = s\<lparr>ammo := (if g \<noteq> GUN_FIST then (ammo s)[nat g := ammo s ! nat g - 1] else ammo s),
     gs_lastshot := millis, gunwait := attackdelay (gun g),
     gs_shotdamage := gs_shotdamage s + gun_damage (gun g) * quad s * gun_rays (gun g), gs_shots := gs_shots s + 1\<rparr>"

definition shoot :: "'a smode \<Rightarrow> int \<Rightarrow> int \<Rightarrow> int \<Rightarrow> vec \<Rightarrow> vec \<Rightarrow> hitinfo list \<Rightarrow> int \<Rightarrow> 'a world_scheme \<Rightarrow> 'a world_scheme" where
  "shoot sm millis sid g from to hits cn w =
     (if shot_refused millis g from to cn w then w
      else let old = gs_hits (cstate cn w);
               w = emit (Sendf (- 1) 1 [MI N_SHOTFX, MI cn, MI g, MI sid, MI (dmf_int (vx from)), MI (dmf_int (vy from)),
                     MI (dmf_int (vz from)), MI (dmf_int (vx to)), MI (dmf_int (vy to)), MI (dmf_int (vz to))]
                     (ci_ownernum (client cn w))) (upd_state cn (fire millis g) w);
               w = (if g = GUN_RL then upd_state cn (\<lambda>s. s\<lparr>gs_rockets := proj_add sid (gs_rockets s)\<rparr>) w
                    else if g = GUN_GL then upd_state cn (\<lambda>s. s\<lparr>gs_grenades := proj_add sid (gs_grenades s)\<rparr>) w
                    else shot_hits sm cn g 0 hits w);
               scored = gs_hits (cstate cn w) - old;
               w = upd_state cn (\<lambda>s. s\<lparr>gs_misses := gs_misses s + (if scored = 0 then 1 else 0)\<rparr>) w
           in emit (Event ''shot'' [MI cn, MI g, MI scored]) w)"

fun process_event :: "'a smode \<Rightarrow> gameevent \<Rightarrow> int \<Rightarrow> 'a world_scheme \<Rightarrow> 'a world_scheme" where
  "process_event sm (ShotEvent millis sid g from to hits) cn w = shoot sm millis sid g from to hits cn w"
| "process_event sm (ExplodeEvent millis pid g hits) cn w = explode sm pid g hits cn w"
| "process_event sm SuicideEvent cn w = suicide sm cn w"
| "process_event sm (PickupEvent ent) cn w =
     (if m_mp (gamemode w) \<and> \<not> isalive (gamemillis w) (cstate cn w) then w else snd (pickup_item ent cn w))"

text \<open>\<^verbatim>\<open>flush\<close>: an event without a time is processed at once; a timed one is kept for later, processed,
  or dropped when an event with a later time was processed before.\<close>

fun event_time :: "gameevent \<Rightarrow> int option" where
  "event_time (ShotEvent millis _ _ _ _ _) = Some millis"
| "event_time (ExplodeEvent millis _ _ _) = Some millis"
| "event_time _ = None"

definition flush_event :: "'a smode \<Rightarrow> gameevent \<Rightarrow> int \<Rightarrow> int \<Rightarrow> 'a world_scheme \<Rightarrow> bool \<times> 'a world_scheme" where
  "flush_event sm e cn fmillis w = (case event_time e of
     None \<Rightarrow> (True, process_event sm e cn w)
   | Some millis \<Rightarrow>
       if millis > fmillis then (False, w)
       else if millis \<ge> ci_lastevent (client cn w)
       then (True, process_event sm e cn (upd_client cn (\<lambda>ci. ci\<lparr>ci_lastevent := millis\<rparr>) w))
       else (True, w))"

definition clearevent :: "int \<Rightarrow> 'a world_scheme \<Rightarrow> 'a world_scheme" where
  "clearevent cn = upd_client cn (\<lambda>ci. ci\<lparr>ci_events := tl (ci_events ci)\<rparr>)"

text \<open>The loop of \<^verbatim>\<open>flushevents\<close> runs over the queue as it is at the start: processing an event
  appends nothing to it.\<close>

fun flush_loop :: "'a smode \<Rightarrow> gameevent list \<Rightarrow> int \<Rightarrow> int \<Rightarrow> 'a world_scheme \<Rightarrow> 'a world_scheme" where
  "flush_loop sm [] cn millis w = w"
| "flush_loop sm (e # es) cn millis w =
     (let (done, w') = flush_event sm e cn millis w
      in if done then flush_loop sm es cn millis (clearevent cn w') else w')"

definition flushevents :: "'a smode \<Rightarrow> int \<Rightarrow> int \<Rightarrow> 'a world_scheme \<Rightarrow> 'a world_scheme" where
  "flushevents sm cn millis w = flush_loop sm (ci_events (client cn w)) cn millis w"

definition process_client :: "'a smode \<Rightarrow> int \<Rightarrow> 'a world_scheme \<Rightarrow> 'a world_scheme" where
  "process_client sm cn w =
     (let w = (if curtime w > 0 \<and> quadmillis (cstate cn w) \<noteq> 0
               then upd_state cn (\<lambda>s. s\<lparr>quadmillis := max (quadmillis s - curtime w) 0\<rparr>) w else w)
      in flushevents sm cn (gamemillis w) w)"

definition processevents :: "'a smode \<Rightarrow> 'a world_scheme \<Rightarrow> 'a world_scheme" where
  "processevents sm w = fold (process_client sm) (map ci_clientnum (clients w)) w"

text \<open>\<^verbatim>\<open>cleartimedevents\<close> on the queue: \<open>i\<close> is the index of the loop and \<open>keep\<close> the number of
  events at the front that stay.\<close>

function (sequential) cleartimed_loop :: "nat \<Rightarrow> nat \<Rightarrow> gameevent list \<Rightarrow> gameevent list" where
  "cleartimed_loop i kp evs =
     (if i < length evs
      then if keepable (evs ! i)
           then if kp < i then cleartimed_loop (Suc kp) (Suc kp) (take kp evs @ drop i evs)
                else cleartimed_loop (Suc i) (Suc i) evs
           else cleartimed_loop (Suc i) kp evs
      else take kp evs)"
  by pat_completeness auto
termination
  by (relation "measure (\<lambda>(i, kp, evs). length evs - i)") auto

definition cleartimedevents :: "clientinfo \<Rightarrow> clientinfo" where
  "cleartimedevents ci = ci\<lparr>ci_events := cleartimed_loop 0 0 (ci_events ci), ci_timesync := False\<rparr>"

subsection \<open>Looking clients up after an update\<close>

definition roster :: "'a world_scheme \<Rightarrow> clientinfo list" where
  "roster w = clients w @ connects w"

lemma roster_frame [simp]:
  "roster (emit e w) = roster w" "roster (snd (draw n w)) = roster w" "roster (team_addfrags t n w) = roster w"
  "roster (w\<lparr>sents := se\<rparr>) = roster w"
  by (simp_all add: roster_def team_addfrags_def)

lemma roster_upd_client: "roster (upd_client cn f w) = map (\<lambda>ci. if ci_clientnum ci = cn then f ci else ci) (roster w)"
  by (simp add: roster_def upd_client_def)

lemma roster_upd_state:
  "roster (upd_state cn f w) = map (\<lambda>ci. if ci_clientnum ci = cn then ci\<lparr>ci_state := f (ci_state ci)\<rparr> else ci) (roster w)"
  by (simp add: upd_state_def roster_upd_client)

lemma client_find: "client cn w = (case find (\<lambda>ci. ci_clientnum ci = cn) (roster w) of Some ci \<Rightarrow> ci | None \<Rightarrow> ci_new)"
  by (simp add: client_def find_client_def roster_def)

lemma client_cong: "roster w' = roster w \<Longrightarrow> client cn w' = client cn w"
  by (simp add: client_find)

lemma client_frame [simp]:
  "client cn (emit e w) = client cn w" "client cn (team_addfrags t n w) = client cn w" "client cn (w\<lparr>sents := se\<rparr>) = client cn w"
  by (rule client_cong, simp)+

text \<open>A value that an update of the clients leaves alone is the same before and after for the client with a
  given number.\<close>

lemma find_map_keep:
  assumes "\<And>ci. ci_clientnum (f ci) = ci_clientnum ci" and "\<And>ci. g (f ci) = g ci"
  shows "g (case find (\<lambda>ci. ci_clientnum ci = cn) (map f xs) of Some ci \<Rightarrow> ci | None \<Rightarrow> d)
    = g (case find (\<lambda>ci. ci_clientnum ci = cn) xs of Some ci \<Rightarrow> ci | None \<Rightarrow> d)"
  by (induction xs) (simp_all add: assms)

lemma client_upd_keep:
  assumes "\<And>ci. ci_clientnum (f ci) = ci_clientnum ci" and "\<And>ci. g (f ci) = g ci"
  shows "g (client x (upd_client cn f w)) = g (client x w)"
  unfolding client_find roster_upd_client by (rule find_map_keep) (simp_all add: assms)

lemma client_upd_team [simp]:
  "ci_team (client x (upd_state cn f w)) = ci_team (client x w)"
  "ci_ownernum (client x (upd_state cn f w)) = ci_ownernum (client x w)"
  "ci_events (client x (upd_state cn f w)) = ci_events (client x w)"
  "ci_lastevent (client x (upd_state cn f w)) = ci_lastevent (client x w)"
  unfolding upd_state_def by (rule client_upd_keep; simp)+

lemma find_map_upd:
  assumes "\<And>ci. ci_clientnum (f ci) = ci_clientnum ci" and "cn \<in> ci_clientnum ` set xs"
  shows "(case find (\<lambda>ci. ci_clientnum ci = cn) (map (\<lambda>ci. if ci_clientnum ci = cn then f ci else ci) xs) of Some ci \<Rightarrow> ci | None \<Rightarrow> d)
    = f (case find (\<lambda>ci. ci_clientnum ci = cn) xs of Some ci \<Rightarrow> ci | None \<Rightarrow> d)"
  using assms(2) by (induction xs) (auto simp: assms(1))

lemma client_upd_same:
  assumes "\<And>ci. ci_clientnum (f ci) = ci_clientnum ci" and "cn \<in> ci_clientnum ` set (roster w)"
  shows "client cn (upd_client cn f w) = f (client cn w)"
  unfolding client_find roster_upd_client by (rule find_map_upd [OF assms])

lemma cstate_upd_same:
  "cn \<in> ci_clientnum ` set (roster w) \<Longrightarrow> cstate cn (upd_state cn f w) = f (cstate cn w)"
  unfolding upd_state_def by (subst client_upd_same) simp_all

lemma find_map_other:
  assumes "\<And>ci. ci_clientnum (f ci) = ci_clientnum ci" and "x \<noteq> cn"
  shows "find (\<lambda>ci. ci_clientnum ci = x) (map (\<lambda>ci. if ci_clientnum ci = cn then f ci else ci) xs) = find (\<lambda>ci. ci_clientnum ci = x) xs"
  using assms by (induction xs) auto

lemma client_upd_other:
  assumes "\<And>ci. ci_clientnum (f ci) = ci_clientnum ci" and "x \<noteq> cn"
  shows "client x (upd_client cn f w) = client x w"
  unfolding client_find roster_upd_client by (simp add: find_map_other [OF assms])

lemma cstate_upd_other [simp]: "x \<noteq> cn \<Longrightarrow> cstate x (upd_state cn f w) = cstate x w"
  unfolding upd_state_def by (subst client_upd_other) simp_all

lemma client_in_roster: "cn \<in> ci_clientnum ` set (roster w) \<Longrightarrow> client cn w \<in> set (roster w) \<and> ci_clientnum (client cn w) = cn"
proof (cases "find (\<lambda>ci. ci_clientnum ci = cn) (roster w)")
  case (Some ci)
  then have "ci \<in> set (roster w)" "ci_clientnum ci = cn" by (auto simp: find_Some_iff)
  with Some show ?thesis by (simp add: client_find)
qed (auto simp: find_None_iff)

lemma distinct_client:
  assumes "distinct (map ci_clientnum (roster w))" and "ci \<in> set (roster w)"
  shows "client (ci_clientnum ci) w = ci"
  using assms client_in_roster [of "ci_clientnum ci" w] by (auto simp: distinct_map inj_on_def)

lemma roster_nums:
  assumes "\<And>ci. ci_clientnum (f ci) = ci_clientnum ci"
  shows "map ci_clientnum (roster (upd_client cn f w)) = map ci_clientnum (roster w)"
  using assms by (simp add: roster_upd_client)

lemma roster_nums_state [simp]:
  "map ci_clientnum (roster (upd_state cn f w)) = map ci_clientnum (roster w)"
  "ci_clientnum ` set (roster (upd_state cn f w)) = ci_clientnum ` set (roster w)"
proof -
  show "map ci_clientnum (roster (upd_state cn f w)) = map ci_clientnum (roster w)"
    unfolding upd_state_def by (rule roster_nums) simp
  then show "ci_clientnum ` set (roster (upd_state cn f w)) = ci_clientnum ` set (roster w)" by (metis set_map)
qed

subsection \<open>Queues of events\<close>

text \<open>A loop that starts at index \<open>i\<close> with \<open>kp\<close> events to keep drops what is not keepable from there on.\<close>

lemma cleartimed_loop_filter:
  assumes "kp \<le> i" and "i \<le> length evs"
  shows "cleartimed_loop i kp evs = take kp evs @ filter keepable (drop i evs)"
  using assms
proof (induction i kp evs rule: cleartimed_loop.induct)
  case (1 i kp evs)
  show ?case
  proof (cases "i < length evs")
    case True
    then have d: "drop i evs = evs ! i # drop (Suc i) evs" by (rule Cons_nth_drop_Suc [symmetric])
    show ?thesis
    proof (cases "keepable (evs ! i)")
      case keep: True
      show ?thesis
      proof (cases "kp < i")
        case lt: True
        have "cleartimed_loop (Suc kp) (Suc kp) (take kp evs @ drop i evs)
            = take (Suc kp) (take kp evs @ drop i evs) @ filter keepable (drop (Suc kp) (take kp evs @ drop i evs))"
          using "1.IH"(1) [OF True keep lt] "1.prems" True by simp
        then show ?thesis using True keep lt "1.prems" d by (simp add: Suc_diff_le)
      next
        case False
        then have "kp = i" using "1.prems" by simp
        then show ?thesis using "1.IH"(2) [OF True keep False] True keep d by (simp add: take_Suc_conv_app_nth)
      qed
    next
      case False
      then show ?thesis using "1.IH"(3) [OF True False] "1.prems" True d by simp
    qed
  qed (use "1.prems" in simp)
qed

text \<open>\<^verbatim>\<open>cleartimedevents\<close>, which compacts the queue in place, leaves exactly the events that may be kept,
  in their order: the explosions of projectiles that are already in flight.\<close>

lemma cleartimedevents_filter:
  "ci_events (cleartimedevents ci) = filter keepable (ci_events ci) \<and> \<not> ci_timesync (cleartimedevents ci)"
  using cleartimed_loop_filter [of 0 0 "ci_events ci"] by (simp add: cleartimedevents_def del: cleartimed_loop.simps)

subsection \<open>What a mode may do when a player dies\<close>

text \<open>A mode may take the tokens of a player away; everything else about the clients is out of its hands.\<close>

definition tokenless :: "clientinfo \<Rightarrow> clientinfo" where
  "tokenless ci = ci\<lparr>ci_state := (ci_state ci)\<lparr>gs_tokens := 0\<rparr>\<rparr>"

text \<open>The parts of the world that fighting consults and a mode leaves alone.\<close>

definition arena :: "'a world_scheme \<Rightarrow> (int \<times> int \<times> int \<times> int) \<times> (cstr \<times> int) list \<times> server_entity list
    \<times> (int \<Rightarrow> int \<Rightarrow> int \<Rightarrow> int \<Rightarrow> vec \<Rightarrow> bool) \<times> (int \<Rightarrow> bool) \<times> (int \<Rightarrow> int option) \<times> int option list \<times> int" where
  "arena w = ((gamemode w, gamemillis w, curtime w, totalmillis w), teaminfos w, sents w, damage_hook w, suicide_hook w, peer_rtt w, bots w, spycn w)"

locale mode_contract =
  fixes sm :: "'a smode"
  assumes frag: "smode_fragvalue sm v a w = fragvalue v a w"
    and died_clients: "map tokenless (clients (smode_died sm t b w)) = map tokenless (clients w)"
    and died_connects: "map tokenless (connects (smode_died sm t b w)) = map tokenless (connects w)"
    and died_arena: "arena (smode_died sm t b w) = arena w"
begin

lemma died_map:
  assumes "\<And>ci. g (tokenless ci) = g ci"
  shows "map g (clients (smode_died sm t b w)) = map g (clients w)" "map g (roster (smode_died sm t b w)) = map g (roster w)"
proof -
  have m: "map g xs = map g (map tokenless xs)" for xs by (simp add: assms)
  show "map g (clients (smode_died sm t b w)) = map g (clients w)"
    by (subst (1 2) m) (simp only: died_clients)
  moreover have "map g (connects (smode_died sm t b w)) = map g (connects w)"
    by (subst (1 2) m) (simp only: died_connects)
  ultimately show "map g (roster (smode_died sm t b w)) = map g (roster w)" by (simp add: roster_def)
qed

end

interpretation no_mode: mode_contract "None :: 'a smode"
  by unfold_locales (simp_all add: smode_fragvalue_def smode_died_def)

subsection \<open>The scoreboard\<close>

definition board :: "clientinfo \<Rightarrow> int \<times> int \<times> int \<times> int" where
  "board ci = (let s = ci_state ci in (gs_frags s, gs_deaths s, gs_suicides s, gs_teamkills s))"

lemma map_clients_upd_state:
  "map h (clients (upd_state cn f w)) = map (\<lambda>ci. if ci_clientnum ci = cn then h (ci\<lparr>ci_state := f (ci_state ci)\<rparr>) else h ci) (clients w)"
  by (simp add: upd_state_def upd_client_def)

lemma map_clients_keep:
  assumes "\<And>ci. h (f ci) = h ci"
  shows "map h (clients (upd_client cn f w)) = map h (clients w)"
  using assms by (simp add: upd_client_def)

lemma upd_state_frame [simp]:
  "gamemode (upd_state cn f w) = gamemode w" "gamemillis (upd_state cn f w) = gamemillis w" "teaminfos (upd_state cn f w) = teaminfos w"
  "damage_hook (upd_state cn f w) = damage_hook w" "suicide_hook (upd_state cn f w) = suicide_hook w" "sents (upd_state cn f w) = sents w"
  "peer_rtt (upd_state cn f w) = peer_rtt w" "bots (upd_state cn f w) = bots w" "spycn (upd_state cn f w) = spycn w"
  "curtime (upd_state cn f w) = curtime w" "totalmillis (upd_state cn f w) = totalmillis w"
  by (simp_all add: upd_state_def)

lemma setpushed_keeps [simp]:
  "ci_clientnum (setpushed m r ci) = ci_clientnum ci" "ci_state (setpushed m r ci) = ci_state ci" "ci_team (setpushed m r ci) = ci_team ci"
  "ci_events (setpushed m r ci) = ci_events ci" "ci_ownernum (setpushed m r ci) = ci_ownernum ci" "ci_lastevent (setpushed m r ci) = ci_lastevent ci"
  by (simp_all add: setpushed_def Let_def)

lemma team_addfrags_simps [simp]:
  "clients (team_addfrags t n w) = clients w" "gamemode (team_addfrags t n w) = gamemode w" "gamemillis (team_addfrags t n w) = gamemillis w"
  by (simp_all add: team_addfrags_def)

lemma credit_team_simps [simp]:
  "clients (snd (credit_team a n w)) = clients w" "gamemode (snd (credit_team a n w)) = gamemode w" "roster (snd (credit_team a n w)) = roster w"
  "gamemillis (snd (credit_team a n w)) = gamemillis w"
  by (simp_all add: credit_team_def Let_def)

lemma client_credit_team [simp]: "client cn (snd (credit_team a n w)) = client cn w"
  by (rule client_cong) simp

lemma push_client_keeps:
  assumes "\<And>ci m r. h (setpushed m r ci) = h ci"
  shows "map h (clients (push_client cn w)) = map h (clients w)" "map h (roster (push_client cn w)) = map h (roster w)"
    "h (client x (push_client cn w)) = h (client x w)"
  unfolding push_client_def using assms
  by (simp_all add: map_clients_keep roster_upd_client client_upd_keep)

lemma push_keeps:
  assumes "\<And>ci m r. h (setpushed m r ci) = h ci"
  shows "map h (clients (push tcn acn dmg g dir w)) = map h (clients w)" "map h (roster (push tcn acn dmg g dir w)) = map h (roster w)"
    "h (client x (push tcn acn dmg g dir w)) = h (client x w)"
  by (simp_all add: push_def push_client_keeps [of h, OF assms])

lemma push_frame [simp]:
  "gamemode (push tcn acn dmg g dir w) = gamemode w" "gamemillis (push tcn acn dmg g dir w) = gamemillis w"
  "teaminfos (push tcn acn dmg g dir w) = teaminfos w" "ci_team (client x (push tcn acn dmg g dir w)) = ci_team (client x w)"
  "cstate x (push tcn acn dmg g dir w) = cstate x w"
  by (simp_all add: push_keeps) (simp_all add: push_def push_client_def)

lemma hurt_frame [simp]:
  "gamemode (hurt tcn acn dmg w) = gamemode w" "gamemillis (hurt tcn acn dmg w) = gamemillis w"
  "teaminfos (hurt tcn acn dmg w) = teaminfos w" "ci_team (client x (hurt tcn acn dmg w)) = ci_team (client x w)"
  by (simp_all add: hurt_def Let_def)

text \<open>A line of the scoreboard with the number of the client, and what a death adds to it.\<close>

definition entry :: "clientinfo \<Rightarrow> int \<times> int \<times> int \<times> int \<times> int" where
  "entry ci = (ci_clientnum ci, board ci)"

definition score_death :: "int \<Rightarrow> int \<Rightarrow> bool \<Rightarrow> int \<Rightarrow> int \<times> int \<times> int \<times> int \<times> int \<Rightarrow> int \<times> int \<times> int \<times> int \<times> int" where
  "score_death tcn acn tk fv = (\<lambda>(n, f, d, s, t). (n, f + (if n = acn then fv else 0), d + (if n = tcn then 1 else 0),
     s + (if n = tcn \<and> tcn = acn then 1 else 0), t + (if n = acn \<and> tk then 1 else 0)))"

lemma hurt_entries: "map entry (clients (hurt tcn acn dmg w)) = map entry (clients w)"
  by (simp add: hurt_def Let_def map_clients_upd_state) (auto simp: entry_def board_def on_fps_def Let_def)

lemma push_entries: "map entry (clients (push tcn acn dmg g dir w)) = map entry (clients w)"
  by (rule push_keeps) (simp add: entry_def board_def)

lemma count_death_frame [simp]:
  "gamemode (count_death tcn acn w) = gamemode w" "gamemillis (count_death tcn acn w) = gamemillis w"
  "teaminfos (count_death tcn acn w) = teaminfos w" "ci_team (client x (count_death tcn acn w)) = ci_team (client x w)"
  by (simp_all add: count_death_def Let_def)

definition teamkill :: "int \<Rightarrow> int \<Rightarrow> 'a world_scheme \<Rightarrow> bool" where
  "teamkill tcn acn w \<longleftrightarrow> acn \<noteq> tcn \<and> isteam (gamemode w) (ci_team (client acn w)) (ci_team (client tcn w))"

lemma count_death_entries:
  "map entry (clients (count_death tcn acn w)) = map (score_death tcn acn (teamkill tcn acn w) 0 \<circ> entry) (clients w)"
  by (simp add: count_death_def Let_def teamkill_def map_clients_upd_state)
    (auto simp: upd_state_def upd_client_def entry_def board_def score_death_def Let_def)

lemma count_frag_entries:
  "map entry (clients (count_frag sm tcn acn w))
    = map ((\<lambda>(n, f, r). (n, f + (if n = acn then smode_fragvalue sm (client tcn w) (client acn w) w else 0), r)) \<circ> entry) (clients w)"
  by (simp add: count_frag_def Let_def case_prod_beta map_clients_upd_state)
    (auto simp: upd_state_def upd_client_def entry_def board_def Let_def)

lemma count_frag_frame [simp]:
  "gamemillis (count_frag sm tcn acn w) = gamemillis w"
  by (simp add: count_frag_def Let_def case_prod_beta)

lemma fragvalue_cong:
  "ci_clientnum v = ci_clientnum v' \<Longrightarrow> ci_clientnum a = ci_clientnum a' \<Longrightarrow> ci_team v = ci_team v' \<Longrightarrow> ci_team a = ci_team a'
    \<Longrightarrow> gamemode w = gamemode w' \<Longrightarrow> fragvalue v a w = fragvalue v' a' w'"
  by (simp add: fragvalue_def)

lemma client_upd_num [simp]: "ci_clientnum (client x (upd_state cn f w)) = ci_clientnum (client x w)"
  unfolding upd_state_def by (rule client_upd_keep) simp_all

lemma client_num_frame [simp]:
  "ci_clientnum (client x (push tcn acn dmg g dir w)) = ci_clientnum (client x w)"
  "ci_clientnum (client x (hurt tcn acn dmg w)) = ci_clientnum (client x w)"
  "ci_clientnum (client x (count_death tcn acn w)) = ci_clientnum (client x w)"
  by (rule push_keeps) (simp_all add: hurt_def count_death_def Let_def)

lemma clear_position_keeps:
  assumes "\<And>ci. h (ci\<lparr>ci_position := []\<rparr>) = h ci"
  shows "map h (clients (clear_position cn w)) = map h (clients w)" "map h (roster (clear_position cn w)) = map h (roster w)"
    "h (client x (clear_position cn w)) = h (client x w)"
  unfolding clear_position_def using assms by (simp_all add: map_clients_keep roster_upd_client client_upd_keep)

lemma clear_position_frame [simp]:
  "gamemode (clear_position cn w) = gamemode w" "gamemillis (clear_position cn w) = gamemillis w" "cstate x (clear_position cn w) = cstate x w"
  by (simp_all add: clear_position_keeps) (simp_all add: clear_position_def)

text \<open>Whether a hit kills.\<close>

definition lethal :: "int \<Rightarrow> gamestate \<Rightarrow> bool" where
  "lethal dmg s \<longleftrightarrow> health (snd (fps_dodamage dmg (fpsstate.truncate s))) \<le> 0"

lemma on_fps_health [simp]: "health (on_fps f s) = health (f (fpsstate.truncate s))"
  by (simp add: on_fps_def Let_def)

lemma hurt_health:
  assumes "tcn \<in> ci_clientnum ` set (roster w)"
  shows "health (cstate tcn (hurt tcn acn dmg w)) = health (snd (fps_dodamage dmg (fpsstate.truncate (cstate tcn w))))"
  using assms by (cases "tcn = acn") (simp_all add: hurt_def Let_def cstate_upd_same)

context mode_contract
begin

lemma kill_entries:
  "map entry (clients (kill sm tcn acn w))
    = map (score_death tcn acn (teamkill tcn acn w) (fragvalue (client tcn w) (client acn w) w) \<circ> entry) (clients w)"
proof -
  have t: "entry (tokenless ci) = entry ci" for ci by (simp add: tokenless_def entry_def board_def Let_def)
  have fv: "fragvalue (client tcn (count_death tcn acn w)) (client acn (count_death tcn acn w)) (count_death tcn acn w)
      = fragvalue (client tcn w) (client acn w) w" by (rule fragvalue_cong) simp_all
  have p: "entry (ci\<lparr>ci_position := []\<rparr>) = entry ci" for ci by (simp add: entry_def board_def)
  have "map entry (clients (kill sm tcn acn w))
      = map entry (clients (smode_died sm tcn (Some acn) (clear_position tcn (count_frag sm tcn acn (count_death tcn acn w)))))"
    unfolding kill_def mark_dead_def upd_state_def by (rule map_clients_keep) (simp add: entry_def board_def Let_def)
  also have "\<dots> = map entry (clients (count_frag sm tcn acn (count_death tcn acn w)))"
    by (simp only: died_map(1) [of entry, OF t] clear_position_keeps(1) [of entry, OF p])
  also have "\<dots> = map (\<lambda>(n, f, r). (n, f + (if n = acn then fragvalue (client tcn w) (client acn w) w else 0), r))
      (map entry (clients (count_death tcn acn w)))" unfolding count_frag_entries frag fv by simp
  finally show ?thesis unfolding count_death_entries by (simp add: comp_def score_death_def case_prod_beta)
qed

lemma dodamage_entries:
  assumes "\<not> damage_hook w tcn acn dmg g dir" and "tcn \<in> ci_clientnum ` set (roster w)"
  shows "map entry (clients (dodamage sm tcn acn dmg g dir w))
    = (if lethal dmg (cstate tcn w)
       then map (score_death tcn acn (teamkill tcn acn w) (fragvalue (client tcn w) (client acn w) w) \<circ> entry) (clients w)
       else map entry (clients w))"
proof -
  let ?w = "push tcn acn dmg g dir (hurt tcn acn dmg w)"
  have fv: "fragvalue (client tcn ?w) (client acn ?w) ?w = fragvalue (client tcn w) (client acn w) w" by (rule fragvalue_cong) simp_all
  have tk: "teamkill tcn acn ?w = teamkill tcn acn w" by (simp add: teamkill_def)
  have "map (f \<circ> entry) (clients ?w) = map (f \<circ> entry) (clients w)" for f :: "int \<times> int \<times> int \<times> int \<times> int \<Rightarrow> int \<times> int \<times> int \<times> int \<times> int"
    by (simp only: map_map [symmetric] push_entries hurt_entries)
  then show ?thesis using assms
    by (simp add: dodamage_def Let_def lethal_def hurt_health kill_entries fv tk push_entries hurt_entries)
qed

end

subsection \<open>What a hit does to the players\<close>

text \<open>The view of a client that fighting changes: its number, the inherited state, whether it lives, its
  projectiles and its queue.\<close>

type_synonym life = "int \<times> fpsstate \<times> int \<times> projectilestate \<times> projectilestate \<times> gameevent list"

definition life :: "clientinfo \<Rightarrow> life" where
  "life ci = (let s = ci_state ci in (ci_clientnum ci, fpsstate.truncate s, gs_state s, gs_rockets s, gs_grenades s, ci_events ci))"

definition lives :: "'a world_scheme \<Rightarrow> life list" where
  "lives w = map life (roster w)"

lemma lives_frame [simp]:
  "lives (emit e w) = lives w" "lives (team_addfrags t n w) = lives w" "lives (snd (credit_team a n w)) = lives w"
  "lives (w\<lparr>sents := se\<rparr>) = lives w"
  by (simp_all add: lives_def)

lemma client_map_cong:
  assumes "map (\<lambda>ci. (ci_clientnum ci, g ci)) (roster w') = map (\<lambda>ci. (ci_clientnum ci, g ci)) (roster w)"
  shows "g (client x w') = g (client x w)"
proof -
  have "g (case find (\<lambda>ci. ci_clientnum ci = x) xs of Some ci \<Rightarrow> ci | None \<Rightarrow> d)
      = g (case find (\<lambda>ci. ci_clientnum ci = x) ys of Some ci \<Rightarrow> ci | None \<Rightarrow> d)"
    if "map (\<lambda>ci. (ci_clientnum ci, g ci)) xs = map (\<lambda>ci. (ci_clientnum ci, g ci)) ys" for xs ys d
    using that by (induction xs ys rule: list_induct2') auto
  then show ?thesis unfolding client_find using assms by blast
qed

lemma lives_project:
  assumes "lives w' = map (\<lambda>l. (fst l, h l)) (lives w)" and "\<And>l. p (h l) = p (snd l)"
  shows "map (\<lambda>l. (fst l, p (snd l))) (lives w') = map (\<lambda>l. (fst l, p (snd l))) (lives w)"
  using assms by simp

text \<open>An update of the client's state that leaves the view alone, and one that does not.\<close>

definition same_life :: "(gamestate \<Rightarrow> gamestate) \<Rightarrow> bool" where
  "same_life f \<longleftrightarrow> (\<forall>s. fpsstate.truncate (f s) = fpsstate.truncate s \<and> gs_state (f s) = gs_state s
     \<and> gs_rockets (f s) = gs_rockets s \<and> gs_grenades (f s) = gs_grenades s)"

lemma lives_same [simp]: "same_life f \<Longrightarrow> lives (upd_state cn f w) = lives w"
  by (simp add: lives_def roster_upd_state same_life_def life_def Let_def)

lemma lives_upd:
  "lives (upd_state cn f w) = map (\<lambda>ci. if ci_clientnum ci = cn then life (ci\<lparr>ci_state := f (ci_state ci)\<rparr>) else life ci) (roster w)"
  by (simp add: lives_def roster_upd_state)

lemma lives_push [simp]: "lives (push tcn acn dmg g dir w) = lives w"
  unfolding lives_def by (rule push_keeps) (simp add: life_def)

lemma lives_clear_position [simp]: "lives (clear_position cn w) = lives w"
  unfolding lives_def by (rule clear_position_keeps) (simp add: life_def)

lemma truncate_counters [simp]:
  "fpsstate.truncate (s\<lparr>gs_deaths := a, gs_suicides := b\<rparr>) = fpsstate.truncate s"
  "fpsstate.truncate (s\<lparr>gs_teamkills := a\<rparr>) = fpsstate.truncate s" "fpsstate.truncate (s\<lparr>gs_frags := a\<rparr>) = fpsstate.truncate s"
  "fpsstate.truncate (s\<lparr>gs_effectiveness := q\<rparr>) = fpsstate.truncate s" "fpsstate.truncate (s\<lparr>gs_damage := a\<rparr>) = fpsstate.truncate s"
  "fpsstate.truncate (s\<lparr>gs_hits := a\<rparr>) = fpsstate.truncate s" "fpsstate.truncate (s\<lparr>gs_misses := a\<rparr>) = fpsstate.truncate s"
  "fpsstate.truncate (s\<lparr>gs_explosivedamage := a\<rparr>) = fpsstate.truncate s" "fpsstate.truncate (s\<lparr>gs_tokens := a\<rparr>) = fpsstate.truncate s"
  "fpsstate.truncate (s\<lparr>gs_rockets := p\<rparr>) = fpsstate.truncate s" "fpsstate.truncate (s\<lparr>gs_grenades := p\<rparr>) = fpsstate.truncate s"
  "fpsstate.truncate (s\<lparr>gs_state := a, gs_lastdeath := b, gs_deadflush := c\<rparr>) = fpsstate.truncate s"
  "fpsstate.truncate (s\<lparr>gs_frags := a, gs_deaths := b, gs_suicides := c\<rparr>) = fpsstate.truncate s"
  by (simp_all add: fpsstate.truncate_def)

lemma lives_count_death [simp]: "lives (count_death tcn acn w) = lives w"
  by (simp add: count_death_def Let_def same_life_def fpsstate.truncate_def)

lemma lives_count_frag [simp]: "lives (count_frag sm tcn acn w) = lives w"
  by (simp add: count_frag_def Let_def case_prod_beta same_life_def)

lemma lives_count_hit [simp]: "lives (count_hit cn tcn w) = lives w"
  by (simp add: count_hit_def same_life_def)

definition wound :: "int \<Rightarrow> int \<Rightarrow> bool \<Rightarrow> life \<Rightarrow> life" where
  "wound tcn dmg dead = (\<lambda>(n, t, st, r, gr, ev). if n = tcn
     then (n, snd (fps_dodamage dmg t), (if dead then CS_DEAD else st), r, gr, ev) else (n, t, st, r, gr, ev))"

lemma on_fps_keeps [simp]:
  "gs_state (on_fps f s) = gs_state s" "gs_rockets (on_fps f s) = gs_rockets s" "gs_grenades (on_fps f s) = gs_grenades s"
  by (simp_all add: on_fps_def Let_def)

lemma lives_hurt: "lives (hurt tcn acn dmg w) = map (wound tcn dmg False) (lives w)"
proof -
  have "lives (upd_state tcn (on_fps (\<lambda>s. snd (fps_dodamage dmg s))) w) = map (wound tcn dmg False) (lives w)"
    unfolding lives_upd by (auto simp: lives_def wound_def life_def Let_def)
  then show ?thesis by (simp add: hurt_def Let_def same_life_def)
qed

context mode_contract
begin

lemma lives_died [simp]: "lives (smode_died sm t b w) = lives w"
  unfolding lives_def by (rule died_map) (simp add: life_def tokenless_def Let_def)

lemma lives_kill: "lives (kill sm tcn acn w) = map (\<lambda>(n, t, st, r). (n, t, (if n = tcn then CS_DEAD else st), r)) (lives w)"
proof -
  have "lives (mark_dead tcn w) = map (\<lambda>(n, t, st, r). (n, t, (if n = tcn then CS_DEAD else st), r)) (lives w)" for w :: "'a world_scheme"
    by (simp add: mark_dead_def lives_upd) (auto simp: lives_def life_def Let_def)
  then show ?thesis by (simp add: kill_def)
qed

lemma dodamage_lives:
  assumes "tcn \<in> ci_clientnum ` set (roster w)"
  shows "lives (dodamage sm tcn acn dmg g dir w)
    = (if damage_hook w tcn acn dmg g dir then lives w else map (wound tcn dmg (lethal dmg (cstate tcn w))) (lives w))"
  using assms by (simp add: dodamage_def Let_def lives_kill lives_hurt hurt_health lethal_def) (auto simp: wound_def)

end

subsection \<open>The damage of a shot\<close>

definition vitality :: "fpsstate \<Rightarrow> int" where
  "vitality t = health t + armour t"

definition vital :: "'a world_scheme \<Rightarrow> int" where
  "vital w = (\<Sum>l \<leftarrow> lives w. vitality (fst (snd l)))"

lemma vitality_dodamage: "vitality (snd (fps_dodamage d t)) = vitality t - d"
  by (simp add: vitality_def fps_dodamage_def Let_def)

lemma sum_wound:
  fixes ls :: "life list"
  assumes "distinct (map fst ls)" and "0 \<le> d"
  shows "(\<Sum>l \<leftarrow> ls. vitality (fst (snd l))) - d \<le> (\<Sum>l \<leftarrow> map (wound tcn d b) ls. vitality (fst (snd l)))
    \<and> (\<Sum>l \<leftarrow> map (wound tcn d b) ls. vitality (fst (snd l))) \<le> (\<Sum>l \<leftarrow> ls. vitality (fst (snd l)))"
  using assms(1)
proof (induction ls)
  case (Cons l ls)
  obtain n t r where l: "l = (n, t, r)" by (cases l)
  show ?case
  proof (cases "n = tcn")
    case True
    then have "map (wound tcn d b) ls = ls" using Cons.prems l by (intro map_idI) (force simp: wound_def)
    moreover have "vitality (fst (snd (wound tcn d b l))) = vitality t - d"
      using True l by (simp add: wound_def vitality_dodamage case_prod_beta)
    ultimately show ?thesis using l assms(2) by (simp del: map_map)
  next
    case False
    then have "wound tcn d b l = l" using l by (simp add: wound_def case_prod_beta)
    then show ?thesis using Cons by simp
  qed
qed (use assms(2) in simp)

lemma sum_wound_exact:
  fixes ls :: "life list"
  assumes "distinct (map fst ls)" and "tcn \<in> fst ` set ls"
  shows "(\<Sum>l \<leftarrow> map (wound tcn d b) ls. vitality (fst (snd l))) = (\<Sum>l \<leftarrow> ls. vitality (fst (snd l))) - d"
  using assms
proof (induction ls)
  case (Cons l ls)
  obtain n t r where l: "l = (n, t, r)" by (cases l)
  show ?case
  proof (cases "n = tcn")
    case True
    then have "map (wound tcn d b) ls = ls" using Cons.prems(1) l by (intro map_idI) (force simp: wound_def)
    moreover have "vitality (fst (snd (wound tcn d b l))) = vitality t - d"
      using True l by (simp add: wound_def vitality_dodamage case_prod_beta)
    ultimately show ?thesis using l by (simp del: map_map)
  next
    case False
    then have "wound tcn d b l = l" using l by (simp add: wound_def case_prod_beta)
    then show ?thesis using Cons False l by auto
  qed
qed simp

lemma fst_lives: "map fst (lives w) = map ci_clientnum (roster w)"
  by (simp add: lives_def life_def Let_def comp_def)

lemma wound_quad:
  "map (\<lambda>l. (fst l, quadmillis (fst (snd l)))) (map (wound tcn d b) ls) = map (\<lambda>l. (fst l, quadmillis (fst (snd l)))) ls"
  by (auto simp: wound_def fps_dodamage_def Let_def)

lemma quad_cong:
  assumes "map (\<lambda>l. (fst l, quadmillis (fst (snd l)))) (lives w') = map (\<lambda>l. (fst l, quadmillis (fst (snd l)))) (lives w)"
  shows "quad (cstate x w') = quad (cstate x w)"
proof -
  have "quadmillis (fpsstate.truncate s) = quadmillis s" for s :: gamestate by (simp add: fpsstate.truncate_def)
  then have "map (\<lambda>ci. (ci_clientnum ci, quadmillis (ci_state ci))) (roster w') = map (\<lambda>ci. (ci_clientnum ci, quadmillis (ci_state ci))) (roster w)"
    using assms by (simp add: lives_def life_def Let_def comp_def)
  from client_map_cong [OF this, of x] show ?thesis by (simp add: quad_def)
qed

lemma find_SomeD: "find P xs = Some x \<Longrightarrow> x \<in> set xs \<and> P x"
  by (auto simp: find_Some_iff)

lemma getinfo_in_roster: "getinfo n w = Some t \<Longrightarrow> t \<in> set (roster w)"
  unfolding getinfo_def roster_def by (auto dest!: find_SomeD split: option.splits if_splits)

lemma hit_target_in:
  assumes "hit_target h w = Some t"
  shows "t \<in> set (roster w)" "gs_state (ci_state t) = CS_ALIVE"
  using assms getinfo_in_roster [of "hi_target h" w] by (auto simp: hit_target_def split: option.splits if_splits)

text \<open>A sum and a product of 32 bits that fit are exact.\<close>

lemma sint_add_fits:
  fixes a b :: i32
  assumes "- (2 ^ 31) \<le> sint a + sint b" "sint a + sint b < 2 ^ 31"
  shows "sint (a + b) = sint a + sint b"
  using assms by (simp add: sint_word_ariths signed_take_bit_int_eq_self)

lemma sint_mult_fits:
  fixes a b :: i32
  assumes "- (2 ^ 31) \<le> sint a * sint b" "sint a * sint b < 2 ^ 31"
  shows "sint (a * b) = sint a * sint b"
  using assms by (simp add: sint_word_ariths signed_take_bit_int_eq_self)

lemma sint_of_int_fits: "- (2 ^ 31) \<le> n \<Longrightarrow> n < 2 ^ 31 \<Longrightarrow> sint (word_of_int n :: i32) = n"
  by (simp add: sint_sbintrunc' signed_take_bit_int_eq_self)

lemma gun_limits: "GUN_FIST \<le> g \<Longrightarrow> g \<le> GUN_PISTOL \<Longrightarrow>
  0 < gun_damage (gun g) \<and> gun_damage (gun g) \<le> 120 \<and> 0 \<le> gun_rays (gun g) \<and> gun_rays (gun g) \<le> 20"
proof -
  assume "GUN_FIST \<le> g" "g \<le> GUN_PISTOL"
  then have "g \<in> {0, 1, 2, 3, 4, 5, 6}" by auto
  then show ?thesis by (auto simp: gun_def guns_def)
qed

lemma shot_damage_exact:
  assumes g: "GUN_FIST \<le> g" "g \<le> GUN_PISTOL" and r: "0 \<le> sint rays" "sint rays \<le> gun_rays (gun g)"
  shows "shot_damage g rays s = sint rays * gun_damage (gun g) * quad s"
proof -
  note l = gun_limits [OF g]
  have d: "sint (word_of_int (gun_damage (gun g)) :: i32) = gun_damage (gun g)" and q: "sint (word_of_int (quad s) :: i32) = quad s"
    using l by (auto intro!: sint_of_int_fits simp: quad_def)
  have b: "0 \<le> sint rays * gun_damage (gun g)" "sint rays * gun_damage (gun g) \<le> 20 * 120"
    using l r mult_mono [of "sint rays" 20 "gun_damage (gun g)" 120] by auto
  then have m: "sint (rays * word_of_int (gun_damage (gun g)) :: i32) = sint rays * gun_damage (gun g)"
    using sint_mult_fits [of rays "word_of_int (gun_damage (gun g))"] by (simp only: d) simp
  have "sint (rays * word_of_int (gun_damage (gun g)) * word_of_int (quad s) :: i32) = sint rays * gun_damage (gun g) * quad s"
    using sint_mult_fits [of "rays * word_of_int (gun_damage (gun g))" "word_of_int (quad s)"] b
    by (simp only: m q) (simp add: quad_def)
  then show ?thesis by (simp add: shot_damage_def)
qed

text \<open>The rays that a shot claims. The total of the code is right as long as they fit.\<close>

definition claimed_rays :: "hitinfo list \<Rightarrow> int" where
  "claimed_rays hs = (\<Sum>h \<leftarrow> hs. max 0 (sint (hi_rays h)))"

lemma claimed_rays_Cons [simp]: "claimed_rays (h # hs) = max 0 (sint (hi_rays h)) + claimed_rays hs" "claimed_rays [] = 0"
  by (simp_all add: claimed_rays_def)

lemma claimed_rays_nonneg [simp]: "0 \<le> claimed_rays hs"
  by (induction hs) simp_all

lemma total_fits:
  assumes "0 \<le> sint tot" "sint tot + claimed_rays (h # hs) \<le> INT_MAX" "1 \<le> sint (hi_rays h)"
  shows "sint (tot + hi_rays h) = sint tot + sint (hi_rays h)" "sint tot + sint (hi_rays h) + claimed_rays hs \<le> INT_MAX"
proof -
  have m: "max 0 (sint (hi_rays h)) = sint (hi_rays h)" using assms(3) by simp
  have b: "sint tot + sint (hi_rays h) + claimed_rays hs \<le> INT_MAX" using assms(2) by (simp only: claimed_rays_Cons m add.assoc)
  then have "sint tot + sint (hi_rays h) \<le> INT_MAX" using claimed_rays_nonneg [of hs] by linarith
  then have "sint tot + sint (hi_rays h) < 2 ^ 31" by (simp add: INT_MAX_def)
  then show "sint (tot + hi_rays h) = sint tot + sint (hi_rays h)" using assms(1,3) by (intro sint_add_fits) simp_all
  show "sint tot + sint (hi_rays h) + claimed_rays hs \<le> INT_MAX" by (rule b)
qed

context mode_contract
begin

lemma dodamage_nums: "tcn \<in> ci_clientnum ` set (roster w) \<Longrightarrow> map ci_clientnum (roster (dodamage sm tcn acn dmg g dir w)) = map ci_clientnum (roster w)"
  unfolding fst_lives [symmetric] by (auto simp: dodamage_lives wound_def)

lemma dodamage_vital:
  assumes "distinct (map ci_clientnum (roster w))" and "0 \<le> dmg" and "tcn \<in> ci_clientnum ` set (roster w)"
  shows "vital w - dmg \<le> vital (dodamage sm tcn acn dmg g dir w) \<and> vital (dodamage sm tcn acn dmg g dir w) \<le> vital w"
  using sum_wound [of "lives w" dmg tcn "lethal dmg (cstate tcn w)"] assms
  by (simp add: vital_def dodamage_lives fst_lives)

lemma dodamage_vital_exact:
  assumes "distinct (map ci_clientnum (roster w))" and "tcn \<in> ci_clientnum ` set (roster w)" and "\<not> damage_hook w tcn acn dmg g dir"
  shows "vital (dodamage sm tcn acn dmg g dir w) = vital w - dmg"
proof -
  have "tcn \<in> fst ` set (lives w)" using assms(2) fst_lives [of w] by (simp flip: set_map)
  then show ?thesis using sum_wound_exact [of "lives w" tcn dmg "lethal dmg (cstate tcn w)"] assms
    by (simp add: vital_def dodamage_lives fst_lives)
qed

lemma dodamage_quad: "tcn \<in> ci_clientnum ` set (roster w) \<Longrightarrow> quad (cstate x (dodamage sm tcn acn dmg g dir w)) = quad (cstate x w)"
  by (rule quad_cong) (simp only: dodamage_lives wound_quad split: if_split, simp)

lemma vital_count_hit [simp]: "vital (count_hit cn tcn w) = vital w" "map ci_clientnum (roster (count_hit cn tcn w)) = map ci_clientnum (roster w)"
  "ci_clientnum ` set (roster (count_hit cn tcn w)) = ci_clientnum ` set (roster w)" "quad (cstate x (count_hit cn tcn w)) = quad (cstate x w)"
proof -
  show "vital (count_hit cn tcn w) = vital w" by (simp add: vital_def)
  show "quad (cstate x (count_hit cn tcn w)) = quad (cstate x w)" by (rule quad_cong) simp
qed (simp_all add: count_hit_def)

lemma shot_hits_bounded:
  assumes "distinct (map ci_clientnum (roster w))" and g: "GUN_FIST \<le> g" "g \<le> GUN_PISTOL"
    and "0 \<le> sint tot" and "sint tot + claimed_rays hs \<le> INT_MAX"
  shows "vital (shot_hits sm cn g tot hs w) \<le> vital w
    \<and> vital w - vital (shot_hits sm cn g tot hs w) \<le> max 0 (gun_rays (gun g) - sint tot) * gun_damage (gun g) * quad (cstate cn w)"
  using assms(1,4,5)
proof (induction hs arbitrary: tot w)
  case Nil
  show ?case using gun_limits [OF g] by (simp add: quad_def)
next
  case (Cons h hs)
  let ?d = "gun_damage (gun g)" and ?R = "gun_rays (gun g)" and ?q = "quad (cstate cn w)" and ?r = "sint (hi_rays h)"
  have q: "0 < ?q" "0 < ?d" using gun_limits [OF g] by (simp_all add: quad_def)
  have less: "max 0 (?R - (sint tot + r)) * ?d * ?q \<le> max 0 (?R - sint tot) * ?d * ?q" if "0 \<le> r" for r
    using q that by (intro mult_right_mono) auto
  show ?case
  proof (cases "\<exists>t. hit_target h w = Some t \<and> 1 \<le> ?r \<and> hi_dist h \<le> of_int (gun_range (gun g) + 1)")
    case False
    then have "shot_hits sm cn g tot (h # hs) w = shot_hits sm cn g tot hs w"
      by (cases "hit_target h w") (auto simp: not_less not_le)
    then show ?thesis using Cons by simp
  next
    case True
    then obtain t where t: "hit_target h w = Some t" and r: "1 \<le> ?r" "hi_dist h \<le> of_int (gun_range (gun g) + 1)" by blast
    note fit = total_fits [OF Cons.prems(2,3) r(1)]
    have pos: "0 \<le> sint (tot + hi_rays h)" "sint (tot + hi_rays h) + claimed_rays hs \<le> INT_MAX" using fit r(1) Cons.prems(2) by simp_all
    show ?thesis
    proof (cases "sint (tot + hi_rays h) > ?R")
      case True
      then have "shot_hits sm cn g tot (h # hs) w = shot_hits sm cn g (tot + hi_rays h) hs w" using t r by (simp add: Let_def)
      then show ?thesis using Cons.IH [OF Cons.prems(1) pos] less [of ?r] r(1) fit(1) by simp
    next
      case False
      let ?tcn = "ci_clientnum t" and ?dmg = "?r * ?d * ?q"
      define w1 where "w1 = count_hit cn ?tcn w"
      define w2 where "w2 = dodamage sm ?tcn cn ?dmg g (hi_dir h) w1"
      have "shot_damage g (hi_rays h) (cstate cn w) = ?dmg"
        using False fit(1) Cons.prems(2) r(1) by (intro shot_damage_exact [OF g]) simp_all
      then have step: "shot_hits sm cn g tot (h # hs) w = shot_hits sm cn g (tot + hi_rays h) hs w2"
        using False t r by (simp add: Let_def w1_def w2_def)
      have w1: "distinct (map ci_clientnum (roster w1))" "?tcn \<in> ci_clientnum ` set (roster w1)" "vital w1 = vital w" "quad (cstate cn w1) = ?q"
        using Cons.prems hit_target_in [OF t] by (simp_all add: w1_def)
      have dmg: "0 \<le> ?dmg" using r(1) q by simp
      note v = dodamage_vital [OF w1(1) dmg w1(2), of cn g "hi_dir h", folded w2_def]
      have "distinct (map ci_clientnum (roster w2))" using w1 by (simp add: w2_def dodamage_nums)
      from Cons.IH [OF this pos]
      have ih: "vital (shot_hits sm cn g (tot + hi_rays h) hs w2) \<le> vital w2"
        "vital w2 - vital (shot_hits sm cn g (tot + hi_rays h) hs w2) \<le> max 0 (?R - (sint tot + ?r)) * ?d * ?q"
        using w1 fit(1) by (simp_all add: w2_def dodamage_quad)
      have "max 0 (?R - (sint tot + ?r)) * ?d * ?q + ?dmg = max 0 (?R - sint tot) * ?d * ?q"
        using False fit(1) r(1) by (simp add: max_def algebra_simps)
      then show ?thesis unfolding step using ih v w1(3) by linarith
    qed
  qed
qed

end

lemma lives_vital_cong: "map (\<lambda>l. vitality (fst (snd l))) (lives w') = map (\<lambda>l. vitality (fst (snd l))) (lives w) \<Longrightarrow> vital w' = vital w"
  by (simp add: vital_def)

lemma vital_upd_state:
  assumes "\<And>s. vitality (fpsstate.truncate (f s)) = vitality (fpsstate.truncate s)"
  shows "vital (upd_state cn f w) = vital w"
  by (rule lives_vital_cong) (auto simp: roster_upd_state lives_def life_def Let_def assms)

lemma vital_emit [simp]: "vital (emit e w) = vital w"
  by (simp add: vital_def)

lemma quad_upd_keep:
  assumes "\<And>s. quadmillis (f s) = quadmillis s"
  shows "quad (cstate x (upd_state cn f w)) = quad (cstate x w)"
proof -
  have "quadmillis (cstate x (upd_state cn f w)) = quadmillis (cstate x w)"
    unfolding upd_state_def by (rule client_upd_keep [where g = "\<lambda>ci. quadmillis (ci_state ci)"]) (simp_all add: assms)
  then show ?thesis by (simp add: quad_def)
qed

lemma vital_fire [simp]: "vital (upd_state cn (fire millis g) w) = vital w"
  by (rule vital_upd_state) (simp add: fire_def vitality_def fpsstate.truncate_def)

context mode_contract
begin

lemma shoot_bounded:
  assumes "distinct (map ci_clientnum (roster w))" and "claimed_rays hits \<le> INT_MAX"
  shows "vital (shoot sm millis sid g from to hits cn w) \<le> vital w
    \<and> (vital (shoot sm millis sid g from to hits cn w) \<noteq> vital w
       \<longrightarrow> GUN_FIST \<le> g \<and> g \<le> GUN_PISTOL
         \<and> vital w - vital (shoot sm millis sid g from to hits cn w) \<le> gun_rays (gun g) * gun_damage (gun g) * quad (cstate cn w))"
proof (cases "shot_refused millis g from to cn w")
  case False
  then have g: "GUN_FIST \<le> g" "g \<le> GUN_PISTOL" by (simp_all add: shot_refused_def Let_def)
  note gp = gun_limits [OF g]
  define w1 where "w1 = emit (Sendf (- 1) 1 [MI N_SHOTFX, MI cn, MI g, MI sid, MI (dmf_int (vx from)), MI (dmf_int (vy from)),
     MI (dmf_int (vz from)), MI (dmf_int (vx to)), MI (dmf_int (vy to)), MI (dmf_int (vz to))]
     (ci_ownernum (client cn w))) (upd_state cn (fire millis g) w)"
  have q: "quad (cstate cn w1) = quad (cstate cn w)" "0 \<le> quad (cstate cn w)"
    by (simp_all add: w1_def quad_upd_keep fire_def) (simp add: quad_def)
  have v1: "vital w1 = vital w" "distinct (map ci_clientnum (roster w1))" using assms(1) by (simp_all add: w1_def)
  define w2 where "w2 = (if g = GUN_RL then upd_state cn (\<lambda>s. s\<lparr>gs_rockets := proj_add sid (gs_rockets s)\<rparr>) w1
     else if g = GUN_GL then upd_state cn (\<lambda>s. s\<lparr>gs_grenades := proj_add sid (gs_grenades s)\<rparr>) w1 else shot_hits sm cn g 0 hits w1)"
  have "vital (shoot sm millis sid g from to hits cn w) = vital w2"
    using False by (simp add: shoot_def Let_def w1_def w2_def vital_upd_state)
  moreover have "0 \<le> gun_rays (gun g) * gun_damage (gun g) * quad (cstate cn w)" using gp q by simp
  then have "vital w2 \<le> vital w1 \<and> vital w1 - vital w2 \<le> gun_rays (gun g) * gun_damage (gun g) * quad (cstate cn w)"
    using shot_hits_bounded [OF v1(2) g, of 0 hits cn] assms(2) gp q by (auto simp: w2_def vital_upd_state)
  ultimately show ?thesis using v1(1) g by simp
qed (simp add: shoot_def)

end


text \<open>Two claims of \<^verbatim>\<open>INT_MAX\<close> rays each.\<close>

lemma find_map: "find P (map g xs) = map_option g (find (P \<circ> g) xs)"
  by (induction xs) simp_all

lemma getinfo_upd_client:
  assumes "\<And>ci. ci_clientnum (f ci) = ci_clientnum ci \<and> ci_n (f ci) = ci_n ci \<and> ci_spy (f ci) = ci_spy ci
    \<and> aitype (ci_state (f ci)) = aitype (ci_state ci)"
  shows "getinfo n (upd_client cn f w) = map_option (\<lambda>ci. if ci_clientnum ci = cn then f ci else ci) (getinfo n w)"
proof -
  let ?g = "\<lambda>ci. if ci_clientnum ci = cn then f ci else ci"
  have p: "(\<lambda>ci. ci_spy ci \<and> ci_clientnum ci = n) \<circ> ?g = (\<lambda>ci. ci_spy ci \<and> ci_clientnum ci = n)"
    "(\<lambda>ci. aitype (ci_state ci) = AI_NONE \<and> ci_n ci = n) \<circ> ?g = (\<lambda>ci. aitype (ci_state ci) = AI_NONE \<and> ci_n ci = n)"
    "(\<lambda>ci. ci_clientnum ci = k) \<circ> ?g = (\<lambda>ci. ci_clientnum ci = k)" for k
    using assms by (auto simp: fun_eq_iff)
  have cl: "clients (upd_client cn f w) = map ?g (clients w)" "connects (upd_client cn f w) = map ?g (connects w)"
    by (simp_all add: upd_client_def)
  show ?thesis unfolding getinfo_def cl map_append [symmetric] find_map p
    by (auto simp: upd_client_def split: option.splits)
qed

lemma hit_target_fire: "hit_target h (upd_state cn (fire millis g) w)
    = map_option (\<lambda>ci. if ci_clientnum ci = cn then ci\<lparr>ci_state := fire millis g (ci_state ci)\<rparr> else ci) (hit_target h w)"
  unfolding hit_target_def upd_state_def
  by (subst getinfo_upd_client) (auto simp: fire_def split: option.splits)

lemma hit_target_emit [simp]: "hit_target h (emit e w) = hit_target h w"
  by (simp add: hit_target_def getinfo_def cong: option.case_cong if_cong)

lemma damage_hook_count_hit: "damage_hook (count_hit cn tcn w) = damage_hook w"
  by (simp add: count_hit_def)

lemma shot_damage_wraps:
  assumes "g \<in> {GUN_FIST, GUN_SG, GUN_CG, GUN_RIFLE}"
  shows "shot_damage g 0x7FFFFFFF s = - (gun_damage (gun g) * quad s)"
  using assms by (auto simp: shot_damage_def quad_def gun_def guns_def)


text \<open>C24: a hit that kills is entered on the scoreboard exactly once: the victim has one more death, the killer
  the value of the frag, which is one point for an enemy and minus one for a team mate or oneself, a
  suicide or a team kill is counted as such, and every other player's line is unchanged. A hit that does
  not kill leaves the whole scoreboard alone.\<close>

theorem damage_scoreboard:
  assumes "mode_contract sm" and "\<not> damage_hook w tcn acn dmg g dir" and "tcn \<in> ci_clientnum ` set (roster w)"
  shows "map entry (clients (dodamage sm tcn acn dmg g dir w))
    = (if lethal dmg (cstate tcn w)
       then map (score_death tcn acn (teamkill tcn acn w) (fragvalue (client tcn w) (client acn w) w) \<circ> entry) (clients w)
       else map entry (clients w))"
  by (rule mode_contract.dodamage_entries [OF assms])

subsection \<open>Every event leaves the players in a valid state\<close>

text \<open>What has to hold of a queued event for its arithmetic to be exact.\<close>

definition event_fits :: "gameevent \<Rightarrow> bool" where
  "event_fits e = (case e of ShotEvent _ _ _ _ _ hits \<Rightarrow> claimed_rays hits \<le> INT_MAX | _ \<Rightarrow> True)"

definition state_ok :: "gamestate \<Rightarrow> bool" where
  "state_ok s \<longleftrightarrow> fps_ok (fpsstate.truncate s) \<and> (gs_state s = CS_ALIVE \<longrightarrow> 0 < health s)
     \<and> proj_ok (gs_rockets s) \<and> proj_ok (gs_grenades s)"

definition arena_ok :: "'a world_scheme \<Rightarrow> bool" where
  "arena_ok w \<longleftrightarrow> distinct (map ci_clientnum (roster w)) \<and> (\<forall>ci \<in> set (roster w). state_ok (ci_state ci))"

definition life_ok :: "life \<Rightarrow> bool" where
  "life_ok = (\<lambda>(n, t, st, r, gr, ev). fps_ok t \<and> (st = CS_ALIVE \<longrightarrow> 0 < health t) \<and> proj_ok r \<and> proj_ok gr)"

lemma truncate_health [simp]: "health (fpsstate.truncate s) = health s" "armour (fpsstate.truncate s) = armour s"
  "ammo (fpsstate.truncate s) = ammo s" "quadmillis (fpsstate.truncate s) = quadmillis s"
  by (simp_all add: fpsstate.truncate_def)

lemma life_ok_state: "life_ok (life ci) = state_ok (ci_state ci)"
  by (simp add: life_ok_def life_def state_ok_def Let_def)

lemma arena_ok_lives: "arena_ok w \<longleftrightarrow> distinct (map fst (lives w)) \<and> (\<forall>l \<in> set (lives w). life_ok l)"
  by (simp add: arena_ok_def fst_lives) (simp add: lives_def life_ok_state)

lemma arena_ok_frame [simp]: "arena_ok (emit e w) = arena_ok w" "arena_ok (w\<lparr>sents := se\<rparr>) = arena_ok w"
  "arena_ok (snd (credit_team a n w)) = arena_ok w" "arena_ok (clear_position cn w) = arena_ok w"
  by (simp_all add: arena_ok_lives)

lemma arena_ok_same [preserves]: "same_life f \<Longrightarrow> arena_ok (upd_state cn f w) = arena_ok w"
  by (simp add: arena_ok_lives)

lemma arena_ok_client:
  "arena_ok w \<Longrightarrow> ci \<in> set (roster w) \<Longrightarrow> ci_clientnum ci = cn \<Longrightarrow> cstate cn w = ci_state ci \<and> state_ok (cstate cn w)"
  using distinct_client [of w ci] by (auto simp: arena_ok_def)

lemma arena_ok_upd [preserves]:
  assumes "arena_ok w" and "state_ok (cstate cn w) \<Longrightarrow> state_ok (f (cstate cn w))"
  shows "arena_ok (upd_state cn f w)"
proof -
  have "state_ok (ci_state ci)" if ci: "ci \<in> set (roster (upd_state cn f w))" for ci
  proof -
    from ci obtain c0 where c0: "c0 \<in> set (roster w)" "ci = (if ci_clientnum c0 = cn then c0\<lparr>ci_state := f (ci_state c0)\<rparr> else c0)"
      by (auto simp: roster_upd_state)
    show ?thesis
    proof (cases "ci_clientnum c0 = cn")
      case True
      then show ?thesis using c0(2) arena_ok_client [OF assms(1) c0(1) True] assms(2) by (cases "cstate cn w = ci_state c0") auto
    next
      case False
      then show ?thesis using c0 assms(1) by (simp add: arena_ok_def)
    qed
  qed
  then show ?thesis using assms(1) by (simp add: arena_ok_def)
qed

lemma wound_ok:
  assumes "life_ok l" and "0 \<le> dmg" and "fst l = tcn \<Longrightarrow> dead = (health (snd (fps_dodamage dmg (fst (snd l)))) \<le> 0)"
  shows "life_ok (wound tcn dmg dead l)"
proof -
  obtain n t st r gr ev where l: "l = (n, t, st, r, gr, ev)" by (cases l) auto
  have "fps_ok (snd (fps_dodamage dmg t))"
    using fps_dodamage_ok [of t dmg "fst (fps_dodamage dmg t)" "snd (fps_dodamage dmg t)"] assms(1,2) l by (simp add: life_ok_def)
  then show ?thesis using assms l by (auto simp: life_ok_def wound_def)
qed

lemma lethal_life:
  assumes "arena_ok w" and "l \<in> set (lives w)" and "fst l = tcn"
  shows "lethal dmg (cstate tcn w) = (health (snd (fps_dodamage dmg (fst (snd l)))) \<le> 0)"
proof -
  from assms(2) obtain ci where ci: "ci \<in> set (roster w)" "l = life ci" by (auto simp: lives_def)
  then have "ci_clientnum ci = tcn" using assms(3) by (simp add: life_def Let_def)
  from arena_ok_client [OF assms(1) ci(1) this] show ?thesis using ci(2) by (simp add: lethal_def life_def Let_def)
qed

lemma trunc_nonneg: "0 \<le> q \<Longrightarrow> 0 \<le> trunc q"
  by (simp add: trunc_def)

lemma blast_nonneg:
  assumes "g = GUN_RL \<or> g = GUN_GL" and "0 \<le> r" and "r \<le> of_int (exprad (gun g))"
  shows "0 \<le> blast_damage g r s self"
proof -
  let ?e = "of_int (exprad (gun g)) :: rat"
  have e: "0 < ?e" "0 \<le> gun_damage (gun g)" using assms(1) by (auto simp: gun_def guns_def)
  have "r / EXP_DISTSCALE / ?e \<le> 1" using assms(2,3) e(1) by (simp add: EXP_DISTSCALE_def field_simps)
  then have "0 \<le> trunc (of_int (gun_damage (gun g) * quad s) * (1 - r / EXP_DISTSCALE / ?e))"
    using e(2) by (intro trunc_nonneg mult_nonneg_nonneg) (simp_all add: quad_def)
  then show ?thesis by (simp add: blast_damage_def Let_def EXP_SELFDAMDIV_def pos_imp_zdiv_nonneg_iff)
qed

lemma health_pickup: "fps_ok s \<Longrightarrow> health s \<le> health (pickup t s)"
  by (auto simp: pickup_def pickup_health_def fps_ok_def Let_def itemstat_of_def itemstats_def)

lemma fire_ok:
  assumes "state_ok s" and "GUN_FIST \<le> g" "g \<le> GUN_PISTOL" "0 < ammo s ! nat g"
  shows "state_ok (fire millis g s)"
proof -
  have "\<forall>a \<in> set ((ammo s)[nat g := ammo s ! nat g - 1]). 0 \<le> a"
    using assms set_update_subset_insert [of "ammo s" "nat g" "ammo s ! nat g - 1"] by (auto simp: state_ok_def fps_ok_def)
  then show ?thesis using assms by (auto simp: state_ok_def fps_ok_def fire_def fpsstate.truncate_def)
qed

lemma respawn_ok: "state_ok s \<Longrightarrow> gs_state s \<noteq> CS_ALIVE \<Longrightarrow> state_ok (gs_respawn s)"
proof -
  assume "state_ok s" "gs_state s \<noteq> CS_ALIVE"
  moreover have "fpsstate.truncate (gs_respawn s) = fpsstate.truncate (on_fps fps_respawn s)"
    by (simp add: gs_respawn_def fpsstate.truncate_def del: truncate_on_fps)
  moreover have "gs_state (gs_respawn s) = gs_state s" "gs_rockets (gs_respawn s) = gs_rockets s" "gs_grenades (gs_respawn s) = gs_grenades s"
    by (simp_all add: gs_respawn_def)
  ultimately show ?thesis using fps_respawn_ok by (simp add: state_ok_def)
qed

context mode_contract
begin

lemma dodamage_ok:
  assumes "arena_ok w" and "0 \<le> dmg" and "tcn \<in> ci_clientnum ` set (roster w)"
  shows "arena_ok (dodamage sm tcn acn dmg g dir w)"
proof (cases "damage_hook w tcn acn dmg g dir")
  case False
  have nums: "map fst (map (wound tcn dmg b) (lives w)) = map fst (lives w)" for b by (auto simp: wound_def)
  have "\<forall>l \<in> set (lives w). life_ok (wound tcn dmg (lethal dmg (cstate tcn w)) l)"
    using assms(1,2) lethal_life [OF assms(1)] by (auto simp: arena_ok_lives intro!: wound_ok)
  then show ?thesis using False assms(1,3) nums by (simp add: arena_ok_lives dodamage_lives del: map_map)
qed (use assms in \<open>simp add: arena_ok_lives dodamage_lives\<close>)

lemma count_hit_ok [simp]: "arena_ok (count_hit cn tcn w) = arena_ok w"
  by (simp add: arena_ok_lives)

lemma shot_hits_ok:
  assumes "arena_ok w" and g: "GUN_FIST \<le> g" "g \<le> GUN_PISTOL" and "0 \<le> sint tot" and "sint tot + claimed_rays hs \<le> INT_MAX"
  shows "arena_ok (shot_hits sm cn g tot hs w)"
  using assms(1,4,5)
proof (induction hs arbitrary: tot w)
  case (Cons h hs)
  show ?case
  proof (cases "\<exists>t. hit_target h w = Some t \<and> 1 \<le> sint (hi_rays h)")
    case True
    then obtain t where t: "hit_target h w = Some t" and r: "1 \<le> sint (hi_rays h)" by blast
    note fit = total_fits [OF Cons.prems(2,3) r]
    let ?w = "dodamage sm (ci_clientnum t) cn (shot_damage g (hi_rays h) (cstate cn w)) g (hi_dir h) (count_hit cn (ci_clientnum t) w)"
    have "arena_ok ?w" if "sint (hi_rays h) \<le> gun_rays (gun g)"
      using Cons.prems(1) shot_damage_exact [OF g _ that, of "cstate cn w"] gun_limits [OF g] r hit_target_in [OF t]
      by (intro dodamage_ok) (auto simp: quad_def)
    then show ?thesis using Cons t r fit by (auto simp: Let_def)
  next
    case False
    then have "shot_hits sm cn g tot (h # hs) w = shot_hits sm cn g tot hs w" by (cases "hit_target h w") (auto simp: not_le)
    then show ?thesis using Cons by simp
  qed
qed simp

lemma explode_hits_ok:
  assumes "arena_ok w" and "g = GUN_RL \<or> g = GUN_GL"
  shows "arena_ok (explode_hits sm cn g seen hs w)"
  using assms(1)
proof (induction hs arbitrary: seen w)
  case (Cons h hs)
  have "arena_ok (dodamage sm (ci_clientnum t) cn (blast_damage g (hi_dist h) (cstate cn w) b) g (hi_dir h) (count_hit cn (ci_clientnum t) w))"
    if "hit_target h w = Some t" "0 \<le> hi_dist h" "hi_dist h \<le> of_int (exprad (gun g))" for t b
    using Cons.prems that hit_target_in [OF that(1)] blast_nonneg [OF assms(2) that(2,3)] by (intro dodamage_ok) auto
  then show ?case using Cons by (auto simp: not_less split: option.split)
qed simp

lemma suicide_ok: "arena_ok w \<Longrightarrow> arena_ok (suicide sm cn w)"
proof -
  assume ok: "arena_ok w"
  have "arena_ok (upd_state cn (\<lambda>s. gs_respawn (s\<lparr>gs_state := CS_DEAD, gs_lastdeath := m\<rparr>)) w)" if "arena_ok w" for m and w :: "'a world_scheme"
    using that by (rule arena_ok_upd) (rule respawn_ok, simp_all add: state_ok_def fpsstate.truncate_def)
  moreover have "arena_ok (smode_died sm t b w) = arena_ok w" for t b w by (simp add: arena_ok_lives)
  ultimately show ?thesis using ok
    by (simp add: suicide_def Let_def case_prod_beta arena_ok_same same_life_def fpsstate.truncate_def)
qed

lemma shoot_ok: "arena_ok w \<Longrightarrow> claimed_rays hits \<le> INT_MAX \<Longrightarrow> arena_ok (shoot sm millis sid g from to hits cn w)"
proof (cases "shot_refused millis g from to cn w")
  case False
  assume ok: "arena_ok w" and fit: "claimed_rays hits \<le> INT_MAX"
  from False have g: "GUN_FIST \<le> g" "g \<le> GUN_PISTOL" "0 < ammo (cstate cn w) ! nat g" by (simp_all add: shot_refused_def Let_def)
  have fire: "arena_ok (upd_state cn (fire millis g) w)" using ok by (rule arena_ok_upd) (rule fire_ok [OF _ g])
  have proj: "arena_ok (upd_state cn (\<lambda>s. s\<lparr>gs_rockets := proj_add sid (gs_rockets s)\<rparr>) w)"
    "arena_ok (upd_state cn (\<lambda>s. s\<lparr>gs_grenades := proj_add sid (gs_grenades s)\<rparr>) w)" if "arena_ok w" for w :: "'a world_scheme"
    using that by (auto intro!: arena_ok_upd simp: state_ok_def proj_add_live)
  have "arena_ok (shot_hits sm cn g 0 hits w)" if "arena_ok w" for w :: "'a world_scheme" using shot_hits_ok [OF that g(1,2)] fit by simp
  then show ?thesis using False fire proj by (auto simp: shoot_def Let_def arena_ok_same same_life_def)
qed (simp add: shoot_def)

lemma explode_ok: "arena_ok w \<Longrightarrow> arena_ok (explode sm pid g hits cn w)"
proof -
  assume ok: "arena_ok w"
  have rem: "proj_ok p \<Longrightarrow> proj_ok (snd (proj_remove v p))" for v p
    using proj_remove_from_spec [of p 0 "numprojs p" v] by (simp add: proj_remove_def)
  have r: "arena_ok (snd (remove_projectile g pid cn w))"
    using ok by (auto simp: remove_projectile_def state_ok_def rem intro!: arena_ok_upd)
  have "g = GUN_RL \<or> g = GUN_GL" if "fst (remove_projectile g pid cn w)" using that by (auto simp: remove_projectile_def split: if_splits)
  then show ?thesis using r explode_hits_ok
    by (simp add: explode_def Let_def case_prod_beta arena_ok_same same_life_def)
qed

lemma pickup_item_ok: "arena_ok w \<Longrightarrow> arena_ok (snd (pickup_item i sender w))"
proof -
  assume ok: "arena_ok w"
  have "state_ok (on_fps (pickup t) s)" if "state_ok s" for t s
    using that health_pickup [of "fpsstate.truncate s" t] by (auto simp: state_ok_def pickup_ok)
  then show ?thesis using ok by (auto simp: pickup_item_def Let_def intro!: arena_ok_upd split: option.split)
qed

lemma process_event_ok: "arena_ok w \<Longrightarrow> event_fits e \<Longrightarrow> arena_ok (process_event sm e cn w)"
  by (cases e) (simp_all add: event_fits_def shoot_ok explode_ok suicide_ok pickup_item_ok)

end

text \<open>The queues, by number; nothing that an event does touches them.\<close>

definition queues :: "'a world_scheme \<Rightarrow> (int \<times> gameevent list) list" where
  "queues w = map (\<lambda>ci. (ci_clientnum ci, ci_events ci)) (roster w)"

lemma queues_frame [simp]:
  "queues (emit e w) = queues w" "queues (team_addfrags t n w) = queues w" "queues (snd (credit_team a n w)) = queues w"
  "queues (w\<lparr>sents := se\<rparr>) = queues w" "queues (upd_state cn f w) = queues w"
  by (simp_all add: queues_def) (simp add: roster_upd_state)

lemma queues_hurt [simp]: "queues (hurt tcn acn dmg w) = queues w" "queues (push tcn acn dmg g dir w) = queues w"
  "queues (count_death tcn acn w) = queues w" "queues (count_frag sm tcn acn w) = queues w" "queues (count_hit cn tcn w) = queues w"
  by (simp_all add: hurt_def count_death_def count_frag_def count_hit_def Let_def case_prod_beta)
    (simp add: queues_def push_keeps)

lemma queues_clear_position [simp]: "queues (clear_position cn w) = queues w"
  unfolding queues_def by (rule clear_position_keeps) simp

lemma queues_pickup [simp]: "queues (snd (pickup_item i sender w)) = queues w"
  by (simp add: pickup_item_def Let_def split: option.split)

lemma queues_client: "queues w' = queues w \<Longrightarrow> ci_events (client cn w') = ci_events (client cn w)"
  by (rule client_map_cong) (simp add: queues_def)

definition volleys_fit :: "'a world_scheme \<Rightarrow> bool" where
  "volleys_fit w \<longleftrightarrow> (\<forall>q \<in> set (queues w). \<forall>e \<in> set (snd q). event_fits e)"

lemma volleys_fit_cong: "queues w' = queues w \<Longrightarrow> volleys_fit w' = volleys_fit w"
  by (simp add: volleys_fit_def)

lemma in_set_tl: "x \<in> set (tl xs) \<Longrightarrow> x \<in> set xs"
  by (cases xs) simp_all

lemma volleys_fit_clearevent: "volleys_fit w \<Longrightarrow> volleys_fit (clearevent cn w)"
  by (auto simp: volleys_fit_def queues_def clearevent_def roster_upd_client dest: in_set_tl)

lemma volleys_fit_queue: "volleys_fit w \<Longrightarrow> \<forall>e \<in> set (ci_events (client cn w)). event_fits e"
proof (cases "cn \<in> ci_clientnum ` set (roster w)")
  case True
  assume "volleys_fit w"
  with client_in_roster [OF True] show ?thesis by (force simp: volleys_fit_def queues_def)
next
  case False
  then have "find (\<lambda>ci. ci_clientnum ci = cn) (roster w) = None" by (auto simp: find_None_iff)
  then show ?thesis by (simp add: client_find ci_new_def ci_reset_def ci_mapchange_def)
qed

context mode_contract
begin

lemma queues_died [simp]: "queues (smode_died sm t b w) = queues w"
  unfolding queues_def by (rule died_map) (simp add: tokenless_def)

lemma queues_dodamage [simp]: "queues (dodamage sm tcn acn dmg g dir w) = queues w"
  by (simp add: dodamage_def kill_def mark_dead_def Let_def)

lemma queues_hits [simp]: "queues (shot_hits sm cn g tot hs w) = queues w" "queues (explode_hits sm cn g seen hs w) = queues w"
  by (induction hs arbitrary: tot seen w) (simp_all add: Let_def split: option.split)

lemma queues_process [simp]: "queues (process_event sm e cn w) = queues w"
  by (cases e) (simp_all add: shoot_def explode_def suicide_def remove_projectile_def Let_def case_prod_beta)

lemma nums_process:
  "map ci_clientnum (roster (process_event sm e cn w)) = map ci_clientnum (roster w)"
  using arg_cong [OF queues_process, of "map fst" e cn w] by (simp add: queues_def comp_def)

lemma flush_event_done:
  assumes "flush_event sm e cn m w = (b, w')"
  shows "queues w' = queues w \<and> b = (\<forall>t. event_time e = Some t \<longrightarrow> t \<le> m)"
proof -
  have "queues (upd_client cn (\<lambda>ci. ci\<lparr>ci_lastevent := t\<rparr>) w) = queues w" for t
    by (simp add: queues_def roster_upd_client)
  then show ?thesis using assms by (auto simp: flush_event_def split: option.splits if_splits)
qed

lemma flush_loop_queue:
  assumes "cn \<in> fst ` set (queues w)" and "ci_events (client cn w) = es"
  shows "\<exists>k \<le> length es. ci_events (client cn (flush_loop sm es cn m w)) = drop k es
    \<and> (\<forall>e \<in> set (take k es). \<forall>t. event_time e = Some t \<longrightarrow> t \<le> m)
    \<and> (k < length es \<longrightarrow> (\<exists>t. event_time (es ! k) = Some t \<and> m < t))"
  using assms
proof (induction es arbitrary: w)
  case (Cons e es)
  obtain b w' where f: "flush_event sm e cn m w = (b, w')" by (cases "flush_event sm e cn m w")
  note q = flush_event_done [OF f]
  have ev: "ci_events (client cn w') = e # es" using queues_client [of w' w cn] q Cons.prems(2) by simp
  show ?case
  proof (cases b)
    case True
    have mem: "cn \<in> ci_clientnum ` set (roster w')" using Cons.prems(1) q by (auto simp: queues_def image_image dest: arg_cong [of _ _ "\<lambda>x. fst ` set x"])
    have "ci_events (client cn (clearevent cn w')) = es"
      unfolding clearevent_def by (subst client_upd_same) (use mem ev in simp_all)
    moreover have "cn \<in> fst ` set (queues (clearevent cn w'))"
      using mem by (force simp: queues_def clearevent_def roster_upd_client)
    ultimately obtain k where k: "k \<le> length es" "ci_events (client cn (flush_loop sm es cn m (clearevent cn w'))) = drop k es"
      "\<forall>e \<in> set (take k es). \<forall>t. event_time e = Some t \<longrightarrow> t \<le> m" "k < length es \<longrightarrow> (\<exists>t. event_time (es ! k) = Some t \<and> m < t)"
      using Cons.IH by blast
    then show ?thesis using True f q by (intro exI [of _ "Suc k"]) auto
  next
    case False
    then show ?thesis using f q ev by (intro exI [of _ 0]) (auto simp: not_le)
  qed
qed simp

end

lemma arena_ok_client_field:
  fixes w :: "'a world_scheme"
  assumes "\<And>ci. ci_clientnum (f ci) = ci_clientnum ci" and "\<And>ci. ci_state (f ci) = ci_state ci"
  shows "arena_ok (upd_client cn f w) = arena_ok w"
proof -
  have "map (\<lambda>ci. (ci_clientnum ci, ci_state ci)) (roster (upd_client cn f w)) = map (\<lambda>ci. (ci_clientnum ci, ci_state ci)) (roster w)"
    by (simp add: roster_upd_client assms)
  moreover have a: "arena_ok w \<longleftrightarrow> distinct (map fst (map (\<lambda>ci. (ci_clientnum ci, ci_state ci)) (roster w)))
      \<and> (\<forall>p \<in> set (map (\<lambda>ci. (ci_clientnum ci, ci_state ci)) (roster w)). state_ok (snd p))" for w :: "'a world_scheme"
    by (simp add: arena_ok_def comp_def)
  ultimately show ?thesis unfolding a by (simp only:)
qed

context mode_contract
begin

lemma volleys_fit_flush: "volleys_fit w \<Longrightarrow> volleys_fit (flush_loop sm es cn m w)"
proof (induction es arbitrary: w)
  case (Cons e es)
  obtain b w' where f: "flush_event sm e cn m w = (b, w')" by (cases "flush_event sm e cn m w")
  then have "volleys_fit w'" using Cons.prems flush_event_done [OF f] volleys_fit_cong by blast
  then show ?case using Cons.IH f by (simp add: volleys_fit_clearevent)
qed simp

lemma flush_loop_ok: "arena_ok w \<Longrightarrow> \<forall>e \<in> set es. event_fits e \<Longrightarrow> arena_ok (flush_loop sm es cn m w)"
proof (induction es arbitrary: w)
  case (Cons e es)
  have "arena_ok (snd (flush_event sm e cn m w))"
    using Cons.prems by (auto simp: flush_event_def process_event_ok arena_ok_client_field split: option.split)
  then show ?case using Cons by (simp add: case_prod_beta Let_def clearevent_def arena_ok_client_field)
qed simp

lemma process_client_ok: "arena_ok w \<and> volleys_fit w \<Longrightarrow> arena_ok (process_client sm cn w) \<and> volleys_fit (process_client sm cn w)"
proof -
  have q: "state_ok s \<Longrightarrow> state_ok (s\<lparr>quadmillis := max (quadmillis s - ct) 0\<rparr>)" if "0 < ct" for s :: gamestate and ct
    using that by (auto simp: state_ok_def fps_ok_def fpsstate.truncate_def)
  define w1 where "w1 = (if curtime w > 0 \<and> quadmillis (cstate cn w) \<noteq> 0
    then upd_state cn (\<lambda>s. s\<lparr>quadmillis := max (quadmillis s - curtime w) 0\<rparr>) w else w)"
  assume "arena_ok w \<and> volleys_fit w"
  then have "arena_ok w1" "volleys_fit w1" using volleys_fit_cong [of w1 w] by (auto simp: w1_def q intro!: arena_ok_upd)
  then show ?thesis using volleys_fit_queue [of w1 cn]
    by (simp add: process_client_def flushevents_def w1_def [symmetric] flush_loop_ok volleys_fit_flush)
qed

lemma processevents_ok: "arena_ok w \<Longrightarrow> volleys_fit w \<Longrightarrow> arena_ok (processevents sm w)"
proof -
  have "arena_ok w \<and> volleys_fit w \<Longrightarrow> arena_ok (fold (process_client sm) cns w)" for cns
    by (induction cns arbitrary: w) (use process_client_ok in auto)
  then show "arena_ok w \<Longrightarrow> volleys_fit w \<Longrightarrow> arena_ok (processevents sm w)" by (simp add: processevents_def)
qed

end

text \<open>As long as the rays claimed for a shot fit, delivering the events keeps every player in a valid state: health,
  armour and ammunition within the bounds of the items, a player whose health is used up is never left
  alive, the tables of projectiles well formed, and no number is used by two clients.\<close>

lemma events_keep_players_valid:
  assumes "mode_contract sm" and "arena_ok w" and "volleys_fit w"
  shows "arena_ok (processevents sm w)"
  by (rule mode_contract.processevents_ok [OF assms])

text \<open>Flushing a client's queue up to a time delivers it from the front and stops exactly at the first timed
  event that is still to come, and the events left over are a tail of the queue in the old order.\<close>

lemma flushevents_prefix:
  assumes "mode_contract sm" and "cn \<in> ci_clientnum ` set (roster w)"
  defines "es \<equiv> ci_events (client cn w)"
  shows "\<exists>k \<le> length es. ci_events (client cn (flushevents sm cn m w)) = drop k es
    \<and> (\<forall>e \<in> set (take k es). \<forall>t. event_time e = Some t \<longrightarrow> t \<le> m)
    \<and> (k < length es \<longrightarrow> (\<exists>t. event_time (es ! k) = Some t \<and> m < t))"
proof -
  have "cn \<in> fst ` set (queues w)" using assms(2) by (force simp: queues_def)
  from mode_contract.flush_loop_queue [OF assms(1) this refl] show ?thesis by (simp add: flushevents_def es_def)
qed

subsection \<open>The life of an item\<close>

text \<open>What happens to the items after a pickup: the update of \<^verbatim>\<open>serverupdate\<close> with the time that has passed, and
  further claims.\<close>

fun item_step :: "int + int \<times> int \<Rightarrow> 'a world_scheme \<Rightarrow> 'a world_scheme" where
  "item_step (Inl ct) w = items_update (w\<lparr>curtime := ct\<rparr>)"
| "item_step (Inr (j, cn)) w = snd (pickup_item j cn w)"

definition elapsed :: "(int + int \<times> int) list \<Rightarrow> int" where
  "elapsed steps = (\<Sum>s \<leftarrow> steps. case s of Inl ct \<Rightarrow> ct | Inr c \<Rightarrow> 0)"

definition awaited :: "nat \<Rightarrow> int \<Rightarrow> 'a world_scheme \<Rightarrow> bool" where
  "awaited i t w \<longleftrightarrow> i < length (sents w) \<and> \<not> se_spawned (sents w ! i) \<and> se_spawntime (sents w ! i) = t"

lemma awaited_claim: "awaited i t w \<Longrightarrow> awaited i t (snd (pickup_item j cn w))"
  by (cases "nat j = i")
    (auto simp: awaited_def pickup_item_def Let_def upd_nth_def nth_list_update split: option.split if_splits)

lemma awaited_refused:
  assumes "awaited (nat i) t w"
  shows "pickup_item i cn w = (False, w)"
  using assms by (simp add: awaited_def pickup_item_def)

lemma awaited_update:
  assumes "awaited i t w" and "0 < ct" and "0 < t"
  shows "if ct < t then awaited i (t - ct) (items_update (w\<lparr>curtime := ct\<rparr>))
    else se_spawned (sents (items_update (w\<lparr>curtime := ct\<rparr>)) ! i)"
  using assms by (simp add: awaited_def items_update_def item_tick_def)

lemma awaited_steps:
  assumes "awaited i t w" and "\<forall>ct. Inl ct \<in> set steps \<longrightarrow> 0 < ct" and "elapsed steps < t"
  shows "awaited i (t - elapsed steps) (fold item_step steps w)"
  using assms
proof (induction steps arbitrary: t w)
  case (Cons s steps)
  have pos: "0 \<le> elapsed steps" using Cons.prems(2) unfolding elapsed_def
    by (intro sum_list_nonneg) (auto split: sum.split simp: less_imp_le)
  show ?case
  proof (cases s)
    case (Inl ct)
    then have ct: "0 < ct" "elapsed (s # steps) = ct + elapsed steps" using Cons.prems(2) by (auto simp: elapsed_def)
    then have "awaited i (t - ct) (item_step s w)" using awaited_update [OF Cons.prems(1), of ct] Cons.prems(3) pos Inl by simp
    from Cons.IH [OF this] show ?thesis using Cons.prems ct by (simp add: algebra_simps)
  next
    case (Inr c)
    then have "awaited i t (item_step s w)" using Cons.prems(1) by (cases c) (simp add: awaited_claim)
    from Cons.IH [OF this] show ?thesis using Cons.prems Inr by (simp add: elapsed_def)
  qed
qed (simp add: elapsed_def)

lemma spawntime_pos: "I_SHELLS \<le> t \<Longrightarrow> t \<le> I_QUAD \<Longrightarrow> 0 < spawntime t w"
  by (elim item_types [of t]) (simp_all add: spawntime_def Let_def INT_MAX_def)

text \<open>C29: an item goes to one player until it is there again. After a claim has been acknowledged, let the updates of the
  items come with any positive times, and claims of any player on any item in between: as long as the times
  add up to less than the item's spawn time, every claim on it is refused without effect, and the
  update that reaches the spawn time, and no earlier one, spawns it again.\<close>

theorem item_taken_once:
  assumes "pickup_item i sender w = (True, w')" and "I_SHELLS \<le> se_type (sents w ! nat i)" "se_type (sents w ! nat i) \<le> I_QUAD"
    and "\<forall>ct. Inl ct \<in> set steps \<longrightarrow> 0 < ct" and "elapsed steps < spawntime (se_type (sents w ! nat i)) w" and "0 < ct"
  defines "later \<equiv> fold item_step steps w'"
  shows "pickup_item i other later = (False, later)
    \<and> se_spawned (sents (items_update (later\<lparr>curtime := ct\<rparr>)) ! nat i)
      = (spawntime (se_type (sents w ! nat i)) w \<le> elapsed steps + ct)"
proof -
  obtain ci where r: "inrange i (sents w)" "getinfo sender w = Some ci"
    and w': "sents w' = upd_nth i (\<lambda>e. e\<lparr>se_spawned := False, se_spawntime := spawntime (se_type (sents w ! nat i)) w,
      se_lastpickup := totalmillis w\<rparr>) (sents w)"
    using assms(1) by (auto simp: pickup_item_def Let_def split: if_splits option.splits)
  let ?t = "spawntime (se_type (sents w ! nat i)) w"
  have "awaited (nat i) ?t w'" using r(1) by (auto simp: awaited_def w' nth_upd_nth inrange_def nat_less_iff)
  from awaited_steps [OF this assms(4,5)] have a: "awaited (nat i) (?t - elapsed steps) later" by (simp add: later_def)
  have "se_spawned (sents (items_update (later\<lparr>curtime := ct\<rparr>)) ! nat i) = (?t \<le> elapsed steps + ct)"
    using awaited_update [OF a assms(6)] assms(5) by (auto simp: awaited_def split: if_splits)
  then show ?thesis using awaited_refused [OF a] by simp
qed

subsection \<open>An example fight\<close>

text \<open>Player 0 fires its pistol at player 1 of the other team.\<close>

definition sample_hit :: "int \<Rightarrow> int \<Rightarrow> hitinfo" where
  "sample_hit n rays = \<lparr>hi_target = n, hi_lifesequence = 0, hi_rays = word_of_int rays, hi_dist = 10, hi_dir = vec0\<lparr>vx := 1\<rparr>\<rparr>"

definition fight :: world where
  "fight = upd_state 0 (\<lambda>s. s\<lparr>ammo := (ammo s)[nat GUN_PISTOL := 2]\<rparr>) sample_world
     \<lparr>sents := [\<lparr>se_type = I_HEALTH, se_spawntime = 0, se_spawned = True, se_lastpickup = 0\<rparr>]\<rparr>"

lemma fight_ok: "arena_ok fight"
  by code_simp

lemma no_mode_contract: "mode_contract (None :: 'a smode)"
  by (rule no_mode.mode_contract_axioms)

theorem cleartimedevents_example:
  "ci_events (cleartimedevents (sample_client 0 ''good'' 3 \<lparr>ci_events := [SuicideEvent, ExplodeEvent 5 1 GUN_RL [], PickupEvent 3]\<rparr>))
    = [ExplodeEvent 5 1 GUN_RL []]"
  by code_simp



theorem damage_scoreboard_witness:
  "map entry (clients (dodamage None 1 0 500 GUN_RL vec0 fight)) = [(0, 4, 0, 0, 0), (1, 5, 1, 0, 0), (2, 7, 0, 0, 0)]"
proof -
  have "\<not> damage_hook fight 1 0 500 GUN_RL vec0" "1 \<in> ci_clientnum ` set (roster fight)" "lethal 500 (cstate 1 fight)"
    "map (score_death 1 0 (teamkill 1 0 fight) (fragvalue (client 1 fight) (client 0 fight) fight) \<circ> entry) (clients fight)
      = [(0, 4, 0, 0, 0), (1, 5, 1, 0, 0), (2, 7, 0, 0, 0)]"
    by code_simp+
  with damage_scoreboard [OF no_mode_contract, of fight 1 0 500 GUN_RL vec0] show ?thesis by simp
qed

definition waiting :: world where
  "waiting = upd_client 0 (\<lambda>ci. ci\<lparr>ci_events := [PickupEvent 0, ExplodeEvent 500 1 GUN_RL [], ExplodeEvent 2000 2 GUN_RL []]\<rparr>) fight"

text \<open>Two claims and an update in between leave the health where it is; the update that completes its time brings it back.\<close>

theorem item_taken_once_witness:
  "pickup_item 0 1 (fold item_step [Inl 5, Inr (0, 1)] (snd (pickup_item 0 0 (upd_state 0 (\<lambda>s. s\<lparr>health := 50\<rparr>) fight))))
    = (False, fold item_step [Inl 5, Inr (0, 1)] (snd (pickup_item 0 0 (upd_state 0 (\<lambda>s. s\<lparr>health := 50\<rparr>) fight))))"
proof -
  let ?w = "upd_state 0 (\<lambda>s. s\<lparr>health := 50\<rparr>) fight"
  have "fst (pickup_item 0 0 ?w)" "se_type (sents ?w ! nat 0) = I_HEALTH" "5 < spawntime I_HEALTH ?w" by code_simp+
  then show ?thesis using item_taken_once [of 0 0 ?w "snd (pickup_item 0 0 ?w)" "[Inl 5, Inr (0, 1)]" 1 1]
    by (simp add: prod_eq_iff elapsed_def)
qed

end
