(* ===== verification/Match.thy ===== *)
theory Match
  imports Combat
begin

text \<open>
  The running of a match, from \<^verbatim>\<open>src/src/fpsgame/server.cpp\<close>: the teams that are made up at a
  map change (\<^verbatim>\<open>autoteam\<close>, \<^verbatim>\<open>chooseworstteam\<close>), the votes for the next map (\<^verbatim>\<open>checkvotes\<close>), overtime
  and the intermission (\<^verbatim>\<open>checkovertime\<close>, \<^verbatim>\<open>checkintermission\<close>), pausing, and the scores that survive a
  disconnect (\<^verbatim>\<open>findscore\<close>, \<^verbatim>\<open>savescore\<close>, \<^verbatim>\<open>restorescore\<close>). Ranks are exact rationals.
\<close>

subsection \<open>Making up teams\<close>

definition client_rank :: "clientinfo \<Rightarrow> rat" where
  "client_rank ci = (if gs_state (ci_state ci) \<noteq> CS_SPECTATOR
     then gs_effectiveness (ci_state ci) / of_int (max (gs_timeplayed (ci_state ci)) 1) else - 1)"

fun best_from :: "(int \<times> rat) option \<Rightarrow> clientinfo list \<Rightarrow> (int \<times> rat) option" where
  "best_from best [] = best"
| "best_from best (ci # cs) = best_from
     (if gs_timeplayed (ci_state ci) < 0 then best
      else case best of
             None \<Rightarrow> Some (ci_clientnum ci, client_rank ci)
           | Some (b, r) \<Rightarrow> if client_rank ci > r then Some (ci_clientnum ci, client_rank ci) else Some (b, r)) cs"

definition choosebestclient :: "clientinfo list \<Rightarrow> (int \<times> rat) option" where
  "choosebestclient cs = best_from None cs"

text \<open>A chosen client is marked by a negative time.\<close>

definition mark_chosen :: "int \<Rightarrow> clientinfo list \<Rightarrow> clientinfo list" where
  "mark_chosen cn cs = map (\<lambda>ci. if ci_clientnum ci = cn then ci\<lparr>ci_state := (ci_state ci)\<lparr>gs_timeplayed := - 1\<rparr>\<rparr> else ci) cs"

definition unchosen :: "clientinfo list \<Rightarrow> int list" where
  "unchosen cs = map ci_clientnum (filter (\<lambda>ci. gs_timeplayed (ci_state ci) \<ge> 0) cs)"

lemma best_from_mem:
  "best_from best cs = Some (cn, r) \<Longrightarrow> best = Some (cn, r) \<or> cn \<in> set (unchosen cs)"
proof (induction best cs rule: best_from.induct)
  case (2 best ci cs)
  then show ?case by (cases best) (auto simp: unchosen_def split: if_splits prod.splits)
qed simp

lemma best_from_None: "best_from best cs = None \<longleftrightarrow> best = None \<and> unchosen cs = []"
  by (induction best cs rule: best_from.induct) (auto simp: unchosen_def split: option.splits if_splits)

lemma unchosen_mark: "unchosen (mark_chosen cn cs) = filter (\<lambda>n. n \<noteq> cn) (unchosen cs)"
  by (induction cs) (auto simp: unchosen_def mark_chosen_def)

lemma unchosen_decreases:
  assumes "choosebestclient cs = Some (cn, r)"
  shows "length (unchosen (mark_chosen cn cs)) < length (unchosen cs)"
  using best_from_mem [of None cs cn r] assms
  by (auto simp: choosebestclient_def unchosen_mark intro!: length_filter_less)

text \<open>The inner loop of \<^verbatim>\<open>autoteam\<close>: players for the team \<open>first\<close> as long as it is not the stronger one.
  \<open>fixed\<close> says that the mode hides frags, so that every player counts the same.\<close>

function (sequential) pick_loop :: "bool \<Rightarrow> rat \<Rightarrow> rat \<Rightarrow> nat \<Rightarrow> int list \<Rightarrow> clientinfo list \<Rightarrow> rat \<times> nat \<times> int list \<times> clientinfo list" where
  "pick_loop fixed r1 r2 selected team cs =
     (if r1 \<le> r2
      then case choosebestclient cs of
             None \<Rightarrow> (r1, selected, team, cs)
           | Some (cn, rank) \<Rightarrow>
               let rank = (if fixed then 1 else rank)
               in if \<not> fixed \<and> selected \<noteq> 0 \<and> rank \<le> 0 then (r1, selected, team, cs)
                  else let cs = mark_chosen cn cs; r1 = (if rank > 0 then r1 + rank else r1)
                    in if rank \<le> 0 then (r1, Suc selected, team @ [cn], cs)
                       else pick_loop fixed r1 r2 (Suc selected) (team @ [cn]) cs
      else (r1, selected, team, cs))"
  by pat_completeness auto
termination
  by (relation "measure (\<lambda>(f, r1, r2, s, t, cs). length (unchosen cs))") (auto simp: unchosen_decreases)

declare pick_loop.simps [simp del]

text \<open>One turn of the loop: it stops, takes a last player who adds nothing, or takes a player and goes on.\<close>

lemma pick_loop_turn:
  obtains "pick_loop fixed r1 r2 selected team cs = (r1, selected, team, cs)" "r2 < r1 \<or> unchosen cs = [] \<or> (\<not> fixed \<and> selected \<noteq> 0)"
  | cn where "cn \<in> set (unchosen cs)" "\<not> fixed" "r1 \<le> r2"
      "pick_loop fixed r1 r2 selected team cs = (r1, Suc selected, team @ [cn], mark_chosen cn cs)"
  | cn q where "cn \<in> set (unchosen cs)" "0 < q" "fixed \<Longrightarrow> q = 1" "r1 \<le> r2"
      "pick_loop fixed r1 r2 selected team cs = pick_loop fixed (r1 + q) r2 (Suc selected) (team @ [cn]) (mark_chosen cn cs)"
proof (cases "choosebestclient cs")
  case None
  then have "pick_loop fixed r1 r2 selected team cs = (r1, selected, team, cs)" by (simp add: pick_loop.simps)
  moreover have "unchosen cs = []" using None by (simp add: choosebestclient_def best_from_None)
  ultimately show thesis using that(1) by blast
next
  case (Some p)
  obtain cn r where p: "p = (cn, r)" by (cases p)
  have mem: "cn \<in> set (unchosen cs)" using best_from_mem [of None cs cn r] Some p by (simp add: choosebestclient_def)
  consider "r2 < r1" | "r1 \<le> r2" "\<not> fixed" "selected \<noteq> 0" "r \<le> 0" | "r1 \<le> r2" "\<not> fixed" "selected = 0" "r \<le> 0"
    | "r1 \<le> r2" "fixed \<or> 0 < r" by fastforce
  then show thesis
  proof cases
    case 1
    then show thesis using that(1) by (simp add: pick_loop.simps)
  next
    case 2
    then show thesis using that(1) Some p by (simp add: pick_loop.simps)
  next
    case 3
    then show thesis using that(2) [OF mem] Some p by (simp add: pick_loop.simps)
  next
    case 4
    then have "pick_loop fixed r1 r2 selected team cs
        = pick_loop fixed (r1 + (if fixed then 1 else r)) r2 (Suc selected) (team @ [cn]) (mark_chosen cn cs)"
      using Some p by (subst pick_loop.simps) (auto simp: Let_def)
    then show thesis using that(3) [OF mem, of "if fixed then 1 else r"] 4 by auto
  qed
qed

lemma mset_unchosen_mark:
  "cn \<in> set (unchosen cs) \<Longrightarrow> distinct (unchosen cs) \<Longrightarrow> mset (unchosen cs) = add_mset cn (mset (unchosen (mark_chosen cn cs)))"
proof -
  have f: "cn \<notin> set xs \<Longrightarrow> filter (\<lambda>n. n \<noteq> cn) xs = xs" for xs :: "int list" by (rule filter_True) auto
  have "cn \<in> set xs \<Longrightarrow> distinct xs \<Longrightarrow> mset xs = add_mset cn (mset (filter (\<lambda>n. n \<noteq> cn) xs))" for xs :: "int list"
    by (induction xs) (auto simp: f simp flip: mset_filter)
  then show "cn \<in> set (unchosen cs) \<Longrightarrow> distinct (unchosen cs) \<Longrightarrow> ?thesis" unfolding unchosen_mark .
qed

text \<open>What the loop has done when it ends: the players it took, how many, and, when all count the same, how
  strong the team has become.\<close>

lemma pick_loop_spec:
  assumes "distinct (unchosen cs)" and "pick_loop fixed r1 r2 selected team cs = (r1', selected', team', cs')"
  shows "\<exists>p. team' = team @ p \<and> selected' = selected + length p \<and> mset (unchosen cs) = mset p + mset (unchosen cs')
    \<and> distinct (unchosen cs') \<and> (p = [] \<and> selected = 0 \<longrightarrow> r2 < r1 \<or> unchosen cs = [])
    \<and> (fixed \<longrightarrow> r1' = r1 + of_nat (length p) \<and> r1' \<le> max r1 (r2 + 1) \<and> (r2 < r1' \<or> unchosen cs' = []))"
  using assms
proof (induction "length (unchosen cs)" arbitrary: r1 selected team cs rule: less_induct)
  case less
  note ds = less.prems(1) and eq = less.prems(2)
  show ?case
  proof (cases rule: pick_loop_turn [of fixed r1 r2 selected team cs])
    case 1
    then show ?thesis using eq ds by (intro exI [of _ "[]"]) auto
  next
    case (2 cn)
    then show ?thesis using eq ds mset_unchosen_mark [OF 2(1) ds]
      by (intro exI [of _ "[cn]"]) (auto simp: unchosen_mark)
  next
    case (3 cn q)
    have m: "mset (unchosen cs) = add_mset cn (mset (unchosen (mark_chosen cn cs)))" by (rule mset_unchosen_mark [OF 3(1) ds])
    then have "length (unchosen (mark_chosen cn cs)) < length (unchosen cs)" by (metis size_mset size_add_mset lessI)
    moreover have "distinct (unchosen (mark_chosen cn cs))" using ds by (simp add: unchosen_mark)
    ultimately obtain p where p: "team' = (team @ [cn]) @ p" "selected' = Suc selected + length p"
      "mset (unchosen (mark_chosen cn cs)) = mset p + mset (unchosen cs')" "distinct (unchosen cs')"
      "fixed \<longrightarrow> r1' = r1 + q + of_nat (length p) \<and> r1' \<le> max (r1 + q) (r2 + 1) \<and> (r2 < r1' \<or> unchosen cs' = [])"
      using less.hyps [of "mark_chosen cn cs" "r1 + q" "Suc selected" "team @ [cn]"] eq 3(5) by auto
    then show ?thesis using m 3(3,4) by (intro exI [of _ "cn # p"]) auto
  qed
qed

lemma pick_loop_decreases:
  assumes "pick_loop fixed r1 r2 selected team cs = (r1', selected', team', cs')"
  shows "selected \<le> selected' \<and> length (unchosen cs') + (selected' - selected) \<le> length (unchosen cs)"
  using assms
proof (induction "length (unchosen cs)" arbitrary: r1 selected team cs rule: less_induct)
  case less
  have d: "length (unchosen (mark_chosen cn cs)) < length (unchosen cs)" if "cn \<in> set (unchosen cs)" for cn
    using that by (auto simp: unchosen_mark intro!: length_filter_less)
  show ?case
  proof (cases rule: pick_loop_turn [of fixed r1 r2 selected team cs])
    case 1
    then show ?thesis using less.prems by simp
  next
    case (2 cn)
    then show ?thesis using less.prems d [of cn] by auto
  next
    case (3 cn q)
    then show ?thesis using less.hyps [OF d, of cn "r1 + q" "Suc selected" "team @ [cn]"] less.prems d [of cn] by auto
  qed
qed

text \<open>The outer loop: the teams take turns.\<close>

function (sequential) auto_rounds :: "bool \<Rightarrow> nat \<Rightarrow> int \<Rightarrow> rat \<times> rat \<Rightarrow> int list \<times> int list \<Rightarrow> clientinfo list \<Rightarrow> int list \<times> int list" where
  "auto_rounds fixed n remaining (r0, r1) (t0, t1) cs =
     (if remaining < 0 then (t0, t1)
      else if even n
      then (case pick_loop fixed r0 r1 0 t0 cs of
              (r, selected, t, cs') \<Rightarrow>
                if selected = 0 then (t, t1)
                else auto_rounds fixed (Suc n) (remaining - int selected) (r, r1) (t, t1) cs')
      else (case pick_loop fixed r1 r0 0 t1 cs of
              (r, selected, t, cs') \<Rightarrow>
                if selected = 0 then (t0, t)
                else auto_rounds fixed (Suc n) (remaining - int selected) (r0, r) (t0, t) cs'))"
  by pat_completeness auto
termination
  by (relation "measure (\<lambda>(f, n, m, r, t, cs). length (unchosen cs))") (auto dest!: pick_loop_decreases [OF sym])

declare auto_rounds.simps [simp del]

definition autoteam_split :: "bool \<Rightarrow> clientinfo list \<Rightarrow> int list \<times> int list" where
  "autoteam_split fixed cs = auto_rounds fixed 0 (int (length cs)) (0, 0) ([], []) cs"

text \<open>Telling the players: \<open>assign_team\<close> is the body of the last loop for one player.\<close>

definition assign_team :: "'a smode \<Rightarrow> cstr \<Rightarrow> int \<Rightarrow> 'a world_scheme \<Rightarrow> 'a world_scheme" where
  "assign_team sm name cn w =
     (let ci = client cn w
      in if ci_team ci = name then w
         else if persistteams w \<and> ci_team ci \<noteq> [] \<and> (case sm of None \<Rightarrow> True | Some m \<Rightarrow> sm_canchangeteam m ci name (ci_team ci))
         then addteaminfo (ci_team ci) w
         else emit (sendf (- 1) 1 [MI N_SETTEAM, MI cn, MS name, MI (- 1)]) (upd_client cn (\<lambda>ci. ci\<lparr>ci_team := name\<rparr>) w))"

definition mode_hidefrags :: "'a smode \<Rightarrow> bool" where
  "mode_hidefrags sm = (case sm of None \<Rightarrow> False | Some m \<Rightarrow> sm_hidefrags m)"

definition autoteam :: "'a smode \<Rightarrow> 'a world_scheme \<Rightarrow> 'a world_scheme" where
  "autoteam sm w =
     (let (good, evil) = autoteam_split (mode_hidefrags sm) (clients w);
          w = fold (\<lambda>cn w. upd_state cn (\<lambda>s. s\<lparr>gs_timeplayed := - 1\<rparr>) w) (good @ evil) w;
          w = fold (assign_team sm ''good'') good (addteaminfo ''good'' w)
      in fold (assign_team sm ''evil'') evil (addteaminfo ''evil'' w))"

text \<open>A turn of a team that is level or one behind: it ends level or one ahead, or with nobody left.\<close>

lemma fixed_turn:
  assumes "distinct (unchosen cs)" and "pick_loop True (of_nat a) (of_nat b) 0 t cs = (r, selected, t', cs')"
    and "a \<le> b" and "b \<le> Suc a"
  obtains p where "t' = t @ p" "selected = length p" "mset (unchosen cs) = mset p + mset (unchosen cs')" "distinct (unchosen cs')"
    "r = of_nat (a + length p)" "a + length p \<le> Suc b" "p = [] \<Longrightarrow> unchosen cs = []" "p \<noteq> [] \<Longrightarrow> b \<le> a + length p"
proof -
  from pick_loop_spec [OF assms(1,2)] obtain p where p: "t' = t @ p" "selected = length p" "mset (unchosen cs) = mset p + mset (unchosen cs')"
    "distinct (unchosen cs')" "p = [] \<longrightarrow> (of_nat b :: rat) < of_nat a \<or> unchosen cs = []"
    "r = of_nat a + of_nat (length p)" "r \<le> max (of_nat a) (of_nat b + 1)" by auto
  have "(of_nat (a + length p) :: rat) \<le> of_nat (Suc b)" using p(6,7) assms(3) by (simp add: max_def split: if_splits)
  then have "a + length p \<le> Suc b" by (simp only: of_nat_le_iff)
  then show thesis using that [OF p(1-4)] p(5,6) assms(3,4) by (cases p) auto
qed

lemma auto_rounds_fixed:
  assumes "distinct (unchosen cs)" and "int (length (unchosen cs)) \<le> remaining"
    and "if even n then length t0 \<le> length t1 \<and> length t1 \<le> Suc (length t0) else length t1 \<le> length t0 \<and> length t0 \<le> Suc (length t1)"
    and "auto_rounds True n remaining (of_nat (length t0), of_nat (length t1)) (t0, t1) cs = (t0', t1')"
  shows "mset t0' + mset t1' = mset t0 + mset t1 + mset (unchosen cs) \<and> length t0' \<le> Suc (length t1') \<and> length t1' \<le> Suc (length t0')"
  using assms
proof (induction "length (unchosen cs)" arbitrary: n remaining t0 t1 cs rule: less_induct)
  case less
  note ds = less.prems(1) and rem = less.prems(2) and eq = less.prems(4)
  have size: "length (unchosen cs) = length p + length (unchosen cs')" if "mset (unchosen cs) = mset p + mset (unchosen cs')" for p cs'
    using arg_cong [OF that, of size] by simp
  show ?case
  proof (cases "even n")
    case True
    with less.prems(3) have lv: "length t0 \<le> length t1" "length t1 \<le> Suc (length t0)" by simp_all
    obtain r selected t cs' where pl: "pick_loop True (of_nat (length t0)) (of_nat (length t1)) 0 t0 cs = (r, selected, t, cs')"
      by (metis prod_cases4)
    from fixed_turn [OF ds pl lv] obtain p where p: "t = t0 @ p" "selected = length p" "mset (unchosen cs) = mset p + mset (unchosen cs')"
      "distinct (unchosen cs')" "r = of_nat (length t0 + length p)" "length t0 + length p \<le> Suc (length t1)"
      "p = [] \<Longrightarrow> unchosen cs = []" "p \<noteq> [] \<Longrightarrow> length t1 \<le> length t0 + length p" by metis
    show ?thesis
    proof (cases "p = []")
      case True
      then show ?thesis using eq pl p \<open>even n\<close> rem lv by (auto simp: auto_rounds.simps)
    next
      case False
      then have "auto_rounds True (Suc n) (remaining - int (length p)) (of_nat (length t), of_nat (length t1)) (t, t1) cs' = (t0', t1')"
        using eq pl p \<open>even n\<close> rem by (auto simp: auto_rounds.simps [of True n])
      then show ?thesis using less.hyps [of cs' "remaining - int (length p)" "Suc n" t t1] False p size [OF p(3)] rem \<open>even n\<close> by simp
    qed
  next
    case False
    with less.prems(3) have lv: "length t1 \<le> length t0" "length t0 \<le> Suc (length t1)" by simp_all
    obtain r selected t cs' where pl: "pick_loop True (of_nat (length t1)) (of_nat (length t0)) 0 t1 cs = (r, selected, t, cs')"
      by (metis prod_cases4)
    from fixed_turn [OF ds pl lv] obtain p where p: "t = t1 @ p" "selected = length p" "mset (unchosen cs) = mset p + mset (unchosen cs')"
      "distinct (unchosen cs')" "r = of_nat (length t1 + length p)" "length t1 + length p \<le> Suc (length t0)"
      "p = [] \<Longrightarrow> unchosen cs = []" "p \<noteq> [] \<Longrightarrow> length t0 \<le> length t1 + length p" by metis
    show ?thesis
    proof (cases "p = []")
      case True
      then show ?thesis using eq pl p \<open>odd n\<close> rem lv by (auto simp: auto_rounds.simps)
    next
      case False
      then have "auto_rounds True (Suc n) (remaining - int (length p)) (of_nat (length t0), of_nat (length t)) (t0, t) cs' = (t0', t1')"
        using eq pl p \<open>odd n\<close> rem by (auto simp: auto_rounds.simps [of True n])
      then show ?thesis using less.hyps [of cs' "remaining - int (length p)" "Suc n" t0 t] False p size [OF p(3)] rem \<open>odd n\<close> by simp
    qed
  qed
qed

lemma autoteam_split_fair:
  assumes "distinct (map ci_clientnum cs)" and "\<forall>ci \<in> set cs. 0 \<le> gs_timeplayed (ci_state ci)"
    and "autoteam_split True cs = (good, evil)"
  shows "mset good + mset evil = mset (map ci_clientnum cs)" "length good \<le> Suc (length evil)" "length evil \<le> Suc (length good)"
proof -
  have u: "unchosen cs = map ci_clientnum cs" using assms(2) by (simp add: unchosen_def filter_True)
  have "mset good + mset evil = mset (map ci_clientnum cs) \<and> length good \<le> Suc (length evil) \<and> length evil \<le> Suc (length good)"
    using auto_rounds_fixed [of cs "int (length cs)" 0 "[]" "[]" good evil] assms(1,3) u by (simp add: autoteam_split_def)
  then show "mset good + mset evil = mset (map ci_clientnum cs)" "length good \<le> Suc (length evil)" "length evil \<le> Suc (length good)" by simp_all
qed

text \<open>What the players are told.\<close>

lemma assign_team_clients:
  assumes "\<not> persistteams w" and "distinct (map ci_clientnum (roster w))"
  shows "clients (assign_team sm name cn w) = map (\<lambda>ci. if ci_clientnum ci = cn then ci\<lparr>ci_team := name\<rparr> else ci) (clients w)"
    "map ci_clientnum (roster (assign_team sm name cn w)) = map ci_clientnum (roster w)" "persistteams (assign_team sm name cn w) = persistteams w"
proof -
  have "ci\<lparr>ci_team := name\<rparr> = ci" if "ci \<in> set (clients w)" "ci_clientnum ci = cn" "ci_team (client cn w) = name" for ci
    using distinct_client [OF assms(2), of ci] that by (simp add: roster_def)
  then show "clients (assign_team sm name cn w) = map (\<lambda>ci. if ci_clientnum ci = cn then ci\<lparr>ci_team := name\<rparr> else ci) (clients w)"
    using assms(1) by (auto simp: assign_team_def Let_def upd_client_def intro!: map_idI [symmetric])
  show "map ci_clientnum (roster (assign_team sm name cn w)) = map ci_clientnum (roster w)" "persistteams (assign_team sm name cn w) = persistteams w"
    using assms(1) by (simp_all add: assign_team_def Let_def roster_upd_client) (simp add: emit_def upd_client_def)
qed

lemma fold_assign_team:
  assumes "\<not> persistteams w" and "distinct (map ci_clientnum (roster w))"
  shows "clients (fold (assign_team sm name) cns w) = map (\<lambda>ci. if ci_clientnum ci \<in> set cns then ci\<lparr>ci_team := name\<rparr> else ci) (clients w)
    \<and> map ci_clientnum (roster (fold (assign_team sm name) cns w)) = map ci_clientnum (roster w) \<and> \<not> persistteams (fold (assign_team sm name) cns w)"
  using assms
proof (induction cns arbitrary: w)
  case (Cons cn cns)
  note a = assign_team_clients [OF Cons.prems, of sm name cn]
  have "\<not> persistteams (assign_team sm name cn w)" "distinct (map ci_clientnum (roster (assign_team sm name cn w)))"
    using Cons.prems a(2,3) by simp_all
  from Cons.IH [OF this] show ?case using a by (auto simp: comp_def)
qed simp

lemma teams_fold_state:
  "map (\<lambda>ci. (ci_clientnum ci, ci_team ci)) (clients (fold (\<lambda>cn w. upd_state cn f w) cns w)) = map (\<lambda>ci. (ci_clientnum ci, ci_team ci)) (clients w)"
    "map ci_clientnum (roster (fold (\<lambda>cn w. upd_state cn f w) cns w)) = map ci_clientnum (roster w)"
    "persistteams (fold (\<lambda>cn w. upd_state cn f w) cns w) = persistteams w"
  by (induction cns arbitrary: w) (simp_all add: upd_state_def upd_client_def roster_def)

lemma addteaminfo_frame [simp]:
  "clients (addteaminfo t w) = clients w" "roster (addteaminfo t w) = roster w" "persistteams (addteaminfo t w) = persistteams w"
  by (simp_all add: addteaminfo_def pruneteaminfo_def roster_def Let_def)

lemma autoteam_teams:
  assumes "\<not> persistteams w" and "distinct (map ci_clientnum (roster w))"
    and "autoteam_split (mode_hidefrags sm) (clients w) = (good, evil)"
  shows "map (\<lambda>ci. (ci_clientnum ci, ci_team ci)) (clients (autoteam sm w))
    = map (\<lambda>ci. (ci_clientnum ci, if ci_clientnum ci \<in> set evil then ''evil'' else if ci_clientnum ci \<in> set good then ''good'' else ci_team ci)) (clients w)"
proof -
  define f where "f = (\<lambda>s. s\<lparr>gs_timeplayed := - 1\<rparr> :: gamestate)"
  define w1 where "w1 = addteaminfo ''good'' (fold (\<lambda>cn w. upd_state cn f w) (good @ evil) w)"
  have w1: "map (\<lambda>ci. (ci_clientnum ci, ci_team ci)) (clients w1) = map (\<lambda>ci. (ci_clientnum ci, ci_team ci)) (clients w)"
    "\<not> persistteams w1" "distinct (map ci_clientnum (roster w1))"
    using assms(1,2) by (simp_all add: w1_def teams_fold_state)
  define w2 where "w2 = addteaminfo ''evil'' (fold (assign_team sm ''good'') good w1)"
  note g = fold_assign_team [OF w1(2,3), of sm "''good''" good]
  have w2: "clients w2 = map (\<lambda>ci. if ci_clientnum ci \<in> set good then ci\<lparr>ci_team := ''good''\<rparr> else ci) (clients w1)"
    "\<not> persistteams w2" "distinct (map ci_clientnum (roster w2))"
    using g w1(3) by (simp_all add: w2_def)
  have r: "autoteam sm w = fold (assign_team sm ''evil'') evil w2"
    by (simp only: autoteam_def assms(3) Let_def case_prod_conv w2_def w1_def f_def)
  have "map (\<lambda>ci. (ci_clientnum ci, ci_team ci)) (clients (autoteam sm w))
      = map ((\<lambda>(n, t). (n, if n \<in> set evil then ''evil'' else if n \<in> set good then ''good'' else t)) \<circ> (\<lambda>ci. (ci_clientnum ci, ci_team ci))) (clients w1)"
    using fold_assign_team [OF w2(2,3), of sm "''evil''" evil] by (simp add: r w2(1))
  also have "\<dots> = map (\<lambda>(n, t). (n, if n \<in> set evil then ''evil'' else if n \<in> set good then ''good'' else t)) (map (\<lambda>ci. (ci_clientnum ci, ci_team ci)) (clients w))"
    by (simp only: map_map [symmetric] w1(1))
  finally show ?thesis by (simp add: comp_def)
qed

lemma count_split:
  assumes "distinct xs" and "mset g + mset e = mset xs"
  shows "length (filter (\<lambda>x. x \<in> set e) xs) = length e" "length (filter (\<lambda>x. x \<notin> set e) xs) = length g" "set xs = set g \<union> set e"
proof -
  have d: "distinct (g @ e)" using assms mset_eq_imp_distinct_iff [of "g @ e" xs] by simp
  show s: "set xs = set g \<union> set e" using arg_cong [OF assms(2), of set_mset] by simp
  have "card (set (filter (\<lambda>x. x \<in> set e) xs)) = card (set e)" by (rule arg_cong [of _ _ card]) (use s in auto)
  then show "length (filter (\<lambda>x. x \<in> set e) xs) = length e" using assms(1) d by (simp only: distinct_card distinct_filter distinct_append)
  have "card (set (filter (\<lambda>x. x \<notin> set e) xs)) = card (set g)" by (rule arg_cong [of _ _ card]) (use s d in auto)
  then show "length (filter (\<lambda>x. x \<notin> set e) xs) = length g" using assms(1) d by (simp only: distinct_card distinct_filter distinct_append)
qed

definition team_numbers :: "cstr \<Rightarrow> 'a world_scheme \<Rightarrow> int list" where
  "team_numbers t w = map ci_clientnum (filter (\<lambda>ci. ci_team ci = t) (clients w))"

text \<open>C26: in the modes that are not played for frags, unless teams persist, a map change makes two fair teams: whatever
  teams the clients were in, each of them is in good or in evil afterwards, the two differ by at most one in size, and
  the players are the same. (The time played is at least zero for everybody: it is -1 only while the routine runs.)\<close>

theorem autoteam_balanced:
  assumes "mode_hidefrags sm" and "\<not> persistteams w" and "distinct (map ci_clientnum (clients w @ connects w))"
    and "\<forall>ci \<in> set (clients w). 0 \<le> gs_timeplayed (ci_state ci)"
  defines "w' \<equiv> autoteam sm w"
  shows "mset (team_numbers ''good'' w') + mset (team_numbers ''evil'' w') = mset (map ci_clientnum (clients w))
    \<and> length (team_numbers ''good'' w') \<le> Suc (length (team_numbers ''evil'' w')) \<and> length (team_numbers ''evil'' w') \<le> Suc (length (team_numbers ''good'' w'))"
proof -
  obtain good evil where sp: "autoteam_split True (clients w) = (good, evil)" by (cases "autoteam_split True (clients w)")
  have d: "distinct (map ci_clientnum (clients w))" "distinct (map ci_clientnum (roster w))" using assms(3) by (simp_all add: roster_def)
  note f = autoteam_split_fair [OF d(1) assms(4) sp]
  note c = count_split [OF d(1) f(1)]
  have "map (\<lambda>ci. (ci_clientnum ci, ci_team ci)) (clients w')
      = map (\<lambda>ci. (ci_clientnum ci, if ci_clientnum ci \<in> set evil then ''evil'' else ''good'')) (clients w)"
    unfolding w'_def using autoteam_teams [OF assms(2) d(2), of sm] sp assms(1) c(3) by (auto simp: image_subset_iff)
  then have t: "map (\<lambda>ci. (ci_clientnum ci, ci_team ci)) (clients w') = map (\<lambda>n. (n, if n \<in> set evil then ''evil'' else ''good'')) (map ci_clientnum (clients w))"
    by (simp add: comp_def)
  have m: "team_numbers x w' = map fst (filter (\<lambda>p. snd p = x) (map (\<lambda>ci. (ci_clientnum ci, ci_team ci)) (clients w')))" for x
    by (simp add: team_numbers_def filter_map comp_def)
  have "team_numbers ''evil'' w' = filter (\<lambda>n. n \<in> set evil) (map ci_clientnum (clients w))"
    "team_numbers ''good'' w' = filter (\<lambda>n. n \<notin> set evil) (map ci_clientnum (clients w))"
    unfolding m t by (simp_all add: filter_map comp_def if_distrib cong: if_cong)
  then show ?thesis using c(1,2) f(2,3) by (simp only: mset_filter) (metis add.commute multiset_partition)
qed

definition ranked :: "int \<Rightarrow> rat \<Rightarrow> clientinfo" where
  "ranked n q = (sample_client n ''good'' 0)\<lparr>ci_state := (ci_state (sample_client n ''good'' 0))\<lparr>gs_effectiveness := q, gs_timeplayed := 1\<rparr>\<rparr>"

text \<open>In a mode that is played for frags the same routine can leave players in no team. When the best players
  have used up all positive ranks, the team that is ahead takes nobody in its turn, and the routine takes
  that for the end: the two last of these four players are in neither team.\<close>

lemma autoteam_leaves_out:
  "autoteam_split False [ranked 0 5, ranked 1 1, ranked 2 0, ranked 3 0] = ([0], [1])"
  by code_simp

definition crowd :: world where
  "crowd = sample_world\<lparr>clients := [ranked 0 5, ranked 1 1, ranked 2 0, ranked 3 0, ranked 4 0]\<rparr>"

theorem autoteam_balanced_witness:
  "length (team_numbers ''good'' crowd) = 5
    \<and> length (team_numbers ''good'' (autoteam (Some (base_servmode\<lparr>sm_hidefrags := True\<rparr>)) crowd)) \<in> {2, 3}"
proof -
  let ?w' = "autoteam (Some (base_servmode\<lparr>sm_hidefrags := True\<rparr>)) crowd"
  have "\<not> persistteams crowd" "distinct (map ci_clientnum (clients crowd @ connects crowd))" "length (team_numbers ''good'' crowd) = 5"
    "list_all (\<lambda>ci. 0 \<le> gs_timeplayed (ci_state ci)) (clients crowd)" "length (clients crowd) = 5" by code_simp+
  moreover from this autoteam_balanced [of "Some (base_servmode\<lparr>sm_hidefrags := True\<rparr>)" crowd]
  have b: "mset (team_numbers ''good'' ?w') + mset (team_numbers ''evil'' ?w') = mset (map ci_clientnum (clients crowd))"
    "length (team_numbers ''good'' ?w') \<le> Suc (length (team_numbers ''evil'' ?w'))" "length (team_numbers ''evil'' ?w') \<le> Suc (length (team_numbers ''good'' ?w'))"
    by (simp_all add: mode_hidefrags_def list_all_iff)
  moreover from arg_cong [OF b(1), of size] have "length (team_numbers ''good'' ?w') + length (team_numbers ''evil'' ?w') = 5"
    using calculation(5) by simp
  ultimately show ?thesis by auto
qed

subsection \<open>The worst team\<close>

record teamrank =
  tr_name :: cstr
  tr_rank :: rat
  tr_clients :: int

definition plays_for :: "int option \<Rightarrow> clientinfo \<Rightarrow> bool" where
  "plays_for exclude ci \<longleftrightarrow> Some (ci_clientnum ci) \<noteq> exclude \<and> aitype (ci_state ci) = AI_NONE
     \<and> gs_state (ci_state ci) \<noteq> CS_SPECTATOR \<and> ci_team ci \<noteq> []"

definition team_rank :: "cstr \<Rightarrow> int option \<Rightarrow> 'a world_scheme \<Rightarrow> teamrank" where
  "team_rank name exclude w =
     (let cs = filter (\<lambda>ci. plays_for exclude ci \<and> ci_team ci = name) (clients w)
      in \<lparr>tr_name = name, tr_rank = (\<Sum>ci \<leftarrow> cs. gs_effectiveness (ci_state ci) / of_int (max (gs_timeplayed (ci_state ci)) 1)),
          tr_clients = int (length cs)\<rparr>)"

definition catch_up :: "int option \<Rightarrow> 'a world_scheme \<Rightarrow> 'a world_scheme" where
  "catch_up exclude w = w\<lparr>clients := map (\<lambda>ci. if plays_for exclude ci
     then ci\<lparr>ci_state := (ci_state ci)\<lparr>gs_timeplayed := gs_timeplayed (ci_state ci) + (lastmillis w - gs_lasttimeplayed (ci_state ci)),
            gs_lasttimeplayed := lastmillis w\<rparr>\<rparr> else ci) (clients w)\<rparr>"

definition chooseworstteam :: "'a smode \<Rightarrow> int option \<Rightarrow> 'a world_scheme \<Rightarrow> cstr \<times> 'a world_scheme" where
  "chooseworstteam sm exclude w =
     (let w = catch_up exclude w; good = team_rank ''good'' exclude w; evil = team_rank ''evil'' exclude w
      in (tr_name
            (if mode_hidefrags sm
             then if tr_clients good < tr_clients evil \<or> (tr_clients good = tr_clients evil \<and> tr_rank good < tr_rank evil) then good else evil
             else if tr_rank good < tr_rank evil \<or> (tr_rank good = tr_rank evil \<and> tr_clients good < tr_clients evil) then good else evil), w))"

subsection \<open>Votes\<close>

type_synonym votecount = "(cstr \<times> int) \<times> int"

fun count_vote :: "cstr \<times> int \<Rightarrow> votecount list \<Rightarrow> votecount list" where
  "count_vote v [] = [(v, 1)]"
| "count_vote v (vc # vs) = (if fst vc = v then (v, snd vc + 1) # vs else vc # count_vote v vs)"

definition may_vote :: "clientinfo \<Rightarrow> bool" where
  "may_vote ci \<longleftrightarrow> \<not> (gs_state (ci_state ci) = CS_SPECTATOR \<and> ci_privilege ci = 0 \<and> \<not> ci_local ci) \<and> aitype (ci_state ci) = AI_NONE"

definition ballots :: "clientinfo list \<Rightarrow> (cstr \<times> int) list" where
  "ballots cs = map (\<lambda>ci. (ci_mapvote ci, ci_modevote ci)) (filter (\<lambda>ci. may_vote ci \<and> m_valid (ci_modevote ci)) cs)"

definition tally :: "clientinfo list \<Rightarrow> votecount list" where
  "tally cs = fold count_vote (ballots cs) []"

text \<open>A tie with the best so far is broken by drawing lots.\<close>

fun best_vote :: "votecount option \<Rightarrow> votecount list \<Rightarrow> 'a world_scheme \<Rightarrow> votecount option \<times> 'a world_scheme" where
  "best_vote best [] w = (best, w)"
| "best_vote best (v # vs) w = (case best of
     None \<Rightarrow> best_vote (Some v) vs w
   | Some b \<Rightarrow>
       if snd v > snd b then best_vote (Some v) vs w
       else if snd v = snd b then (let (n, w) = draw 2 w in best_vote (if n \<noteq> 0 then Some v else best) vs w)
       else best_vote best vs w)"

datatype vote_outcome = NoChange | ChangeMap cstr int | RotateMap

definition checkvotes :: "bool \<Rightarrow> 'a world_scheme \<Rightarrow> vote_outcome \<times> 'a world_scheme" where
  "checkvotes force w =
     (let maxvotes = int (length (filter may_vote (clients w)));
          (best, w) = best_vote None (tally (clients w)) w
      in if force \<or> (case best of None \<Rightarrow> False | Some b \<Rightarrow> snd b > cdiv maxvotes 2)
         then (case best of
                 None \<Rightarrow> (RotateMap, w)
               | Some ((mp, mode), n) \<Rightarrow>
                   if n > (if force then 1 else cdiv maxvotes 2)
                   then (ChangeMap mp mode,
                         emit (Event ''votepassed'' [MS (utf8 w mp), MS (modename mode ''unknown'')])
                           (emit (sendf (- 1) 1 [MI N_SERVMSG, MS (if force then ''vote passed by default'' else ''vote passed by majority'')]) w))
                   else (RotateMap, w))
         else (NoChange, w))"

lemma count_vote_lookup:
  "map_of (count_vote v vs) x = (if x = v then Some (case map_of vs v of None \<Rightarrow> 1 | Some n \<Rightarrow> n + 1) else map_of vs x)"
  by (induction vs) (auto split: option.split)

lemma count_vote_keys: "distinct (map fst vs) \<Longrightarrow> distinct (map fst (count_vote v vs)) \<and> fst ` set (count_vote v vs) = insert v (fst ` set vs)"
  by (induction vs) auto

lemma tally_fold:
  assumes "distinct (map fst vs)"
  shows "distinct (map fst (fold count_vote bs vs)) \<and> map_of (fold count_vote bs vs) x
    = (if count (mset bs) x = 0 then map_of vs x
       else Some ((case map_of vs x of None \<Rightarrow> 0 | Some n \<Rightarrow> n) + int (count (mset bs) x)))"
  using assms
proof (induction bs arbitrary: vs)
  case (Cons b bs)
  have "distinct (map fst (count_vote b vs))" using count_vote_keys [OF Cons.prems] by simp
  from Cons.IH [OF this] show ?case by (auto simp: count_vote_lookup split: option.split)
qed simp

lemma tally_count: "(v, n) \<in> set (tally cs) \<longleftrightarrow> n = int (count (mset (ballots cs)) v) \<and> n \<noteq> 0"
proof -
  have d: "distinct (map fst (tally cs))" and m: "map_of (tally cs) v = (if count (mset (ballots cs)) v = 0 then None else Some (int (count (mset (ballots cs)) v)))"
    using tally_fold [of "[]" "ballots cs" v] by (simp_all add: tally_def)
  have "(v, n) \<in> set (tally cs) \<longleftrightarrow> map_of (tally cs) v = Some n" by (simp add: map_of_eq_Some_iff [OF d])
  then show ?thesis unfolding m by auto
qed

lemma best_vote_spec:
  assumes "best_vote best vs w = (b, w')"
  shows "(\<forall>v \<in> set vs \<union> set_option best. \<exists>c. b = Some c \<and> snd v \<le> snd c) \<and> (\<forall>c. b = Some c \<longrightarrow> c \<in> set vs \<union> set_option best)"
  using assms
proof (induction best vs w arbitrary: b w' rule: best_vote.induct)
  case (2 best v vs w)
  show ?case
  proof (cases best)
    case None
    then show ?thesis using "2.IH"(1) [OF None] "2.prems" by auto
  next
    case (Some c)
    consider "snd v > snd c" | "snd v = snd c" | "snd v < snd c" by linarith
    then show ?thesis
    proof cases
      case 1
      then show ?thesis using "2.IH"(2) [OF Some 1] "2.prems" Some by fastforce
    next
      case 2
      obtain n w1 where d: "draw 2 w = (n, w1)" by (cases "draw 2 w")
      have "best_vote (if n \<noteq> 0 then Some v else best) vs w1 = (b, w')" using "2.prems" Some 2 d by (cases "n = 0") simp_all
      then show ?thesis using "2.IH"(3) [OF Some _ _ d [symmetric] refl] 2 Some d by (cases "n = 0") auto
    next
      case 3
      then show ?thesis using "2.IH"(4) [OF Some] "2.prems" Some by fastforce
    qed
  qed
qed simp


definition voting :: world where
  "voting = sample_world\<lparr>clients := map (\<lambda>ci. ci\<lparr>ci_mapvote := (if ci_clientnum ci = 1 then ''dust2'' else ''reissen''), ci_modevote := 3\<rparr>) (clients sample_world)\<rparr>"


subsection \<open>Overtime and intermission\<close>

text \<open>The scan for the best score: \<open>ld\<close> is the name and score of the best so far, if any, and \<open>tied\<close> says that
  another name has reached the same score.\<close>

fun scan_scores :: "(cstr \<times> int) option \<Rightarrow> bool \<Rightarrow> (cstr \<times> int) list \<Rightarrow> bool" where
  "scan_scores ld tied [] = tied"
| "scan_scores ld tied ((name, score) # ss) = (case ld of
     None \<Rightarrow> scan_scores (Some (name, score)) False ss
   | Some (t, s) \<Rightarrow>
       if score > s then scan_scores (Some (name, score)) False ss
       else scan_scores ld (tied \<or> (score = s \<and> name \<noteq> t)) ss)"

fun scan_frags :: "int \<Rightarrow> bool \<Rightarrow> int list \<Rightarrow> bool" where
  "scan_frags ld tied [] = tied"
| "scan_frags ld tied (f # fs) = (if f > ld then scan_frags f False fs else scan_frags ld (tied \<or> f = ld) fs)"

definition team_score :: "'a smode \<Rightarrow> 'a world_scheme \<Rightarrow> cstr \<Rightarrow> int" where
  "team_score sm w team = (case sm of
     Some m \<Rightarrow> if sm_hidefrags m then team_lookup team (sm_getteamscores m w)
               else (case team_access team w of Some f \<Rightarrow> f | None \<Rightarrow> 0)
   | None \<Rightarrow> (case team_access team w of Some f \<Rightarrow> f | None \<Rightarrow> 0))"

definition in_play :: "'a world_scheme \<Rightarrow> clientinfo list" where
  "in_play w = filter (\<lambda>ci. gs_state (ci_state ci) \<noteq> CS_SPECTATOR) (clients w)"

definition score_tied :: "'a smode \<Rightarrow> 'a world_scheme \<Rightarrow> bool" where
  "score_tied sm w =
     (if m_teammode (gamemode w)
      then scan_scores None False (map (\<lambda>ci. (ci_team ci, team_score sm w (ci_team ci))) (filter (\<lambda>ci. ci_team ci \<noteq> []) (in_play w)))
      else scan_frags INT_MIN False (map (\<lambda>ci. gs_frags (ci_state ci)) (in_play w)))"

definition checkovertime :: "'a smode \<Rightarrow> 'a world_scheme \<Rightarrow> bool \<times> 'a world_scheme" where
  "checkovertime sm w =
     (if \<not> m_timed (gamemode w) \<or> \<not> overtime w then (False, w)
      else if \<not> score_tied sm w then (False, w)
      else let w = emit (sendf (- 1) 1 [MI N_SERVMSG, MS ''the game is tied with overtime'']) w;
               w = w\<lparr>gamelimit := max (gamemillis w) (gamelimit w) + 2 * 60000\<rparr>
           in (True, emit (sendf (- 1) 1 [MI N_TIMEUP, MI (max (cdiv (gamelimit w - gamemillis w) 1000) 1)]) w))"

definition checkintermission :: "'a smode \<Rightarrow> bool \<Rightarrow> 'a world_scheme \<Rightarrow> 'a world_scheme" where
  "checkintermission sm force w =
     (if gamemillis w \<ge> gamelimit w \<and> interm w = 0
      then if force then enter_intermission w
           else let (again, w) = checkovertime sm w in if again then w else enter_intermission w
      else w)"

text \<open>Two names share the best score.\<close>

definition tie :: "(cstr \<times> int) set \<Rightarrow> bool" where
  "tie A \<longleftrightarrow> (\<exists>n m q. (n, q) \<in> A \<and> (m, q) \<in> A \<and> n \<noteq> m \<and> (\<forall>p \<in> A. snd p \<le> q))"

lemma scan_scores_spec:
  assumes "(t, s) \<in> A" and "\<forall>p \<in> A. snd p \<le> s" and "tied = (\<exists>n. (n, s) \<in> A \<and> n \<noteq> t)"
  shows "scan_scores (Some (t, s)) tied ss = tie (A \<union> set ss)"
  using assms
proof (induction ss arbitrary: t s tied A)
  case Nil
  have "tie A" if "(n, s) \<in> A" "n \<noteq> t" for n using that Nil by (auto simp: tie_def)
  moreover have "\<exists>n. (n, s) \<in> A \<and> n \<noteq> t" if "tie A"
  proof -
    from that obtain n m q where q: "(n, q) \<in> A" "(m, q) \<in> A" "n \<noteq> m" "\<forall>p \<in> A. snd p \<le> q" by (auto simp: tie_def)
    have "q = s" using q(1,4) Nil(1,2) by force
    then show ?thesis using q by blast
  qed
  ultimately show ?case using Nil(3) by auto
next
  case (Cons p ss)
  obtain name score where p: "p = (name, score)" by (cases p)
  have un: "A \<union> set (p # ss) = insert (name, score) A \<union> set ss" using p by auto
  show ?case unfolding un
  proof (cases "score > s")
    case True
    have "\<forall>x \<in> insert (name, score) A. snd x \<le> score" using Cons.prems(2) True by force
    moreover have "False = (\<exists>n. (n, score) \<in> insert (name, score) A \<and> n \<noteq> name)" using Cons.prems(2) True by force
    ultimately have "scan_scores (Some (name, score)) False ss = tie (insert (name, score) A \<union> set ss)"
      by (rule Cons.IH [OF insertI1])
    then show "scan_scores (Some (t, s)) tied (p # ss) = tie (insert (name, score) A \<union> set ss)" using True p by simp
  next
    case False
    have "\<forall>x \<in> insert (name, score) A. snd x \<le> s" using Cons.prems(2) False by simp
    moreover have "(tied \<or> (score = s \<and> name \<noteq> t)) = (\<exists>n. (n, s) \<in> insert (name, score) A \<and> n \<noteq> t)"
      using Cons.prems(3) by blast
    ultimately have "scan_scores (Some (t, s)) (tied \<or> (score = s \<and> name \<noteq> t)) ss = tie (insert (name, score) A \<union> set ss)"
      by (rule Cons.IH [OF insertI2 [OF Cons.prems(1)]])
    then show "scan_scores (Some (t, s)) tied (p # ss) = tie (insert (name, score) A \<union> set ss)" using False p by simp
  qed
qed

lemma scan_scores_tie: "scan_scores None False ss = tie (set ss)"
proof (cases ss)
  case (Cons p ps)
  then show ?thesis using scan_scores_spec [of "fst p" "snd p" "{p}" False ps] by (cases p) simp
qed (simp add: tie_def)

text \<open>The same for players, who are told apart by their place in the list.\<close>

lemma scan_frags_spec:
  assumes "\<forall>f \<in> set fs. ld < f \<or> k > 0" and "tied = (k > 1)"
  shows "scan_frags ld tied fs \<longleftrightarrow> 1 < count (mset fs + replicate_mset k ld) (Max (insert ld (set fs)))"
  using assms
proof (induction fs arbitrary: ld tied k)
  case (Cons f fs)
  have mx: "Max (insert ld (set (f # fs))) = Max (insert (max ld f) (set fs))" by (cases "fs = []") (auto simp: max.assoc max.left_commute)
  show ?case
  proof (cases "f > ld")
    case True
    have ih: "scan_frags f False fs \<longleftrightarrow> 1 < count (mset fs + replicate_mset 1 f) (Max (insert f (set fs)))"
      by (rule Cons.IH) auto
    have "f \<le> Max (insert f (set fs))" by simp
    then have "Max (insert f (set fs)) \<noteq> ld" using True by linarith
    then show ?thesis using ih True mx by (simp add: max_def)
  next
    case False
    then have k: "k > 0" using Cons.prems(1) by auto
    have ih: "scan_frags ld (tied \<or> f = ld) fs \<longleftrightarrow> 1 < count (mset fs + replicate_mset (if f = ld then Suc k else k) ld) (Max (insert ld (set fs)))"
      by (rule Cons.IH) (use k Cons.prems(2) in auto)
    have "ld \<le> Max (insert ld (set fs))" by simp
    then have "f = ld \<or> Max (insert ld (set fs)) \<noteq> f" using False by linarith
    then show ?thesis using ih False mx by (auto simp: max_def)
  qed
qed simp

text \<open>C27: a timed game that has run out goes into overtime exactly when overtime is allowed and the best score is
  shared, by two teams in a team mode and by two players otherwise; then the limit moves two minutes on and
  the game does not end. Otherwise the intermission begins, unless a script extends the game.\<close>

theorem overtime_iff_tied:
  fixes sm :: "'a smode" and w :: "'a world_scheme"
  assumes "gamelimit w \<le> gamemillis w" and "interm w = 0" and "\<forall>ci \<in> set (clients w). INT_MIN < gs_frags (ci_state ci)"
  defines "teams \<equiv> {(ci_team ci, team_score sm w (ci_team ci)) | ci. ci \<in> set (in_play w) \<and> ci_team ci \<noteq> []}"
    and "frags \<equiv> map (\<lambda>ci. gs_frags (ci_state ci)) (in_play w)"
    and "w' \<equiv> checkintermission sm False w"
  defines "tied \<equiv> (if m_teammode (gamemode w) then tie teams else frags \<noteq> [] \<and> 1 < count (mset frags) (Max (set frags)))"
  shows "(if m_timed (gamemode w) \<and> overtime w \<and> tied
          then interm w' = 0 \<and> gamelimit w' = gamemillis w + 120000
          else w' = enter_intermission w)"
proof -
  have "scan_frags INT_MIN False frags = (frags \<noteq> [] \<and> 1 < count (mset frags) (Max (set frags)))"
  proof (cases "frags = []")
    case False
    have b: "\<forall>f \<in> set frags. INT_MIN < f" using assms(3) by (auto simp: frags_def in_play_def)
    have "Max (set frags) \<in> set frags" using False by simp
    then have "INT_MIN < Max (set frags)" using b by blast
    then have "Max (insert INT_MIN (set frags)) = Max (set frags)" using False by (simp add: Max_insert max_def)
    then show ?thesis using scan_frags_spec [of frags INT_MIN 0 False] False b by simp
  qed simp
  moreover have "scan_scores None False (map (\<lambda>ci. (ci_team ci, team_score sm w (ci_team ci))) (filter (\<lambda>ci. ci_team ci \<noteq> []) (in_play w))) = tie teams"
    unfolding scan_scores_tie by (rule arg_cong [of _ _ tie]) (auto simp: teams_def)
  ultimately have "score_tied sm w = tied" by (simp add: score_tied_def tied_def frags_def)
  then show ?thesis using assms(1,2) by (auto simp: w'_def checkintermission_def checkovertime_def Let_def)
qed

definition level_game :: world where
  "level_game = sample_world\<lparr>gamemode := 0, gamemillis := 600000, overtime := True,
     clients := [sample_client 0 ''good'' 5, sample_client 1 ''evil'' 5, sample_client 2 ''good'' 3]\<rparr>"

theorem overtime_iff_tied_witness:
  "gamelimit (checkintermission None False level_game) = 720000 \<and> interm (checkintermission None False level_game) = 0"
proof -
  have l: "gamelimit level_game \<le> gamemillis level_game" "interm level_game = 0" "m_timed (gamemode level_game)" "overtime level_game"
    "\<not> m_teammode (gamemode level_game)" "gamemillis level_game = 600000" by code_simp+
  have f: "\<forall>ci \<in> set (clients level_game). INT_MIN < gs_frags (ci_state ci)" by code_simp
  have fr: "map (\<lambda>ci. gs_frags (ci_state ci)) (in_play level_game) = [5, 5, 3]" by code_simp
  have "1 < count (mset [5, 5, 3]) (Max (set [5, 5, 3 :: int]))" by simp
  then show ?thesis using overtime_iff_tied [OF l(1,2) f, of None] l fr by simp
qed

subsection \<open>Pausing\<close>

definition pausegame :: "bool \<Rightarrow> int option \<Rightarrow> 'a world_scheme \<Rightarrow> 'a world_scheme" where
  "pausegame val cn w =
     (let w = w\<lparr>pausegame_owner := - 1\<rparr>
      in if gamepaused w = val then w
         else let w = emit (sendf (- 1) 1 [MI N_PAUSEGAME, MI (if val then 1 else 0), MI (case cn of Some c \<Rightarrow> c | None \<Rightarrow> - 1)]) (w\<lparr>gamepaused := val\<rparr>)
           in emit (Event (if val then ''gamepaused'' else ''gameresumed'') []) w)"

definition checkpausegame :: "'a world_scheme \<Rightarrow> 'a world_scheme" where
  "checkpausegame w =
     (if \<not> gamepaused w then w
      else if \<exists>ci \<in> set (clients w). ci_privilege ci \<ge> (if restrictpausegame w then PRIV_ADMIN else PRIV_MASTER) \<or> ci_local ci then w
      else pausegame False None w)"

definition changegamespeed :: "int \<Rightarrow> int option \<Rightarrow> 'a world_scheme \<Rightarrow> 'a world_scheme" where
  "changegamespeed val cn w =
     (let val = clamp val 10 1000
      in if gamespeed w = val then w
         else emit (sendf (- 1) 1 [MI N_GAMESPEED, MI val, MI (case cn of Some c \<Rightarrow> c | None \<Rightarrow> - 1)]) (w\<lparr>gamespeed := val\<rparr>))"

subsection \<open>Scores that survive a disconnect\<close>

definition sc_new :: savedscore where
  "sc_new = \<lparr>sc_ip = 0, sc_name = [], sc_frags = 0, sc_flags = 0, sc_deaths = 0, sc_suicides = 0, sc_teamkills = 0,
     sc_shotdamage = 0, sc_explosivedamage = 0, sc_damage = 0, sc_hits = 0, sc_misses = 0, sc_shots = 0, sc_timeplayed = 0,
     sc_effectiveness = 0, sc_disconnecttime = 0\<rparr>"

definition score_key :: "u32 \<Rightarrow> cstr \<Rightarrow> savedscore \<Rightarrow> bool" where
  "score_key ip name sc \<longleftrightarrow> sc_ip sc = ip \<and> sc_name sc = name"

text \<open>\<^verbatim>\<open>findscore(ci, true)\<close> with the update that \<^verbatim>\<open>savescore\<close> makes through the pointer.\<close>

fun save_in :: "u32 \<Rightarrow> cstr \<Rightarrow> gamestate \<Rightarrow> savedscore list \<Rightarrow> savedscore list" where
  "save_in ip name gs [] = [sc_save gs (sc_new\<lparr>sc_ip := ip, sc_name := name\<rparr>)]"
| "save_in ip name gs (sc # scs) = (if score_key ip name sc then sc_save gs sc # scs else sc # save_in ip name gs scs)"

definition savescore :: "clientinfo \<Rightarrow> 'a world_scheme \<Rightarrow> 'a world_scheme" where
  "savescore ci w =
     (let ip = client_ip w (ci_clientnum ci)
      in if ip = 0 \<and> \<not> ci_local ci then w else w\<lparr>scores := save_in ip (ci_name ci) (ci_state ci) (scores w)\<rparr>)"

text \<open>\<^verbatim>\<open>findscore(ci, false)\<close>: a client that is connected from the same address under the same name is asked first.\<close>

definition twin :: "clientinfo \<Rightarrow> 'a world_scheme \<Rightarrow> clientinfo option" where
  "twin ci w = find (\<lambda>oi. ci_clientnum oi \<noteq> ci_clientnum ci \<and> client_ip w (ci_clientnum oi) = client_ip w (ci_clientnum ci)
     \<and> ci_name oi = ci_name ci) (clients w)"

definition findscore :: "clientinfo \<Rightarrow> 'a world_scheme \<Rightarrow> savedscore option \<times> 'a world_scheme" where
  "findscore ci w =
     (let ip = client_ip w (ci_clientnum ci)
      in if ip = 0 \<and> \<not> ci_local ci then (None, w)
         else case twin ci w of
                Some oi \<Rightarrow>
                  let upd = (\<lambda>s. s\<lparr>gs_timeplayed := gs_timeplayed s + (lastmillis w - gs_lasttimeplayed s), gs_lasttimeplayed := lastmillis w\<rparr>)
                  in (Some (sc_save (upd (ci_state oi)) sc_new), upd_state (ci_clientnum oi) upd w)
              | None \<Rightarrow> (find (score_key ip (ci_name ci)) (scores w), w))"

definition restorescore :: "clientinfo \<Rightarrow> 'a world_scheme \<Rightarrow> bool \<times> 'a world_scheme" where
  "restorescore ci w = (case findscore ci w of
     (None, w) \<Rightarrow> (False, w)
   | (Some sc, w) \<Rightarrow> (True, upd_state (ci_clientnum ci) (sc_restore sc) w))"

lemma score_key_save [simp]: "score_key ip name (sc_save gs sc) = score_key ip name sc"
  "score_key ip name (sc_new\<lparr>sc_ip := ip', sc_name := name'\<rparr>) = (ip = ip' \<and> name = name')"
  by (auto simp: score_key_def sc_save_def)

lemma score_key_unique: "score_key ip name sc \<Longrightarrow> score_key ip' name' sc = (ip = ip' \<and> name = name')"
  by (auto simp: score_key_def)

lemma find_save_in:
  "find (score_key ip name) (save_in ip' name' gs scs)
    = (if ip = ip' \<and> name = name' then Some (sc_save gs (case find (score_key ip name) scs of Some sc \<Rightarrow> sc | None \<Rightarrow> sc_new\<lparr>sc_ip := ip, sc_name := name\<rparr>))
       else find (score_key ip name) scs)"
  by (induction scs) (auto simp: score_key_unique)

lemma sc_restore_save: "sc_restore (sc_save gs sc) gs' = sc_restore (sc_save gs sc_new) gs'"
  by (simp add: sc_restore_def sc_save_def)

lemma savescore_fields [simp]:
  "scores (savescore ci w) = (if client_ip w (ci_clientnum ci) = 0 \<and> \<not> ci_local ci then scores w
     else save_in (client_ip w (ci_clientnum ci)) (ci_name ci) (ci_state ci) (scores w))"
  "client_ip (savescore ci w) = client_ip w" "clients (savescore ci w) = clients w"
  by (simp_all add: savescore_def Let_def)

lemma savescore_other:
  "client_ip w (ci_clientnum ci) \<noteq> ip \<or> ci_name ci \<noteq> name \<Longrightarrow> find (score_key ip name) (scores (savescore ci w)) = find (score_key ip name) (scores w)"
  by (auto simp: find_save_in)

text \<open>Further saves: each of a client, with the addresses that the clients have at that time.\<close>

definition save_as :: "clientinfo \<times> (int \<Rightarrow> u32) \<Rightarrow> 'a world_scheme \<Rightarrow> 'a world_scheme" where
  "save_as = (\<lambda>(ci, ips) w. savescore ci (w\<lparr>client_ip := ips\<rparr>))"

lemma save_as_others:
  assumes "\<forall>(ci, ips) \<in> set others. ips (ci_clientnum ci) \<noteq> ip \<or> ci_name ci \<noteq> name"
  shows "find (score_key ip name) (scores (fold save_as others w)) = find (score_key ip name) (scores w)"
  using assms by (induction others arbitrary: w) (auto simp: save_as_def find_save_in)


text \<open>Player 2 leaves with seven frags and comes back as number 0; in between, player 1 leaves from another address and
  player 2 of another name from the same one.\<close>

definition left_world :: world where
  "left_world = fold save_as [(sample_client 1 ''evil'' 5, (\<lambda>n. 9)), ((sample_client 2 ''evil'' 3)\<lparr>ci_name := ''other''\<rparr>, (\<lambda>n. 4))]
     (savescore (sample_client 2 ''good'' 7) (sample_world\<lparr>client_ip := (\<lambda>n. if n = 1 then 9 else 4), clients := [sample_client 0 ''good'' 0]\<rparr>))"


end
