(* ===== verification/Spawn.thy ===== *)
theory Spawn
  imports Match "HOL-Library.Monad_Syntax"
begin

text \<open>
  How a player comes to life, from \<^verbatim>\<open>src/src/fpsgame/server.cpp\<close> and \<^verbatim>\<open>src/src/hopmod/server_functions.cpp\<close>:
  the spawn state that the server sends, the state it resends, and the request to respawn. Drawing the guns of a
  tactics game is a loop that ends when the random source gives two different numbers, so an operation that
  spawns may have no result, which is \<open>None\<close>. The theory also has the calls of the functions of a mode that are not
  about fighting, and \<open>mode_frame\<close>, the contract that these functions keep.
\<close>

subsection \<open>Calls of the mode\<close>

definition smode_leavegame :: "'a smode \<Rightarrow> int \<Rightarrow> bool \<Rightarrow> 'a world_scheme \<Rightarrow> 'a world_scheme" where
  "smode_leavegame sm cn disconnecting w = (case sm of Some m \<Rightarrow> sm_leavegame m (client cn w) disconnecting w | None \<Rightarrow> w)"

definition smode_entergame :: "'a smode \<Rightarrow> int \<Rightarrow> 'a world_scheme \<Rightarrow> 'a world_scheme" where
  "smode_entergame sm cn w = (case sm of Some m \<Rightarrow> sm_entergame m (client cn w) w | None \<Rightarrow> w)"

definition smode_changeteam :: "'a smode \<Rightarrow> int \<Rightarrow> cstr \<Rightarrow> cstr \<Rightarrow> 'a world_scheme \<Rightarrow> 'a world_scheme" where
  "smode_changeteam sm cn oldteam newteam w = (case sm of Some m \<Rightarrow> sm_changeteam m (client cn w) oldteam newteam w | None \<Rightarrow> w)"

definition smode_spawned :: "'a smode \<Rightarrow> int \<Rightarrow> 'a world_scheme \<Rightarrow> 'a world_scheme" where
  "smode_spawned sm cn w = (case sm of Some m \<Rightarrow> sm_spawned m (client cn w) w | None \<Rightarrow> w)"

definition smode_moved :: "'a smode \<Rightarrow> int \<Rightarrow> vec \<Rightarrow> bool \<Rightarrow> vec \<Rightarrow> bool \<Rightarrow> 'a world_scheme \<Rightarrow> 'a world_scheme" where
  "smode_moved sm cn oldpos oldclip newpos newclip w =
     (case sm of Some m \<Rightarrow> sm_moved m (client cn w) oldpos oldclip newpos newclip w | None \<Rightarrow> w)"

definition smode_canspawn :: "'a smode \<Rightarrow> clientinfo \<Rightarrow> bool \<Rightarrow> 'a world_scheme \<Rightarrow> bool" where
  "smode_canspawn sm ci connecting w = (case sm of Some m \<Rightarrow> sm_canspawn m ci connecting w | None \<Rightarrow> True)"

subsection \<open>Spawning\<close>

text \<open>\<^verbatim>\<open>sendstate\<close>: the values of a player's state in a message.\<close>

definition sendstate :: "gamestate \<Rightarrow> int list" where
  "sendstate s = [gs_lifesequence s, health s, maxhealth s, armour s, armourtype s, gunselect s]
     @ map (\<lambda>i. ammo s ! nat (GUN_SG + int i)) [0..<nat (GUN_PISTOL - GUN_SG + 1)]"

definition spawnstate_ci :: "int \<Rightarrow> 'a world_scheme \<Rightarrow> 'a world_scheme option" where
  "spawnstate_ci cn w =
     (case spawnstate (hide_and_seek w) (regenbluearmour w) (gamemode w) (fpsstate.truncate (cstate cn w)) (rngst w) of
        None \<Rightarrow> None
      | Some (t, r) \<Rightarrow>
          Some (upd_state cn (\<lambda>s. (on_fps (\<lambda>_. t) s)\<lparr>gs_lifesequence := (gs_lifesequence s + 1) mod 128\<rparr>) (w\<lparr>rngst := r\<rparr>)))"

definition sendspawn :: "int \<Rightarrow> 'a world_scheme \<Rightarrow> 'a world_scheme option" where
  "sendspawn cn w =
     (if ci_no_spawn (client cn w) = 1 then Some w
      else do {
        w \<leftarrow> spawnstate_ci cn w;
        let w = emit (sendf (ci_ownernum (client cn w)) 1 (map MI ([N_SPAWNSTATE, cn] @ sendstate (cstate cn w)))) w;
        Some (upd_state cn (\<lambda>s. s\<lparr>gs_lastspawn := gamemillis w\<rparr>) w)
      })"

definition sendresume :: "int \<Rightarrow> 'a world_scheme \<Rightarrow> 'a world_scheme" where
  "sendresume cn w =
     (let s = cstate cn w
      in emit (sendf (ci_ownernum (client cn w)) 1 (map MI ([N_RESUME, cn, gs_state s, gs_frags s, gs_flags s, gs_deaths s, quadmillis s]
           @ sendstate s @ [- 1]))) w)"

text \<open>\<open>try_respawn\<close>: \<open>n\<close> is the client that asks and \<open>q\<close> the player that is to respawn, itself or one of its bots.\<close>

definition try_respawn :: "'a smode \<Rightarrow> int \<Rightarrow> int \<Rightarrow> 'a world_scheme \<Rightarrow> 'a world_scheme option" where
  "try_respawn sm n q w =
     (let ci = client n w; cq = client q w
      in if gs_state (ci_state cq) \<noteq> CS_DEAD \<or> gs_lastspawn (ci_state cq) \<ge> 0 \<or> \<not> smode_canspawn sm cq False w then Some w
         else let nomap = (ci_clientmap ci = [] \<and> ci_mapcrc ci = 0);
                  w = (if nomap then upd_client n (\<lambda>ci. ci\<lparr>ci_mapcrc := - 1\<rparr>) w else w)
              in if nomap \<and> n \<noteq> q \<and> ci_ownernum cq \<noteq> n then Some w
                 else if gs_deadflush (ci_state cq) \<noteq> 0 \<and> respawn_hook w q (gs_lastdeath (ci_state cq)) then Some w
                 else let w = (if gs_deadflush (ci_state cq) \<noteq> 0
                               then upd_state q gs_respawn (flushevents sm q (gs_deadflush (ci_state cq)) w) else w)
                      in sendspawn q (upd_client q cleartimedevents w))"

subsection \<open>What a mode leaves alone\<close>

text \<open>Everything of the world but the messages, the random source and the tokens that players carry.\<close>

definition frame :: "'a world_scheme \<Rightarrow> world" where
  "frame w = (world.truncate w)\<lparr>clients := map tokenless (clients w), connects := map tokenless (connects w),
     outbox := [], rngst := (\<lambda>_. 0)\<rparr>"

lemma frame_emit [simp]: "frame (emit e w) = frame w"
  by (simp add: frame_def emit_def world.truncate_def)

lemma frame_draw [simp]: "frame (snd (draw x w)) = frame w"
  by (simp add: frame_def draw_def split_beta world.truncate_def)

lemma frame_fold: "(\<And>x w. frame (f x w) = frame w) \<Longrightarrow> frame (fold f xs w) = frame w"
  by (induction xs arbitrary: w) simp_all

lemma frame_tokens [simp]: "frame (upd_state n (\<lambda>s. s\<lparr>gs_tokens := t\<rparr>) w) = frame w"
  by (simp add: frame_def upd_state_def upd_client_def world.truncate_def tokenless_def)

lemma frame_map:
  assumes "frame w' = frame w" and "\<And>ci. g (tokenless ci) = g ci"
  shows "map g (clients w') = map g (clients w)" "map g (connects w') = map g (connects w)" "map g (roster w') = map g (roster w)"
proof -
  have m: "map g xs = map g (map tokenless xs)" for xs by (simp add: assms)
  have "map tokenless (clients w') = map tokenless (clients w)" "map tokenless (connects w') = map tokenless (connects w)"
    using assms(1) by (simp_all add: frame_def world.truncate_def)
  then show "map g (clients w') = map g (clients w)" "map g (connects w') = map g (connects w)" by (metis m)+
  then show "map g (roster w') = map g (roster w)" by (simp add: roster_def)
qed

lemma frame_fields:
  assumes "frame w' = frame w"
  shows "gamemode w' = gamemode w" "gamemillis w' = gamemillis w" "bots w' = bots w" "dorefresh w' = dorefresh w"
    "botbalance w' = botbalance w" "lastmillis w' = lastmillis w" "totalmillis w' = totalmillis w" "botlimit w' = botlimit w"
    "gamelimit w' = gamelimit w" "interm w' = interm w" "spycn w' = spycn w" "sents w' = sents w" "arena w' = arena w"
    "teaminfos w' = teaminfos w" "scores w' = scores w" "next_botid w' = next_botid w"
  using assms by (simp_all add: frame_def world.truncate_def arena_def)

locale mode_frame = mode_contract sm for sm :: "'a smode" +
  assumes frame_leave: "frame (smode_leavegame sm cn d w) = frame w"
    and frame_enter: "frame (smode_entergame sm cn w) = frame w"
    and frame_team: "frame (smode_changeteam sm cn t u w) = frame w"
    and frame_spawned: "frame (smode_spawned sm cn w) = frame w"
    and frame_moved: "frame (smode_moved sm cn p b q c w) = frame w"

interpretation no_mode_frame: mode_frame "None :: 'a smode"
  by unfold_locales (simp_all add: smode_leavegame_def smode_entergame_def smode_changeteam_def smode_spawned_def smode_moved_def)

end
