(* ===== verification/Sorting.thy ===== *)
theory Sorting
  imports Prelude
begin

text \<open>
  The sorting routines of \<^verbatim>\<open>src/src/shared/tools.h\<close>, on which \<^verbatim>\<open>vector::sort\<close> rests:
  \<^verbatim>\<open>insertionsort\<close>, and \<^verbatim>\<open>quicksort\<close> with its median of three, its partition loop and its hand-over to
  insertion sort for short ranges. An array is a list, a pointer into it an index, and \<open>lt\<close> is the comparison
  that the caller passes. The locale \<open>weak_order\<close> states what a comparison must fulfil.
\<close>

subsection \<open>Insertion sort\<close>

text \<open>The inner loop moves elements up until the place of \<open>tmp\<close> is found.\<close>

function (sequential) shift_loop :: "('a \<Rightarrow> 'a \<Rightarrow> bool) \<Rightarrow> 'a \<Rightarrow> nat \<Rightarrow> nat \<Rightarrow> 'a list \<Rightarrow> 'a list" where
  "shift_loop lt tmp st j xs =
     (if j > st \<and> lt tmp (xs ! (j - 1)) then shift_loop lt tmp st (j - 1) (xs[j := xs ! (j - 1)]) else xs[j := tmp])"
  by pat_completeness auto
termination
  by (relation "measure (\<lambda>(lt, tmp, st, j, xs). j)") auto

function (sequential) insertion_loop :: "('a \<Rightarrow> 'a \<Rightarrow> bool) \<Rightarrow> nat \<Rightarrow> nat \<Rightarrow> nat \<Rightarrow> 'a list \<Rightarrow> 'a list" where
  "insertion_loop lt st en i xs =
     (if i < en
      then insertion_loop lt st en (Suc i)
             (if lt (xs ! i) (xs ! (i - 1))
              then shift_loop lt (xs ! i) st (i - 1) (xs[i := xs ! (i - 1)]) else xs)
      else xs)"
  by pat_completeness auto
termination
  by (relation "measure (\<lambda>(lt, st, en, i, xs). en - i)") auto

definition insertionsort :: "('a \<Rightarrow> 'a \<Rightarrow> bool) \<Rightarrow> nat \<Rightarrow> nat \<Rightarrow> 'a list \<Rightarrow> 'a list" where
  "insertionsort lt st en xs = insertion_loop lt st en (Suc st) xs"

subsection \<open>Partitioning\<close>

definition swap :: "nat \<Rightarrow> nat \<Rightarrow> 'a list \<Rightarrow> 'a list" where
  "swap i j xs = xs[i := xs ! j, j := xs ! i]"

text \<open>The median of the first, the middle and the last element is taken out as the pivot, the smaller of the
  other two is first, the greater one last, and the middle is free.\<close>

definition median :: "('a \<Rightarrow> 'a \<Rightarrow> bool) \<Rightarrow> nat \<Rightarrow> nat \<Rightarrow> nat \<Rightarrow> 'a list \<Rightarrow> 'a \<times> 'a list" where
  "median lt st mid en xs =
     (let a = xs ! st; m = xs ! mid; z = xs ! (en - 1)
      in if lt a m
         then if lt z a then (a, xs[st := z, en - 1 := m])
              else if lt z m then (z, xs[en - 1 := m])
              else (m, xs)
         else if lt a z then (a, xs[st := m])
         else if lt m z then (z, xs[en - 1 := a, st := m])
         else (m, swap st (en - 1) xs))"

text \<open>\<open>up\<close> and \<open>down\<close> are the two inner loops: \<open>Inl i\<close> is the jump to \<^verbatim>\<open>partitioned\<close>.\<close>

function (sequential) up :: "('a \<Rightarrow> 'a \<Rightarrow> bool) \<Rightarrow> 'a \<Rightarrow> nat \<Rightarrow> nat \<Rightarrow> 'a list \<Rightarrow> nat + nat" where
  "up lt pivot i j xs = (if lt (xs ! i) pivot then if Suc i \<ge> j then Inl (Suc i) else up lt pivot (Suc i) j xs else Inr i)"
  by pat_completeness auto
termination
  by (relation "measure (\<lambda>(lt, p, i, j, xs). j - i)") auto

function (sequential) down :: "('a \<Rightarrow> 'a \<Rightarrow> bool) \<Rightarrow> 'a \<Rightarrow> nat \<Rightarrow> nat \<Rightarrow> 'a list \<Rightarrow> nat + nat" where
  "down lt pivot i j xs =
     (if lt pivot (xs ! (j - 1)) then if i \<ge> j - 1 then Inl i else down lt pivot i (j - 1) xs else Inr (j - 1))"
  by pat_completeness auto
termination
  by (relation "measure (\<lambda>(lt, p, i, j, xs). j)") auto

declare shift_loop.simps [simp del] insertion_loop.simps [simp del] up.simps [simp del] down.simps [simp del]

lemma up_spec:
  "i < j \<Longrightarrow> (case up lt p i j xs of
      Inl k \<Rightarrow> k = j \<and> (\<forall>m. i \<le> m \<longrightarrow> m < j \<longrightarrow> lt (xs ! m) p)
    | Inr k \<Rightarrow> i \<le> k \<and> k < j \<and> \<not> lt (xs ! k) p \<and> (\<forall>m. i \<le> m \<longrightarrow> m < k \<longrightarrow> lt (xs ! m) p))"
proof (induction lt p i j xs rule: up.induct)
  case (1 lt p i j xs)
  then show ?case by (subst up.simps) (auto simp: le_less_Suc_eq Suc_le_eq dest: le_neq_implies_less split: sum.splits)
qed

lemma down_spec:
  "i < j \<Longrightarrow> (case down lt p i j xs of
      Inl k \<Rightarrow> k = i \<and> (\<forall>m. i \<le> m \<longrightarrow> m < j \<longrightarrow> lt p (xs ! m))
    | Inr k \<Rightarrow> i \<le> k \<and> k < j \<and> \<not> lt p (xs ! k) \<and> (\<forall>m. k < m \<longrightarrow> m < j \<longrightarrow> lt p (xs ! m)))"
proof (induction lt p i j xs rule: down.induct)
  case (1 lt p i j xs)
  then obtain n where "j = Suc n" by (cases j) auto
  with 1 show ?case by (subst down.simps) (auto simp: less_Suc_eq split: sum.splits)
qed

text \<open>The loop is entered with \<open>i < j\<close>; the guard only makes the function total.\<close>

function (sequential) partition_loop :: "('a \<Rightarrow> 'a \<Rightarrow> bool) \<Rightarrow> 'a \<Rightarrow> nat \<Rightarrow> nat \<Rightarrow> 'a list \<Rightarrow> nat \<times> 'a list" where
  "partition_loop lt pivot i j xs =
     (if \<not> i < j then (i, xs)
      else case up lt pivot i j xs of
        Inl k \<Rightarrow> (k, xs)
      | Inr i \<Rightarrow>
          (case down lt pivot i j xs of
             Inl k \<Rightarrow> (k, xs)
           | Inr j \<Rightarrow>
               let xs = swap i j xs in if Suc i < j then partition_loop lt pivot (Suc i) j xs else (Suc i, xs)))"
  by pat_completeness auto
termination
proof (relation "measure (\<lambda>(lt, p, i, j, xs). j - i)", goal_cases)
  case (2 lt p i j xs k k' xs')
  then show ?case using up_spec [of i j lt xs p] down_spec [of k j lt p xs] by auto
qed auto

declare partition_loop.simps [simp del]

definition partition_range :: "('a \<Rightarrow> 'a \<Rightarrow> bool) \<Rightarrow> nat \<Rightarrow> nat \<Rightarrow> 'a list \<Rightarrow> nat \<times> 'a list" where
  "partition_range lt st en xs =
     (let mid = st + (en - st) div 2;
          (pivot, xs) = median lt st mid en xs;
          xs = xs[mid := xs ! (en - 2)];
          (i, xs) = partition_loop lt pivot (Suc st) (en - 2) xs
      in (i, xs[en - 2 := xs ! i, i := pivot]))"

lemma swap_simps [simp]:
  "length (swap i j xs) = length xs"
  "i < length xs \<Longrightarrow> j < length xs \<Longrightarrow> mset (swap i j xs) = mset xs"
  "i < length xs \<Longrightarrow> j < length xs \<Longrightarrow> swap i j xs ! k = (if k = j then xs ! i else if k = i then xs ! j else xs ! k)"
  by (auto simp: swap_def mset_swap nth_list_update)

text \<open>What the partition loop does to the range from \<open>i\<close> to \<open>j\<close>.\<close>

definition partitioned :: "('a \<Rightarrow> 'a \<Rightarrow> bool) \<Rightarrow> 'a \<Rightarrow> nat \<Rightarrow> nat \<Rightarrow> 'a list \<Rightarrow> nat \<times> 'a list \<Rightarrow> bool" where
  "partitioned lt p i j xs r \<longleftrightarrow> i \<le> fst r \<and> fst r \<le> j \<and> length (snd r) = length xs \<and> mset (snd r) = mset xs
     \<and> (\<forall>k. k < i \<or> j \<le> k \<longrightarrow> snd r ! k = xs ! k)
     \<and> (asymp lt \<longrightarrow> (\<forall>k. i \<le> k \<longrightarrow> k < fst r \<longrightarrow> \<not> lt p (snd r ! k)) \<and> (\<forall>k. fst r \<le> k \<longrightarrow> k < j \<longrightarrow> \<not> lt (snd r ! k) p))"

lemma partition_loop_spec:
  "i < j \<Longrightarrow> j \<le> length xs \<Longrightarrow> partitioned lt p i j xs (partition_loop lt p i j xs)"
proof (induction lt p i j xs rule: partition_loop.induct)
  case (1 lt p i j xs)
  note ij = \<open>i < j\<close> \<open>j \<le> length xs\<close>
  show ?case
  proof (cases "up lt p i j xs")
    case (Inl k)
    then show ?thesis using up_spec [OF ij(1), of lt xs p] ij
      by (subst partition_loop.simps) (auto simp: partitioned_def dest: asympD)
  next
    case (Inr k)
    then have k: "i \<le> k" "k < j" "\<not> lt (xs ! k) p" "\<And>m. i \<le> m \<Longrightarrow> m < k \<Longrightarrow> lt (xs ! m) p"
      using up_spec [OF ij(1), of lt xs p] by auto
    show ?thesis
    proof (cases "down lt p k j xs")
      case (Inl m)
      then have "m = k" "\<And>m. k \<le> m \<Longrightarrow> m < j \<Longrightarrow> lt p (xs ! m)" using down_spec [OF k(2), of lt p xs] by auto
      then show ?thesis using k ij Inl \<open>up lt p i j xs = Inr k\<close>
        by (subst partition_loop.simps) (auto simp: partitioned_def dest: asympD)
    next
      case (Inr l)
      then have l: "k \<le> l" "l < j" "\<not> lt p (xs ! l)" "\<And>m. l < m \<Longrightarrow> m < j \<Longrightarrow> lt p (xs ! m)"
        using down_spec [OF k(2), of lt p xs] by auto
      let ?ys = "swap k l xs"
      have ys: "length ?ys = length xs" "mset ?ys = mset xs" "\<And>m. ?ys ! m = (if m = l then xs ! k else if m = k then xs ! l else xs ! m)"
        using k l ij by simp_all
      show ?thesis
      proof (cases "Suc k < l")
        case False
        then have r: "partition_loop lt p i j xs = (Suc k, ?ys)"
          using ij Inr \<open>up lt p i j xs = Inr k\<close> by (subst partition_loop.simps) (simp add: Let_def)
        have "l = k \<or> l = Suc k" using False l(1) by linarith
        then show ?thesis using k l ys ij unfolding r partitioned_def
          by (auto dest: asympD simp: less_Suc_eq Suc_le_eq)
      next
        case True
        then have r: "partition_loop lt p i j xs = partition_loop lt p (Suc k) l ?ys"
          using ij Inr \<open>up lt p i j xs = Inr k\<close> by (subst partition_loop.simps) (simp add: Let_def)
        have "partitioned lt p (Suc k) l ?ys (partition_loop lt p (Suc k) l ?ys)"
          using "1.IH" [of k l ?ys] ij Inr \<open>up lt p i j xs = Inr k\<close> True l ys by simp
        then have q: "Suc k \<le> fst (partition_loop lt p i j xs)" "fst (partition_loop lt p i j xs) \<le> l"
          "length (snd (partition_loop lt p i j xs)) = length xs" "mset (snd (partition_loop lt p i j xs)) = mset xs"
          "\<And>m. m < Suc k \<or> l \<le> m \<Longrightarrow> snd (partition_loop lt p i j xs) ! m = ?ys ! m"
          "asymp lt \<Longrightarrow> Suc k \<le> m \<Longrightarrow> m < fst (partition_loop lt p i j xs) \<Longrightarrow> \<not> lt p (snd (partition_loop lt p i j xs) ! m)"
          "asymp lt \<Longrightarrow> fst (partition_loop lt p i j xs) \<le> m \<Longrightarrow> m < l \<Longrightarrow> \<not> lt (snd (partition_loop lt p i j xs) ! m) p" for m
          unfolding r partitioned_def using ys(1,2) by auto
        show ?thesis unfolding partitioned_def
        proof (intro conjI impI allI)
          fix m assume m: "asymp lt" "i \<le> m" "m < fst (partition_loop lt p i j xs)"
          show "\<not> lt p (snd (partition_loop lt p i j xs) ! m)"
            using q(2) q(5) [of m] q(6) [of m] m k l ys(3) [of m] by (cases "m < Suc k") (auto simp: less_Suc_eq dest: asympD)
        next
          fix m assume m: "asymp lt" "fst (partition_loop lt p i j xs) \<le> m" "m < j"
          show "\<not> lt (snd (partition_loop lt p i j xs) ! m) p"
            using q(1) q(5) [of m] q(7) [of m] m k l ys(3) [of m] by (cases "m < l") (auto dest: asympD)
        next
          fix m assume "m < i \<or> j \<le> m"
          then show "snd (partition_loop lt p i j xs) ! m = xs ! m" using q(5) [of m] ys(3) [of m] k l by auto
        qed (use q(1-4) k l in auto)
      qed
    qed
  qed
qed

lemma partition_loop_bounds:
  "i < j \<Longrightarrow> i \<le> fst (partition_loop lt p i j xs) \<and> fst (partition_loop lt p i j xs) \<le> j"
proof (induction lt p i j xs rule: partition_loop.induct)
  case (1 lt p i j xs)
  show ?case
  proof (cases "up lt p i j xs")
    case (Inl k)
    then show ?thesis using up_spec [OF "1.prems", of lt xs p] "1.prems" by (subst (1 2) partition_loop.simps) auto
  next
    case (Inr k)
    then have k: "i \<le> k" "k < j" using up_spec [OF "1.prems", of lt xs p] by auto
    show ?thesis
    proof (cases "down lt p k j xs")
      case (Inl m)
      then show ?thesis using down_spec [OF k(2), of lt p xs] k "1.prems" \<open>up lt p i j xs = Inr k\<close>
        by (subst (1 2) partition_loop.simps) auto
    next
      case (Inr l)
      then have l: "k \<le> l" "l < j" using down_spec [OF k(2), of lt p xs] by auto
      show ?thesis using "1.IH" [of k l "swap k l xs"] k l "1.prems" Inr \<open>up lt p i j xs = Inr k\<close>
        by (subst (1 2) partition_loop.simps) (auto simp: Let_def)
    qed
  qed
qed

lemma partition_range_bounds:
  assumes "10 < en - st"
  shows "st < fst (partition_range lt st en xs) \<and> fst (partition_range lt st en xs) < en - 1"
proof -
  let ?m = "median lt st (st + (en - st) div 2) en xs"
  have "fst (partition_range lt st en xs)
      = fst (partition_loop lt (fst ?m) (Suc st) (en - 2) ((snd ?m)[st + (en - st) div 2 := snd ?m ! (en - 2)]))"
    by (simp add: partition_range_def Let_def split_beta)
  moreover have "Suc st < en - 2" using assms by linarith
  ultimately have "Suc st \<le> fst (partition_range lt st en xs) \<and> fst (partition_range lt st en xs) \<le> en - 2"
    using partition_loop_bounds [of "Suc st" "en - 2" lt "fst ?m"] by simp
  then show ?thesis using assms by linarith
qed

subsection \<open>Quicksort\<close>

function (sequential) quicksort :: "('a \<Rightarrow> 'a \<Rightarrow> bool) \<Rightarrow> nat \<Rightarrow> nat \<Rightarrow> 'a list \<Rightarrow> 'a list" where
  "quicksort lt st en xs =
     (if en - st > 10
      then let (i, xs) = partition_range lt st en xs
           in if i - st < en - (i + 1) then quicksort lt (i + 1) en (quicksort lt st i xs)
              else quicksort lt st i (quicksort lt (i + 1) en xs)
      else insertionsort lt st en xs)"
  by pat_completeness auto
termination
proof (relation "measure (\<lambda>(lt, st, en, xs). en - st)", goal_cases)
  case (2 lt st en xs x i ys)
  then show ?case using partition_range_bounds [of en st lt xs] by (auto dest: sym)
next
  case (3 lt st en xs x i ys)
  then show ?case using partition_range_bounds [of en st lt xs] by (auto dest: sym)
next
  case (4 lt st en xs x i ys)
  then show ?case using partition_range_bounds [of en st lt xs] by (auto dest: sym)
next
  case (5 lt st en xs x i ys)
  then show ?case using partition_range_bounds [of en st lt xs] by (auto dest: sym)
qed auto

declare quicksort.simps [simp del]

definition vector_sort :: "('a \<Rightarrow> 'a \<Rightarrow> bool) \<Rightarrow> 'a list \<Rightarrow> 'a list" where
  "vector_sort lt xs = quicksort lt 0 (length xs) xs"

subsection \<open>Rearranging a range\<close>

definition rearranged :: "nat \<Rightarrow> nat \<Rightarrow> 'a list \<Rightarrow> 'a list \<Rightarrow> bool" where
  "rearranged st en xs ys \<longleftrightarrow> length ys = length xs \<and> mset ys = mset xs \<and> (\<forall>k. k < st \<or> en \<le> k \<longrightarrow> ys ! k = xs ! k)"

definition sorted_range :: "('a \<Rightarrow> 'a \<Rightarrow> bool) \<Rightarrow> nat \<Rightarrow> nat \<Rightarrow> 'a list \<Rightarrow> bool" where
  "sorted_range lt st en xs \<longleftrightarrow> (\<forall>k l. st \<le> k \<longrightarrow> k < l \<longrightarrow> l < en \<longrightarrow> \<not> lt (xs ! l) (xs ! k))"

lemma rearranged_refl [simp]: "rearranged st en xs xs"
  by (simp add: rearranged_def)

lemma rearranged_trans:
  "rearranged st en xs ys \<Longrightarrow> rearranged st' en' ys zs \<Longrightarrow> st \<le> st' \<Longrightarrow> en' \<le> en \<Longrightarrow> rearranged st en xs zs"
  unfolding rearranged_def by force

lemma rearranged_slice:
  assumes "rearranged st en xs ys" and "st \<le> en" and "en \<le> length xs"
  shows "mset (take (en - st) (drop st ys)) = mset (take (en - st) (drop st xs))"
proof -
  have split: "mset zs = mset (take st zs) + mset (take (en - st) (drop st zs)) + mset (drop en zs)" if "en \<le> length zs" for zs :: "'a list"
  proof -
    have "zs = take st zs @ take (en - st) (drop st zs) @ drop en zs"
      using assms(2) by (metis append_take_drop_id drop_drop le_add_diff_inverse2)
    then show ?thesis by (metis add.assoc mset_append)
  qed
  have "take st ys = take st xs" "drop en ys = drop en xs"
    using assms by (auto simp: rearranged_def intro!: nth_equalityI)
  then show ?thesis using split [of xs] split [of ys] assms by (simp add: rearranged_def)
qed

lemma rearranged_from:
  assumes "rearranged st en xs ys" and "en \<le> length xs" and "st \<le> k" and "k < en"
  obtains l where "st \<le> l" and "l < en" and "ys ! k = xs ! l"
proof -
  have len: "length ys = length xs" using assms(1) by (simp add: rearranged_def)
  have "ys ! k \<in> set (take (en - st) (drop st ys))"
    using assms(2-) len by (auto simp: set_conv_nth intro!: exI [of _ "k - st"])
  then have "ys ! k \<in> set (take (en - st) (drop st xs))"
    using rearranged_slice [OF assms(1)] assms(2-) by (metis less_imp_le_nat order_trans set_mset_mset)
  then obtain m where "m < en - st" "ys ! k = xs ! (st + m)" using assms(2) by (auto simp: set_conv_nth)
  then show thesis using that [of "st + m"] by simp
qed

lemma all_range:
  assumes "rearranged st en xs ys" and "en \<le> length xs" and "\<And>l. st \<le> l \<Longrightarrow> l < en \<Longrightarrow> P (xs ! l)"
  shows "st \<le> k \<Longrightarrow> k < en \<Longrightarrow> P (ys ! k)"
  using rearranged_from [OF assms(1,2)] assms(3) by metis

subsection \<open>Insertion sort is correct\<close>

lemma shift_loop_spec:
  "st \<le> j \<Longrightarrow> j < length xs \<Longrightarrow> \<exists>m. st \<le> m \<and> m \<le> j \<and> length (shift_loop lt tmp st j xs) = length xs
    \<and> mset (shift_loop lt tmp st j xs) = mset (xs[j := tmp])
    \<and> (\<forall>k. shift_loop lt tmp st j xs ! k = (if k = m then tmp else if m < k \<and> k \<le> j then xs ! (k - 1) else xs ! k))
    \<and> (\<forall>k. m \<le> k \<longrightarrow> k < j \<longrightarrow> lt tmp (xs ! k)) \<and> (m = st \<or> \<not> lt tmp (xs ! (m - 1)))"
proof (induction lt tmp st j xs rule: shift_loop.induct)
  case (1 lt tmp st j xs)
  show ?case
  proof (cases "st < j \<and> lt tmp (xs ! (j - 1))")
    case True
    let ?ys = "xs[j := xs ! (j - 1)]"
    have pre: "st \<le> j - 1" "j - 1 < length ?ys" using True "1.prems" by auto
    obtain m where m: "st \<le> m" "m \<le> j - 1" "length (shift_loop lt tmp st (j - 1) ?ys) = length ?ys"
      "mset (shift_loop lt tmp st (j - 1) ?ys) = mset (?ys[j - 1 := tmp])"
      "\<And>k. shift_loop lt tmp st (j - 1) ?ys ! k = (if k = m then tmp else if m < k \<and> k \<le> j - 1 then ?ys ! (k - 1) else ?ys ! k)"
      "\<And>k. m \<le> k \<Longrightarrow> k < j - 1 \<Longrightarrow> lt tmp (?ys ! k)" "m = st \<or> \<not> lt tmp (?ys ! (m - 1))"
      using "1.IH" [OF True pre] by blast
    have s: "shift_loop lt tmp st j xs = shift_loop lt tmp st (j - 1) ?ys" using True by (subst shift_loop.simps) simp
    have "mset (?ys[j - 1 := tmp]) = mset (xs[j := tmp])"
    proof -
      have "?ys[j - 1 := tmp] = swap (j - 1) j (xs[j := tmp])" using True "1.prems" by (auto simp: swap_def list_eq_iff_nth_eq nth_list_update)
      then show ?thesis using "1.prems" by simp
    qed
    moreover have "shift_loop lt tmp st j xs ! k = (if k = m then tmp else if m < k \<and> k \<le> j then xs ! (k - 1) else xs ! k)" for k
      unfolding s m(5) using m(1,2) True "1.prems" by (auto simp: nth_list_update)
    moreover have "lt tmp (xs ! k)" if "m \<le> k" "k < j" for k
      using that m(6) [of k] True by (cases "k = j - 1") (auto simp: nth_list_update split: if_splits)
    ultimately show ?thesis using m(1-4,7) s True by (intro exI [of _ m]) (auto simp: nth_list_update split: if_splits)
  next
    case False
    have "shift_loop lt tmp st j xs = xs[j := tmp]" by (subst shift_loop.simps) (use False in auto)
    then show ?thesis using False "1.prems" by (intro exI [of _ j]) (auto simp: nth_list_update)
  qed
qed

lemma median_rearranges:
  assumes "st < mid" and "mid < en - 1" and "en \<le> length xs" and "median lt st mid en xs = (p, ys)"
  shows "rearranged st en xs (ys[mid := p]) \<and> length ys = length xs \<and> (\<forall>k. k \<noteq> st \<and> k \<noteq> en - 1 \<longrightarrow> ys ! k = xs ! k)"
proof -
  let ?e = "en - 1"
  have b: "st < length xs" "mid < length xs" "?e < length xs" "st \<noteq> mid" "mid \<noteq> ?e" "st \<noteq> ?e" using assms(1-3) by auto
  let ?a = "xs ! st" and ?m = "xs ! mid" and ?z = "xs ! (en - 1)"
  consider "lt ?a ?m" "lt ?z ?a" | "lt ?a ?m" "\<not> lt ?z ?a" "lt ?z ?m" | "lt ?a ?m" "\<not> lt ?z ?a" "\<not> lt ?z ?m"
    | "\<not> lt ?a ?m" "lt ?a ?z" | "\<not> lt ?a ?m" "\<not> lt ?a ?z" "lt ?m ?z" | "\<not> lt ?a ?m" "\<not> lt ?a ?z" "\<not> lt ?m ?z" by blast
  then have "ys[mid := p] \<in> {xs, swap st ?e xs, swap st mid xs, swap ?e mid xs, swap ?e mid (swap st ?e xs), swap ?e mid (swap st mid xs)}"
  proof cases
    case 1
    then have "ys[mid := p] = swap ?e mid (swap st ?e xs)"
      using assms(4) b by (intro nth_equalityI) (auto simp: median_def Let_def swap_def nth_list_update)
    then show ?thesis by simp
  next
    case 2
    then have "ys[mid := p] = swap ?e mid xs"
      using assms(4) b by (intro nth_equalityI) (auto simp: median_def Let_def swap_def nth_list_update)
    then show ?thesis by simp
  next
    case 3
    then show ?thesis using assms(4) by (auto simp: median_def Let_def)
  next
    case 4
    then have "ys[mid := p] = swap st mid xs"
      using assms(4) b by (intro nth_equalityI) (auto simp: median_def Let_def swap_def nth_list_update)
    then show ?thesis by simp
  next
    case 5
    then have "ys[mid := p] = swap ?e mid (swap st mid xs)"
      using assms(4) b by (intro nth_equalityI) (auto simp: median_def Let_def swap_def nth_list_update)
    then show ?thesis by simp
  next
    case 6
    then have "ys[mid := p] = swap st ?e xs"
      using assms(4) b by (intro nth_equalityI) (auto simp: median_def Let_def swap_def nth_list_update)
    then show ?thesis by simp
  qed
  moreover have "rearranged st en xs zs" if "zs \<in> {xs, swap st ?e xs, swap st mid xs, swap ?e mid xs, swap ?e mid (swap st ?e xs), swap ?e mid (swap st mid xs)}" for zs
    using that b assms(1,2) by (auto simp: rearranged_def)
  ultimately have "rearranged st en xs (ys[mid := p])" by blast
  moreover have "length ys = length xs" "\<forall>k. k \<noteq> st \<and> k \<noteq> en - 1 \<longrightarrow> ys ! k = xs ! k"
    using assms(4) by (auto simp: median_def Let_def swap_def nth_list_update split: if_splits)
  ultimately show ?thesis by blast
qed

text \<open>What the routines need of a comparison: it is a strict order in which being incomparable is transitive.\<close>

locale weak_order =
  fixes lt :: "'a \<Rightarrow> 'a \<Rightarrow> bool"
  assumes asym: "lt x y \<Longrightarrow> \<not> lt y x"
    and negtrans: "\<not> lt x y \<Longrightarrow> \<not> lt y z \<Longrightarrow> \<not> lt x z"
begin

lemma insert_step:
  assumes "st < i" and "i < length xs" and sorted: "sorted_range lt st i xs"
  defines "ys \<equiv> if lt (xs ! i) (xs ! (i - 1)) then shift_loop lt (xs ! i) st (i - 1) (xs[i := xs ! (i - 1)]) else xs"
  shows "rearranged st (Suc i) xs ys \<and> sorted_range lt st (Suc i) ys"
proof (cases "lt (xs ! i) (xs ! (i - 1))")
  case False
  have "\<not> lt (xs ! i) (xs ! k)" if "st \<le> k" "k < i" for k
  proof (cases "k = i - 1")
    case neq: False
    then have "\<not> lt (xs ! (i - 1)) (xs ! k)" using sorted that by (simp add: sorted_range_def)
    then show ?thesis using negtrans False by blast
  qed (use False in simp)
  then show ?thesis using sorted False by (auto simp: ys_def sorted_range_def less_Suc_eq)
next
  case True
  let ?zs = "xs[i := xs ! (i - 1)]"
  have "st \<le> i - 1" "i - 1 < length ?zs" using assms(1,2) by auto
  from shift_loop_spec [OF this, of lt "xs ! i"] obtain m where m: "st \<le> m" "m \<le> i - 1" "length ys = length ?zs"
    "mset ys = mset (?zs[i - 1 := xs ! i])"
    "\<And>k. ys ! k = (if k = m then xs ! i else if m < k \<and> k \<le> i - 1 then ?zs ! (k - 1) else ?zs ! k)"
    "\<And>k. m \<le> k \<Longrightarrow> k < i - 1 \<Longrightarrow> lt (xs ! i) (?zs ! k)" "m = st \<or> \<not> lt (xs ! i) (?zs ! (m - 1))"
    unfolding ys_def using True by auto
  have ys: "ys ! k = (if k = m then xs ! i else if m < k \<and> k \<le> i then xs ! (k - 1) else xs ! k)" for k
    using m(1,2,5) assms(1,2) by (auto simp: nth_list_update)
  have above: "lt (xs ! i) (xs ! k)" if "m \<le> k" "k < i" for k
    using m(6) [of k] that True by (cases "k = i - 1") auto
  have below: "\<not> lt (xs ! i) (xs ! k)" if "st \<le> k" "k < m" for k
  proof -
    have n: "\<not> lt (xs ! i) (xs ! (m - 1))" using m(2,7) that assms(1) by (auto simp: nth_list_update)
    show ?thesis
    proof (cases "k = m - 1")
      case False
      then have "\<not> lt (xs ! (m - 1)) (xs ! k)" using sorted that m(2) assms(1) by (simp add: sorted_range_def)
      then show ?thesis using negtrans n by blast
    qed (use n in simp)
  qed
  have "?zs[i - 1 := xs ! i] = swap (i - 1) i xs" using assms(1,2) by (auto simp: swap_def list_eq_iff_nth_eq nth_list_update)
  then have "rearranged st (Suc i) xs ys" using m(1-4) ys assms(1,2) by (auto simp: rearranged_def)
  moreover have "\<not> lt (ys ! l) (ys ! k)" if "st \<le> k" "k < l" "l < Suc i" for k l
  proof -
    have so: "\<not> lt (xs ! l) (xs ! k)" if "st \<le> k" "k < l" "l < i" for k l using sorted that by (simp add: sorted_range_def)
    consider "l < m" | "l = m" | "k < m" "m < l" | "k = m" | "m < k" using that by linarith
    then show ?thesis
    proof cases
      case 1
      then show ?thesis using so [of k l] ys [of k] ys [of l] that m(2) by simp
    next
      case 2
      then show ?thesis using below [of k] ys [of k] ys [of l] that by simp
    next
      case 3
      then show ?thesis using so [of k "l - 1"] ys [of k] ys [of l] that by simp
    next
      case 4
      then show ?thesis using asym [OF above [of "l - 1"]] ys [of k] ys [of l] that by simp
    next
      case 5
      then show ?thesis using so [of "k - 1" "l - 1"] ys [of k] ys [of l] that m(1) by simp
    qed
  qed
  ultimately show ?thesis by (simp add: sorted_range_def)
qed

lemma insertion_loop_sorts:
  "st < i \<Longrightarrow> i \<le> en \<Longrightarrow> en \<le> length xs \<Longrightarrow> sorted_range lt st i xs
    \<Longrightarrow> rearranged st en xs (insertion_loop lt st en i xs) \<and> sorted_range lt st en (insertion_loop lt st en i xs)"
proof (induction "en - i" arbitrary: i xs)
  case 0
  then show ?case by (subst (1 2) insertion_loop.simps) simp
next
  case (Suc n)
  let ?ys = "if lt (xs ! i) (xs ! (i - 1)) then shift_loop lt (xs ! i) st (i - 1) (xs[i := xs ! (i - 1)]) else xs"
  have i: "i < en" "n = en - Suc i" using Suc.hyps(2) by auto
  have s: "rearranged st (Suc i) xs ?ys" "sorted_range lt st (Suc i) ?ys"
    using insert_step [of st i xs] Suc.prems i by auto
  then have len: "length ?ys = length xs" by (simp add: rearranged_def)
  have "rearranged st en ?ys (insertion_loop lt st en (Suc i) ?ys) \<and> sorted_range lt st en (insertion_loop lt st en (Suc i) ?ys)"
    using Suc.hyps(1) [OF i(2), of ?ys] Suc.prems i s len by simp
  moreover have "insertion_loop lt st en i xs = insertion_loop lt st en (Suc i) ?ys"
    using i by (subst insertion_loop.simps) simp
  moreover have "rearranged st en xs ?ys" using s(1) i by (auto simp: rearranged_def)
  ultimately show ?case using rearranged_trans [of st en xs ?ys st en] by simp
qed

lemma insertionsort_sorts:
  "en \<le> length xs \<Longrightarrow> rearranged st en xs (insertionsort lt st en xs) \<and> sorted_range lt st en (insertionsort lt st en xs)"
proof (cases "st < en")
  case True
  have "sorted_range lt st (Suc st) xs" by (simp add: sorted_range_def)
  then show "en \<le> length xs \<Longrightarrow> ?thesis" using insertion_loop_sorts [of st "Suc st" en xs] True by (simp add: insertionsort_def)
next
  case False
  then show ?thesis by (simp add: insertionsort_def insertion_loop.simps sorted_range_def)
qed

lemma median_ordered:
  assumes "st < mid" and "mid < en - 1" and "en \<le> length xs" and "median lt st mid en xs = (p, ys)"
  shows "\<not> lt p (ys ! st) \<and> \<not> lt (ys ! (en - 1)) p"
proof -
  have "st < length xs" "en - 1 < length xs" "st \<noteq> en - 1" using assms(1-3) by auto
  then show ?thesis using assms(4) asym by (auto simp: median_def Let_def swap_def nth_list_update split: if_splits)
qed

lemma partition_range_sorts:
  assumes "10 < en - st" and "en \<le> length xs" and "partition_range lt st en xs = (i, us)"
  shows "rearranged st en xs us \<and> (\<forall>k. st \<le> k \<longrightarrow> k < i \<longrightarrow> \<not> lt (us ! i) (us ! k)) \<and> (\<forall>k. i < k \<longrightarrow> k < en \<longrightarrow> \<not> lt (us ! k) (us ! i))"
proof -
  define mid where "mid = st + (en - st) div 2"
  define e where "e = en - 2"
  obtain p ys where m: "median lt st mid en xs = (p, ys)" by (cases "median lt st mid en xs")
  define zs where "zs = ys[mid := ys ! e]"
  obtain ws where w: "partition_loop lt p (Suc st) e zs = (i, ws)" and us: "us = ws[e := ws ! i, i := p]"
    using assms(3) m by (auto simp: partition_range_def Let_def mid_def e_def zs_def split: prod.splits)
  have b: "st < mid" "mid < e" "en - 1 = Suc e" "Suc st < e" "e < length xs" "mid < en - 1" "Suc e < length xs" "en = Suc (Suc e)"
    using assms(1,2) by (auto simp: mid_def e_def)
  note md = median_rearranges [OF b(1,6) assms(2) m] median_ordered [OF b(1,6) assms(2) m]
  have len: "length ys = length xs" "length zs = length xs" using md by (simp_all add: zs_def)
  have asymp: "asymp lt" using asym by (blast intro: asympI)
  have pt: "partitioned lt p (Suc st) e zs (i, ws)"
    using partition_loop_spec [of "Suc st" e zs lt p] b len w by simp
  then have q: "Suc st \<le> i" "i \<le> e" "length ws = length zs" "mset ws = mset zs" "\<And>k. k < Suc st \<or> e \<le> k \<Longrightarrow> ws ! k = zs ! k"
    "\<And>k. Suc st \<le> k \<Longrightarrow> k < i \<Longrightarrow> \<not> lt p (ws ! k)" "\<And>k. i \<le> k \<Longrightarrow> k < e \<Longrightarrow> \<not> lt (ws ! k) p"
    using asymp by (auto simp: partitioned_def)
  have ends: "ws ! st = ys ! st" "ws ! Suc e = ys ! Suc e" using q(5) [of st] q(5) [of "Suc e"] b by (auto simp: zs_def)
  have u: "us ! k = (if k = i then p else if k = e then ws ! i else ws ! k)" for k
    using b q(2,3) len by (auto simp: us nth_list_update)
  have "mset (ws[e := p]) = mset (zs[e := p])" using b len q(3,4) q(5) [of e] by (simp add: mset_update)
  also have "zs[e := p] = swap mid e (ys[mid := p])" using b len by (auto simp: zs_def swap_def list_eq_iff_nth_eq nth_list_update)
  also have "mset \<dots> = mset xs" using md b len by (simp add: rearranged_def)
  finally have "mset (ws[e := p]) = mset xs" .
  moreover have "us = swap i e (ws[e := p])" using b len q(2,3) by (auto simp: us swap_def list_eq_iff_nth_eq nth_list_update)
  ultimately have "mset us = mset xs" "length us = length xs" using b q(2,3) len by simp_all
  moreover have "us ! k = xs ! k" if "k < st \<or> en \<le> k" for k
    using that u [of k] q(1,2) q(5) [of k] md b by (auto simp: zs_def)
  ultimately have "rearranged st en xs us" by (simp add: rearranged_def)
  moreover have "\<not> lt (us ! i) (us ! k)" if "st \<le> k" "k < i" for k
    using that u [of k] u [of i] q(2) q(6) [of k] ends(1) md by (cases "k = st") auto
  moreover have "\<not> lt (us ! k) (us ! i)" if "i < k" "k < en" for k
  proof -
    have "k < e \<or> k = e \<or> k = Suc e" using that b by linarith
    then show ?thesis using that u [of k] u [of i] q(7) [of k] q(7) [of i] ends(2) md b by auto
  qed
  ultimately show ?thesis by blast
qed

lemma sorted_join:
  assumes "sorted_range lt st i ys" and "sorted_range lt (Suc i) en ys"
    and "\<And>k. st \<le> k \<Longrightarrow> k < i \<Longrightarrow> \<not> lt (ys ! i) (ys ! k)" and "\<And>k. i < k \<Longrightarrow> k < en \<Longrightarrow> \<not> lt (ys ! k) (ys ! i)"
  shows "sorted_range lt st en ys"
  unfolding sorted_range_def
proof (intro allI impI)
  fix k l assume kl: "st \<le> k" "k < l" "l < en"
  consider "l < i" | "l = i" | "k < i" "i < l" | "k = i" | "i < k" using kl by linarith
  then show "\<not> lt (ys ! l) (ys ! k)"
  proof cases
    case 3
    then show ?thesis using assms(3) [of k] assms(4) [of l] kl negtrans by blast
  qed (use assms kl in \<open>auto simp: sorted_range_def\<close>)
qed

text \<open>The two halves of a partitioned range can be sorted in either order.\<close>

lemma halves_sorted:
  assumes "rearranged st1 en1 us vs" and "rearranged st2 en2 vs ys" and "en \<le> length us"
    and "st1 = st \<and> en1 = i \<and> st2 = Suc i \<and> en2 = en \<or> st1 = Suc i \<and> en1 = en \<and> st2 = st \<and> en2 = i"
    and "st < i" and "i < en" and sorted: "sorted_range lt st1 en1 vs" "sorted_range lt st2 en2 ys"
    and lo: "\<And>k. st \<le> k \<Longrightarrow> k < i \<Longrightarrow> \<not> lt (us ! i) (us ! k)" and hi: "\<And>k. i < k \<Longrightarrow> k < en \<Longrightarrow> \<not> lt (us ! k) (us ! i)"
  shows "rearranged st en us ys \<and> sorted_range lt st en ys"
proof -
  have len: "length vs = length us" using assms(1) by (simp add: rearranged_def)
  have piv: "ys ! i = us ! i" using assms(1,2,4-6) by (auto simp: rearranged_def)
  have same1: "ys ! k = vs ! k" if "st1 \<le> k" "k < en1" for k using assms(2,4) that by (auto simp: rearranged_def)
  have same2: "vs ! k = us ! k" if "st2 \<le> k" "k < en2" for k using assms(1,4) that by (auto simp: rearranged_def)
  have one: "P (ys ! k)" if "\<And>l. st1 \<le> l \<Longrightarrow> l < en1 \<Longrightarrow> P (us ! l)" "st1 \<le> k" "k < en1" for P k
    using all_range [OF assms(1), of P k] that same1 assms(3-6) by auto
  have two: "P (ys ! k)" if "\<And>l. st2 \<le> l \<Longrightarrow> l < en2 \<Longrightarrow> P (us ! l)" "st2 \<le> k" "k < en2" for P k
    using all_range [OF assms(2), of P k] that same2 assms(3-6) len by auto
  have l: "\<not> lt (ys ! i) (ys ! k)" if "st \<le> k" "k < i" for k
    using one [of "\<lambda>x. \<not> lt (us ! i) x" k] two [of "\<lambda>x. \<not> lt (us ! i) x" k] lo that assms(4) by (auto simp: piv)
  have h: "\<not> lt (ys ! k) (ys ! i)" if "i < k" "k < en" for k
    using one [of "\<lambda>x. \<not> lt x (us ! i)" k] two [of "\<lambda>x. \<not> lt x (us ! i)" k] hi that assms(4) by (auto simp: piv)
  have "sorted_range lt st1 en1 ys" using sorted(1) same1 by (auto simp: sorted_range_def)
  then have "sorted_range lt st en ys" using sorted_join [of st i ys en] sorted(2) l h assms(4) by auto
  moreover have "rearranged st en us vs" using assms(1,4-6) by (auto simp: rearranged_def)
  then have "rearranged st en us ys" using rearranged_trans [OF _ assms(2)] assms(4-6) by auto
  ultimately show ?thesis by blast
qed

lemma quicksort_sorts:
  "en \<le> length xs \<Longrightarrow> rearranged st en xs (quicksort lt st en xs) \<and> sorted_range lt st en (quicksort lt st en xs)"
proof (induction "en - st" arbitrary: st en xs rule: less_induct)
  case less
  show ?case
  proof (cases "10 < en - st")
    case False
    then show ?thesis using insertionsort_sorts [OF less.prems] by (simp add: quicksort.simps)
  next
    case True
    obtain i us where p: "partition_range lt st en xs = (i, us)" by (cases "partition_range lt st en xs")
    have b: "st < i" "Suc i < en" using partition_range_bounds [OF True, of lt xs] p by auto
    have r: "rearranged st en xs us" "\<And>k. st \<le> k \<Longrightarrow> k < i \<Longrightarrow> \<not> lt (us ! i) (us ! k)" "\<And>k. i < k \<Longrightarrow> k < en \<Longrightarrow> \<not> lt (us ! k) (us ! i)"
      using partition_range_sorts [OF True less.prems p] by auto
    have len: "length us = length xs" using r(1) by (simp add: rearranged_def)
    have lo: "rearranged st i zs (quicksort lt st i zs) \<and> sorted_range lt st i (quicksort lt st i zs)" if "length zs = length xs" for zs
      using less.hyps [of i st zs] b less.prems that by simp
    have hi: "rearranged (Suc i) en zs (quicksort lt (Suc i) en zs) \<and> sorted_range lt (Suc i) en (quicksort lt (Suc i) en zs)"
      if "length zs = length xs" for zs
      using less.hyps [of en "Suc i" zs] b less.prems that by simp
    have "rearranged st en us (quicksort lt st en xs) \<and> sorted_range lt st en (quicksort lt st en xs)"
    proof (cases "i - st < en - (i + 1)")
      case short: True
      have "quicksort lt st en xs = quicksort lt (Suc i) en (quicksort lt st i us)"
        using True p short by (subst quicksort.simps) simp
      then show ?thesis using lo [OF len] hi [of "quicksort lt st i us"] len b less.prems r(2,3)
        by (intro halves_sorted [of st i us "quicksort lt st i us" "Suc i" en _ en st i]) (auto simp: rearranged_def)
    next
      case long: False
      have "quicksort lt st en xs = quicksort lt st i (quicksort lt (Suc i) en us)"
        using True p long by (subst quicksort.simps) simp
      then show ?thesis using hi [OF len] lo [of "quicksort lt (Suc i) en us"] len b less.prems r(2,3)
        by (intro halves_sorted [of "Suc i" en us "quicksort lt (Suc i) en us" st i _ en st i]) (auto simp: rearranged_def)
    qed
    then show ?thesis using rearranged_trans [OF r(1)] by blast
  qed
qed

end

subsection \<open>The comparison of team scores\<close>

text \<open>\<^verbatim>\<open>strcmp(s, t) < 0\<close>, and \<^verbatim>\<open>teamscore::compare\<close> of \<^verbatim>\<open>fpsgame/game.h\<close>: the higher score first, and the
  names in their order where the scores are equal.\<close>

fun strless :: "cstr \<Rightarrow> cstr \<Rightarrow> bool" where
  "strless [] t = (t \<noteq> [])"
| "strless (c # s) [] = False"
| "strless (c # s) (d # t) = (of_char c < (of_char d :: nat) \<or> c = d \<and> strless s t)"

definition teamscore_less :: "cstr \<times> int \<Rightarrow> cstr \<times> int \<Rightarrow> bool" where
  "teamscore_less x y \<longleftrightarrow> snd x > snd y \<or> snd x = snd y \<and> strless (fst x) (fst y)"

lemma strless_irrefl [simp]: "\<not> strless s s"
  by (induction s) simp_all

lemma strless_Nil [simp]: "\<not> strless s []"
  by (cases s) simp_all

lemma strless_asym: "strless s t \<Longrightarrow> \<not> strless t s"
  by (induction s t rule: strless.induct) auto

lemma strless_trans: "strless s t \<Longrightarrow> strless t u \<Longrightarrow> strless s u"
proof (induction s t arbitrary: u rule: strless.induct)
  case (1 t)
  then show ?case by (cases u; cases t) auto
next
  case (3 c s d t)
  then show ?case by (cases u) auto
qed simp

lemma strless_total: "strless s t \<or> s = t \<or> strless t s"
proof (induction s t rule: strless.induct)
  case (1 t)
  then show ?case by (cases t) auto
next
  case (3 c s d t)
  have "of_char c < (of_char d :: nat) \<or> of_char d < (of_char c :: nat) \<or> c = d" by (metis of_char_eq_iff linorder_neqE_nat)
  then show ?case using 3 by auto
qed simp

lemma teamscore_less_trans: "teamscore_less x y \<Longrightarrow> teamscore_less y z \<Longrightarrow> teamscore_less x z"
  by (auto simp: teamscore_less_def dest: strless_trans)

lemma teamscore_less_total: "teamscore_less x y \<or> x = y \<or> teamscore_less y x"
  using strless_total [of "fst x" "fst y"] by (auto simp: teamscore_less_def prod_eq_iff)

lemma teamscore_less_asym: "teamscore_less x y \<Longrightarrow> \<not> teamscore_less y x"
  by (auto simp: teamscore_less_def dest: strless_asym)

interpretation team_order: weak_order teamscore_less
proof
  show "\<not> teamscore_less x z" if "\<not> teamscore_less x y" "\<not> teamscore_less y z" for x y z
    using that by (metis teamscore_less_asym teamscore_less_total teamscore_less_trans)
qed (rule teamscore_less_asym)

lemma weak_order_less: "weak_order ((<) :: 'a :: linorder \<Rightarrow> 'a \<Rightarrow> bool)"
  by unfold_locales auto

subsection \<open>Properties\<close>

lemma sorted_range_sorted_wrt: "sorted_range lt 0 (length xs) xs \<Longrightarrow> sorted_wrt (\<lambda>x y. \<not> lt y x) xs"
  by (simp add: sorted_range_def sorted_wrt_iff_nth_less)

lemma vector_sort_spec:
  assumes "weak_order lt"
  shows "mset (vector_sort lt xs) = mset xs" and "sorted_wrt (\<lambda>x y. \<not> lt y x) (vector_sort lt xs)"
proof -
  have "rearranged 0 (length xs) xs (vector_sort lt xs)" "sorted_range lt 0 (length xs) (vector_sort lt xs)"
    using weak_order.quicksort_sorts [OF assms, of "length xs" xs 0] by (simp_all add: vector_sort_def)
  then show "mset (vector_sort lt xs) = mset xs" "sorted_wrt (\<lambda>x y. \<not> lt y x) (vector_sort lt xs)"
    using sorted_range_sorted_wrt [of lt "vector_sort lt xs"] by (simp_all add: rearranged_def)
qed

text \<open>C35: \<^verbatim>\<open>vector::sort\<close> is correct for every comparison that is a strict weak order: the result has the same
  elements, each as often as before, and no element is smaller than one in front of it. The median of
  three, the partition loop with its sentinels, the order in which the halves are sorted and the hand-over to
  insertion sort are the ones of the code.\<close>

theorem vector_sort_correct:
  assumes "weak_order lt"
  shows "mset (vector_sort lt xs) = mset xs \<and> sorted_wrt (\<lambda>x y. \<not> lt y x) (vector_sort lt xs)"
  using vector_sort_spec [OF assms] by blast

theorem vector_sort_correct_witness:
  "vector_sort teamscore_less [(''evil'', 3), (''good'', 7), (''blue'', 3)] = [(''good'', 7), (''blue'', 3), (''evil'', 3)]
    \<and> sorted_wrt (\<lambda>x y. \<not> teamscore_less y x) (vector_sort teamscore_less (map (\<lambda>n. (''t'', 7 * n mod 13)) [0..12]))"
proof
  show "vector_sort teamscore_less [(''evil'', 3), (''good'', 7), (''blue'', 3)] = [(''good'', 7), (''blue'', 3), (''evil'', 3)]"
    by code_simp
  show "sorted_wrt (\<lambda>x y. \<not> teamscore_less y x) (vector_sort teamscore_less (map (\<lambda>n. (''t'', 7 * n mod 13)) [0..12]))"
    using vector_sort_correct [OF team_order.weak_order_axioms] by blast
qed

text \<open>For a total order the routine is the sorting function of the library.\<close>

lemma vector_sort_sort: "vector_sort (<) xs = sort (xs :: 'a :: linorder list)"
proof (rule properties_for_sort [symmetric])
  show "mset (vector_sort (<) xs) = mset xs" "sorted (vector_sort (<) xs)"
    using vector_sort_spec [OF weak_order_less, of xs] by (simp_all add: not_less)
qed

end
