(* ===== verification/Aiman.thy ===== *)
theory Aiman
  imports Spawn Sorting
begin

text \<open>
  The management of bots, from \<^verbatim>\<open>src/src/fpsgame/aiman.h\<close>. A bot is a client without a connection: its number is
  \<^verbatim>\<open>MAXCLIENTS\<close> plus its slot in the table \<open>bots\<close>, and a client that plays, its owner, runs it. The theory has every
  function of the file; \<open>reassign_all\<close> is the loop \<^verbatim>\<open>while(reassignai());\<close>, a partial function in the option
  type. The proofs are in the theory \<open>Bots\<close>.
\<close>

subsection \<open>Teams of bots\<close>

text \<open>A \<^verbatim>\<open>teamscore\<close> does not own its name: \<^verbatim>\<open>team\<close> points into the record of the first client that was counted for
  the team, or to a constant. The name is what is found there when it is read.\<close>

datatype teamref = TeamOf int | TeamName cstr

fun team_name :: "'a world_scheme \<Rightarrow> teamref \<Rightarrow> cstr" where
  "team_name w (TeamOf cn) = ci_team (client cn w)"
| "team_name w (TeamName s) = s"

type_synonym refscore = "teamref \<times> int"

fun count_member :: "'a world_scheme \<Rightarrow> clientinfo \<Rightarrow> refscore list \<Rightarrow> refscore list" where
  "count_member w ci [] = [(TeamOf (ci_clientnum ci), 1)]"
| "count_member w ci ((r, n) # ts) = (if team_name w r = ci_team ci then (r, n + 1) # ts else (r, n) # count_member w ci ts)"

definition ref_less :: "'a world_scheme \<Rightarrow> refscore \<Rightarrow> refscore \<Rightarrow> bool" where
  "ref_less w x y = teamscore_less (team_name w (fst x), snd x) (team_name w (fst y), snd y)"

definition count_teams :: "'a world_scheme \<Rightarrow> refscore list" where
  "count_teams w = fold (\<lambda>ci ts. if gs_state (ci_state ci) = CS_SPECTATOR \<or> ci_team ci = [] then ts else count_member w ci ts) (clients w) []"

definition calcteams :: "'a world_scheme \<Rightarrow> refscore list" where
  "calcteams w =
     (let teams = vector_sort (ref_less w) (count_teams w)
      in if length teams < 2
         then fold (\<lambda>d ts. if d \<in> set (map (\<lambda>t. team_name w (fst t)) ts) then ts else ts @ [(TeamName d, 0)]) [''good'', ''evil''] teams
         else teams)"

text \<open>\<^verbatim>\<open>copystring\<close> into the buffer of a team name.\<close>

abbreviation (input) MAXTEAMLEN :: nat where "MAXTEAMLEN \<equiv> 4"

definition copyteam :: "cstr \<Rightarrow> cstr" where
  "copyteam s = take MAXTEAMLEN s"

text \<open>The inner loop of \<^verbatim>\<open>balanceteams\<close> moves the team that got a player up, \<open>j\<close> places from the front.\<close>

fun bubble :: "nat \<Rightarrow> refscore list \<Rightarrow> refscore list" where
  "bubble 0 ts = ts"
| "bubble (Suc j) ts = (if snd (ts ! j) \<ge> snd (ts ! Suc j) then ts else bubble j (swap j (Suc j) ts))"

definition reteam_bot :: "'a smode \<Rightarrow> int \<Rightarrow> teamref \<Rightarrow> 'a world_scheme \<Rightarrow> 'a world_scheme" where
  "reteam_bot sm b t w =
     (let w = (if gs_state (cstate b w) = CS_ALIVE then smode_changeteam sm b (ci_team (client b w)) (team_name w t) w else w);
          oldteam = copyteam (ci_team (client b w)); newteam = copyteam (team_name w t);
          w = upd_client b (\<lambda>ci. ci\<lparr>ci_team := newteam\<rparr>) w;
          w = emit (sendf (- 1) 1 [MI N_SETTEAM, MI b, MS newteam, MI 0]) w
      in emit (Event ''reteam'' [MI b, MS (utf8 w oldteam), MS (utf8 w newteam)]) w)"

definition take_player :: "refscore list \<Rightarrow> refscore list" where
  "take_player ts =
     (let ts = ts[0 := (fst (ts ! 0), snd (ts ! 0) - 1)]; l = length ts - 1; ts = ts[l := (fst (ts ! l), snd (ts ! l) + 1)]
      in bubble l ts)"

lemma length_bubble [simp]: "length (bubble j ts) = length ts"
  by (induction j arbitrary: ts) (simp_all add: swap_def)

lemma length_take_player [simp]: "length (take_player ts) = length ts"
  by (simp add: take_player_def Let_def)

definition first_index :: "('a \<Rightarrow> bool) \<Rightarrow> 'a list \<Rightarrow> nat option" where
  "first_index P xs = find (\<lambda>i. P (xs ! i)) [0..<length xs]"

lemma first_index_Some: "first_index P xs = Some i \<Longrightarrow> i < length xs \<and> P (xs ! i)"
  by (auto simp: first_index_def find_Some_iff)

lemma first_index_None: "first_index P xs = None \<longleftrightarrow> (\<forall>x \<in> set xs. \<not> P x)"
  by (auto simp: first_index_def find_None_iff set_conv_nth)

text \<open>The reference \<^verbatim>\<open>t\<close> of the loop is to the last place of the vector, whatever team is there after the inner loop.\<close>

function (sequential) balance_loop :: "'a smode \<Rightarrow> int list \<Rightarrow> refscore list \<Rightarrow> 'a world_scheme \<Rightarrow> 'a world_scheme" where
  "balance_loop sm bs ts w =
     (if bs = [] \<or> ts = [] \<or> snd (hd ts) \<le> snd (last ts) + 1 then w
      else case first_index (\<lambda>b. ci_team (client b w) = team_name w (fst (hd ts))) bs of
             None \<Rightarrow> balance_loop sm bs (tl ts) w
           | Some i \<Rightarrow> balance_loop sm (remove_unordered i bs) (take_player ts) (reteam_bot sm (bs ! i) (fst (last (take_player ts))) w))"
  by pat_completeness auto
termination
  by (relation "measure (\<lambda>(sm, bs, ts, w). length bs + length ts)") auto

declare balance_loop.simps [simp del]

definition balanceteams :: "'a smode \<Rightarrow> 'a world_scheme \<Rightarrow> 'a world_scheme" where
  "balanceteams sm w = balance_loop sm (map the (filter (\<lambda>b. b \<noteq> None) (bots w))) (calcteams w) w"

definition chooseteam :: "'a world_scheme \<Rightarrow> cstr" where
  "chooseteam w = (let teams = calcteams w in if teams = [] then [] else team_name w (fst (last teams)))"

subsection \<open>Owners\<close>

text \<open>\<^verbatim>\<open>getclientinfo\<close> of the engine: the client in a slot of its table.\<close>

definition getclientinfo :: "int \<Rightarrow> 'a world_scheme \<Rightarrow> clientinfo option" where
  "getclientinfo i w = find (\<lambda>ci. aitype (ci_state ci) = AI_NONE \<and> ci_n ci = i) (roster w)"

definition validaiclient :: "clientinfo \<Rightarrow> bool" where
  "validaiclient ci \<longleftrightarrow> ci_clientnum ci \<ge> 0 \<and> aitype (ci_state ci) = AI_NONE
     \<and> (gs_state (ci_state ci) \<noteq> CS_SPECTATOR \<or> ci_local ci \<or> (ci_privilege ci \<noteq> 0 \<and> \<not> ci_warned ci)) \<and> \<not> ci_spy ci"

definition fewer :: "clientinfo \<Rightarrow> clientinfo option \<Rightarrow> clientinfo option" where
  "fewer ci least = (case least of None \<Rightarrow> Some ci | Some l \<Rightarrow> if length (ci_bots ci) < length (ci_bots l) then Some ci else Some l)"

definition more_bots :: "clientinfo \<Rightarrow> clientinfo option \<Rightarrow> clientinfo option" where
  "more_bots ci most = (case most of None \<Rightarrow> Some ci | Some m \<Rightarrow> if length (ci_bots ci) > length (ci_bots m) then Some ci else Some m)"

definition findaiclient :: "int option \<Rightarrow> 'a world_scheme \<Rightarrow> clientinfo option" where
  "findaiclient exclude w = fold fewer (filter (\<lambda>ci. validaiclient ci \<and> Some (ci_clientnum ci) \<noteq> exclude) (clients w)) None"

text \<open>\<open>ownernum_of\<close> is \<^verbatim>\<open>owner ? owner->clientnum : -1\<close>.\<close>

definition ownernum_of :: "clientinfo option \<Rightarrow> int" where
  "ownernum_of owner = (case owner of Some o' \<Rightarrow> ci_clientnum o' | None \<Rightarrow> - 1)"

definition add_bot :: "int \<Rightarrow> clientinfo option \<Rightarrow> 'a world_scheme \<Rightarrow> 'a world_scheme" where
  "add_bot b owner w = (case owner of
     Some o' \<Rightarrow> upd_client (ci_clientnum o') (\<lambda>ci. ci\<lparr>ci_bots := ci_bots ci @ [b]\<rparr>) w | None \<Rightarrow> w)"

definition remove_bot :: "int \<Rightarrow> clientinfo option \<Rightarrow> 'a world_scheme \<Rightarrow> 'a world_scheme" where
  "remove_bot b owner w = (case owner of
     Some o' \<Rightarrow> upd_client (ci_clientnum o') (\<lambda>ci. ci\<lparr>ci_bots := removeAll b (ci_bots ci)\<rparr>) w | None \<Rightarrow> w)"

subsection \<open>Adding and deleting bots\<close>

text \<open>A slot is free when it is empty or its bot has no owner any more.\<close>

definition slot_free :: "'a world_scheme \<Rightarrow> int option \<Rightarrow> bool" where
  "slot_free w slot = (case slot of None \<Rightarrow> True | Some b \<Rightarrow> ci_ownernum (client b w) < 0)"

definition numai :: "'a world_scheme \<Rightarrow> int" where
  "numai w = int (length (filter (\<lambda>slot. \<not> slot_free w slot) (bots w)))"

definition maxai :: "int \<Rightarrow> int" where
  "maxai limit = (if limit \<ge> 0 then min limit MAXBOTS else MAXBOTS)"

definition new_bot :: "int \<Rightarrow> cstr \<Rightarrow> clientinfo option \<Rightarrow> int \<Rightarrow> int \<Rightarrow> int \<Rightarrow> 'a world_scheme \<Rightarrow> clientinfo" where
  "new_bot cn team owner skl model r w =
     ci_new\<lparr>ci_clientnum := cn, ci_ownernum := ownernum_of owner, ci_name := ''bot'', ci_team := copyteam team, ci_playermodel := model,
       ci_aireinit := 2, ci_connected := True, ci_playerid := next_botid w,
       ci_sessionid := (r * (totalmillis w mod 10000 + 1)) mod 16777216, ci_lastposupdate := totalmillis w,
       ci_state := (ci_state ci_new)\<lparr>aitype := AI_BOT, skill := skl, gs_lasttimeplayed := lastmillis w, gs_state := CS_DEAD\<rparr>\<rparr>"

definition draw_skill :: "int \<Rightarrow> 'a world_scheme \<Rightarrow> int \<times> 'a world_scheme" where
  "draw_skill sk w = (if sk \<le> 0 then let (r, w) = draw 50 w in (r + 51, w) else (clamp sk 1 101, w))"

text \<open>The result is the number of the client that \<^verbatim>\<open>addai\<close> returns.\<close>

definition create_ai :: "int \<Rightarrow> nat \<Rightarrow> 'a world_scheme \<Rightarrow> int option \<times> 'a world_scheme" where
  "create_ai sk i w =
     (let team = (if m_teammode (gamemode w) then chooseteam w else []);
          cn = MAXCLIENTS + int i; owner = findaiclient None w;
          w = add_bot cn owner (w\<lparr>bots := (bots w)[i := Some cn]\<rparr>);
          (skl, w) = draw_skill sk w; (model, w) = draw 128 w; (r, w) = draw 16777216 w;
          w = w\<lparr>clients := clients w @ [new_bot cn team owner skl model r w], next_botid := next_botid w - 1, dorefresh := True\<rparr>
      in (Some cn, emit (Event ''connect'' [MI cn, MI 0]) w))"

definition addai :: "int \<Rightarrow> int \<Rightarrow> 'a world_scheme \<Rightarrow> int option \<times> 'a world_scheme" where
  "addai sk limit w =
     (if numai w \<ge> maxai limit then (None, w)
      else case first_index (slot_free w) (bots w) of
             None \<Rightarrow> create_ai sk (length (bots w)) (w\<lparr>bots := bots w @ [None]\<rparr>)
           | Some i \<Rightarrow>
               case bots w ! i of
                 None \<Rightarrow> create_ai sk i w
               | Some b \<Rightarrow>
                   let owner = findaiclient None w;
                       w = upd_client b (\<lambda>ci. ci\<lparr>ci_ownernum := ownernum_of owner, ci_aireinit := 2\<rparr>) w
                   in (map_option ci_clientnum owner, w\<lparr>dorefresh := True\<rparr>))"

text \<open>A bot that its owner runs leaves the game before it goes.\<close>

definition leave_bot :: "'a smode \<Rightarrow> int \<Rightarrow> 'a world_scheme \<Rightarrow> 'a world_scheme" where
  "leave_bot sm cn w = (if ci_ownernum (client cn w) \<ge> 0 \<and> ci_aireinit (client cn w) = 0 then smode_leavegame sm cn True w else w)"

definition deleteai :: "'a smode \<Rightarrow> int \<Rightarrow> 'a world_scheme \<Rightarrow> 'a world_scheme" where
  "deleteai sm cn w =
     (let i = cn - MAXCLIENTS
      in if \<not> inrange i (bots w) then w
         else let w = leave_bot sm cn w;
                  w = emit (sendf (- 1) 1 [MI N_CDIS, MI cn]) w;
                  w = emit (Event ''botleft'' [MI cn]) w;
                  w = remove_bot cn (getclientinfo (ci_ownernum (client cn w)) w) w;
                  w = w\<lparr>clients := filter (\<lambda>ci. ci_clientnum ci \<noteq> cn) (clients w)\<rparr>;
                  w = emit (Event ''disconnect'' [MI cn, MS []]) w
              in w\<lparr>bots := (bots w)[nat i := None], dorefresh := True\<rparr>)"

definition deleteai_last :: "'a smode \<Rightarrow> 'a world_scheme \<Rightarrow> bool \<times> 'a world_scheme" where
  "deleteai_last sm w = (case find (\<lambda>slot. \<not> slot_free w slot) (rev (bots w)) of
     Some (Some b) \<Rightarrow> (True, deleteai sm b w) | _ \<Rightarrow> (False, w))"

subsection \<open>Handing bots over\<close>

definition reinitai :: "'a smode \<Rightarrow> int \<Rightarrow> 'a world_scheme \<Rightarrow> 'a world_scheme option" where
  "reinitai sm cn w =
     (let ci = client cn w
      in if ci_ownernum ci < 0 then Some (deleteai sm cn w)
         else if ci_aireinit ci \<ge> 1
         then do {
           let w = emit (sendf (- 1) 1 [MI N_INITAI, MI cn, MI (ci_ownernum ci), MI (aitype (ci_state ci)), MI (skill (ci_state ci)),
                     MI (ci_playermodel ci), MS (ci_name ci), MS (ci_team ci)]) w;
           w \<leftarrow> (if ci_aireinit ci = 2
                 then let w = upd_client cn ci_reassign w
                      in if gs_state (cstate cn w) = CS_ALIVE then sendspawn cn w else Some (sendresume cn w)
                 else Some w);
           Some (upd_client cn (\<lambda>ci. ci\<lparr>ci_aireinit := 0\<rparr>) w)
         }
         else Some w)"

definition shiftai :: "'a smode \<Rightarrow> int \<Rightarrow> clientinfo option \<Rightarrow> 'a world_scheme \<Rightarrow> 'a world_scheme" where
  "shiftai sm cn owner w =
     (let w = leave_bot sm cn w;
          old = ci_ownernum (client cn w);
          w = remove_bot cn (getclientinfo old w) w;
          w = (case owner of
                 None \<Rightarrow> upd_client cn (\<lambda>ci. ci\<lparr>ci_aireinit := 0, ci_ownernum := - 1\<rparr>) w
               | Some o' \<Rightarrow>
                   if old \<noteq> ci_clientnum o'
                   then add_bot cn owner (upd_client cn (\<lambda>ci. ci\<lparr>ci_aireinit := 2, ci_ownernum := ci_clientnum o'\<rparr>) w)
                   else w)
      in w\<lparr>dorefresh := True\<rparr>)"

text \<open>\<^verbatim>\<open>removeai\<close>: the loop runs down the indices of a vector that shrinks as it goes.\<close>

fun remove_loop :: "'a smode \<Rightarrow> int \<Rightarrow> nat \<Rightarrow> 'a world_scheme \<Rightarrow> 'a world_scheme" where
  "remove_loop sm cn 0 w = w"
| "remove_loop sm cn (Suc i) w = remove_loop sm cn i (shiftai sm (ci_bots (client cn w) ! i) (findaiclient (Some cn) w) w)"

definition removeai :: "'a smode \<Rightarrow> int \<Rightarrow> 'a world_scheme \<Rightarrow> 'a world_scheme" where
  "removeai sm cn w = remove_loop sm cn (length (ci_bots (client cn w))) w"

definition reassignai :: "'a smode \<Rightarrow> 'a world_scheme \<Rightarrow> bool \<times> 'a world_scheme" where
  "reassignai sm w =
     (let valid = filter validaiclient (clients w)
      in case (fold more_bots valid None, fold fewer valid None) of
           (Some hi, Some lo) \<Rightarrow>
             if length (ci_bots hi) > length (ci_bots lo) + 1 then (True, shiftai sm (last (ci_bots hi)) (Some lo) w) else (False, w)
         | _ \<Rightarrow> (False, w))"

partial_function (option) reassign_all :: "'a smode \<Rightarrow> 'a world_scheme \<Rightarrow> 'a world_scheme option" where
  "reassign_all sm w = (let (again, w') = reassignai sm w in if again then reassign_all sm w' else Some w')"

subsection \<open>Checks and requests\<close>

fun reinit_loop :: "'a smode \<Rightarrow> nat \<Rightarrow> 'a world_scheme \<Rightarrow> 'a world_scheme option" where
  "reinit_loop sm 0 w = Some w"
| "reinit_loop sm (Suc i) w = do {
     w \<leftarrow> (case bots w ! i of Some b \<Rightarrow> reinitai sm b w | None \<Rightarrow> Some w);
     reinit_loop sm i w
   }"

definition checksetup :: "'a smode \<Rightarrow> 'a world_scheme \<Rightarrow> 'a world_scheme option" where
  "checksetup sm w =
     (let w = (if m_teammode (gamemode w) \<and> botbalance w then balanceteams sm w else w) in reinit_loop sm (length (bots w)) w)"

fun clear_loop :: "'a smode \<Rightarrow> nat \<Rightarrow> 'a world_scheme \<Rightarrow> 'a world_scheme" where
  "clear_loop sm 0 w = w"
| "clear_loop sm (Suc i) w = clear_loop sm i (case bots w ! i of Some b \<Rightarrow> deleteai sm b w | None \<Rightarrow> w)"

definition clearai :: "'a smode \<Rightarrow> 'a world_scheme \<Rightarrow> 'a world_scheme" where
  "clearai sm w = (clear_loop sm (length (bots w)) w)\<lparr>next_botid := - 2\<rparr>"

definition checkai :: "'a smode \<Rightarrow> 'a world_scheme \<Rightarrow> 'a world_scheme option" where
  "checkai sm w =
     (if \<not> dorefresh w then Some w
      else let w = w\<lparr>dorefresh := False\<rparr>
           in if m_botmode (gamemode w) \<and> numclients (- 1) False True False w \<noteq> 0
              then do { w \<leftarrow> checksetup sm w; reassign_all sm w }
              else Some (clearai sm w))"

definition reqadd :: "int \<Rightarrow> int \<Rightarrow> 'a world_scheme \<Rightarrow> 'a world_scheme" where
  "reqadd n sk w =
     (let ci = client n w
      in if \<not> ci_local ci \<and> ci_privilege ci = 0 then w
         else case addai sk (if \<not> ci_local ci \<and> ci_privilege ci < PRIV_ADMIN then botlimit w else - 1) w of
                (None, w) \<Rightarrow> emit (sendf n 1 [MI N_SERVMSG, MS ''failed to create or assign bot'']) w
              | (Some b, w) \<Rightarrow> emit (Event ''addbot'' [MI n, MI sk, MI b]) w)"

definition reqdel :: "'a smode \<Rightarrow> int \<Rightarrow> 'a world_scheme \<Rightarrow> 'a world_scheme" where
  "reqdel sm n w =
     (let ci = client n w
      in if \<not> ci_local ci \<and> ci_privilege ci = 0 then w
         else case deleteai_last sm w of
                (False, w) \<Rightarrow> emit (sendf n 1 [MI N_SERVMSG, MS ''failed to remove any bots'']) w
              | (True, w) \<Rightarrow> emit (Event ''delbot'' [MI n]) w)"

fun decimal :: "nat \<Rightarrow> string" where
  "decimal n = (if n < 10 then [char_of (48 + n)] else decimal (n div 10) @ [char_of (48 + n mod 10)])"

text \<open>The optional client is the one that asks; the server itself asks without one.\<close>

definition setbotlimit :: "int option \<Rightarrow> int \<Rightarrow> 'a world_scheme \<Rightarrow> 'a world_scheme" where
  "setbotlimit n limit w =
     (if case n of Some c \<Rightarrow> \<not> ci_local (client c w) \<and> ci_privilege (client c w) < PRIV_ADMIN | None \<Rightarrow> False then w
      else let w = w\<lparr>botlimit := clamp limit 0 MAXBOTS, dorefresh := True\<rparr>
           in emit (sendf (- 1) 1 [MI N_SERVMSG, MS (''bot limit is now '' @ decimal (nat (botlimit w)))]) w)"

definition setbotbalance :: "int option \<Rightarrow> bool \<Rightarrow> 'a world_scheme \<Rightarrow> 'a world_scheme" where
  "setbotbalance n balance w =
     (if case n of Some c \<Rightarrow> \<not> ci_local (client c w) \<and> ci_privilege (client c w) = 0 | None \<Rightarrow> False then w
      else emit (sendf (- 1) 1 [MI N_SERVMSG, MS (''bot team balancing is now '' @ (if balance then ''enabled'' else ''disabled''))])
             (w\<lparr>botbalance := balance, dorefresh := True\<rparr>))"

definition ai_changemap :: "'a world_scheme \<Rightarrow> 'a world_scheme" where
  "ai_changemap w =
     (let w = w\<lparr>dorefresh := True\<rparr>
      in if \<exists>ci \<in> set (clients w). ci_local ci \<or> ci_privilege ci \<noteq> 0 then w
         else if \<not> botbalance w then setbotbalance None True w else w)"

definition ai_addclient :: "int \<Rightarrow> 'a world_scheme \<Rightarrow> 'a world_scheme" where
  "ai_addclient cn w = (if aitype (cstate cn w) = AI_NONE then w\<lparr>dorefresh := True\<rparr> else w)"

definition ai_changeteam :: "int \<Rightarrow> 'a world_scheme \<Rightarrow> 'a world_scheme" where
  "ai_changeteam cn w = (if aitype (cstate cn w) = AI_NONE then w\<lparr>dorefresh := True\<rparr> else w)"

end
