(* ===== verification/Bots.thy ===== *)
theory Bots
  imports Aiman
begin

text \<open>
  What the management of bots keeps and achieves: the tables of bots and owners agree in every state that the
  operations lead to, the loop that spreads the bots over the players ends with nobody having two more than another,
  a bot that is added has a free number and the least busy owner, and balancing the teams.
\<close>

subsection \<open>The tables of bots and owners\<close>

text \<open>What the management of bots knows of a client.\<close>

record seat =
  s_num :: int
  s_slot :: int
  s_human :: bool
  s_spy :: bool
  s_valid :: bool
  s_owner :: int
  s_bots :: "int list"

definition seat :: "clientinfo \<Rightarrow> seat" where
  "seat ci = \<lparr>s_num = ci_clientnum ci, s_slot = ci_n ci, s_human = (aitype (ci_state ci) = AI_NONE), s_spy = ci_spy ci,
     s_valid = validaiclient ci, s_owner = ci_ownernum ci, s_bots = ci_bots ci\<rparr>"

abbreviation rows :: "'a world_scheme \<Rightarrow> seat list" where "rows w \<equiv> map seat (clients w)"
abbreviation lobby :: "'a world_scheme \<Rightarrow> seat list" where "lobby w \<equiv> map seat (connects w)"

lemma seat_sels [simp]:
  "s_num (seat ci) = ci_clientnum ci" "s_slot (seat ci) = ci_n ci" "s_human (seat ci) = (aitype (ci_state ci) = AI_NONE)"
  "s_spy (seat ci) = ci_spy ci" "s_valid (seat ci) = validaiclient ci" "s_owner (seat ci) = ci_ownernum ci" "s_bots (seat ci) = ci_bots ci"
  by (simp_all add: seat_def)

text \<open>Clients have the number of their slot, and bots that of their place in the table, which has an entry for each.
  A bot that a client lists as its own has that client as its owner, and no bot is listed twice.\<close>

definition seat_ok :: "int option list \<Rightarrow> seat \<Rightarrow> bool" where
  "seat_ok bs s =
     (if s_human s
      then 0 \<le> s_slot s \<and> s_slot s < MAXCLIENTS \<and> (\<not> s_spy s \<longrightarrow> s_num s = s_slot s)
        \<and> (s_spy s \<longrightarrow> s_num s \<ge> MAXCLIENTS + MAXBOTS \<and> s_bots s = [])
      else s_bots s = [] \<and> inrange (s_num s - MAXCLIENTS) bs \<and> bs ! nat (s_num s - MAXCLIENTS) = Some (s_num s))"

definition slots_ok :: "seat list \<Rightarrow> int option list \<Rightarrow> bool" where
  "slots_ok cs bs \<longleftrightarrow> int (length bs) \<le> MAXBOTS
     \<and> (\<forall>i < length bs. case bs ! i of None \<Rightarrow> True | Some b \<Rightarrow> b = MAXCLIENTS + int i \<and> b \<in> s_num ` set cs)"

definition listing_ok :: "seat list \<Rightarrow> seat \<Rightarrow> bool" where
  "listing_ok cs own \<longleftrightarrow> distinct (s_bots own)
     \<and> (\<forall>b \<in> set (s_bots own). \<exists>s \<in> set cs. s_num s = b \<and> \<not> s_human s \<and> s_owner s = s_num own)"

definition table_ok :: "seat list \<Rightarrow> seat list \<Rightarrow> int option list \<Rightarrow> bool" where
  "table_ok cs ns bs \<longleftrightarrow> distinct (map s_num (cs @ ns)) \<and> distinct (map s_slot (filter s_human (cs @ ns)))
     \<and> (\<forall>s \<in> set ns. s_human s) \<and> (\<forall>s \<in> set (cs @ ns). seat_ok bs s \<and> listing_ok cs s) \<and> slots_ok cs bs"

lemma table_okI:
  assumes "distinct (map s_num (cs @ ns))" "distinct (map s_slot (filter s_human (cs @ ns)))" "\<And>s. s \<in> set ns \<Longrightarrow> s_human s"
    and "\<And>s. s \<in> set (cs @ ns) \<Longrightarrow> seat_ok bs s" "\<And>s. s \<in> set (cs @ ns) \<Longrightarrow> listing_ok cs s" and "slots_ok cs bs"
  shows "table_ok cs ns bs"
  unfolding table_ok_def using assms by blast

lemma table_okD:
  assumes "table_ok cs ns bs"
  shows "distinct (map s_num (cs @ ns))" "distinct (map s_slot (filter s_human (cs @ ns)))" "s \<in> set ns \<Longrightarrow> s_human s"
    "s \<in> set (cs @ ns) \<Longrightarrow> seat_ok bs s" "s \<in> set (cs @ ns) \<Longrightarrow> listing_ok cs s" "slots_ok cs bs"
  using assms unfolding table_ok_def by blast+

definition bots_ok :: "'a world_scheme \<Rightarrow> bool" where
  "bots_ok w = table_ok (rows w) (lobby w) (bots w)"

definition unlisted :: "int \<Rightarrow> seat list \<Rightarrow> bool" where
  "unlisted b ss \<longleftrightarrow> (\<forall>s \<in> set ss. b \<notin> set (s_bots s))"

definition upd_rows :: "int \<Rightarrow> (seat \<Rightarrow> seat) \<Rightarrow> seat list \<Rightarrow> seat list" where
  "upd_rows n g = map (\<lambda>s. if s_num s = n then g s else s)"

definition list_bot :: "int \<Rightarrow> seat \<Rightarrow> seat" where "list_bot b s = s\<lparr>s_bots := s_bots s @ [b]\<rparr>"
definition unlist_bot :: "int \<Rightarrow> seat \<Rightarrow> seat" where "unlist_bot b s = s\<lparr>s_bots := removeAll b (s_bots s)\<rparr>"
definition own_bot :: "int \<Rightarrow> seat \<Rightarrow> seat" where "own_bot n s = s\<lparr>s_owner := n\<rparr>"

lemma row_op_sels [simp]:
  "s_num (list_bot b s) = s_num s" "s_slot (list_bot b s) = s_slot s" "s_human (list_bot b s) = s_human s" "s_spy (list_bot b s) = s_spy s"
  "s_owner (list_bot b s) = s_owner s" "s_bots (list_bot b s) = s_bots s @ [b]" "s_valid (list_bot b s) = s_valid s"
  "s_num (unlist_bot b s) = s_num s" "s_slot (unlist_bot b s) = s_slot s" "s_human (unlist_bot b s) = s_human s" "s_spy (unlist_bot b s) = s_spy s"
  "s_owner (unlist_bot b s) = s_owner s" "s_bots (unlist_bot b s) = removeAll b (s_bots s)" "s_valid (unlist_bot b s) = s_valid s"
  "s_num (own_bot n s) = s_num s" "s_slot (own_bot n s) = s_slot s" "s_human (own_bot n s) = s_human s" "s_spy (own_bot n s) = s_spy s"
  "s_owner (own_bot n s) = n" "s_bots (own_bot n s) = s_bots s" "s_valid (own_bot n s) = s_valid s"
  by (simp_all add: list_bot_def unlist_bot_def own_bot_def)

lemma upd_rows_append [simp]: "upd_rows n g (xs @ ys) = upd_rows n g xs @ upd_rows n g ys"
  by (simp add: upd_rows_def)

text \<open>Each change keeps the numbers, the slots and the kinds of the clients.\<close>

definition keeps_seat :: "(seat \<Rightarrow> seat) \<Rightarrow> bool" where
  "keeps_seat g \<longleftrightarrow> (\<forall>s. s_num (g s) = s_num s \<and> s_slot (g s) = s_slot s \<and> s_human (g s) = s_human s \<and> s_spy (g s) = s_spy s)"

lemma keeps_row_ops [simp]: "keeps_seat (list_bot b)" "keeps_seat (unlist_bot b)" "keeps_seat (own_bot n)"
  by (simp_all add: keeps_seat_def)

lemma upd_rows_nums:
  assumes "keeps_seat g"
  shows "map s_num (upd_rows n g ss) = map s_num ss" "map s_slot (filter s_human (upd_rows n g ss)) = map s_slot (filter s_human ss)"
  using assms by (induction ss) (auto simp: upd_rows_def keeps_seat_def)

lemma slots_ok_iff:
  "slots_ok cs bs \<longleftrightarrow> int (length bs) \<le> MAXBOTS
     \<and> (\<forall>i b. i < length bs \<longrightarrow> bs ! i = Some b \<longrightarrow> b = MAXCLIENTS + int i \<and> b \<in> s_num ` set cs)"
  by (auto simp: slots_ok_def split: option.splits)

lemma slots_ok_cong: "s_num ` set cs' = s_num ` set cs \<Longrightarrow> slots_ok cs' bs = slots_ok cs bs"
  by (simp only: slots_ok_def)

lemma upd_rows_cases:
  assumes "s \<in> set (upd_rows n g ss)"
  obtains s0 where "s0 \<in> set ss" "s = (if s_num s0 = n then g s0 else s0)"
  using assms unfolding upd_rows_def by auto

lemma upd_rows_table:
  assumes ok: "table_ok cs ns bs" and g: "keeps_seat g"
    and row: "\<And>s. s \<in> set (cs @ ns) \<Longrightarrow> s_num s = n \<Longrightarrow> seat_ok bs (g s)"
    and list: "\<And>s. s \<in> set (upd_rows n g (cs @ ns)) \<Longrightarrow> listing_ok (upd_rows n g cs) s"
  shows "table_ok (upd_rows n g cs) (upd_rows n g ns) bs"
proof (rule table_okI)
  show "distinct (map s_num (upd_rows n g cs @ upd_rows n g ns))" "distinct (map s_slot (filter s_human (upd_rows n g cs @ upd_rows n g ns)))"
    using table_okD(1,2) [OF ok] upd_rows_nums [OF g, of n "cs @ ns"] by (simp_all only: upd_rows_append)
  have "s_num ` set (upd_rows n g cs) = s_num ` set cs"
    using upd_rows_nums(1) [OF g, of n cs] by (metis set_map)
  from slots_ok_cong [OF this] table_okD(6) [OF ok] show "slots_ok (upd_rows n g cs) bs" by simp
next
  fix s assume "s \<in> set (upd_rows n g cs @ upd_rows n g ns)"
  then have s: "s \<in> set (upd_rows n g (cs @ ns))" by simp
  then show "listing_ok (upd_rows n g cs) s" by (rule list)
  from s obtain s0 where "s0 \<in> set (cs @ ns)" "s = (if s_num s0 = n then g s0 else s0)" by (rule upd_rows_cases)
  then show "seat_ok bs s" using table_okD(4) [OF ok] row by simp
next
  fix s assume "s \<in> set (upd_rows n g ns)"
  then show "s_human s" using g table_okD(3) [OF ok] by (auto elim!: upd_rows_cases simp: keeps_seat_def)
qed

lemma listing_mono:
  assumes "listing_ok cs s" and "s_num s' = s_num s" "distinct (s_bots s')" "set (s_bots s') \<subseteq> set (s_bots s)"
    and "\<And>r. r \<in> set cs \<Longrightarrow> s_num r \<in> set (s_bots s')
      \<Longrightarrow> \<exists>r' \<in> set cs'. s_num r' = s_num r \<and> s_human r' = s_human r \<and> s_owner r' = s_owner r"
  shows "listing_ok cs' s'"
  using assms unfolding listing_ok_def by (metis subsetD)

lemma upd_rows_in: "r \<in> set cs \<Longrightarrow> (if s_num r = n then g r else r) \<in> set (upd_rows n g cs)"
  by (simp add: upd_rows_def)

lemma upd_rows_keep:
  assumes "r \<in> set cs" and "keeps_seat g" and "s_num r = n \<Longrightarrow> s_owner (g r) = s_owner r"
  shows "\<exists>r' \<in> set (upd_rows n g cs). s_num r' = s_num r \<and> s_human r' = s_human r \<and> s_owner r' = s_owner r"
  by (rule bexI [OF _ upd_rows_in [OF assms(1)]]) (use assms(2,3) in \<open>simp add: keeps_seat_def\<close>)

text \<open>A list of bots may always be shortened; an unlisted bot may change hands; and a bot may be listed by its owner.\<close>

lemma unlist_table:
  assumes "table_ok cs ns bs"
  shows "table_ok (upd_rows n (unlist_bot b) cs) (upd_rows n (unlist_bot b) ns) bs"
proof (rule upd_rows_table [OF assms])
  fix s assume "s \<in> set (upd_rows n (unlist_bot b) (cs @ ns))"
  then obtain s0 where s0: "s0 \<in> set (cs @ ns)" "s = (if s_num s0 = n then unlist_bot b s0 else s0)" by (rule upd_rows_cases)
  moreover have "listing_ok cs s0" using table_okD(5) [OF assms s0(1)] .
  ultimately have "listing_ok cs s0" "distinct (s_bots s)" by (auto simp: listing_ok_def distinct_removeAll)
  then show "listing_ok (upd_rows n (unlist_bot b) cs) s"
    using s0(2) by (intro listing_mono [of cs s0 s] upd_rows_keep) auto
next
  fix s assume "s \<in> set (cs @ ns)"
  from table_okD(4) [OF assms this] show "seat_ok bs (unlist_bot b s)" by (simp add: seat_ok_def split: if_splits)
qed simp

lemma own_table:
  assumes "table_ok cs ns bs" and "unlisted b (cs @ ns)"
  shows "table_ok (upd_rows b (own_bot n) cs) (upd_rows b (own_bot n) ns) bs"
proof (rule upd_rows_table [OF assms(1)])
  fix s assume "s \<in> set (upd_rows b (own_bot n) (cs @ ns))"
  then obtain s0 where s0: "s0 \<in> set (cs @ ns)" "s = (if s_num s0 = b then own_bot n s0 else s0)" by (rule upd_rows_cases)
  moreover have "listing_ok cs s0" using table_okD(5) [OF assms(1) s0(1)] .
  ultimately have "listing_ok cs s0" "distinct (s_bots s)" by (auto simp: listing_ok_def)
  moreover have "b \<notin> set (s_bots s)" using s0 assms(2) by (auto simp: unlisted_def)
  ultimately show "listing_ok (upd_rows b (own_bot n) cs) s"
    using s0(2) by (intro listing_mono [of cs s0 s] upd_rows_keep) auto
next
  fix s assume "s \<in> set (cs @ ns)"
  from table_okD(4) [OF assms(1) this] show "seat_ok bs (own_bot n s)" by (simp add: seat_ok_def split: if_splits)
qed simp

lemma list_table:
  assumes "table_ok cs ns bs" and "unlisted b (cs @ ns)"
    and "r \<in> set cs" "s_num r = b" "\<not> s_human r" "s_owner r = n"
    and "\<And>s. s \<in> set (cs @ ns) \<Longrightarrow> s_num s = n \<Longrightarrow> s_human s \<and> \<not> s_spy s"
  shows "table_ok (upd_rows n (list_bot b) cs) (upd_rows n (list_bot b) ns) bs"
proof (rule upd_rows_table [OF assms(1)])
  fix s assume "s \<in> set (upd_rows n (list_bot b) (cs @ ns))"
  then obtain s0 where s0: "s0 \<in> set (cs @ ns)" "s = (if s_num s0 = n then list_bot b s0 else s0)" by (rule upd_rows_cases)
  have keep: "\<exists>r' \<in> set (upd_rows n (list_bot b) cs). s_num r' = s_num r \<and> s_human r' = s_human r \<and> s_owner r' = s_owner r"
    if "r \<in> set cs" for r using that by (rule upd_rows_keep) simp_all
  have "listing_ok cs s0" using table_okD(5) [OF assms(1) s0(1)] .
  then have "listing_ok (upd_rows n (list_bot b) cs) s0" by (rule listing_mono) (use keep \<open>listing_ok cs s0\<close> in \<open>auto simp: listing_ok_def\<close>)
  moreover have "b \<notin> set (s_bots s0)" using s0(1) assms(2) by (auto simp: unlisted_def)
  ultimately show "listing_ok (upd_rows n (list_bot b) cs) s"
    using s0(2) keep [OF assms(3)] assms(4-6) by (auto simp: listing_ok_def)
next
  fix s assume s: "s \<in> set (cs @ ns)" "s_num s = n"
  from table_okD(4) [OF assms(1) s(1)] assms(7) [OF s] show "seat_ok bs (list_bot b s)" by (simp add: seat_ok_def)
qed simp

lemma bot_number:
  assumes "table_ok cs ns bs" and "s \<in> set (cs @ ns)" and "i < length bs" and "s_num s = MAXCLIENTS + int i"
  shows "\<not> s_human s \<and> s \<in> set cs \<and> bs ! i = Some (s_num s)"
proof -
  have "int (length bs) \<le> MAXBOTS" using table_okD(6) [OF assms(1)] by (simp add: slots_ok_def)
  with table_okD(4) [OF assms(1,2)] assms(3,4) have "\<not> s_human s \<and> bs ! i = Some (s_num s)"
    by (auto simp: seat_ok_def split: if_splits)
  with assms(2) table_okD(3) [OF assms(1)] show ?thesis by auto
qed

lemma delete_table:
  assumes ok: "table_ok cs ns bs" and un: "unlisted b (cs @ ns)" and i: "i < length bs" and b: "b = MAXCLIENTS + int i"
  shows "table_ok (filter (\<lambda>s. s_num s \<noteq> b) cs) ns (bs[i := None])"
proof (rule table_okI)
  have flt: "filter s_human (filter P cs) = filter P (filter s_human cs)" for P by (induction cs) simp_all
  have d: "distinct (map f (filter P xs @ ys))" if "distinct (map f (xs @ ys))" for f :: "seat \<Rightarrow> int" and P xs ys
    using that by (induction xs) auto
  show "distinct (map s_num (filter (\<lambda>s. s_num s \<noteq> b) cs @ ns))" by (rule d [OF table_okD(1) [OF ok]])
  show "distinct (map s_slot (filter s_human (filter (\<lambda>s. s_num s \<noteq> b) cs @ ns)))"
    using d [of s_slot "filter s_human cs" "filter s_human ns"] table_okD(2) [OF ok] by (simp only: flt filter_append map_append)
next
  fix s assume s: "s \<in> set (filter (\<lambda>s. s_num s \<noteq> b) cs @ ns)"
  then have in_table: "s \<in> set (cs @ ns)" and ne: "s_num s \<noteq> b"
    using bot_number [OF ok _ i] table_okD(3) [OF ok] b by auto
  from table_okD(4) [OF ok in_table] ne b show "seat_ok (bs[i := None]) s"
    by (auto simp: seat_ok_def inrange_def nth_list_update split: if_splits)
  show "listing_ok (filter (\<lambda>s. s_num s \<noteq> b) cs) s"
  proof (rule listing_mono [OF table_okD(5) [OF ok in_table] refl])
    fix r assume r: "r \<in> set cs" "s_num r \<in> set (s_bots s)"
    then have "s_num r \<noteq> b" using un in_table by (auto simp: unlisted_def)
    with r(1) show "\<exists>r' \<in> set (filter (\<lambda>s. s_num s \<noteq> b) cs). s_num r' = s_num r \<and> s_human r' = s_human r \<and> s_owner r' = s_owner r"
      by (intro bexI [of _ r]) simp_all
  qed (use table_okD(5) [OF ok in_table] in \<open>simp_all add: listing_ok_def\<close>)
next
  show "slots_ok (filter (\<lambda>s. s_num s \<noteq> b) cs) (bs[i := None])"
    using table_okD(6) [OF ok] b i by (fastforce simp: slots_ok_iff nth_list_update split: if_splits)
qed (use table_okD(3) [OF ok] in simp)

lemma create_table:
  assumes ok: "table_ok cs ns bs" and i: "i < length bs" "bs ! i = None"
    and r: "s_num r = MAXCLIENTS + int i" "\<not> s_human r" "s_bots r = []"
  shows "table_ok (cs @ [r]) ns (bs[i := Some (s_num r)])"
proof (rule table_okI)
  have new: "s_num s \<noteq> s_num r" if "s \<in> set (cs @ ns)" for s using bot_number [OF ok that i(1)] i(2) r(1) by auto
  then show "distinct (map s_num ((cs @ [r]) @ ns))" using table_okD(1) [OF ok] by force
  show "distinct (map s_slot (filter s_human ((cs @ [r]) @ ns)))" using table_okD(2) [OF ok] r(2) by simp
next
  fix s assume s: "s \<in> set ((cs @ [r]) @ ns)"
  have lift: "listing_ok cs s' \<Longrightarrow> listing_ok (cs @ [r]) s'" for s' by (auto simp: listing_ok_def)
  show "seat_ok (bs[i := Some (s_num r)]) s"
  proof (cases "s = r")
    case True
    then show ?thesis using i r by (simp add: seat_ok_def inrange_def)
  next
    case False
    with s have "seat_ok bs s" using table_okD(4) [OF ok, of s] by auto
    then show ?thesis using i(2) r(1)
      by (cases "nat (s_num s - MAXCLIENTS) = i") (auto simp: seat_ok_def inrange_def split: if_splits)
  qed
  show "listing_ok (cs @ [r]) s"
    using s r(3) lift table_okD(5) [OF ok, of s] by (auto simp: listing_ok_def)
next
  show "slots_ok (cs @ [r]) (bs[i := Some (s_num r)])"
    using table_okD(6) [OF ok] r(1) i(1) by (auto simp: slots_ok_def nth_list_update split: option.splits)
qed (use table_okD(3) [OF ok] in simp)

lemma extend_table:
  assumes ok: "table_ok cs ns bs" and "int (length bs) < MAXBOTS"
  shows "table_ok cs ns (bs @ [None])"
proof (rule table_okI [OF table_okD(1,2,3) [OF ok]])
  fix s assume "s \<in> set (cs @ ns)"
  from table_okD(4,5) [OF ok this] show "seat_ok (bs @ [None]) s" "listing_ok cs s"
    by (auto simp: seat_ok_def inrange_def nth_append split: if_splits)
next
  show "slots_ok cs (bs @ [None])" using table_okD(6) [OF ok] assms(2) by (auto simp: slots_ok_def nth_append less_Suc_eq)
qed simp_all

subsection \<open>The operations on the tables\<close>

lemma rows_upd_client:
  assumes "\<And>ci. seat (f ci) = g (seat ci)"
  shows "rows (upd_client cn f w) = upd_rows cn g (rows w)" "lobby (upd_client cn f w) = upd_rows cn g (lobby w)"
  by (simp_all add: upd_client_def upd_rows_def assms)

lemma upd_rows_id [simp]: "upd_rows cn (\<lambda>s. s) ss = ss"
  by (simp add: upd_rows_def map_idI)

text \<open>An operation that no seat shows: everything but \<^verbatim>\<open>ownernum\<close> and \<^verbatim>\<open>bots\<close> may change.\<close>

definition unseen :: "'a world_scheme \<Rightarrow> 'a world_scheme \<Rightarrow> bool" where
  "unseen w' w \<longleftrightarrow> rows w' = rows w \<and> lobby w' = lobby w \<and> bots w' = bots w"

lemma unseen_refl [simp]: "unseen w w"
  by (simp add: unseen_def)

lemma unseen_trans: "unseen w3 w2 \<Longrightarrow> unseen w2 w1 \<Longrightarrow> unseen w3 w1"
  by (simp add: unseen_def)

lemma unseen_emit [simp]: "unseen (emit e w) w"
  by (simp add: unseen_def)

lemma unseen_client: "(\<And>ci. seat (f ci) = seat ci) \<Longrightarrow> unseen (upd_client cn f w) w"
  using rows_upd_client [of f "\<lambda>s. s" cn w] by (simp add: unseen_def)

lemma unseen_state:
  "(\<And>s. aitype (f s) = aitype s) \<Longrightarrow> (\<And>s. gs_state (f s) = gs_state s) \<Longrightarrow> unseen (upd_state cn f w) w"
  unfolding upd_state_def by (rule unseen_client) (simp add: seat_def validaiclient_def)

lemma seat_tokenless [simp]: "seat (tokenless ci) = seat ci"
  by (simp add: seat_def validaiclient_def tokenless_def)

lemma unseen_frame: "frame w' = frame w \<Longrightarrow> unseen w' w"
  using frame_map [of w' w seat] frame_fields(3) [of w' w] by (simp add: unseen_def)

lemma unseen_ok: "unseen w' w \<Longrightarrow> bots_ok w' = bots_ok w"
  by (simp add: unseen_def bots_ok_def)

lemma bots_ok_emit [simp]: "bots_ok (emit e w) = bots_ok w"
  by (simp add: bots_ok_def)

lemma seats_roster: "map seat (roster w) = rows w @ lobby w"
  by (simp add: roster_def)

lemma roster_distinct: "bots_ok w \<Longrightarrow> distinct (map ci_clientnum (roster w))"
  using table_okD(1) [of "rows w" "lobby w" "bots w"] by (simp add: bots_ok_def roster_def comp_def)

lemma bots_ok_client: "bots_ok w \<Longrightarrow> ci \<in> set (roster w) \<Longrightarrow> client (ci_clientnum ci) w = ci"
  by (rule distinct_client [OF roster_distinct])

lemma unseen_seat:
  fixes w :: "'a world_scheme"
  assumes "unseen w' w"
  shows "seat (client cn w') = seat (client cn w)"
proof (rule client_map_cong)
  have m: "map (\<lambda>ci. (ci_clientnum ci, seat ci)) (roster v) = map (\<lambda>s. (s_num s, s)) (rows v @ lobby v)" for v :: "'a world_scheme"
    by (simp add: roster_def)
  show "map (\<lambda>ci. (ci_clientnum ci, seat ci)) (roster w') = map (\<lambda>ci. (ci_clientnum ci, seat ci)) (roster w)"
    unfolding m using assms by (simp only: unseen_def)
qed

text \<open>The entries of the table are the bots among the clients.\<close>

lemma bot_entry:
  assumes "bots_ok w" and "Some b \<in> set (bots w)"
  obtains ci i where "ci \<in> set (clients w)" "ci_clientnum ci = b" "client b w = ci" "aitype (ci_state ci) \<noteq> AI_NONE"
    "i < length (bots w)" "bots w ! i = Some b" "b = MAXCLIENTS + int i"
proof -
  from assms(2) obtain i where i: "i < length (bots w)" "bots w ! i = Some b" by (auto simp: in_set_conv_nth)
  have ok: "table_ok (rows w) (lobby w) (bots w)" using assms(1) by (simp add: bots_ok_def)
  from table_okD(6) [OF ok] i have "b = MAXCLIENTS + int i \<and> b \<in> s_num ` set (rows w)" by (fastforce simp: slots_ok_def)
  then obtain ci where ci: "ci \<in> set (clients w)" "ci_clientnum ci = b" "b = MAXCLIENTS + int i" by auto
  have "aitype (ci_state ci) \<noteq> AI_NONE" using bot_number [OF ok, of "seat ci" i] ci i(1) by auto
  moreover have "client b w = ci" using bots_ok_client [OF assms(1), of ci] ci(1,2) by (simp add: roster_def)
  ultimately show thesis using that ci i by blast
qed

lemma getclientinfo_owner:
  assumes "bots_ok w" and "oi \<in> set (roster w)" "aitype (ci_state oi) = AI_NONE" "\<not> ci_spy oi"
  shows "getclientinfo (ci_clientnum oi) w = Some oi"
proof -
  let ?P = "\<lambda>ci. aitype (ci_state ci) = AI_NONE \<and> ci_n ci = ci_clientnum oi"
  have ok: "table_ok (rows w) (lobby w) (bots w)" using assms(1) by (simp add: bots_ok_def)
  have "seat oi \<in> set (rows w @ lobby w)" using assms(2) by (auto simp: roster_def)
  from table_okD(4) [OF ok this] assms(3,4) have n: "ci_n oi = ci_clientnum oi" by (simp add: seat_ok_def)
  then obtain c where c: "find ?P (roster w) = Some c"
    using assms(2,3) by (cases "find ?P (roster w)") (auto simp: find_None_iff)
  then have "c \<in> set (roster w)" "?P c" by (auto simp: find_Some_iff)
  moreover have "inj_on ci_n (set (filter (\<lambda>ci. aitype (ci_state ci) = AI_NONE) (roster w)))"
    using table_okD(2) [OF ok] by (simp add: seats_roster [symmetric] filter_map comp_def distinct_map del: map_append)
  ultimately have "c = oi" using assms(2,3) n by (auto simp: inj_on_def)
  with c show ?thesis by (simp add: getclientinfo_def)
qed

lemma seat_remove_bot: "seat (ci\<lparr>ci_bots := removeAll b (ci_bots ci)\<rparr>) = unlist_bot b (seat ci)"
  and seat_add_bot: "seat (ci\<lparr>ci_bots := ci_bots ci @ [b]\<rparr>) = list_bot b (seat ci)"
  and seat_own_bot: "seat (ci\<lparr>ci_ownernum := n, ci_aireinit := k\<rparr>) = own_bot n (seat ci)"
    "seat (ci\<lparr>ci_aireinit := k, ci_ownernum := n\<rparr>) = own_bot n (seat ci)"
  by (simp_all add: seat_def unlist_bot_def list_bot_def own_bot_def validaiclient_def)

lemma rows_remove_bot [simp]:
  "rows (remove_bot b (Some oi) w) = upd_rows (ci_clientnum oi) (unlist_bot b) (rows w)"
  "lobby (remove_bot b (Some oi) w) = upd_rows (ci_clientnum oi) (unlist_bot b) (lobby w)"
  "remove_bot b None w = w" "bots (remove_bot b owner w) = bots w"
  using rows_upd_client [of "\<lambda>ci. ci\<lparr>ci_bots := removeAll b (ci_bots ci)\<rparr>" "unlist_bot b" "ci_clientnum oi" w, OF seat_remove_bot]
  by (simp_all add: remove_bot_def split: option.split)

lemma rows_add_bot [simp]:
  "rows (add_bot b (Some oi) w) = upd_rows (ci_clientnum oi) (list_bot b) (rows w)"
  "lobby (add_bot b (Some oi) w) = upd_rows (ci_clientnum oi) (list_bot b) (lobby w)"
  "add_bot b None w = w" "bots (add_bot b owner w) = bots w"
  using rows_upd_client [of "\<lambda>ci. ci\<lparr>ci_bots := ci_bots ci @ [b]\<rparr>" "list_bot b" "ci_clientnum oi" w, OF seat_add_bot]
  by (simp_all add: add_bot_def split: option.split)

lemma rows_own_bot [simp]:
  "rows (upd_client b (\<lambda>ci. ci\<lparr>ci_ownernum := n, ci_aireinit := k\<rparr>) w) = upd_rows b (own_bot n) (rows w)"
  "lobby (upd_client b (\<lambda>ci. ci\<lparr>ci_ownernum := n, ci_aireinit := k\<rparr>) w) = upd_rows b (own_bot n) (lobby w)"
  "rows (upd_client b (\<lambda>ci. ci\<lparr>ci_aireinit := k, ci_ownernum := n\<rparr>) w) = upd_rows b (own_bot n) (rows w)"
  "lobby (upd_client b (\<lambda>ci. ci\<lparr>ci_aireinit := k, ci_ownernum := n\<rparr>) w) = upd_rows b (own_bot n) (lobby w)"
  by (rule rows_upd_client, rule seat_own_bot)+

text \<open>A client that lists a bot is found as its owner, so that taking the bot from its owner leaves it unlisted.\<close>

lemma lister_is_owner:
  assumes "bots_ok w" and "oi \<in> set (roster w)" and "b \<in> set (ci_bots oi)"
  shows "ci_ownernum (client b w) = ci_clientnum oi" "getclientinfo (ci_ownernum (client b w)) w = Some oi"
    "Some b \<in> set (bots w)" "aitype (ci_state oi) = AI_NONE" "\<not> ci_spy oi"
proof -
  have ok: "table_ok (rows w) (lobby w) (bots w)" using assms(1) by (simp add: bots_ok_def)
  have o_in: "seat oi \<in> set (rows w @ lobby w)" using assms(2) by (auto simp: roster_def)
  show human: "aitype (ci_state oi) = AI_NONE" "\<not> ci_spy oi"
    using table_okD(4) [OF ok o_in] assms(3) by (auto simp: seat_ok_def split: if_splits)
  from table_okD(5) [OF ok o_in] assms(3) obtain ci where ci: "ci \<in> set (clients w)" "ci_clientnum ci = b"
    "aitype (ci_state ci) \<noteq> AI_NONE" "ci_ownernum ci = ci_clientnum oi" by (fastforce simp: listing_ok_def)
  then have "client b w = ci" using bots_ok_client [OF assms(1), of ci] by (simp add: roster_def)
  then show own: "ci_ownernum (client b w) = ci_clientnum oi" using ci(4) by simp
  show "getclientinfo (ci_ownernum (client b w)) w = Some oi"
    unfolding own by (rule getclientinfo_owner [OF assms(1,2) human])
  from table_okD(4) [OF ok, of "seat ci"] ci show "Some b \<in> set (bots w)"
    by (auto simp: seat_ok_def inrange_def in_set_conv_nth intro!: exI [of _ "nat (b - MAXCLIENTS)"])
qed

lemma drop_listing:
  fixes b :: int
  assumes "bots_ok w"
  defines "w' \<equiv> remove_bot b (getclientinfo (ci_ownernum (client b w)) w) w"
  shows "bots_ok w'" "unlisted b (rows w' @ lobby w')" "bots w' = bots w"
proof -
  let ?o = "getclientinfo (ci_ownernum (client b w)) w"
  show "bots_ok w'" using assms(1) unlist_table [of "rows w" "lobby w" "bots w"]
    by (cases ?o) (simp_all add: w'_def bots_ok_def)
  have un: "b \<notin> set (s_bots s)" if s: "s \<in> set (rows w @ lobby w)" and ne: "\<And>oi. ?o = Some oi \<Longrightarrow> s_num s \<noteq> ci_clientnum oi" for s
  proof
    assume b: "b \<in> set (s_bots s)"
    from s obtain oi where oi: "oi \<in> set (roster w)" "s = seat oi" by (auto simp: roster_def)
    from lister_is_owner(2) [OF assms(1) oi(1), of b] b oi(2) ne show False by simp
  qed
  show "unlisted b (rows w' @ lobby w')"
  proof (cases ?o)
    case None
    then show ?thesis using un by (auto simp: w'_def unlisted_def)
  next
    case (Some oi)
    have "b \<notin> set (s_bots s)" if "s \<in> set (upd_rows (ci_clientnum oi) (unlist_bot b) (rows w @ lobby w))" for s
      using that by (rule upd_rows_cases) (use un Some in \<open>auto split: if_splits\<close>)
    then show ?thesis using Some by (auto simp: w'_def unlisted_def)
  qed
  show "bots w' = bots w" by (simp add: w'_def)
qed

text \<open>The bots that are owned are listed, too, those with a number in \<open>X\<close> apart; only the reuse of a slot by
  \<^verbatim>\<open>addai\<close> breaks this.\<close>

definition owned_rows :: "int set \<Rightarrow> seat list \<Rightarrow> seat list \<Rightarrow> bool" where
  "owned_rows X cs ns \<longleftrightarrow> (\<forall>r \<in> set cs. \<not> s_human r \<longrightarrow> s_owner r \<ge> 0 \<longrightarrow> s_num r \<notin> X
     \<longrightarrow> (\<exists>s \<in> set (cs @ ns). s_num s = s_owner r \<and> s_num r \<in> set (s_bots s)))"

definition owned_ok :: "'a world_scheme \<Rightarrow> bool" where
  "owned_ok w = owned_rows {} (rows w) (lobby w)"

lemma in_map_set: "x \<in> set (map f xs) \<Longrightarrow> (\<And>y. y \<in> set xs \<Longrightarrow> f y = x \<Longrightarrow> P) \<Longrightarrow> P"
  by auto

lemma owned_rowsD:
  "owned_rows X cs ns \<Longrightarrow> r \<in> set cs \<Longrightarrow> \<not> s_human r \<Longrightarrow> s_owner r \<ge> 0 \<Longrightarrow> s_num r \<notin> X
    \<Longrightarrow> \<exists>s \<in> set (cs @ ns). s_num s = s_owner r \<and> s_num r \<in> set (s_bots s)"
  by (simp add: owned_rows_def)

lemma owned_upd:
  assumes own: "owned_rows X cs ns" and g: "keeps_seat g"
    and bots: "\<And>s b. s \<in> set (cs @ ns) \<Longrightarrow> s_num s = n \<Longrightarrow> b \<in> set (s_bots s) \<Longrightarrow> b \<notin> Y \<Longrightarrow> b \<in> set (s_bots (g s))"
    and owner: "\<And>r. r \<in> set cs \<Longrightarrow> s_num r = n \<Longrightarrow> n \<notin> Y \<Longrightarrow> s_owner (g r) = s_owner r" and "X \<subseteq> Y"
  shows "owned_rows Y (upd_rows n g cs) (upd_rows n g ns)"
  unfolding owned_rows_def
proof (intro ballI impI)
  fix r assume "r \<in> set (upd_rows n g cs)" and r: "\<not> s_human r" "s_owner r \<ge> 0" "s_num r \<notin> Y"
  then obtain r0 where r0: "r0 \<in> set cs" "r = (if s_num r0 = n then g r0 else r0)" by (elim upd_rows_cases)
  then have same: "s_num r = s_num r0" "s_human r = s_human r0" "s_owner r = s_owner r0"
    using g owner [OF r0(1)] r(3) by (auto simp: keeps_seat_def split: if_splits)
  with owned_rowsD [OF own r0(1)] r assms(5) obtain s where s: "s \<in> set (cs @ ns)" "s_num s = s_owner r0" "s_num r0 \<in> set (s_bots s)" by auto
  have "(if s_num s = n then g s else s) \<in> set (upd_rows n g (cs @ ns))" using s(1) by (rule upd_rows_in)
  moreover have "s_num (if s_num s = n then g s else s) = s_owner r" "s_num r \<in> set (s_bots (if s_num s = n then g s else s))"
    using s g same r(3) bots [OF s(1)] by (auto simp: keeps_seat_def)
  ultimately show "\<exists>s \<in> set (upd_rows n g cs @ upd_rows n g ns). s_num s = s_owner r \<and> s_num r \<in> set (s_bots s)"
    by (metis upd_rows_append)
qed

text \<open>A bot that was exempt is listed again, has no owner, or is gone.\<close>

lemma owned_list:
  assumes "owned_rows {b} cs ns" and "\<And>r. r \<in> set cs \<Longrightarrow> s_num r = b \<Longrightarrow> s_owner r = n" and "s \<in> set (cs @ ns)" "s_num s = n"
  shows "owned_rows {} (upd_rows n (list_bot b) cs) (upd_rows n (list_bot b) ns)"
proof -
  have "owned_rows {b} (upd_rows n (list_bot b) cs) (upd_rows n (list_bot b) ns)" using assms(1) by (rule owned_upd) auto
  moreover have "list_bot b s \<in> set (upd_rows n (list_bot b) cs @ upd_rows n (list_bot b) ns)"
    using upd_rows_in [OF assms(3), of n "list_bot b"] assms(4) by simp
  moreover have "s_owner r = n" if "r \<in> set (upd_rows n (list_bot b) cs)" "s_num r = b" for r
    using that(1) by (rule upd_rows_cases) (use that(2) assms(2) in \<open>auto split: if_splits\<close>)
  ultimately show ?thesis unfolding owned_rows_def using assms(4)
    by (metis empty_iff insert_iff row_op_sels(1,6) in_set_conv_decomp)
qed

lemma owned_free: "owned_rows {b} cs ns \<Longrightarrow> (\<And>r. r \<in> set cs \<Longrightarrow> s_num r = b \<Longrightarrow> s_owner r < 0) \<Longrightarrow> owned_rows {} cs ns"
  by (fastforce simp: owned_rows_def)

lemma owned_filter:
  assumes "owned_rows {b} cs ns" and "unlisted b (cs @ ns)" and "\<And>s. s \<in> set cs \<Longrightarrow> s_num s = b \<Longrightarrow> s_bots s = []"
  shows "owned_rows {} (filter (\<lambda>s. s_num s \<noteq> b) cs) ns"
  unfolding owned_rows_def
proof (intro ballI impI)
  fix r assume r: "r \<in> set (filter (\<lambda>s. s_num s \<noteq> b) cs)" "\<not> s_human r" "s_owner r \<ge> 0"
  with owned_rowsD [OF assms(1), of r] obtain s where "s \<in> set (cs @ ns)" "s_num s = s_owner r" "s_num r \<in> set (s_bots s)" by auto
  with assms(3) [of s] show "\<exists>s \<in> set (filter (\<lambda>s. s_num s \<noteq> b) cs @ ns). s_num s = s_owner r \<and> s_num r \<in> set (s_bots s)"
    by (intro bexI [of _ s]) auto
qed

definition player_num :: "int \<Rightarrow> seat list \<Rightarrow> bool" where
  "player_num n ss \<longleftrightarrow> (\<forall>s \<in> set ss. s_num s = n \<longrightarrow> s_human s \<and> \<not> s_spy s)"

lemma player_num_upd [simp]: "keeps_seat g \<Longrightarrow> player_num n (upd_rows k g ss) = player_num n ss"
  by (induction ss) (auto simp: player_num_def upd_rows_def keeps_seat_def)

lemma unlisted_own [simp]: "unlisted b (upd_rows k (own_bot n) ss) = unlisted b ss"
  by (induction ss) (auto simp: unlisted_def upd_rows_def)

lemma player_num_client:
  assumes "bots_ok w" and "oi \<in> set (roster w)" "aitype (ci_state oi) = AI_NONE" "\<not> ci_spy oi"
  shows "player_num (ci_clientnum oi) (rows w @ lobby w)"
proof -
  have "s_human s \<and> \<not> s_spy s" if "s \<in> set (rows w @ lobby w)" "s_num s = ci_clientnum oi" for s
  proof -
    from that(1) obtain c where c: "c \<in> set (roster w)" "s = seat c" by (auto simp: roster_def)
    with that(2) have "c = oi" by (metis bots_ok_client assms(1,2) seat_sels(1))
    with c(2) assms(3,4) show ?thesis by simp
  qed
  then show ?thesis by (simp only: player_num_def Ball_def) blast
qed

lemma player_num_remove [simp]: "player_num n (rows (remove_bot b owner w) @ lobby (remove_bot b owner w)) = player_num n (rows w @ lobby w)"
  by (cases owner) (simp_all flip: upd_rows_append)

lemma remove_bot_emit [simp]: "remove_bot b owner (emit e w) = emit e (remove_bot b owner w)"
  by (simp add: remove_bot_def emit_def upd_client_def split: option.split)

lemma getclientinfo_emit [simp]: "getclientinfo n (emit e w) = getclientinfo n w"
  by (simp add: getclientinfo_def)

text \<open>A bot is taken out of the game and from its owner before it is deleted or handed over.\<close>

definition release :: "'a smode \<Rightarrow> int \<Rightarrow> 'a world_scheme \<Rightarrow> 'a world_scheme" where
  "release sm b w = (let w = leave_bot sm b w in remove_bot b (getclientinfo (ci_ownernum (client b w)) w) w)"

lemma deleteai_release:
  assumes "inrange (b - MAXCLIENTS) (bots w)"
  shows "rows (deleteai sm b w) = filter (\<lambda>s. s_num s \<noteq> b) (rows (release sm b w))" "lobby (deleteai sm b w) = lobby (release sm b w)"
    "bots (deleteai sm b w) = (bots (release sm b w))[nat (b - MAXCLIENTS) := None]"
  using assms by (simp_all add: deleteai_def release_def Let_def filter_map comp_def del: rows_remove_bot)

lemma shiftai_release:
  "shiftai sm b owner w =
     (let old = ci_ownernum (client b (leave_bot sm b w)); w = release sm b w
      in (case owner of
            None \<Rightarrow> upd_client b (\<lambda>ci. ci\<lparr>ci_aireinit := 0, ci_ownernum := - 1\<rparr>) w
          | Some oi \<Rightarrow> if old \<noteq> ci_clientnum oi
              then add_bot b owner (upd_client b (\<lambda>ci. ci\<lparr>ci_aireinit := 2, ci_ownernum := ci_clientnum oi\<rparr>) w) else w)\<lparr>dorefresh := True\<rparr>)"
  by (simp only: shiftai_def release_def Let_def)

context mode_frame
begin

lemma unseen_leave [simp]: "unseen (leave_bot sm cn w) w"
  by (simp add: leave_bot_def unseen_frame frame_leave)

lemma bots_leave [simp]: "bots (leave_bot sm cn w) = bots w"
  using unseen_leave by (simp only: unseen_def)

lemma leave_ok [simp]: "bots_ok (leave_bot sm cn w) = bots_ok w"
  by (simp add: unseen_ok)

lemma owner_leave [simp]: "ci_ownernum (client c (leave_bot sm b w)) = ci_ownernum (client c w)"
  using arg_cong [OF unseen_seat [OF unseen_leave], of s_owner] by simp

lemma released:
  assumes "bots_ok w"
  shows "bots_ok (release sm b w)" "unlisted b (rows (release sm b w) @ lobby (release sm b w))" "bots (release sm b w) = bots w"
    "player_num n (rows (release sm b w) @ lobby (release sm b w)) = player_num n (rows w @ lobby w)"
    "owned_ok w \<Longrightarrow> owned_rows {b} (rows (release sm b w)) (lobby (release sm b w))"
    "map s_num (rows (release sm b w) @ lobby (release sm b w)) = map s_num (rows w @ lobby w)"
proof -
  define w1 where "w1 = leave_bot sm b w"
  define owner where "owner = getclientinfo (ci_ownernum (client b w1)) w1"
  have rel: "release sm b w = remove_bot b owner w1" by (simp only: release_def owner_def w1_def Let_def)
  have u: "rows w1 = rows w" "lobby w1 = lobby w" "bots w1 = bots w" using unseen_leave [of b w] by (simp_all add: unseen_def w1_def)
  have "bots_ok w1" using assms(1) by (simp add: w1_def)
  from drop_listing [OF this, of b, folded owner_def, folded rel] u(3)
  show "bots_ok (release sm b w)" "unlisted b (rows (release sm b w) @ lobby (release sm b w))" "bots (release sm b w) = bots w"
    by simp_all
  show "player_num n (rows (release sm b w) @ lobby (release sm b w)) = player_num n (rows w @ lobby w)"
    unfolding rel player_num_remove by (simp only: u)
  show "owned_rows {b} (rows (release sm b w)) (lobby (release sm b w))" if "owned_ok w"
  proof (cases owner)
    case None
    then show ?thesis using that u by (simp add: rel owned_ok_def owned_rows_def)
  next
    case (Some oi)
    have "owned_rows {} (rows w1) (lobby w1)" using that u by (simp add: owned_ok_def)
    then have "owned_rows {b} (upd_rows (ci_clientnum oi) (unlist_bot b) (rows w1)) (upd_rows (ci_clientnum oi) (unlist_bot b) (lobby w1))"
      by (rule owned_upd) auto
    then show ?thesis using Some by (simp add: rel)
  qed
  show "map s_num (rows (release sm b w) @ lobby (release sm b w)) = map s_num (rows w @ lobby w)"
    using upd_rows_nums(1) [of "unlist_bot b" _ "rows w1 @ lobby w1"] u by (cases owner) (simp_all add: rel)
qed

lemma deleteai_ok:
  assumes "bots_ok w" and "Some b \<in> set (bots w)"
  shows "bots_ok (deleteai sm b w)" "owned_ok w \<Longrightarrow> owned_ok (deleteai sm b w)"
    "bots (deleteai sm b w) = (bots w)[nat (b - MAXCLIENTS) := None]"
proof -
  note r = released [OF assms(1), where b = b]
  obtain i where i: "i < length (bots w)" "b = MAXCLIENTS + int i" using assms by (rule bot_entry)
  then have d: "rows (deleteai sm b w) = filter (\<lambda>s. s_num s \<noteq> b) (rows (release sm b w))" "lobby (deleteai sm b w) = lobby (release sm b w)"
    "bots (deleteai sm b w) = (bots (release sm b w))[i := None]"
    using deleteai_release [of b w sm] by (simp_all add: inrange_def)
  have ok2: "table_ok (rows (release sm b w)) (lobby (release sm b w)) (bots (release sm b w))" using r(1) by (simp only: bots_ok_def)
  show "bots_ok (deleteai sm b w)" unfolding bots_ok_def d using r(2,3) i by (intro delete_table [OF ok2]) simp_all
  show "bots (deleteai sm b w) = (bots w)[nat (b - MAXCLIENTS) := None]" using d(3) i(2) r(3) by simp
  show "owned_ok (deleteai sm b w)" if "owned_ok w" unfolding owned_ok_def d
  proof (rule owned_filter [OF r(5) [OF that] r(2)])
    fix s assume s: "s \<in> set (rows (release sm b w))" "s_num s = b"
    then have "s \<in> set (rows (release sm b w) @ lobby (release sm b w))" by simp
    from bot_number [OF ok2 this, of i] table_okD(4) [OF ok2 this] s(2) i r(3) show "s_bots s = []" by (simp add: seat_ok_def)
  qed
qed

lemma shiftai_ok:
  assumes "bots_ok w" and "Some b \<in> set (bots w)" and "case owner of None \<Rightarrow> True | Some oi \<Rightarrow> oi \<in> set (clients w) \<and> validaiclient oi"
  shows "bots_ok (shiftai sm b owner w)" "bots (shiftai sm b owner w) = bots w"
    "owned_ok w \<Longrightarrow> ownernum_of owner \<noteq> ci_ownernum (client b w) \<Longrightarrow> owned_ok (shiftai sm b owner w)"
proof -
  define w2 where "w2 = release sm b w"
  note w2 = released [OF assms(1), where b = b, folded w2_def]
  note shift = shiftai_release [of sm b owner w, unfolded owner_leave Let_def, folded w2_def]
  have b: "Some b \<in> set (bots w2)" using assms(2) w2(3) by simp
  obtain ci where ci: "ci \<in> set (clients w2)" "ci_clientnum ci = b" "aitype (ci_state ci) \<noteq> AI_NONE"
    using bot_entry [OF w2(1) b] by metis
  have own: "table_ok (upd_rows b (own_bot n) (rows w2)) (upd_rows b (own_bot n) (lobby w2)) (bots w2)" for n
    using own_table [OF w2(1) [unfolded bots_ok_def] w2(2)] .
  have owned: "owned_rows {b} (upd_rows b (own_bot n) (rows w2)) (upd_rows b (own_bot n) (lobby w2))" if "owned_ok w" for n
    using w2(5) [OF that] by (rule owned_upd) auto
  have owner_is: "s_owner r = n" if "r \<in> set (upd_rows b (own_bot n) (rows w2))" "s_num r = b" for r n
    using that(1) by (rule upd_rows_cases) (use that(2) in \<open>auto split: if_splits\<close>)
  have "bots_ok (shiftai sm b owner w) \<and> bots (shiftai sm b owner w) = bots w
      \<and> (owned_ok w \<longrightarrow> ownernum_of owner \<noteq> ci_ownernum (client b w) \<longrightarrow> owned_ok (shiftai sm b owner w))"
  proof (cases owner)
    case None
    then show ?thesis using own [of "- 1"] owned [of "- 1"] w2(3) owner_is [of _ "- 1"]
      by (auto simp: shift [unfolded None] bots_ok_def owned_ok_def intro: owned_free)
  next
    case (Some oi)
    let ?n = "ci_clientnum oi" let ?cs = "upd_rows b (own_bot (ci_clientnum oi)) (rows w2)" let ?ns = "upd_rows b (own_bot (ci_clientnum oi)) (lobby w2)"
    have oi: "oi \<in> set (clients w)" "aitype (ci_state oi) = AI_NONE" "\<not> ci_spy oi" using assms(3) Some by (auto simp: validaiclient_def)
    have "player_num ?n (rows w2 @ lobby w2)" unfolding w2(4) using player_num_client [OF assms(1), of oi] oi by (simp add: roster_def)
    then have p: "player_num ?n (?cs @ ?ns)" by (simp flip: upd_rows_append del: map_append)
    have "table_ok (upd_rows ?n (list_bot b) ?cs) (upd_rows ?n (list_bot b) ?ns) (bots w2)"
    proof (rule list_table [OF own])
      show "unlisted b (?cs @ ?ns)" using w2(2) by (simp flip: upd_rows_append)
      show "own_bot ?n (seat ci) \<in> set ?cs" using upd_rows_in [of "seat ci" "rows w2" b "own_bot ?n"] ci by simp
    qed (use ci p in \<open>simp_all add: player_num_def\<close>)
    moreover have "?n \<in> set (map s_num (?cs @ ?ns))"
      using oi(1) upd_rows_nums(1) [of "own_bot ?n" b "rows w2 @ lobby w2"] w2(6) by (simp only: upd_rows_append keeps_row_ops) force
    then obtain s where "s \<in> set (?cs @ ?ns)" "s_num s = ?n" by (rule in_map_set)
    then have "owned_rows {} (upd_rows ?n (list_bot b) ?cs) (upd_rows ?n (list_bot b) ?ns)" if "owned_ok w"
      using owned_list [OF owned [OF that] owner_is] by blast
    ultimately show ?thesis using Some w2(1,3) by (simp add: shift [unfolded Some] bots_ok_def owned_ok_def ownernum_of_def)
  qed
  then show "bots_ok (shiftai sm b owner w)" "bots (shiftai sm b owner w) = bots w"
    "owned_ok w \<Longrightarrow> ownernum_of owner \<noteq> ci_ownernum (client b w) \<Longrightarrow> owned_ok (shiftai sm b owner w)" by blast+
qed

end

subsection \<open>Spreading the bots\<close>

lemma fold_fewer:
  "fold fewer cs m = Some l \<Longrightarrow> (l \<in> set cs \<or> m = Some l)
    \<and> (\<forall>ci \<in> set cs. length (ci_bots l) \<le> length (ci_bots ci)) \<and> (\<forall>c. m = Some c \<longrightarrow> length (ci_bots l) \<le> length (ci_bots c))"
proof (induction cs arbitrary: m)
  case (Cons c cs)
  then have "(l \<in> set cs \<or> fewer c m = Some l) \<and> (\<forall>ci \<in> set cs. length (ci_bots l) \<le> length (ci_bots ci))
      \<and> (\<forall>c'. fewer c m = Some c' \<longrightarrow> length (ci_bots l) \<le> length (ci_bots c'))" by simp
  then show ?case by (auto simp: fewer_def split: option.splits if_splits)
qed simp

lemma fold_more:
  "fold more_bots cs m = Some h \<Longrightarrow> (h \<in> set cs \<or> m = Some h)
    \<and> (\<forall>ci \<in> set cs. length (ci_bots ci) \<le> length (ci_bots h)) \<and> (\<forall>c. m = Some c \<longrightarrow> length (ci_bots c) \<le> length (ci_bots h))"
proof (induction cs arbitrary: m)
  case (Cons c cs)
  then have "(h \<in> set cs \<or> more_bots c m = Some h) \<and> (\<forall>ci \<in> set cs. length (ci_bots ci) \<le> length (ci_bots h))
      \<and> (\<forall>c'. more_bots c m = Some c' \<longrightarrow> length (ci_bots c') \<le> length (ci_bots h))" by simp
  then show ?case by (auto simp: more_bots_def split: option.splits if_splits)
qed simp

lemma fold_some: "fold fewer cs (Some x) \<noteq> None" "fold more_bots cs (Some x) \<noteq> None"
  by (induction cs arbitrary: x) (simp_all add: fewer_def more_bots_def split: option.split)

lemma fold_none: "fold fewer cs None = None \<longleftrightarrow> cs = []" "fold more_bots cs None = None \<longleftrightarrow> cs = []"
  by (cases cs, simp_all add: fewer_def more_bots_def fold_some)+

lemma findaiclient_Some:
  "findaiclient ex w = Some oi \<Longrightarrow> oi \<in> set (clients w) \<and> validaiclient oi \<and> Some (ci_clientnum oi) \<noteq> ex"
  using fold_fewer [of "filter (\<lambda>ci. validaiclient ci \<and> Some (ci_clientnum ci) \<noteq> ex) (clients w)" None oi] by (auto simp: findaiclient_def)

text \<open>Nobody has two bots more than another.\<close>

definition spread_evenly :: "'a world_scheme \<Rightarrow> bool" where
  "spread_evenly w \<longleftrightarrow> (\<forall>ci \<in> set (clients w). \<forall>cj \<in> set (clients w). validaiclient ci \<longrightarrow> validaiclient cj
     \<longrightarrow> length (ci_bots ci) \<le> length (ci_bots cj) + 1)"

lemma reassignai_False:
  assumes "reassignai sm w = (False, w')"
  shows "w' = w \<and> spread_evenly w"
proof (cases "filter validaiclient (clients w) = []")
  case True
  then show ?thesis using assms by (auto simp: reassignai_def spread_evenly_def filter_empty_conv Let_def)
next
  case False
  then obtain hi lo where hl: "fold more_bots (filter validaiclient (clients w)) None = Some hi" "fold fewer (filter validaiclient (clients w)) None = Some lo"
    using fold_none by (metis not_None_eq)
  note f = fold_more [OF hl(1)] fold_fewer [OF hl(2)]
  have w: "w' = w" "length (ci_bots hi) \<le> length (ci_bots lo) + 1" using assms hl by (auto simp: reassignai_def split: if_splits)
  have "length (ci_bots ci) \<le> length (ci_bots cj) + 1" if "ci \<in> set (filter validaiclient (clients w))" "cj \<in> set (filter validaiclient (clients w))" for ci cj
  proof -
    have "length (ci_bots ci) \<le> length (ci_bots hi)" "length (ci_bots lo) \<le> length (ci_bots cj)" using f that by blast+
    then show ?thesis using w(2) by simp
  qed
  then show ?thesis using w(1) by (simp add: spread_evenly_def)
qed

lemma reassignai_True:
  assumes "reassignai sm w = (True, w')"
  obtains hi lo where "hi \<in> set (clients w)" "lo \<in> set (clients w)" "validaiclient hi" "validaiclient lo"
    "length (ci_bots hi) > length (ci_bots lo) + 1" "w' = shiftai sm (last (ci_bots hi)) (Some lo) w"
proof -
  from assms obtain hi lo where hl: "fold more_bots (filter validaiclient (clients w)) None = Some hi" "fold fewer (filter validaiclient (clients w)) None = Some lo"
    "length (ci_bots hi) > length (ci_bots lo) + 1" "w' = shiftai sm (last (ci_bots hi)) (Some lo) w"
    by (auto simp: reassignai_def Let_def split: option.splits if_splits)
  moreover have "hi \<in> set (filter validaiclient (clients w))" "lo \<in> set (filter validaiclient (clients w))"
    using fold_more [OF hl(1)] fold_fewer [OF hl(2)] by auto
  ultimately show thesis using that by auto
qed

text \<open>Moving a bot from one of many to one of few brings the squares of the numbers down.\<close>

definition energy :: "seat list \<Rightarrow> nat" where
  "energy ss = (\<Sum>s \<leftarrow> ss. (length (s_bots s))\<^sup>2)"

definition listed :: "seat list \<Rightarrow> int multiset" where
  "listed ss = (\<Sum>s \<leftarrow> ss. mset (s_bots s))"

lemma upd_rows_other: "n \<notin> s_num ` set ss \<Longrightarrow> upd_rows n g ss = ss"
  by (induction ss) (auto simp: upd_rows_def)

lemma upd_rows_Cons: "upd_rows n g (s # ss) = (if s_num s = n then g s else s) # upd_rows n g ss"
  by (simp add: upd_rows_def)

lemma energy_upd:
  assumes "distinct (map s_num ss)" "s \<in> set ss" "s_num s = n"
  shows "energy (upd_rows n g ss) + (length (s_bots s))\<^sup>2 = energy ss + (length (s_bots (g s)))\<^sup>2"
    and "listed (upd_rows n g ss) + mset (s_bots s) = listed ss + mset (s_bots (g s))"
proof -
  obtain xs ys where ss: "ss = xs @ s # ys" using assms(2) by (auto simp: in_set_conv_decomp)
  with assms(1,3) have "n \<notin> s_num ` set xs" "n \<notin> s_num ` set ys" by auto
  then have "upd_rows n g ss = xs @ g s # ys" using upd_rows_other [of n xs g] upd_rows_other [of n ys g] assms(3) by (simp add: ss upd_rows_Cons)
  then show "energy (upd_rows n g ss) + (length (s_bots s))\<^sup>2 = energy ss + (length (s_bots (g s)))\<^sup>2"
    "listed (upd_rows n g ss) + mset (s_bots s) = listed ss + mset (s_bots (g s))" by (simp_all add: ss energy_def listed_def)
qed

lemma energy_own [simp]: "energy (upd_rows n (own_bot k) ss) = energy ss" "listed (upd_rows n (own_bot k) ss) = listed ss"
  by (induction ss) (simp_all add: energy_def listed_def upd_rows_def)

lemma square_drop:
  fixes a c e e' :: nat
  assumes "e' + a\<^sup>2 + c\<^sup>2 = e + (a - 1)\<^sup>2 + (c + 1)\<^sup>2" and "c + 1 < a"
  shows "e' < e"
proof -
  obtain d where a: "a = c + d + 2" using assms(2) le_Suc_ex [of "c + 2" a] by (auto simp: add_ac)
  have "a - 1 = c + d + 1" using a by simp
  then have "e' + ((c + d + 2)\<^sup>2 + c\<^sup>2) = e + ((c + d + 1)\<^sup>2 + (c + 1)\<^sup>2)" using assms(1) by (simp only: a add.assoc)
  moreover have "(c + d + 2)\<^sup>2 + c\<^sup>2 = (c + d + 1)\<^sup>2 + (c + 1)\<^sup>2 + (2 * d + 2)" by (simp add: power2_eq_square algebra_simps)
  ultimately show ?thesis by linarith
qed

definition hand_over :: "int \<Rightarrow> clientinfo option \<Rightarrow> seat list \<Rightarrow> seat list" where
  "hand_over b owner ss = (case owner of
     None \<Rightarrow> upd_rows b (own_bot (- 1)) ss
   | Some oi \<Rightarrow> upd_rows (ci_clientnum oi) (list_bot b) (upd_rows b (own_bot (ci_clientnum oi)) ss))"

context mode_frame
begin

lemma shift_listed:
  assumes ok: "bots_ok w" and oi: "oi \<in> set (roster w)" and b: "b \<in> set (ci_bots oi)" and ne: "ownernum_of owner \<noteq> ci_clientnum oi"
  shows "rows (shiftai sm b owner w) = hand_over b owner (upd_rows (ci_clientnum oi) (unlist_bot b) (rows w))"
    "lobby (shiftai sm b owner w) = hand_over b owner (upd_rows (ci_clientnum oi) (unlist_bot b) (lobby w))"
proof -
  define w1 where "w1 = leave_bot sm b w"
  have u: "unseen w1 w" by (simp add: w1_def)
  have "seat oi \<in> set (rows w1 @ lobby w1)" using oi u by (auto simp: unseen_def roster_def)
  then have "seat oi \<in> set (map seat (roster w1))" by (simp add: roster_def)
  then obtain h1 where h1: "h1 \<in> set (roster w1)" "seat h1 = seat oi" by (rule in_map_set)
  then have h1b: "b \<in> set (ci_bots h1)" "ci_clientnum h1 = ci_clientnum oi" using b by (metis seat_sels(7), metis seat_sels(1))
  have "bots_ok w1" using ok by (simp add: w1_def)
  from lister_is_owner(2) [OF this h1(1) h1b(1)]
  have rel: "release sm b w = remove_bot b (Some h1) w1" by (simp add: release_def Let_def flip: w1_def)
  note own = lister_is_owner(1) [OF ok oi b]
  show "rows (shiftai sm b owner w) = hand_over b owner (upd_rows (ci_clientnum oi) (unlist_bot b) (rows w))"
    "lobby (shiftai sm b owner w) = hand_over b owner (upd_rows (ci_clientnum oi) (unlist_bot b) (lobby w))"
    using u own ne h1b(2) by (cases owner; simp add: shiftai_release Let_def rel unseen_def hand_over_def ownernum_of_def)+
qed

lemma shift_last:
  assumes ok: "bots_ok w" and hi: "hi \<in> set (clients w)" "validaiclient hi" and lo: "lo \<in> set (clients w)" "validaiclient lo"
    and more: "length (ci_bots hi) > length (ci_bots lo) + 1"
  defines "b \<equiv> last (ci_bots hi)"
  shows "rows (shiftai sm b (Some lo) w) = upd_rows (ci_clientnum lo) (list_bot b)
      (upd_rows b (own_bot (ci_clientnum lo)) (upd_rows (ci_clientnum hi) (unlist_bot b) (rows w)))"
    and "ci_ownernum (client b w) = ci_clientnum hi" "Some b \<in> set (bots w)" "b \<noteq> ci_clientnum lo" "ci_clientnum hi \<noteq> ci_clientnum lo"
proof -
  have b: "b \<in> set (ci_bots hi)" unfolding b_def using more by (intro last_in_set) auto
  have hi_r: "hi \<in> set (roster w)" "lo \<in> set (roster w)" using hi lo by (simp_all add: roster_def)
  note own = lister_is_owner [OF ok hi_r(1) b]
  show "ci_ownernum (client b w) = ci_clientnum hi" and 2: "Some b \<in> set (bots w)" by (rule own(1), rule own(3))
  show 3: "ci_clientnum hi \<noteq> ci_clientnum lo"
  proof
    assume "ci_clientnum hi = ci_clientnum lo"
    then have "hi = lo" by (metis bots_ok_client ok hi_r)
    with more show False by simp
  qed
  show "b \<noteq> ci_clientnum lo"
    using bot_entry [OF ok 2] bots_ok_client [OF ok hi_r(2)] lo(2) unfolding validaiclient_def by metis
  show "rows (shiftai sm b (Some lo) w) = upd_rows (ci_clientnum lo) (list_bot b)
      (upd_rows b (own_bot (ci_clientnum lo)) (upd_rows (ci_clientnum hi) (unlist_bot b) (rows w)))"
    using shift_listed(1) [OF ok hi_r(1) b, of "Some lo"] 3 by (simp add: hand_over_def ownernum_of_def)
qed

lemma reassignai_step:
  assumes ok: "bots_ok w" and "reassignai sm w = (True, w')"
  shows "bots_ok w'" "energy (rows w') < energy (rows w)" "listed (rows w') = listed (rows w)" "bots w' = bots w"
    "owned_ok w \<Longrightarrow> owned_ok w'"
proof -
  from assms(2) obtain hi lo where hl: "hi \<in> set (clients w)" "validaiclient hi" "lo \<in> set (clients w)" "validaiclient lo"
    "length (ci_bots hi) > length (ci_bots lo) + 1" and w': "w' = shiftai sm (last (ci_bots hi)) (Some lo) w"
    by (rule reassignai_True) blast
  define b where "b = last (ci_bots hi)"
  note sh = shift_last [OF ok hl, folded b_def] and w' = w' [folded b_def]
  show "bots_ok w'" "bots w' = bots w" "owned_ok w \<Longrightarrow> owned_ok w'"
    unfolding w' using shiftai_ok [OF ok sh(3), of "Some lo"] hl sh(2,5) by (simp_all add: ownernum_of_def)
  have d: "distinct (map s_num (rows w))" using roster_distinct [OF ok] by (simp add: roster_def comp_def)
  let ?n = "ci_clientnum lo" let ?h = "ci_clientnum hi"
  let ?r1 = "upd_rows ?h (unlist_bot b) (rows w)" let ?r2 = "upd_rows b (own_bot ?n) ?r1"
  have d2: "distinct (map s_num ?r2)" using d by (simp add: upd_rows_nums(1))
  have lo1: "seat lo \<in> set ?r1" using upd_rows_in [of "seat lo" "rows w" ?h "unlist_bot b"] hl(3) sh(5) by simp
  have lo2: "seat lo \<in> set ?r2" using upd_rows_in [OF lo1, of b "own_bot ?n"] sh(4) by simp
  have hiset: "b \<in> set (ci_bots hi)" unfolding b_def using hl(5) by (intro last_in_set) auto
  have hid: "distinct (ci_bots hi)" using table_okD(5) [OF ok [unfolded bots_ok_def], of "seat hi"] hl(1) by (simp add: listing_ok_def)
  note e1 = energy_upd [OF d, of "seat hi" ?h "unlist_bot b"] and e2 = energy_upd [OF d2 lo2, of ?n "list_bot b"]
  have len: "length (removeAll b (ci_bots hi)) = length (ci_bots hi) - 1" using hiset hid by (simp add: distinct_remove1_removeAll [symmetric] length_remove1)
  have "energy (rows w') + (length (ci_bots hi))\<^sup>2 + (length (ci_bots lo))\<^sup>2
      = energy (rows w) + (length (ci_bots hi) - 1)\<^sup>2 + (length (ci_bots lo) + 1)\<^sup>2"
    using e1(1) e2(1) hl(1) len unfolding w' sh(1) by simp
  then show "energy (rows w') < energy (rows w)" by (rule square_drop [OF _ hl(5)])
  have m: "mset (removeAll b (ci_bots hi)) + {#b#} = mset (ci_bots hi)" using hiset hid by (simp add: distinct_remove1_removeAll [symmetric])
  have "listed ?r1 + mset (ci_bots hi) = listed (rows w) + mset (removeAll b (ci_bots hi))" using e1(2) hl(1) by simp
  then have "listed ?r1 + {#b#} = listed (rows w)" unfolding m [symmetric] by simp
  moreover have "listed (rows w') = listed ?r1 + {#b#}" using e2(2) unfolding w' sh(1) by simp
  ultimately show "listed (rows w') = listed (rows w)" by simp
qed

lemma reassign_all_spec:
  assumes "bots_ok w"
  shows "\<exists>w'. reassign_all sm w = Some w' \<and> bots_ok w' \<and> spread_evenly w' \<and> listed (rows w') = listed (rows w)
    \<and> bots w' = bots w \<and> (owned_ok w \<longrightarrow> owned_ok w')"
  using assms
proof (induction "energy (rows w)" arbitrary: w rule: less_induct)
  case less
  obtain again w1 where r: "reassignai sm w = (again, w1)" by (cases "reassignai sm w")
  show ?case
  proof (cases again)
    case True
    with r have "reassignai sm w = (True, w1)" by simp
    note step = reassignai_step [OF less.prems this]
    from less.hyps [OF step(2,1)] obtain w' where "reassign_all sm w1 = Some w'" "bots_ok w'" "spread_evenly w'"
      "listed (rows w') = listed (rows w1)" "bots w' = bots w1" "owned_ok w1 \<longrightarrow> owned_ok w'" by blast
    then show ?thesis using r True step by (subst reassign_all.simps) auto
  next
    case False
    then have w1: "w1 = w" "spread_evenly w" using reassignai_False [of sm w w1] r by auto
    then have "reassign_all sm w = Some w" using r False by (subst reassign_all.simps) simp
    then show ?thesis using less.prems w1(2) by blast
  qed
qed

end

subsection \<open>Adding a bot\<close>

lemma seat_new_bot:
  "seat (new_bot cn team owner skl model r w) = \<lparr>s_num = cn, s_slot = 0, s_human = False, s_spy = False, s_valid = False,
     s_owner = ownernum_of owner, s_bots = []\<rparr>"
  by (simp add: seat_def new_bot_def validaiclient_def ci_new_def ci_reset_def ci_mapchange_def)

lemma draw_skill_frame [simp]:
  "clients (snd (draw_skill sk w)) = clients w" "connects (snd (draw_skill sk w)) = connects w" "bots (snd (draw_skill sk w)) = bots w"
  by (simp_all add: draw_skill_def Let_def split_beta)

lemma create_ai_rows:
  defines "cn i \<equiv> MAXCLIENTS + int i"
  shows "lobby (snd (create_ai sk i w)) = (case findaiclient None w of None \<Rightarrow> lobby w | Some oi \<Rightarrow> upd_rows (ci_clientnum oi) (list_bot (cn i)) (lobby w))"
    "rows (snd (create_ai sk i w)) = (case findaiclient None w of None \<Rightarrow> rows w | Some oi \<Rightarrow> upd_rows (ci_clientnum oi) (list_bot (cn i)) (rows w))
       @ [\<lparr>s_num = cn i, s_slot = 0, s_human = False, s_spy = False, s_valid = False, s_owner = ownernum_of (findaiclient None w), s_bots = []\<rparr>]"
    "bots (snd (create_ai sk i w)) = (bots w)[i := Some (cn i)]"
  by (simp_all add: create_ai_def Let_def split_beta cn_def seat_new_bot split: option.split)

lemma create_ai_ok:
  assumes ok: "bots_ok w" and i: "i < length (bots w)" "bots w ! i = None"
  shows "bots_ok (snd (create_ai sk i w))" "owned_ok w \<Longrightarrow> owned_ok (snd (create_ai sk i w))"
proof -
  define cn where "cn = MAXCLIENTS + int i"
  define owner where "owner = findaiclient None w"
  let ?r = "\<lparr>s_num = cn, s_slot = 0, s_human = False, s_spy = False, s_valid = False, s_owner = ownernum_of owner, s_bots = []\<rparr>"
  have t: "table_ok (rows w) (lobby w) (bots w)" using ok by (simp only: bots_ok_def)
  have new: "table_ok (rows w @ [?r]) (lobby w) ((bots w)[i := Some cn])"
    using create_table [OF t i, of ?r] by (simp add: cn_def)
  have free: "cn \<noteq> s_num s" if "s \<in> set (rows w @ lobby w)" for s using bot_number [OF t that i(1)] i(2) by (auto simp: cn_def)
  have un: "unlisted cn ((rows w @ [?r]) @ lobby w)"
  proof -
    have "cn \<notin> set (s_bots s)" if "s \<in> set (rows w @ lobby w)" for s
      using table_okD(5) [OF t that] free by (fastforce simp: listing_ok_def)
    then show ?thesis by (auto simp: unlisted_def)
  qed
  have own: "owned_rows {cn} (rows w @ [?r]) (lobby w)" if "owned_ok w"
    using that by (fastforce simp: owned_ok_def owned_rows_def)
  have is_new: "s_owner r = ownernum_of owner" if "r \<in> set (rows w @ [?r])" "s_num r = cn" for r
  proof -
    from that free [of r] have "r = ?r" by auto
    from arg_cong [OF this, of s_owner] show ?thesis by simp
  qed
  note eff = create_ai_rows [of sk i w, folded cn_def owner_def]
  have "bots_ok (snd (create_ai sk i w)) \<and> (owned_ok w \<longrightarrow> owned_ok (snd (create_ai sk i w)))"
  proof (cases owner)
    case None
    then have "owned_rows {} (rows w @ [?r]) (lobby w)" if "owned_ok w"
      by (intro owned_free [OF own [OF that]]) (use is_new in \<open>simp add: ownernum_of_def\<close>)
    then show ?thesis using new eff None by (simp add: bots_ok_def owned_ok_def)
  next
    case (Some oi)
    let ?n = "ci_clientnum oi"
    have oi: "oi \<in> set (clients w)" "validaiclient oi" using findaiclient_Some [of None w oi] Some by (simp_all add: owner_def)
    have n: "?n \<noteq> cn" using free [of "seat oi"] oi(1) by auto
    have pl: "player_num ?n (rows w @ lobby w)" using player_num_client [OF ok, of oi] oi by (simp add: roster_def validaiclient_def)
    have e: "upd_rows ?n (list_bot cn) (rows w @ [?r]) = upd_rows ?n (list_bot cn) (rows w) @ [?r]" using n by (simp add: upd_rows_def)
    have "table_ok (upd_rows ?n (list_bot cn) (rows w @ [?r])) (upd_rows ?n (list_bot cn) (lobby w)) ((bots w)[i := Some cn])"
      by (rule list_table [OF new un, of ?r]) (use n pl Some in \<open>auto simp: player_num_def ownernum_of_def\<close>)
    moreover have "owned_rows {} (upd_rows ?n (list_bot cn) (rows w @ [?r])) (upd_rows ?n (list_bot cn) (lobby w))" if "owned_ok w"
      by (rule owned_list [OF own [OF that], of _ "seat oi"]) (use is_new oi Some in \<open>auto simp: ownernum_of_def\<close>)
    ultimately show ?thesis using eff Some by (simp add: bots_ok_def owned_ok_def e [unfolded Some] del: upd_rows_append)
  qed
  then show "bots_ok (snd (create_ai sk i w))" "owned_ok w \<Longrightarrow> owned_ok (snd (create_ai sk i w))" by blast+
qed

text \<open>A bot without an owner is in nobody's list, so that its slot may be used again.\<close>

lemma unowned_unlisted:
  assumes "bots_ok w" and "ci_ownernum (client b w) < 0"
  shows "unlisted b (rows w @ lobby w)"
proof -
  have "b \<notin> set (ci_bots oi)" if oi: "oi \<in> set (roster w)" for oi
  proof
    assume b: "b \<in> set (ci_bots oi)"
    note own = lister_is_owner [OF assms(1) oi b]
    have "seat oi \<in> set (rows w @ lobby w)" using oi by (auto simp: roster_def)
    from table_okD(4) [OF assms(1) [unfolded bots_ok_def] this] own(4,5) have "0 \<le> ci_clientnum oi" by (simp add: seat_ok_def)
    with own(1) assms(2) show False by simp
  qed
  then show ?thesis by (auto simp: unlisted_def roster_def)
qed

lemma addai_cases:
  assumes "addai sk limit w = (res, w')"
  obtains (full) "numai w \<ge> maxai limit" "res = None" "w' = w"
  | (grown) "numai w < maxai limit" "\<forall>slot \<in> set (bots w). \<not> slot_free w slot"
      "(res, w') = create_ai sk (length (bots w)) (w\<lparr>bots := bots w @ [None]\<rparr>)"
  | (empty) i where "numai w < maxai limit" "i < length (bots w)" "bots w ! i = None"
      "(res, w') = create_ai sk i w"
  | (reused) i b where "numai w < maxai limit" "i < length (bots w)" "bots w ! i = Some b"
      "ci_ownernum (client b w) < 0" "res = map_option ci_clientnum (findaiclient None w)"
      "w' = (upd_client b (\<lambda>ci. ci\<lparr>ci_ownernum := ownernum_of (findaiclient None w), ci_aireinit := 2\<rparr>) w)\<lparr>dorefresh := True\<rparr>"
proof (cases "numai w \<ge> maxai limit")
  case True
  show thesis by (rule full) (use assms True in \<open>simp_all add: addai_def\<close>)
next
  case False
  then have room: "numai w < maxai limit" by simp
  show thesis
  proof (cases "first_index (slot_free w) (bots w)")
    case None
    then have "\<forall>slot \<in> set (bots w). \<not> slot_free w slot" by (simp add: first_index_None)
    then show thesis by (rule grown [OF room]) (use assms room None in \<open>simp add: addai_def\<close>)
  next
    case (Some i)
    then have i: "i < length (bots w)" "slot_free w (bots w ! i)" by (auto dest: first_index_Some)
    show thesis
    proof (cases "bots w ! i")
      case None
      then show thesis by (rule empty [OF room i(1)]) (use assms room Some None in \<open>simp add: addai_def\<close>)
    next
      case (Some b)
      then have "ci_ownernum (client b w) < 0" using i(2) by (simp add: slot_free_def)
      then show thesis
        by (rule reused [OF room i(1) Some]) (use assms room \<open>first_index (slot_free w) (bots w) = Some i\<close> Some in \<open>simp_all add: addai_def Let_def\<close>)
    qed
  qed
qed

lemma addai_ok:
  assumes ok: "bots_ok w"
  shows "bots_ok (snd (addai sk limit w))"
proof -
  obtain res w' where a: "addai sk limit w = (res, w')" by (cases "addai sk limit w")
  then have "bots_ok w'"
  proof (cases rule: addai_cases)
    case grown
    have "int (length (bots w)) < MAXBOTS" using grown(1,2) by (simp add: numai_def maxai_def min_def filter_True split: if_splits)
    then have ext: "bots_ok (w\<lparr>bots := bots w @ [None]\<rparr>)" using ok extend_table by (simp add: bots_ok_def)
    show ?thesis using create_ai_ok(1) [OF ext, of "length (bots w)" sk] arg_cong [OF grown(3), of snd] by simp
  next
    case (empty i)
    then show ?thesis using create_ai_ok(1) [OF ok, of i sk] by (metis snd_conv)
  next
    case (reused i b)
    have "unlisted b (rows w @ lobby w)" by (rule unowned_unlisted [OF ok reused(4)])
    then show ?thesis using own_table [OF ok [unfolded bots_ok_def]] reused(6) by (simp add: bots_ok_def)
  qed (use ok in simp)
  then show ?thesis using a by simp
qed

subsection \<open>A client that leaves\<close>

lemma hand_over_nums: "map s_num (hand_over b owner ss) = map s_num ss"
  by (cases owner) (simp_all add: hand_over_def upd_rows_nums(1))

lemma hand_over_append: "hand_over b owner (xs @ ys) = hand_over b owner xs @ hand_over b owner ys"
  by (cases owner) (simp_all add: hand_over_def)

lemma upd_rows_in_other: "s \<in> set ss \<Longrightarrow> s_num s \<noteq> n \<Longrightarrow> s \<in> set (upd_rows n g ss)"
  using upd_rows_in [of s ss n g] by simp

lemma hand_over_other: "s \<in> set ss \<Longrightarrow> s_num s \<noteq> b \<Longrightarrow> s_num s \<noteq> ownernum_of owner \<Longrightarrow> s \<in> set (hand_over b owner ss)"
  by (cases owner) (simp_all add: hand_over_def ownernum_of_def upd_rows_in_other)

text \<open>A bot that has been handed over: somebody else owns it and lists it, or nobody does.\<close>

definition placed :: "int \<Rightarrow> int \<Rightarrow> seat list \<Rightarrow> bool" where
  "placed cn b ss \<longleftrightarrow> (\<exists>r \<in> set ss. s_num r = b \<and> s_owner r \<noteq> cn
     \<and> (s_owner r = - 1 \<or> (\<exists>s \<in> set ss. s_num s = s_owner r \<and> b \<in> set (s_bots s))))"

lemma hand_over_places:
  assumes "r \<in> set ss" "s_num r = b" and "ownernum_of owner \<noteq> cn" and "\<And>oi. owner = Some oi \<Longrightarrow> ci_clientnum oi \<in> s_num ` set ss \<and> ci_clientnum oi \<noteq> b"
  shows "placed cn b (hand_over b owner ss)"
proof (cases owner)
  case None
  then have "own_bot (- 1) r \<in> set (hand_over b owner ss)" using upd_rows_in [OF assms(1), of b "own_bot (- 1)"] assms(2) by (simp add: hand_over_def)
  then show ?thesis using assms(2,3) None unfolding placed_def by (intro bexI [of _ "own_bot (- 1) r"]) (simp_all add: ownernum_of_def)
next
  case (Some oi)
  let ?n = "ci_clientnum oi" and ?ss = "upd_rows b (own_bot (ci_clientnum oi)) ss"
  from assms(4) [OF Some] obtain s where s: "s \<in> set ss" "s_num s = ?n" "?n \<noteq> b" by auto
  have "own_bot ?n r \<in> set ?ss" using upd_rows_in [OF assms(1), of b "own_bot ?n"] assms(2) by simp
  then have "own_bot ?n r \<in> set (hand_over b owner ss)" using Some s(3) assms(2) by (simp add: hand_over_def upd_rows_in_other)
  moreover have "s \<in> set ?ss" using s by (simp add: upd_rows_in_other)
  then have "list_bot b s \<in> set (hand_over b owner ss)" using upd_rows_in [of s ?ss ?n "list_bot b"] Some s(2) by (simp add: hand_over_def)
  then have "\<exists>t \<in> set (hand_over b owner ss). s_num t = ?n \<and> b \<in> set (s_bots t)"
    using s(2) by (intro bexI [of _ "list_bot b s"]) simp_all
  moreover have "?n \<noteq> cn" using assms(3) Some by (simp add: ownernum_of_def)
  ultimately show ?thesis using assms(2) unfolding placed_def by (intro bexI [of _ "own_bot ?n r"]) auto
qed

lemma upd_rows_placed:
  assumes "placed cn b ss" and "\<And>r. s_num (g r) = s_num r" and "n = b \<Longrightarrow> (\<And>r. s_owner (g r) = s_owner r)"
    and "\<And>r. n \<noteq> b \<Longrightarrow> n \<noteq> cn \<Longrightarrow> set (s_bots r) \<subseteq> set (s_bots (g r))" and "n \<noteq> b"
  shows "placed cn b (upd_rows n g ss)"
proof -
  from assms(1) obtain r where r: "r \<in> set ss" "s_num r = b" "s_owner r \<noteq> cn"
    "s_owner r = - 1 \<or> (\<exists>s \<in> set ss. s_num s = s_owner r \<and> b \<in> set (s_bots s))" by (auto simp: placed_def)
  have "r \<in> set (upd_rows n g ss)" using r(1,2) assms(5) by (simp add: upd_rows_in_other)
  moreover have "\<exists>s \<in> set (upd_rows n g ss). s_num s = s_owner r \<and> b \<in> set (s_bots s)"
    if "s \<in> set ss" "s_num s = s_owner r" "b \<in> set (s_bots s)" for s
    by (rule bexI [OF _ upd_rows_in [OF that(1), of n g]]) (use that assms(2,4,5) r(3) in auto)
  ultimately show ?thesis using r unfolding placed_def by blast
qed

lemma hand_over_placed: "placed cn b' ss \<Longrightarrow> b' \<noteq> b \<Longrightarrow> (\<And>oi. owner = Some oi \<Longrightarrow> ci_clientnum oi \<noteq> b') \<Longrightarrow> placed cn b' (hand_over b owner ss)"
  by (cases owner) (auto simp: hand_over_def intro!: upd_rows_placed)

lemma seat_in: "bots_ok w \<Longrightarrow> s \<in> set (rows w @ lobby w) \<Longrightarrow> s_num s = n \<Longrightarrow> s = seat (client n w)"
  using bots_ok_client by (fastforce simp: roster_def)

context mode_frame
begin

lemma shift_away:
  assumes ok: "bots_ok w" and cn: "cn \<in> ci_clientnum ` set (roster w)" and b: "b \<in> set (ci_bots (client cn w))"
  defines "owner \<equiv> findaiclient (Some cn) w"
  shows "bots_ok (shiftai sm b owner w)" "bots (shiftai sm b owner w) = bots w" "owned_ok w \<Longrightarrow> owned_ok (shiftai sm b owner w)"
    "cn \<in> ci_clientnum ` set (roster (shiftai sm b owner w))"
    "ci_bots (client cn (shiftai sm b owner w)) = removeAll b (ci_bots (client cn w))"
    "placed cn b (rows (shiftai sm b owner w) @ lobby (shiftai sm b owner w))"
    "Some b' \<in> set (bots w) \<Longrightarrow> placed cn b' (rows w @ lobby w) \<Longrightarrow> b' \<noteq> b
      \<Longrightarrow> placed cn b' (rows (shiftai sm b owner w) @ lobby (shiftai sm b owner w))"
proof -
  let ?w = "shiftai sm b owner w" let ?ss = "rows w @ lobby w"
  have oi: "client cn w \<in> set (roster w)" "ci_clientnum (client cn w) = cn" using client_in_roster [OF cn] by auto
  note own = lister_is_owner [OF ok oi(1) b]
  have pos: "0 \<le> cn"
  proof -
    have "seat (client cn w) \<in> set ?ss" using oi(1) by (auto simp: roster_def)
    from table_okD(4) [OF ok [unfolded bots_ok_def] this] own(4,5) oi(2) show ?thesis by (simp add: seat_ok_def)
  qed
  have val: "case owner of None \<Rightarrow> True | Some oi \<Rightarrow> oi \<in> set (clients w) \<and> validaiclient oi"
    and ne: "ownernum_of owner \<noteq> cn"
    using findaiclient_Some [of "Some cn" w] pos by (cases owner; force simp: owner_def ownernum_of_def)+
  note sh = shiftai_ok [OF ok own(3) val]
  show ok': "bots_ok ?w" "bots ?w = bots w" "owned_ok w \<Longrightarrow> owned_ok ?w" using sh ne own(1) oi(2) by simp_all
  have ss: "rows ?w @ lobby ?w = hand_over b owner (upd_rows cn (unlist_bot b) ?ss)"
    using shift_listed [OF ok oi(1) b, of owner] ne oi(2) by (simp add: hand_over_append)
  obtain s where s: "s \<in> set ?ss" "s_num s = cn" "s_bots s = ci_bots (client cn w)" using oi by (force simp: roster_def)
  have bcn: "b \<noteq> cn" using bot_entry [OF ok own(3)] own(4) by metis
  have "unlist_bot b s \<in> set (upd_rows cn (unlist_bot b) ?ss)" using upd_rows_in [OF s(1), of cn "unlist_bot b"] s(2) by simp
  then have in_w: "unlist_bot b s \<in> set (rows ?w @ lobby ?w)" unfolding ss
    by (rule hand_over_other) (use s(2) ne bcn in simp_all)
  from seat_in [OF ok'(1) this] s(2) have "unlist_bot b s = seat (client cn ?w)" by simp
  from arg_cong [OF this, of s_bots] s(3) show "ci_bots (client cn ?w) = removeAll b (ci_bots (client cn w))" by simp
  from in_w have "unlist_bot b s \<in> set (map seat (roster ?w))" by (simp add: roster_def)
  then obtain c where "c \<in> set (roster ?w)" "seat c = unlist_bot b s" by (rule in_map_set)
  then show "cn \<in> ci_clientnum ` set (roster ?w)" using s(2) by (metis imageI row_op_sels(8) seat_sels(1))
  have human: "ci_clientnum oi \<noteq> x" if "owner = Some oi" "Some x \<in> set (bots w)" for oi x
  proof -
    have oi: "oi \<in> set (clients w)" "aitype (ci_state oi) = AI_NONE" using val that(1) by (auto simp: validaiclient_def)
    then have "client (ci_clientnum oi) w = oi" by (intro bots_ok_client [OF ok]) (simp add: roster_def)
    then show ?thesis using bot_entry [OF ok that(2)] oi(2) by metis
  qed
  let ?us = "upd_rows cn (unlist_bot b) ?ss"
  obtain ci where ci: "ci \<in> set (clients w)" "ci_clientnum ci = b" using bot_entry [OF ok own(3)] by metis
  then have "seat ci \<in> set ?us" using upd_rows_in_other [of "seat ci" ?ss cn "unlist_bot b"] bcn by simp
  moreover have "ci_clientnum oi \<in> s_num ` set ?us \<and> ci_clientnum oi \<noteq> b" if "owner = Some oi" for oi
  proof -
    have "seat oi \<in> set ?ss" using val that by simp
    from upd_rows_in [OF this, of cn "unlist_bot b"] have "ci_clientnum oi \<in> s_num ` set ?us" by (force split: if_splits)
    then show ?thesis using human [OF that own(3)] by simp
  qed
  ultimately show "placed cn b (rows ?w @ lobby ?w)" unfolding ss using ci(2) ne by (intro hand_over_places [of "seat ci"]) auto
  show "placed cn b' (rows ?w @ lobby ?w)" if b': "Some b' \<in> set (bots w)" "placed cn b' ?ss" "b' \<noteq> b"
  proof -
    have "cn \<noteq> b'" using bot_entry [OF ok b'(1)] own(4) oi by metis
    then have "placed cn b' ?us" using b'(2) by (intro upd_rows_placed) auto
    then show ?thesis unfolding ss using b'(3) human [OF _ b'(1)] by (intro hand_over_placed) auto
  qed
qed

lemma remove_loop_spec:
  assumes "bots_ok w" and "cn \<in> ci_clientnum ` set (roster w)" and "length (ci_bots (client cn w)) = i"
    and "\<forall>b \<in> B. Some b \<in> set (bots w) \<and> placed cn b (rows w @ lobby w)"
  shows "bots_ok (remove_loop sm cn i w) \<and> bots (remove_loop sm cn i w) = bots w \<and> (owned_ok w \<longrightarrow> owned_ok (remove_loop sm cn i w))
    \<and> cn \<in> ci_clientnum ` set (roster (remove_loop sm cn i w)) \<and> ci_bots (client cn (remove_loop sm cn i w)) = []
    \<and> (\<forall>b \<in> set (ci_bots (client cn w)) \<union> B. placed cn b (rows (remove_loop sm cn i w) @ lobby (remove_loop sm cn i w)))"
  using assms
proof (induction i arbitrary: w B)
  case (Suc i)
  let ?b = "ci_bots (client cn w) ! i" let ?w = "shiftai sm (ci_bots (client cn w) ! i) (findaiclient (Some cn) w) w"
  have b: "?b \<in> set (ci_bots (client cn w))" using Suc.prems(3) by simp
  note sh = shift_away [OF Suc.prems(1,2) b]
  have "seat (client cn w) \<in> set (rows w @ lobby w)" using client_in_roster [OF Suc.prems(2)] by (auto simp: roster_def)
  from table_okD(5) [OF Suc.prems(1) [unfolded bots_ok_def] this] have "distinct (ci_bots (client cn w))" by (simp add: listing_ok_def)
  then have "length (ci_bots (client cn ?w)) = i"
    using sh(5) Suc.prems(3) b by (simp add: distinct_remove1_removeAll [symmetric] length_remove1)
  moreover have "Some ?b \<in> set (bots w)" using lister_is_owner(3) [OF Suc.prems(1) _ b] client_in_roster [OF Suc.prems(2)] by blast
  then have "\<forall>x \<in> insert ?b B. Some x \<in> set (bots ?w) \<and> placed cn x (rows ?w @ lobby ?w)"
    using Suc.prems(4) sh(2,6,7) by (metis insert_iff)
  ultimately have ih: "bots_ok (remove_loop sm cn i ?w) \<and> bots (remove_loop sm cn i ?w) = bots ?w
    \<and> (owned_ok ?w \<longrightarrow> owned_ok (remove_loop sm cn i ?w)) \<and> cn \<in> ci_clientnum ` set (roster (remove_loop sm cn i ?w))
    \<and> ci_bots (client cn (remove_loop sm cn i ?w)) = []
    \<and> (\<forall>b \<in> set (ci_bots (client cn ?w)) \<union> insert ?b B. placed cn b (rows (remove_loop sm cn i ?w) @ lobby (remove_loop sm cn i ?w)))"
    by (intro Suc.IH [OF sh(1,4)])
  have "set (ci_bots (client cn w)) \<union> B \<subseteq> set (ci_bots (client cn ?w)) \<union> insert ?b B" using sh(5) by auto
  with ih have "\<forall>b \<in> set (ci_bots (client cn w)) \<union> B. placed cn b (rows (remove_loop sm cn i ?w) @ lobby (remove_loop sm cn i ?w))" by blast
  then show ?case using ih sh(2,3) by simp
qed simp

end

subsection \<open>Refreshing the bots\<close>

lemma aitype_baseammo [simp]: "aitype (baseammo g k sc s) = aitype s"
  by (simp add: baseammo_def)

lemma aitype_fold: "aitype (fold (\<lambda>i s. baseammo (i + 1) k sc s) xs s) = aitype s"
  by (induction xs arbitrary: s) simp_all

lemma spawnstate_aitype: "spawnstate has rba g s r = Some (t, r') \<Longrightarrow> aitype t = aitype s"
  by (auto simp: spawnstate_def Let_def aitype_fold split_beta simp del: fold_simps split: if_splits option.splits)

lemma unseen_client_at:
  assumes "bots_ok w" and "cn \<in> ci_clientnum ` set (roster w) \<Longrightarrow> seat (f (client cn w)) = seat (client cn w)"
  shows "unseen (upd_client cn f w) w"
proof -
  have "seat (if ci_clientnum ci = cn then f ci else ci) = seat ci" if "ci \<in> set (roster w)" for ci
    using that assms(2) bots_ok_client [OF assms(1) that] by auto
  then show ?thesis by (simp add: unseen_def upd_client_def roster_def)
qed

lemma spawnstate_ci_unseen:
  assumes "bots_ok w" and "spawnstate_ci cn w = Some w'"
  shows "unseen w' w"
proof -
  obtain t r where t: "spawnstate (hide_and_seek w) (regenbluearmour w) (gamemode w) (fpsstate.truncate (cstate cn w)) (rngst w) = Some (t, r)"
    using assms(2) by (auto simp: spawnstate_ci_def split: option.splits)
  let ?w = "upd_state cn (\<lambda>s. (on_fps (\<lambda>_. t) s)\<lparr>gs_lifesequence := (gs_lifesequence s + 1) mod 128\<rparr>) (w\<lparr>rngst := r\<rparr>)"
  have "aitype t = aitype (cstate cn w)" using spawnstate_aitype [OF t] by (simp add: fpsstate.truncate_def)
  then have "seat ((client cn w)\<lparr>ci_state := (on_fps (\<lambda>_. t) (cstate cn w))\<lparr>gs_lifesequence := k\<rparr>\<rparr>) = seat (client cn w)" for k
    by (simp add: seat_def validaiclient_def on_fps_def)
  moreover have "bots_ok (w\<lparr>rngst := r\<rparr>)" "client cn (w\<lparr>rngst := r\<rparr>) = client cn w" using assms(1)
    by (simp_all add: bots_ok_def client_def find_client_def)
  ultimately have "unseen ?w (w\<lparr>rngst := r\<rparr>)" unfolding upd_state_def by (intro unseen_client_at) simp_all
  moreover have "w' = ?w" using assms(2) t by (simp add: spawnstate_ci_def)
  ultimately show ?thesis by (simp add: unseen_def)
qed

lemma sendspawn_unseen:
  assumes "bots_ok w" and "sendspawn cn w = Some w'"
  shows "unseen w' w"
proof (cases "ci_no_spawn (client cn w) = 1")
  case False
  then obtain v e m where v: "spawnstate_ci cn w = Some v" and w': "w' = upd_state cn (\<lambda>s. s\<lparr>gs_lastspawn := m\<rparr>) (emit e v)"
    using assms(2) by (auto simp: sendspawn_def Let_def split: option.splits bind_splits)
  have "unseen w' (emit e v)" unfolding w' by (rule unseen_state) simp_all
  then show ?thesis using spawnstate_ci_unseen [OF assms(1) v] by (simp add: unseen_def)
qed (use assms in \<open>simp add: sendspawn_def\<close>)

lemma seat_reassign [simp]: "seat (ci_reassign ci) = seat ci"
  by (simp add: seat_def validaiclient_def ci_reassign_def gs_reassign_def gs_respawn_def on_fps_def fps_respawn_def fpsstate.truncate_def)

lemma unseen_owned: "unseen w' w \<Longrightarrow> owned_ok w' = owned_ok w"
  by (simp add: unseen_def owned_ok_def)

lemma slot_number: "bots_ok w \<Longrightarrow> i < length (bots w) \<Longrightarrow> bots w ! i = Some b \<Longrightarrow> b = MAXCLIENTS + int i"
  using table_okD(6) [of "rows w" "lobby w" "bots w"] by (simp add: bots_ok_def slots_ok_iff)

text \<open>The bots that nobody runs.\<close>

definition orphans :: "'a world_scheme \<Rightarrow> int set" where
  "orphans w = s_num ` set (filter (\<lambda>s. \<not> s_human s \<and> s_owner s < 0) (rows w))"

lemma orphans_alt: "orphans w = s_num ` {s \<in> set (rows w). \<not> s_human s \<and> s_owner s < 0}"
  by (simp only: orphans_def set_filter)

lemma orphan_row:
  assumes "b \<in> orphans w"
  obtains s where "s \<in> set (rows w)" "s_num s = b" "\<not> s_human s" "s_owner s < 0"
  using assms unfolding orphans_alt by blast

lemma unseen_orphans: "unseen w' w \<Longrightarrow> orphans w' = orphans w"
  by (simp add: unseen_def orphans_alt)

lemma upd_rows_orphans:
  assumes "keeps_seat g" and "\<And>s. s_owner (g s) < 0 \<Longrightarrow> s_owner s < 0 \<or> \<not> P (s_num s)"
  shows "s_num ` {s \<in> set (upd_rows n g ss). \<not> s_human s \<and> s_owner s < 0 \<and> P (s_num s)} \<subseteq> s_num ` {s \<in> set ss. \<not> s_human s \<and> s_owner s < 0}"
proof
  fix x assume "x \<in> s_num ` {s \<in> set (upd_rows n g ss). \<not> s_human s \<and> s_owner s < 0 \<and> P (s_num s)}"
  then obtain s where s: "s \<in> set (upd_rows n g ss)" "\<not> s_human s" "s_owner s < 0" "P (s_num s)" "x = s_num s" by blast
  from s(1) obtain s0 where "s0 \<in> set ss" "s = (if s_num s0 = n then g s0 else s0)" by (rule upd_rows_cases)
  with s(2-5) assms show "x \<in> s_num ` {s \<in> set ss. \<not> s_human s \<and> s_owner s < 0}"
    by (intro image_eqI [of _ _ s0]) (auto simp: keeps_seat_def split: if_splits)
qed

context mode_frame
begin

lemma deleteai_orphans:
  assumes "bots_ok w" and "Some b \<in> set (bots w)"
  shows "orphans (deleteai sm b w) \<subseteq> orphans w - {b}"
proof -
  obtain i where i: "i < length (bots w)" "b = MAXCLIENTS + int i" using assms by (rule bot_entry)
  have d: "rows (deleteai sm b w) = filter (\<lambda>s. s_num s \<noteq> b) (rows (release sm b w))" using deleteai_release(1) [of b w sm] i by (simp add: inrange_def)
  define w1 where "w1 = leave_bot sm b w"
  have u: "rows w1 = rows w" using unseen_leave [of b w] by (simp add: unseen_def w1_def)
  have "s_num ` {s \<in> set (rows (release sm b w)). \<not> s_human s \<and> s_owner s < 0} \<subseteq> orphans w"
    using upd_rows_orphans [of "unlist_bot b" "\<lambda>_. True" _ "rows w"] u
    by (cases "getclientinfo (ci_ownernum (client b w1)) w1") (simp_all add: release_def Let_def orphans_alt flip: w1_def)
  then have "s_num s \<in> orphans w - {b}" if "s \<in> set (rows (deleteai sm b w))" "\<not> s_human s" "s_owner s < 0" for s
    using that by (auto simp only: d set_filter)
  then show ?thesis unfolding orphans_alt [of "deleteai sm b w"] by blast
qed

lemma reinitai_unseen:
  assumes ok: "bots_ok w" and own: "ci_ownernum (client b w) \<ge> 0" and re: "reinitai sm b w = Some w'"
  shows "unseen w' w"
proof -
  define e where "e = sendf (- 1) 1 [MI N_INITAI, MI b, MI (ci_ownernum (client b w)), MI (aitype (cstate b w)), MI (skill (cstate b w)),
    MI (ci_playermodel (client b w)), MS (ci_name (client b w)), MS (ci_team (client b w))]"
  define v where "v = upd_client b ci_reassign (emit e w)"
  define fin where "fin = (\<lambda>w :: 'a world_scheme. upd_client b (\<lambda>ci. ci\<lparr>ci_aireinit := 0\<rparr>) w)"
  have r: "reinitai sm b w = (if ci_aireinit (client b w) \<ge> 1
     then Option.bind (if ci_aireinit (client b w) = 2
         then if gs_state (cstate b v) = CS_ALIVE then sendspawn b v else Some (sendresume b v) else Some (emit e w)) (\<lambda>x. Some (fin x))
     else Some w)" using own by (simp add: reinitai_def Let_def e_def v_def fin_def)
  have v: "unseen v w" using unseen_client [of ci_reassign b "emit e w"] by (auto simp: v_def intro: unseen_trans)
  have d: "unseen (fin x) x" for x by (simp add: fin_def unseen_client seat_def validaiclient_def)
  have sp: "sendspawn b v = Some x \<Longrightarrow> unseen x v" for x using sendspawn_unseen [of v b x] ok unseen_ok [OF v] by simp
  have "unseen (sendresume b v) v" by (simp add: sendresume_def Let_def)
  then consider "w' = w" | "w' = fin (emit e w)" | x where "unseen x v" "w' = fin x"
    using re sp unfolding r by (auto simp: bind_eq_Some_conv split: if_splits)
  then show ?thesis
  proof cases
    case 2
    then show ?thesis using unseen_trans [OF d unseen_emit] by simp
  next
    case 3
    then show ?thesis using unseen_trans [OF d] unseen_trans [OF _ v] by blast
  qed simp
qed

lemma reinitai_ok:
  assumes ok: "bots_ok w" and b: "Some b \<in> set (bots w)" and re: "reinitai sm b w = Some w'"
  shows "bots_ok w'" "owned_ok w \<Longrightarrow> owned_ok w'" "orphans w' \<subseteq> orphans w - {b}" "length (bots w') = length (bots w)"
    "\<forall>i < length (bots w). bots w ! i \<noteq> Some b \<longrightarrow> bots w' ! i = bots w ! i"
proof -
  have "bots_ok w' \<and> (owned_ok w \<longrightarrow> owned_ok w') \<and> orphans w' \<subseteq> orphans w - {b} \<and> length (bots w') = length (bots w)
      \<and> (\<forall>i < length (bots w). bots w ! i \<noteq> Some b \<longrightarrow> bots w' ! i = bots w ! i)"
  proof (cases "ci_ownernum (client b w) < 0")
    case True
    then have w': "w' = deleteai sm b w" using re by (simp add: reinitai_def Let_def)
    obtain i where i: "i < length (bots w)" "bots w ! i = Some b" "b = MAXCLIENTS + int i" using ok b by (rule bot_entry)
    show ?thesis unfolding w' using deleteai_ok [OF ok b] deleteai_orphans [OF ok b] i by (auto simp: nth_list_update)
  next
    case False
    have "b \<notin> orphans w"
    proof
      assume "b \<in> orphans w"
      then obtain s where s: "s \<in> set (rows w)" "s_owner s < 0" "s_num s = b" by (auto simp only: orphans_alt)
      then show False using seat_in [OF ok, of s b] False by simp
    qed
    moreover have u: "unseen w' w" using reinitai_unseen [OF ok _ re] False by simp
    ultimately show ?thesis using ok unseen_ok [OF u] unseen_owned [OF u] unseen_orphans [OF u] u by (simp add: unseen_def)
  qed
  then show "bots_ok w'" "owned_ok w \<Longrightarrow> owned_ok w'" "orphans w' \<subseteq> orphans w - {b}" "length (bots w') = length (bots w)"
    "\<forall>i < length (bots w). bots w ! i \<noteq> Some b \<longrightarrow> bots w' ! i = bots w ! i" by blast+
qed

lemma reinit_loop_ok:
  assumes "bots_ok w" and "n \<le> length (bots w)" and "reinit_loop sm n w = Some w'"
  shows "bots_ok w' \<and> (owned_ok w \<longrightarrow> owned_ok w') \<and> orphans w' \<subseteq> {b \<in> orphans w. b \<ge> MAXCLIENTS + int n}"
  using assms
proof (induction n arbitrary: w)
  case 0
  have "MAXCLIENTS \<le> b" if "b \<in> orphans w" for b
  proof -
    from that obtain s where s: "s \<in> set (rows w @ lobby w)" "\<not> s_human s" "s_num s = b" by (auto simp: orphans_alt)
    from table_okD(4) [OF 0(1) [unfolded bots_ok_def] s(1)] s(2,3) show ?thesis by (simp add: seat_ok_def inrange_def)
  qed
  then show ?case using 0 by auto
next
  case (Suc n)
  let ?cn = "MAXCLIENTS + int n"
  obtain v where v: "(case bots w ! n of Some b \<Rightarrow> reinitai sm b w | None \<Rightarrow> Some w) = Some v" "reinit_loop sm n v = Some w'"
    using Suc.prems(3) by (auto simp: bind_eq_Some_conv)
  have num: "bots w ! n = Some b \<Longrightarrow> b = ?cn" for b using slot_number [OF Suc.prems(1)] Suc.prems(2) by simp
  have free: "?cn \<notin> orphans w" if "bots w ! n = None"
  proof
    assume "?cn \<in> orphans w"
    then obtain s where "s \<in> set (rows w)" "s_num s = ?cn" by (rule orphan_row)
    then have s: "s \<in> set (rows w @ lobby w)" "s_num s = ?cn" by simp_all
    from bot_number [OF Suc.prems(1) [unfolded bots_ok_def] s(1) _ s(2)] that Suc.prems(2) show False by simp
  qed
  have "bots_ok v \<and> (owned_ok w \<longrightarrow> owned_ok v) \<and> orphans v \<subseteq> orphans w - {?cn} \<and> length (bots v) = length (bots w)"
  proof (cases "bots w ! n")
    case None
    then show ?thesis using v(1) free Suc.prems(1) by auto
  next
    case (Some b)
    then have "Some b \<in> set (bots w)" using Suc.prems(2) by (metis Suc_le_eq nth_mem)
    from reinitai_ok [OF Suc.prems(1) this] v(1) Some num show ?thesis by auto
  qed
  moreover from this Suc.IH [of v] v(2) Suc.prems(2)
  have "bots_ok w' \<and> (owned_ok v \<longrightarrow> owned_ok w') \<and> orphans w' \<subseteq> {b \<in> orphans v. b \<ge> ?cn}" by simp
  ultimately have w': "bots_ok w' \<and> (owned_ok w \<longrightarrow> owned_ok w')" "orphans w' \<subseteq> {b \<in> orphans w - {?cn}. b \<ge> ?cn}" by blast+
  have "{b \<in> orphans w - {?cn}. b \<ge> ?cn} \<subseteq> {b \<in> orphans w. b \<ge> MAXCLIENTS + int (Suc n)}" by auto
  with w' show ?case by blast
qed

lemma clear_loop_ok:
  assumes "bots_ok w" and "n \<le> length (bots w)"
  shows "bots_ok (clear_loop sm n w) \<and> (owned_ok w \<longrightarrow> owned_ok (clear_loop sm n w))
    \<and> length (bots (clear_loop sm n w)) = length (bots w)
    \<and> (\<forall>i < length (bots w). bots (clear_loop sm n w) ! i = (if i < n then None else bots w ! i))"
  using assms
proof (induction n arbitrary: w)
  case (Suc n)
  let ?v = "case bots w ! n of Some b \<Rightarrow> deleteai sm b w | None \<Rightarrow> w"
  have "bots_ok ?v \<and> (owned_ok w \<longrightarrow> owned_ok ?v) \<and> bots ?v = (bots w)[n := None]"
  proof (cases "bots w ! n")
    case None
    then show ?thesis using Suc.prems list_update_id [of "bots w" n] by simp
  next
    case (Some b)
    then have "Some b \<in> set (bots w)" using Suc.prems(2) by (metis Suc_le_eq nth_mem)
    moreover have "nat (b - MAXCLIENTS) = n" using slot_number [OF Suc.prems(1) _ Some] Suc.prems(2) by simp
    ultimately show ?thesis using deleteai_ok [OF Suc.prems(1), of b] Some by simp
  qed
  with Suc.IH [of ?v] Suc.prems(2) show ?case by (auto simp: nth_list_update less_Suc_eq)
qed simp

lemma reteam_unseen: "unseen (reteam_bot sm b t w) w"
proof -
  define v where "v = (if gs_state (cstate b w) = CS_ALIVE then smode_changeteam sm b (ci_team (client b w)) (team_name w t) w else w)"
  have "unseen v w" by (simp add: v_def unseen_frame frame_team)
  moreover have "unseen (upd_client b (\<lambda>ci. ci\<lparr>ci_team := tm\<rparr>) v) v" for tm
    by (rule unseen_client) (simp add: seat_def validaiclient_def)
  ultimately show ?thesis by (auto simp: reteam_bot_def Let_def unseen_def simp flip: v_def)
qed

lemma balance_unseen: "unseen (balance_loop sm bs ts w) w"
proof (induction "length bs + length ts" arbitrary: bs ts w rule: less_induct)
  case less
  show ?case
  proof (cases "bs = [] \<or> ts = [] \<or> snd (hd ts) \<le> snd (last ts) + 1")
    case True
    then show ?thesis by (subst balance_loop.simps) simp
  next
    case False
    show ?thesis
    proof (cases "first_index (\<lambda>b. ci_team (client b w) = team_name w (fst (hd ts))) bs")
      case None
      then show ?thesis using False less [of bs "tl ts" w] by (subst balance_loop.simps) simp
    next
      case (Some i)
      then have "length (remove_unordered i bs) < length bs" using False by simp
      then show ?thesis using False Some unseen_trans [OF less [of "remove_unordered i bs" "take_player ts"] reteam_unseen]
        by (subst balance_loop.simps) simp
    qed
  qed
qed

lemma checksetup_ok:
  assumes ok: "bots_ok w" and "checksetup sm w = Some w'"
  shows "bots_ok w' \<and> (owned_ok w \<longrightarrow> owned_ok w') \<and> orphans w' = {}"
proof -
  define v where "v = (if m_teammode (gamemode w) \<and> botbalance w then balanceteams sm w else w)"
  have u: "unseen v w" by (simp add: v_def balanceteams_def balance_unseen)
  have okv: "bots_ok v" using unseen_ok [OF u] ok by simp
  have "reinit_loop sm (length (bots v)) v = Some w'" using assms(2) by (simp add: checksetup_def Let_def flip: v_def)
  from reinit_loop_ok [OF okv order_refl this] unseen_owned [OF u]
  have r: "bots_ok w' \<and> (owned_ok w \<longrightarrow> owned_ok w') \<and> orphans w' \<subseteq> {b \<in> orphans v. b \<ge> MAXCLIENTS + int (length (bots v))}" by simp
  have "b < MAXCLIENTS + int (length (bots v))" if "b \<in> orphans v" for b
  proof -
    from that obtain s where s: "s \<in> set (rows v)" "s_num s = b" "\<not> s_human s" by (rule orphan_row)
    then have "s \<in> set (rows v @ lobby v)" by simp
    from table_okD(4) [OF okv [unfolded bots_ok_def] this] s(2,3) show ?thesis by (simp add: seat_ok_def inrange_def)
  qed
  then show ?thesis using r by (fastforce simp: not_le [symmetric])
qed

lemma shift_orphans:
  assumes "bots_ok w" and "reassignai sm w = (True, w')" and "orphans w = {}"
  shows "orphans w' = {}"
proof -
  from assms(2) obtain hi lo where hl: "hi \<in> set (clients w)" "validaiclient hi" "lo \<in> set (clients w)" "validaiclient lo"
    "length (ci_bots hi) > length (ci_bots lo) + 1" and w': "w' = shiftai sm (last (ci_bots hi)) (Some lo) w"
    by (rule reassignai_True) blast
  have "0 \<le> ci_clientnum lo" using hl(4) by (simp add: validaiclient_def)
  moreover have "s_human s \<or> s_owner s \<ge> 0" if "s \<in> set (rows w)" for s using that assms(3) unfolding orphans_alt by fastforce
  ultimately have "s_human s \<or> s_owner s \<ge> 0" if "s \<in> set (rows w')" for s
    using that unfolding w' shift_last(1) [OF assms(1) hl] by (elim upd_rows_cases) (auto split: if_splits)
  then show ?thesis unfolding orphans_alt by fastforce
qed

lemma reassign_all_orphans:
  assumes "bots_ok w" and "orphans w = {}" and "reassign_all sm w = Some w'"
  shows "orphans w' = {}"
  using assms
proof (induction "energy (rows w)" arbitrary: w rule: less_induct)
  case less
  obtain again w1 where r: "reassignai sm w = (again, w1)" by (cases "reassignai sm w")
  show ?case
  proof (cases again)
    case True
    with r have t: "reassignai sm w = (True, w1)" by simp
    note step = reassignai_step [OF less.prems(1) t]
    have "reassign_all sm w1 = Some w'" using less.prems(3) t by (subst (asm) reassign_all.simps) simp
    then show ?thesis using less.hyps [OF step(2,1)] shift_orphans [OF less.prems(1) t less.prems(2)] by blast
  next
    case False
    then have "w1 = w" using reassignai_False [of sm w w1] r by simp
    then have "w' = w" using less.prems(3) r False by (subst (asm) reassign_all.simps) simp
    then show ?thesis using less.prems(2) by simp
  qed
qed

lemma gamemode_leave [simp]: "gamemode (leave_bot sm b w) = gamemode w"
  using frame_fields(1) [OF frame_leave] by (simp add: leave_bot_def)

lemma gamemode_remove [simp]: "gamemode (remove_bot b owner w) = gamemode w"
  by (simp add: remove_bot_def split: option.split)

lemma gamemode_deleteai [simp]: "gamemode (deleteai sm b w) = gamemode w"
  by (simp add: deleteai_def Let_def)

lemma gamemode_reteam [simp]: "gamemode (reteam_bot sm b t w) = gamemode w"
  using frame_fields(1) [OF frame_team] by (simp add: reteam_bot_def Let_def)

lemma gamemode_balance [simp]: "gamemode (balance_loop sm bs ts w) = gamemode w"
proof (induction "length bs + length ts" arbitrary: bs ts w rule: less_induct)
  case less
  show ?case
    using less [of bs "tl ts" w] less [of "remove_unordered i bs" "take_player ts" for i]
    by (subst balance_loop.simps) (auto split: option.split dest: first_index_Some)
qed

lemma sendspawn_some:
  assumes "\<not> m_tactics (gamemode w)"
  shows "\<exists>w'. sendspawn cn w = Some w' \<and> gamemode w' = gamemode w"
proof -
  have "\<exists>t r. spawnstate (hide_and_seek w) (regenbluearmour w) (gamemode w) (fpsstate.truncate (cstate cn w)) (rngst w) = Some (t, r)"
    using assms by (simp add: spawnstate_def Let_def)
  then obtain t r where "spawnstate (hide_and_seek w) (regenbluearmour w) (gamemode w) (fpsstate.truncate (cstate cn w)) (rngst w) = Some (t, r)"
    by blast
  then show ?thesis by (simp add: sendspawn_def spawnstate_ci_def Let_def upd_state_def)
qed

lemma reinitai_some:
  assumes "\<not> m_tactics (gamemode w)"
  shows "\<exists>w'. reinitai sm b w = Some w' \<and> gamemode w' = gamemode w"
proof -
  let ?v = "upd_client b ci_reassign (emit (sendf (- 1) 1 [MI N_INITAI, MI b, MI (ci_ownernum (client b w)), MI (aitype (cstate b w)),
    MI (skill (cstate b w)), MI (ci_playermodel (client b w)), MS (ci_name (client b w)), MS (ci_team (client b w))]) w)"
  obtain x where "sendspawn b ?v = Some x" "gamemode x = gamemode w" using sendspawn_some [of ?v b] assms by auto
  then show ?thesis by (simp add: reinitai_def Let_def sendresume_def)
qed

lemma reinit_loop_some: "\<not> m_tactics (gamemode w) \<Longrightarrow> \<exists>w'. reinit_loop sm n w = Some w' \<and> gamemode w' = gamemode w"
proof (induction n arbitrary: w)
  case (Suc n)
  obtain v where "(case bots w ! n of Some b \<Rightarrow> reinitai sm b w | None \<Rightarrow> Some w) = Some v" "gamemode v = gamemode w"
    using reinitai_some [OF Suc.prems] by (cases "bots w ! n") auto
  then show ?case using Suc.IH [of v] Suc.prems by simp
qed simp

lemma checkai_spec:
  assumes ok: "bots_ok w" and "dorefresh w" and "\<not> m_tactics (gamemode w)"
  shows "\<exists>w'. checkai sm w = Some w' \<and> bots_ok w' \<and> (owned_ok w \<longrightarrow> owned_ok w')
    \<and> (if m_botmode (gamemode w) \<and> numclients (- 1) False True False w \<noteq> 0 then spread_evenly w' \<and> orphans w' = {}
       else set (bots w') \<subseteq> {None})"
proof -
  define v where "v = w\<lparr>dorefresh := False\<rparr>"
  have v: "bots_ok v" "owned_ok v = owned_ok w" "gamemode v = gamemode w" "numclients (- 1) False True False v = numclients (- 1) False True False w"
    using ok by (simp_all add: v_def bots_ok_def owned_ok_def numclients_def)
  show ?thesis
  proof (cases "m_botmode (gamemode w) \<and> numclients (- 1) False True False w \<noteq> 0")
    case True
    define u where "u = (if m_teammode (gamemode v) \<and> botbalance v then balanceteams sm v else v)"
    have "\<not> m_tactics (gamemode u)" using assms(3) v(3) by (simp add: u_def balanceteams_def)
    from reinit_loop_some [OF this, of "length (bots u)"] obtain x where x: "checksetup sm v = Some x"
      by (auto simp: checksetup_def Let_def simp flip: u_def)
    note cs = checksetup_ok [OF v(1) x]
    with v(2) have cs: "bots_ok x" "owned_ok w \<longrightarrow> owned_ok x" "orphans x = {}" by simp_all
    from reassign_all_spec [OF cs(1)] cs(2) obtain w' where w': "reassign_all sm x = Some w'" "bots_ok w'" "spread_evenly w'"
      "owned_ok w \<longrightarrow> owned_ok w'" by blast
    moreover have "checkai sm w = Some w'" using assms(2) True x w'(1) v by (simp add: checkai_def Let_def flip: v_def)
    ultimately show ?thesis using reassign_all_orphans [OF cs(1,3) w'(1)] True by auto
  next
    case False
    note c = clear_loop_ok [OF v(1) order_refl]
    have "checkai sm w = Some (clearai sm v)" using assms(2) False v by (auto simp: checkai_def Let_def simp flip: v_def)
    moreover have "set (bots (clearai sm v)) \<subseteq> {None}" using c by (auto simp: clearai_def in_set_conv_nth)
    moreover have "bots_ok (clearai sm v)" "owned_ok w \<longrightarrow> owned_ok (clearai sm v)" using c v(2) by (simp_all add: clearai_def bots_ok_def owned_ok_def)
    ultimately show ?thesis using False by auto
  qed
qed

lemma removeai_spec:
  assumes "bots_ok w" and "cn \<in> ci_clientnum ` set (roster w)" and "0 \<le> cn"
  shows "bots_ok (removeai sm cn w)" "owned_ok w \<Longrightarrow> owned_ok (removeai sm cn w)" "bots (removeai sm cn w) = bots w"
    "ci_bots (client cn (removeai sm cn w)) = []"
    "b \<in> set (ci_bots (client cn w)) \<Longrightarrow> placed cn b (rows (removeai sm cn w) @ lobby (removeai sm cn w))"
    "owned_ok w \<Longrightarrow> \<forall>ci \<in> set (clients (removeai sm cn w)). aitype (ci_state ci) \<noteq> AI_NONE \<longrightarrow> ci_ownernum ci \<noteq> cn"
proof -
  let ?w = "removeai sm cn w"
  have r: "bots_ok ?w" "owned_ok w \<longrightarrow> owned_ok ?w" "bots ?w = bots w" "cn \<in> ci_clientnum ` set (roster ?w)" "ci_bots (client cn ?w) = []"
    "\<forall>b \<in> set (ci_bots (client cn w)). placed cn b (rows ?w @ lobby ?w)"
    using remove_loop_spec [OF assms(1,2) refl, of "{}"] by (simp_all add: removeai_def)
  then show "bots_ok ?w" "owned_ok w \<Longrightarrow> owned_ok ?w" "bots ?w = bots w" "ci_bots (client cn ?w) = []"
    "b \<in> set (ci_bots (client cn w)) \<Longrightarrow> placed cn b (rows ?w @ lobby ?w)" by blast+
  have "ci_ownernum ci \<noteq> cn" if ok: "owned_ok ?w" and ci: "ci \<in> set (clients ?w)" "aitype (ci_state ci) \<noteq> AI_NONE" for ci
  proof
    assume own: "ci_ownernum ci = cn"
    have "seat ci \<in> set (rows ?w)" using ci(1) by simp
    from owned_rowsD [OF ok [unfolded owned_ok_def] this] ci(2) own assms(3)
    obtain s where s: "s \<in> set (rows ?w @ lobby ?w)" "s_num s = cn" "ci_clientnum ci \<in> set (s_bots s)" by (simp only: seat_sels) blast
    from seat_in [OF r(1) s(1,2)] s(3) r(5) show False by simp
  qed
  then show "owned_ok w \<Longrightarrow> \<forall>ci \<in> set (clients ?w). aitype (ci_state ci) \<noteq> AI_NONE \<longrightarrow> ci_ownernum ci \<noteq> cn" using r(2) by blast
qed

end

subsection \<open>What the players can rely on\<close>

text \<open>Spreading the bots ends, whoever owns how many to begin with: the loop of \<^verbatim>\<open>checkai\<close> returns, then no player
  runs two bots more than another, and no bot has been lost or doubled on the way.\<close>

lemma reassignment_ends:
  fixes sm :: "'a smode"
  assumes "mode_frame sm" and "bots_ok w"
  shows "\<exists>w'. reassign_all sm w = Some w' \<and> bots_ok w' \<and> spread_evenly w' \<and> listed (rows w') = listed (rows w) \<and> bots w' = bots w"
  using mode_frame.reassign_all_spec [OF assms] by blast


text \<open>C20: a client that leaves hands over all the bots that it lists: after \<^verbatim>\<open>removeai\<close> its list is empty, the table of
  bots is the same, and each bot that was in the list has either another owner, who lists it, or none. If
  every bot that had an owner was in its owner's list before, then no bot at all has the leaving client as its owner any
  more (a bot that is in no list, as after the reuse of a slot by \<^verbatim>\<open>addai\<close>, is not handed over).\<close>

theorem removeai_hands_over:
  fixes sm :: "'a smode"
  assumes "mode_frame sm" and "bots_ok w" and "cn \<in> ci_clientnum ` set (roster w)" and "0 \<le> cn"
  defines "w' \<equiv> removeai sm cn w"
  shows "bots_ok w' \<and> bots w' = bots w \<and> ci_bots (client cn w') = []
    \<and> (\<forall>b \<in> set (ci_bots (client cn w)). ci_ownernum (client b w') \<noteq> cn
        \<and> (ci_ownernum (client b w') = - 1 \<or> b \<in> set (ci_bots (client (ci_ownernum (client b w')) w'))))
    \<and> (owned_ok w \<longrightarrow> (\<forall>ci \<in> set (clients w'). aitype (ci_state ci) \<noteq> AI_NONE \<longrightarrow> ci_ownernum ci \<noteq> cn))"
proof -
  note r = mode_frame.removeai_spec [OF assms(1-4), folded w'_def]
  have "ci_ownernum (client b w') \<noteq> cn
      \<and> (ci_ownernum (client b w') = - 1 \<or> b \<in> set (ci_bots (client (ci_ownernum (client b w')) w')))"
    if b: "b \<in> set (ci_bots (client cn w))" for b
  proof -
    from r(5) [OF b] obtain s where s: "s \<in> set (rows w' @ lobby w')" "s_num s = b" "s_owner s \<noteq> cn"
      "s_owner s = - 1 \<or> (\<exists>t \<in> set (rows w' @ lobby w'). s_num t = s_owner s \<and> b \<in> set (s_bots t))" unfolding placed_def by blast
    then have o': "s_owner s = ci_ownernum (client b w')" using seat_in [OF r(1) s(1,2)] by simp
    have "b \<in> set (ci_bots (client (s_owner s) w'))" if "t \<in> set (rows w' @ lobby w')" "s_num t = s_owner s" "b \<in> set (s_bots t)" for t
      using seat_in [OF r(1) that(1,2)] that(3) by simp
    then show ?thesis using s(3,4) unfolding o' by blast
  qed
  then show ?thesis using r(1,3,4,6) by blast
qed

text \<open>C39: when \<^verbatim>\<open>addai\<close> takes over a bot that was to be removed, it names the new owner in the bot but leaves the bot out of
  the owner's list, so that the owner will not hand it over, and it returns the owner instead of the bot.\<close>

theorem addai_reuse_unlisted:
  assumes ok: "bots_ok w" and "numai w < maxai limit" and "first_index (slot_free w) (bots w) = Some i" and "bots w ! i = Some b"
    and "findaiclient None w = Some oi"
  shows "fst (addai sk limit w) = Some (ci_clientnum oi) \<and> ci_ownernum (client b (snd (addai sk limit w))) = ci_clientnum oi
    \<and> \<not> owned_ok (snd (addai sk limit w))"
proof -
  let ?v = "upd_client b (\<lambda>ci. ci\<lparr>ci_ownernum := ci_clientnum oi, ci_aireinit := 2\<rparr>) w"
  have i: "i < length (bots w)" "ci_ownernum (client b w) < 0" using first_index_Some [OF assms(3)] assms(4) by (auto simp: slot_free_def)
  have a: "addai sk limit w = (Some (ci_clientnum oi), ?v\<lparr>dorefresh := True\<rparr>)"
    using assms(2-5) by (simp add: addai_def Let_def ownernum_of_def)
  have bm: "Some b \<in> set (bots w)" using i(1) assms(4) by (metis nth_mem)
  obtain ci where ci: "ci \<in> set (clients w)" "ci_clientnum ci = b" "aitype (ci_state ci) \<noteq> AI_NONE" using bot_entry [OF ok bm] by metis
  have "b \<in> ci_clientnum ` set (roster w)" using ci by (auto simp: roster_def)
  then have own: "ci_ownernum (client b (?v\<lparr>dorefresh := True\<rparr>)) = ci_clientnum oi"
    using client_upd_same [of "\<lambda>ci. ci\<lparr>ci_ownernum := ci_clientnum oi, ci_aireinit := 2\<rparr>" b w] by (simp add: client_def find_client_def)
  have "unlisted b (rows ?v @ lobby ?v)" using unowned_unlisted [OF ok i(2)] by (simp flip: upd_rows_append)
  moreover have "own_bot (ci_clientnum oi) (seat ci) \<in> set (rows ?v)" using upd_rows_in [of "seat ci" "rows w" b] ci by simp
  moreover have "0 \<le> ci_clientnum oi" using findaiclient_Some [OF assms(5)] by (simp add: validaiclient_def)
  ultimately have "\<not> owned_rows {} (rows ?v) (lobby ?v)"
    using owned_rowsD [of "{}" "rows ?v" "lobby ?v" "own_bot (ci_clientnum oi) (seat ci)"] ci(2,3) unfolding unlisted_def
    by (auto simp del: rows_own_bot)
  then show ?thesis using a own by (simp add: owned_ok_def)
qed

subsection \<open>Example servers\<close>

definition sample_bot :: "int \<Rightarrow> int \<Rightarrow> cstr \<Rightarrow> clientinfo" where
  "sample_bot n owner team = ci_new\<lparr>ci_clientnum := n, ci_ownernum := owner, ci_name := ''bot'', ci_team := team, ci_connected := True,
     ci_state := (ci_state ci_new)\<lparr>aitype := AI_BOT, skill := 75\<rparr>\<rparr>"

text \<open>Player 0 runs three bots, players 1 and 2 none.\<close>

definition bot_server :: world where
  "bot_server = sample_world\<lparr>clients := [(sample_client 0 ''good'' 3)\<lparr>ci_bots := [128, 129, 130]\<rparr>, sample_client 1 ''evil'' 5, sample_client 2 ''good'' 7,
     sample_bot 128 0 ''good'', sample_bot 129 0 ''evil'', sample_bot 130 0 ''good''], bots := [Some 128, Some 129, Some 130], dorefresh := True\<rparr>"

text \<open>A bot whose owner has gone and that is still to be removed.\<close>

definition orphan_server :: world where
  "orphan_server = sample_world\<lparr>clients := [sample_client 0 ''good'' 3, sample_bot 128 (- 1) ''good''], bots := [Some 128]\<rparr>"

lemma bot_server_ok: "bots_ok bot_server" "owned_ok bot_server"
  by code_simp+

lemma no_mode_frame: "mode_frame (None :: 'a smode)"
  by (rule no_mode_frame.mode_frame_axioms)


theorem removeai_hands_over_witness:
  "bots_ok (removeai None 0 bot_server) \<and> ci_ownernum (client 129 (removeai None 0 bot_server)) \<noteq> 0
    \<and> filter (\<lambda>ci. aitype (ci_state ci) \<noteq> AI_NONE \<and> ci_ownernum ci = 0) (clients (removeai None 0 bot_server)) = []"
proof -
  have "0 \<in> ci_clientnum ` set (roster bot_server)" "129 \<in> set (ci_bots (client 0 bot_server))" by code_simp+
  with removeai_hands_over [OF no_mode_frame bot_server_ok(1), of 0] bot_server_ok(2) show ?thesis by (auto simp: filter_empty_conv)
qed

theorem addai_reuse_unlisted_witness:
  "fst (addai 50 (- 1) orphan_server) = Some 0 \<and> \<not> owned_ok (snd (addai 50 (- 1) orphan_server))"
proof -
  have "bots_ok orphan_server" "numai orphan_server < maxai (- 1)" "first_index (slot_free orphan_server) (bots orphan_server) = Some 0"
    "bots orphan_server ! 0 = Some 128" by code_simp+
  moreover have "findaiclient None orphan_server = Some (sample_client 0 ''good'' 3)"
    by (simp add: findaiclient_def orphan_server_def validaiclient_def sample_client_def sample_bot_def fewer_def ci_new_def ci_reset_def
      ci_mapchange_def gs_reset_def gs_respawn_def on_fps_def fps_respawn_def gs_new_def fpsstate.truncate_def)
  ultimately show ?thesis using addai_reuse_unlisted [of orphan_server "- 1" 0 128 "sample_client 0 ''good'' 3" 50]
    by (simp add: sample_client_def)
qed

end
