(* ===== verification/Databuf.thy ===== *)
theory Databuf
  imports Prelude
begin

text \<open>
  The cursor buffers of \<^verbatim>\<open>src/src/shared/tools.h\<close>: \<^verbatim>\<open>databuf<T>\<close> (a window
  on memory with a cursor and two sticky error flags) and \<^verbatim>\<open>packetbuf\<close>, which is
  a \<^verbatim>\<open>databuf<uchar>\<close> over the data of a growing ENet packet
  (\<^verbatim>\<open>src/src/enet/packet.c\<close>). The locale \<open>byte_sink\<close> states what the
  serialisers need of a buffer; both buffers interpret it.
\<close>

subsection \<open>databuf\<close>

text \<open>\<open>dbuf\<close> is the memory from the pointer \<^verbatim>\<open>buf\<close> on.\<close>

record 'a databuf =
  dbuf :: "'a list"
  dlen :: int
  dmaxlen :: int
  dflags :: uchar

definition OVERREAD :: uchar where "OVERREAD = 1"
definition OVERWROTE :: uchar where "OVERWROTE = 2"

definition databuf_new :: "'a list \<Rightarrow> int \<Rightarrow> 'a databuf" where
  "databuf_new b m = \<lparr>dbuf = b, dlen = 0, dmaxlen = m, dflags = 0\<rparr>"

definition db_reset :: "'a databuf \<Rightarrow> 'a databuf" where
  "db_reset p = p\<lparr>dlen := 0, dflags := 0\<rparr>"

definition db_reset_to :: "'a list \<Rightarrow> int \<Rightarrow> 'a databuf \<Rightarrow> 'a databuf" where
  "db_reset_to b m p = (db_reset p)\<lparr>dbuf := b, dmaxlen := m\<rparr>"

definition db_get :: "'a::zero databuf \<Rightarrow> 'a \<times> 'a databuf" where
  "db_get p = (if dlen p < dmaxlen p then (dbuf p ! nat (dlen p), p\<lparr>dlen := dlen p + 1\<rparr>)
               else (0, p\<lparr>dflags := dflags p OR OVERREAD\<rparr>))"

definition db_subbuf :: "int \<Rightarrow> 'a databuf \<Rightarrow> 'a databuf \<times> 'a databuf" where
  "db_subbuf n p = (let sz = clamp n 0 (dmaxlen p - dlen p)
     in (databuf_new (drop (nat (dlen p)) (dbuf p)) sz, p\<lparr>dlen := dlen p + sz\<rparr>))"

definition db_pad :: "int \<Rightarrow> 'a databuf \<Rightarrow> int \<times> 'a databuf" where
  "db_pad n p = (dlen p, p\<lparr>dlen := dlen p + min n (dmaxlen p - dlen p)\<rparr>)"

definition db_put :: "'a \<Rightarrow> 'a databuf \<Rightarrow> 'a databuf" where
  "db_put v p = (if dlen p < dmaxlen p
     then p\<lparr>dbuf := (dbuf p)[nat (dlen p) := v], dlen := dlen p + 1\<rparr>
     else p\<lparr>dflags := dflags p OR OVERWROTE\<rparr>)"

text \<open>\<^verbatim>\<open>memcpy\<close> of \<open>vs\<close> over the cells from \<open>i\<close> on.\<close>

definition overlay :: "nat \<Rightarrow> 'a list \<Rightarrow> 'a list \<Rightarrow> 'a list" where
  "overlay i vs xs = take i xs @ vs @ drop (i + length vs) xs"

definition db_put_n :: "'a list \<Rightarrow> 'a databuf \<Rightarrow> 'a databuf" where
  "db_put_n vs p = (let numvals = int (length vs); k = min (dmaxlen p - dlen p) numvals;
       q = (if dmaxlen p - dlen p < numvals then p\<lparr>dflags := dflags p OR OVERWROTE\<rparr> else p)
     in q\<lparr>dbuf := overlay (nat (dlen p)) (take (nat k) vs) (dbuf p), dlen := dlen p + k\<rparr>)"

definition db_get_n :: "int \<Rightarrow> 'a databuf \<Rightarrow> 'a list \<times> int \<times> 'a databuf" where
  "db_get_n numvals p = (let rd = min (dmaxlen p - dlen p) numvals;
       q = (if rd < numvals then p\<lparr>dflags := dflags p OR OVERREAD\<rparr> else p)
     in (take (nat rd) (drop (nat (dlen p)) (dbuf p)), rd, q\<lparr>dlen := dlen p + rd\<rparr>))"

definition db_offset :: "int \<Rightarrow> 'a databuf \<Rightarrow> 'a databuf" where
  "db_offset n0 p = (let n = min n0 (dmaxlen p)
     in p\<lparr>dbuf := drop (nat n) (dbuf p), dmaxlen := dmaxlen p - n, dlen := max (dlen p - n) 0\<rparr>)"

definition db_empty :: "'a databuf \<Rightarrow> bool" where "db_empty p \<longleftrightarrow> dlen p = 0"
definition db_remaining :: "'a databuf \<Rightarrow> int" where "db_remaining p = dmaxlen p - dlen p"
definition db_overread :: "'a databuf \<Rightarrow> bool" where "db_overread p \<longleftrightarrow> dflags p AND OVERREAD \<noteq> 0"
definition db_overwrote :: "'a databuf \<Rightarrow> bool" where "db_overwrote p \<longleftrightarrow> dflags p AND OVERWROTE \<noteq> 0"
definition db_check :: "int \<Rightarrow> 'a databuf \<Rightarrow> bool" where "db_check n p \<longleftrightarrow> db_remaining p \<ge> n"

definition db_forceoverread :: "'a databuf \<Rightarrow> 'a databuf" where
  "db_forceoverread p = p\<lparr>dlen := dmaxlen p, dflags := dflags p OR OVERREAD\<rparr>"

subsection \<open>Invariant and abstractions\<close>

text \<open>The cursor stays in the window and the window in the memory.\<close>

definition db_wf :: "'a databuf \<Rightarrow> bool" where
  "db_wf p \<longleftrightarrow> 0 \<le> dlen p \<and> dlen p \<le> dmaxlen p \<and> dmaxlen p \<le> int (length (dbuf p))"

definition written :: "'a databuf \<Rightarrow> 'a list" where
  "written p = take (nat (dlen p)) (dbuf p)"

definition rest :: "'a databuf \<Rightarrow> 'a list" where
  "rest p = drop (nat (dlen p)) (take (nat (dmaxlen p)) (dbuf p))"

lemmas db_ops = databuf_new_def db_reset_def db_reset_to_def db_get_def db_subbuf_def db_pad_def
  db_put_def db_put_n_def db_get_n_def db_offset_def db_forceoverread_def

lemma flag_simps [simp]:
  "OVERREAD \<noteq> 0" "OVERWROTE \<noteq> 0" "(f OR OVERREAD) AND OVERREAD \<noteq> 0" "(f OR OVERWROTE) AND OVERWROTE \<noteq> 0"
  "(f OR OVERREAD) AND OVERWROTE = f AND OVERWROTE" "(f OR OVERWROTE) AND OVERREAD = f AND OVERREAD"
  by (simp_all add: OVERREAD_def OVERWROTE_def bit.conj_disj_distrib2 or_eq_0_iff)


lemma db_wf_new [simp]: "m \<le> int (length b) \<Longrightarrow> 0 \<le> m \<Longrightarrow> db_wf (databuf_new b m)"
  by (simp add: db_wf_def databuf_new_def)

lemma length_overlay [simp]: "i + length vs \<le> length xs \<Longrightarrow> length (overlay i vs xs) = length xs"
  by (simp add: overlay_def)

lemma take_overlay: "i + length vs \<le> length xs \<Longrightarrow> take (i + length vs) (overlay i vs xs) = take i xs @ vs"
  by (simp add: overlay_def)

lemma db_wf_get [preserves]: "db_wf p \<Longrightarrow> db_wf (snd (db_get p))"
  by (simp add: db_wf_def db_get_def)

lemma db_wf_put [preserves]: "db_wf p \<Longrightarrow> db_wf (db_put v p)"
  by (auto simp: db_wf_def db_put_def)

lemma db_wf_put_n [preserves]: "db_wf p \<Longrightarrow> db_wf (db_put_n vs p)"
  by (auto simp: db_wf_def db_put_n_def Let_def min_def overlay_def)

lemma db_wf_get_n [preserves]: "db_wf p \<Longrightarrow> 0 \<le> n \<Longrightarrow> db_wf (snd (snd (db_get_n n p)))"
  by (auto simp: db_wf_def db_get_n_def Let_def)

lemma db_wf_subbuf [preserves]:
  "db_wf p \<Longrightarrow> db_wf (fst (db_subbuf n p)) \<and> db_wf (snd (db_subbuf n p))"
  by (auto simp: db_wf_def db_subbuf_def databuf_new_def clamp_def Let_def)

lemma db_wf_pad [preserves]: "db_wf p \<Longrightarrow> 0 \<le> n \<Longrightarrow> db_wf (snd (db_pad n p))"
  by (auto simp: db_wf_def db_pad_def)

lemma db_wf_offset [preserves]: "db_wf p \<Longrightarrow> 0 \<le> n \<Longrightarrow> db_wf (db_offset n p)"
  by (auto simp: db_wf_def db_offset_def Let_def min_def)

lemma db_wf_reset [preserves]: "db_wf p \<Longrightarrow> db_wf (db_reset p)"
  by (simp add: db_wf_def db_reset_def)

lemma db_wf_forceoverread [preserves]: "db_wf p \<Longrightarrow> db_wf (db_forceoverread p)"
  by (simp add: db_wf_def db_forceoverread_def)

lemma length_written: "db_wf p \<Longrightarrow> length (written p) = nat (dlen p)"
  by (auto simp: db_wf_def written_def)

lemma length_rest: "db_wf p \<Longrightarrow> int (length (rest p)) = db_remaining p"
  by (auto simp: db_wf_def rest_def db_remaining_def)

subsection \<open>Reading\<close>

text \<open>A read takes the head of what is left, and at the end returns zero and raises
  the overread flag without moving.\<close>

lemma db_get_Cons:
  assumes "db_wf p" "rest p = b # bs"
  shows "fst (db_get p) = b" "rest (snd (db_get p)) = bs"
    "dflags (snd (db_get p)) = dflags p"
proof -
  have lt: "dlen p < dmaxlen p"
    using assms length_rest [of p] by (simp add: db_remaining_def)
  then have "nat (dlen p) < length (take (nat (dmaxlen p)) (dbuf p))"
    using assms(1) by (auto simp: db_wf_def)
  from Cons_nth_drop_Suc [OF this] have
    "rest p = dbuf p ! nat (dlen p) # drop (Suc (nat (dlen p))) (take (nat (dmaxlen p)) (dbuf p))"
    using lt assms(1) by (simp add: rest_def db_wf_def)
  with assms lt show "fst (db_get p) = b" "rest (snd (db_get p)) = bs"
    by (auto simp: db_get_def rest_def db_wf_def nat_add_distrib)
  show "dflags (snd (db_get p)) = dflags p"
    using lt by (simp add: db_get_def)
qed

lemma db_get_Nil:
  assumes "db_wf p" "rest p = []"
  shows "fst (db_get p) = 0" "rest (snd (db_get p)) = []" "db_overread (snd (db_get p))"
proof -
  have "\<not> dlen p < dmaxlen p"
    using assms length_rest [of p] by (simp add: db_remaining_def)
  with assms show "fst (db_get p) = 0" "rest (snd (db_get p)) = []" "db_overread (snd (db_get p))"
    by (simp_all add: db_get_def rest_def db_overread_def)
qed

lemma db_get_overread_mono: "db_overread p \<Longrightarrow> db_overread (snd (db_get p))"
  by (auto simp: db_get_def db_overread_def)

lemma db_get_overread_iff:
  "db_wf p \<Longrightarrow> db_overread (snd (db_get p)) \<longleftrightarrow> db_overread p \<or> rest p = []"
  using db_get_Nil [of p] db_get_Cons [of p "hd (rest p)" "tl (rest p)"]
  by (cases "rest p = []") (auto simp: db_overread_def)

subsection \<open>Writing\<close>

lemma written_put:
  assumes "db_wf p"
  shows "written (db_put v p) = (if dlen p < dmaxlen p then written p @ [v] else written p)"
proof (cases "dlen p < dmaxlen p")
  case True
  then have "nat (dlen p + 1) = Suc (nat (dlen p))" "nat (dlen p) < length (dbuf p)"
    using assms by (auto simp: db_wf_def)
  with True show ?thesis
    by (simp add: db_put_def written_def take_Suc_conv_app_nth)
qed (simp add: db_put_def written_def)

lemma written_put_n:
  assumes "db_wf p"
  shows "written (db_put_n vs p) = written p @ take (nat (db_remaining p)) vs"
proof -
  define k where "k = min (dmaxlen p - dlen p) (int (length vs))"
  let ?vs = "take (nat k) vs"
  have k: "0 \<le> k" and len: "length ?vs = nat k"
    using assms by (auto simp: db_wf_def k_def)
  have fit: "nat (dlen p) + length ?vs \<le> length (dbuf p)"
    using assms len k by (auto simp: db_wf_def k_def)
  have "nat (dlen p + k) = nat (dlen p) + length ?vs"
    using assms k len by (simp add: db_wf_def nat_add_distrib)
  then have "written (db_put_n vs p) = take (nat (dlen p)) (dbuf p) @ ?vs"
    using take_overlay [OF fit] by (simp add: db_put_n_def written_def Let_def k_def)
  moreover have "?vs = take (nat (db_remaining p)) vs"
    by (simp add: k_def db_remaining_def min_def)
  ultimately show ?thesis by (simp add: written_def)
qed

lemma db_put_overwrote:
  "db_wf p \<Longrightarrow> db_overwrote (db_put v p) \<longleftrightarrow> db_overwrote p \<or> db_remaining p = 0"
  by (auto simp: db_put_def db_overwrote_def db_wf_def db_remaining_def)

lemma db_put_n_overwrote:
  "db_overwrote (db_put_n vs p) \<longleftrightarrow> db_overwrote p \<or> db_remaining p < int (length vs)"
  by (auto simp: db_put_n_def db_overwrote_def db_remaining_def Let_def)

lemma db_offset_all:
  assumes "db_wf p"
  shows "written (db_offset (dlen p) p) = []" "rest (db_offset (dlen p) p) = rest p"
  using assms by (auto simp: db_offset_def written_def rest_def db_wf_def Let_def min_def drop_take
      nat_diff_distrib)

subsection \<open>What a serialiser needs of its buffer\<close>

text \<open>The serialisers of \<^verbatim>\<open>tools.cpp\<close> are templates over the buffer; they only use
  \<^verbatim>\<open>put\<close>. \<open>ok p n\<close> says that \<open>n\<close> more bytes fit.\<close>

locale byte_sink =
  fixes put :: "uchar \<Rightarrow> 'p \<Rightarrow> 'p"
    and out :: "'p \<Rightarrow> uchar list"
    and ok :: "'p \<Rightarrow> nat \<Rightarrow> bool"
  assumes put_out: "ok p (Suc n) \<Longrightarrow> out (put b p) = out p @ [b]"
    and put_ok: "ok p (Suc n) \<Longrightarrow> ok (put b p) n"
    and ok_mono: "ok p n \<Longrightarrow> m \<le> n \<Longrightarrow> ok p m"
begin

lemma puts_out:
  "ok p (length bs + n) \<Longrightarrow> out (fold put bs p) = out p @ bs \<and> ok (fold put bs p) n"
proof (induction bs arbitrary: p)
  case Nil
  then show ?case by simp
next
  case (Cons b bs)
  then have "ok p (Suc (length bs + n))" by simp
  then have "ok (put b p) (length bs + n)" "out (put b p) = out p @ [b]"
    by (auto intro: put_ok put_out)
  with Cons.IH [of "put b p"] show ?case by simp
qed

end

definition db_ok :: "'a databuf \<Rightarrow> nat \<Rightarrow> bool" where
  "db_ok p n \<longleftrightarrow> db_wf p \<and> int n \<le> db_remaining p"

interpretation db_sink: byte_sink db_put written db_ok
proof
  fix p :: "uchar databuf" and n b
  assume "db_ok p (Suc n)"
  then show "written (db_put b p) = written p @ [b]"
    by (simp add: db_ok_def db_remaining_def written_put)
next
  fix p :: "uchar databuf" and n b
  assume "db_ok p (Suc n)"
  then show "db_ok (db_put b p) n"
    using db_wf_put [of p b] by (simp add: db_ok_def db_remaining_def db_put_def)
qed (simp add: db_ok_def)

end
