(* ===== verification/Packetbuf.thy ===== *)
theory Packetbuf
  imports Databuf
begin

text \<open>
  ENet packets (\<^verbatim>\<open>src/src/enet/packet.c\<close>: creation, resizing, the CRC-32 of the
  transport) and the \<^verbatim>\<open>packetbuf\<close> of \<^verbatim>\<open>tools.h\<close> that serialises into one.
  \<^verbatim>\<open>packetbuf::buf\<close> is the packet's own \<^verbatim>\<open>data\<close> pointer: the model keeps
  the two equal with \<open>pb_sync\<close>. \<^verbatim>\<open>enet_malloc\<close> never returns null (it
  aborts), and \<open>junk i\<close> is what the \<open>i\<close>-th cell of a fresh allocation holds.
\<close>

subsection \<open>ENet packets\<close>

record enet_packet =
  pk_data :: "uchar list"
  pk_dataLength :: int
  pk_flags :: u32
  pk_referenceCount :: int

definition ENET_PACKET_FLAG_RELIABLE :: u32 where "ENET_PACKET_FLAG_RELIABLE = 1"
definition ENET_PACKET_FLAG_UNSEQUENCED :: u32 where "ENET_PACKET_FLAG_UNSEQUENCED = 2"
definition ENET_PACKET_FLAG_NO_ALLOCATE :: u32 where "ENET_PACKET_FLAG_NO_ALLOCATE = 4"

type_synonym junk = "nat \<Rightarrow> uchar"

text \<open>\<open>data = None\<close> is a null pointer.\<close>

definition enet_packet_create :: "junk \<Rightarrow> uchar list option \<Rightarrow> int \<Rightarrow> u32 \<Rightarrow> enet_packet" where
  "enet_packet_create junk data n flags =
     \<lparr>pk_data =
        (if flags AND ENET_PACKET_FLAG_NO_ALLOCATE \<noteq> 0 then (case data of None \<Rightarrow> [] | Some d \<Rightarrow> d)
         else if n \<le> 0 then []
         else case data of None \<Rightarrow> map junk [0..<nat n] | Some d \<Rightarrow> take (nat n) d),
      pk_dataLength = n, pk_flags = flags, pk_referenceCount = 0\<rparr>"

definition enet_packet_resize :: "junk \<Rightarrow> int \<Rightarrow> enet_packet \<Rightarrow> enet_packet" where
  "enet_packet_resize junk n k =
     (if n \<le> pk_dataLength k \<or> pk_flags k AND ENET_PACKET_FLAG_NO_ALLOCATE \<noteq> 0
      then k\<lparr>pk_dataLength := n\<rparr>
      else k\<lparr>pk_data := take (nat (pk_dataLength k)) (pk_data k) @
                        map junk [nat (pk_dataLength k)..<nat n],
             pk_dataLength := n\<rparr>)"

subsection \<open>The transport checksum\<close>

text \<open>\<^verbatim>\<open>reflect_crc\<close> reverses the low \<open>bits\<close> bits of a value; the table is built
  from the unreflected polynomial, entry by entry.\<close>

function reflect_loop :: "nat \<Rightarrow> nat \<Rightarrow> u32 \<Rightarrow> u32 \<Rightarrow> u32" where
  "reflect_loop bits b val result =
     (if b < bits
      then reflect_loop bits (Suc b) (signed_drop_bit 1 val)
             (if val AND 1 \<noteq> 0 then result OR push_bit (bits - 1 - b) 1 else result)
      else result)"
  by pat_completeness auto
termination
  by (relation "measure (\<lambda>(bits, b, val, result). bits - b)") auto

declare reflect_loop.simps [simp del]

definition reflect_crc :: "u32 \<Rightarrow> nat \<Rightarrow> u32" where
  "reflect_crc val bits = reflect_loop bits 0 val 0"

definition crc_shift :: "u32 \<Rightarrow> u32" where
  "crc_shift crc = (if crc AND 0x80000000 \<noteq> 0 then push_bit 1 crc XOR 0x04c11db7 else push_bit 1 crc)"

definition crc_entry :: "uchar \<Rightarrow> u32" where
  "crc_entry b = reflect_crc ((crc_shift ^^ 8) (push_bit 24 (reflect_crc (ucast b) 8))) 32"

definition crcTable :: "u32 list" where
  "crcTable = map (\<lambda>n. crc_entry (of_nat n)) [0..<256]"

definition crc_step :: "uchar \<Rightarrow> u32 \<Rightarrow> u32" where
  "crc_step b crc = drop_bit 8 crc XOR crcTable ! unat ((crc AND 0xFF) XOR ucast b)"

text \<open>The result is in host order; the source then swaps it to network order.\<close>

definition enet_crc32 :: "uchar list list \<Rightarrow> u32" where
  "enet_crc32 buffers = NOT (fold (\<lambda>buf crc. fold crc_step buf crc) buffers 0xFFFFFFFF)"

subsection \<open>packetbuf\<close>

record packetbuf =
  pb_base :: "uchar databuf"
  pb_packet :: "enet_packet option"
  pb_growth :: int

definition packetbuf_of :: "enet_packet \<Rightarrow> packetbuf" where
  "packetbuf_of k = \<lparr>pb_base = databuf_new (pk_data k) (pk_dataLength k), pb_packet = Some k, pb_growth = 0\<rparr>"

definition packetbuf_new :: "junk \<Rightarrow> int \<Rightarrow> u32 \<Rightarrow> packetbuf" where
  "packetbuf_new junk growth pflags =
     (let k = enet_packet_create junk None growth pflags
      in \<lparr>pb_base = databuf_new (pk_data k) (pk_dataLength k), pb_packet = Some k, pb_growth = growth\<rparr>)"

definition pb_sync :: "packetbuf \<Rightarrow> packetbuf" where
  "pb_sync p = p\<lparr>pb_packet := map_option (\<lambda>k. k\<lparr>pk_data := dbuf (pb_base p)\<rparr>) (pb_packet p)\<rparr>"

definition pb_reliable :: "packetbuf \<Rightarrow> packetbuf" where
  "pb_reliable p = p\<lparr>pb_packet :=
     map_option (\<lambda>k. k\<lparr>pk_flags := pk_flags k OR ENET_PACKET_FLAG_RELIABLE\<rparr>) (pb_packet p)\<rparr>"

definition pb_resize :: "junk \<Rightarrow> int \<Rightarrow> packetbuf \<Rightarrow> packetbuf" where
  "pb_resize junk n p = (case pb_packet p of
       None \<Rightarrow> p
     | Some k \<Rightarrow> (let k' = enet_packet_resize junk n k
         in p\<lparr>pb_packet := Some k',
              pb_base := (pb_base p)\<lparr>dbuf := pk_data k', dmaxlen := pk_dataLength k'\<rparr>\<rparr>))"

definition pb_checkspace :: "junk \<Rightarrow> int \<Rightarrow> packetbuf \<Rightarrow> packetbuf" where
  "pb_checkspace junk n p = (let b = pb_base p
     in if dlen b + n > dmaxlen b \<and> pb_packet p \<noteq> None \<and> pb_growth p > 0
        then pb_resize junk (max (dlen b + n) (dmaxlen b + pb_growth p)) p else p)"

definition pb_subbuf :: "junk \<Rightarrow> int \<Rightarrow> packetbuf \<Rightarrow> uchar databuf \<times> packetbuf" where
  "pb_subbuf junk sz p0 = (let p = pb_checkspace junk sz p0; (q, b) = db_subbuf sz (pb_base p)
     in (q, p\<lparr>pb_base := b\<rparr>))"

definition pb_put :: "junk \<Rightarrow> uchar \<Rightarrow> packetbuf \<Rightarrow> packetbuf" where
  "pb_put junk v p0 = (let p = pb_checkspace junk 1 p0 in pb_sync (p\<lparr>pb_base := db_put v (pb_base p)\<rparr>))"

definition pb_put_n :: "junk \<Rightarrow> uchar list \<Rightarrow> packetbuf \<Rightarrow> packetbuf" where
  "pb_put_n junk vs p0 = (let p = pb_checkspace junk (int (length vs)) p0
     in pb_sync (p\<lparr>pb_base := db_put_n vs (pb_base p)\<rparr>))"

definition pb_finalize :: "junk \<Rightarrow> packetbuf \<Rightarrow> enet_packet option \<times> packetbuf" where
  "pb_finalize junk p0 = (let p = pb_resize junk (dlen (pb_base p0)) p0 in (pb_packet p, p))"

definition pb_cleanup :: "packetbuf \<Rightarrow> packetbuf" where
  "pb_cleanup p = (case pb_packet p of
       None \<Rightarrow> p
     | Some k \<Rightarrow> if pb_growth p > 0 \<and> pk_referenceCount k = 0
         then p\<lparr>pb_packet := None, pb_base := (pb_base p)\<lparr>dbuf := [], dlen := 0, dmaxlen := 0\<rparr>\<rparr> else p)"

subsection \<open>Invariant: the buffer is the packet's data\<close>

definition pb_wf :: "packetbuf \<Rightarrow> bool" where
  "pb_wf p \<longleftrightarrow> db_wf (pb_base p) \<and> pb_growth p > 0 \<and>
     (case pb_packet p of None \<Rightarrow> False
      | Some k \<Rightarrow> pk_data k = dbuf (pb_base p) \<and> pk_dataLength k = dmaxlen (pb_base p) \<and>
                  pk_flags k AND ENET_PACKET_FLAG_NO_ALLOCATE = 0)"

definition pb_written :: "packetbuf \<Rightarrow> uchar list" where
  "pb_written p = written (pb_base p)"

lemma pb_wf_new:
  "0 < g \<Longrightarrow> fl AND ENET_PACKET_FLAG_NO_ALLOCATE = 0 \<Longrightarrow>
     pb_wf (packetbuf_new junk g fl) \<and> pb_written (packetbuf_new junk g fl) = []"
  by (simp add: pb_wf_def packetbuf_new_def enet_packet_create_def databuf_new_def db_wf_def
      pb_written_def written_def Let_def)

lemma pb_checkspace_wf:
  assumes "pb_wf p" "0 \<le> n"
  shows "pb_wf (pb_checkspace junk n p)" "pb_written (pb_checkspace junk n p) = pb_written p"
    "n \<le> db_remaining (pb_base (pb_checkspace junk n p))"
    "dflags (pb_base (pb_checkspace junk n p)) = dflags (pb_base p)"
  using assms
  by (auto simp: pb_wf_def pb_checkspace_def pb_resize_def enet_packet_resize_def db_wf_def
      db_remaining_def pb_written_def written_def Let_def split: option.splits)

lemma pb_put_wf:
  assumes "pb_wf p"
  shows "pb_wf (pb_put junk v p)" "pb_written (pb_put junk v p) = pb_written p @ [v]"
    "db_overwrote (pb_base (pb_put junk v p)) = db_overwrote (pb_base p)"
proof -
  let ?q = "pb_checkspace junk 1 p"
  note q = pb_checkspace_wf [OF assms, of 1 junk, simplified]
  have wf: "db_wf (pb_base ?q)" using q(1) by (simp add: pb_wf_def)
  then have lt: "dlen (pb_base ?q) < dmaxlen (pb_base ?q)"
    using q(3) by (simp add: db_remaining_def)
  show "pb_wf (pb_put junk v p)"
    using q(1) db_wf_put [OF wf, of v] lt
    by (auto simp: pb_wf_def pb_put_def pb_sync_def db_put_def Let_def split: option.splits)
  show "pb_written (pb_put junk v p) = pb_written p @ [v]"
    using q(2) written_put [OF wf, of v] lt
    by (simp add: pb_written_def pb_put_def pb_sync_def Let_def)
  show "db_overwrote (pb_base (pb_put junk v p)) = db_overwrote (pb_base p)"
    using q(4) lt by (simp add: pb_put_def pb_sync_def Let_def db_put_def db_overwrote_def)
qed

interpretation pb_sink: byte_sink "pb_put junk" pb_written "\<lambda>p n. pb_wf p" for junk
  by unfold_locales (simp_all add: pb_put_wf)

lemma pb_finalize_data:
  assumes "pb_wf p"
  obtains k where "fst (pb_finalize junk p) = Some k" "pk_dataLength k = int (length (pb_written p))"
    "take (nat (pk_dataLength k)) (pk_data k) = pb_written p"
  using assms
  by (auto simp: pb_finalize_def pb_resize_def enet_packet_resize_def pb_wf_def db_wf_def Let_def
      pb_written_def length_written written_def split: option.splits)

end
