(* ===== verification/Netcodec.thy ===== *)
theory Netcodec
  imports Packetbuf
begin

text \<open>
  The wire format of \<^verbatim>\<open>src/src/shared/tools.cpp\<close>: variable-length integers
  (\<^verbatim>\<open>putint\<close>/\<^verbatim>\<open>getint\<close>, \<^verbatim>\<open>putuint\<close>/\<^verbatim>\<open>getuint\<close>), floats as their
  four little-endian bytes, and zero-terminated strings sent as integers. The writers are
  templates over the buffer and take its \<^verbatim>\<open>put\<close> as an argument. An \<^verbatim>\<open>int\<close> is a
  \<^typ>\<open>i32\<close>, compared through \<^const>\<open>sint\<close>; a \<^verbatim>\<open>char\<close> is signed
  (\<^verbatim>\<open>-fsigned-char\<close>).
\<close>

subsection \<open>Writers\<close>

definition putint_t :: "(uchar \<Rightarrow> 'p \<Rightarrow> 'p) \<Rightarrow> i32 \<Rightarrow> 'p \<Rightarrow> 'p" where
  "putint_t put n p =
     (if sint n < 128 \<and> sint n > - 127 then put (ucast n) p
      else if sint n < 0x8000 \<and> sint n \<ge> - 0x8000
      then put (ucast (signed_drop_bit 8 n)) (put (ucast n) (put 0x80 p))
      else put (ucast (signed_drop_bit 24 n)) (put (ucast (signed_drop_bit 16 n))
             (put (ucast (signed_drop_bit 8 n)) (put (ucast n) (put 0x81 p)))))"

definition putuint_t :: "(uchar \<Rightarrow> 'p \<Rightarrow> 'p) \<Rightarrow> i32 \<Rightarrow> 'p \<Rightarrow> 'p" where
  "putuint_t put n p =
     (if sint n < 0 \<or> sint n \<ge> 2 ^ 21
      then put (ucast (signed_drop_bit 21 n))
             (put (ucast (0x80 OR (signed_drop_bit 14 n AND 0x7F)))
               (put (ucast (0x80 OR (signed_drop_bit 7 n AND 0x7F)))
                 (put (ucast (0x80 OR (n AND 0x7F))) p)))
      else if sint n < 2 ^ 7 then put (ucast n) p
      else if sint n < 2 ^ 14
      then put (ucast (signed_drop_bit 7 n)) (put (ucast (0x80 OR (n AND 0x7F))) p)
      else put (ucast (signed_drop_bit 14 n))
             (put (ucast (0x80 OR (signed_drop_bit 7 n AND 0x7F)))
               (put (ucast (0x80 OR (n AND 0x7F))) p)))"

text \<open>The float is its bit pattern; \<^verbatim>\<open>lilswap\<close> is the identity on the little-endian
  hosts modelled.\<close>

definition float_bytes :: "u32 \<Rightarrow> uchar list" where
  "float_bytes f = [ucast f, ucast (drop_bit 8 f), ucast (drop_bit 16 f), ucast (drop_bit 24 f)]"

definition putfloat_t :: "(uchar list \<Rightarrow> 'p \<Rightarrow> 'p) \<Rightarrow> u32 \<Rightarrow> 'p \<Rightarrow> 'p" where
  "putfloat_t putn f p = putn (float_bytes f) p"

fun sendstring_t :: "(uchar \<Rightarrow> 'p \<Rightarrow> 'p) \<Rightarrow> uchar list \<Rightarrow> 'p \<Rightarrow> 'p" where
  "sendstring_t put [] p = putint_t put 0 p"
| "sendstring_t put (c # cs) p = sendstring_t put cs (putint_t put (scast c) p)"

subsection \<open>Readers\<close>

definition getint :: "uchar databuf \<Rightarrow> i32 \<times> uchar databuf" where
  "getint p0 =
     (let (b, p) = db_get p0; c = sint b
      in if c = - 128 then (let (b0, p) = db_get p; (b1, p) = db_get p
                            in (ucast b0 OR push_bit 8 (scast b1), p))
         else if c = - 127 then (let (b0, p) = db_get p; (b1, p) = db_get p;
                                     (b2, p) = db_get p; (b3, p) = db_get p
                                 in (ucast b0 OR push_bit 8 (ucast b1) OR push_bit 16 (ucast b2)
                                       OR push_bit 24 (ucast b3), p))
         else (scast b, p))"

definition getuint :: "uchar databuf \<Rightarrow> i32 \<times> uchar databuf" where
  "getuint p0 =
     (let (b0, p) = db_get p0; n = ucast b0 :: i32
      in if n AND 0x80 = 0 then (n, p)
         else let (b1, p) = db_get p;
                  n = n + (push_bit 7 (ucast b1) - 0x80);
                  (n, p) = (if n AND 2 ^ 14 \<noteq> 0
                            then let (b2, p) = db_get p in (n + (push_bit 14 (ucast b2) - 2 ^ 14), p)
                            else (n, p));
                  (n, p) = (if n AND 2 ^ 21 \<noteq> 0
                            then let (b3, p) = db_get p in (n + (push_bit 21 (ucast b3) - 2 ^ 21), p)
                            else (n, p));
                  n = (if n AND 2 ^ 28 \<noteq> 0 then n OR push_bit 28 (NOT 0) else n)
              in (n, p))"

text \<open>\<^verbatim>\<open>getfloat\<close> reads into an uninitialised local: bytes past the end of the packet
  keep whatever the stack held, \<open>stack\<close>.\<close>

definition getfloat :: "uchar list \<Rightarrow> uchar databuf \<Rightarrow> u32 \<times> uchar databuf" where
  "getfloat stack p0 =
     (let (bs, rd, p) = db_get_n 4 p0; f = bs @ drop (length bs) stack
      in (ucast (f ! 0) OR push_bit 8 (ucast (f ! 1)) OR push_bit 16 (ucast (f ! 2))
            OR push_bit 24 (ucast (f ! 3)), p))"

text \<open>The loop of \<^verbatim>\<open>getstring\<close>; \<open>acc\<close> holds the characters stored so far, so
  \<^verbatim>\<open>t - text\<close> is its length. The result leaves out the terminating zero.\<close>

function getstring_loop :: "nat \<Rightarrow> uchar list \<Rightarrow> uchar databuf \<Rightarrow> uchar list \<times> uchar databuf" where
  "getstring_loop len acc p =
     (if length acc \<ge> len then (take (len - 1) acc, p)
      else if db_remaining p = 0 then (acc, p)
      else let (n, p) = getint p; c = ucast n :: uchar
           in if c = 0 then (acc, p) else getstring_loop len (acc @ [c]) p)"
  by pat_completeness auto
termination
  by (relation "measure (\<lambda>(len, acc, p). len - length acc)") auto

declare getstring_loop.simps [simp del]

definition getstring :: "nat \<Rightarrow> uchar databuf \<Rightarrow> uchar list \<times> uchar databuf" where
  "getstring len p = getstring_loop len [] p"

subsection \<open>The bytes a writer emits\<close>

definition int_bytes :: "i32 \<Rightarrow> uchar list" where
  "int_bytes n = rev (putint_t (#) n [])"

definition uint_bytes :: "i32 \<Rightarrow> uchar list" where
  "uint_bytes n = rev (putuint_t (#) n [])"

definition string_bytes :: "uchar list \<Rightarrow> uchar list" where
  "string_bytes cs = concat (map (\<lambda>c. int_bytes (scast c)) cs) @ int_bytes 0"

lemma putint_fold: "putint_t put n p = fold put (int_bytes n) p"
  by (simp add: putint_t_def int_bytes_def)


lemma putuint_fold: "putuint_t put n p = fold put (uint_bytes n) p"
  by (simp add: putuint_t_def uint_bytes_def)

lemma sendstring_fold: "sendstring_t put cs p = fold put (string_bytes cs) p"
  by (induction cs arbitrary: p) (simp_all add: putint_fold string_bytes_def)

lemma length_int_bytes: "length (int_bytes n) \<in> {1, 3, 5}"
  by (simp add: int_bytes_def putint_t_def)

subsection \<open>Signed narrowing\<close>

lemma sint_narrow:
  fixes n :: i32
  assumes "- 128 \<le> sint n" "sint n < 128"
  shows "sint (ucast n :: uchar) = sint n"
proof -
  have "ucast n = (scast n :: uchar)"
    by (rule fun_cong [OF down_cast_same]) (simp_all add: is_down)
  then show ?thesis
    using assms by (simp add: signed_scast_eq signed_take_bit_int_eq_self)
qed

lemma narrow_widen:
  fixes n :: i32
  assumes "- 128 \<le> sint n" "sint n < 128"
  shows "scast (ucast n :: uchar) = n"
  using sint_narrow [OF assms] by (simp add: scast_eq)

lemma sign_extended_bits:
  fixes n :: i32
  assumes "- (2 ^ k) \<le> sint n" "sint n < 2 ^ k" "k \<le> i" "i < 32"
  shows "bit n i = bit n k"
proof -
  have "signed_take_bit k (sint n) = sint n"
    using assms(1,2) by (simp add: signed_take_bit_int_eq_self)
  then have "bit (sint n) i = bit (signed_take_bit k (sint n)) i" by simp
  also have "\<dots> = bit (sint n) (min k i)" by (simp add: bit_signed_take_bit_iff)
  finally show ?thesis
    using assms(3,4) by (simp add: bit_sint_iff min_def)
qed

subsection \<open>getint reads what putint wrote\<close>

text \<open>One read step over a known input, as a rewrite rule.\<close>

lemma db_get_step:
  assumes "db_wf p" "rest p = b # bs"
  obtains q where "db_get p = (b, q)" "db_wf q" "rest q = bs" "dflags q = dflags p"
proof
  show "db_get p = (b, snd (db_get p))"
    using db_get_Cons(1) [OF assms] by (metis prod.collapse)
qed (use assms db_get_Cons [OF assms] db_wf_get in auto)

lemma int_bytes_cases:
  fixes n :: i32
  obtains (one) "- 127 < sint n" "sint n < 128" "int_bytes n = [ucast n]"
  | (three) "- (2 ^ 15) \<le> sint n" "sint n < 2 ^ 15"
      "int_bytes n = [0x80, ucast n, ucast (signed_drop_bit 8 n)]"
  | (five) "int_bytes n = [0x81, ucast n, ucast (signed_drop_bit 8 n),
      ucast (signed_drop_bit 16 n), ucast (signed_drop_bit 24 n)]"
proof -
  consider "- 127 < sint n \<and> sint n < 128" | "\<not> (- 127 < sint n \<and> sint n < 128)"
      "- (2 ^ 15) \<le> sint n \<and> sint n < 2 ^ 15" |
    "\<not> (- 127 < sint n \<and> sint n < 128)" "\<not> (- (2 ^ 15) \<le> sint n \<and> sint n < 2 ^ 15)"
    by blast
  then show thesis
  proof cases
    case 1
    then show thesis by (intro one) (simp_all add: int_bytes_def putint_t_def)
  next
    case 2
    then show thesis by (intro three) (auto simp: int_bytes_def putint_t_def)
  next
    case 3
    then show thesis by (intro five) (auto simp: int_bytes_def putint_t_def)
  qed
qed

lemma join2:
  fixes n :: i32
  assumes "- (2 ^ 15) \<le> sint n" "sint n < 2 ^ 15"
  shows "(ucast (ucast n :: uchar) :: i32) OR push_bit 8 (scast (ucast (signed_drop_bit 8 n) :: uchar)) = n"
proof (rule bit_word_eqI)
  fix i assume i: "i < LENGTH(32)"
  have hi: "15 \<le> i \<Longrightarrow> bit n i = bit n 15"
    using sign_extended_bits [OF assms, of i] i by simp
  consider "i < 8" | "8 \<le> i" "i < 15" | "15 \<le> i" by force
  then show "bit ((ucast (ucast n :: uchar) :: i32) OR push_bit 8 (scast (ucast (signed_drop_bit 8 n) :: uchar))) i = bit n i"
    using i hi by cases (auto simp: bit_simps min_def)
qed

lemma join4:
  fixes n :: i32
  shows "ucast (ucast n :: uchar) OR push_bit 8 (ucast (ucast (signed_drop_bit 8 n) :: uchar))
    OR push_bit 16 (ucast (ucast (signed_drop_bit 16 n) :: uchar))
    OR push_bit 24 (ucast (ucast (signed_drop_bit 24 n) :: uchar)) = n"
proof (rule bit_word_eqI)
  fix i assume "i < LENGTH(32)"
  then consider "i < 8" | "8 \<le> i" "i < 16" | "16 \<le> i" "i < 24" | "24 \<le> i" "i < 32" by force
  then show "bit ((ucast (ucast n :: uchar) :: i32) OR push_bit 8 (ucast (ucast (signed_drop_bit 8 n) :: uchar))
    OR push_bit 16 (ucast (ucast (signed_drop_bit 16 n) :: uchar))
    OR push_bit 24 (ucast (ucast (signed_drop_bit 24 n) :: uchar))) i = bit n i"
    by cases (auto simp: bit_simps min_def)
qed

lemma getint_bytes:
  assumes "db_wf p" "rest p = int_bytes n @ bs"
  obtains q where "getint p = (n, q)" "db_wf q" "rest q = bs" "dflags q = dflags p"
proof (cases n rule: int_bytes_cases)
  case one
  with assms obtain q where q: "db_get p = (ucast n, q)" "db_wf q" "rest q = bs" "dflags q = dflags p"
    by (auto elim: db_get_step)
  have "sint (ucast n :: uchar) = sint n" "scast (ucast n :: uchar) = n"
    using one sint_narrow [of n] narrow_widen [of n] by auto
  with q one show ?thesis by (intro that [of q]) (auto simp: getint_def)
next
  case three
  with assms obtain q0 where q0: "db_get p = (0x80, q0)" "db_wf q0"
      "rest q0 = ucast n # ucast (signed_drop_bit 8 n) # bs" "dflags q0 = dflags p"
    by (auto elim: db_get_step)
  from q0(2,3) obtain q1 where q1: "db_get q0 = (ucast n, q1)" "db_wf q1"
      "rest q1 = ucast (signed_drop_bit 8 n) # bs" "dflags q1 = dflags q0"
    by (rule db_get_step)
  from q1(2,3) obtain q2 where q2: "db_get q1 = (ucast (signed_drop_bit 8 n), q2)" "db_wf q2"
      "rest q2 = bs" "dflags q2 = dflags q1"
    by (rule db_get_step)
  show ?thesis
    using q0 q1 q2 join2 [OF three(1,2)] by (intro that [of q2]) (auto simp: getint_def)
next
  case five
  with assms obtain q0 where q0: "db_get p = (0x81, q0)" "db_wf q0"
      "rest q0 = ucast n # ucast (signed_drop_bit 8 n) # ucast (signed_drop_bit 16 n)
        # ucast (signed_drop_bit 24 n) # bs" "dflags q0 = dflags p"
    by (auto elim: db_get_step)
  from q0(2,3) obtain q1 where q1: "db_get q0 = (ucast n, q1)" "db_wf q1"
      "rest q1 = ucast (signed_drop_bit 8 n) # ucast (signed_drop_bit 16 n)
        # ucast (signed_drop_bit 24 n) # bs" "dflags q1 = dflags q0"
    by (rule db_get_step)
  from q1(2,3) obtain q2 where q2: "db_get q1 = (ucast (signed_drop_bit 8 n), q2)" "db_wf q2"
      "rest q2 = ucast (signed_drop_bit 16 n) # ucast (signed_drop_bit 24 n) # bs" "dflags q2 = dflags q1"
    by (rule db_get_step)
  from q2(2,3) obtain q3 where q3: "db_get q2 = (ucast (signed_drop_bit 16 n), q3)" "db_wf q3"
      "rest q3 = ucast (signed_drop_bit 24 n) # bs" "dflags q3 = dflags q2"
    by (rule db_get_step)
  from q3(2,3) obtain q4 where q4: "db_get q3 = (ucast (signed_drop_bit 24 n), q4)" "db_wf q4"
      "rest q4 = bs" "dflags q4 = dflags q3"
    by (rule db_get_step)
  show ?thesis
    using q0 q1 q2 q3 q4 join4 [of n] by (intro that [of q4]) (auto simp: getint_def)
qed


subsection \<open>getuint reads what putuint wrote\<close>

text \<open>The reader adds shifted bytes to a 32-bit value; every value it passes through is
  named by the integer it stands for.\<close>

lemma low_byte_signed_shift:
  fixes n :: i32
  assumes "k \<le> 24"
  shows "(ucast (signed_drop_bit k n) :: uchar) = word_of_int (uint n div 2 ^ k)"
proof -
  have "(ucast (signed_drop_bit k n) :: uchar) = word_of_int (drop_bit k (uint n))"
    by (rule bit_word_eqI) (use assms in \<open>auto simp: bit_simps bit_uint_iff\<close>)
  then show ?thesis by (simp only: drop_bit_eq_div)
qed

lemma cont_byte:
  fixes n :: i32
  assumes "k \<le> 24"
  shows "uint (ucast (0x80 OR (signed_drop_bit k n AND 0x7F)) :: uchar) = 128 + uint n div 2 ^ k mod 128"
proof -
  have m: "signed_drop_bit k n AND 0x7F = take_bit 7 (drop_bit k n)"
  proof (rule bit_word_eqI)
    fix i assume "i < LENGTH(32)"
    have seven: "(0x7F :: i32) = mask 7" by (simp add: mask_eq_exp_minus_1)
    show "bit (signed_drop_bit k n AND 0x7F) i = bit (take_bit 7 (drop_bit k n)) i"
      using assms unfolding seven by (auto simp: bit_simps)
  qed
  have d: "(0x80 :: i32) AND take_bit 7 (drop_bit k n) = 0"
  proof (rule bit_word_eqI)
    fix i assume "i < LENGTH(32)"
    have "(0x80 :: i32) = 2 ^ 7" by simp
    then show "bit ((0x80 :: i32) AND take_bit 7 (drop_bit k n)) i = bit (0 :: i32) i"
      by (simp only: bit_and_iff bit_exp_iff bit_take_bit_iff) auto
  qed
  have "take_bit 32 (uint n) = uint n"
    by (rule take_bit_int_eq_self) (use uint_lt2p [of n] in simp_all)
  then have "uint (take_bit 7 (drop_bit k n)) = take_bit 7 (drop_bit k (uint n))"
    by (simp only: unsigned_take_bit_eq unsigned_drop_bit_eq) simp
  then have "uint (take_bit 7 (drop_bit k n)) = uint n div 2 ^ k mod 128"
    by (simp only: take_bit_eq_mod drop_bit_eq_div) simp
  then have e: "0x80 OR (signed_drop_bit k n AND 0x7F) = word_of_int (128 + uint n div 2 ^ k mod 128)"
    using disjunctive_add_eq_or [OF d] m by (metis of_int_add of_int_numeral word_of_int_uint)
  have "uint (ucast (word_of_int K :: i32) :: uchar) = K" if "0 \<le> K" "K < 256" for K :: int
    using that by (simp add: unsigned_ucast_eq unsigned_of_int take_bit_int_eq_self)
  from this [of "128 + uint n div 2 ^ k mod 128"] show ?thesis
    unfolding e by simp
qed

lemmas cont_byte0 = cont_byte [of 0, simplified]

lemma bit_test:
  "k < 32 \<Longrightarrow> (word_of_int K AND 2 ^ k = (0 :: i32)) \<longleftrightarrow> even (K div 2 ^ k)"
  using bit_iff_odd [of K k] by (simp add: and_exp_eq_0_iff_not_bit bit_word_of_int_iff)

lemma byte_shift:
  "push_bit k (ucast (b :: uchar)) = (word_of_int (2 ^ k * uint b) :: i32)"
  by (simp add: push_bit_eq_mult mult.commute)

lemma extend28:
  assumes "2 ^ 28 \<le> K" "K < 2 ^ 29"
  shows "(word_of_int K :: i32) OR push_bit 28 (NOT 0) = word_of_int (K - 2 ^ 29)"
proof -
  let ?t = "take_bit 28 (word_of_int K :: i32)"
  have "(word_of_int K :: i32) OR push_bit 28 (NOT 0) = ?t OR push_bit 28 (NOT 0)"
    by (rule bit_word_eqI) (auto simp: bit_simps)
  also have "\<dots> = ?t + push_bit 28 (NOT 0)"
    by (rule disjunctive_add_eq_or [symmetric]) (rule bit_word_eqI, auto simp: bit_simps)
  also have "?t = word_of_int (K mod 2 ^ 28)"
    unfolding take_bit_eq_mod [symmetric] by (rule bit_word_eqI) (auto simp: bit_simps)
  also have "K mod 2 ^ 28 = K - 2 ^ 28"
    using assms mod_pos_pos_trivial [of "K - 2 ^ 28" "2 ^ 28"] minus_mod_self2 [of K "2 ^ 28"] by simp
  finally show ?thesis
    by (simp add: push_bit_eq_mult)
qed


text \<open>The reader on the four byte patterns.\<close>

lemma getuint_1:
  assumes "db_wf p" "rest p = b # bs" "uint b < 128"
  obtains q where "getuint p = (word_of_int (uint b), q)" "db_wf q" "rest q = bs" "dflags q = dflags p"
proof -
  from assms(1,2) obtain q where q: "db_get p = (b, q)" "db_wf q" "rest q = bs" "dflags q = dflags p"
    by (rule db_get_step)
  have "(ucast b :: i32) AND 0x80 = 0"
    using bit_test [of 7 "uint b"] assms(3) by simp
  with q show thesis by (intro that [of q]) (simp_all add: getuint_def)
qed


lemma add_byte:
  "(word_of_int K :: i32) + (push_bit k (ucast (b :: uchar)) - word_of_int c)
     = word_of_int (K + 2 ^ k * uint b - c)"
  by (simp add: byte_shift)

lemma add_byte_first:
  "(ucast (b0 :: uchar) :: i32) + (push_bit 7 (ucast (b1 :: uchar)) - 0x80)
     = word_of_int (uint b0 + 128 * uint b1 - 128)"
  using add_byte [of "uint b0" 7 b1 128] by simp

lemma add_byte_14: "(word_of_int K :: i32) + (push_bit 14 (ucast (b :: uchar)) - 2 ^ 14)
     = word_of_int (K + 2 ^ 14 * uint b - 2 ^ 14)"
  and add_byte_21: "(word_of_int K :: i32) + (push_bit 21 (ucast (b :: uchar)) - 2 ^ 21)
     = word_of_int (K + 2 ^ 21 * uint b - 2 ^ 21)"
  using add_byte [of K 14 b "2 ^ 14"] add_byte [of K 21 b "2 ^ 21"] by simp_all

lemma cont_flag: "128 \<le> uint (b :: uchar) \<Longrightarrow> (ucast b :: i32) AND 0x80 \<noteq> 0"
proof -
  assume "128 \<le> uint b"
  moreover have "uint b < 256" using uint_lt2p [of b] by simp
  ultimately have "uint b div 128 = 1" by presburger
  then show ?thesis using bit_test [of 7 "uint b"] by simp
qed

text \<open>The last stage of the reader, from the value after the second byte on.\<close>

definition getuint_tail :: "i32 \<Rightarrow> uchar databuf \<Rightarrow> i32 \<times> uchar databuf" where
  "getuint_tail n p =
     (let (n, p) = (if n AND 2 ^ 14 \<noteq> 0
                    then let (b2, p) = db_get p in (n + (push_bit 14 (ucast b2) - 2 ^ 14), p)
                    else (n, p));
          (n, p) = (if n AND 2 ^ 21 \<noteq> 0
                    then let (b3, p) = db_get p in (n + (push_bit 21 (ucast b3) - 2 ^ 21), p)
                    else (n, p));
          n = (if n AND 2 ^ 28 \<noteq> 0 then n OR push_bit 28 (NOT 0) else n)
      in (n, p))"

lemma getuint_cont:
  assumes "db_get p = (b0, q)" "128 \<le> uint b0" "db_get q = (b1, r)"
  shows "getuint p = getuint_tail (word_of_int (uint b0 + 128 * uint b1 - 128)) r"
  using assms cont_flag [of b0]
  by (simp add: getuint_def getuint_tail_def add_byte_first Let_def)

lemma getuint_tail_2: "0 \<le> K \<Longrightarrow> K < 2 ^ 14 \<Longrightarrow> getuint_tail (word_of_int K) r = (word_of_int K, r)"
  using bit_test [of 14 K] bit_test [of 21 K] bit_test [of 28 K]
  by (simp add: getuint_tail_def div_pos_pos_trivial)

lemma getuint_tail_3:
  assumes "2 ^ 14 \<le> K" "K < 2 ^ 15" "db_get r = (b, q)" "uint b < 128"
  shows "getuint_tail (word_of_int K) r = (word_of_int (K - 2 ^ 14 + 2 ^ 14 * uint b), q)"
proof -
  let ?L = "K + 2 ^ 14 * uint b - 2 ^ 14"
  have "K div 2 ^ 14 = 1" using assms(1,2) by (simp add: div_pos_geq div_pos_pos_trivial)
  moreover have "0 \<le> ?L" "?L < 2 ^ 21" using assms(1,2,4) uint_nonnegative [of b] by (simp_all, linarith)
  ultimately show ?thesis
    using assms(3) bit_test [of 14 K] bit_test [of 21 ?L] bit_test [of 28 ?L] add_byte_14 [of K b]
    by (simp add: getuint_tail_def div_pos_pos_trivial algebra_simps)
qed

lemma getuint_tail_4:
  assumes "2 ^ 14 \<le> K" "K < 2 ^ 15" "db_get r = (b, q)" "128 \<le> uint b" "db_get q = (c, s)"
  defines "M \<equiv> K + 2 ^ 14 * uint b - 2 ^ 14 - 2 ^ 21 + 2 ^ 21 * uint c"
  shows "getuint_tail (word_of_int K) r = (word_of_int (if M < 2 ^ 28 then M else M - 2 ^ 29), s)"
proof -
  let ?L = "K + 2 ^ 14 * uint b - 2 ^ 14"
  have b: "uint b < 256" and c: "0 \<le> uint c" "uint c < 256"
    using uint_lt2p [of b] uint_lt2p [of c] by simp_all
  have "K div 2 ^ 14 = 1" using assms(1,2) by (simp add: div_pos_geq div_pos_pos_trivial)
  then have n14: "(word_of_int K :: i32) AND 2 ^ 14 \<noteq> 0" by (subst bit_test) simp_all
  have L: "2 ^ 21 \<le> ?L" "?L < 2 ^ 22" using assms(1,2,4) b by simp_all
  then have "?L div 2 ^ 21 = 1" by (simp add: div_pos_geq div_pos_pos_trivial)
  then have n21: "(word_of_int ?L :: i32) AND 2 ^ 21 \<noteq> 0" by (subst bit_test) simp_all
  have M: "0 \<le> M" "M < 2 ^ 29" using L c by (simp_all add: M_def)
  have n28: "(word_of_int M :: i32) AND 2 ^ 28 = 0 \<longleftrightarrow> M < 2 ^ 28"
  proof (subst bit_test)
    show "even (M div 2 ^ 28) \<longleftrightarrow> M < 2 ^ 28"
      using M div_pos_pos_trivial [of M "2 ^ 28"] div_pos_geq [of "2 ^ 28" M]
        div_pos_pos_trivial [of "M - 2 ^ 28" "2 ^ 28"] by (cases "M < 2 ^ 28") simp_all
  qed simp
  have e1: "(word_of_int K :: i32) + (push_bit 14 (ucast b) - 2 ^ 14) = word_of_int ?L"
    by (rule add_byte_14)
  have e2: "(word_of_int ?L :: i32) + (push_bit 21 (ucast c) - 2 ^ 21) = word_of_int M"
    unfolding add_byte_21 M_def by (rule arg_cong [where f = word_of_int]) (simp only: algebra_simps)
  have "getuint_tail (word_of_int K) r =
      (if (word_of_int M :: i32) AND 2 ^ 28 \<noteq> 0 then word_of_int M OR push_bit 28 (NOT 0) else word_of_int M, s)"
    by (simp only: getuint_tail_def Let_def assms(3,5) prod.case n14 e1 n21 e2 if_True not_False_eq_True)
  then show ?thesis
    using M extend28 [of M] by (simp add: n28 del: power_numeral)
qed


definition uint_wire :: "i32 \<Rightarrow> bool" where
  "uint_wire n \<longleftrightarrow> - (2 ^ 28) \<le> sint n \<and> sint n < 2 ^ 28"

lemma uint_from_sint: "uint (n :: i32) = (if sint n < 0 then sint n + 2 ^ 32 else sint n)"
proof -
  have "uint n = sint n mod 2 ^ 32" by (simp add: uint_sint take_bit_eq_mod)
  moreover have "- (2 ^ 31) \<le> sint n" "sint n < 2 ^ 31"
    using sint_greater_eq [of n] sint_lt [of n] by simp_all
  ultimately show ?thesis
    using mod_pos_pos_trivial [of "sint n" "2 ^ 32"] mod_pos_pos_trivial [of "sint n + 2 ^ 32" "2 ^ 32"]
    by simp
qed

lemma septets: "(u::int) mod 128 + 128 * (u div 128 mod 128) = u mod 2 ^ 14"
  "u mod 2 ^ 14 + 2 ^ 14 * (u div 2 ^ 14 mod 128) = u mod 2 ^ 21"
  "u mod 2 ^ 21 + 2 ^ 21 * (u div 2 ^ 21 mod 256) = u mod 2 ^ 29"
  using zmod_zmult2_eq [of 128 u 128] zmod_zmult2_eq [of 128 u "2 ^ 14"] zmod_zmult2_eq [of 256 u "2 ^ 21"]
  by simp_all

lemma low_byte:
  "k \<le> 24 \<Longrightarrow> uint (ucast (signed_drop_bit k (n :: i32)) :: uchar) = uint n div 2 ^ k mod 256"
  by (simp only: low_byte_signed_shift uint_word_of_int) simp

lemma uint_bytes_cases:
  fixes n :: i32
  assumes "uint_wire n"
  obtains (four) c0 c1 c2 b where "uint_bytes n = [c0, c1, c2, b]" "uint c0 = 128 + uint n mod 128"
      "uint c1 = 128 + uint n div 128 mod 128" "uint c2 = 128 + uint n div 2 ^ 14 mod 128"
      "uint b = uint n div 2 ^ 21 mod 256"
  | (one) b where "uint_bytes n = [b]" "uint b = uint n" "uint n < 128"
  | (two) c0 b where "uint_bytes n = [c0, b]" "uint c0 = 128 + uint n mod 128"
      "uint b = uint n div 128" "uint n < 2 ^ 14"
  | (three) c0 c1 b where "uint_bytes n = [c0, c1, b]" "uint c0 = 128 + uint n mod 128"
      "uint c1 = 128 + uint n div 128 mod 128" "uint b = uint n div 2 ^ 14" "uint n < 2 ^ 21"
proof -
  let ?hd = "ucast (0x80 OR (n AND 0x7F)) :: uchar"
  let ?c = "\<lambda>k. ucast (0x80 OR (signed_drop_bit k n AND 0x7F)) :: uchar"
  let ?b = "\<lambda>k. ucast (signed_drop_bit k n) :: uchar"
  have pos: "0 \<le> sint n \<Longrightarrow> uint n = sint n" by (simp add: uint_from_sint)
  have h: "uint ?hd = 128 + uint n mod 128" by (rule cont_byte0)
  have c7: "uint (?c 7) = 128 + uint n div 128 mod 128" using cont_byte [of 7 n] by simp
  have c14: "uint (?c 14) = 128 + uint n div 2 ^ 14 mod 128" by (rule cont_byte) simp
  have b: "uint (?b k) = uint n div 2 ^ k" if "k \<le> 24" "0 \<le> sint n" "uint n div 2 ^ k < 256" for k
    unfolding low_byte [OF that(1)] using that(3) by (intro mod_pos_pos_trivial) (simp_all add: pos_imp_zdiv_nonneg_iff)
  consider "sint n < 0 \<or> sint n \<ge> 2 ^ 21" | "0 \<le> sint n" "sint n < 2 ^ 7"
    | "2 ^ 7 \<le> sint n" "sint n < 2 ^ 14" | "2 ^ 14 \<le> sint n" "sint n < 2 ^ 21" by force
  then show thesis
  proof cases
    case 1
    then have "uint_bytes n = [?hd, ?c 7, ?c 14, ?b 21]"
      by (simp only: uint_bytes_def putuint_t_def if_True) simp
    from four [OF this h c7 c14 low_byte] show thesis by simp
  next
    case 2
    then have "uint_bytes n = [?b 0]" by (simp add: uint_bytes_def putuint_t_def)
    from one [OF this] show thesis using 2 pos b [of 0] by simp
  next
    case 3
    then have "uint_bytes n = [?hd, ?b 7]" by (simp add: uint_bytes_def putuint_t_def)
    moreover have "uint n div 2 ^ 7 < 256" "uint n < 2 ^ 14"
      using 3 pos zdiv_mono1 [of "uint n" "2 ^ 14 - 1" 128] by simp_all
    ultimately show thesis using two [OF _ h] b [of 7] 3 by simp
  next
    case 4
    then have "uint_bytes n = [?hd, ?c 7, ?b 14]" by (simp add: uint_bytes_def putuint_t_def)
    moreover have "uint n div 2 ^ 14 < 256" "uint n < 2 ^ 21"
      using 4 pos zdiv_mono1 [of "uint n" "2 ^ 21 - 1" "2 ^ 14"] by simp_all
    ultimately show thesis using three [OF _ h c7] b [of 14] 4 by simp
  qed
qed


lemma getuint_bytes:
  assumes "db_wf p" "rest p = uint_bytes n @ bs" "uint_wire n"
  obtains q where "getuint p = (n, q)" "db_wf q" "rest q = bs" "dflags q = dflags p"
  using assms(3)
proof (cases rule: uint_bytes_cases)
  case (one b)
  with assms obtain q where "getuint p = (word_of_int (uint b), q)" "db_wf q" "rest q = bs" "dflags q = dflags p"
    using getuint_1 [of p b bs] by auto
  then show ?thesis using one(2) by (intro that [of q]) simp_all
next
  case (two c0 b)
  let ?K = "uint c0 + 128 * uint b - 128"
  from assms two obtain q0 where q0: "db_get p = (c0, q0)" "db_wf q0" "rest q0 = b # bs" "dflags q0 = dflags p"
    by (auto elim: db_get_step)
  from q0(2,3) obtain q1 where q1: "db_get q0 = (b, q1)" "db_wf q1" "rest q1 = bs" "dflags q1 = dflags q0"
    by (rule db_get_step)
  have K: "?K = uint n" using two by (simp add: algebra_simps)
  have "getuint p = getuint_tail (word_of_int ?K) q1"
    using q0(1) q1(1) two(2) by (intro getuint_cont) simp_all
  then have "getuint p = (n, q1)" using getuint_tail_2 [of "uint n" q1] two(4) K by simp
  with q0 q1 show ?thesis by (intro that [of q1]) simp_all
next
  case (three c0 c1 b)
  let ?K = "uint c0 + 128 * uint c1 - 128"
  from assms three obtain q0 where q0: "db_get p = (c0, q0)" "db_wf q0" "rest q0 = c1 # b # bs" "dflags q0 = dflags p"
    by (auto elim: db_get_step)
  from q0(2,3) obtain q1 where q1: "db_get q0 = (c1, q1)" "db_wf q1" "rest q1 = b # bs" "dflags q1 = dflags q0"
    by (rule db_get_step)
  from q1(2,3) obtain q2 where q2: "db_get q1 = (b, q2)" "db_wf q2" "rest q2 = bs" "dflags q2 = dflags q1"
    by (rule db_get_step)
  have K: "?K = uint n mod 2 ^ 14 + 2 ^ 14" using three(2,3) septets(1) [of "uint n"] by simp
  have b: "uint b < 128"
    using three(4,5) zdiv_mono1 [of "uint n" "2 ^ 21 - 1" "2 ^ 14"] by simp
  have "getuint p = getuint_tail (word_of_int ?K) q1"
    using q0(1) q1(1) three(2) by (intro getuint_cont) simp_all
  also have "\<dots> = (word_of_int (?K - 2 ^ 14 + 2 ^ 14 * uint b), q2)"
    using q2(1) b pos_mod_bound [of "2 ^ 14" "uint n"] K
    by (intro getuint_tail_3) simp_all
  also have "?K - 2 ^ 14 + 2 ^ 14 * uint b = uint n"
    unfolding K three(4) by simp
  finally have "getuint p = (n, q2)" by simp
  with q0 q1 q2 show ?thesis by (intro that [of q2]) simp_all
next
  case (four c0 c1 c2 b)
  let ?K = "uint c0 + 128 * uint c1 - 128"
  let ?M = "?K + 2 ^ 14 * uint c2 - 2 ^ 14 - 2 ^ 21 + 2 ^ 21 * uint b"
  from assms four obtain q0 where q0: "db_get p = (c0, q0)" "db_wf q0" "rest q0 = c1 # c2 # b # bs" "dflags q0 = dflags p"
    by (auto elim: db_get_step)
  from q0(2,3) obtain q1 where q1: "db_get q0 = (c1, q1)" "db_wf q1" "rest q1 = c2 # b # bs" "dflags q1 = dflags q0"
    by (rule db_get_step)
  from q1(2,3) obtain q2 where q2: "db_get q1 = (c2, q2)" "db_wf q2" "rest q2 = b # bs" "dflags q2 = dflags q1"
    by (rule db_get_step)
  from q2(2,3) obtain q3 where q3: "db_get q2 = (b, q3)" "db_wf q3" "rest q3 = bs" "dflags q3 = dflags q2"
    by (rule db_get_step)
  have K: "?K = uint n mod 2 ^ 14 + 2 ^ 14" using four(2,3) septets(1) [of "uint n"] by simp
  have "?M = uint n mod 2 ^ 14 + 2 ^ 14 * (uint n div 2 ^ 14 mod 128) + 2 ^ 21 * (uint n div 2 ^ 21 mod 256)"
    unfolding K four(4,5) by (simp add: algebra_simps)
  then have M: "?M = uint n mod 2 ^ 29" by (simp only: septets)
  have "getuint p = getuint_tail (word_of_int ?K) q1"
    using q0(1) q1(1) four(2) by (intro getuint_cont) simp_all
  also have "\<dots> = (word_of_int (if ?M < 2 ^ 28 then ?M else ?M - 2 ^ 29), q3)"
    using q2(1) q3(1) four(4) pos_mod_bound [of "2 ^ 14" "uint n"] K
    by (intro getuint_tail_4) simp_all
  also have "(if ?M < 2 ^ 28 then ?M else ?M - 2 ^ 29) = sint n"
  proof (cases "sint n < 0")
    case True
    then have "uint n mod 2 ^ 29 = (sint n + 2 ^ 29) mod 2 ^ 29"
      using mod_mult_self2 [of "sint n" "2 ^ 29" 8] by (simp add: uint_from_sint)
    also have "\<dots> = sint n + 2 ^ 29"
      using True assms(3) by (intro mod_pos_pos_trivial) (simp_all add: uint_wire_def)
    finally show ?thesis using M True assms(3) by (simp add: uint_wire_def)
  next
    case False
    then have "uint n mod 2 ^ 29 = sint n"
      using assms(3) by (simp add: uint_from_sint uint_wire_def mod_pos_pos_trivial)
    then show ?thesis using M False assms(3) by (simp add: uint_wire_def)
  qed
  finally have "getuint p = (n, q3)" by simp
  with q0 q1 q2 q3 show ?thesis by (intro that [of q3]) simp_all
qed


subsection \<open>Strings\<close>

lemma ucast_scast_char: "ucast (scast (c :: uchar) :: i32) = c"
  by (rule bit_word_eqI) (auto simp: bit_simps)

lemma int_bytes_nonempty: "int_bytes n \<noteq> []"
  using length_int_bytes [of n] by auto

lemma remaining_nonzero: "db_wf p \<Longrightarrow> rest p = xs @ ys \<Longrightarrow> xs \<noteq> [] \<Longrightarrow> db_remaining p \<noteq> 0"
  using length_rest [of p] by (cases xs) auto

lemma getstring_loop_bytes:
  assumes "db_wf p" "rest p = string_bytes cs @ bs" "0 \<notin> set cs" "length acc \<le> len" "0 < len"
  shows "fst (getstring_loop len acc p) = take (len - 1) (acc @ cs) \<and>
    (length acc + length cs < len \<longrightarrow>
      (\<exists>q. snd (getstring_loop len acc p) = q \<and> db_wf q \<and> rest q = bs \<and> dflags q = dflags p))"
  using assms
proof (induction cs arbitrary: acc p)
  case Nil
  show ?case
  proof (cases "length acc < len")
    case True
    from Nil obtain q where q: "getint p = (0, q)" "db_wf q" "rest q = bs" "dflags q = dflags p"
      by (auto simp: string_bytes_def elim: getint_bytes)
    have "db_remaining p \<noteq> 0"
      using Nil remaining_nonzero [of p "int_bytes 0" bs] int_bytes_nonempty [of 0]
      by (simp add: string_bytes_def)
    with True q show ?thesis by (auto simp: getstring_loop.simps [of len acc p])
  next
    case False
    with Nil show ?thesis by (simp add: getstring_loop.simps [of len acc p])
  qed
next
  case (Cons c cs)
  show ?case
  proof (cases "length acc < len")
    case True
    from Cons.prems obtain q where q: "getint p = (scast c, q)" "db_wf q" "rest q = string_bytes cs @ bs"
        "dflags q = dflags p"
      by (auto simp: string_bytes_def elim: getint_bytes)
    have "db_remaining p \<noteq> 0"
      using Cons.prems remaining_nonzero [of p "int_bytes (scast c)" "string_bytes cs @ bs"]
        int_bytes_nonempty [of "scast c"] by (simp add: string_bytes_def)
    with True q Cons.prems have "getstring_loop len acc p = getstring_loop len (acc @ [c]) q"
      by (auto simp: getstring_loop.simps [of len acc p] ucast_scast_char)
    with Cons.IH [of q "acc @ [c]"] q Cons.prems True show ?thesis by auto
  next
    case False
    with Cons.prems show ?thesis by (simp add: getstring_loop.simps [of len acc p])
  qed
qed

subsection \<open>The serialisers on the model's buffers\<close>

text \<open>Inside the interface: a writer appends exactly its bytes when they fit.\<close>

context byte_sink
begin

lemma putint_out: "ok p (length (int_bytes v) + n) \<Longrightarrow>
    out (putint_t put v p) = out p @ int_bytes v \<and> ok (putint_t put v p) n"
  using puts_out [of p "int_bytes v" n] by (simp add: putint_fold)

lemma putuint_out: "ok p (length (uint_bytes v) + n) \<Longrightarrow>
    out (putuint_t put v p) = out p @ uint_bytes v \<and> ok (putuint_t put v p) n"
  using puts_out [of p "uint_bytes v" n] by (simp add: putuint_fold)

lemma sendstring_out: "ok p (length (string_bytes cs) + n) \<Longrightarrow>
    out (sendstring_t put cs p) = out p @ string_bytes cs \<and> ok (sendstring_t put cs p) n"
  using puts_out [of p "string_bytes cs" n] by (simp add: sendstring_fold)

lemma putints_out: "ok p (length (concat (map int_bytes vs)) + n) \<Longrightarrow>
    out (fold (putint_t put) vs p) = out p @ concat (map int_bytes vs) \<and> ok (fold (putint_t put) vs p) n"
proof (induction vs arbitrary: p)
  case (Cons v vs)
  then have "ok p (length (int_bytes v) + (length (concat (map int_bytes vs)) + n))"
    by (simp add: add.assoc)
  from putint_out [OF this] Cons.IH [of "putint_t put v p"] show ?case by simp
qed simp

end


subsection \<open>Readers are memory safe\<close>

text \<open>Whatever the bytes, the readers stay inside the window and never move back.\<close>

definition reader_step :: "uchar databuf \<Rightarrow> uchar databuf \<Rightarrow> bool" where
  "reader_step p q \<longleftrightarrow> db_wf q \<and> dlen p \<le> dlen q \<and> dmaxlen q = dmaxlen p \<and> dbuf q = dbuf p \<and>
     (db_overread p \<longrightarrow> db_overread q)"

lemma reader_step_trans: "reader_step p q \<Longrightarrow> reader_step q r \<Longrightarrow> reader_step p r"
  by (auto simp: reader_step_def)

lemma reader_step_wf: "reader_step p q \<Longrightarrow> db_wf q"
  by (simp add: reader_step_def)

lemma reader_step_refl: "db_wf p \<Longrightarrow> reader_step p p"
  by (simp add: reader_step_def)

lemma reader_step_get: "db_wf p \<Longrightarrow> reader_step p (snd (db_get p))"
  using db_wf_get [of p] db_get_overread_mono [of p]
  by (auto simp: reader_step_def db_get_def split: if_splits)

lemma reader_step_gets: "db_wf p \<Longrightarrow> reader_step p (((\<lambda>p. snd (db_get p)) ^^ k) p)"
proof (induction k)
  case (Suc k)
  let ?q = "((\<lambda>p. snd (db_get p)) ^^ k) p"
  have "reader_step p ?q" using Suc by simp
  moreover have "reader_step ?q (snd (db_get ?q))"
    using Suc reader_step_wf by (intro reader_step_get) simp
  ultimately show ?case using reader_step_trans by simp
qed (simp add: reader_step_refl)

text \<open>Both integer readers are a number of single reads.\<close>

lemma getint_gets: "\<exists>k. snd (getint p) = ((\<lambda>p. snd (db_get p)) ^^ k) p"
proof -
  consider "sint (fst (db_get p)) = - 128" | "sint (fst (db_get p)) = - 127"
    | "sint (fst (db_get p)) \<noteq> - 128" "sint (fst (db_get p)) \<noteq> - 127" by blast
  then show ?thesis
  proof cases
    case 1
    then show ?thesis by (intro exI [of _ 3]) (simp add: getint_def Let_def case_prod_beta eval_nat_numeral)
  next
    case 2
    then show ?thesis by (intro exI [of _ 5]) (simp add: getint_def Let_def case_prod_beta eval_nat_numeral)
  next
    case 3
    then show ?thesis by (intro exI [of _ 1]) (simp add: getint_def Let_def case_prod_beta)
  qed
qed

lemma getuint_gets: "\<exists>k. snd (getuint p) = ((\<lambda>p. snd (db_get p)) ^^ k) p"
proof -
  let ?g = "\<lambda>p. snd (db_get p)"
  have "snd (getuint p) \<in> {?g p, ?g (?g p), ?g (?g (?g p)), ?g (?g (?g (?g p)))}"
    by (simp add: getuint_def Let_def case_prod_beta if_distrib cong: if_cong)
  then have "snd (getuint p) = (?g ^^ 1) p \<or> snd (getuint p) = (?g ^^ 2) p \<or>
      snd (getuint p) = (?g ^^ 3) p \<or> snd (getuint p) = (?g ^^ 4) p"
    by (simp add: eval_nat_numeral)
  then show ?thesis by blast
qed

lemma getint_safe: "db_wf p \<Longrightarrow> reader_step p (snd (getint p))"
  using getint_gets [of p] reader_step_gets [of p] by metis

lemma getuint_safe: "db_wf p \<Longrightarrow> reader_step p (snd (getuint p))"
  using getuint_gets [of p] reader_step_gets [of p] by metis

lemma getstring_loop_safe:
  "db_wf p \<Longrightarrow> length acc \<le> len \<Longrightarrow> 0 < len \<Longrightarrow>
     reader_step p (snd (getstring_loop len acc p)) \<and> length (fst (getstring_loop len acc p)) < len"
proof (induction len acc p rule: getstring_loop.induct)
  case (1 len acc p)
  obtain n q where q: "getint p = (n, q)" by force
  have step: "reader_step p q" using getint_safe [OF "1.prems"(1)] q by simp
  show ?case
  proof (cases "length acc < len \<and> db_remaining p \<noteq> 0 \<and> (ucast n :: uchar) \<noteq> 0")
    case True
    then have "reader_step q (snd (getstring_loop len (acc @ [ucast n]) q)) \<and>
        length (fst (getstring_loop len (acc @ [ucast n]) q)) < len"
      using "1.IH" [of "(n, q)" n q "ucast n"] q reader_step_wf [OF step] "1.prems" by simp
    with True q step show ?thesis
      by (auto simp: getstring_loop.simps [of len acc p] intro: reader_step_trans)
  next
    case False
    with q step "1.prems" show ?thesis
      by (auto simp: getstring_loop.simps [of len acc p] reader_step_refl)
  qed
qed

fun getints :: "nat \<Rightarrow> uchar databuf \<Rightarrow> i32 list \<times> uchar databuf" where
  "getints 0 p = ([], p)"
| "getints (Suc k) p = (let (n, p) = getint p; (ns, p) = getints k p in (n # ns, p))"

lemma getints_bytes:
  assumes "db_wf p" "rest p = concat (map int_bytes ns) @ bs"
  shows "\<exists>q. getints (length ns) p = (ns, q) \<and> db_wf q \<and> rest q = bs \<and> dflags q = dflags p"
  using assms
proof (induction ns arbitrary: p)
  case (Cons n ns)
  then obtain q where q: "getint p = (n, q)" "db_wf q" "rest q = concat (map int_bytes ns) @ bs"
      "dflags q = dflags p"
    by (auto elim: getint_bytes)
  from Cons.IH [OF q(2,3)] q show ?case by auto
qed simp

subsection \<open>Properties of the wire format\<close>

text \<open>C1. What the game server puts on the wire it can read back: any list of 32-bit integers
  written with \<^verbatim>\<open>putint\<close> into a fresh growing \<^verbatim>\<open>packetbuf\<close> and finalized gives a
  packet from which \<^verbatim>\<open>getint\<close> reads the same list, consuming the packet exactly and
  raising neither buffer flag; growth never loses a byte.\<close>

theorem packet_ints_roundtrip:
  assumes "0 < growth"
  shows "\<exists>k q. fst (pb_finalize junk (fold (putint_t (pb_put junk)) ns
            (packetbuf_new junk growth ENET_PACKET_FLAG_RELIABLE))) = Some k \<and>
          getints (length ns) (pb_base (packetbuf_of k)) = (ns, q) \<and>
          db_remaining q = 0 \<and> \<not> db_overread q \<and> \<not> db_overwrote q"
proof -
  let ?p = "packetbuf_new junk growth ENET_PACKET_FLAG_RELIABLE"
  let ?q = "fold (putint_t (pb_put junk)) ns ?p"
  have p: "pb_wf ?p" "pb_written ?p = []"
    using pb_wf_new [OF assms, of ENET_PACKET_FLAG_RELIABLE junk]
    by (simp_all add: ENET_PACKET_FLAG_RELIABLE_def ENET_PACKET_FLAG_NO_ALLOCATE_def)
  then have q: "pb_written ?q = concat (map int_bytes ns)" "pb_wf ?q"
    using pb_sink.putints_out [where p = ?p and vs = ns and junk = junk] by simp_all
  obtain k where k: "fst (pb_finalize junk ?q) = Some k" "pk_dataLength k = int (length (pb_written ?q))"
      "take (nat (pk_dataLength k)) (pk_data k) = pb_written ?q"
    using q(2) by (rule pb_finalize_data)
  let ?b = "pb_base (packetbuf_of k)"
  have "pk_dataLength k \<le> int (length (pk_data k))"
    using k(2) arg_cong [OF k(3), of length] by (simp split: if_splits)
  then have b: "db_wf ?b" "rest ?b = concat (map int_bytes ns) @ []" "dflags ?b = 0"
    using k(2,3) q(1) by (simp_all add: packetbuf_of_def rest_def) (simp_all add: databuf_new_def)
  from getints_bytes [OF b(1,2)] obtain r where r: "getints (length ns) ?b = (ns, r)" "db_wf r"
      "rest r = []" "dflags r = 0" using b(3) by auto
  then have "db_remaining r = 0" using length_rest [of r] by simp
  with k(1) r show ?thesis by (auto simp: db_overread_def db_overwrote_def)
qed

lemma packet_ints_roundtrip_witness:
  "(0::int) < 16 \<and> (\<exists>k q. fst (pb_finalize (\<lambda>i. 0xCC) (fold (putint_t (pb_put (\<lambda>i. 0xCC))) [5, - 200, 70000]
            (packetbuf_new (\<lambda>i. 0xCC) 16 ENET_PACKET_FLAG_RELIABLE))) = Some k \<and>
          getints 3 (pb_base (packetbuf_of k)) = ([5, - 200, 70000], q) \<and>
          db_remaining q = 0 \<and> \<not> db_overread q \<and> \<not> db_overwrote q)"
  using packet_ints_roundtrip [of 16 "\<lambda>i. 0xCC" "[5, - 200, 70000]"]
  by (simp add: eval_nat_numeral del: getints.simps)

text \<open>\<^verbatim>\<open>putuint\<close> is exact on 29 signed bits: for every integer from -2^28 to
  2^28 - 1 the bytes it writes into a buffer with room are read back by \<^verbatim>\<open>getuint\<close>
  as the same integer, whatever follows them.\<close>

lemma putuint_roundtrip:
  assumes "- (2 ^ 28) \<le> sint n" "sint n < 2 ^ 28" "db_wf p" "rest p = uint_bytes n @ bs"
  shows "\<exists>q. getuint p = (n, q) \<and> rest q = bs \<and> dflags q = dflags p \<and>
           written (putuint_t db_put n (databuf_new (replicate 4 0) 4)) = uint_bytes n"
proof -
  have "length (uint_bytes n) \<le> 4" by (simp add: uint_bytes_def putuint_t_def)
  then have "db_ok (databuf_new (replicate 4 0) 4) (length (uint_bytes n) + 0)"
    by (simp add: db_ok_def db_remaining_def) (simp add: databuf_new_def)
  from db_sink.putuint_out [OF this]
  have "written (putuint_t db_put n (databuf_new (replicate 4 0) 4)) = uint_bytes n"
    by (simp add: written_def databuf_new_def)
  moreover have "uint_wire n" using assms(1,2) by (simp add: uint_wire_def)
  ultimately show ?thesis using assms(3,4) by (metis getuint_bytes)
qed

text \<open>\<^verbatim>\<open>getstring\<close> recovers a string sent by \<^verbatim>\<open>sendstring\<close>, cut to the
  size of the destination: for a text without zero characters the result is its first
  \<open>len - 1\<close> characters, and when the text fits the reader stops right behind it.\<close>

lemma string_roundtrip:
  assumes "db_wf p" "rest p = string_bytes cs @ bs" "0 \<notin> set cs" "0 < len"
  shows "fst (getstring len p) = take (len - 1) cs \<and>
    (length cs < len \<longrightarrow> rest (snd (getstring len p)) = bs)"
  using getstring_loop_bytes [OF assms(1-3), of "[]" len] assms(4) by (auto simp: getstring_def)

text \<open>C8. Parsing is memory safe on every input: from a well-formed buffer, the integer and
  string readers end in a well-formed buffer over the same memory, with the cursor not moved
  back and a raised overread flag kept, and a string result together with its terminator fits
  the destination.\<close>

theorem readers_memory_safe:
  assumes "db_wf p" "0 < len"
  shows "reader_step p (snd (getint p)) \<and> reader_step p (snd (getuint p)) \<and>
    reader_step p (snd (getstring len p)) \<and> length (fst (getstring len p)) < len"
  using getint_safe [OF assms(1)] getuint_safe [OF assms(1)]
    getstring_loop_safe [OF assms(1), of "[]" len] assms(2)
  by (simp add: getstring_def)

lemma readers_memory_safe_witness:
  "reader_step (databuf_new [0x80, 1] 2) (snd (getint (databuf_new [0x80, 1] 2))) \<and>
   reader_step (databuf_new [0x80, 1] 2) (snd (getuint (databuf_new [0x80, 1] 2))) \<and>
   reader_step (databuf_new [0x80, 1] 2) (snd (getstring 15 (databuf_new [0x80, 1] 2))) \<and>
   length (fst (getstring 15 (databuf_new [0x80, 1] 2))) < 15"
  by (rule readers_memory_safe) simp_all

subsection \<open>Coordinates\<close>

text \<open>A coordinate as the map readers of the game modes take it from a packet: scaled back from the
  wire, and not below zero.\<close>

definition get_coord :: "uchar databuf \<Rightarrow> rat \<times> uchar databuf" where
  "get_coord p = (let (n, p) = getint p in (max (of_int (sint n) / DMF) 0, p))"

end
