(* ===== verification/Worldstate.thy ===== *)
theory Worldstate
  imports Bots Netcodec
begin

text \<open>
  The bulk of what the server sends, from \<^verbatim>\<open>src/src/fpsgame/server.cpp\<close>: \<^verbatim>\<open>buildworldstate\<close> lays the positions and then
  the messages of all players into one block of memory and lets the packets of all clients point into it. The bytes of a
  client and of its bots lie next to each other. When the part that is being filled is sent, its bytes are written a second time behind
  it, and a client is sent the bytes from the end of its own on, as many as are not its own: so everyone gets everything but
  its own bytes, without a copy for each. The block lives until the last packet that points into it is freed.
  A pointer into the block is the offset from its start, and \<open>- 1\<close> is the null pointer.
\<close>

subsection \<open>Recording\<close>

definition writedemo :: "int \<Rightarrow> uchar list \<Rightarrow> 'a world_scheme \<Rightarrow> 'a world_scheme" where
  "writedemo chan bs w = (if demorecord w then emit (DemoWrite (gamemillis w - demoffset (net w)) chan bs) w else w)"

definition write_delayed_broadcast :: "int \<Rightarrow> uchar list \<Rightarrow> 'a world_scheme \<Rightarrow> 'a world_scheme" where
  "write_delayed_broadcast chan bs w =
     (if spectator_delay w = 0 \<or> interm w \<noteq> 0 then w
      else w\<lparr>net := (net w)\<lparr>delayed_sendpackets := delayed_sendpackets (net w)
             @ [\<lparr>dp_time = totalmillis w + spectator_delay w, dp_channel = chan, dp_data = bs\<rparr>]\<rparr>\<rparr>)"

definition recordpacket :: "int \<Rightarrow> uchar list \<Rightarrow> 'a world_scheme \<Rightarrow> 'a world_scheme" where
  "recordpacket chan bs w = write_delayed_broadcast chan bs (writedemo chan bs w)"

definition is_delayed_spectator :: "'a world_scheme \<Rightarrow> clientinfo \<Rightarrow> bool" where
  "is_delayed_spectator w ci \<longleftrightarrow> spectator_delay w \<noteq> 0 \<and> gs_state (ci_state ci) = CS_SPECTATOR \<and> ci_privilege ci \<noteq> PRIV_ADMIN"

subsection \<open>Filling the block\<close>

text \<open>The block that is being filled: \<open>wb_buf\<close> is \<^verbatim>\<open>wsbuf\<close>, whose memory begins behind the bytes \<open>wb_before\<close>.\<close>

record wsbuilder =
  wb_block :: nat
  wb_before :: "uchar list"
  wb_buf :: "uchar databuf"
  wb_uses :: int

definition wb_base :: "wsbuilder \<Rightarrow> int" where "wb_base b = int (length (wb_before b))"

definition wb_data :: "wsbuilder \<Rightarrow> uchar list" where "wb_data b = wb_before b @ dbuf (wb_buf b)"

text \<open>The packet of one client, of the \<open>wslen\<close> bytes of the part that is sent.\<close>

definition send_client :: "int \<Rightarrow> bool \<Rightarrow> int \<Rightarrow> clientinfo \<Rightarrow> wsbuilder \<times> 'a world_scheme \<Rightarrow> wsbuilder \<times> 'a world_scheme" where
  "send_client chan reliable wslen ci bw =
     (let (b, w) = bw
      in if aitype (ci_state ci) \<noteq> AI_NONE then (b, w)
         else let own = (ci_wsdata ci \<ge> wb_base b);
                  start = (if own then ci_wsdata ci + ci_wslen ci else wb_base b);
                  sz = (if own then wslen - ci_wslen ci else wslen)
              in if sz \<le> 0 then (b, w)
                 else (if peer_accepts (net w) (ci_clientnum ci) then b\<lparr>wb_uses := wb_uses b + 1\<rparr> else b,
                       emit (SendData (ci_clientnum ci) chan reliable (wb_block b) start sz) w))"

text \<open>\<^verbatim>\<open>sendpositions\<close> and \<^verbatim>\<open>sendmessages\<close> differ in the channel and in the flag of the packets.\<close>

definition send_part :: "int \<Rightarrow> bool \<Rightarrow> wsbuilder \<times> 'a world_scheme \<Rightarrow> wsbuilder \<times> 'a world_scheme" where
  "send_part chan reliable bw =
     (let (b, w) = bw
      in if db_empty (wb_buf b) then (b, w)
         else let wslen = dlen (wb_buf b); bytes = written (wb_buf b);
                  w = recordpacket chan bytes w;
                  b = b\<lparr>wb_buf := db_put_n bytes (wb_buf b)\<rparr>;
                  (b, w) = fold (send_client chan reliable wslen) (clients w) (b, w)
              in (b\<lparr>wb_before := wb_before b @ written (wb_buf b), wb_buf := db_offset (dlen (wb_buf b)) (wb_buf b)\<rparr>, w))"

definition sendpositions :: "wsbuilder \<times> 'a world_scheme \<Rightarrow> wsbuilder \<times> 'a world_scheme" where
  "sendpositions = send_part 0 False"

definition sendmessages :: "wsbuilder \<times> 'a world_scheme \<Rightarrow> wsbuilder \<times> 'a world_scheme" where
  "sendmessages bw = send_part 1 (reliablemessages (net (snd bw))) bw"

text \<open>The new bytes from \<open>ofs\<close> on belong to the client \<open>cn\<close>.\<close>

definition mark_own :: "int \<Rightarrow> int \<Rightarrow> wsbuilder \<Rightarrow> 'a world_scheme \<Rightarrow> 'a world_scheme" where
  "mark_own cn ofs b = upd_client cn (\<lambda>ci. let len = dlen (wb_buf b) - ofs
     in if ci_wsdata ci < wb_base b then ci\<lparr>ci_wsdata := wb_base b + ofs, ci_wslen := len\<rparr> else ci\<lparr>ci_wslen := ci_wslen ci + len\<rparr>)"

definition addposition :: "int \<Rightarrow> int \<Rightarrow> int \<Rightarrow> wsbuilder \<times> 'a world_scheme \<Rightarrow> wsbuilder \<times> 'a world_scheme" where
  "addposition mtu cn bn bw =
     (let pos = ci_position (client bn (snd bw))
      in if pos = [] then bw
         else let (b, w) = (if dlen (wb_buf (fst bw)) + int (length pos) > mtu then sendpositions bw else bw);
                  ofs = dlen (wb_buf b);
                  b = b\<lparr>wb_buf := db_put_n pos (wb_buf b)\<rparr>;
                  w = upd_client bn (\<lambda>ci. ci\<lparr>ci_position := []\<rparr>) w
              in (b, mark_own cn ofs b w))"

definition addmessages :: "int \<Rightarrow> int \<Rightarrow> int \<Rightarrow> wsbuilder \<times> 'a world_scheme \<Rightarrow> wsbuilder \<times> 'a world_scheme" where
  "addmessages mtu cn bn bw =
     (let msgs = ci_messages (client bn (snd bw))
      in if msgs = [] then bw
         else let (b, w) = (if dlen (wb_buf (fst bw)) + 10 + int (length msgs) > mtu then sendmessages bw else bw);
                  ofs = dlen (wb_buf b);
                  p = putint_t db_put (word_of_int N_CLIENT) (wb_buf b);
                  p = putint_t db_put (word_of_int (ci_clientnum (client bn w))) p;
                  p = putuint_t db_put (word_of_int (int (length msgs))) p;
                  b = b\<lparr>wb_buf := db_put_n msgs p\<rparr>;
                  w = upd_client bn (\<lambda>ci. ci\<lparr>ci_messages := []\<rparr>) w
              in (b, mark_own cn ofs b w))"

text \<open>The loops over the clients and their bots, for one of the two.\<close>

definition add_client :: "(int \<Rightarrow> int \<Rightarrow> wsbuilder \<times> 'a world_scheme \<Rightarrow> wsbuilder \<times> 'a world_scheme) \<Rightarrow> int
    \<Rightarrow> wsbuilder \<times> 'a world_scheme \<Rightarrow> wsbuilder \<times> 'a world_scheme" where
  "add_client add cn bw =
     (let ci = client cn (snd bw)
      in if aitype (ci_state ci) \<noteq> AI_NONE then bw else fold (add cn) (ci_bots ci) (add cn cn bw))"

definition wsmax :: "'a world_scheme \<Rightarrow> int" where
  "wsmax w = (\<Sum>ci \<leftarrow> clients w. int (length (ci_position ci)) + (if ci_messages ci \<noteq> [] then 10 + int (length (ci_messages ci)) else 0))"

definition reset_clients :: "'a world_scheme \<Rightarrow> 'a world_scheme" where
  "reset_clients w = w\<lparr>clients := map (\<lambda>ci. ci\<lparr>ci_overflow := 0, ci_wsdata := - 1\<rparr>) (clients w)\<rparr>"

definition ws_setup :: "'a world_scheme \<Rightarrow> wsbuilder" where
  "ws_setup w = (let n = 2 * wsmax w
     in \<lparr>wb_block = nextblock (net w), wb_before = [], wb_buf = databuf_new (fresh_memory (conf w) (nat n)) n, wb_uses = 0\<rparr>)"

definition ws_mtu :: "'a world_scheme \<Rightarrow> int" where
  "ws_mtu w = (let mtu = servermtu (net w) - 100 in if mtu \<le> 0 then 2 * wsmax w else mtu)"

definition fill_block :: "'a world_scheme \<Rightarrow> wsbuilder \<times> 'a world_scheme" where
  "fill_block w =
     (let ns = map ci_clientnum (clients w); mtu = ws_mtu w;
          bw = sendpositions (fold (add_client (addposition mtu)) ns (ws_setup w, w))
      in sendmessages (fold (add_client (addmessages mtu)) ns bw))"

definition buildworldstate :: "'a world_scheme \<Rightarrow> bool \<times> 'a world_scheme" where
  "buildworldstate w =
     (if wsmax w \<le> 0 then (False, (reset_clients w)\<lparr>net := (net w)\<lparr>reliablemessages := False\<rparr>\<rparr>)
      else let (b, w) = fill_block (reset_clients w);
               n = (net w)\<lparr>reliablemessages := False, nextblock := nextblock (net w) + 1\<rparr>
           in if wb_uses b \<noteq> 0
              then (True, w\<lparr>net := n\<lparr>worldstates := worldstates n @ [\<lparr>ws_block = wb_block b, ws_uses = wb_uses b, ws_data = wb_data b\<rparr>]\<rparr>\<rparr>)
              else (False, w\<lparr>net := n\<rparr>))"

text \<open>The network library frees a packet that points into a block.\<close>

fun release_block :: "nat \<Rightarrow> nat \<Rightarrow> worldstate list \<Rightarrow> (nat \<times> worldstate) option" where
  "release_block block i [] = None"
| "release_block block i (ws # wss) =
     (if ws_block ws = block then Some (i, ws\<lparr>ws_uses := ws_uses ws - 1\<rparr>) else release_block block (Suc i) wss)"

definition cleanworldstate :: "nat \<Rightarrow> 'a world_scheme \<Rightarrow> 'a world_scheme" where
  "cleanworldstate block w =
     (case release_block block 0 (worldstates (net w)) of
        None \<Rightarrow> w
      | Some (i, ws) \<Rightarrow>
          let wss = (worldstates (net w))[i := ws]
          in w\<lparr>net := (net w)\<lparr>worldstates := (if ws_uses ws \<le> 0 then remove_unordered i wss else wss)\<rparr>\<rparr>)"

subsection \<open>Sending\<close>

text \<open>\<^verbatim>\<open>sendpackets\<close>; with a \<^verbatim>\<open>packetdelay\<close> of zero the remainder is a division by zero, which is \<open>None\<close>.\<close>

definition send_delayed :: "'a world_scheme \<Rightarrow> 'a world_scheme" where
  "send_delayed w =
     (case delayed_sendpackets (net w) of
        [] \<Rightarrow> w
      | d # ds \<Rightarrow>
          if totalmillis w \<ge> dp_time d
          then let w = fold (\<lambda>ci w. if \<not> is_delayed_spectator w ci \<or> ci_specmillis ci + spectator_delay w > totalmillis w then w
                                    else emit (sendf (ci_clientnum ci) (dp_channel d) [MB (dp_data d)]) w) (clients w) w
               in w\<lparr>net := (net w)\<lparr>delayed_sendpackets := ds\<rparr>\<rparr>
          else w)"

definition sendpackets :: "bool \<Rightarrow> 'a world_scheme \<Rightarrow> (bool \<times> 'a world_scheme) option" where
  "sendpackets force w =
     (if clients w = [] \<or> (\<not> hasnonlocalclients w \<and> \<not> demorecord w) then Some (False, w)
      else let w = send_delayed w; curtime = enet_time (net w) - lastsend (net w)
           in if curtime < packetdelay (net w) \<and> \<not> force then Some (False, w)
              else let (flush, w) = buildworldstate w
                   in if packetdelay (net w) = 0 then None
                      else Some (flush, w\<lparr>net := (net w)\<lparr>lastsend := lastsend (net w) + (curtime - curtime mod packetdelay (net w))\<rparr>\<rparr>))"

subsection \<open>Parts as lists of chunks\<close>

text \<open>A chunk is what one player has to say, with the number of the client that it belongs to. In a part the chunks of a client are
  next to each other.\<close>

type_synonym chunk = "int \<times> uchar list"

fun contig :: "'b list \<Rightarrow> bool" where
  "contig [] = True"
| "contig [x] = True"
| "contig (x # y # ys) = (contig (y # ys) \<and> (x = y \<or> x \<notin> set ys))"

definition bytes :: "chunk list \<Rightarrow> uchar list" where "bytes cs = concat (map snd cs)"

definition pre :: "int \<Rightarrow> chunk list \<Rightarrow> chunk list" where "pre n = takeWhile (\<lambda>c. fst c \<noteq> n)"
definition own :: "int \<Rightarrow> chunk list \<Rightarrow> chunk list" where "own n = filter (\<lambda>c. fst c = n)"
definition post :: "int \<Rightarrow> chunk list \<Rightarrow> chunk list" where "post n = dropWhile (\<lambda>c. fst c = n) \<circ> dropWhile (\<lambda>c. fst c \<noteq> n)"

text \<open>What the client \<open>n\<close> is sent of a part: what follows its own bytes and then what is before them.\<close>

definition payload :: "int \<Rightarrow> chunk list \<Rightarrow> uchar list" where "payload n cs = bytes (post n cs) @ bytes (pre n cs)"

lemma contig_Cons: "contig (x # xs) \<longleftrightarrow> contig xs \<and> (xs = [] \<or> hd xs = x \<or> x \<notin> set xs)"
  by (cases xs) auto

lemma contig_append: "contig (xs @ ys) \<Longrightarrow> contig xs \<and> contig ys"
proof (induction xs)
  case (Cons x xs)
  then show ?case by (cases "xs = []") (auto simp: contig_Cons)
qed simp

lemma contig_remove: "contig (xs @ y # ys) \<Longrightarrow> contig (xs @ ys)"
proof (induction xs)
  case (Cons x xs)
  then show ?case by (cases "xs = []") (auto simp: contig_Cons)
qed (simp add: contig_Cons)

lemma contig_replicate: "contig ys \<Longrightarrow> x \<notin> set ys \<Longrightarrow> contig (replicate k x @ ys)"
proof (induction k)
  case (Suc k)
  then show ?case by (cases k) (auto simp: contig_Cons)
qed simp

lemma bytes_simps [simp]: "bytes [] = []" "bytes (c # cs) = snd c @ bytes cs" "bytes (cs @ ds) = bytes cs @ bytes ds"
  by (simp_all add: bytes_def)

lemma contig_split:
  assumes "contig (map fst cs)"
  shows "cs = pre n cs @ own n cs @ post n cs" "filter (\<lambda>c. fst c \<noteq> n) cs = pre n cs @ post n cs"
proof -
  have in_front: "fst c = n \<Longrightarrow> contig (map fst (c # ds)) \<Longrightarrow> ds = own n ds @ dropWhile (\<lambda>c. fst c = n) ds
      \<and> filter (\<lambda>c. fst c \<noteq> n) ds = dropWhile (\<lambda>c. fst c = n) ds" for c and ds :: "chunk list"
  proof (induction ds arbitrary: c)
    case (Cons d ds)
    show ?case
    proof (cases "fst d = n")
      case True
      then show ?thesis using Cons.IH [of d] Cons.prems by (auto simp: own_def)
    next
      case False
      then have "n \<notin> fst ` set ds" using Cons.prems by auto
      then have "filter (\<lambda>c. fst c = n) ds = []" "filter (\<lambda>c. fst c \<noteq> n) ds = ds" by (force intro!: filter_False filter_True)+
      then show ?thesis using False by (simp add: own_def)
    qed
  qed (simp add: own_def)
  have "cs = pre n cs @ own n cs @ post n cs \<and> filter (\<lambda>c. fst c \<noteq> n) cs = pre n cs @ post n cs" using assms
  proof (induction cs)
    case (Cons c cs)
    show ?case
    proof (cases "fst c = n")
      case True
      then show ?thesis using in_front [OF True, of cs] Cons.prems by (simp add: pre_def own_def post_def)
    next
      case False
      have "contig (map fst cs)" using Cons.prems by (simp add: contig_Cons)
      from Cons.IH [OF this] False show ?thesis by (simp add: pre_def own_def post_def)
    qed
  qed (simp add: pre_def own_def post_def)
  then show "cs = pre n cs @ own n cs @ post n cs" "filter (\<lambda>c. fst c \<noteq> n) cs = pre n cs @ post n cs" by blast+
qed

lemma pre_out:
  assumes n: "n \<notin> fst ` set cs"
  shows "pre n cs = cs" "own n cs = []" "post n cs = []"
proof -
  have a: "fst c \<noteq> n" if "c \<in> set cs" for c using that n by force
  then have t: "takeWhile (\<lambda>c. fst c \<noteq> n) cs = cs" by (simp add: takeWhile_eq_all_conv)
  have d: "dropWhile (\<lambda>c. fst c \<noteq> n) cs = []" using a by (induction cs) auto
  show "pre n cs = cs" "own n cs = []" using a t by (simp_all add: pre_def own_def filter_empty_conv)
  show "post n cs = []" unfolding post_def comp_def d by simp
qed

lemma pre_in: "n \<in> fst ` set cs \<Longrightarrow> pre n (cs @ ds) = pre n cs"
  by (auto simp: pre_def takeWhile_append1)

lemma pre_own_append: "pre n (cs @ [(n, x)]) = pre n cs" "own n (cs @ [(m, x)]) = (if m = n then own n cs @ [(m, x)] else own n cs)"
proof -
  show "pre n (cs @ [(n, x)]) = pre n cs"
  proof (cases "n \<in> fst ` set cs")
    case False
    then have p: "pre n cs = cs" by (rule pre_out)
    have "fst c \<noteq> n" if "c \<in> set cs" for c using that False by force
    then have "takeWhile (\<lambda>c. fst c \<noteq> n) (cs @ [(n, x)]) = cs @ takeWhile (\<lambda>c. fst c \<noteq> n) [(n, x)]" by (rule takeWhile_append2)
    then show ?thesis unfolding p unfolding pre_def by simp
  qed (rule pre_in)
qed (simp add: own_def)

text \<open>A slice of memory.\<close>

definition slice :: "uchar list \<Rightarrow> int \<times> int \<Rightarrow> uchar list" where
  "slice mem = (\<lambda>(start, sz). take (nat sz) (drop (nat start) mem))"

lemma slice_append: "0 \<le> fst p \<Longrightarrow> 0 \<le> snd p \<Longrightarrow> fst p + snd p \<le> int (length mem) \<Longrightarrow> slice (mem @ mem2) p = slice mem p"
  by (auto simp: slice_def split_beta)

lemma slice_twice:
  assumes "contig (map fst cs)"
  shows "slice (mem @ bytes cs @ bytes cs) (int (length mem + length (bytes (pre n cs)) + length (bytes (own n cs))),
    int (length (bytes cs)) - int (length (bytes (own n cs)))) = payload n cs"
proof -
  have b: "bytes cs = bytes (pre n cs) @ bytes (own n cs) @ bytes (post n cs)"
    using contig_split(1) [OF assms, of n] by (metis bytes_simps(3))
  let ?u = "mem @ bytes (pre n cs) @ bytes (own n cs)"
  have l: "int (length (bytes cs)) - int (length (bytes (own n cs))) = int (length (bytes (post n cs) @ bytes (pre n cs)))" by (simp add: b)
  have "mem @ bytes cs @ bytes cs = ?u @ (bytes (post n cs) @ bytes (pre n cs)) @ bytes (own n cs) @ bytes (post n cs)" by (simp add: b)
  moreover have "nat (int (length mem + length (bytes (pre n cs)) + length (bytes (own n cs)))) = length ?u" by simp
  ultimately show ?thesis by (simp only: slice_def prod.case l nat_int payload_def) simp
qed

subsection \<open>Writing several times\<close>

lemma put_n_room:
  assumes "db_wf p" and "int (length xs) \<le> db_remaining p"
  shows "db_put_n xs p = p\<lparr>dbuf := written p @ xs @ drop (nat (dlen p) + length xs) (dbuf p), dlen := dlen p + int (length xs)\<rparr>"
proof -
  have "min (dmaxlen p - dlen p) (int (length xs)) = int (length xs)" using assms(2) by (simp add: db_remaining_def)
  then show ?thesis using assms by (simp add: db_put_n_def Let_def db_remaining_def overlay_def written_def)
qed

lemma put_n_facts:
  assumes "db_wf p" and "int (length xs) \<le> db_remaining p"
  shows "written (db_put_n xs p) = written p @ xs" "dlen (db_put_n xs p) = dlen p + int (length xs)" "dmaxlen (db_put_n xs p) = dmaxlen p"
    "db_wf (db_put_n xs p)" "db_overwrote (db_put_n xs p) = db_overwrote p" "length (dbuf (db_put_n xs p)) = length (dbuf p)"
proof -
  show "db_wf (db_put_n xs p)" using assms(1) by (rule db_wf_put_n)
  show "written (db_put_n xs p) = written p @ xs" using assms by (simp add: written_put_n)
  show "dlen (db_put_n xs p) = dlen p + int (length xs)" "dmaxlen (db_put_n xs p) = dmaxlen p" using put_n_room [OF assms] by simp_all
  show "db_overwrote (db_put_n xs p) = db_overwrote p" using assms by (simp add: db_put_n_overwrote)
  show "length (dbuf (db_put_n xs p)) = length (dbuf p)"
    using put_n_room [OF assms] length_written [OF assms(1)] assms by (auto simp: db_wf_def db_remaining_def)
qed

lemma put_n_append:
  assumes "db_wf p" and "int (length (xs @ ys)) \<le> db_remaining p"
  shows "db_put_n ys (db_put_n xs p) = db_put_n (xs @ ys) p"
proof -
  have x: "int (length xs) \<le> db_remaining p" using assms(2) by simp
  note f = put_n_facts [OF assms(1) x]
  have y: "int (length ys) \<le> db_remaining (db_put_n xs p)" using f(2,3) assms(2) by (simp add: db_remaining_def)
  have d: "nat (dlen p + int (length xs)) = nat (dlen p) + length xs" using assms(1) by (auto simp: db_wf_def)
  have "drop (nat (dlen p + int (length xs)) + length ys) (dbuf (db_put_n xs p)) = drop (nat (dlen p) + length (xs @ ys)) (dbuf p)"
    using length_written [OF assms(1)] by (simp add: put_n_room [OF assms(1) x] d add.commute add.left_commute)
  then show ?thesis
    unfolding put_n_room [OF f(4) y] f(1) put_n_room [OF assms] by (simp add: put_n_room [OF assms(1) x])
qed

lemma puts_put_n: "db_wf p \<Longrightarrow> int (length xs) \<le> db_remaining p \<Longrightarrow> fold db_put xs p = db_put_n xs p"
proof (induction xs arbitrary: p)
  case Nil
  then show ?case by (simp add: put_n_room written_def)
next
  case (Cons x xs)
  have o: "db_put x p = db_put_n [x] p"
    using Cons.prems by (auto simp: put_n_room db_put_def written_def db_remaining_def upd_conv_take_nth_drop db_wf_def)
  have x: "int (length [x]) \<le> db_remaining p" using Cons.prems(2) by simp
  have "fold db_put xs (db_put_n [x] p) = db_put_n xs (db_put_n [x] p)"
    using Cons.prems put_n_facts [OF Cons.prems(1) x] by (intro Cons.IH) (simp_all add: db_remaining_def)
  then show ?case using put_n_append [OF Cons.prems(1), of "[x]" xs] Cons.prems(2) o by simp
qed

lemma offset_facts:
  assumes "db_wf p"
  shows "db_wf (db_offset (dlen p) p)" "written (db_offset (dlen p) p) = []" "dlen (db_offset (dlen p) p) = 0"
    "dmaxlen (db_offset (dlen p) p) = dmaxlen p - dlen p" "db_overwrote (db_offset (dlen p) p) = db_overwrote p"
    "written p @ dbuf (db_offset (dlen p) p) = dbuf p"
  using assms db_offset_all(1) [OF assms] by (auto simp: db_offset_def Let_def db_wf_def written_def db_overwrote_def min_def)

subsection \<open>Sending a part\<close>

text \<open>The packets of a channel for a client in a list of effects, as places in the block.\<close>

fun sent :: "int \<Rightarrow> int \<Rightarrow> effect list \<Rightarrow> (int \<times> int) list" where
  "sent n chan [] = []"
| "sent n chan (e # es) = (case e of SendData m c r block start sz \<Rightarrow> if m = n \<and> c = chan then [(start, sz)] else [] | _ \<Rightarrow> []) @ sent n chan es"

lemma sent_append [simp]: "sent n chan (es @ fs) = sent n chan es @ sent n chan fs"
  by (induction es) simp_all

definition packet :: "int \<Rightarrow> int \<Rightarrow> clientinfo \<Rightarrow> (int \<times> int) list" where
  "packet base wslen ci =
     (if aitype (ci_state ci) \<noteq> AI_NONE then []
      else let p = (if ci_wsdata ci \<ge> base then (ci_wsdata ci + ci_wslen ci, wslen - ci_wslen ci) else (base, wslen))
           in if snd p \<le> 0 then [] else [p])"

lemma send_client_out:
  "sent n c (outbox (snd (send_client chan rel wslen ci (b, w))))
    = sent n c (outbox w) @ (if ci_clientnum ci = n \<and> c = chan then packet (wb_base b) wslen ci else [])"
  by (simp add: send_client_def packet_def Let_def emit_def)

lemma send_client_keeps [simp]:
  "wb_before (fst (send_client chan rel wslen ci bw)) = wb_before (fst bw)" "wb_buf (fst (send_client chan rel wslen ci bw)) = wb_buf (fst bw)"
  "wb_block (fst (send_client chan rel wslen ci bw)) = wb_block (fst bw)"
  "clients (snd (send_client chan rel wslen ci bw)) = clients (snd bw)" "connects (snd (send_client chan rel wslen ci bw)) = connects (snd bw)"
  "net (snd (send_client chan rel wslen ci bw)) = net (snd bw)"
  by (simp_all add: send_client_def Let_def split_beta emit_def)

lemma send_clients:
  fixes bw :: "wsbuilder \<times> 'a world_scheme"
  shows "wb_before (fst (fold (send_client chan rel wslen) cs bw)) = wb_before (fst bw) \<and> wb_buf (fst (fold (send_client chan rel wslen) cs bw)) = wb_buf (fst bw) \<and> wb_block (fst (fold (send_client chan rel wslen) cs bw)) = wb_block (fst bw)
      \<and> clients (snd (fold (send_client chan rel wslen) cs bw)) = clients (snd bw) 
      \<and> connects (snd (fold (send_client chan rel wslen) cs bw)) = connects (snd bw) \<and> net (snd (fold (send_client chan rel wslen) cs bw)) = net (snd bw)
      \<and> sent n c (outbox (snd (fold (send_client chan rel wslen) cs bw))) = sent n c (outbox (snd bw))
          @ (if c = chan then concat (map (packet (wb_base (fst bw)) wslen) (filter (\<lambda>ci. ci_clientnum ci = n) cs)) else [])"
proof (induction cs rule: rev_induct)
  case (snoc ci cs)
  let ?bw = "fold (send_client chan rel wslen) cs bw"
  have "wb_base (fst ?bw) = wb_base (fst bw)" using snoc by (simp add: wb_base_def)
  then show ?case using snoc send_client_out [of n c chan rel wslen ci "fst ?bw" "snd ?bw"] by simp
qed simp

lemma record_keeps [simp]:
  "clients (recordpacket chan bs w) = clients w" "connects (recordpacket chan bs w) = connects w"
  "sent n c (outbox (recordpacket chan bs w)) = sent n c (outbox w)"
  "reliablemessages (net (recordpacket chan bs w)) = reliablemessages (net w)" "peer_accepts (net (recordpacket chan bs w)) = peer_accepts (net w)"
  by (simp_all add: recordpacket_def write_delayed_broadcast_def writedemo_def emit_def)

text \<open>The pointers of the clients into the part that is being filled.\<close>

definition marks_ok :: "int \<Rightarrow> chunk list \<Rightarrow> clientinfo list \<Rightarrow> bool" where
  "marks_ok base cur cs \<longleftrightarrow> (\<forall>ci \<in> set cs. aitype (ci_state ci) = AI_NONE \<longrightarrow>
     (if ci_clientnum ci \<in> fst ` set cur
      then ci_wsdata ci = base + int (length (bytes (pre (ci_clientnum ci) cur))) \<and> ci_wslen ci = int (length (bytes (own (ci_clientnum ci) cur)))
      else ci_wsdata ci < base))"

definition part_ok :: "chunk list \<Rightarrow> wsbuilder \<Rightarrow> bool" where
  "part_ok cur b \<longleftrightarrow> db_wf (wb_buf b) \<and> written (wb_buf b) = bytes cur \<and> dmaxlen (wb_buf b) = int (length (dbuf (wb_buf b)))
     \<and> \<not> db_overwrote (wb_buf b) \<and> (\<forall>c \<in> set cur. snd c \<noteq> [])"

lemma part_len: "part_ok cur b \<Longrightarrow> dlen (wb_buf b) = int (length (bytes cur))"
  using length_written [of "wb_buf b"] by (auto simp: part_ok_def db_wf_def)

lemma part_empty:
  assumes "part_ok cur b"
  shows "db_empty (wb_buf b) \<longleftrightarrow> cur = []"
proof (cases cur)
  case (Cons c cs)
  have "0 < length (bytes cur)" "cur \<noteq> []" using assms Cons by (simp_all add: part_ok_def)
  then show ?thesis using part_len [OF assms] unfolding db_empty_def by simp
qed (use part_len [OF assms] in \<open>simp add: db_empty_def\<close>)

lemma packet_payload:
  assumes "marks_ok base cur cs" and "contig (map fst cur)" and "ci \<in> set cs" "aitype (ci_state ci) = AI_NONE" and "base = int (length mem)"
  shows "map (slice (mem @ bytes cur @ bytes cur)) (packet base (int (length (bytes cur))) ci) = filter (\<lambda>x. x \<noteq> []) [payload (ci_clientnum ci) cur]"
    and "p \<in> set (packet base (int (length (bytes cur))) ci) \<Longrightarrow> 0 \<le> fst p \<and> 0 < snd p \<and> fst p + snd p \<le> int (length (mem @ bytes cur @ bytes cur))"
proof -
  let ?n = "ci_clientnum ci" and ?l = "int (length (bytes cur))"
  let ?p = "(int (length mem + length (bytes (pre ?n cur)) + length (bytes (own ?n cur))), ?l - int (length (bytes (own ?n cur))))"
  let ?q = "if ci_wsdata ci \<ge> base then (ci_wsdata ci + ci_wslen ci, ?l - ci_wslen ci) else (base, ?l)"
  have b: "length (bytes cur) = length (bytes (pre ?n cur)) + length (bytes (own ?n cur)) + length (bytes (post ?n cur))"
    using contig_split(1) [OF assms(2), of ?n] by (metis bytes_simps(3) length_append add.assoc)
  have s: "slice (mem @ bytes cur @ bytes cur) ?q = payload ?n cur \<and> 0 \<le> fst ?q \<and> fst ?q + snd ?q \<le> int (length (mem @ bytes cur @ bytes cur))"
  proof (cases "?n \<in> fst ` set cur")
    case True
    then have "?q = ?p" using assms by (auto simp: marks_ok_def)
    then show ?thesis using slice_twice [OF assms(2), of mem ?n] b by simp
  next
    case False
    then have "?q = (base, ?l)" using assms by (auto simp: marks_ok_def)
    then show ?thesis using pre_out [OF False] assms(5) by (simp add: slice_def payload_def)
  qed
  have l: "int (length (payload ?n cur)) = snd ?q"
  proof (cases "?n \<in> fst ` set cur")
    case True
    then have "?q = ?p" using assms by (auto simp: marks_ok_def)
    then show ?thesis using b by (simp add: payload_def)
  next
    case False
    then have "?q = (base, ?l)" using assms by (auto simp: marks_ok_def)
    then show ?thesis using pre_out [OF False] by (simp add: payload_def)
  qed
  have pk: "packet base ?l ci = (if payload ?n cur = [] then [] else [?q])"
  proof -
    obtain a z where q: "?q = (a, z)" by force
    then have "int (length (payload ?n cur)) = z" using l by (simp only: snd_conv)
    then have "z \<le> 0 \<longleftrightarrow> payload ?n cur = []" by auto
    then show ?thesis unfolding packet_def Let_def q using assms(4) by simp
  qed
  show "map (slice (mem @ bytes cur @ bytes cur)) (packet base ?l ci) = filter (\<lambda>x. x \<noteq> []) [payload ?n cur]" unfolding pk using s by simp
  show "p \<in> set (packet base ?l ci) \<Longrightarrow> 0 \<le> fst p \<and> 0 < snd p \<and> fst p + snd p \<le> int (length (mem @ bytes cur @ bytes cur))"
  proof -
    assume "p \<in> set (packet base ?l ci)"
    then have p: "p = ?q" "0 < int (length (payload ?n cur))" unfolding pk by (auto split: if_splits)
    show ?thesis unfolding p(1) using s l p(2) by linarith
  qed
qed

text \<open>What the clients have been sent on a channel: for every part in \<open>segs\<close> its payload, as places in the memory before the buffer.\<close>

definition delivered :: "int \<Rightarrow> chunk list list \<Rightarrow> (int \<Rightarrow> (int \<times> int) list) \<Rightarrow> wsbuilder \<Rightarrow> 'a world_scheme \<Rightarrow> bool" where
  "delivered chan segs old b w \<longleftrightarrow> (\<forall>ci \<in> set (clients w). aitype (ci_state ci) = AI_NONE \<longrightarrow>
     (\<exists>ps. sent (ci_clientnum ci) chan (outbox w) = old (ci_clientnum ci) @ ps
       \<and> (\<forall>p \<in> set ps. 0 \<le> fst p \<and> 0 < snd p \<and> fst p + snd p \<le> wb_base b)
       \<and> map (slice (wb_before b)) ps = filter (\<lambda>x. x \<noteq> []) (map (payload (ci_clientnum ci)) segs)))"

definition nums :: "'a world_scheme \<Rightarrow> int list" where "nums w = map ci_clientnum (clients w)"

lemma only_client: "distinct (map ci_clientnum cs) \<Longrightarrow> ci \<in> set cs \<Longrightarrow> filter (\<lambda>c. ci_clientnum c = ci_clientnum ci) cs = [ci]"
proof (induction cs)
  case (Cons c cs)
  then show ?case by (cases "ci = c") (auto simp: filter_empty_conv, metis image_eqI)
qed simp

lemma send_part_spec:
  assumes "part_ok cur b" and "contig (map fst cur)" and "marks_ok (wb_base b) cur (clients w)" and "distinct (nums w)"
    and "2 * int (length (bytes cur)) \<le> dmaxlen (wb_buf b)" and "send_part chan rel (b, w) = (b', w')"
  shows "part_ok [] b'" "marks_ok (wb_base b') [] (clients w')" "clients w' = clients w" "connects w' = connects w"
    "dmaxlen (wb_buf b') = dmaxlen (wb_buf b) - 2 * int (length (bytes cur))" "wb_block b' = wb_block b"
    "reliablemessages (net w') = reliablemessages (net w)"
    "length (wb_data b') = length (wb_data b)"
    "delivered chan segs old b w \<Longrightarrow> delivered chan (if cur = [] then segs else segs @ [cur]) old b' w'"
    "c \<noteq> chan \<Longrightarrow> delivered c segs old b w \<Longrightarrow> delivered c segs old b' w'"
proof -
  let ?p = "wb_buf b" and ?l = "int (length (bytes cur))"
  have wf: "db_wf ?p" and wr: "written ?p = bytes cur" and dl: "dlen ?p = ?l" using assms(1) part_len by (auto simp: part_ok_def)
  have room: "?l \<le> db_remaining ?p" using assms(5) dl by (simp add: db_remaining_def)
  define q where "q = db_put_n (bytes cur) ?p"
  note q = put_n_facts [OF wf room, folded q_def]
  define v where "v = recordpacket chan (bytes cur) w"
  define f where "f = fold (send_client chan rel ?l) (clients w) (b\<lparr>wb_buf := q\<rparr>, v)"
  have base: "wb_base (b\<lparr>wb_buf := q\<rparr>) = wb_base b" by (simp add: wb_base_def)
  note fc = send_clients [of chan rel ?l "clients w" "(b\<lparr>wb_buf := q\<rparr>, v)", folded f_def, simplified base fst_conv snd_conv]
  have emp: "db_empty ?p \<longleftrightarrow> cur = []" by (rule part_empty [OF assms(1)])
  have res: "(b', w') = (if cur = [] then (b, w) else ((fst f)\<lparr>wb_before := wb_before b @ bytes cur @ bytes cur, wb_buf := db_offset (2 * ?l) q\<rparr>, snd f))"
  proof -
    have "send_part chan rel (b, w) = ((fst f)\<lparr>wb_before := wb_before b @ bytes cur @ bytes cur, wb_buf := db_offset (2 * ?l) q\<rparr>, snd f)" if "cur \<noteq> []"
    proof -
      have "send_part chan rel (b, w) = (let (b, w) = fold (send_client chan rel (dlen ?p)) (clients (recordpacket chan (written ?p) w))
          (b\<lparr>wb_buf := db_put_n (written ?p) ?p\<rparr>, recordpacket chan (written ?p) w)
        in (b\<lparr>wb_before := wb_before b @ written (wb_buf b), wb_buf := db_offset (dlen (wb_buf b)) (wb_buf b)\<rparr>, w))"
        using that emp by (simp add: send_part_def Let_def)
      also have "\<dots> = (let (b, w) = f in (b\<lparr>wb_before := wb_before b @ written (wb_buf b), wb_buf := db_offset (dlen (wb_buf b)) (wb_buf b)\<rparr>, w))"
        by (simp only: wr dl record_keeps(1) f_def q_def v_def)
      finally show ?thesis using fc q(1,2) wr dl by (simp add: split_beta)
    qed
    moreover have "send_part chan rel (b, w) = (b, w)" if "cur = []" using that emp by (simp add: send_part_def)
    ultimately have "send_part chan rel (b, w) = (if cur = [] then (b, w)
        else ((fst f)\<lparr>wb_before := wb_before b @ bytes cur @ bytes cur, wb_buf := db_offset (2 * ?l) q\<rparr>, snd f))" by simp
    then show ?thesis using assms(6) by simp
  qed
  have ql: "2 * ?l = dlen q" using q(2) dl by simp
  note of = offset_facts [OF q(4), folded ql]
  consider "cur = []" "b' = b" "w' = w"
    | "cur \<noteq> []" "wb_before b' = wb_before b @ bytes cur @ bytes cur" "wb_buf b' = db_offset (2 * ?l) q" "wb_block b' = wb_block b" "w' = snd f"
    using res fc by (cases "cur = []") auto
  note cases = this
  have dm: "dmaxlen ?p = int (length (dbuf ?p))" and ow: "\<not> db_overwrote ?p" using assms(1) by (auto simp: part_ok_def)
  have len: "int (length (dbuf (db_offset (2 * ?l) q))) = int (length (dbuf q)) - 2 * ?l"
    using of(6) q(1) wr by (metis (no_types, opaque_lifting) add_diff_cancel_left' length_append mult_2 of_nat_add)
  show po: "part_ok [] b'"
  proof (cases rule: cases)
    case 2
    then show ?thesis using of q(3,5,6) dm ow len ql by (simp add: part_ok_def)
  qed (use assms(1) in simp)
  show "clients w' = clients w" "connects w' = connects w" using cases fc by (cases; simp add: v_def)+
  then have cl: "clients w' = clients w" by blast
  have bb: "wb_base b' = wb_base b + 2 * ?l" by (cases rule: cases) (simp_all add: wb_base_def)
  have below: "ci_wsdata ci < wb_base b'" if "ci \<in> set (clients w)" "aitype (ci_state ci) = AI_NONE" "cur \<noteq> []" for ci
  proof -
    have l0: "0 < length (bytes cur)" using part_empty [OF assms(1)] that(3) dl by (simp add: db_empty_def)
    show ?thesis
    proof (cases "ci_clientnum ci \<in> fst ` set cur")
      case True
      then have "ci_wsdata ci = wb_base b + int (length (bytes (pre (ci_clientnum ci) cur)))" using assms(3) that by (auto simp: marks_ok_def)
      moreover have "length (bytes (pre (ci_clientnum ci) cur)) \<le> length (bytes cur)"
        using contig_split(1) [OF assms(2), of "ci_clientnum ci"] by (metis bytes_simps(3) length_append le_add1)
      ultimately show ?thesis using bb l0 by linarith
    next
      case False
      then show ?thesis using assms(3) that bb by (fastforce simp: marks_ok_def)
    qed
  qed
  show "marks_ok (wb_base b') [] (clients w')"
    using below assms(3) cl by (cases rule: cases) (auto simp: marks_ok_def)
  show "dmaxlen (wb_buf b') = dmaxlen (wb_buf b) - 2 * ?l" using of(4) q(3) ql by (cases rule: cases) simp_all
  show "wb_block b' = wb_block b" "reliablemessages (net w') = reliablemessages (net w)" using cases fc by (cases; simp add: v_def)+
  show "length (wb_data b') = length (wb_data b)" using len q(6) by (cases rule: cases) (simp_all add: wb_data_def)
  have keep: "map (slice (wb_before b')) ps = map (slice (wb_before b)) ps" if "\<forall>p \<in> set ps. 0 \<le> fst p \<and> 0 < snd p \<and> fst p + snd p \<le> wb_base b" for ps
    using that slice_append by (cases rule: cases) (auto simp: wb_base_def)
  have out: "sent n c (outbox w') = sent n c (outbox w) @ (if c = chan \<and> cur \<noteq> [] then concat (map (packet (wb_base b) ?l) (filter (\<lambda>ci. ci_clientnum ci = n) (clients w))) else [])" for n c
    using fc [of n c] by (cases rule: cases) (simp_all add: v_def)
  show "delivered c segs old b' w'" if c: "c \<noteq> chan" "delivered c segs old b w"
    unfolding delivered_def
  proof (intro ballI impI)
    fix ci assume ci: "ci \<in> set (clients w')" "aitype (ci_state ci) = AI_NONE"
    have ci': "ci \<in> set (clients w)" using ci cl by simp
    from bspec [OF c(2) [unfolded delivered_def] ci'] ci(2) obtain ps where ps: "sent (ci_clientnum ci) c (outbox w) = old (ci_clientnum ci) @ ps"
      "\<forall>p \<in> set ps. 0 \<le> fst p \<and> 0 < snd p \<and> fst p + snd p \<le> wb_base b"
      "map (slice (wb_before b)) ps = filter (\<lambda>x. x \<noteq> []) (map (payload (ci_clientnum ci)) segs)" by blast
    show "\<exists>ps. sent (ci_clientnum ci) c (outbox w') = old (ci_clientnum ci) @ ps
       \<and> (\<forall>p \<in> set ps. 0 \<le> fst p \<and> 0 < snd p \<and> fst p + snd p \<le> wb_base b')
       \<and> map (slice (wb_before b')) ps = filter (\<lambda>x. x \<noteq> []) (map (payload (ci_clientnum ci)) segs)"
      using ps out [of "ci_clientnum ci" c] c(1) keep [OF ps(2)] bb by (intro exI [of _ ps]) fastforce
  qed
  show "delivered chan (if cur = [] then segs else segs @ [cur]) old b' w'" if d: "delivered chan segs old b w"
  proof (cases "cur = []")
    case True
    then show ?thesis using d res by simp
  next
    case False
    show ?thesis unfolding delivered_def
    proof (intro ballI impI)
      fix ci assume ci: "ci \<in> set (clients w')" "aitype (ci_state ci) = AI_NONE"
      let ?n = "ci_clientnum ci"
      have ci': "ci \<in> set (clients w)" using ci cl by simp
      from bspec [OF d [unfolded delivered_def] ci'] ci(2) obtain ps where ps: "sent ?n chan (outbox w) = old ?n @ ps"
        "\<forall>p \<in> set ps. 0 \<le> fst p \<and> 0 < snd p \<and> fst p + snd p \<le> wb_base b"
        "map (slice (wb_before b)) ps = filter (\<lambda>x. x \<noteq> []) (map (payload ?n) segs)" by blast
      have o: "sent ?n chan (outbox w') = old ?n @ ps @ packet (wb_base b) ?l ci"
        using out [of ?n chan] ps(1) only_client [of "clients w" ci] assms(4) ci' False by (simp add: nums_def)
      have bf: "wb_before b' = wb_before b @ bytes cur @ bytes cur" using cases False by blast
      note pp = packet_payload [OF assms(3,2) ci' ci(2), of "wb_before b"]
      have "map (slice (wb_before b')) (packet (wb_base b) ?l ci) = filter (\<lambda>x. x \<noteq> []) [payload ?n cur]" using pp(1) bf by (simp add: wb_base_def)
      moreover have "\<forall>p \<in> set (packet (wb_base b) ?l ci). 0 \<le> fst p \<and> 0 < snd p \<and> fst p + snd p \<le> wb_base b'"
        using pp(2) bf by (simp add: wb_base_def)
      moreover have "\<forall>p \<in> set ps. 0 \<le> fst p \<and> 0 < snd p \<and> fst p + snd p \<le> wb_base b'" using ps(2) bb by fastforce
      ultimately show "\<exists>ps. sent ?n chan (outbox w') = old ?n @ ps
         \<and> (\<forall>p \<in> set ps. 0 \<le> fst p \<and> 0 < snd p \<and> fst p + snd p \<le> wb_base b')
         \<and> map (slice (wb_before b')) ps = filter (\<lambda>x. x \<noteq> []) (map (payload ?n) (if cur = [] then segs else segs @ [cur]))"
        using o keep [OF ps(2)] ps(3) False by (intro exI [of _ "ps @ packet (wb_base b) ?l ci"]) auto
    qed
  qed
qed

subsection \<open>Filling a part\<close>

definition ws_size :: "clientinfo \<Rightarrow> int" where
  "ws_size ci = int (length (ci_position ci)) + (if ci_messages ci \<noteq> [] then 10 + int (length (ci_messages ci)) else 0)"

definition part_fits :: "int \<Rightarrow> chunk list \<Rightarrow> bool" where
  "part_fits mtu cs \<longleftrightarrow> int (length (bytes cs)) \<le> mtu \<or> length cs \<le> 1"

text \<open>The state between two chunks: \<open>segs\<close> are the parts that have been sent on each channel, \<open>cur\<close> is the part in the buffer, and
  what is left in the buffer is twice what it and the players still have to say.\<close>

definition stage :: "int \<Rightarrow> (int \<Rightarrow> int \<Rightarrow> (int \<times> int) list) \<Rightarrow> (int \<Rightarrow> chunk list list) \<Rightarrow> chunk list \<Rightarrow> wsbuilder \<Rightarrow> 'a world_scheme \<Rightarrow> bool" where
  "stage mtu old segs cur b w \<longleftrightarrow> part_ok cur b \<and> marks_ok (wb_base b) cur (clients w) \<and> distinct (map ci_clientnum (roster w))
     \<and> 2 * (int (length (bytes cur)) + wsmax w) \<le> dmaxlen (wb_buf b)
     \<and> (\<forall>c. delivered c (segs c) (old c) b w) \<and> (\<forall>c. \<forall>s \<in> set (segs c). part_fits mtu s \<and> contig (map fst s)) \<and> part_fits mtu cur"

lemma wsmax_sizes: "wsmax w = (\<Sum>ci \<leftarrow> clients w. ws_size ci)"
  by (simp add: wsmax_def ws_size_def)

lemma ws_size_nonneg: "0 \<le> ws_size ci"
  by (simp add: ws_size_def)

lemma wsmax_nonneg: "0 \<le> wsmax w"
  unfolding wsmax_sizes by (induction "clients w") (auto simp: ws_size_nonneg intro!: sum_list_nonneg)

lemma roster_nums_distinct: "distinct (map ci_clientnum (roster w)) \<Longrightarrow> distinct (nums w)"
  by (simp add: roster_def nums_def)

lemma sum_upd:
  fixes g :: "clientinfo \<Rightarrow> int"
  assumes "distinct (map ci_clientnum cs)" and "c \<in> set cs"
  shows "(\<Sum>ci \<leftarrow> map (\<lambda>ci. if ci_clientnum ci = ci_clientnum c then f ci else ci) cs. g ci) = (\<Sum>ci \<leftarrow> cs. g ci) - g c + g (f c)"
  using assms
proof (induction cs)
  case (Cons d cs)
  have same: "map (\<lambda>ci. if ci_clientnum ci = ci_clientnum d then f ci else ci) cs = cs"
    using Cons.prems(1) by (intro map_idI) (auto simp: image_iff)
  show ?case
  proof (cases "c = d")
    case True
    then show ?thesis using same by simp
  next
    case False
    then have "c \<in> set cs" "ci_clientnum d \<noteq> ci_clientnum c" using Cons.prems by force+
    then show ?thesis using Cons by simp
  qed
qed simp

lemma wsmax_upd:
  fixes w :: "'a world_scheme"
  assumes "distinct (map ci_clientnum (roster w))" and "bn \<in> set (nums w)"
  shows "wsmax (upd_client bn f w) = wsmax w - ws_size (client bn w) + ws_size (f (client bn w))"
proof -
  from assms(2) obtain c where c: "c \<in> set (clients w)" "ci_clientnum c = bn" by (auto simp: nums_def)
  then have cl: "client bn w = c" using distinct_client [OF assms(1), of c] by (simp add: roster_def)
  have d: "distinct (map ci_clientnum (clients w))" using assms(1) by (simp add: roster_def)
  show ?thesis using sum_upd [OF d c(1), of ws_size f] c(2) unfolding wsmax_sizes cl by (simp add: upd_client_def)
qed

lemma wsmax_mark [simp]: "wsmax (mark_own cn ofs b w) = wsmax w"
  unfolding wsmax_sizes mark_own_def upd_client_def
  by (simp add: comp_def) (rule arg_cong [where f = sum_list], simp add: ws_size_def Let_def)

lemma delivered_cong:
  assumes "map (\<lambda>ci. (ci_clientnum ci, aitype (ci_state ci))) (clients w') = map (\<lambda>ci. (ci_clientnum ci, aitype (ci_state ci))) (clients w)"
    and "outbox w' = outbox w" and "wb_before b' = wb_before b"
  shows "delivered c segs old b' w' = delivered c segs old b w"
proof -
  define P where "P = (\<lambda>(n, a). a = AI_NONE \<longrightarrow> (\<exists>ps. sent n c (outbox w) = old n @ ps
    \<and> (\<forall>p \<in> set ps. 0 \<le> fst p \<and> 0 < snd p \<and> fst p + snd p \<le> wb_base b) \<and> map (slice (wb_before b)) ps = filter (\<lambda>x. x \<noteq> []) (map (payload n) segs)))"
  have "delivered c segs old b w \<longleftrightarrow> (\<forall>x \<in> set (map (\<lambda>ci. (ci_clientnum ci, aitype (ci_state ci))) (clients w)). P x)"
    unfolding set_map ball_simps by (simp only: delivered_def P_def prod.case)
  moreover have "delivered c segs old b' w' \<longleftrightarrow> (\<forall>x \<in> set (map (\<lambda>ci. (ci_clientnum ci, aitype (ci_state ci))) (clients w')). P x)"
    unfolding set_map ball_simps by (simp only: delivered_def P_def prod.case assms(2,3) wb_base_def)
  ultimately show ?thesis by (simp only: assms(1))
qed

lemma stage_send:
  assumes "stage mtu old segs cur b w" and "contig (map fst cur)" and "send_part chan rel (b, w) = (b', w')"
  shows "stage mtu old (segs(chan := segs chan @ (if cur = [] then [] else [cur]))) [] b' w'" "clients w' = clients w" "connects w' = connects w"
    "wb_block b' = wb_block b" "reliablemessages (net w') = reliablemessages (net w)" "length (wb_data b') = length (wb_data b)"
proof -
  have st: "part_ok cur b" "marks_ok (wb_base b) cur (clients w)" "distinct (map ci_clientnum (roster w))"
    "2 * (int (length (bytes cur)) + wsmax w) \<le> dmaxlen (wb_buf b)" "part_fits mtu cur"
    and de: "\<And>c. delivered c (segs c) (old c) b w" and sg: "\<And>c s. s \<in> set (segs c) \<Longrightarrow> part_fits mtu s \<and> contig (map fst s)"
    using assms(1) unfolding stage_def by blast+
  have room: "2 * int (length (bytes cur)) \<le> dmaxlen (wb_buf b)" using st(4) wsmax_nonneg [of w] by (simp only: distrib_left)
  note sp = send_part_spec [OF st(1) assms(2) st(2) roster_nums_distinct [OF st(3)] room assms(3)]
  show c: "clients w' = clients w" "connects w' = connects w" "wb_block b' = wb_block b" "reliablemessages (net w') = reliablemessages (net w)"
    "length (wb_data b') = length (wb_data b)" using sp(3,4,6,7,8) by blast+
  have r: "roster w' = roster w" "wsmax w' = wsmax w" using c by (simp_all add: roster_def wsmax_def)
  have "delivered c ((segs(chan := segs chan @ (if cur = [] then [] else [cur]))) c) (old c) b' w'" for c
    using sp(9) [OF de [of chan]] sp(10) [OF _ de [of c]] by (cases "c = chan") (auto split: if_splits)
  moreover have "part_fits mtu s \<and> contig (map fst s)" if "s \<in> set ((segs(chan := segs chan @ (if cur = [] then [] else [cur]))) c)" for c s
    using that sg st(5) assms(2) by (cases "c = chan") (auto split: if_splits)
  ultimately show "stage mtu old (segs(chan := segs chan @ (if cur = [] then [] else [cur]))) [] b' w'"
    using sp(1,2,5) st(3,4) r unfolding stage_def by (auto simp: part_fits_def)
qed

lemma net_upd [simp]: "net (upd_client n f w) = net w" "net (mark_own cn ofs b w) = net w"
  by (simp_all add: upd_client_def mark_own_def)

lemma marks_add:
  assumes "marks_ok base cur cs" and "ofs = int (length (bytes cur))" and "0 \<le> base"
  shows "marks_ok base (cur @ [(cn, x)]) (map (\<lambda>ci. if ci_clientnum ci = cn then
    (if ci_wsdata ci < base then ci\<lparr>ci_wsdata := base + ofs, ci_wslen := int (length x)\<rparr> else ci\<lparr>ci_wslen := ci_wslen ci + int (length x)\<rparr>) else ci) cs)"
  unfolding marks_ok_def
proof (intro ballI impI)
  fix c assume c: "c \<in> set (map (\<lambda>ci. if ci_clientnum ci = cn then
    (if ci_wsdata ci < base then ci\<lparr>ci_wsdata := base + ofs, ci_wslen := int (length x)\<rparr> else ci\<lparr>ci_wslen := ci_wslen ci + int (length x)\<rparr>) else ci) cs)"
    and h: "aitype (ci_state c) = AI_NONE"
  from c obtain ci where ci: "ci \<in> set cs" and cc: "c = (if ci_clientnum ci = cn then
    (if ci_wsdata ci < base then ci\<lparr>ci_wsdata := base + ofs, ci_wslen := int (length x)\<rparr> else ci\<lparr>ci_wslen := ci_wslen ci + int (length x)\<rparr>) else ci)" by auto
  let ?n = "ci_clientnum ci"
  have "aitype (ci_state ci) = AI_NONE" using h cc by (simp split: if_splits)
  then have m: "if ?n \<in> fst ` set cur then ci_wsdata ci = base + int (length (bytes (pre ?n cur))) \<and> ci_wslen ci = int (length (bytes (own ?n cur)))
      else ci_wsdata ci < base" using assms(1) ci unfolding marks_ok_def by blast
  have n: "ci_clientnum c = ?n" by (simp add: cc)
  show "if ci_clientnum c \<in> fst ` set (cur @ [(cn, x)])
      then ci_wsdata c = base + int (length (bytes (pre (ci_clientnum c) (cur @ [(cn, x)])))) \<and> ci_wslen c = int (length (bytes (own (ci_clientnum c) (cur @ [(cn, x)]))))
      else ci_wsdata c < base"
  proof (cases "?n = cn")
    case True
    show ?thesis
    proof (cases "cn \<in> fst ` set cur")
      case in_cur: True
      then show ?thesis using m True n pre_own_append(1) [of cn cur x] by (simp add: cc pre_own_append)
    next
      case False
      then show ?thesis using m True n assms(2) pre_out(1,2) [OF False] pre_own_append(1) [of cn cur x] by (simp add: cc pre_own_append)
    qed
  next
    case False
    then have "pre ?n (cur @ [(cn, x)]) = pre ?n cur" if "?n \<in> fst ` set cur" using that by (rule_tac pre_in)
    then show ?thesis using m n False by (auto simp: cc pre_own_append)
  qed
qed

lemma marks_upd:
  assumes keys: "\<And>ci. ci_clientnum (f ci) = ci_clientnum ci \<and> ci_state (f ci) = ci_state ci \<and> ci_wsdata (f ci) = ci_wsdata ci \<and> ci_wslen (f ci) = ci_wslen ci"
    and "marks_ok base cur cs"
  shows "marks_ok base cur (map (\<lambda>ci. if ci_clientnum ci = n then f ci else ci) cs)"
  unfolding marks_ok_def
proof (intro ballI impI)
  fix c assume c: "c \<in> set (map (\<lambda>ci. if ci_clientnum ci = n then f ci else ci) cs)" "aitype (ci_state c) = AI_NONE"
  then obtain ci where ci: "ci \<in> set cs" "c = (if ci_clientnum ci = n then f ci else ci)" by auto
  have k: "ci_clientnum c = ci_clientnum ci" "ci_state c = ci_state ci" "ci_wsdata c = ci_wsdata ci" "ci_wslen c = ci_wslen ci"
    using keys [of ci] ci(2) by auto
  show "if ci_clientnum c \<in> fst ` set cur
      then ci_wsdata c = base + int (length (bytes (pre (ci_clientnum c) cur))) \<and> ci_wslen c = int (length (bytes (own (ci_clientnum c) cur)))
      else ci_wsdata c < base"
    using bspec [OF assms(2) [unfolded marks_ok_def] ci(1)] c(2) unfolding k by blast
qed

lemma stage_add:
  assumes "stage mtu old segs cur b w" and "x \<noteq> []" and "bn \<in> set (nums w)"
    and clear: "\<And>ci. ci_clientnum (clear ci) = ci_clientnum ci \<and> ci_state (clear ci) = ci_state ci \<and> ci_wsdata (clear ci) = ci_wsdata ci \<and> ci_wslen (clear ci) = ci_wslen ci"
    and size: "ws_size (clear (client bn w)) + int (length x) \<le> ws_size (client bn w)" and "part_fits mtu (cur @ [(cn, x)])"
    and b': "b' = b\<lparr>wb_buf := db_put_n x (wb_buf b)\<rparr>"
  shows "stage mtu old segs (cur @ [(cn, x)]) b' (mark_own cn (dlen (wb_buf b)) b' (upd_client bn clear w))" "length (wb_data b') = length (wb_data b)"
proof -
  define v where "v = upd_client bn clear w"
  define u where "u = mark_own cn (dlen (wb_buf b)) b' v"
  have st: "part_ok cur b" "marks_ok (wb_base b) cur (clients w)" "distinct (map ci_clientnum (roster w))"
    "2 * (int (length (bytes cur)) + wsmax w) \<le> dmaxlen (wb_buf b)"
    and de: "\<And>c. delivered c (segs c) (old c) b w" and sg: "\<And>c s. s \<in> set (segs c) \<Longrightarrow> part_fits mtu s \<and> contig (map fst s)"
    using assms(1) unfolding stage_def by blast+
  have wf: "db_wf (wb_buf b)" and dl: "dlen (wb_buf b) = int (length (bytes cur))" using st(1) part_len by (auto simp: part_ok_def)
  have wm: "wsmax u = wsmax w - ws_size (client bn w) + ws_size (clear (client bn w))"
    using wsmax_upd [OF st(3) assms(3), of clear] by (simp add: u_def v_def)
  then have le: "wsmax u + int (length x) \<le> wsmax w" using size by linarith
  have room: "int (length x) \<le> db_remaining (wb_buf b)"
    using st(4) le wsmax_nonneg [of u] dl by (simp add: db_remaining_def)
  note p = put_n_facts [OF wf room]
  have base: "wb_base b' = wb_base b" "wb_before b' = wb_before b" by (simp_all add: b' wb_base_def)
  show "length (wb_data b') = length (wb_data b)" using p(6) by (simp add: b' wb_data_def)
  have "part_ok (cur @ [(cn, x)]) b'" using st(1) p assms(2) by (simp add: b' part_ok_def)
  moreover have "marks_ok (wb_base b') (cur @ [(cn, x)]) (clients u)"
  proof -
    have "marks_ok (wb_base b) cur (clients v)" using marks_upd [OF clear st(2)] by (simp add: v_def upd_client_def)
    from marks_add [OF this dl, of cn x] have "marks_ok (wb_base b) (cur @ [(cn, x)]) (map (\<lambda>ci. if ci_clientnum ci = cn then
        (if ci_wsdata ci < wb_base b then ci\<lparr>ci_wsdata := wb_base b + dlen (wb_buf b), ci_wslen := int (length x)\<rparr>
         else ci\<lparr>ci_wslen := ci_wslen ci + int (length x)\<rparr>) else ci) (clients v))" by (simp add: wb_base_def)
    moreover have d: "dlen (wb_buf b') - dlen (wb_buf b) = int (length x)" using p(2) by (simp add: b')
    ultimately show ?thesis unfolding u_def mark_own_def upd_client_def Let_def base(1) d by simp
  qed
  moreover have "map ci_clientnum (roster u) = map ci_clientnum (roster w)"
    using clear by (simp add: roster_def u_def v_def mark_own_def upd_client_def Let_def)
  then have "distinct (map ci_clientnum (roster u))" using st(3) by simp
  moreover have "2 * (int (length (bytes (cur @ [(cn, x)]))) + wsmax u) \<le> dmaxlen (wb_buf b')"
    using st(4) le p(3) by (simp add: b')
  moreover have "delivered c (segs c) (old c) b' u" for c
  proof -
    have "delivered c (segs c) (old c) b' u = delivered c (segs c) (old c) b w"
      by (rule delivered_cong) (use clear in \<open>simp_all add: u_def v_def mark_own_def upd_client_def Let_def base\<close>)
    then show ?thesis using de by simp
  qed
  ultimately show "stage mtu old segs (cur @ [(cn, x)]) b' (mark_own cn (dlen (wb_buf b)) b' (upd_client bn clear w))"
    using sg assms(6) unfolding stage_def u_def [symmetric] v_def [symmetric] by blast
qed

text \<open>One chunk: the part is sent first when the chunk does not fit.\<close>

definition add_chunk :: "int \<Rightarrow> bool \<Rightarrow> int \<Rightarrow> int \<Rightarrow> uchar list \<Rightarrow> (clientinfo \<Rightarrow> clientinfo) \<Rightarrow> int \<Rightarrow> int \<Rightarrow> wsbuilder \<times> 'a world_scheme
    \<Rightarrow> wsbuilder \<times> 'a world_scheme" where
  "add_chunk chan rel mtu need x clear cn bn bw =
     (let (b, w) = (if dlen (wb_buf (fst bw)) + need > mtu then send_part chan rel bw else bw);
          ofs = dlen (wb_buf b);
          b = b\<lparr>wb_buf := db_put_n x (wb_buf b)\<rparr>
      in (b, mark_own cn ofs b (upd_client bn clear w)))"

lemma add_chunk_spec:
  assumes "stage mtu old segs cur b w" and "contig (map fst cur @ cn # ns)" and "x \<noteq> []" "int (length x) \<le> need" and "bn \<in> set (nums w)"
    and clear: "\<And>ci. ci_clientnum (clear ci) = ci_clientnum ci \<and> ci_state (clear ci) = ci_state ci \<and> ci_wsdata (clear ci) = ci_wsdata ci \<and> ci_wslen (clear ci) = ci_wslen ci"
    and size: "ws_size (clear (client bn w)) + int (length x) \<le> ws_size (client bn w)"
    and "add_chunk chan rel mtu need x clear cn bn (b, w) = (b', w')"
  obtains segs' cur' ofs w1 where "stage mtu old segs' cur' b' w'" "concat (segs' chan) @ cur' = concat (segs chan) @ cur @ [(cn, x)]"
    "\<And>c. c \<noteq> chan \<Longrightarrow> segs' c = segs c" "contig (map fst cur' @ ns)" "clients w1 = clients w" "connects w1 = connects w"
    "w' = mark_own cn ofs b' (upd_client bn clear w1)" "wb_block b' = wb_block b" "length (wb_data b') = length (wb_data b)"
    "reliablemessages (net w') = reliablemessages (net w)"
proof -
  have cc: "contig (map fst cur)" "contig (cn # ns)" using contig_append [OF assms(2)] by blast+
  show thesis
  proof (cases "dlen (wb_buf b) + need > mtu")
    case True
    obtain b1 w1 where s: "send_part chan rel (b, w) = (b1, w1)" by force
    note ss = stage_send [OF assms(1) cc(1) s]
    define b2 where "b2 = b1\<lparr>wb_buf := db_put_n x (wb_buf b1)\<rparr>"
    have "add_chunk chan rel mtu need x clear cn bn (b, w) = (b2, mark_own cn (dlen (wb_buf b1)) b2 (upd_client bn clear w1))"
      using True s by (simp add: add_chunk_def b2_def Let_def)
    then have e: "b' = b2" "w' = mark_own cn (dlen (wb_buf b1)) b2 (upd_client bn clear w1)" using assms(8) by simp_all
    have cl: "client n w1 = client n w" "nums w1 = nums w" for n using ss(2,3) by (auto simp: nums_def roster_def intro: client_cong)
    have n: "bn \<in> set (nums w1)" using assms(5) cl(2) by simp
    have sz: "ws_size (clear (client bn w1)) + int (length x) \<le> ws_size (client bn w1)" using size cl(1) by simp
    have pf: "part_fits mtu ([] @ [(cn, x)])" by (simp add: part_fits_def)
    note sa = stage_add [OF ss(1) assms(3) n clear sz pf b2_def]
    show thesis
      by (rule that [OF sa(1) [folded e], of w1 "dlen (wb_buf b1)"])
        (use ss cc sa(2) e(2) [folded e(1)] in \<open>auto simp: e b2_def contig_Cons split: if_splits\<close>)
  next
    case False
    define b2 where "b2 = b\<lparr>wb_buf := db_put_n x (wb_buf b)\<rparr>"
    have "add_chunk chan rel mtu need x clear cn bn (b, w) = (b2, mark_own cn (dlen (wb_buf b)) b2 (upd_client bn clear w))"
      using False by (simp add: add_chunk_def b2_def Let_def)
    then have e: "b' = b2" "w' = mark_own cn (dlen (wb_buf b)) b2 (upd_client bn clear w)" using assms(8) by simp_all
    have "part_ok cur b" using assms(1) by (simp add: stage_def)
    then have pf: "part_fits mtu (cur @ [(cn, x)])" using False assms(4) part_len [of cur b] by (simp add: part_fits_def)
    note sa = stage_add [OF assms(1,3,5) clear size pf b2_def]
    show thesis
      by (rule that [OF sa(1) [folded e], of w "dlen (wb_buf b)"])
        (use assms(2) sa(2) e(2) [folded e(1)] in \<open>auto simp: e b2_def\<close>)
  qed
qed

subsection \<open>All positions and all messages\<close>

text \<open>The chunks of the players that are still to come: \<open>ps\<close> are pairs of a client and a player that it speaks for.\<close>

definition message_bytes :: "int \<Rightarrow> uchar list \<Rightarrow> uchar list" where
  "message_bytes n msgs = int_bytes (word_of_int N_CLIENT) @ int_bytes (word_of_int n) @ uint_bytes (word_of_int (int (length msgs))) @ msgs"

definition pos_chunk :: "clientinfo \<Rightarrow> uchar list" where "pos_chunk ci = ci_position ci"

definition msg_chunk :: "clientinfo \<Rightarrow> uchar list" where
  "msg_chunk ci = (if ci_messages ci = [] then [] else message_bytes (ci_clientnum ci) (ci_messages ci))"

definition chunks :: "(clientinfo \<Rightarrow> uchar list) \<Rightarrow> (int \<times> int) list \<Rightarrow> 'a world_scheme \<Rightarrow> chunk list" where
  "chunks g ps w = filter (\<lambda>c. snd c \<noteq> []) (map (\<lambda>(cn, bn). (cn, g (client bn w))) ps)"

text \<open>The players in the order of the loops, each with the client that speaks for it.\<close>

definition speakers :: "clientinfo list \<Rightarrow> (int \<times> int) list" where
  "speakers cs = concat (map (\<lambda>ci. if aitype (ci_state ci) \<noteq> AI_NONE then [] else map (Pair (ci_clientnum ci)) (ci_clientnum ci # ci_bots ci)) cs)"

lemma find_agrees:
  assumes "map (\<lambda>ci. (ci_clientnum ci, h ci)) xs = map (\<lambda>ci. (ci_clientnum ci, h ci)) ys"
  shows "h (case find (\<lambda>ci. ci_clientnum ci = n) xs of Some ci \<Rightarrow> ci | None \<Rightarrow> d) = h (case find (\<lambda>ci. ci_clientnum ci = n) ys of Some ci \<Rightarrow> ci | None \<Rightarrow> d)"
  using assms
proof (induction xs arbitrary: ys)
  case (Cons x xs)
  then obtain y zs where "ys = y # zs" by (cases ys) auto
  then show ?case using Cons by auto
qed simp

lemma client_agrees:
  "map (\<lambda>ci. (ci_clientnum ci, h ci)) (roster w') = map (\<lambda>ci. (ci_clientnum ci, h ci)) (roster w) \<Longrightarrow> h (client n w') = h (client n w)"
  unfolding client_find by (rule find_agrees)

text \<open>What both loops need of the function that adds a player's chunk \<open>g\<close>.\<close>

locale chunk_adder =
  fixes add :: "int \<Rightarrow> int \<Rightarrow> wsbuilder \<times> 'a world_scheme \<Rightarrow> wsbuilder \<times> 'a world_scheme"
    and g :: "clientinfo \<Rightarrow> uchar list" and clear :: "clientinfo \<Rightarrow> clientinfo" and chan :: int and rel :: "bool \<Rightarrow> bool" and need :: "clientinfo \<Rightarrow> int"
    and mtu :: int
  assumes add_skip: "g (client bn w) = [] \<Longrightarrow> add cn bn (b, w) = (b, w)"
    and add_chunk: "g (client bn w) \<noteq> [] \<Longrightarrow> stage mtu old segs cur b w \<Longrightarrow> contig (map fst cur @ cn # ns) \<Longrightarrow> bn \<in> set (nums w)
      \<Longrightarrow> add cn bn (b, w) = add_chunk chan (rel (reliablemessages (net w))) mtu (need (client bn w)) (g (client bn w)) clear cn bn (b, w)"
    and g_need: "int (length (g ci)) \<le> need ci"
    and g_size: "g ci \<noteq> [] \<Longrightarrow> ws_size (clear ci) + int (length (g ci)) \<le> ws_size ci"
    and g_marks: "g (ci\<lparr>ci_wsdata := x\<rparr>) = g ci" "g (ci\<lparr>ci_wslen := y\<rparr>) = g ci"
    and clear_keeps: "ci_clientnum (clear ci) = ci_clientnum ci \<and> ci_state (clear ci) = ci_state ci \<and> ci_wsdata (clear ci) = ci_wsdata ci
      \<and> ci_wslen (clear ci) = ci_wslen ci \<and> ci_bots (clear ci) = ci_bots ci"
begin

text \<open>A value that neither the marks nor \<open>clear\<close> change.\<close>

definition steady :: "(clientinfo \<Rightarrow> 'c) \<Rightarrow> bool" where
  "steady h \<longleftrightarrow> (\<forall>ci x y. h (ci\<lparr>ci_wsdata := x\<rparr>) = h ci \<and> h (ci\<lparr>ci_wslen := y\<rparr>) = h ci \<and> h (clear ci) = h ci)"

lemma steady_mark:
  assumes "steady h"
  shows "map h (clients (mark_own cn ofs b v)) = map h (clients v)" "map h (connects (mark_own cn ofs b v)) = map h (connects v)"
  using assms by (simp_all add: mark_own_def upd_client_def steady_def Let_def)

lemma steady_clear:
  assumes "steady h"
  shows "map h (clients (upd_client bn clear v)) = map h (clients v)" "map h (connects (upd_client bn clear v)) = map h (connects v)"
  using assms by (simp_all add: upd_client_def steady_def)

lemma adds_spec:
  assumes "stage mtu old segs cur b w" and "contig (map fst cur @ map fst ps @ ns)" and "distinct (map snd ps)" and "snd ` set ps \<subseteq> set (nums w)"
    and "fold (\<lambda>(cn, bn). add cn bn) ps (b, w) = (b', w')"
  shows "\<exists>segs' cur'. stage mtu old segs' cur' b' w' \<and> concat (segs' chan) @ cur' = concat (segs chan) @ cur @ chunks g ps w
    \<and> (\<forall>c. c \<noteq> chan \<longrightarrow> segs' c = segs c) \<and> contig (map fst cur' @ ns) \<and> wb_block b' = wb_block b \<and> length (wb_data b') = length (wb_data b)
    \<and> reliablemessages (net w') = reliablemessages (net w)
    \<and> (\<forall>h :: clientinfo \<Rightarrow> 'c. steady h \<longrightarrow> map h (clients w') = map h (clients w) \<and> map h (connects w') = map h (connects w))"
  using assms
proof (induction ps arbitrary: segs cur b w)
  case Nil
  then show ?case by (intro exI [of _ segs] exI [of _ cur]) (simp add: chunks_def)
next
  case (Cons p ps)
  obtain cn bn where p: "p = (cn, bn)" by force
  let ?x = "g (client bn w)"
  show ?case
  proof (cases "?x = []")
    case True
    have "contig (map fst cur @ map fst ps @ ns)" using Cons.prems(2) contig_remove [of "map fst cur" cn "map fst ps @ ns"] p by simp
    moreover have "fold (\<lambda>(cn, bn). add cn bn) ps (b, w) = (b', w')" using Cons.prems(5) add_skip [OF True] p by simp
    ultimately have "\<exists>segs' cur'. stage mtu old segs' cur' b' w' \<and> concat (segs' chan) @ cur' = concat (segs chan) @ cur @ chunks g ps w
      \<and> (\<forall>c. c \<noteq> chan \<longrightarrow> segs' c = segs c) \<and> contig (map fst cur' @ ns) \<and> wb_block b' = wb_block b \<and> length (wb_data b') = length (wb_data b)
      \<and> reliablemessages (net w') = reliablemessages (net w)
      \<and> (\<forall>h :: clientinfo \<Rightarrow> 'c. steady h \<longrightarrow> map h (clients w') = map h (clients w) \<and> map h (connects w') = map h (connects w))"
      using Cons.prems(1,3,4) p by (intro Cons.IH) simp_all
    moreover have "chunks g (p # ps) w = chunks g ps w" using True p by (simp add: chunks_def)
    ultimately show ?thesis by simp
  next
    case False
    have bn: "bn \<in> set (nums w)" and c: "contig (map fst cur @ cn # map fst ps @ ns)" using Cons.prems(2,4) p by auto
    obtain b2 w2 where a: "add cn bn (b, w) = (b2, w2)" by force
    from add_chunk_spec [OF Cons.prems(1) c False g_need bn _ g_size [OF False] a [unfolded add_chunk [OF False Cons.prems(1) c bn]]] clear_keeps
    obtain segs2 cur2 ofs w1 where st: "stage mtu old segs2 cur2 b2 w2" and cc: "concat (segs2 chan) @ cur2 = concat (segs chan) @ cur @ [(cn, ?x)]"
      and oth: "\<And>c. c \<noteq> chan \<Longrightarrow> segs2 c = segs c" and ct: "contig (map fst cur2 @ map fst ps @ ns)" and cl: "clients w1 = clients w" "connects w1 = connects w"
      and w2: "w2 = mark_own cn ofs b2 (upd_client bn clear w1)" and bl: "wb_block b2 = wb_block b" "length (wb_data b2) = length (wb_data b)"
      "reliablemessages (net w2) = reliablemessages (net w)" by metis
    have keep: "map h (clients w2) = map h (clients w) \<and> map h (connects w2) = map h (connects w)" if "steady h" for h :: "clientinfo \<Rightarrow> 'd"
      using steady_mark [OF that, of cn ofs b2 "upd_client bn clear w1"] steady_clear [OF that, of bn w1] cl unfolding w2 by simp
    have "steady ci_clientnum" using clear_keeps by (simp add: steady_def)
    then have n: "nums w2 = nums w" using keep [of ci_clientnum] by (simp add: nums_def)
    have g: "g (client m w2) = g (client m w)" if "m \<noteq> bn" for m
    proof -
      have "g (client m w2) = g (client m (upd_client bn clear w1))"
        unfolding w2 mark_own_def by (rule client_upd_keep) (simp_all add: Let_def g_marks)
      also have "client m (upd_client bn clear w1) = client m w1" by (rule client_upd_other) (use clear_keeps that in auto)
      also have "\<dots> = client m w" using cl by (intro client_cong) (simp add: roster_def)
      finally show ?thesis .
    qed
    have "bn \<notin> snd ` set ps" using Cons.prems(3) p by simp
    then have ch: "chunks g ps w2 = chunks g ps w" unfolding chunks_def
      by (intro arg_cong [where f = "filter _"] map_cong refl) (use g in \<open>auto simp: image_iff\<close>)
    have "fold (\<lambda>(cn, bn). add cn bn) ps (b2, w2) = (b', w')" using Cons.prems(5) p a by simp
    then have "\<exists>segs' cur'. stage mtu old segs' cur' b' w' \<and> concat (segs' chan) @ cur' = concat (segs2 chan) @ cur2 @ chunks g ps w2
      \<and> (\<forall>c. c \<noteq> chan \<longrightarrow> segs' c = segs2 c) \<and> contig (map fst cur' @ ns) \<and> wb_block b' = wb_block b2 \<and> length (wb_data b') = length (wb_data b2)
      \<and> reliablemessages (net w') = reliablemessages (net w2)
      \<and> (\<forall>h :: clientinfo \<Rightarrow> 'c. steady h \<longrightarrow> map h (clients w') = map h (clients w2) \<and> map h (connects w') = map h (connects w2))"
      using st ct Cons.prems(3,4) p n by (intro Cons.IH) simp_all
    then obtain segs' cur' where ih: "stage mtu old segs' cur' b' w'" "concat (segs' chan) @ cur' = concat (segs2 chan) @ cur2 @ chunks g ps w2"
      "\<And>c. c \<noteq> chan \<Longrightarrow> segs' c = segs2 c" "contig (map fst cur' @ ns)" "wb_block b' = wb_block b2" "length (wb_data b') = length (wb_data b2)"
      "reliablemessages (net w') = reliablemessages (net w2)"
      and ih_keep: "\<And>h :: clientinfo \<Rightarrow> 'c. steady h \<Longrightarrow> map h (clients w') = map h (clients w2) \<and> map h (connects w') = map h (connects w2)" by blast
    have "chunks g (p # ps) w = (cn, ?x) # chunks g ps w" using False p by (simp add: chunks_def)
    then have "concat (segs' chan) @ cur' = concat (segs chan) @ cur @ chunks g (p # ps) w"
      using ih(2) cc ch by (metis append.assoc append_Cons append_Nil)
    moreover have "map h (clients w') = map h (clients w) \<and> map h (connects w') = map h (connects w)" if "steady h" for h :: "clientinfo \<Rightarrow> 'c"
      using ih_keep [OF that] keep [OF that] by simp
    ultimately show ?thesis using ih oth bl by (intro exI [of _ segs'] exI [of _ cur']) simp
  qed
qed

text \<open>The loop over the clients adds the chunks of all speakers.\<close>

lemma clients_spec:
  assumes "stage mtu old segs cur b w" and "contig (map fst cur @ map fst (speakers cs))" and "distinct (map snd (speakers cs))"
    and "snd ` set (speakers cs) \<subseteq> set (nums w)"
    and "\<And>ci. ci \<in> set cs \<Longrightarrow> aitype (ci_state (client (ci_clientnum ci) w)) = aitype (ci_state ci) \<and> ci_bots (client (ci_clientnum ci) w) = ci_bots ci"
  shows "fold (add_client add) (map ci_clientnum cs) (b, w) = fold (\<lambda>(cn, bn). add cn bn) (speakers cs) (b, w)"
  using assms
proof (induction cs arbitrary: segs cur b w)
  case (Cons ci cs)
  let ?n = "ci_clientnum ci"
  have c: "aitype (ci_state (client ?n w)) = aitype (ci_state ci)" "ci_bots (client ?n w) = ci_bots ci" using Cons.prems(5) by simp_all
  show ?case
  proof (cases "aitype (ci_state ci) = AI_NONE")
    case False
    then have "speakers (ci # cs) = speakers cs" by (simp add: speakers_def)
    then show ?thesis using Cons.IH [of segs cur b w] Cons.prems c False by (simp add: add_client_def)
  next
    case True
    let ?ps = "map (Pair ?n) (?n # ci_bots ci)"
    have sp: "speakers (ci # cs) = ?ps @ speakers cs" using True by (simp add: speakers_def)
    have a: "add_client add ?n (b, w) = fold (\<lambda>(cn, bn). add cn bn) ?ps (b, w)"
      using c True by (simp add: add_client_def fold_map comp_def)
    obtain b1 w1 where f: "fold (\<lambda>(cn, bn). add cn bn) ?ps (b, w) = (b1, w1)" by force
    have prem: "contig (map fst cur @ map fst ?ps @ map fst (speakers cs))" "distinct (map snd ?ps)" "snd ` set ?ps \<subseteq> set (nums w)"
      using Cons.prems(2-4) unfolding sp by (simp_all add: image_Un)
    from adds_spec [where 'c = "int \<times> int \<times> int list", OF Cons.prems(1) prem f] obtain segs1 cur1 where
      st: "stage mtu old segs1 cur1 b1 w1" "contig (map fst cur1 @ map fst (speakers cs))"
      and k: "\<And>h :: clientinfo \<Rightarrow> int \<times> int \<times> int list. steady h \<Longrightarrow> map h (clients w1) = map h (clients w) \<and> map h (connects w1) = map h (connects w)" by blast
    have s: "steady (\<lambda>ci. (ci_clientnum ci, aitype (ci_state ci), ci_bots ci))" using clear_keeps by (simp add: steady_def)
    have same: "(aitype (ci_state (client n w1)), ci_bots (client n w1)) = (aitype (ci_state (client n w)), ci_bots (client n w))" for n
      by (rule client_agrees) (use k [OF s] in \<open>simp add: roster_def\<close>)
    have "nums w1 = nums w" using arg_cong [OF conjunct1 [OF k [OF s]], of "map fst"] by (simp add: nums_def comp_def)
    then have "fold (add_client add) (map ci_clientnum cs) (b1, w1) = fold (\<lambda>(cn, bn). add cn bn) (speakers cs) (b1, w1)"
      using Cons.prems(3-5) same by (intro Cons.IH [OF st]) (simp_all add: sp image_Un)
    then show ?thesis unfolding sp fold_append comp_def using a f by simp
  qed
qed (simp add: speakers_def)

end

text \<open>A position is added as it is.\<close>

interpretation positions: chunk_adder "addposition mtu" pos_chunk "\<lambda>ci. ci\<lparr>ci_position := []\<rparr>" 0 "\<lambda>_. False" "\<lambda>ci. int (length (ci_position ci))" mtu
  for mtu
  by unfold_locales (simp_all add: addposition_def add_chunk_def pos_chunk_def sendpositions_def ws_size_def Let_def)

lemma length_uint_bytes: "length (uint_bytes n) \<le> 4"
  by (simp add: uint_bytes_def putuint_t_def)

lemma length_message_bytes: "int (length (message_bytes n msgs)) \<le> 10 + int (length msgs)"
proof -
  have "length (int_bytes (word_of_int N_CLIENT)) = 1" by code_simp
  then show ?thesis using length_int_bytes [of "word_of_int n"] length_uint_bytes [of "word_of_int (int (length msgs))"]
    by (auto simp: message_bytes_def)
qed

lemma put_message:
  assumes "db_wf p" and "int (length (message_bytes n msgs)) \<le> db_remaining p"
  shows "db_put_n msgs (putuint_t db_put (word_of_int (int (length msgs))) (putint_t db_put (word_of_int n) (putint_t db_put (word_of_int N_CLIENT) p)))
    = db_put_n (message_bytes n msgs) p"
proof -
  let ?a = "int_bytes (word_of_int N_CLIENT)" and ?b = "int_bytes (word_of_int n)" and ?c = "uint_bytes (word_of_int (int (length msgs)))"
  have l: "int (length ((?a @ ?b @ ?c) @ msgs)) \<le> db_remaining p" using assms(2) by (simp add: message_bytes_def)
  then have l': "int (length (?a @ ?b @ ?c)) \<le> db_remaining p" by simp
  have "putuint_t db_put (word_of_int (int (length msgs))) (putint_t db_put (word_of_int n) (putint_t db_put (word_of_int N_CLIENT) p))
    = fold db_put (?a @ ?b @ ?c) p" by (simp add: putint_fold putuint_fold)
  also have "\<dots> = db_put_n (?a @ ?b @ ?c) p" by (rule puts_put_n [OF assms(1) l'])
  finally show ?thesis using put_n_append [OF assms(1) l] by (simp add: message_bytes_def)
qed

text \<open>A message is added with a head that names the player.\<close>

lemma stage_room:
  assumes "stage mtu old segs cur b w" and "bn \<in> set (nums w)"
  shows "db_wf (wb_buf b)" "ws_size (client bn w) \<le> db_remaining (wb_buf b)"
proof -
  have st: "part_ok cur b" "distinct (map ci_clientnum (roster w))" "2 * (int (length (bytes cur)) + wsmax w) \<le> dmaxlen (wb_buf b)"
    using assms(1) unfolding stage_def by blast+
  show "db_wf (wb_buf b)" using st(1) by (simp add: part_ok_def)
  have "wsmax (upd_client bn (\<lambda>ci. ci\<lparr>ci_position := [], ci_messages := []\<rparr>) w) = wsmax w - ws_size (client bn w)"
    using wsmax_upd [OF st(2) assms(2), of "\<lambda>ci. ci\<lparr>ci_position := [], ci_messages := []\<rparr>"] by (simp add: ws_size_def)
  then have "ws_size (client bn w) \<le> wsmax w" using wsmax_nonneg [of "upd_client bn (\<lambda>ci. ci\<lparr>ci_position := [], ci_messages := []\<rparr>) w"] by linarith
  then show "ws_size (client bn w) \<le> db_remaining (wb_buf b)" using st(3) part_len [OF st(1)] ws_size_nonneg [of "client bn w"]
      of_nat_0_le_iff [of "length (bytes cur)", where 'a = int]
    unfolding db_remaining_def distrib_left by linarith
qed

lemma addmessages_chunk:
  assumes "msg_chunk (client bn w) \<noteq> []" and st: "stage mtu old segs cur b w" and c: "contig (map fst cur @ cn # ns)" and bn: "bn \<in> set (nums w)"
  shows "addmessages mtu cn bn (b, w) = add_chunk 1 (reliablemessages (net w)) mtu (10 + int (length (ci_messages (client bn w)))) (msg_chunk (client bn w))
    (\<lambda>ci. ci\<lparr>ci_messages := []\<rparr>) cn bn (b, w)"
proof -
  let ?ms = "ci_messages (client bn w)"
  have ms: "?ms \<noteq> []" using assms(1) by (simp add: msg_chunk_def split: if_splits)
  have num: "ci_clientnum (client bn w) = bn" using client_in_roster [of bn w] bn by (auto simp: nums_def roster_def)
  then have x: "msg_chunk (client bn w) = message_bytes bn ?ms" using ms by (simp add: msg_chunk_def)
  have put: "db_put_n ?ms (putuint_t db_put (word_of_int (int (length ?ms))) (putint_t db_put (word_of_int bn) (putint_t db_put (word_of_int N_CLIENT) (wb_buf b2))))
      = db_put_n (message_bytes bn ?ms) (wb_buf b2)" if s: "stage mtu old segs2 cur2 b2 w2" and same: "clients w2 = clients w" "connects w2 = connects w" for segs2 cur2 b2 w2
  proof -
    have cl: "client bn w2 = client bn w" "bn \<in> set (nums w2)" using same bn by (auto simp: nums_def roster_def intro: client_cong)
    have "10 + int (length ?ms) \<le> ws_size (client bn w)" using ms by (simp add: ws_size_def)
    then have "int (length (message_bytes bn ?ms)) \<le> db_remaining (wb_buf b2)"
      using stage_room(2) [OF s cl(2)] length_message_bytes [of bn ?ms] unfolding cl(1) by linarith
    with stage_room(1) [OF s cl(2)] show ?thesis by (rule put_message)
  qed
  show ?thesis
  proof (cases "dlen (wb_buf b) + 10 + int (length ?ms) > mtu")
    case True
    obtain b1 w1 where s: "send_part 1 (reliablemessages (net w)) (b, w) = (b1, w1)" by force
    have cc: "contig (map fst cur)" using contig_append [OF c] by blast
    note ss = stage_send [OF st cc s]
    have "ci_clientnum (client bn w1) = bn" using num client_cong [of w1 w bn] ss(2,3) by (simp add: roster_def)
    then show ?thesis using True ms s put [OF ss(1-3)] unfolding x by (simp add: addmessages_def add_chunk_def sendmessages_def Let_def add.assoc)
  next
    case False
    then show ?thesis using ms num put [OF st refl refl] unfolding x by (simp add: addmessages_def add_chunk_def Let_def add.assoc)
  qed
qed

interpretation messages: chunk_adder "addmessages mtu" msg_chunk "\<lambda>ci. ci\<lparr>ci_messages := []\<rparr>" 1 "\<lambda>r. r" "\<lambda>ci. 10 + int (length (ci_messages ci))" mtu
  for mtu
proof unfold_locales
  show "addmessages mtu cn bn (b, w) = (b, w)" if "msg_chunk (client bn w) = []" for bn w cn b
    using that int_bytes_nonempty by (simp add: addmessages_def msg_chunk_def message_bytes_def split: if_splits)
  show "int (length (msg_chunk ci)) \<le> 10 + int (length (ci_messages ci))" for ci
    using length_message_bytes [of "ci_clientnum ci" "ci_messages ci"] by (simp add: msg_chunk_def)
  show "ws_size (ci\<lparr>ci_messages := []\<rparr>) + int (length (msg_chunk ci)) \<le> ws_size ci" if "msg_chunk ci \<noteq> []" for ci
    using that length_message_bytes [of "ci_clientnum ci" "ci_messages ci"] by (simp add: ws_size_def msg_chunk_def split: if_splits)
qed (simp_all add: addmessages_chunk msg_chunk_def)

subsection \<open>The speakers of a server\<close>

definition voice :: "clientinfo \<Rightarrow> int \<times> int \<times> int list" where
  "voice ci = (ci_clientnum ci, aitype (ci_state ci), ci_bots ci)"

lemma speakers_voice: "map voice cs = map voice ds \<Longrightarrow> speakers cs = speakers ds"
proof -
  have "speakers cs = concat (map (\<lambda>(n, a, bs). if a \<noteq> AI_NONE then [] else map (Pair n) (n # bs)) (map voice cs))" for cs
    unfolding speakers_def map_map comp_def voice_def prod.case ..
  then show "map voice cs = map voice ds \<Longrightarrow> speakers cs = speakers ds" by (simp only:)
qed

lemma speakers_fst: "fst ` set (speakers cs) \<subseteq> ci_clientnum ` set cs"
  by (auto simp: speakers_def split: if_splits)

lemma speakers_contig: "distinct (map ci_clientnum cs) \<Longrightarrow> contig (map fst (speakers cs))"
proof (induction cs)
  case (Cons ci cs)
  show ?case
  proof (cases "aitype (ci_state ci) = AI_NONE")
    case True
    then have "map fst (speakers (ci # cs)) = replicate (Suc (length (ci_bots ci))) (ci_clientnum ci) @ map fst (speakers cs)"
      by (simp add: speakers_def comp_def map_replicate_const)
    moreover have "ci_clientnum ci \<notin> set (map fst (speakers cs))" using Cons.prems speakers_fst [of cs] by auto
    moreover have "contig (map fst (speakers cs))" using Cons by simp
    ultimately show ?thesis by (simp only: contig_replicate not_False_eq_True)
  qed (use Cons in \<open>simp add: speakers_def\<close>)
qed (simp add: speakers_def)

lemma speakers_distinct:
  assumes "distinct (map ci_clientnum cs)"
    and "\<And>ci. ci \<in> set cs \<Longrightarrow> aitype (ci_state ci) = AI_NONE \<Longrightarrow> distinct (ci_clientnum ci # ci_bots ci) \<and> (\<forall>b \<in> set (ci_clientnum ci # ci_bots ci). boss b = ci_clientnum ci)"
  shows "distinct (map snd (speakers cs)) \<and> (\<forall>b \<in> snd ` set (speakers cs). boss b \<in> ci_clientnum ` set cs)"
  using assms
proof (induction cs)
  case (Cons ci cs)
  have ih: "distinct (map snd (speakers cs))" "\<forall>b \<in> snd ` set (speakers cs). boss b \<in> ci_clientnum ` set cs"
    using Cons.IH Cons.prems by simp_all
  show ?case
  proof (cases "aitype (ci_state ci) = AI_NONE")
    case True
    then have sp: "map snd (speakers (ci # cs)) = (ci_clientnum ci # ci_bots ci) @ map snd (speakers cs)" by (simp add: speakers_def comp_def)
    have o: "distinct (ci_clientnum ci # ci_bots ci)" "\<forall>b \<in> set (ci_clientnum ci # ci_bots ci). boss b = ci_clientnum ci"
      using Cons.prems(2) [of ci] True by simp_all
    have new: "ci_clientnum ci \<notin> ci_clientnum ` set cs" using Cons.prems(1) by simp
    have "set (ci_clientnum ci # ci_bots ci) \<inter> set (map snd (speakers cs)) = {}"
    proof (rule ccontr)
      assume "\<not> ?thesis"
      then obtain b where b: "b \<in> set (ci_clientnum ci # ci_bots ci)" "b \<in> snd ` set (speakers cs)" by auto
      then show False using bspec [OF o(2) b(1)] bspec [OF ih(2) b(2)] new by simp
    qed
    then have d: "distinct (map snd (speakers (ci # cs)))" unfolding sp distinct_append using o(1) ih(1) by blast
    have "boss b \<in> ci_clientnum ` set (ci # cs)" if "b \<in> set (map snd (speakers (ci # cs)))" for b
      using that o(2) ih(2) unfolding sp by auto
    then show ?thesis using d by simp
  next
    case False
    then have "speakers (ci # cs) = speakers cs" by (simp add: speakers_def)
    then show ?thesis using ih by auto
  qed
qed (simp add: speakers_def)

lemma speakers_ok:
  assumes "bots_ok w"
  shows "contig (map fst (speakers (clients w)))" "distinct (map snd (speakers (clients w)))" "snd ` set (speakers (clients w)) \<subseteq> set (nums w)"
proof -
  note t = table_okD [OF assms [unfolded bots_ok_def]]
  have d: "distinct (map ci_clientnum (clients w))" using roster_distinct [OF assms] by (simp add: roster_def)
  then show "contig (map fst (speakers (clients w)))" by (rule speakers_contig)
  define boss where "boss b = (if aitype (ci_state (client b w)) = AI_NONE then b else ci_ownernum (client b w))" for b
  have bot: "aitype (ci_state (client b w)) \<noteq> AI_NONE \<and> ci_ownernum (client b w) = ci_clientnum ci \<and> b \<in> set (nums w)"
    if ci: "ci \<in> set (clients w)" and b: "b \<in> set (ci_bots ci)" for ci b
  proof -
    have "listing_ok (rows w) (seat ci)" using t(5) [of "seat ci"] ci by simp
    then obtain c where c: "c \<in> set (clients w)" "ci_clientnum c = b" "aitype (ci_state c) \<noteq> AI_NONE" "ci_ownernum c = ci_clientnum ci"
      using b by (auto simp: listing_ok_def)
    moreover have "client b w = c" using bots_ok_client [OF assms, of c] c(1,2) by (simp add: roster_def)
    ultimately show ?thesis by (auto simp: nums_def)
  qed
  have all: "distinct (ci_clientnum ci # ci_bots ci) \<and> (\<forall>b \<in> set (ci_clientnum ci # ci_bots ci). boss b = ci_clientnum ci)"
    if ci: "ci \<in> set (clients w)" "aitype (ci_state ci) = AI_NONE" for ci
  proof -
    have "client (ci_clientnum ci) w = ci" using bots_ok_client [OF assms, of ci] ci(1) by (simp add: roster_def)
    moreover have "distinct (ci_bots ci)" using t(5) [of "seat ci"] ci(1) by (simp add: listing_ok_def)
    moreover have "ci_clientnum ci \<notin> set (ci_bots ci)" using bot [OF ci(1), of "ci_clientnum ci"] calculation(1) ci(2) by auto
    ultimately show ?thesis using bot [OF ci(1)] ci(2) by (auto simp: boss_def)
  qed
  show "distinct (map snd (speakers (clients w)))" using speakers_distinct [OF d all] by blast
  show "snd ` set (speakers (clients w)) \<subseteq> set (nums w)" using bot by (auto simp: speakers_def nums_def split: if_splits)
qed

subsection \<open>The whole block\<close>

text \<open>The memory of the block has the size that was asked for.\<close>

definition memory_sized :: "'a world_scheme \<Rightarrow> bool" where
  "memory_sized w \<longleftrightarrow> length (fresh_memory (conf w) (nat (2 * wsmax w))) = nat (2 * wsmax w)"

lemma reset_keeps:
  assumes "\<And>ci. h (ci\<lparr>ci_overflow := 0, ci_wsdata := - 1\<rparr>) = h ci"
  shows "map h (clients (reset_clients w)) = map h (clients w)" "map h (roster (reset_clients w)) = map h (roster w)"
  using assms by (simp_all add: reset_clients_def roster_def)

lemma reset_client:
  assumes "\<And>ci. h (ci\<lparr>ci_overflow := 0, ci_wsdata := - 1\<rparr>) = h ci"
  shows "h (client n (reset_clients w)) = h (client n w)"
  by (rule client_agrees) (rule reset_keeps, simp add: assms)

lemma reset_sizes [simp]:
  "wsmax (reset_clients w) = wsmax w" "ws_mtu (reset_clients w) = ws_mtu w" "nums (reset_clients w) = nums w"
  "map ci_clientnum (roster (reset_clients w)) = map ci_clientnum (roster w)" "outbox (reset_clients w) = outbox w"
  "net (reset_clients w) = net w" "conf (reset_clients w) = conf w" "speakers (clients (reset_clients w)) = speakers (clients w)"
proof -
  show "wsmax (reset_clients w) = wsmax w" unfolding wsmax_sizes by (rule arg_cong [OF reset_keeps(1)]) (simp add: ws_size_def)
  then show "ws_mtu (reset_clients w) = ws_mtu w" by (simp add: ws_mtu_def reset_clients_def)
  show "nums (reset_clients w) = nums w" "map ci_clientnum (roster (reset_clients w)) = map ci_clientnum (roster w)"
    unfolding nums_def by (rule reset_keeps; simp)+
  show "speakers (clients (reset_clients w)) = speakers (clients w)" by (rule speakers_voice, rule reset_keeps) (simp add: voice_def)
qed (simp_all add: reset_clients_def)

lemma stage_start:
  assumes "bots_ok w" and "memory_sized w"
  shows "stage mtu (\<lambda>c n. sent n c (outbox w)) (\<lambda>c. []) [] (ws_setup (reset_clients w)) (reset_clients w)"
proof -
  have "distinct (map ci_clientnum (roster (reset_clients w)))" using roster_distinct [OF assms(1)] by simp
  moreover have "part_ok [] (ws_setup (reset_clients w))"
    using assms(2) wsmax_nonneg [of w] by (simp add: part_ok_def ws_setup_def databuf_new_def Let_def memory_sized_def db_wf_def written_def db_overwrote_def)
  moreover have "marks_ok (wb_base (ws_setup (reset_clients w))) [] (clients (reset_clients w))"
    by (auto simp: marks_ok_def ws_setup_def wb_base_def Let_def reset_clients_def)
  moreover have "2 * (int (length (bytes [])) + wsmax (reset_clients w)) \<le> dmaxlen (wb_buf (ws_setup (reset_clients w)))"
    by (simp add: ws_setup_def Let_def databuf_new_def)
  moreover have "delivered c [] (\<lambda>n. sent n c (outbox w)) (ws_setup (reset_clients w)) (reset_clients w)" for c
    by (simp add: delivered_def)
  ultimately show ?thesis by (simp add: stage_def part_fits_def)
qed

lemma fill_spec:
  assumes "bots_ok w" and "memory_sized w" and "fill_block (reset_clients w) = (b, w')"
  obtains segs where "stage (ws_mtu w) (\<lambda>c n. sent n c (outbox w)) segs [] b w'"
    "concat (segs 0) = chunks pos_chunk (speakers (clients w)) w" "concat (segs 1) = chunks msg_chunk (speakers (clients w)) w"
    "length (wb_data b) = nat (2 * wsmax w)" "wb_block b = nextblock (net w)" "map voice (clients w') = map voice (clients w)"
proof -
  let ?r = "reset_clients w" and ?m = "ws_mtu w" and ?ss = "speakers (clients w)" and ?old = "\<lambda>c n. sent n c (outbox w)"
  note ok = speakers_ok [OF assms(1)]
  have self: "aitype (ci_state (client (ci_clientnum ci) v)) = aitype (ci_state ci) \<and> ci_bots (client (ci_clientnum ci) v) = ci_bots ci"
    if "distinct (map ci_clientnum (roster v))" "ci \<in> set (clients v)" for ci and v :: "'a world_scheme"
    using distinct_client [OF that(1), of ci] that(2) by (simp add: roster_def)
  have voice: "map ci_clientnum (clients v) = map ci_clientnum (clients w)" if "map voice (clients v) = map voice (clients w)" for v :: "'a world_scheme"
    using arg_cong [OF that, of "map fst"] by (simp add: comp_def voice_def)
  let ?k = "\<lambda>ci. (voice ci, msg_chunk ci)"
  obtain b1 w1 where f1: "fold (add_client (addposition ?m)) (map ci_clientnum (clients ?r)) (ws_setup ?r, ?r) = (b1, w1)" by force
  note st0 = stage_start [OF assms(1,2), of ?m]
  have rn: "distinct (map ci_clientnum (roster ?r))" using roster_distinct [OF assms(1)] by simp
  have p1: "contig (map fst ([] :: chunk list) @ map fst (speakers (clients ?r)))" "distinct (map snd (speakers (clients ?r)))"
    "snd ` set (speakers (clients ?r)) \<subseteq> set (nums ?r)" using ok by simp_all
  have g1: "fold (\<lambda>(cn, bn). addposition ?m cn bn) (speakers (clients ?r)) (ws_setup ?r, ?r) = (b1, w1)"
    using positions.clients_spec [OF st0 p1 self [OF rn]] f1 by simp
  have p1': "contig (map fst ([] :: chunk list) @ map fst ?ss @ [])" "distinct (map snd ?ss)" "snd ` set ?ss \<subseteq> set (nums ?r)" using ok by simp_all
  from positions.adds_spec [where 'c = "(int \<times> int \<times> int list) \<times> uchar list", OF st0 p1' g1 [unfolded reset_sizes]] obtain segs1 cur1 where
    s1: "stage ?m ?old segs1 cur1 b1 w1" "concat (segs1 0) @ cur1 = chunks pos_chunk ?ss ?r" "\<And>c. c \<noteq> 0 \<Longrightarrow> segs1 c = []" "contig (map fst cur1)"
      "wb_block b1 = wb_block (ws_setup ?r)" "length (wb_data b1) = length (wb_data (ws_setup ?r))"
    and k1: "\<And>h :: clientinfo \<Rightarrow> (int \<times> int \<times> int list) \<times> uchar list. positions.steady h
      \<Longrightarrow> map h (clients w1) = map h (clients ?r) \<and> map h (connects w1) = map h (connects ?r)" by auto
  have "positions.steady ?k" by (simp add: positions.steady_def voice_def msg_chunk_def)
  note k1 = k1 [OF this]
  obtain b2 w2 where f2: "sendpositions (b1, w1) = (b2, w2)" by force
  note s2 = stage_send [OF s1(1,4) f2 [unfolded sendpositions_def]]
  have k2: "map ?k (clients w2) = map ?k (clients ?r)" "map ?k (roster w2) = map ?k (roster ?r)" using k1 s2(2,3) by (simp_all add: roster_def)
  have v2: "map voice (clients w2) = map voice (clients w)"
  proof -
    have "map voice (clients w2) = map voice (clients ?r)" using arg_cong [OF k2(1), of "map fst"] by (simp add: comp_def)
    also have "\<dots> = map voice (clients w)" by (rule reset_keeps) (simp add: voice_def)
    finally show ?thesis .
  qed
  have n2: "map ci_clientnum (clients w2) = map ci_clientnum (clients ?r)" using voice [OF v2] reset_sizes(3) [of w] by (simp add: nums_def)
  have sp2: "speakers (clients w2) = ?ss" using v2 by (rule speakers_voice)
  have rn2: "distinct (map ci_clientnum (roster w2))" using s2(1) unfolding stage_def by blast
  obtain b3 w3 where f3: "fold (add_client (addmessages ?m)) (map ci_clientnum (clients w2)) (b2, w2) = (b3, w3)" by force
  have p3: "contig (map fst ([] :: chunk list) @ map fst (speakers (clients w2)))" "distinct (map snd (speakers (clients w2)))"
    "snd ` set (speakers (clients w2)) \<subseteq> set (nums w2)" using ok voice [OF v2] unfolding sp2 by (simp_all add: nums_def)
  have g3: "fold (\<lambda>(cn, bn). addmessages ?m cn bn) ?ss (b2, w2) = (b3, w3)"
    using messages.clients_spec [OF s2(1) p3 self [OF rn2]] f3 unfolding sp2 by simp
  have p3': "contig (map fst ([] :: chunk list) @ map fst ?ss @ [])" "distinct (map snd ?ss)" "snd ` set ?ss \<subseteq> set (nums w2)"
    using p3 unfolding sp2 by simp_all
  let ?segs2 = "segs1(0 := segs1 0 @ (if cur1 = [] then [] else [cur1]))"
  from messages.adds_spec [where 'c = "int \<times> int \<times> int list", OF s2(1) p3' g3] obtain segs3 cur3 where
    s3: "stage ?m ?old segs3 cur3 b3 w3" "concat (segs3 1) @ cur3 = concat (?segs2 1) @ [] @ chunks msg_chunk ?ss w2" "\<And>c. c \<noteq> 1 \<Longrightarrow> segs3 c = ?segs2 c"
      "contig (map fst cur3 @ [])" "wb_block b3 = wb_block b2" "length (wb_data b3) = length (wb_data b2)"
    and k3: "\<And>h :: clientinfo \<Rightarrow> int \<times> int \<times> int list. messages.steady h
      \<Longrightarrow> map h (clients w3) = map h (clients w2) \<and> map h (connects w3) = map h (connects w2)" by blast
  have "messages.steady voice" by (simp add: messages.steady_def voice_def)
  note k3 = k3 [OF this]
  have "sendmessages (b3, w3) = (b, w')"
    using assms(3) f1 f2 f3 n2 by (simp add: fill_block_def Let_def)
  then have f4: "send_part 1 (reliablemessages (net w3)) (b3, w3) = (b, w')" by (simp add: sendmessages_def)
  have c3: "contig (map fst cur3)" using s3(4) by simp
  note s4 = stage_send [OF s3(1) c3 f4]
  let ?segs = "segs3(1 := segs3 1 @ (if cur3 = [] then [] else [cur3]))"
  have "chunks pos_chunk ?ss ?r = chunks pos_chunk ?ss w"
    unfolding chunks_def by (subst reset_client) (simp_all add: pos_chunk_def)
  then have a: "concat (?segs 0) = chunks pos_chunk ?ss w" using s1(2) s3(3) [of 0] by auto
  have "(voice (client n w2), msg_chunk (client n w2)) = (voice (client n ?r), msg_chunk (client n ?r))" for n
  proof (rule client_agrees)
    show "map (\<lambda>ci. (ci_clientnum ci, voice ci, msg_chunk ci)) (roster w2) = map (\<lambda>ci. (ci_clientnum ci, voice ci, msg_chunk ci)) (roster ?r)"
      using arg_cong [OF k2(2), of "map (\<lambda>x. (fst (fst x), x))"] by (simp add: comp_def voice_def)
  qed
  moreover have "msg_chunk (client n ?r) = msg_chunk (client n w)" for n by (rule reset_client) (simp add: msg_chunk_def)
  ultimately have "chunks msg_chunk ?ss w2 = chunks msg_chunk ?ss w" unfolding chunks_def by simp
  then have m: "concat (?segs 1) = chunks msg_chunk ?ss w" using s3(2) s1(3) [of 1] by auto
  have l: "length (wb_data b) = nat (2 * wsmax w)"
    using s4(6) s3(6) s2(6) s1(6) assms(2) by (simp add: ws_setup_def wb_data_def databuf_new_def Let_def memory_sized_def)
  have bl: "wb_block b = nextblock (net w)" using s4(4) s3(5) s2(4) s1(5) by (simp add: ws_setup_def Let_def)
  have v: "map voice (clients w') = map voice (clients w)" using k3 v2 s4(2) by simp
  show thesis by (rule that [OF s4(1) a m l bl v])
qed

text \<open>A part without the own bytes is what the client is sent of it.\<close>

lemma bytes_empty: "(\<And>c. c \<in> set cs \<Longrightarrow> snd c \<noteq> []) \<Longrightarrow> bytes cs = [] \<longleftrightarrow> cs = []"
  by (cases cs) auto

lemma payload_chunks:
  assumes "contig (map fst s)" and "\<And>c. c \<in> set s \<Longrightarrow> snd c \<noteq> []"
  shows "payload n s = bytes (post n s @ pre n s)" "payload n s = [] \<longleftrightarrow> post n s @ pre n s = []"
    "mset (post n s @ pre n s) = mset (filter (\<lambda>c. fst c \<noteq> n) s)" "part_fits mtu s \<Longrightarrow> part_fits mtu (post n s @ pre n s)"
proof -
  note sp = contig_split [OF assms(1), of n]
  show m: "mset (post n s @ pre n s) = mset (filter (\<lambda>c. fst c \<noteq> n) s)" using sp(2) by simp
  then have "set (post n s @ pre n s) \<subseteq> set s" by (metis mset_eq_setD filter_is_subset)
  then show "payload n s = [] \<longleftrightarrow> post n s @ pre n s = []" using bytes_empty [of "post n s @ pre n s"] assms(2) by (auto simp: payload_def)
  show "payload n s = bytes (post n s @ pre n s)" by (simp add: payload_def)
  have "length (bytes s) = length (bytes (pre n s)) + length (bytes (own n s)) + length (bytes (post n s))"
    using arg_cong [OF sp(1), of "\<lambda>x. length (bytes x)"] by simp
  moreover have "length s = length (pre n s) + length (own n s) + length (post n s)" using arg_cong [OF sp(1), of length] by simp
  ultimately show "part_fits mtu s \<Longrightarrow> part_fits mtu (post n s @ pre n s)" by (auto simp: part_fits_def)
qed

lemma payloads_chunks:
  assumes "\<And>s. s \<in> set segs \<Longrightarrow> part_fits mtu s \<and> contig (map fst s)" and "\<And>c. c \<in> set (concat segs) \<Longrightarrow> snd c \<noteq> []"
  obtains cs where "filter (\<lambda>x. x \<noteq> []) (map (payload n) segs) = map bytes cs" "mset (concat cs) = mset (filter (\<lambda>c. fst c \<noteq> n) (concat segs))"
    "\<forall>c \<in> set cs. part_fits mtu c"
  using assms
proof (induction segs arbitrary: thesis)
  case (Cons s segs)
  obtain cs where cs: "filter (\<lambda>x. x \<noteq> []) (map (payload n) segs) = map bytes cs" "mset (concat cs) = mset (filter (\<lambda>c. fst c \<noteq> n) (concat segs))"
    "\<forall>c \<in> set cs. part_fits mtu c" using Cons.IH Cons.prems(2,3) by auto
  have s: "contig (map fst s)" "\<And>c. c \<in> set s \<Longrightarrow> snd c \<noteq> []" using Cons.prems(2,3) by auto
  note p = payload_chunks [where n = n, OF s]
  show thesis
  proof (cases "post n s @ pre n s = []")
    case True
    have "filter (\<lambda>c. fst c \<noteq> n) s = []" using p(3) unfolding True by (metis mset_zero_iff_right mset.simps(1))
    then have "mset (concat cs) = mset (filter (\<lambda>c. fst c \<noteq> n) (concat (s # segs)))" using cs(2) by simp
    moreover have "filter (\<lambda>x. x \<noteq> []) (map (payload n) (s # segs)) = map bytes cs" using p(2) True cs(1) by simp
    ultimately show ?thesis using Cons.prems(1) [of cs] cs(3) by blast
  next
    case False
    let ?c = "post n s @ pre n s"
    have e: "filter (\<lambda>x. x \<noteq> []) (map (payload n) (s # segs)) = map bytes (?c # cs)" using p(1,2) False cs(1) by simp
    have "mset (concat (?c # cs)) = mset ?c + mset (concat cs)" by simp
    also have "\<dots> = mset (filter (\<lambda>c. fst c \<noteq> n) s) + mset (filter (\<lambda>c. fst c \<noteq> n) (concat segs))" by (simp only: p(3) cs(2))
    finally have m: "mset (concat (?c # cs)) = mset (filter (\<lambda>c. fst c \<noteq> n) (concat (s # segs)))" by simp
    have "part_fits mtu c" if "c \<in> set (?c # cs)" for c using that p(4) Cons.prems(2) [of s] cs(3) by auto
    then show ?thesis using Cons.prems(1) [OF e m] by blast
  qed
qed simp

lemma delivered_client:
  assumes "delivered c segs old b w'" and "map voice (clients w') = map voice (clients w)" and "ci \<in> set (clients w)" and "aitype (ci_state ci) = AI_NONE"
  obtains ps where "sent (ci_clientnum ci) c (outbox w') = old (ci_clientnum ci) @ ps"
    "\<forall>p \<in> set ps. 0 \<le> fst p \<and> 0 < snd p \<and> fst p + snd p \<le> wb_base b"
    "map (slice (wb_data b)) ps = filter (\<lambda>x. x \<noteq> []) (map (payload (ci_clientnum ci)) segs)"
proof -
  have "voice ci \<in> set (map voice (clients w'))" using assms(2,3) by simp
  then obtain c' where c': "c' \<in> set (clients w')" "voice c' = voice ci" by force
  then have v: "ci_clientnum c' = ci_clientnum ci" "aitype (ci_state c') = AI_NONE" using assms(4) by (simp_all add: voice_def)
  from bspec [OF assms(1) [unfolded delivered_def] c'(1)] v obtain ps where ps: "sent (ci_clientnum ci) c (outbox w') = old (ci_clientnum ci) @ ps"
    "\<forall>p \<in> set ps. 0 \<le> fst p \<and> 0 < snd p \<and> fst p + snd p \<le> wb_base b"
    "map (slice (wb_before b)) ps = filter (\<lambda>x. x \<noteq> []) (map (payload (ci_clientnum ci)) segs)" by force
  have "map (slice (wb_data b)) ps = map (slice (wb_before b)) ps"
    unfolding wb_data_def by (intro map_cong refl slice_append) (use ps(2) in \<open>auto simp: wb_base_def\<close>)
  then show thesis using that ps by simp
qed

text \<open>C16: When the server sends what has gathered, every client receives on each of the two channels the bytes of all players that other
  clients speak for, once each, and none of its own or of its own bots: read from the finished block, its packets are the bytes of lists
  of chunks that are together exactly the others' chunks. A packet is not longer than the size that fits one datagram, unless a
  single chunk is.\<close>

theorem worldstate_delivers:
  assumes "bots_ok w" and "memory_sized w" and "fill_block (reset_clients w) = (b, w')" and "ci \<in> set (clients w)" and "aitype (ci_state ci) = AI_NONE"
    and "(chan, g) \<in> {(0, pos_chunk), (1, msg_chunk)}"
  shows "\<exists>ps cs. sent (ci_clientnum ci) chan (outbox w') = sent (ci_clientnum ci) chan (outbox w) @ ps \<and> map (slice (wb_data b)) ps = map bytes cs
    \<and> mset (concat cs) = mset (filter (\<lambda>c. fst c \<noteq> ci_clientnum ci) (chunks g (speakers (clients w)) w)) \<and> (\<forall>c \<in> set cs. part_fits (ws_mtu w) c)"
proof -
  obtain segs where st: "stage (ws_mtu w) (\<lambda>c n. sent n c (outbox w)) segs [] b w'" and
    seg: "concat (segs 0) = chunks pos_chunk (speakers (clients w)) w" "concat (segs 1) = chunks msg_chunk (speakers (clients w)) w"
    and v: "map voice (clients w') = map voice (clients w)" by (rule fill_spec [OF assms(1-3)])
  have d: "delivered chan (segs chan) (\<lambda>n. sent n chan (outbox w)) b w'" and s: "\<And>s. s \<in> set (segs chan) \<Longrightarrow> part_fits (ws_mtu w) s \<and> contig (map fst s)"
    using st unfolding stage_def by blast+
  have c: "concat (segs chan) = chunks g (speakers (clients w)) w" using seg assms(6) by auto
  then have ne: "\<And>c. c \<in> set (concat (segs chan)) \<Longrightarrow> snd c \<noteq> []" by (simp add: chunks_def)
  obtain ps where ps: "sent (ci_clientnum ci) chan (outbox w') = sent (ci_clientnum ci) chan (outbox w) @ ps"
    "\<forall>p \<in> set ps. 0 \<le> fst p \<and> 0 < snd p \<and> fst p + snd p \<le> wb_base b"
    "map (slice (wb_data b)) ps = filter (\<lambda>x. x \<noteq> []) (map (payload (ci_clientnum ci)) (segs chan))" by (rule delivered_client [OF d v assms(4,5)])
  obtain cs where cs: "filter (\<lambda>x. x \<noteq> []) (map (payload (ci_clientnum ci)) (segs chan)) = map bytes cs"
    "mset (concat cs) = mset (filter (\<lambda>c. fst c \<noteq> ci_clientnum ci) (concat (segs chan)))" "\<forall>c \<in> set cs. part_fits (ws_mtu w) c"
    by (rule payloads_chunks [where n = "ci_clientnum ci", OF s ne])
  show ?thesis using ps cs unfolding c by auto
qed

text \<open>C18: The block that the server fills for its packets is never written past its end, however the positions and messages are cut into
  parts, and every packet that points into it lies inside it.\<close>

theorem block_not_overrun:
  assumes "bots_ok w" and "memory_sized w" and "fill_block (reset_clients w) = (b, w')" and "ci \<in> set (clients w)" and "aitype (ci_state ci) = AI_NONE"
    and "chan \<in> {0, 1}"
  shows "\<not> db_overwrote (wb_buf b) \<and> length (wb_data b) = nat (2 * wsmax w) \<and> (\<exists>ps. sent (ci_clientnum ci) chan (outbox w') = sent (ci_clientnum ci) chan (outbox w) @ ps
    \<and> (\<forall>(start, sz) \<in> set ps. 0 \<le> start \<and> 0 < sz \<and> start + sz \<le> 2 * wsmax w))"
proof -
  obtain segs where st: "stage (ws_mtu w) (\<lambda>c n. sent n c (outbox w)) segs [] b w'" and l: "length (wb_data b) = nat (2 * wsmax w)"
    and v: "map voice (clients w') = map voice (clients w)" by (rule fill_spec [OF assms(1-3)])
  have d: "delivered chan (segs chan) (\<lambda>n. sent n chan (outbox w)) b w'" and p: "part_ok [] b" using st unfolding stage_def by blast+
  obtain ps where ps: "sent (ci_clientnum ci) chan (outbox w') = sent (ci_clientnum ci) chan (outbox w) @ ps"
    "\<forall>p \<in> set ps. 0 \<le> fst p \<and> 0 < snd p \<and> fst p + snd p \<le> wb_base b"
    "map (slice (wb_data b)) ps = filter (\<lambda>x. x \<noteq> []) (map (payload (ci_clientnum ci)) (segs chan))" by (rule delivered_client [OF d v assms(4,5)])
  have "wb_base b \<le> 2 * wsmax w" using arg_cong [OF l, of int] wsmax_nonneg [of w] by (simp add: wb_base_def wb_data_def)
  then have "\<forall>(start, sz) \<in> set ps. 0 \<le> start \<and> 0 < sz \<and> start + sz \<le> 2 * wsmax w" using ps(2) by fastforce
  then show ?thesis using ps(1) l p by (auto simp: part_ok_def)
qed

subsection \<open>The life of a block\<close>

text \<open>How many packets of the block \<open>blk\<close> were accepted for sending, and the memory of the block as long as it is not freed.\<close>

fun queued :: "(int \<Rightarrow> bool) \<Rightarrow> nat \<Rightarrow> effect list \<Rightarrow> nat" where
  "queued acc blk [] = 0"
| "queued acc blk (e # es) = (case e of SendData n c r bl start sz \<Rightarrow> if acc n \<and> bl = blk then 1 else 0 | _ \<Rightarrow> 0) + queued acc blk es"

definition held :: "nat \<Rightarrow> 'a world_scheme \<Rightarrow> uchar list option" where
  "held blk w = map_option ws_data (find (\<lambda>ws. ws_block ws = blk) (worldstates (net w)))"

text \<open>The blocks are distinct and in use, and no packet points into a block that is still to be made.\<close>

definition blocks_ok :: "'a world_scheme \<Rightarrow> bool" where
  "blocks_ok w \<longleftrightarrow> distinct (map ws_block (worldstates (net w))) \<and> (\<forall>ws \<in> set (worldstates (net w)). ws_block ws < nextblock (net w) \<and> 0 < ws_uses ws)
     \<and> (\<forall>e \<in> set (outbox w). case e of SendData n c r bl start sz \<Rightarrow> bl < nextblock (net w) | _ \<Rightarrow> True)"

lemma queued_append [simp]: "queued acc blk (es @ fs) = queued acc blk es + queued acc blk fs"
  by (induction es) simp_all

text \<open>What filling a block keeps.\<close>

definition counted :: "(int \<Rightarrow> bool) \<Rightarrow> nat \<Rightarrow> worldstate list \<Rightarrow> wsbuilder \<times> 'a world_scheme \<Rightarrow> bool" where
  "counted acc blk wss = (\<lambda>(b, w). peer_accepts (net w) = acc \<and> wb_block b = blk \<and> nextblock (net w) = blk \<and> worldstates (net w) = wss
     \<and> wb_uses b = int (queued acc blk (outbox w))
     \<and> (\<forall>e \<in> set (outbox w). case e of SendData n c r bl start sz \<Rightarrow> bl \<le> blk | _ \<Rightarrow> True))"

lemma counted_client: "counted acc blk wss bw \<Longrightarrow> counted acc blk wss (send_client chan rel wslen ci bw)"
  by (auto simp: counted_def send_client_def Let_def emit_def split: prod.splits)

lemma counted_buf: "counted acc blk wss (b\<lparr>wb_buf := p\<rparr>, w) = counted acc blk wss (b, w)" "counted acc blk wss (b\<lparr>wb_before := xs\<rparr>, w) = counted acc blk wss (b, w)"
  by (simp_all add: counted_def)

lemma counted_world: "counted acc blk wss (b, upd_client n f w) = counted acc blk wss (b, w)" "counted acc blk wss (b, mark_own n ofs b2 w) = counted acc blk wss (b, w)"
  by (simp_all add: counted_def mark_own_def upd_client_def)

lemma counted_record: "counted acc blk wss (b, w) \<Longrightarrow> counted acc blk wss (b, recordpacket chan bs w)"
  by (auto simp: counted_def recordpacket_def write_delayed_broadcast_def writedemo_def emit_def)

lemma counted_fold:
  assumes "\<And>x bw. counted acc blk wss bw \<Longrightarrow> counted acc blk wss (f x bw)"
  shows "counted acc blk wss bw \<Longrightarrow> counted acc blk wss (fold f xs bw)"
  using assms by (induction xs arbitrary: bw) simp_all

lemma counted_part:
  assumes "counted acc blk wss bw"
  shows "counted acc blk wss (send_part chan rel bw)"
proof -
  obtain b w where bw: "bw = (b, w)" by force
  let ?v = "recordpacket chan (written (wb_buf b)) w"
  obtain b2 w2 where f: "fold (send_client chan rel (dlen (wb_buf b))) (clients ?v) (b\<lparr>wb_buf := db_put_n (written (wb_buf b)) (wb_buf b)\<rparr>, ?v) = (b2, w2)"
    by force
  have "counted acc blk wss (b2, w2)" unfolding f [symmetric] using assms
    by (intro counted_fold counted_client) (simp_all add: bw counted_buf counted_record)
  moreover have "send_part chan rel bw = (if db_empty (wb_buf b) then bw
      else (b2\<lparr>wb_before := wb_before b2 @ written (wb_buf b2), wb_buf := db_offset (dlen (wb_buf b2)) (wb_buf b2)\<rparr>, w2))"
    using f by (simp add: send_part_def bw Let_def)
  ultimately show ?thesis using assms by (simp add: counted_def)
qed

lemma counted_add:
  assumes "counted acc blk wss bw"
  shows "counted acc blk wss (addposition mtu cn bn bw)" "counted acc blk wss (addmessages mtu cn bn bw)"
  using assms counted_part [OF assms]
  by (simp_all add: addposition_def addmessages_def sendpositions_def sendmessages_def Let_def split_beta counted_buf counted_world)

lemma counted_clients:
  assumes "\<And>cn bn bw. counted acc blk wss bw \<Longrightarrow> counted acc blk wss (add cn bn bw)" and "counted acc blk wss bw"
  shows "counted acc blk wss (fold (add_client add) ns bw)"
  using assms(2) by (rule counted_fold [rotated]) (simp add: add_client_def Let_def assms(1) counted_fold)

lemma counted_fill:
  assumes "blocks_ok w"
  shows "counted (peer_accepts (net w)) (nextblock (net w)) (worldstates (net w)) (fill_block (reset_clients w))"
proof -
  have "queued acc (nextblock (net w)) es = 0" if "\<forall>e \<in> set es. case e of SendData n c r bl start sz \<Rightarrow> bl < nextblock (net w) | _ \<Rightarrow> True" for acc es
    using that by (induction es) (auto split: effect.splits)
  then have "queued (peer_accepts (net w)) (nextblock (net w)) (outbox w) = 0" using assms unfolding blocks_ok_def by blast
  moreover have "case e of SendData n c r bl start sz \<Rightarrow> bl \<le> nextblock (net w) | _ \<Rightarrow> True" if "e \<in> set (outbox w)" for e
    using assms that unfolding blocks_ok_def by (cases e) fastforce+
  ultimately have "counted (peer_accepts (net w)) (nextblock (net w)) (worldstates (net w)) (ws_setup (reset_clients w), reset_clients w)"
    by (simp add: counted_def ws_setup_def Let_def)
  then show ?thesis unfolding fill_block_def Let_def sendpositions_def sendmessages_def
    by (intro counted_part counted_clients counted_add)
qed

lemma find_block:
  assumes "distinct (map ws_block wss)"
  shows "find (\<lambda>ws. ws_block ws = n) wss = Some x \<longleftrightarrow> x \<in> set wss \<and> ws_block x = n"
  using assms by (induction wss) (auto simp: image_iff)

lemma release_block_find:
  "release_block blk i wss = (case find (\<lambda>ws. ws_block ws = blk) wss of None \<Rightarrow> None
     | Some ws \<Rightarrow> Some (i + length (takeWhile (\<lambda>ws. ws_block ws \<noteq> blk) wss), ws\<lparr>ws_uses := ws_uses ws - 1\<rparr>))"
  by (induction blk i wss rule: release_block.induct) (auto split: option.splits)

lemma clean_none: "blk \<notin> ws_block ` set (worldstates (net w)) \<Longrightarrow> cleanworldstate blk w = w"
  by (auto simp: cleanworldstate_def release_block_find split: option.splits) (auto simp: find_Some_iff)

lemma takeWhile_shorter: "x \<in> set xs \<Longrightarrow> \<not> P x \<Longrightarrow> length (takeWhile P xs) < length xs"
  by (induction xs) auto

lemma clean_some:
  assumes d: "distinct (map ws_block (worldstates (net w)))" and ws: "ws \<in> set (worldstates (net w))" "ws_block ws = blk"
  shows "distinct (map ws_block (worldstates (net (cleanworldstate blk w))))"
    "set (worldstates (net (cleanworldstate blk w))) = (set (worldstates (net w)) - {ws}) \<union> (if ws_uses ws \<le> 1 then {} else {ws\<lparr>ws_uses := ws_uses ws - 1\<rparr>})"
proof -
  let ?l = "worldstates (net w)" and ?u = "ws\<lparr>ws_uses := ws_uses ws - 1\<rparr>"
  let ?k = "length (takeWhile (\<lambda>ws. ws_block ws \<noteq> blk) (worldstates (net w)))"
  have f: "find (\<lambda>ws. ws_block ws = blk) ?l = Some ws" using find_block [OF d] ws by blast
  have k: "?k < length ?l" using ws by (intro takeWhile_shorter) simp_all
  have b: "ws_block (?l ! ?k) = blk" using nth_length_takeWhile [of "\<lambda>ws. ws_block ws \<noteq> blk" ?l] k by simp
  have "inj_on ws_block (set ?l)" using d by (simp add: distinct_map)
  from inj_onD [OF this _ nth_mem [OF k] ws(1)] have at: "?l ! ?k = ws" using b ws(2) by simp
  have dl: "distinct ?l" using d by (simp add: distinct_map)
  have r: "mset (remove_unordered ?k (?l[?k := ?u])) = mset (remove1 ws ?l)"
    using k at by (simp add: mset_remove_unordered mset_update)
  have e: "worldstates (net (cleanworldstate blk w)) = (if ws_uses ws \<le> 1 then remove_unordered ?k (?l[?k := ?u]) else ?l[?k := ?u])"
    by (simp add: cleanworldstate_def release_block_find f Let_def)
  show "distinct (map ws_block (worldstates (net (cleanworldstate blk w))))"
  proof (cases "ws_uses ws \<le> 1")
    case True
    have m: "mset (map ws_block (remove_unordered ?k (?l[?k := ?u]))) = mset (map ws_block (remove1 ws ?l))" by (simp only: mset_map r)
    have "distinct (map ws_block (remove1 ws ?l))" using d dl by (auto simp: distinct_map intro: inj_on_subset)
    then have "distinct (map ws_block (remove_unordered ?k (?l[?k := ?u])))" using mset_eq_imp_distinct_iff [OF m] by (simp only:)
    moreover have "worldstates (net (cleanworldstate blk w)) = remove_unordered ?k (?l[?k := ?u])" using e True by (simp only: if_True)
    ultimately show ?thesis by (simp only:)
  next
    case False
    have "map ws_block (?l[?k := ?u]) = map ws_block ?l" using k at by (simp add: map_update list_update_same_conv)
    then show ?thesis unfolding e using False d by simp
  qed
  show "set (worldstates (net (cleanworldstate blk w))) = (set ?l - {ws}) \<union> (if ws_uses ws \<le> 1 then {} else {?u})"
  proof (cases "ws_uses ws \<le> 1")
    case True
    then show ?thesis unfolding e using mset_eq_setD [OF r] dl by simp
  next
    case False
    have "set (?l[?k := ?u]) = (set ?l - {ws}) \<union> {?u}" using set_update_distinct [OF dl k, of ?u] at by simp
    then show ?thesis unfolding e using False by simp
  qed
qed

lemma clean_uses:
  assumes d: "distinct (map ws_block (worldstates (net w)))" and s: "set (worldstates (net w)) = insert \<lparr>ws_block = blk, ws_uses = int u, ws_data = mem\<rparr> old"
    and new: "blk \<notin> ws_block ` old" and u: "0 < u"
  shows "distinct (map ws_block (worldstates (net ((cleanworldstate blk ^^ k) w)))) \<and> set (worldstates (net ((cleanworldstate blk ^^ k) w)))
    = (if k < u then {\<lparr>ws_block = blk, ws_uses = int u - int k, ws_data = mem\<rparr>} else {}) \<union> old"
proof (induction k)
  case 0
  then show ?case using d s u by simp
next
  case (Suc k)
  let ?v = "(cleanworldstate blk ^^ k) w" and ?ws = "\<lparr>ws_block = blk, ws_uses = int u - int k, ws_data = mem\<rparr>"
  show ?case
  proof (cases "k < u")
    case True
    have "?ws \<notin> old" using new by force
    moreover have "?ws \<in> set (worldstates (net ?v))" using Suc True by simp
    ultimately show ?thesis using clean_some [of ?v ?ws blk] Suc True by auto
  next
    case False
    then have "cleanworldstate blk ?v = ?v" using Suc new by (intro clean_none) auto
    then show ?thesis using Suc False by simp
  qed
qed

lemma held_set:
  assumes "distinct (map ws_block (worldstates (net w)))"
  shows "held n w = Some m \<longleftrightarrow> (\<exists>ws \<in> set (worldstates (net w)). ws_block ws = n \<and> ws_data ws = m)"
  using find_block [OF assms, of n] by (auto simp: held_def)

text \<open>C17: The memory that the server has filled for its packets lives exactly as long as they do: when the network library has accepted
  \<open>u\<close> packets, the block is there until the \<open>u\<close>-th of them is freed and not longer, with the bytes that were
  written; without an accepted packet it is gone at once. The other blocks are not touched.\<close>

theorem block_lives:
  assumes "blocks_ok w" and "0 < wsmax w" and "buildworldstate w = (flush, w')"
    and "blk = nextblock (net w)" and "u = queued (peer_accepts (net w)) blk (outbox w')"
  shows "blocks_ok w' \<and> (flush \<longleftrightarrow> 0 < u) \<and> held blk ((cleanworldstate blk ^^ k) w') = (if k < u then Some (wb_data (fst (fill_block (reset_clients w)))) else None)
    \<and> (n \<noteq> blk \<longrightarrow> held n ((cleanworldstate blk ^^ k) w') = held n w)"
proof -
  obtain b v where f: "fill_block (reset_clients w) = (b, v)" by force
  have c: "wb_block b = blk" "nextblock (net v) = blk" "worldstates (net v) = worldstates (net w)" "wb_uses b = int (queued (peer_accepts (net w)) blk (outbox v))"
    "\<forall>e \<in> set (outbox v). case e of SendData n c r bl start sz \<Rightarrow> bl \<le> blk | _ \<Rightarrow> True"
    using counted_fill [OF assms(1)] unfolding f assms(4) by (simp_all add: counted_def)
  let ?old = "worldstates (net w)" and ?ws = "\<lparr>ws_block = blk, ws_uses = int u, ws_data = wb_data b\<rparr>"
  have old: "distinct (map ws_block ?old)" "blk \<notin> ws_block ` set ?old" "\<And>ws. ws \<in> set ?old \<Longrightarrow> ws_block ws < Suc blk \<and> 0 < ws_uses ws"
    using assms(1,4) by (auto simp: blocks_ok_def intro: less_SucI)
  have ws: "worldstates (net w') = (if 0 < u then ?old @ [?ws] else ?old)" and out: "outbox w' = outbox v" and nb: "nextblock (net w') = Suc blk"
    and fl: "flush \<longleftrightarrow> 0 < u"
    using assms(2,3,5) f c by (auto simp: buildworldstate_def Let_def split: if_splits)
  have ok: "blocks_ok w'"
    unfolding blocks_ok_def ws out nb using old c(5) by (auto simp: less_Suc_eq_le cong: effect.case_cong)
  have st: "distinct (map ws_block (worldstates (net ((cleanworldstate blk ^^ k) w')))) \<and> set (worldstates (net ((cleanworldstate blk ^^ k) w')))
    = (if k < u then {\<lparr>ws_block = blk, ws_uses = int u - int k, ws_data = wb_data b\<rparr>} else {}) \<union> set ?old"
  proof (cases "0 < u")
    case True
    then show ?thesis using ws old ok by (intro clean_uses) (auto simp: blocks_ok_def)
  next
    case False
    then have "cleanworldstate blk w' = w'" using old(2) ws by (intro clean_none) simp
    then have "(cleanworldstate blk ^^ k) w' = w'" by (induction k) simp_all
    then show ?thesis using False ws old(1) by simp
  qed
  have "held blk ((cleanworldstate blk ^^ k) w') = (if k < u then Some (wb_data b) else None)"
  proof (cases "k < u")
    case True
    then show ?thesis using held_set [of "(cleanworldstate blk ^^ k) w'" blk "wb_data b"] st by auto
  next
    case False
    have "held blk ((cleanworldstate blk ^^ k) w') \<noteq> Some m" for m using held_set [of "(cleanworldstate blk ^^ k) w'" blk m] st False old(2) by auto
    then show ?thesis using False by (cases "held blk ((cleanworldstate blk ^^ k) w')") auto
  qed
  moreover have "held n ((cleanworldstate blk ^^ k) w') = held n w" if "n \<noteq> blk"
  proof -
    have "held n ((cleanworldstate blk ^^ k) w') = Some m \<longleftrightarrow> held n w = Some m" for m
      using held_set [of "(cleanworldstate blk ^^ k) w'" n m] held_set [OF old(1), of n m] st that by (auto split: if_splits)
    then show ?thesis by (metis option.exhaust)
  qed
  ultimately show ?thesis using ok fl f by simp
qed

subsection \<open>An example\<close>

text \<open>The server \<open>bot_server\<close> when a player and two bots of another have moved, and two players have something to say.\<close>

definition chatty_client :: "clientinfo \<Rightarrow> clientinfo" where
  "chatty_client ci = ci\<lparr>ci_position := (if ci_clientnum ci \<in> {1, 128, 130} then [4, word_of_int (ci_clientnum ci), 9] else []),
     ci_messages := (if ci_clientnum ci \<in> {0, 2} then [50, word_of_int (ci_clientnum ci)] else [])\<rparr>"

definition chatty_server :: world where
  "chatty_server = bot_server\<lparr>clients := map chatty_client (clients bot_server)\<rparr>"

lemma chatty_server_ok: "bots_ok chatty_server" "memory_sized chatty_server" "blocks_ok chatty_server" "0 < wsmax chatty_server"
  by code_simp+

definition chatty_player :: clientinfo where "chatty_player = client 1 chatty_server"

lemma chatty_player: "chatty_player \<in> set (clients chatty_server)" "aitype (ci_state chatty_player) = AI_NONE" "ci_clientnum chatty_player = 1"
proof -
  have "client 1 chatty_server = clients chatty_server ! 1"
    by (simp add: client_def find_client_def chatty_server_def bot_server_def chatty_client_def sample_client_def)
  moreover have "1 < length (clients chatty_server)" "aitype (ci_state (clients chatty_server ! 1)) = AI_NONE" "ci_clientnum (clients chatty_server ! 1) = 1"
    by code_simp+
  ultimately show "chatty_player \<in> set (clients chatty_server)" "aitype (ci_state chatty_player) = AI_NONE" "ci_clientnum chatty_player = 1"
    unfolding chatty_player_def by (simp_all only: nth_mem)
qed

theorem worldstate_delivers_witness:
  "(\<exists>ps cs. sent 1 0 (outbox (snd (fill_block (reset_clients chatty_server)))) = sent 1 0 (outbox chatty_server) @ ps
     \<and> map (slice (wb_data (fst (fill_block (reset_clients chatty_server))))) ps = map bytes cs
     \<and> mset (concat cs) = mset [(0, [4, 128, 9]), (0, [4, 130, 9])] \<and> list_all (part_fits (ws_mtu chatty_server)) cs)"
proof -
  have c: "filter (\<lambda>c. fst c \<noteq> 1) (chunks pos_chunk (speakers (clients chatty_server)) chatty_server) = [(0, [4, 128, 9]), (0, [4, 130, 9])]" by code_simp
  show ?thesis using worldstate_delivers [OF chatty_server_ok(1,2) surjective_pairing chatty_player(1,2), of 0 pos_chunk] c
    by (simp add: chatty_player(3) list_all_iff)
qed

theorem block_not_overrun_witness:
  "\<not> db_overwrote (wb_buf (fst (fill_block (reset_clients chatty_server))))"
  using block_not_overrun [OF chatty_server_ok(1,2) surjective_pairing chatty_player(1,2), of 1] by simp

text \<open>Two players, of whom one has moved.\<close>

definition pair_server :: world where
  "pair_server = sample_world\<lparr>clients := [(sample_client 0 ''good'' 3)\<lparr>ci_position := [4, 0]\<rparr>, sample_client 1 ''evil'' 5]\<rparr>"

theorem block_lives_witness:
  "buildworldstate pair_server = (True, snd (buildworldstate pair_server)) \<and> held 0 (snd (buildworldstate pair_server)) = Some [4, 0, 4, 0]
    \<and> held 0 (cleanworldstate 0 (snd (buildworldstate pair_server))) = None"
proof -
  have ok: "blocks_ok pair_server" "0 < wsmax pair_server" by code_simp+
  have u: "nextblock (net pair_server) = 0" "queued (peer_accepts (net pair_server)) 0 (outbox (snd (buildworldstate pair_server))) = 1"
    "wb_data (fst (fill_block (reset_clients pair_server))) = [4, 0, 4, 0]" by code_simp+
  note b = block_lives [OF ok surjective_pairing refl refl, unfolded u(1), unfolded u(2,3), of _ 0]
  from b [of 0] b [of 1] show ?thesis by (simp add: prod_eq_iff)
qed

end
