(* ===== verification/Balance.thy ===== *)
theory Balance
  imports Bots
begin

text \<open>
  Balancing the teams with bots (\<^verbatim>\<open>calcteams\<close> and \<^verbatim>\<open>balanceteams\<close> of \<^verbatim>\<open>src/src/fpsgame/aiman.h\<close>): the scores that
  \<^verbatim>\<open>calcteams\<close> gives to the teams are the numbers of their members, and with two teams the bots even them out as far
  as there are bots. This needs that the names of the teams are not kept in the records of bots: a name that is read
  from a bot changes under the loop when that bot is moved.
\<close>

subsection \<open>Counting the teams\<close>

definition plays_in :: "cstr \<Rightarrow> clientinfo \<Rightarrow> bool" where
  "plays_in t ci \<longleftrightarrow> gs_state (ci_state ci) \<noteq> CS_SPECTATOR \<and> ci_team ci = t"

definition members :: "cstr \<Rightarrow> clientinfo list \<Rightarrow> int" where
  "members t cs = int (length (filter (plays_in t) cs))"

abbreviation names :: "'a world_scheme \<Rightarrow> refscore list \<Rightarrow> cstr list" where
  "names w ts \<equiv> map (\<lambda>t. team_name w (fst t)) ts"

text \<open>Every team that has members has one entry, with their number.\<close>

definition tallied :: "'a world_scheme \<Rightarrow> clientinfo list \<Rightarrow> refscore list \<Rightarrow> bool" where
  "tallied w cs ts \<longleftrightarrow> distinct (names w ts) \<and> (\<forall>t \<in> set ts. snd t = members (team_name w (fst t)) cs \<and> 0 < snd t \<and> team_name w (fst t) \<noteq> [])
     \<and> (\<forall>ci \<in> set cs. gs_state (ci_state ci) \<noteq> CS_SPECTATOR \<longrightarrow> ci_team ci \<noteq> [] \<longrightarrow> ci_team ci \<in> set (names w ts))"

lemma members_snoc [simp]: "members t (cs @ [ci]) = members t cs + (if plays_in t ci then 1 else 0)"
  by (simp add: members_def)

lemma count_member_names:
  assumes "team_name w (TeamOf (ci_clientnum ci)) = ci_team ci"
  shows "names w (count_member w ci ts) = (if ci_team ci \<in> set (names w ts) then names w ts else names w ts @ [ci_team ci])"
  using assms by (induction w ci ts rule: count_member.induct) auto

lemma count_member_scores:
  assumes "team_name w (TeamOf (ci_clientnum ci)) = ci_team ci" and "distinct (names w ts)" and "t \<in> set (count_member w ci ts)"
  shows "if team_name w (fst t) \<noteq> ci_team ci then t \<in> set ts
    else if ci_team ci \<in> set (names w ts) then \<exists>t0 \<in> set ts. fst t0 = fst t \<and> snd t = snd t0 + 1 else snd t = 1"
  using assms
proof (induction w ci ts rule: count_member.induct)
  case (2 w ci r n ts)
  show ?case
  proof (cases "team_name w r = ci_team ci")
    case True
    have "team_name w (fst t) \<noteq> ci_team ci" if "t \<in> set ts" using that 2(3) True by force
    then show ?thesis using 2(4) True by auto
  next
    case False
    show ?thesis
    proof (cases "t = (r, n)")
      case True
      then show ?thesis using False by simp
    next
      case other: False
      then have "t \<in> set (count_member w ci ts)" using 2(4) False by simp
      from 2(1) [OF False 2(2) _ this] show ?thesis using 2(3) False by (auto split: if_splits)
    qed
  qed
qed auto

lemma tallied_step:
  assumes "tallied w cs ts" and "team_name w (TeamOf (ci_clientnum ci)) = ci_team ci" "gs_state (ci_state ci) \<noteq> CS_SPECTATOR" "ci_team ci \<noteq> []"
  shows "tallied w (cs @ [ci]) (count_member w ci ts)"
proof -
  have d: "distinct (names w ts)" using assms(1) by (simp add: tallied_def)
  note nm = count_member_names [OF assms(2), of ts]
  have zero: "members (ci_team ci) cs = 0" if "ci_team ci \<notin> set (names w ts)"
  proof -
    have "\<not> plays_in (ci_team ci) c" if "c \<in> set cs" for c
      using that assms(1,4) \<open>ci_team ci \<notin> set (names w ts)\<close> unfolding tallied_def plays_in_def by metis
    then show ?thesis by (simp add: members_def filter_empty_conv)
  qed
  have sc: "snd t = members (team_name w (fst t)) (cs @ [ci]) \<and> 0 < snd t \<and> team_name w (fst t) \<noteq> []" if t: "t \<in> set (count_member w ci ts)" for t
  proof -
    note c = count_member_scores [OF assms(2) d t]
    show ?thesis
    proof (cases "team_name w (fst t) = ci_team ci")
      case False
      then have "t \<in> set ts" using c by simp
      then show ?thesis using assms(1) False by (auto simp: tallied_def plays_in_def)
    next
      case True
      have p: "plays_in (team_name w (fst t)) ci" using True assms(3) by (simp add: plays_in_def)
      show ?thesis
      proof (cases "ci_team ci \<in> set (names w ts)")
        case mem: True
        then obtain t0 where "t0 \<in> set ts" "fst t0 = fst t" "snd t = snd t0 + 1" using c True by auto
        then show ?thesis using assms(1) p by (auto simp: tallied_def)
      next
        case False
        then show ?thesis using c True zero p assms(4) by simp
      qed
    qed
  qed
  have "distinct (names w (count_member w ci ts))" using nm d by (simp split: if_splits)
  moreover have "c \<in> set (cs @ [ci]) \<longrightarrow> gs_state (ci_state c) \<noteq> CS_SPECTATOR \<longrightarrow> ci_team c \<noteq> [] \<longrightarrow> ci_team c \<in> set (names w (count_member w ci ts))" for c
    unfolding nm using assms(1) unfolding tallied_def by (cases "ci_team ci \<in> set (names w ts)") auto
  ultimately show ?thesis unfolding tallied_def using sc by blast
qed

lemma tallied_skip:
  assumes "tallied w cs ts" and "gs_state (ci_state ci) = CS_SPECTATOR \<or> ci_team ci = []"
  shows "tallied w (cs @ [ci]) ts"
  using assms by (auto simp: tallied_def plays_in_def)

lemma count_teams_tallied:
  assumes "\<And>ci. ci \<in> set (clients w) \<Longrightarrow> client (ci_clientnum ci) w = ci"
  shows "tallied w (clients w) (count_teams w)"
proof -
  have "tallied w cs (fold (\<lambda>ci ts. if gs_state (ci_state ci) = CS_SPECTATOR \<or> ci_team ci = [] then ts else count_member w ci ts) cs [])"
    if "set cs \<subseteq> set (clients w)" for cs
    using that
  proof (induction cs rule: rev_induct)
    case Nil
    then show ?case by (simp add: tallied_def)
  next
    case (snoc ci cs)
    then show ?case using tallied_step [of w cs _ ci] tallied_skip [of w cs _ ci] assms [of ci] by simp
  qed
  then show ?thesis by (simp add: count_teams_def)
qed


interpretation ref_order: weak_order "ref_less w" for w :: "'a world_scheme"
  using team_order.asym team_order.negtrans unfolding ref_less_def by unfold_locales blast+

text \<open>With two teams \<^verbatim>\<open>calcteams\<close> gives both, the bigger one first, even when one or both have no members.\<close>

lemma tallied_mset:
  assumes "mset ts' = mset ts"
  shows "tallied w cs ts' = tallied w cs ts"
proof -
  have "set ts' = set ts" by (rule mset_eq_setD [OF assms])
  moreover have "distinct (names w ts') = distinct (names w ts)" by (rule mset_eq_imp_distinct_iff) (simp add: assms)
  ultimately show ?thesis by (simp add: tallied_def)
qed

lemma names_two:
  assumes "distinct (xs :: 'b list)" and "set xs \<subseteq> {u, v}" and "u \<noteq> v"
  obtains "xs = []" | x where "xs = [x]" "x \<in> {u, v}" | "xs = [u, v]" | "xs = [v, u]"
proof -
  have "length xs \<le> 2" using distinct_card [OF assms(1)] card_mono [OF _ assms(2)] assms(3) by simp
  then have "length xs = 0 \<or> length xs = 1 \<or> length xs = 2" by linarith
  then consider "xs = []" | x where "xs = [x]" | x y where "xs = [x, y]" by (auto simp: length_Suc_conv numeral_2_eq_2)
  then show thesis
  proof cases
    case (3 x y)
    then have "x \<noteq> y" "x \<in> {u, v}" "y \<in> {u, v}" using assms by simp_all
    then show thesis using that(3,4) 3 by blast
  qed (use that assms in simp_all)
qed

lemma members_zero:
  "tallied w cs ts \<Longrightarrow> t \<noteq> [] \<Longrightarrow> t \<notin> set (names w ts) \<Longrightarrow> members t cs = 0"
  unfolding tallied_def members_def plays_in_def by (auto simp: filter_empty_conv)

text \<open>\<open>fill_teams\<close> is the end of \<^verbatim>\<open>calcteams\<close>, where the teams by default are added.\<close>

definition fill_teams :: "'a world_scheme \<Rightarrow> cstr list \<Rightarrow> refscore list \<Rightarrow> refscore list" where
  "fill_teams w ds ts = fold (\<lambda>d ts. if d \<in> set (names w ts) then ts else ts @ [(TeamName d, 0)]) ds ts"

lemma fill_teams_two:
  assumes tal: "tallied w cs ts" and sub: "set (names w ts) \<subseteq> {g, e}" and ge: "g \<noteq> e" "g \<noteq> []" "e \<noteq> []"
    and srt: "sorted_wrt (\<lambda>x y. \<not> ref_less w y x) ts"
  obtains r1 r2 where "(if length ts < 2 then fill_teams w [g, e] ts else ts) = [(r1, members (team_name w r1) cs), (r2, members (team_name w r2) cs)]"
    "members (team_name w r2) cs \<le> members (team_name w r1) cs" "(team_name w r1, team_name w r2) \<in> {(g, e), (e, g)}"
proof -
  have d: "distinct (names w ts)" and sc: "\<And>t. t \<in> set ts \<Longrightarrow> snd t = members (team_name w (fst t)) cs \<and> 0 < snd t"
    using tal unfolding tallied_def by blast+
  note ret = that
  have pair: thesis if "ts = [x, y]" "(team_name w (fst x), team_name w (fst y)) \<in> {(g, e), (e, g)}" for x y
  proof (rule ret)
    have xy: "x = (fst x, members (team_name w (fst x)) cs)" "y = (fst y, members (team_name w (fst y)) cs)"
      using sc [of x] sc [of y] that(1) by (auto simp: prod_eq_iff)
    then show "(if length ts < 2 then fill_teams w [g, e] ts else ts) = [(fst x, members (team_name w (fst x)) cs), (fst y, members (team_name w (fst y)) cs)]"
      by (simp only: that(1)) simp
    have "snd y \<le> snd x" using srt that(1) by (auto simp: ref_less_def teamscore_less_def)
    then show "members (team_name w (fst y)) cs \<le> members (team_name w (fst x)) cs" using sc [of x] sc [of y] that(1) by simp
  qed (rule that(2))
  show thesis
  proof (rule names_two [OF d sub ge(1)])
    assume n: "names w ts = []"
    then have "members g cs = 0" "members e cs = 0" using members_zero [OF tal] ge by simp_all
    then show thesis using n ge(1) by (intro that [of "TeamName g" "TeamName e"]) (simp_all add: fill_teams_def)
  next
    fix x assume x: "names w ts = [x]" "x \<in> {g, e}"
    then obtain t where t: "ts = [t]" "team_name w (fst t) = x" by (auto simp: map_eq_Cons_conv)
    define y where "y = (if x = g then e else g)"
    have "members y cs = 0" by (rule members_zero [OF tal]) (use x ge in \<open>auto simp: y_def\<close>)
    moreover have "fill_teams w [g, e] ts = [t, (TeamName y, 0)]" using t x(2) ge(1) by (auto simp: fill_teams_def y_def)
    moreover have "t = (fst t, members x cs)" "0 < members x cs" using sc [of t] t by (simp_all add: prod_eq_iff)
    ultimately show thesis using t x(2) by (intro that [of "fst t" "TeamName y"]) (auto simp: y_def)
  next
    assume "names w ts = [g, e]"
    then obtain x y where xy: "ts = [x, y]" "team_name w (fst x) = g" "team_name w (fst y) = e" by (auto simp: map_eq_Cons_conv)
    show thesis by (rule pair [OF xy(1)]) (simp_all add: xy)
  next
    assume "names w ts = [e, g]"
    then obtain x y where xy: "ts = [x, y]" "team_name w (fst x) = e" "team_name w (fst y) = g" by (auto simp: map_eq_Cons_conv)
    show thesis by (rule pair [OF xy(1)]) (simp_all add: xy)
  qed
qed

lemma calcteams_two:
  assumes lookup: "\<And>ci. ci \<in> set (clients w) \<Longrightarrow> client (ci_clientnum ci) w = ci"
    and two: "\<And>ci. ci \<in> set (clients w) \<Longrightarrow> gs_state (ci_state ci) \<noteq> CS_SPECTATOR \<Longrightarrow> ci_team ci \<in> {''good'', ''evil''}"
  obtains r1 r2 where "calcteams w = [(r1, members (team_name w r1) (clients w)), (r2, members (team_name w r2) (clients w))]"
    "members (team_name w r2) (clients w) \<le> members (team_name w r1) (clients w)"
    "(team_name w r1, team_name w r2) \<in> {(''good'', ''evil''), (''evil'', ''good'')}"
proof -
  define ts where "ts = vector_sort (ref_less w) (count_teams w)"
  note vs = vector_sort_spec [OF ref_order.weak_order_axioms, of w "count_teams w"]
  have tal: "tallied w (clients w) ts" unfolding ts_def tallied_mset [OF vs(1)] by (rule count_teams_tallied [OF lookup])
  have sub: "set (names w ts) \<subseteq> {''good'', ''evil''}"
  proof
    fix t assume "t \<in> set (names w ts)"
    then obtain x where "x \<in> set ts" "team_name w (fst x) = t" by (rule in_map_set)
    then have "0 < members t (clients w)" using tal unfolding tallied_def by metis
    then have "filter (plays_in t) (clients w) \<noteq> []" by (simp add: members_def)
    then obtain ci where "ci \<in> set (clients w)" "plays_in t ci" unfolding filter_empty_conv by blast
    then show "t \<in> {''good'', ''evil''}" using two unfolding plays_in_def by blast
  qed
  have "calcteams w = (if length ts < 2 then fill_teams w [''good'', ''evil''] ts else ts)"
    by (simp only: calcteams_def Let_def ts_def fill_teams_def)
  with fill_teams_two [OF tal sub _ _ _ vs(2) [folded ts_def]] that show thesis by auto
qed


subsection \<open>Moving a bot\<close>

text \<open>What the balance looks at in a client.\<close>

definition badge :: "clientinfo \<Rightarrow> int \<times> int \<times> cstr" where
  "badge ci = (ci_clientnum ci, gs_state (ci_state ci), ci_team ci)"

lemma badge_tokenless [simp]: "badge (tokenless ci) = badge ci"
  by (simp add: badge_def tokenless_def)

lemma members_badge: "members t cs = int (length (filter (\<lambda>(n, s, u). s \<noteq> CS_SPECTATOR \<and> u = t) (map badge cs)))"
  by (simp add: members_def filter_map plays_in_def [abs_def] badge_def comp_def)

lemma members_cong: "map badge cs' = map badge cs \<Longrightarrow> members t cs' = members t cs"
  by (simp add: members_badge)

lemma find_badge:
  "map badge xs = map badge ys
    \<Longrightarrow> badge (case find (\<lambda>ci. ci_clientnum ci = cn) xs of Some ci \<Rightarrow> ci | None \<Rightarrow> d)
      = badge (case find (\<lambda>ci. ci_clientnum ci = cn) ys of Some ci \<Rightarrow> ci | None \<Rightarrow> d)"
  by (induction xs ys rule: list_induct2') (auto simp: badge_def)

lemma client_badge: "map badge (roster w') = map badge (roster w) \<Longrightarrow> badge (client x w') = badge (client x w)"
  unfolding client_find by (rule find_badge)

lemma members_move:
  assumes "distinct (map ci_clientnum cs)" and "c \<in> set cs" "ci_clientnum c = b" "gs_state (ci_state c) \<noteq> CS_SPECTATOR"
  shows "members t (map (\<lambda>ci. if ci_clientnum ci = b then ci\<lparr>ci_team := u\<rparr> else ci) cs)
    = members t cs - (if ci_team c = t then 1 else 0) + (if u = t then 1 else 0)"
  using assms
proof (induction cs)
  case (Cons x cs)
  show ?case
  proof (cases "x = c")
    case True
    then have "map (\<lambda>ci. if ci_clientnum ci = b then ci\<lparr>ci_team := u\<rparr> else ci) cs = cs"
      using Cons.prems by (intro map_idI) (metis distinct.simps(2) image_eqI list.simps(9) list.set_map)
    then show ?thesis using True Cons.prems by (simp add: members_def plays_in_def)
  next
    case False
    then have "c \<in> set cs" "ci_clientnum x \<noteq> b" using Cons.prems by auto
    moreover have "members t (x # ys) = (if plays_in t x then 1 else 0) + members t ys" for ys by (simp add: members_def)
    ultimately show ?thesis using Cons by simp
  qed
qed simp

definition distinct_nums :: "'a world_scheme \<Rightarrow> bool" where
  "distinct_nums w \<longleftrightarrow> distinct (map ci_clientnum (roster w))"

lemma lookup_client:
  assumes "distinct_nums w" and "ci \<in> set (clients w)"
  shows "client (ci_clientnum ci) w = ci"
proof -
  have "distinct (map ci_clientnum xs) \<Longrightarrow> ci \<in> set xs \<Longrightarrow> find (\<lambda>c. ci_clientnum c = ci_clientnum ci) xs = Some ci" for xs
    by (induction xs) auto
  then show ?thesis using assms by (simp add: client_find distinct_nums_def roster_def)
qed

lemma first_index_find:
  assumes "find P xs = Some x"
  shows "\<exists>i. first_index P xs = Some i \<and> i < length xs \<and> xs ! i = x"
proof -
  from assms obtain i where i: "i < length xs" "P (xs ! i)" "x = xs ! i" "\<forall>j < i. \<not> P (xs ! j)" unfolding find_Some_iff by blast
  then have "first_index P xs = Some i" unfolding first_index_def find_Some_iff by (intro exI [of _ i]) simp
  then show ?thesis using i by blast
qed

lemma remove_unordered_distinct:
  assumes "i < length xs" and "distinct xs"
  shows "distinct (remove_unordered i xs)" "set (remove_unordered i xs) = set xs - {xs ! i}"
proof -
  have m: "mset (remove_unordered i xs) = mset (remove1 (xs ! i) xs)" using assms(1) by (simp add: mset_remove_unordered)
  show "distinct (remove_unordered i xs)" using mset_eq_imp_distinct_iff [OF m] assms(2) by simp
  show "set (remove_unordered i xs) = set xs - {xs ! i}" using mset_eq_setD [OF m] assms(2) by simp
qed

context mode_frame
begin

lemma reteam_step:
  assumes "distinct_nums w" and "b \<in> ci_clientnum ` set (clients w)" and "gs_state (cstate b w) \<noteq> CS_SPECTATOR"
    and u: "u = copyteam (team_name w t)"
  shows "distinct_nums (reteam_bot sm b t w)"
    and "ci_clientnum ` set (clients (reteam_bot sm b t w)) = ci_clientnum ` set (clients w)"
    and "gs_state (cstate x (reteam_bot sm b t w)) = gs_state (cstate x w)"
    and "ci_team (client x (reteam_bot sm b t w)) = (if x = b then u else ci_team (client x w))"
    and "members s (clients (reteam_bot sm b t w))
      = members s (clients w) - (if ci_team (client b w) = s then 1 else 0) + (if u = s then 1 else 0)"
proof -
  define v where "v = (if gs_state (cstate b w) = CS_ALIVE then smode_changeteam sm b (ci_team (client b w)) (team_name w t) w else w)"
  have f: "frame v = frame w" by (simp add: v_def frame_team)
  note bm = frame_map [OF f, of badge, OF badge_tokenless]
  have nums: "map ci_clientnum xs = map fst (map badge xs)" for xs by (simp add: badge_def comp_def)
  have dv: "distinct_nums v" using assms(1) bm(3) unfolding distinct_nums_def nums by simp
  have cv: "badge (client x v) = badge (client x w)" for x by (rule client_badge [OF bm(3)])
  have tm: "team_name v r = team_name w r" for r using cv by (cases r) (simp_all add: badge_def)
  have bv: "ci_clientnum ` set (clients v) = ci_clientnum ` set (clients w)" using bm(1) nums by (metis list.set_map)
  define w' where "w' = upd_client b (\<lambda>ci. ci\<lparr>ci_team := u\<rparr>) v"
  have w': "roster (reteam_bot sm b t w) = roster w'" "clients (reteam_bot sm b t w) = clients w'"
    by (simp_all add: reteam_bot_def Let_def w'_def u tm roster_def flip: v_def)
  then have cw: "client x (reteam_bot sm b t w) = client x w'" for x by (simp add: client_find)
  show "distinct_nums (reteam_bot sm b t w)"
    using dv unfolding distinct_nums_def w' by (simp add: w'_def roster_upd_client comp_def if_distrib [of ci_clientnum] cong: if_cong)
  have "map ci_clientnum (clients w') = map ci_clientnum (clients v)" by (simp add: w'_def upd_client_def)
  then show "ci_clientnum ` set (clients (reteam_bot sm b t w)) = ci_clientnum ` set (clients w)"
    unfolding w' bv [symmetric] by (metis list.set_map)
  have "gs_state (cstate x w') = gs_state (cstate x v)" unfolding w'_def by (rule client_upd_keep) simp_all
  then show "gs_state (cstate x (reteam_bot sm b t w)) = gs_state (cstate x w)" using cv [of x] by (simp add: cw badge_def)
  have mem: "b \<in> ci_clientnum ` set (roster v)" using assms(2) bv by (auto simp: roster_def)
  have "client x w' = (if x = b then (client x v)\<lparr>ci_team := u\<rparr> else client x v)"
    unfolding w'_def using client_upd_same [OF _ mem, of "\<lambda>ci. ci\<lparr>ci_team := u\<rparr>"] client_upd_other [of "\<lambda>ci. ci\<lparr>ci_team := u\<rparr>" x b v] by simp
  then show "ci_team (client x (reteam_bot sm b t w)) = (if x = b then u else ci_team (client x w))"
    using cv [of x] by (simp add: cw badge_def)
  from assms(2) bv obtain c where c: "c \<in> set (clients v)" "ci_clientnum c = b" by force
  have cc: "client b v = c" using lookup_client [OF dv c(1)] c(2) by simp
  have "distinct (map ci_clientnum (clients v))" using dv by (simp add: distinct_nums_def roster_def)
  from members_move [OF this c] cc cv [of b] assms(3)
  have "members s (clients w') = members s (clients v) - (if ci_team (client b w) = s then 1 else 0) + (if u = s then 1 else 0)"
    by (simp add: w'_def upd_client_def badge_def)
  then show "members s (clients (reteam_bot sm b t w))
      = members s (clients w) - (if ci_team (client b w) = s then 1 else 0) + (if u = s then 1 else 0)"
    using members_cong [OF bm(1)] by (simp add: w')
qed

lemma balance_two:
  assumes "distinct_nums w" "distinct bs" "set bs \<subseteq> ci_clientnum ` set (clients w)" "\<And>b. b \<in> set bs \<Longrightarrow> gs_state (cstate b w) \<noteq> CS_SPECTATOR"
    and "\<And>cn. TeamOf cn \<in> {r1, r2} \<Longrightarrow> cn \<notin> set bs" "team_name w r1 \<noteq> team_name w r2" "length (team_name w r2) \<le> MAXTEAMLEN"
    and "a = members (team_name w r1) (clients w)" "c = members (team_name w r2) (clients w)" "c \<le> a"
    and "w' = balance_loop sm bs [(r1, a), (r2, c)] w"
  shows "members (team_name w r1) (clients w') + members (team_name w r2) (clients w') = a + c
    \<and> members (team_name w r2) (clients w') \<le> members (team_name w r1) (clients w')
    \<and> (members (team_name w r1) (clients w') \<le> members (team_name w r2) (clients w') + 1
       \<or> (\<forall>b \<in> set bs. ci_team (client b w') \<noteq> team_name w r1))
    \<and> (\<forall>x. x \<notin> set bs \<longrightarrow> ci_team (client x w') = ci_team (client x w))"
  using assms
proof (induction "length bs" arbitrary: bs w a c rule: less_induct)
  case less
  show ?case
  proof (cases "bs = [] \<or> a \<le> c + 1")
    case True
    then have "w' = w" using less.prems(11) by (subst (asm) balance_loop.simps) auto
    then show ?thesis using True less.prems(8-10) by auto
  next
    case go: False
    show ?thesis
    proof (cases "first_index (\<lambda>b. ci_team (client b w) = team_name w r1) bs")
      case None
      then have w': "w' = w" using less.prems(11) go by (simp add: balance_loop.simps)
      from None have "\<forall>b \<in> set bs. ci_team (client b w) \<noteq> team_name w r1" by (simp add: first_index_None)
      then show ?thesis using w' less.prems(8-10) by auto
    next
      case (Some i)
      then have i: "i < length bs" "ci_team (client (bs ! i) w) = team_name w r1" by (auto dest: first_index_Some)
      let ?b = "bs ! i" let ?v = "reteam_bot sm (bs ! i) r2 w" let ?bs = "remove_unordered i bs"
      have tp: "take_player [(r1, a), (r2, c)] = [(r1, a - 1), (r2, c + 1)]" using go by (simp add: take_player_def numeral_2_eq_2)
      then have w': "w' = balance_loop sm ?bs [(r1, a - 1), (r2, c + 1)] ?v"
        using less.prems(11) go Some by (subst (asm) balance_loop.simps) auto
      note rm = remove_unordered_distinct [OF i(1) less.prems(2)]
      have bm: "?b \<in> set bs" using i(1) by simp
      have len: "length ?bs < length bs" using i(1) by simp
      from less.prems(7) have u: "team_name w r2 = copyteam (team_name w r2)" by (simp add: copyteam_def)
      have mem: "?b \<in> ci_clientnum ` set (clients w)" using less.prems(3) bm by blast
      note st = reteam_step [OF less.prems(1) mem less.prems(4) [OF bm] u]
      have nm: "team_name ?v r1 = team_name w r1" "team_name ?v r2 = team_name w r2"
        using less.prems(5) bm st(4) by (cases r1; cases r2; auto)+
      have "members (team_name w r1) (clients ?v) = a - 1" "members (team_name w r2) (clients ?v) = c + 1"
        using st(5) i(2) less.prems(6,8,9) by simp_all
      then have "members (team_name ?v r1) (clients w') + members (team_name ?v r2) (clients w') = (a - 1) + (c + 1)
        \<and> members (team_name ?v r2) (clients w') \<le> members (team_name ?v r1) (clients w')
        \<and> (members (team_name ?v r1) (clients w') \<le> members (team_name ?v r2) (clients w') + 1
           \<or> (\<forall>b \<in> set ?bs. ci_team (client b w') \<noteq> team_name ?v r1))
        \<and> (\<forall>x. x \<notin> set ?bs \<longrightarrow> ci_team (client x w') = ci_team (client x ?v))"
        using go less.prems(3-7) st(2,3) rm nm by (intro less.hyps [OF len st(1) rm(1) _ _ _ _ _ _ _ _ w']) auto
      moreover have "ci_team (client ?b ?v) = team_name w r2" using st(4) by simp
      ultimately show ?thesis using rm(2) st(4) nm less.prems(6) bm by auto
    qed
  qed
qed

lemma balance_same:
  assumes "distinct_nums w" "distinct bs" "set bs \<subseteq> ci_clientnum ` set (clients w)" "\<And>b. b \<in> set bs \<Longrightarrow> gs_state (cstate b w) \<noteq> CS_SPECTATOR"
    and "team_name w r1 = team_name w r2" "length (team_name w r2) \<le> MAXTEAMLEN"
  shows "ci_team (client x (balance_loop sm bs [(r1, a), (r2, c)] w)) = ci_team (client x w)"
  using assms
proof (induction "length bs" arbitrary: bs w a c rule: less_induct)
  case less
  show ?case
  proof (cases "bs = [] \<or> a \<le> c + 1 \<or> first_index (\<lambda>b. ci_team (client b w) = team_name w r1) bs = None")
    case True
    then show ?thesis by (auto simp: balance_loop.simps)
  next
    case go: False
    then obtain i where fi: "first_index (\<lambda>b. ci_team (client b w) = team_name w r1) bs = Some i" by auto
    then have i: "i < length bs" "ci_team (client (bs ! i) w) = team_name w r1" by (auto dest: first_index_Some)
    let ?v = "reteam_bot sm (bs ! i) r2 w" let ?bs = "remove_unordered i bs"
    have tp: "take_player [(r1, a), (r2, c)] = [(r1, a - 1), (r2, c + 1)]" using go by (simp add: take_player_def numeral_2_eq_2)
    then have w': "balance_loop sm bs [(r1, a), (r2, c)] w = balance_loop sm ?bs [(r1, a - 1), (r2, c + 1)] ?v"
      using go fi by (subst balance_loop.simps) auto
    note rm = remove_unordered_distinct [OF i(1) less.prems(2)]
    have len: "length ?bs < length bs" and bm: "bs ! i \<in> set bs" using i(1) by simp_all
    from less.prems(6) have u: "team_name w r2 = copyteam (team_name w r2)" by (simp add: copyteam_def)
    have mem: "bs ! i \<in> ci_clientnum ` set (clients w)" using less.prems(3) bm by blast
    note st = reteam_step [OF less.prems(1) mem less.prems(4) [OF bm] u]
    have tm: "ci_team (client y ?v) = ci_team (client y w)" for y using st(4) i(2) less.prems(5) by simp
    then have nm: "team_name ?v r = team_name w r" for r by (cases r) simp_all
    show ?thesis unfolding w' tm [symmetric]
      using less.prems(3-6) st(2,3) rm nm by (intro less.hyps [OF len st(1) rm(1)]) auto
  qed
qed

end

subsection \<open>Properties\<close>

lemma table_bots_distinct:
  assumes "\<And>i b. i < length bs \<Longrightarrow> bs ! i = Some b \<Longrightarrow> b = k + int i"
  shows "distinct (map the (filter (\<lambda>b. b \<noteq> None) bs)) \<and> (\<forall>b. Some b \<in> set bs \<longrightarrow> k \<le> b)"
  using assms
proof (induction bs arbitrary: k)
  case (Cons x xs)
  have x: "b = k" if "x = Some b" for b using Cons.prems [of 0 b] that by simp
  have "b = k + 1 + int i" if "i < length xs" "xs ! i = Some b" for i b using Cons.prems [of "Suc i" b] that by simp
  from Cons.IH [OF this] have d: "distinct (map the (filter (\<lambda>b. b \<noteq> None) xs))" and ge: "\<And>b. Some b \<in> set xs \<Longrightarrow> k + 1 \<le> b" by auto
  show ?case using x d ge by (cases x) force+
qed simp

definition table_bots :: "'a world_scheme \<Rightarrow> int list" where
  "table_bots w = map the (filter (\<lambda>b. b \<noteq> None) (bots w))"

lemma set_table_bots: "b \<in> set (table_bots w) \<longleftrightarrow> Some b \<in> set (bots w)"
  by (force simp: table_bots_def)

lemma table_bots_ok:
  assumes "bots_ok w"
  shows "distinct_nums w" "distinct (table_bots w)" "set (table_bots w) \<subseteq> ci_clientnum ` set (clients w)"
proof -
  have tab: "table_ok (rows w) (lobby w) (bots w)" using assms by (simp add: bots_ok_def)
  show "distinct_nums w" using table_okD(1) [OF tab] by (simp add: distinct_nums_def roster_def comp_def)
  have sl: "b = MAXCLIENTS + int i \<and> b \<in> ci_clientnum ` set (clients w)" if "i < length (bots w)" "bots w ! i = Some b" for i b
    using table_okD(6) [OF tab] that by (auto simp: slots_ok_iff image_image)
  then show "distinct (table_bots w)" using table_bots_distinct [of "bots w" MAXCLIENTS] by (simp add: table_bots_def)
  show "set (table_bots w) \<subseteq> ci_clientnum ` set (clients w)" using sl set_table_bots by (metis in_set_conv_nth subsetI)
qed

text \<open>A name that is not kept in the record of a bot stays while bots are moved.\<close>

definition name_kept :: "'a world_scheme \<Rightarrow> teamref \<Rightarrow> bool" where
  "name_kept w r = (case r of TeamOf cn \<Rightarrow> Some cn \<notin> set (bots w) | TeamName s \<Rightarrow> True)"

text \<open>C21: \<^verbatim>\<open>balanceteams\<close> does what it is for when the players are in the two teams and no name of a team is read from a
  bot: nobody is lost, the teams end with at most one player of difference or else no bot is left in the bigger one to
  take away, and nobody but bots is moved.\<close>

theorem balanceteams_evens_out:
  assumes "mode_frame sm" and "bots_ok w"
    and two: "\<forall>ci \<in> set (clients w). gs_state (ci_state ci) \<noteq> CS_SPECTATOR \<longrightarrow> ci_team ci \<in> {''good'', ''evil''}"
    and kept: "\<forall>t \<in> set (calcteams w). name_kept w (fst t)"
    and play: "\<forall>b. Some b \<in> set (bots w) \<longrightarrow> gs_state (cstate b w) \<noteq> CS_SPECTATOR"
  shows "\<exists>big small. {big, small} = {''good'', ''evil''}
    \<and> members big (clients (balanceteams sm w)) + members small (clients (balanceteams sm w)) = members big (clients w) + members small (clients w)
    \<and> members small (clients (balanceteams sm w)) \<le> members big (clients (balanceteams sm w))
    \<and> (members big (clients (balanceteams sm w)) \<le> members small (clients (balanceteams sm w)) + 1
       \<or> (\<forall>b. Some b \<in> set (bots w) \<longrightarrow> ci_team (client b (balanceteams sm w)) \<noteq> big))
    \<and> (\<forall>cn. Some cn \<notin> set (bots w) \<longrightarrow> ci_team (client cn (balanceteams sm w)) = ci_team (client cn w))"
proof -
  note tb = table_bots_ok [OF assms(2)]
  obtain r1 r2 where r: "calcteams w = [(r1, members (team_name w r1) (clients w)), (r2, members (team_name w r2) (clients w))]"
    "members (team_name w r2) (clients w) \<le> members (team_name w r1) (clients w)"
    "(team_name w r1, team_name w r2) \<in> {(''good'', ''evil''), (''evil'', ''good'')}"
    by (rule calcteams_two [OF lookup_client [OF tb(1)]]) (use two in blast)+
  have kp: "cn \<notin> set (table_bots w)" if "TeamOf cn \<in> {r1, r2}" for cn using that kept r(1) by (auto simp: name_kept_def set_table_bots)
  have ne: "team_name w r1 \<noteq> team_name w r2" "length (team_name w r2) \<le> MAXTEAMLEN"
    "{team_name w r1, team_name w r2} = {''good'', ''evil''}" using r(3) by auto
  have pl: "gs_state (cstate b w) \<noteq> CS_SPECTATOR" if "b \<in> set (table_bots w)" for b using play that set_table_bots by blast
  have bal: "balanceteams sm w = balance_loop sm (table_bots w) [(r1, members (team_name w r1) (clients w)), (r2, members (team_name w r2) (clients w))] w"
    by (simp only: balanceteams_def table_bots_def r(1))
  from mode_frame.balance_two [OF assms(1) tb pl kp ne(1,2) refl refl r(2) bal] ne(3)
  show ?thesis unfolding Ball_def set_table_bots by blast
qed


text \<open>C38: A name that is read from a bot is lost when that bot is moved. When the name of the bigger team is found in the
  record of the bot that is moved first, no other bot changes its team afterwards, however big the difference still is:
  from then on the loop looks for bots to take away in the team it moves them to.\<close>

theorem balanceteams_stale_name:
  assumes "mode_frame sm" and "bots_ok w" and "\<forall>b. Some b \<in> set (bots w) \<longrightarrow> gs_state (cstate b w) \<noteq> CS_SPECTATOR"
    and teams: "calcteams w = [(TeamOf b, n), (r, m)]" "m + 1 < n"
    and "name_kept w r" "length (team_name w r) \<le> MAXTEAMLEN"
    and "find (\<lambda>x. ci_team (client x w) = ci_team (client b w)) (table_bots w) = Some b"
  shows "ci_team (client x (balanceteams sm w)) = (if x = b then team_name w r else ci_team (client x w))"
proof -
  note tb = table_bots_ok [OF assms(2)]
  have pl: "gs_state (cstate b w) \<noteq> CS_SPECTATOR" if "b \<in> set (table_bots w)" for b using assms(3) that set_table_bots by blast
  obtain i where i: "first_index (\<lambda>x. ci_team (client x w) = team_name w (TeamOf b)) (table_bots w) = Some i" "table_bots w ! i = b" "i < length (table_bots w)"
    using first_index_find [OF assms(8)] by auto
  let ?v = "reteam_bot sm b r w"
  have bm: "b \<in> set (table_bots w)" using i(2,3) nth_mem by fastforce
  have mem: "b \<in> ci_clientnum ` set (clients w)" using tb(3) bm by blast
  have u: "team_name w r = copyteam (team_name w r)" using assms(7) by (simp add: copyteam_def)
  note st = mode_frame.reteam_step [OF assms(1) tb(1) mem pl [OF bm] u]
  have rr: "TeamOf cn = r \<Longrightarrow> cn \<notin> set (table_bots w)" for cn using assms(6) by (auto simp: name_kept_def set_table_bots)
  then have nm: "team_name ?v r = team_name w r" "team_name ?v (TeamOf b) = team_name w r" using st(4) bm by (cases r; auto)+
  have tp: "take_player [(TeamOf b, n), (r, m)] = [(TeamOf b, n - 1), (r, m + 1)]" using teams(2) by (simp add: take_player_def numeral_2_eq_2)
  have bal: "balanceteams sm w = balance_loop sm (remove_unordered i (table_bots w)) [(TeamOf b, n - 1), (r, m + 1)] ?v"
    unfolding balanceteams_def teams(1) table_bots_def [symmetric] using teams(2) i tp bm by (subst balance_loop.simps) auto
  note rm = remove_unordered_distinct [OF i(3) tb(2)]
  have "ci_team (client x (balanceteams sm w)) = ci_team (client x ?v)"
    unfolding bal by (rule mode_frame.balance_same [OF assms(1) st(1)]) (use rm st(2,3) tb(3) pl nm assms(7) in auto)
  then show ?thesis using st(4) by simp
qed

text \<open>In \<open>even_server\<close> the name of the team is read from a player, in \<open>stale_server\<close> from the first of five bots.\<close>

definition even_server :: world where
  "even_server = sample_world\<lparr>clients := [(sample_client 0 ''evil'' 3)\<lparr>ci_bots := [128, 129, 130, 131]\<rparr>, sample_bot 128 0 ''evil'', sample_bot 129 0 ''evil'',
     sample_bot 130 0 ''evil'', sample_bot 131 0 ''evil''], bots := [Some 128, Some 129, Some 130, Some 131]\<rparr>"

definition stale_server :: world where
  "stale_server = sample_world\<lparr>clients := [(sample_client 0 ''good'' 3)\<lparr>ci_bots := [128, 129, 130, 131, 132]\<rparr>, sample_bot 128 0 ''evil'', sample_bot 129 0 ''evil'',
     sample_bot 130 0 ''evil'', sample_bot 131 0 ''evil'', sample_bot 132 0 ''evil''], bots := [Some 128, Some 129, Some 130, Some 131, Some 132]\<rparr>"

theorem balanceteams_evens_out_witness:
  "members ''evil'' (clients (balanceteams None even_server)) = 3 \<and> members ''good'' (clients (balanceteams None even_server)) = 2
    \<and> ci_team (client 0 (balanceteams None even_server)) = ''evil''"
proof (intro conjI)
  have h: "bots_ok even_server" "\<forall>ci \<in> set (clients even_server). gs_state (ci_state ci) \<noteq> CS_SPECTATOR \<longrightarrow> ci_team ci \<in> {''good'', ''evil''}"
    "\<forall>t \<in> set (calcteams even_server). name_kept even_server (fst t)" by code_simp+
  have "list_all (\<lambda>s. case s of Some b \<Rightarrow> gs_state (cstate b even_server) \<noteq> CS_SPECTATOR | None \<Rightarrow> True) (bots even_server)" by code_simp
  then have p: "\<forall>b. Some b \<in> set (bots even_server) \<longrightarrow> gs_state (cstate b even_server) \<noteq> CS_SPECTATOR" by (force simp: list_all_iff)
  have "Some 0 \<notin> set (bots even_server)" "ci_team (client 0 even_server) = ''evil''" by code_simp+
  then show "ci_team (client 0 (balanceteams None even_server)) = ''evil''"
    using balanceteams_evens_out [OF no_mode_frame h p] by metis
qed code_simp+

theorem balanceteams_stale_name_witness:
  "ci_team (client 128 (balanceteams None stale_server)) = ''good'' \<and> ci_team (client 129 (balanceteams None stale_server)) = ''evil''
    \<and> members ''evil'' (clients (balanceteams None stale_server)) = 4 \<and> members ''good'' (clients (balanceteams None stale_server)) = 2"
proof -
  have "list_all (\<lambda>s. case s of Some b \<Rightarrow> gs_state (cstate b stale_server) \<noteq> CS_SPECTATOR | None \<Rightarrow> True) (bots stale_server)" by code_simp
  then have p: "\<forall>b. Some b \<in> set (bots stale_server) \<longrightarrow> gs_state (cstate b stale_server) \<noteq> CS_SPECTATOR" by (force simp: list_all_iff)
  have h: "bots_ok stale_server" "calcteams stale_server = [(TeamOf 128, 5), (TeamOf 0, 1)]" "(1 :: int) + 1 < 5" "name_kept stale_server (TeamOf 0)"
    "length (team_name stale_server (TeamOf 0)) \<le> MAXTEAMLEN"
    "find (\<lambda>x. ci_team (client x stale_server) = ci_team (client 128 stale_server)) (table_bots stale_server) = Some 128"
    "team_name stale_server (TeamOf 0) = ''good''" "ci_team (client 129 stale_server) = ''evil''"
    by code_simp+
  have "members ''evil'' (clients (balanceteams None stale_server)) = 4" "members ''good'' (clients (balanceteams None stale_server)) = 2" by code_simp+
  then show ?thesis using h(7,8) balanceteams_stale_name [OF no_mode_frame h(1) p h(2-6)] by simp
qed

end
