(* ===== verification/Ctf.thy ===== *)
theory Ctf
  imports World Netcodec
begin

text \<open>
  The flag modes of \<^verbatim>\<open>src/src/fpsgame/ctf.h\<close> as the server compiles them
  (\<^verbatim>\<open>ctfservmode\<close>, \<^verbatim>\<open>SERVMODE\<close> defined): capture the flag, protect and hold. The state of
  the mode extends the world; every handler of the mode is a function of the extended world.
\<close>

subsection \<open>Teams and flags\<close>

definition ctfteamflag :: "cstr \<Rightarrow> int" where
  "ctfteamflag s = (if s = ''good'' then 1 else if s = ''evil'' then 2 else 0)"

definition ctfflagteam :: "int \<Rightarrow> cstr option" where
  "ctfflagteam i = (if i = 1 then Some ''good'' else if i = 2 then Some ''evil'' else None)"

text \<open>A team name handed to the scripts; a null pointer becomes nil, here the empty string.\<close>

definition team_arg :: "int \<Rightarrow> marg" where
  "team_arg i = MS (case ctfflagteam i of None \<Rightarrow> [] | Some t \<Rightarrow> t)"

abbreviation (input) BASERADIUS :: int where "BASERADIUS \<equiv> 64"
abbreviation (input) BASEHEIGHT :: int where "BASEHEIGHT \<equiv> 24"
abbreviation (input) MAXFLAGS :: int where "MAXFLAGS \<equiv> 20"
abbreviation (input) FLAGLIMIT :: int where "FLAGLIMIT \<equiv> 10"
abbreviation (input) MAXHOLDSPAWNS :: int where "MAXHOLDSPAWNS \<equiv> 100"
abbreviation (input) HOLDSECS :: int where "HOLDSECS \<equiv> 20"
abbreviation (input) HOLDFLAGS :: int where "HOLDFLAGS \<equiv> 1"
abbreviation (input) HOLDDEATHPENALTY :: int where "HOLDDEATHPENALTY \<equiv> 5"
abbreviation (input) RESPAWNSECS :: int where "RESPAWNSECS \<equiv> 5"
abbreviation (input) RESETFLAGTIME :: int where "RESETFLAGTIME \<equiv> 10000"
abbreviation (input) INVISFLAGTIME :: int where "INVISFLAGTIME \<equiv> 20000"

record flag =
  f_id :: int
  f_version :: int
  f_spawnindex :: int
  f_droploc :: vec
  f_spawnloc :: vec
  f_team :: int
  f_droptime :: int
  f_owntime :: int
  f_holdtime :: int
  f_owner :: int
  f_dropcount :: int
  f_dropper :: int
  f_invistime :: int
  f_tmillis :: int
  f_drops :: int

definition flag_reset :: "flag \<Rightarrow> flag" where
  "flag_reset f = f\<lparr>f_version := 0, f_spawnindex := - 1, f_droploc := vec0, f_spawnloc := vec0,
     f_dropcount := 0, f_owner := - 1, f_dropper := - 1, f_invistime := 0, f_tmillis := - 1, f_drops := 0,
     f_team := 0, f_droptime := 0, f_owntime := 0, f_holdtime := 0\<rparr>"

definition flag_new :: flag where
  "flag_new = flag_reset \<lparr>f_id = - 1, f_version = 0, f_spawnindex = 0, f_droploc = vec0, f_spawnloc = vec0,
     f_team = 0, f_droptime = 0, f_owntime = 0, f_holdtime = 0, f_owner = 0, f_dropcount = 0,
     f_dropper = 0, f_invistime = 0, f_tmillis = 0, f_drops = 0\<rparr>"

definition hasowner :: "flag \<Rightarrow> bool" where
  "hasowner f \<longleftrightarrow> f_owner f \<ge> 0"

definition holdcounter :: "int \<Rightarrow> flag \<Rightarrow> int" where
  "holdcounter now f =
     (if f_holdtime f = 0 then 0
      else if \<not> hasowner f \<and> f_droptime f \<noteq> 0 \<and> f_droptime f \<ge> f_holdtime f
      then max ((f_droptime f - f_holdtime f) - (now - f_droptime f)) 0
      else now - f_holdtime f)"

record ctf = world +
  holdspawns :: "vec list"
  flags :: "flag list"
  ctf_scores :: "int list"
  notgotflags :: bool

abbreviation upd_flag :: "int \<Rightarrow> (flag \<Rightarrow> flag) \<Rightarrow> ctf \<Rightarrow> ctf" where
  "upd_flag i g c \<equiv> c\<lparr>flags := upd_nth i g (flags c)\<rparr>"

abbreviation get_flag :: "int \<Rightarrow> ctf \<Rightarrow> flag" where
  "get_flag i c \<equiv> flags c ! nat i"

text \<open>\<^verbatim>\<open>++f.version\<close>\<close>

definition bump :: "int \<Rightarrow> ctf \<Rightarrow> ctf" where
  "bump i = upd_flag i (\<lambda>f. f\<lparr>f_version := f_version f + 1\<rparr>)"

definition resetflags :: "ctf \<Rightarrow> ctf" where
  "resetflags c = c\<lparr>holdspawns := [], flags := [], ctf_scores := [0, 0]\<rparr>"

definition addflag :: "int \<Rightarrow> vec \<Rightarrow> int \<Rightarrow> int \<Rightarrow> ctf \<Rightarrow> bool \<times> ctf" where
  "addflag i ofs tm invistime c =
     (if i < 0 \<or> i \<ge> MAXFLAGS then (False, c)
      else let c = c\<lparr>flags := flags c @ replicate (nat (i + 1) - length (flags c)) flag_new\<rparr>
        in (True, upd_flag i (\<lambda>f. (flag_reset (f\<lparr>f_id := i\<rparr>))\<lparr>f_team := tm, f_spawnloc := ofs,
              f_invistime := invistime\<rparr>) c))"

definition addholdspawn :: "vec \<Rightarrow> ctf \<Rightarrow> bool \<times> ctf" where
  "addholdspawn ofs c = (if int (length (holdspawns c)) \<ge> MAXHOLDSPAWNS then (False, c)
     else (True, c\<lparr>holdspawns := holdspawns c @ [ofs]\<rparr>))"

definition ownflag_f :: "int \<Rightarrow> int \<Rightarrow> int \<Rightarrow> flag \<Rightarrow> flag" where
  "ownflag_f owner owntime ownteam f =
     (let f = f\<lparr>f_owner := owner, f_owntime := owntime\<rparr>;
          f = (if f_holdtime f \<noteq> 0 \<and> f_team f = ownteam
               then let f = (if f_droptime f \<noteq> 0 \<and> f_droptime f < owntime
                             then f\<lparr>f_holdtime := f_holdtime f + 2 * (owntime - f_droptime f)\<rparr> else f)
                    in f\<lparr>f_holdtime := min (f_holdtime f) owntime\<rparr>
               else let f = f\<lparr>f_holdtime := owntime\<rparr>
                    in if ownteam \<ge> 0 then f\<lparr>f_team := ownteam\<rparr> else f);
          f = (if owner = f_dropper f
               then (if f_dropcount f < INT_MAX then f\<lparr>f_dropcount := f_dropcount f + 1\<rparr> else f)
               else f\<lparr>f_dropcount := 0\<rparr>)
      in f\<lparr>f_dropper := - 1, f_invistime := 0\<rparr>)"

definition ownflag :: "int \<Rightarrow> int \<Rightarrow> int \<Rightarrow> int \<Rightarrow> ctf \<Rightarrow> ctf" where
  "ownflag i owner owntime ownteam = upd_flag i (ownflag_f owner owntime ownteam)"

definition dropflag_f :: "vec \<Rightarrow> int \<Rightarrow> int \<Rightarrow> bool \<Rightarrow> flag \<Rightarrow> flag" where
  "dropflag_f ofs droptime dropper penalty f =
     (let f = f\<lparr>f_droploc := ofs, f_droptime := droptime\<rparr>;
          f = (if dropper < 0 then f\<lparr>f_dropcount := 0\<rparr>
               else if penalty then f\<lparr>f_dropcount := INT_MAX\<rparr> else f)
      in f\<lparr>f_dropper := dropper, f_owner := - 1, f_invistime := 0, f_tmillis := - 1,
           f_drops := f_drops f + 1\<rparr>)"

definition dropflag_at :: "int \<Rightarrow> vec \<Rightarrow> int \<Rightarrow> int \<Rightarrow> bool \<Rightarrow> ctf \<Rightarrow> ctf" where
  "dropflag_at i ofs droptime dropper penalty = upd_flag i (dropflag_f ofs droptime dropper penalty)"

definition returnflag_f :: "int \<Rightarrow> flag \<Rightarrow> flag" where
  "returnflag_f invistime f = f\<lparr>f_droptime := 0, f_holdtime := 0, f_dropcount := 0, f_owner := - 1,
     f_dropper := - 1, f_invistime := invistime, f_tmillis := - 1, f_drops := 0\<rparr>"

definition returnflag :: "int \<Rightarrow> int \<Rightarrow> ctf \<Rightarrow> ctf" where
  "returnflag i invistime = upd_flag i (returnflag_f invistime)"

definition deadflag_f :: "int \<Rightarrow> flag \<Rightarrow> flag" where
  "deadflag_f now f =
     (if f_holdtime f \<noteq> 0
      then let limit = (if \<not> hasowner f \<and> f_droptime f \<noteq> 0 \<and> f_droptime f \<ge> f_holdtime f
                        then f_droptime f else now);
               h = f_holdtime f + HOLDDEATHPENALTY * 1000
           in f\<lparr>f_holdtime := (if h \<ge> limit then 0 else h)\<rparr>
      else f)"

definition deadflag :: "int \<Rightarrow> ctf \<Rightarrow> ctf" where
  "deadflag i c = upd_flag i (deadflag_f (lastmillis c)) c"

subsection \<open>Scores\<close>

definition totalscore :: "int \<Rightarrow> ctf \<Rightarrow> int" where
  "totalscore tm c = (if tm \<ge> 1 \<and> tm \<le> 2 then ctf_scores c ! nat (tm - 1) else 0)"

definition setscore :: "int \<Rightarrow> int \<Rightarrow> ctf \<Rightarrow> int \<times> ctf" where
  "setscore tm score c = (if tm \<ge> 1 \<and> tm \<le> 2
     then (score, c\<lparr>ctf_scores := (ctf_scores c)[nat (tm - 1) := score]\<rparr>) else (0, c))"

definition addscore :: "int \<Rightarrow> int \<Rightarrow> ctf \<Rightarrow> int \<times> ctf" where
  "addscore tm score c = (if tm \<ge> 1 \<and> tm \<le> 2
     then let v = ctf_scores c ! nat (tm - 1) + score
          in (v, c\<lparr>ctf_scores := (ctf_scores c)[nat (tm - 1) := v]\<rparr>)
     else (0, c))"

definition getteamscore :: "cstr \<Rightarrow> ctf \<Rightarrow> int" where
  "getteamscore t c = totalscore (ctfteamflag t) c"

definition getteamscores :: "ctf \<Rightarrow> (cstr \<times> int) list" where
  "getteamscores c = concat (map (\<lambda>k. if ctf_scores c ! k \<noteq> 0
     then [(the (ctfflagteam (int k + 1)), ctf_scores c ! k)] else []) [0, 1])"

definition insidebase :: "flag \<Rightarrow> vec \<Rightarrow> bool" where
  "insidebase f ofs \<longleftrightarrow>
     (let dx = vx (f_spawnloc f) - vx ofs; dy = vy (f_spawnloc f) - vy ofs; dz = vz (f_spawnloc f) - vz ofs
      in dx * dx + dy * dy \<le> of_int (BASERADIUS * BASERADIUS) \<and> \<bar>dz\<bar> \<le> of_int BASEHEIGHT)"

subsection \<open>Set-up\<close>

definition ctf_reset :: "bool \<Rightarrow> ctf \<Rightarrow> ctf" where
  "ctf_reset isempty c = (resetflags c)\<lparr>notgotflags := \<not> isempty\<rparr>"

definition ctf_cleanup :: "ctf \<Rightarrow> ctf" where
  "ctf_cleanup = ctf_reset False"

text \<open>Up to four draws, until one differs from the current place.\<close>

fun spawnflag_draw :: "nat \<Rightarrow> int \<Rightarrow> int \<Rightarrow> int \<Rightarrow> ctf \<Rightarrow> int \<times> ctf" where
  "spawnflag_draw 0 cur n idx c = (idx, c)"
| "spawnflag_draw (Suc k) cur n idx c =
     (let (j, c) = draw n c in if j \<noteq> cur then (j, c) else spawnflag_draw k cur n j c)"

definition spawnflag :: "int \<Rightarrow> ctf \<Rightarrow> ctf" where
  "spawnflag i c =
     (if holdspawns c = [] then c
      else let cur = f_spawnindex (get_flag i c);
               (j, c) = spawnflag_draw 4 cur (int (length (holdspawns c))) cur c
           in upd_flag i (\<lambda>f. f\<lparr>f_spawnindex := j\<rparr>) c)"

definition reset_msg :: "int \<Rightarrow> int \<Rightarrow> int \<Rightarrow> ctf \<Rightarrow> ctf" where
  "reset_msg i tm score c =
     (let c = bump i c; f = get_flag i c;
          c = emit (sendf (- 1) 1 [MI N_RESETFLAG, MI i, MI (f_version f), MI (f_spawnindex f), MI tm, MI score]) c
      in emit (Event ''resetflag'' [team_arg (f_team f)]) c)"

text \<open>The loop adds flags until there are \<^verbatim>\<open>HOLDFLAGS\<close>; its fuel is the number that is missing.\<close>

fun setupholdspawns_loop :: "nat \<Rightarrow> ctf \<Rightarrow> ctf" where
  "setupholdspawns_loop 0 c = c"
| "setupholdspawns_loop (Suc k) c =
     (if int (length (flags c)) < HOLDFLAGS
      then let i = int (length (flags c)); (ok, c) = addflag i vec0 0 0 c
           in if \<not> ok then c
              else setupholdspawns_loop k (reset_msg i 0 0 (spawnflag i c))
      else c)"

definition setupholdspawns :: "ctf \<Rightarrow> ctf" where
  "setupholdspawns c = (if \<not> m_hold (gamemode c) \<or> holdspawns c = [] then c
     else setupholdspawns_loop (nat HOLDFLAGS - length (flags c)) c)"

fun setup_holdspawns :: "entity list \<Rightarrow> ctf \<Rightarrow> ctf" where
  "setup_holdspawns [] c = c"
| "setup_holdspawns (e # es) c =
     (if e_type e \<noteq> BASE then setup_holdspawns es c
      else let (ok, c) = addholdspawn (e_o e) c in if \<not> ok then c else setup_holdspawns es c)"

fun setup_flags :: "entity list \<Rightarrow> ctf \<Rightarrow> ctf" where
  "setup_flags [] c = c"
| "setup_flags (e # es) c =
     (if e_type e \<noteq> FLAG \<or> e_attr2 e < 1 \<or> e_attr2 e > 2 then setup_flags es c
      else let (ok, c) = addflag (int (length (flags c))) (e_o e) (e_attr2 e)
                           (if m_protect (gamemode c) then lastmillis c else 0) c
           in if \<not> ok then c else setup_flags es c)"

definition ctf_setup :: "ctf \<Rightarrow> ctf" where
  "ctf_setup c =
     (let c = ctf_reset False c
      in if notgotitems c \<or> ments c = [] then c
         else let c = (if m_hold (gamemode c) then setupholdspawns (setup_holdspawns (ments c) c)
                       else setup_flags (ments c) c)
              in c\<lparr>notgotflags := False\<rparr>)"

definition ctf_newmap :: "ctf \<Rightarrow> ctf" where
  "ctf_newmap = ctf_reset True"

subsection \<open>Handlers\<close>

abbreviation flag_indices :: "ctf \<Rightarrow> int list" where
  "flag_indices c \<equiv> map int [0..<length (flags c)]"

definition return_msg :: "int \<Rightarrow> int \<Rightarrow> ctf \<Rightarrow> ctf" where
  "return_msg cn i c =
     (let c = bump i c; f = get_flag i c;
          c = emit (sendf (- 1) 1 [MI N_RETURNFLAG, MI cn, MI i, MI (f_version f)]) c
      in emit (Event ''returnflag'' [MI cn, team_arg (f_team f)]) c)"

text \<open>The body of the loop of \<^verbatim>\<open>dropflag(ci, dropper)\<close> for the flag \<open>i\<close>; \<open>dropper\<close> is \<open>None\<close>
  for a null pointer.\<close>

definition dropflag_one :: "clientinfo \<Rightarrow> clientinfo option \<Rightarrow> int \<Rightarrow> ctf \<Rightarrow> ctf" where
  "dropflag_one ci dropper i c =
     (let f = get_flag i c; cn = ci_clientnum ci
      in if f_owner f \<noteq> cn then c
         else if m_protect (gamemode c) \<and> insidebase f (gs_o (ci_state ci))
         then return_msg cn i (returnflag i 0 c)
         else let ofs = gs_o (ci_state ci); c = bump i c;
                  c = emit (sendf (- 1) 1 [MI N_DROPFLAG, MI cn, MI i, MI (f_version (get_flag i c)),
                        MI (dmf_int (vx ofs)), MI (dmf_int (vy ofs)), MI (dmf_int (vz ofs))]) c;
                  c = emit (Event ''dropflag'' [MI cn, team_arg (f_team f)]) c
              in dropflag_at i (quantise ofs) (lastmillis c)
                   (case dropper of Some d \<Rightarrow> ci_clientnum d | None \<Rightarrow> cn)
                   (case dropper of Some d \<Rightarrow> ci_clientnum d \<noteq> cn | None \<Rightarrow> False) c)"

definition dropflag :: "clientinfo \<Rightarrow> clientinfo option \<Rightarrow> ctf \<Rightarrow> ctf" where
  "dropflag ci dropper c = (if notgotflags c then c
     else fold (dropflag_one ci dropper) (flag_indices c) c)"

definition forget_dropper :: "int \<Rightarrow> ctf \<Rightarrow> ctf" where
  "forget_dropper cn c = c\<lparr>flags := map (\<lambda>f. if f_dropper f = cn then f\<lparr>f_dropper := - 1, f_dropcount := 0\<rparr> else f) (flags c)\<rparr>"

definition ctf_leavegame :: "clientinfo \<Rightarrow> ctf \<Rightarrow> ctf" where
  "ctf_leavegame ci c = forget_dropper (ci_clientnum ci) (dropflag ci None c)"

definition ctf_died :: "clientinfo \<Rightarrow> clientinfo option \<Rightarrow> ctf \<Rightarrow> ctf" where
  "ctf_died ci actor c =
     (if notgotflags c then c
      else let c = (if m_hold (gamemode c)
                    then fold (\<lambda>i c. if f_owner (get_flag i c) = ci_clientnum ci then deadflag i c else c) (flag_indices c) c
                    else c);
               c = dropflag ci
                     (case actor of
                        Some a \<Rightarrow> if ctftkpenalty c \<and> ci_clientnum a \<noteq> ci_clientnum ci
                                      \<and> isteam (gamemode c) (ci_team a) (ci_team ci) then Some a else None
                      | None \<Rightarrow> None) c
           in forget_dropper (ci_clientnum ci) c)"

definition ctf_canspawn :: "clientinfo \<Rightarrow> bool \<Rightarrow> ctf \<Rightarrow> bool" where
  "ctf_canspawn ci connecting c \<longleftrightarrow>
     (if m_efficiency (gamemode c) \<or> \<not> m_protect (gamemode c)
      then connecting \<or> gs_lastdeath (ci_state ci) = 0
           \<or> gamemillis c + curtime c - gs_lastdeath (ci_state ci) \<ge> RESPAWNSECS * 1000
      else True)"

definition ctf_canchangeteam :: "cstr \<Rightarrow> bool" where
  "ctf_canchangeteam newteam \<longleftrightarrow> ctfteamflag newteam > 0"

definition ctf_changeteam :: "clientinfo \<Rightarrow> ctf \<Rightarrow> ctf" where
  "ctf_changeteam ci c = dropflag ci None c"

text \<open>The steps of \<^verbatim>\<open>scoreflag\<close>; \<open>relay < 0\<close> stands for its default argument.\<close>

definition record_timetrial :: "int \<Rightarrow> int \<Rightarrow> ctf \<Rightarrow> ctf" where
  "record_timetrial cn tt = upd_client cn
     (\<lambda>ci. if ci_timetrial ci = 0 \<or> tt < ci_timetrial ci then ci\<lparr>ci_timetrial := tt\<rparr> else ci)"

definition respawn_hold :: "int \<Rightarrow> ctf \<Rightarrow> ctf" where
  "respawn_hold i c = (if m_hold (gamemode c) then spawnflag i c else c)"

definition score_announce :: "clientinfo \<Rightarrow> int \<Rightarrow> int \<Rightarrow> int \<Rightarrow> int \<Rightarrow> int \<Rightarrow> ctf \<Rightarrow> ctf" where
  "score_announce ci goal relay tm score tt c =
     (let c = (if relay \<ge> 0 then bump relay c else c);
          rv = (if relay \<ge> 0 then f_version (get_flag relay c) else - 1);
          c = bump goal c; cn = ci_clientnum ci;
          c = emit (sendf (- 1) 1 [MI N_SCOREFLAG, MI cn, MI relay, MI rv, MI goal, MI (f_version (get_flag goal c)),
                MI (f_spawnindex (get_flag goal c)), MI tm, MI score, MI (gs_flags (ci_state ci) + 1)]) c
      in emit (Event ''scoreflag'' [MI cn, MS (ci_team ci), MI score, MI tt]) c)"

definition scoreflag :: "clientinfo \<Rightarrow> int \<Rightarrow> int \<Rightarrow> ctf \<Rightarrow> ctf" where
  "scoreflag ci goal relay c =
     (let cn = ci_clientnum ci; idx = (if relay \<ge> 0 then relay else goal);
          tt = (if f_tmillis (get_flag idx c) > - 1 then totalmillis c - f_tmillis (get_flag idx c) else - 1);
          c = record_timetrial cn tt c;
          c = returnflag idx (if m_protect (gamemode c) then lastmillis c else 0) c;
          c = upd_state cn (\<lambda>s. s\<lparr>gs_flags := gs_flags s + 1\<rparr>) c;
          tm = ctfteamflag (ci_team ci);
          (score, c) = addscore tm 1 c;
          c = score_announce ci goal relay tm score tt (respawn_hold goal c)
      in if score \<ge> FLAGLIMIT then startintermission c else c)"

definition owned_flag :: "int \<Rightarrow> ctf \<Rightarrow> int option" where
  "owned_flag cn c = find (\<lambda>j. f_owner (get_flag j c) = cn) (flag_indices c)"

definition take_refused :: "clientinfo \<Rightarrow> int \<Rightarrow> int \<Rightarrow> ctf \<Rightarrow> bool" where
  "take_refused ci i version c \<longleftrightarrow>
     notgotflags c \<or> \<not> inrange i (flags c) \<or> gs_state (ci_state ci) \<noteq> CS_ALIVE \<or> ci_team ci = []
     \<or> (let f = get_flag i c
        in (if m_hold (gamemode c) then f_spawnindex f < 0 else ctfflagteam (f_team f) = None) \<or> f_owner f \<ge> 0
           \<or> f_version f \<noteq> version
           \<or> (f_droptime f \<noteq> 0 \<and> f_dropper f = ci_clientnum ci \<and> f_dropcount f \<ge> 3))"

definition take_own :: "int \<Rightarrow> int \<Rightarrow> int \<Rightarrow> ctf \<Rightarrow> ctf" where
  "take_own cn i ownteam c =
     (let c = bump i (ownflag i cn (lastmillis c) ownteam c);
          c = emit (sendf (- 1) 1 [MI N_TAKEFLAG, MI cn, MI i, MI (f_version (get_flag i c))]) c;
          c = upd_flag i (\<lambda>f. if f_drops f = 0 then f\<lparr>f_tmillis := totalmillis c\<rparr> else f) c
      in emit (Event ''takeflag'' [MI cn, team_arg (f_team (get_flag i c))]) c)"

definition takeflag :: "clientinfo \<Rightarrow> int \<Rightarrow> int \<Rightarrow> ctf \<Rightarrow> ctf" where
  "takeflag ci i version c =
     (if take_refused ci i version c then c
      else let f = get_flag i c; g = gamemode c; cn = ci_clientnum ci; tm = ctfteamflag (ci_team ci)
        in if m_hold g \<or> m_protect g = (f_team f = tm)
           then (if owned_flag cn c \<noteq> None then c else take_own cn i (if m_hold g then tm else - 1) c)
           else if m_protect g then (if f_invistime f = 0 then scoreflag ci i (- 1) c else c)
           else if f_droptime f \<noteq> 0 then return_msg cn i (returnflag i 0 c)
           else (case owned_flag cn c of None \<Rightarrow> c | Some j \<Rightarrow> scoreflag ci i j c))"

text \<open>The three tests that \<^verbatim>\<open>update\<close> makes for each flag.\<close>

definition update_dropped :: "int \<Rightarrow> ctf \<Rightarrow> ctf" where
  "update_dropped i c =
     (let f = get_flag i c; g = gamemode c
      in if f_owner f < 0 \<and> f_droptime f \<noteq> 0 \<and> lastmillis c - f_droptime f \<ge> RESETFLAGTIME
         then let c = returnflag i (if m_protect g then lastmillis c else 0) c;
                  c = (if m_hold g then spawnflag i c else c);
                  (score, c) = (if m_hold g then (0, c) else addscore (f_team f) (if m_protect g then - 1 else 0) c)
              in reset_msg i (if m_hold g then 0 else f_team f) score c
         else c)"

definition update_invis :: "int \<Rightarrow> ctf \<Rightarrow> ctf" where
  "update_invis i c =
     (let f = get_flag i c
      in if f_invistime f \<noteq> 0 \<and> lastmillis c - f_invistime f \<ge> INVISFLAGTIME
         then emit (sendf (- 1) 1 [MI N_INVISFLAG, MI i, MI 0]) (upd_flag i (\<lambda>f. f\<lparr>f_invistime := 0\<rparr>) c)
         else c)"

definition update_hold :: "int \<Rightarrow> ctf \<Rightarrow> ctf" where
  "update_hold i c =
     (let f = get_flag i c
      in if m_hold (gamemode c) \<and> f_owner f \<ge> 0 \<and> lastmillis c - f_holdtime f \<ge> HOLDSECS * 1000
         then (case getinfo (f_owner f) c of
                 Some ci \<Rightarrow> scoreflag ci i (- 1) c
               | None \<Rightarrow> reset_msg i 0 0 (spawnflag i c))
         else c)"

definition ctf_update :: "ctf \<Rightarrow> ctf" where
  "ctf_update c = (if gamemillis c \<ge> gamelimit c \<or> notgotflags c then c
     else fold (\<lambda>i c. update_hold i (update_invis i (update_dropped i c))) (flag_indices c) c)"

text \<open>The values that \<^verbatim>\<open>initclient\<close> puts into the welcome packet.\<close>

definition initclient_flag :: "ctf \<Rightarrow> flag \<Rightarrow> int list" where
  "initclient_flag c f =
     [f_version f, f_spawnindex f, f_owner f, if f_invistime f \<noteq> 0 then 1 else 0]
     @ (if f_owner f < 0
        then (if f_droptime f \<noteq> 0 then 1 else 0)
             # (if f_droptime f \<noteq> 0 then [dmf_int (vx (f_droploc f)), dmf_int (vy (f_droploc f)), dmf_int (vz (f_droploc f))] else [])
        else [])
     @ (if m_hold (gamemode c)
        then (if f_team f = 0 \<or> f_holdtime f = 0 then [- 1] else [f_team f, cdiv (holdcounter (lastmillis c) f) 100])
        else [])"

definition ctf_initclient :: "ctf \<Rightarrow> int list" where
  "ctf_initclient c = [N_INITFLAGS] @ take 2 (ctf_scores c) @ [int (length (flags c))]
     @ concat (map (initclient_flag c) (flags c))"

text \<open>\<^verbatim>\<open>parseflags\<close> reads the flags that a client found in its map; an overread ends the loop.\<close>

fun parseflags_loop :: "nat \<Rightarrow> int \<Rightarrow> bool \<Rightarrow> uchar databuf \<Rightarrow> ctf \<Rightarrow> uchar databuf \<times> ctf" where
  "parseflags_loop 0 i commit p c = (p, c)"
| "parseflags_loop (Suc k) i commit p c =
     (let (tm, p) = getint p; (x, p) = get_coord p; (y, p) = get_coord p; (z, p) = get_coord p;
          ofs = \<lparr>vx = x, vy = y, vz = z\<rparr>
      in if db_overread p then (p, c)
         else let c = (if commit \<and> notgotflags c
                       then (if m_hold (gamemode c) then snd (addholdspawn ofs c)
                             else snd (addflag i ofs (sint tm) (if m_protect (gamemode c) then lastmillis c else 0) c))
                       else c)
              in parseflags_loop k (i + 1) commit p c)"

definition parseflags :: "bool \<Rightarrow> uchar databuf \<Rightarrow> ctf \<Rightarrow> uchar databuf \<times> ctf" where
  "parseflags commit p c =
     (let (numflags, p) = getint p;
          (p, c) = parseflags_loop (nat (sint numflags)) 0 commit p c
      in if commit \<and> notgotflags c
         then (p, (if m_hold (gamemode c) then setupholdspawns c else c)\<lparr>notgotflags := False\<rparr>)
         else (p, c))"

text \<open>The cases of the message loop; \<open>ci\<close> sent the message and \<open>cq\<close> is the player it speaks for.\<close>

definition msg_trydropflag :: "clientinfo \<Rightarrow> clientinfo option \<Rightarrow> ctf \<Rightarrow> ctf" where
  "msg_trydropflag ci cq c = (case cq of Some q \<Rightarrow> if can_play ci then dropflag q None c else c | None \<Rightarrow> c)"

definition msg_takeflag :: "clientinfo \<Rightarrow> clientinfo option \<Rightarrow> uchar databuf \<Rightarrow> ctf \<Rightarrow> uchar databuf \<times> ctf" where
  "msg_takeflag ci cq p c =
     (let (flag, p) = getint p; (version, p) = getint p
      in (p, case cq of Some q \<Rightarrow> if can_play ci then takeflag q (sint flag) (sint version) c else c | None \<Rightarrow> c))"

definition msg_initflags :: "clientinfo \<Rightarrow> uchar databuf \<Rightarrow> ctf \<Rightarrow> uchar databuf \<times> ctf" where
  "msg_initflags ci = (\<lambda>p c. parseflags (can_play ci \<and> ci_clientmap ci = smapname c) p c)"

subsection \<open>What each operation leaves alone\<close>

lemma ctf_emit [simp]:
  "flags (emit e c) = flags c" "holdspawns (emit e c) = holdspawns c" "ctf_scores (emit e c) = ctf_scores c"
  "notgotflags (emit e c) = notgotflags c"
  by (simp_all add: emit_def)

lemma ctf_upd_client [simp]:
  "flags (upd_client cn g c) = flags c" "holdspawns (upd_client cn g c) = holdspawns c"
  "ctf_scores (upd_client cn g c) = ctf_scores c" "notgotflags (upd_client cn g c) = notgotflags c"
  by (simp_all add: upd_client_def)

lemma ctf_draw [simp]:
  "flags (snd (draw x c)) = flags c" "holdspawns (snd (draw x c)) = holdspawns c"
  "ctf_scores (snd (draw x c)) = ctf_scores c" "notgotflags (snd (draw x c)) = notgotflags c"
  by (simp_all add: draw_def case_prod_beta)

lemma ctf_team_ranks [simp]:
  "flags (calc_team_ranks t c) = flags c" "holdspawns (calc_team_ranks t c) = holdspawns c"
  "ctf_scores (calc_team_ranks t c) = ctf_scores c" "notgotflags (calc_team_ranks t c) = notgotflags c"
  "lastmillis (calc_team_ranks t c) = lastmillis c"
  by (simp_all add: calc_team_ranks_def)

lemma ctf_fold_team_ranks [simp]:
  "flags (fold (\<lambda>t. calc_team_ranks (Some t)) ts c) = flags c"
  "holdspawns (fold (\<lambda>t. calc_team_ranks (Some t)) ts c) = holdspawns c"
  "ctf_scores (fold (\<lambda>t. calc_team_ranks (Some t)) ts c) = ctf_scores c"
  "notgotflags (fold (\<lambda>t. calc_team_ranks (Some t)) ts c) = notgotflags c"
  "lastmillis (fold (\<lambda>t. calc_team_ranks (Some t)) ts c) = lastmillis c"
  by (induction ts arbitrary: c) simp_all

lemma ctf_startintermission [simp]:
  "flags (startintermission c) = flags c" "holdspawns (startintermission c) = holdspawns c"
  "ctf_scores (startintermission c) = ctf_scores c" "notgotflags (startintermission c) = notgotflags c"
  "lastmillis (startintermission c) = lastmillis c"
  by (simp_all add: startintermission_def enter_intermission_def calc_player_ranks_def Let_def)

lemma bump_simps [simp]:
  "gamemode (bump i c) = gamemode c" "lastmillis (bump i c) = lastmillis c"
  "holdspawns (bump i c) = holdspawns c" "ctf_scores (bump i c) = ctf_scores c"
  "notgotflags (bump i c) = notgotflags c" "clients (bump i c) = clients c"
  "flags (bump i c) = upd_nth i (\<lambda>f. f\<lparr>f_version := f_version f + 1\<rparr>) (flags c)"
  by (simp_all add: bump_def)

lemma returnflag_simps [simp]:
  "gamemode (returnflag i t c) = gamemode c" "lastmillis (returnflag i t c) = lastmillis c"
  "holdspawns (returnflag i t c) = holdspawns c" "ctf_scores (returnflag i t c) = ctf_scores c"
  "notgotflags (returnflag i t c) = notgotflags c" "clients (returnflag i t c) = clients c"
  "totalmillis (returnflag i t c) = totalmillis c"
  "flags (returnflag i t c) = upd_nth i (returnflag_f t) (flags c)"
  by (simp_all add: returnflag_def)

lemma addscore_simps [simp]:
  "flags (snd (addscore t n c)) = flags c" "gamemode (snd (addscore t n c)) = gamemode c"
  "lastmillis (snd (addscore t n c)) = lastmillis c" "holdspawns (snd (addscore t n c)) = holdspawns c"
  "notgotflags (snd (addscore t n c)) = notgotflags c" "length (ctf_scores (snd (addscore t n c))) = length (ctf_scores c)"
  "clients (snd (addscore t n c)) = clients c"
  by (simp_all add: addscore_def Let_def)

lemma spawnflag_draw_simps [simp]:
  "flags (snd (spawnflag_draw k cur n j c)) = flags c"
  "gamemode (snd (spawnflag_draw k cur n j c)) = gamemode c"
  "lastmillis (snd (spawnflag_draw k cur n j c)) = lastmillis c"
  "holdspawns (snd (spawnflag_draw k cur n j c)) = holdspawns c"
  "ctf_scores (snd (spawnflag_draw k cur n j c)) = ctf_scores c"
  "notgotflags (snd (spawnflag_draw k cur n j c)) = notgotflags c"
  "clients (snd (spawnflag_draw k cur n j c)) = clients c"
  by (induction k arbitrary: j c) (simp_all add: case_prod_beta)

lemma spawnflag_draw_range:
  "0 < k \<Longrightarrow> 0 < n \<Longrightarrow> 0 \<le> fst (spawnflag_draw k cur n j c) \<and> fst (spawnflag_draw k cur n j c) < n"
proof (induction k arbitrary: j c)
  case (Suc k)
  show ?case
    using Suc draw_bounds [of n c] by (cases k) (auto simp: case_prod_beta)
qed simp

lemma spawnflag_simps [simp]:
  "gamemode (spawnflag i c) = gamemode c" "lastmillis (spawnflag i c) = lastmillis c"
  "holdspawns (spawnflag i c) = holdspawns c" "ctf_scores (spawnflag i c) = ctf_scores c"
  "notgotflags (spawnflag i c) = notgotflags c" "clients (spawnflag i c) = clients c"
  by (simp_all add: spawnflag_def case_prod_beta Let_def)

lemma spawnflag_flags:
  "\<exists>j. flags (spawnflag i c) = upd_nth i (\<lambda>f. f\<lparr>f_spawnindex := j f\<rparr>) (flags c)
     \<and> ((\<forall>f. j f = f_spawnindex f) \<or> (\<forall>f. 0 \<le> j f \<and> j f < int (length (holdspawns c))))"
proof (cases "holdspawns c = []")
  case True
  then show ?thesis by (intro exI [of _ f_spawnindex]) (simp add: spawnflag_def)
next
  case False
  then show ?thesis
    using spawnflag_draw_range [of 4 "int (length (holdspawns c))" "f_spawnindex (get_flag i c)" "f_spawnindex (get_flag i c)" c]
    by (intro exI [of _ "\<lambda>_. fst (spawnflag_draw 4 (f_spawnindex (get_flag i c)) (int (length (holdspawns c)))
          (f_spawnindex (get_flag i c)) c)"]) (auto simp: spawnflag_def case_prod_beta Let_def)
qed

lemma reset_msg_simps [simp]:
  "gamemode (reset_msg i t n c) = gamemode c" "lastmillis (reset_msg i t n c) = lastmillis c"
  "holdspawns (reset_msg i t n c) = holdspawns c" "ctf_scores (reset_msg i t n c) = ctf_scores c"
  "notgotflags (reset_msg i t n c) = notgotflags c" "clients (reset_msg i t n c) = clients c"
  "flags (reset_msg i t n c) = upd_nth i (\<lambda>f. f\<lparr>f_version := f_version f + 1\<rparr>) (flags c)"
  by (simp_all add: reset_msg_def Let_def)

lemma return_msg_simps [simp]:
  "gamemode (return_msg cn i c) = gamemode c" "lastmillis (return_msg cn i c) = lastmillis c"
  "holdspawns (return_msg cn i c) = holdspawns c" "ctf_scores (return_msg cn i c) = ctf_scores c"
  "notgotflags (return_msg cn i c) = notgotflags c" "clients (return_msg cn i c) = clients c"
  "flags (return_msg cn i c) = upd_nth i (\<lambda>f. f\<lparr>f_version := f_version f + 1\<rparr>) (flags c)"
  by (simp_all add: return_msg_def Let_def)

lemma score_announce_simps:
  "flags (score_announce ci goal relay tm score tt c)
     = upd_nth goal (\<lambda>f. f\<lparr>f_version := f_version f + 1\<rparr>)
         (if relay \<ge> 0 then upd_nth relay (\<lambda>f. f\<lparr>f_version := f_version f + 1\<rparr>) (flags c) else flags c)"
  "gamemode (score_announce ci goal relay tm score tt c) = gamemode c"
  "lastmillis (score_announce ci goal relay tm score tt c) = lastmillis c"
  "holdspawns (score_announce ci goal relay tm score tt c) = holdspawns c"
  "ctf_scores (score_announce ci goal relay tm score tt c) = ctf_scores c"
  "notgotflags (score_announce ci goal relay tm score tt c) = notgotflags c"
  "clients (score_announce ci goal relay tm score tt c) = clients c"
  by (simp_all add: score_announce_def Let_def)

lemma respawn_hold_simps [simp]:
  "gamemode (respawn_hold i c) = gamemode c" "lastmillis (respawn_hold i c) = lastmillis c"
  "holdspawns (respawn_hold i c) = holdspawns c" "ctf_scores (respawn_hold i c) = ctf_scores c"
  "notgotflags (respawn_hold i c) = notgotflags c" "clients (respawn_hold i c) = clients c"
  by (simp_all add: respawn_hold_def)

lemma record_timetrial_simps [simp]:
  "flags (record_timetrial cn t c) = flags c" "gamemode (record_timetrial cn t c) = gamemode c"
  "lastmillis (record_timetrial cn t c) = lastmillis c" "holdspawns (record_timetrial cn t c) = holdspawns c"
  "ctf_scores (record_timetrial cn t c) = ctf_scores c" "notgotflags (record_timetrial cn t c) = notgotflags c"
  by (simp_all add: record_timetrial_def)

lemma ctf_upd_state [simp]:
  "flags (upd_state cn h c) = flags c" "gamemode (upd_state cn h c) = gamemode c"
  "lastmillis (upd_state cn h c) = lastmillis c" "holdspawns (upd_state cn h c) = holdspawns c"
  "ctf_scores (upd_state cn h c) = ctf_scores c" "notgotflags (upd_state cn h c) = notgotflags c"
  by (simp_all add: upd_state_def)

subsection \<open>Dropping flags\<close>

text \<open>What \<^verbatim>\<open>dropflag\<close> does to one flag, as a function of the flag.\<close>

definition dropped_f :: "int \<Rightarrow> int \<Rightarrow> clientinfo \<Rightarrow> clientinfo option \<Rightarrow> flag \<Rightarrow> flag" where
  "dropped_f g now ci dropper f =
     (if f_owner f \<noteq> ci_clientnum ci then f
      else if m_protect g \<and> insidebase f (gs_o (ci_state ci))
      then (returnflag_f 0 f)\<lparr>f_version := f_version f + 1\<rparr>
      else dropflag_f (quantise (gs_o (ci_state ci))) now
             (case dropper of Some d \<Rightarrow> ci_clientnum d | None \<Rightarrow> ci_clientnum ci)
             (case dropper of Some d \<Rightarrow> ci_clientnum d \<noteq> ci_clientnum ci | None \<Rightarrow> False)
             (f\<lparr>f_version := f_version f + 1\<rparr>))"

lemma dropflag_one_frame [simp]:
  "gamemode (dropflag_one ci d i c) = gamemode c" "lastmillis (dropflag_one ci d i c) = lastmillis c"
  "holdspawns (dropflag_one ci d i c) = holdspawns c" "ctf_scores (dropflag_one ci d i c) = ctf_scores c"
  "notgotflags (dropflag_one ci d i c) = notgotflags c" "clients (dropflag_one ci d i c) = clients c"
  by (simp_all add: dropflag_one_def dropflag_at_def Let_def)

lemma dropflag_one_flags:
  "inrange i (flags c)
    \<Longrightarrow> flags (dropflag_one ci d i c) = upd_nth i (dropped_f (gamemode c) (lastmillis c) ci d) (flags c)"
  by (auto simp: dropflag_one_def dropped_f_def dropflag_at_def returnflag_f_def Let_def
    intro!: upd_nth_cong intro: upd_nth_same [symmetric])

lemma dropflag_flags:
  "flags (dropflag ci d c) = (if notgotflags c then flags c
     else map (dropped_f (gamemode c) (lastmillis c) ci d) (flags c))"
  "gamemode (dropflag ci d c) = gamemode c" "lastmillis (dropflag ci d c) = lastmillis c"
  "holdspawns (dropflag ci d c) = holdspawns c" "ctf_scores (dropflag ci d c) = ctf_scores c"
  "notgotflags (dropflag ci d c) = notgotflags c" "clients (dropflag ci d c) = clients c"
proof -
  let ?P = "\<lambda>x. gamemode x = gamemode c \<and> lastmillis x = lastmillis c \<and> holdspawns x = holdspawns c
    \<and> ctf_scores x = ctf_scores c \<and> notgotflags x = notgotflags c \<and> clients x = clients c"
  have "flags (fold (dropflag_one ci d) (flag_indices c) c) = map (dropped_f (gamemode c) (lastmillis c) ci d) (flags c)
     \<and> ?P (fold (dropflag_one ci d) (flag_indices c) c)"
    by (rule fold_index_loop) (simp_all add: dropflag_one_flags inrange_def)
  then show "flags (dropflag ci d c) = (if notgotflags c then flags c
      else map (dropped_f (gamemode c) (lastmillis c) ci d) (flags c))"
    "gamemode (dropflag ci d c) = gamemode c" "lastmillis (dropflag ci d c) = lastmillis c"
    "holdspawns (dropflag ci d c) = holdspawns c" "ctf_scores (dropflag ci d c) = ctf_scores c"
    "notgotflags (dropflag ci d c) = notgotflags c" "clients (dropflag ci d c) = clients c"
    by (simp_all add: dropflag_def)
qed

lemma died_hold_flags:
  "flags (fold (\<lambda>i c. if f_owner (get_flag i c) = cn then deadflag i c else c) (flag_indices c) c)
     = map (\<lambda>f. if f_owner f = cn then deadflag_f (lastmillis c) f else f) (flags c)
   \<and> (let c' = fold (\<lambda>i c. if f_owner (get_flag i c) = cn then deadflag i c else c) (flag_indices c) c
      in gamemode c' = gamemode c \<and> lastmillis c' = lastmillis c \<and> holdspawns c' = holdspawns c
         \<and> ctf_scores c' = ctf_scores c \<and> notgotflags c' = notgotflags c \<and> ctftkpenalty c' = ctftkpenalty c)"
  unfolding Let_def
  by (rule fold_index_loop)
    (auto simp: deadflag_def inrange_def intro!: upd_nth_cong intro: upd_nth_same [symmetric])

text \<open>The flags after a death.\<close>

definition died_f :: "int \<Rightarrow> int \<Rightarrow> clientinfo \<Rightarrow> clientinfo option \<Rightarrow> flag \<Rightarrow> flag" where
  "died_f g now ci d f =
     (let f = (if m_hold g \<and> f_owner f = ci_clientnum ci then deadflag_f now f else f);
          f = dropped_f g now ci d f
      in if f_dropper f = ci_clientnum ci then f\<lparr>f_dropper := - 1, f_dropcount := 0\<rparr> else f)"

definition penalised :: "clientinfo \<Rightarrow> clientinfo option \<Rightarrow> ctf \<Rightarrow> clientinfo option" where
  "penalised ci actor c =
     (case actor of
        Some a \<Rightarrow> if ctftkpenalty c \<and> ci_clientnum a \<noteq> ci_clientnum ci
                      \<and> isteam (gamemode c) (ci_team a) (ci_team ci) then Some a else None
      | None \<Rightarrow> None)"

lemma ctf_died_flags:
  assumes "\<not> notgotflags c"
  shows "flags (ctf_died ci actor c) = map (died_f (gamemode c) (lastmillis c) ci (penalised ci actor c)) (flags c)"
    and "holdspawns (ctf_died ci actor c) = holdspawns c" and "ctf_scores (ctf_died ci actor c) = ctf_scores c"
    and "notgotflags (ctf_died ci actor c) = notgotflags c" and "gamemode (ctf_died ci actor c) = gamemode c"
    and "lastmillis (ctf_died ci actor c) = lastmillis c"
proof -
  let ?h = "fold (\<lambda>i c. if f_owner (get_flag i c) = ci_clientnum ci then deadflag i c else c) (flag_indices c) c"
  note h = died_hold_flags [of "ci_clientnum ci" c, unfolded Let_def]
  define c1 where "c1 = (if m_hold (gamemode c) then ?h else c)"
  have c1: "flags c1 = map (\<lambda>f. if m_hold (gamemode c) \<and> f_owner f = ci_clientnum ci then deadflag_f (lastmillis c) f else f) (flags c)"
    "gamemode c1 = gamemode c" "lastmillis c1 = lastmillis c" "holdspawns c1 = holdspawns c"
    "ctf_scores c1 = ctf_scores c" "notgotflags c1 = notgotflags c" "ctftkpenalty c1 = ctftkpenalty c"
    using h by (auto simp: c1_def)
  have "penalised ci actor c1 = penalised ci actor c" using c1 by (simp add: penalised_def cong: option.case_cong)
  then have "ctf_died ci actor c = forget_dropper (ci_clientnum ci) (dropflag ci (penalised ci actor c) c1)"
    using assms unfolding ctf_died_def c1_def [symmetric] Let_def by (simp add: penalised_def)
  then show "flags (ctf_died ci actor c) = map (died_f (gamemode c) (lastmillis c) ci (penalised ci actor c)) (flags c)"
    and "holdspawns (ctf_died ci actor c) = holdspawns c" and "ctf_scores (ctf_died ci actor c) = ctf_scores c"
    and "notgotflags (ctf_died ci actor c) = notgotflags c" and "gamemode (ctf_died ci actor c) = gamemode c"
    and "lastmillis (ctf_died ci actor c) = lastmillis c"
    using assms by (simp_all add: forget_dropper_def dropflag_flags c1 died_f_def Let_def)
qed

subsection \<open>The invariant of the flags\<close>

text \<open>A flag in somebody's hands is visible and has forgotten who dropped it; a place in a hold
  game is one of the places of the map.\<close>

definition flag_ok :: "nat \<Rightarrow> flag \<Rightarrow> bool" where
  "flag_ok hs f \<longleftrightarrow> - 1 \<le> f_owner f \<and> (0 \<le> f_owner f \<longrightarrow> f_invistime f = 0 \<and> f_dropper f = - 1)
     \<and> - 1 \<le> f_spawnindex f \<and> f_spawnindex f < int hs"

text \<open>No player owns two flags.\<close>

definition one_owner :: "flag list \<Rightarrow> bool" where
  "one_owner fs \<longleftrightarrow> (\<forall>i < length fs. \<forall>j < length fs. i \<noteq> j \<longrightarrow> 0 \<le> f_owner (fs ! i)
     \<longrightarrow> f_owner (fs ! i) \<noteq> f_owner (fs ! j))"

definition flags_inv :: "nat \<Rightarrow> flag list \<Rightarrow> bool" where
  "flags_inv hs fs \<longleftrightarrow> int (length fs) \<le> MAXFLAGS \<and> (\<forall>f \<in> set fs. flag_ok hs f) \<and> one_owner fs"

definition ctf_inv :: "ctf \<Rightarrow> bool" where
  "ctf_inv c \<longleftrightarrow> length (ctf_scores c) = 2 \<and> int (length (holdspawns c)) \<le> MAXHOLDSPAWNS
     \<and> flags_inv (length (holdspawns c)) (flags c)"

lemma one_owner_mono:
  assumes "one_owner xs" and "length xs \<le> length ys"
    and "\<And>i. i < length xs \<Longrightarrow> f_owner (ys ! i) = f_owner (xs ! i) \<or> f_owner (ys ! i) < 0"
    and "\<And>i. length xs \<le> i \<Longrightarrow> i < length ys \<Longrightarrow> f_owner (ys ! i) < 0"
  shows "one_owner ys"
  unfolding one_owner_def
proof (intro allI impI)
  fix i j assume *: "i < length ys" "j < length ys" "i \<noteq> j" "0 \<le> f_owner (ys ! i)"
  then have i: "i < length xs" using assms(4) [of i] by force
  then have oi: "f_owner (ys ! i) = f_owner (xs ! i)" using assms(3) [of i] * by auto
  show "f_owner (ys ! i) \<noteq> f_owner (ys ! j)"
  proof (cases "j < length xs")
    case True
    then show ?thesis using assms(1) assms(3) [of j] i oi * unfolding one_owner_def by force
  next
    case False
    then show ?thesis using assms(4) [of j] * by force
  qed
qed

text \<open>A change of a flag that keeps it well formed and does not give it a new owner.\<close>

definition releases :: "nat \<Rightarrow> (flag \<Rightarrow> flag) \<Rightarrow> bool" where
  "releases hs h \<longleftrightarrow> (\<forall>f. flag_ok hs f \<longrightarrow> flag_ok hs (h f) \<and> (f_owner (h f) = f_owner f \<or> f_owner (h f) < 0))"

lemma flags_inv_map [preserves]:
  assumes "flags_inv hs fs" and h: "releases hs h"
  shows "flags_inv hs (map h fs)"
proof -
  have "one_owner (map h fs)"
    by (rule one_owner_mono [of fs]) (use assms in \<open>auto simp: flags_inv_def releases_def\<close>)
  then show ?thesis using assms by (auto simp: flags_inv_def releases_def)
qed

lemma flags_inv_upd [preserves]:
  assumes "flags_inv hs fs" and h: "releases hs h"
  shows "flags_inv hs (upd_nth i h fs)"
proof -
  have ok: "flag_ok hs (fs ! j)" if "j < length fs" for j using assms(1) that by (auto simp: flags_inv_def)
  have "one_owner (upd_nth i h fs)"
  proof (rule one_owner_mono [of fs])
    show "one_owner fs" using assms(1) by (simp add: flags_inv_def)
    show "f_owner (upd_nth i h fs ! j) = f_owner (fs ! j) \<or> f_owner (upd_nth i h fs ! j) < 0"
      if "j < length fs" for j using ok [OF that] h that by (simp add: nth_upd_nth releases_def)
  qed auto
  then show ?thesis using assms set_upd_nth [of i h fs] by (auto simp: flags_inv_def releases_def)
qed

lemma flags_inv_own:
  assumes "flags_inv hs fs" and free: "\<forall>f \<in> set fs. f_owner f \<noteq> cn"
    and h: "\<And>f. flag_ok hs f \<Longrightarrow> flag_ok hs (h f) \<and> f_owner (h f) = cn"
  shows "flags_inv hs (upd_nth i h fs)"
proof -
  have "one_owner (upd_nth i h fs)"
    unfolding one_owner_def
  proof (intro allI impI)
    fix j k assume *: "j < length (upd_nth i h fs)" "k < length (upd_nth i h fs)" "j \<noteq> k" "0 \<le> f_owner (upd_nth i h fs ! j)"
    moreover have ok: "flag_ok hs (fs ! j)" "flag_ok hs (fs ! k)" "f_owner (fs ! j) \<noteq> cn" "f_owner (fs ! k) \<noteq> cn"
      using assms(1) free * by (auto simp: flags_inv_def)
    moreover have "0 \<le> f_owner (fs ! j) \<longrightarrow> f_owner (fs ! j) \<noteq> f_owner (fs ! k)"
      using assms(1) * unfolding flags_inv_def one_owner_def by auto
    ultimately show "f_owner (upd_nth i h fs ! j) \<noteq> f_owner (upd_nth i h fs ! k)"
      using h [OF ok(1)] h [OF ok(2)] by (auto simp: nth_upd_nth)
  qed
  then show ?thesis using assms(1) h set_upd_nth [of i h fs] unfolding flags_inv_def by auto
qed

lemma flag_ok_steps:
  "flag_ok hs f \<Longrightarrow> flag_ok hs (returnflag_f t f) \<and> f_owner (returnflag_f t f) < 0"
  "flag_ok hs f \<Longrightarrow> flag_ok hs (dropflag_f ofs t d pen f) \<and> f_owner (dropflag_f ofs t d pen f) < 0"
  "flag_ok hs f \<Longrightarrow> flag_ok hs (deadflag_f t f) \<and> f_owner (deadflag_f t f) = f_owner f"
  "flag_ok hs (f\<lparr>f_version := v\<rparr>) = flag_ok hs f"
  "flag_ok hs (f\<lparr>f_tmillis := v\<rparr>) = flag_ok hs f"
  "flag_ok hs f \<Longrightarrow> flag_ok hs (f\<lparr>f_invistime := 0\<rparr>)"
  "0 \<le> cn \<Longrightarrow> flag_ok hs f \<Longrightarrow> flag_ok hs (ownflag_f cn t tm f) \<and> f_owner (ownflag_f cn t tm f) = cn"
  by (auto simp: flag_ok_def returnflag_f_def dropflag_f_def deadflag_f_def ownflag_f_def Let_def)

lemma releases_steps [preserves]:
  "releases hs (returnflag_f t)" "releases hs (\<lambda>f. f\<lparr>f_version := f_version f + 1\<rparr>)"
  "releases hs (\<lambda>f. f\<lparr>f_invistime := 0\<rparr>)" "releases hs (\<lambda>f. f\<lparr>f_tmillis := t\<rparr>)"
  "releases hs (\<lambda>f. if f_dropper f = d then f\<lparr>f_dropper := - 1, f_dropcount := 0\<rparr> else f)"
  by (auto simp: releases_def flag_ok_steps) (auto simp: flag_ok_def)

lemma spawnflag_inv [preserves]:
  assumes "flags_inv (length (holdspawns c)) (flags c)"
  shows "flags_inv (length (holdspawns c)) (flags (spawnflag i c))"
proof -
  obtain j where j: "flags (spawnflag i c) = upd_nth i (\<lambda>f. f\<lparr>f_spawnindex := j f\<rparr>) (flags c)"
    "(\<forall>f. j f = f_spawnindex f) \<or> (\<forall>f. 0 \<le> j f \<and> j f < int (length (holdspawns c)))"
    using spawnflag_flags [of i c] by blast
  have "- 1 \<le> j f \<and> j f < int (length (holdspawns c))" if "flag_ok (length (holdspawns c)) f" for f
    using j(2) that by (auto simp: flag_ok_def dest: spec [of _ f])
  then have "releases (length (holdspawns c)) (\<lambda>f. f\<lparr>f_spawnindex := j f\<rparr>)"
    by (auto simp: releases_def flag_ok_def)
  then show ?thesis unfolding j(1) by (rule flags_inv_upd [OF assms])
qed

lemma releases_dropped [preserves]: "releases hs (dropped_f g now ci d)"
  unfolding releases_def dropped_f_def
  using flag_ok_steps(1) [of hs _ 0] flag_ok_steps(2) [of hs "_ \<lparr>f_version := _\<rparr>"]
  by (auto simp: flag_ok_steps(4))

lemma releases_died [preserves]: "releases hs (died_f g now ci d)"
  unfolding releases_def
proof (intro allI impI)
  fix f assume ok: "flag_ok hs f"
  define f1 where "f1 = (if m_hold g \<and> f_owner f = ci_clientnum ci then deadflag_f now f else f)"
  define f2 where "f2 = dropped_f g now ci d f1"
  have "flag_ok hs f1" "f_owner f1 = f_owner f" using ok flag_ok_steps(3) by (auto simp: f1_def)
  then have "flag_ok hs f2" "f_owner f2 = f_owner f \<or> f_owner f2 < 0"
    using releases_dropped [of hs g now ci d] unfolding releases_def f2_def by auto
  then show "flag_ok hs (died_f g now ci d f) \<and> (f_owner (died_f g now ci d f) = f_owner f \<or> f_owner (died_f g now ci d f) < 0)"
    unfolding died_f_def f1_def [symmetric] Let_def f2_def [symmetric] by (auto simp: flag_ok_def)
qed

lemma dropflag_inv [preserves]: "ctf_inv c \<Longrightarrow> ctf_inv (dropflag ci d c)"
  unfolding ctf_inv_def by (simp add: dropflag_flags flags_inv_map releases_dropped)

lemma forget_dropper_inv [preserves]: "ctf_inv c \<Longrightarrow> ctf_inv (forget_dropper cn c)"
  unfolding ctf_inv_def forget_dropper_def by (simp add: flags_inv_map releases_steps)

lemma ctf_died_inv [preserves]: "ctf_inv c \<Longrightarrow> ctf_inv (ctf_died ci actor c)"
proof (cases "notgotflags c")
  case True
  then show "ctf_inv c \<Longrightarrow> ?thesis" by (simp add: ctf_died_def)
next
  case False
  then show "ctf_inv c \<Longrightarrow> ?thesis" by (simp add: ctf_inv_def ctf_died_flags flags_inv_map releases_died)
qed

lemma returnflag_inv [preserves]: "ctf_inv c \<Longrightarrow> ctf_inv (returnflag i t c)"
  by (simp add: ctf_inv_def flags_inv_upd releases_steps)

lemma bump_inv [preserves]: "ctf_inv c \<Longrightarrow> ctf_inv (bump i c)"
  by (simp add: ctf_inv_def flags_inv_upd releases_steps)

lemma msg_inv [preserves]:
  "ctf_inv c \<Longrightarrow> ctf_inv (return_msg cn i c)" "ctf_inv c \<Longrightarrow> ctf_inv (reset_msg i t n c)"
  by (simp_all add: ctf_inv_def flags_inv_upd releases_steps)

lemma addscore_inv [preserves]: "ctf_inv c \<Longrightarrow> ctf_inv (snd (addscore t n c))"
  by (simp add: ctf_inv_def)

lemma spawnflag_ctf_inv [preserves]: "ctf_inv c \<Longrightarrow> ctf_inv (spawnflag i c)"
  by (simp add: ctf_inv_def spawnflag_inv)

lemma frame_inv [simp]:
  "ctf_inv (emit e c) = ctf_inv c" "ctf_inv (upd_client cn g c) = ctf_inv c"
  "ctf_inv (upd_state cn h c) = ctf_inv c" "ctf_inv (startintermission c) = ctf_inv c"
  by (simp_all add: ctf_inv_def upd_state_def)

lemma respawn_hold_inv [preserves]: "ctf_inv c \<Longrightarrow> ctf_inv (respawn_hold i c)"
  by (simp add: respawn_hold_def spawnflag_ctf_inv)

lemma score_announce_inv [preserves]: "ctf_inv c \<Longrightarrow> ctf_inv (score_announce ci goal relay tm score tt c)"
  by (simp add: ctf_inv_def score_announce_simps flags_inv_upd releases_steps)

lemma scoreflag_inv [preserves]: "ctf_inv c \<Longrightarrow> ctf_inv (scoreflag ci goal relay c)"
  by (simp add: scoreflag_def Let_def case_prod_beta score_announce_inv respawn_hold_inv addscore_inv returnflag_inv
    record_timetrial_def)

lemma owned_flag_None: "owned_flag cn c = None \<longleftrightarrow> (\<forall>f \<in> set (flags c). f_owner f \<noteq> cn)"
  by (auto simp: owned_flag_def find_None_iff all_set_conv_all_nth)

lemma owned_flag_Some:
  assumes "owned_flag cn c = Some j"
  shows "inrange j (flags c) \<and> f_owner (get_flag j c) = cn"
  using assms unfolding owned_flag_def by (auto simp: find_Some_iff inrange_def)

lemma ownflag_f_simps [simp]:
  "f_version (ownflag_f cn t tm f) = f_version f" "f_drops (ownflag_f cn t tm f) = f_drops f"
  "f_owner (ownflag_f cn t tm f) = cn"
  by (simp_all add: ownflag_f_def Let_def)

lemma take_own_simps:
  "flags (take_own cn i tm c) = upd_nth i (\<lambda>f. let f = (ownflag_f cn (lastmillis c) tm f)\<lparr>f_version := f_version f + 1\<rparr>
      in if f_drops f = 0 then f\<lparr>f_tmillis := totalmillis c\<rparr> else f) (flags c)"
  "holdspawns (take_own cn i tm c) = holdspawns c" "ctf_scores (take_own cn i tm c) = ctf_scores c"
  "gamemode (take_own cn i tm c) = gamemode c" "notgotflags (take_own cn i tm c) = notgotflags c"
  by (simp_all add: take_own_def ownflag_def bump_def Let_def cong: if_cong)

lemma take_own_inv [preserves]:
  assumes "ctf_inv c" and "owned_flag cn c = None" and "0 \<le> cn"
  shows "ctf_inv (take_own cn i tm c)"
proof -
  have "flags_inv (length (holdspawns c)) (flags (take_own cn i tm c))"
    unfolding take_own_simps
  proof (rule flags_inv_own [where cn = cn])
    fix f assume "flag_ok (length (holdspawns c)) f"
    then show "flag_ok (length (holdspawns c)) (let f = (ownflag_f cn (lastmillis c) tm f)\<lparr>f_version := f_version f + 1\<rparr>
        in if f_drops f = 0 then f\<lparr>f_tmillis := totalmillis c\<rparr> else f)
      \<and> f_owner (let f = (ownflag_f cn (lastmillis c) tm f)\<lparr>f_version := f_version f + 1\<rparr>
        in if f_drops f = 0 then f\<lparr>f_tmillis := totalmillis c\<rparr> else f) = cn"
      using assms(3) by (simp add: Let_def flag_ok_steps)
  qed (use assms in \<open>simp_all add: ctf_inv_def owned_flag_None\<close>)
  then show ?thesis using assms(1) by (simp add: ctf_inv_def take_own_simps)
qed

lemma takeflag_inv [preserves]:
  assumes "ctf_inv c" and "0 \<le> ci_clientnum ci"
  shows "ctf_inv (takeflag ci i version c)"
  using assms by (simp add: takeflag_def Let_def take_own_inv scoreflag_inv msg_inv returnflag_inv split: option.split)

lemma update_inv [preserves]:
  assumes "ctf_inv c"
  shows "ctf_inv (update_dropped i c)" "ctf_inv (update_invis i c)" "ctf_inv (update_hold i c)"
proof -
  show "ctf_inv (update_dropped i c)"
    using assms by (simp add: update_dropped_def Let_def case_prod_beta msg_inv addscore_inv spawnflag_ctf_inv returnflag_inv)
  show "ctf_inv (update_invis i c)"
    using assms by (simp add: update_invis_def Let_def ctf_inv_def flags_inv_upd releases_steps)
  show "ctf_inv (update_hold i c)"
    using assms by (simp add: update_hold_def Let_def scoreflag_inv msg_inv spawnflag_ctf_inv split: option.split)
qed

lemma ctf_update_inv [preserves]:
  assumes "ctf_inv c"
  shows "ctf_inv (ctf_update c)"
proof -
  have "ctf_inv (fold (\<lambda>i c. update_hold i (update_invis i (update_dropped i c))) js c)" if "ctf_inv c" for js c
    using that by (induction js arbitrary: c) (simp_all add: update_inv)
  then show ?thesis using assms unfolding ctf_update_def by simp
qed

lemma flag_ok_new: "flag_ok hs flag_new" "f_owner flag_new < 0"
  by (simp_all add: flag_ok_def flag_new_def flag_reset_def)

lemma flags_inv_extend:
  assumes "flags_inv hs fs" and "int (length fs + n) \<le> MAXFLAGS"
  shows "flags_inv hs (fs @ replicate n flag_new)"
proof -
  have "one_owner (fs @ replicate n flag_new)"
    by (rule one_owner_mono [of fs]) (use assms flag_ok_new in \<open>auto simp: flags_inv_def nth_append\<close>)
  then show ?thesis using assms flag_ok_new(1) by (auto simp: flags_inv_def)
qed

lemma addflag_inv [preserves]:
  assumes "ctf_inv c"
  shows "ctf_inv (snd (addflag i ofs tm t c))"
proof (cases "i < 0 \<or> i \<ge> MAXFLAGS")
  case True
  then show ?thesis using assms by (auto simp: addflag_def)
next
  case False
  let ?fs = "flags c @ replicate (nat (i + 1) - length (flags c)) flag_new"
  have "flags_inv (length (holdspawns c)) ?fs"
    by (rule flags_inv_extend) (use assms False in \<open>auto simp: ctf_inv_def flags_inv_def\<close>)
  then have "flags_inv (length (holdspawns c)) (upd_nth i (\<lambda>f. (flag_reset (f\<lparr>f_id := i\<rparr>))
      \<lparr>f_team := tm, f_spawnloc := ofs, f_invistime := t\<rparr>) ?fs)"
    by (rule flags_inv_upd) (auto simp: releases_def flag_ok_def flag_reset_def)
  then show ?thesis using assms False by (simp add: addflag_def ctf_inv_def Let_def)
qed

lemma addholdspawn_inv [preserves]:
  assumes "ctf_inv c"
  shows "ctf_inv (snd (addholdspawn ofs c))"
proof -
  have "flags_inv (Suc n) fs" if "flags_inv n fs" for n fs
    using that by (auto simp: flags_inv_def flag_ok_def)
  then show ?thesis using assms by (auto simp: addholdspawn_def ctf_inv_def)
qed

lemma setupholdspawns_inv [preserves]: "ctf_inv c \<Longrightarrow> ctf_inv (setupholdspawns c)"
proof -
  have "ctf_inv c \<Longrightarrow> ctf_inv (setupholdspawns_loop k c)" for k c
    by (induction k arbitrary: c)
      (simp_all add: case_prod_beta Let_def addflag_inv msg_inv spawnflag_ctf_inv)
  then show "ctf_inv c \<Longrightarrow> ctf_inv (setupholdspawns c)" by (simp add: setupholdspawns_def)
qed

lemma ctf_reset_inv [preserves]: "ctf_inv (ctf_reset b c)"
  by (simp add: ctf_inv_def ctf_reset_def resetflags_def flags_inv_def one_owner_def)

lemma setup_lists_inv [preserves]:
  "ctf_inv c \<Longrightarrow> ctf_inv (setup_holdspawns es c)" "ctf_inv c \<Longrightarrow> ctf_inv (setup_flags es c)"
proof -
  show "ctf_inv c \<Longrightarrow> ctf_inv (setup_holdspawns es c)"
    by (induction es arbitrary: c) (simp_all add: case_prod_beta addholdspawn_inv)
  show "ctf_inv c \<Longrightarrow> ctf_inv (setup_flags es c)"
    by (induction es arbitrary: c) (simp_all add: case_prod_beta addflag_inv)
qed

lemma notgotflags_inv [simp]: "ctf_inv (c\<lparr>notgotflags := b\<rparr>) = ctf_inv c"
  by (simp add: ctf_inv_def)

lemma ctf_setup_inv [preserves]: "ctf_inv (ctf_setup c)"
  using ctf_reset_inv [of False c]
  by (simp add: ctf_setup_def Let_def setupholdspawns_inv setup_lists_inv)

lemma parseflags_inv [preserves]:
  assumes "ctf_inv c"
  shows "ctf_inv (snd (parseflags commit p c))"
proof -
  have "ctf_inv c \<Longrightarrow> ctf_inv (snd (parseflags_loop k i commit p c))" for k i p c commit
    by (induction k arbitrary: i p c)
      (simp_all add: case_prod_beta Let_def addflag_inv addholdspawn_inv)
  then show ?thesis using assms by (simp add: parseflags_def case_prod_beta Let_def setupholdspawns_inv)
qed

subsection \<open>Runs of the mode\<close>

text \<open>One step of a game: a call of any handler of the mode by the server, for a client with a
  valid number, or any change of the rest of the server.\<close>

inductive ctf_step :: "ctf \<Rightarrow> ctf \<Rightarrow> bool" where
  set_up: "ctf_step c (ctf_setup c)"
| newmap: "ctf_step c (ctf_newmap c)"
| cleanup: "ctf_step c (ctf_cleanup c)"
| leave: "ctf_step c (ctf_leavegame ci c)"
| died: "ctf_step c (ctf_died ci actor c)"
| changeteam: "ctf_step c (ctf_changeteam ci c)"
| trydrop: "ctf_step c (msg_trydropflag ci cq c)"
| take: "(\<And>q. cq = Some q \<Longrightarrow> 0 \<le> ci_clientnum q) \<Longrightarrow> ctf_step c (snd (msg_takeflag ci cq p c))"
| init: "ctf_step c (snd (msg_initflags ci p c))"
| update: "ctf_step c (ctf_update c)"
| server: "flags c' = flags c \<Longrightarrow> holdspawns c' = holdspawns c \<Longrightarrow> ctf_scores c' = ctf_scores c
    \<Longrightarrow> notgotflags c' = notgotflags c \<Longrightarrow> ctf_step c c'"

inductive ctf_reachable :: "ctf \<Rightarrow> bool" where
  start: "ctf_reachable (ctf_reset b c)"
| step: "ctf_reachable c \<Longrightarrow> ctf_step c c' \<Longrightarrow> ctf_reachable c'"

inductive_cases ctf_stepE: "ctf_step c c'"

lemma ctf_step_inv: "ctf_step c c' \<Longrightarrow> ctf_inv c \<Longrightarrow> ctf_inv c'"
proof (induction rule: ctf_step.induct)
  case (server c' c)
  then show ?case by (simp add: ctf_inv_def)
qed (auto simp: ctf_setup_inv ctf_newmap_def ctf_cleanup_def ctf_reset_inv ctf_leavegame_def forget_dropper_inv
  dropflag_inv ctf_died_inv ctf_changeteam_def msg_trydropflag_def msg_takeflag_def msg_initflags_def
  case_prod_beta takeflag_inv parseflags_inv ctf_update_inv split: option.split)

lemma ctf_reachable_inv: "ctf_reachable c \<Longrightarrow> ctf_inv c"
  by (induction rule: ctf_reachable.induct) (auto intro: ctf_step_inv ctf_reset_inv)

subsection \<open>Properties\<close>

lemma respawn_hold_flag:
  assumes "inrange j (flags c)"
  shows "f_version (flags (respawn_hold i c) ! nat j) = f_version (flags c ! nat j)
    \<and> length (flags (respawn_hold i c)) = length (flags c)
    \<and> f_owner (flags (respawn_hold i c) ! nat j) = f_owner (flags c ! nat j)
    \<and> f_droptime (flags (respawn_hold i c) ! nat j) = f_droptime (flags c ! nat j)
    \<and> f_invistime (flags (respawn_hold i c) ! nat j) = f_invistime (flags c ! nat j)"
  using spawnflag_flags [of i c] assms by (cases "i = j") (auto simp: respawn_hold_def)

lemma scoreflag_version:
  assumes "inrange goal (flags c)" "relay \<noteq> goal"
  shows "f_version (get_flag goal (scoreflag ci goal relay c)) = f_version (get_flag goal c) + 1"
  using assms
  by (cases "relay < 0")
    (auto simp: scoreflag_def Let_def case_prod_beta score_announce_simps respawn_hold_flag inrange_def returnflag_f_def)

lemma takeflag_bumps:
  assumes "takeflag ci i v c \<noteq> c" and "0 \<le> ci_clientnum ci"
  shows "\<not> take_refused ci i v c \<and> f_version (get_flag i (takeflag ci i v c)) = v + 1"
proof -
  have nr: "\<not> take_refused ci i v c" using assms(1) by (auto simp: takeflag_def)
  then have r: "inrange i (flags c)" "i \<noteq> - 1" and v: "f_version (get_flag i c) = v" and o: "f_owner (get_flag i c) < 0"
    by (auto simp: take_refused_def Let_def inrange_def)
  have j: "j \<noteq> i" if "owned_flag (ci_clientnum ci) c = Some j" for j
    using owned_flag_Some [OF that] o assms(2) by (auto simp: inrange_def)
  have "f_version (get_flag i (takeflag ci i v c)) = v + 1"
    using assms(1) nr r v j
    by (auto simp: takeflag_def Let_def take_own_simps scoreflag_version returnflag_f_def split: option.splits if_splits)
  with nr show ?thesis by simp
qed

text \<open>C4: when two players claim the same flag with the same version, which is what they see when
  both touch it in the same moment, only the first claim has an effect. A claim that has an
  effect raises the version, so every other claim made with the old one is refused.\<close>

theorem takeflag_once:
  assumes "takeflag ci i v c \<noteq> c" and "0 \<le> ci_clientnum ci"
  shows "f_version (get_flag i (takeflag ci i v c)) = v + 1
    \<and> takeflag ci' i v (takeflag ci i v c) = takeflag ci i v c"
  using takeflag_bumps [OF assms] by (auto simp: takeflag_def [of ci'] take_refused_def Let_def)

text \<open>C3: in every reachable state of a flag game there are at most \<open>MAXFLAGS\<close> flags, a player holds
  at most one of them, and a flag that is held is visible and nobody's dropped flag.\<close>

theorem ctf_reachable_safe:
  assumes "ctf_reachable c"
  shows "int (length (flags c)) \<le> MAXFLAGS \<and> length (ctf_scores c) = 2
    \<and> (\<forall>i < length (flags c). 0 \<le> f_owner (flags c ! i) \<longrightarrow>
         (\<forall>j < length (flags c). f_owner (flags c ! j) = f_owner (flags c ! i) \<longrightarrow> j = i)
         \<and> f_invistime (flags c ! i) = 0 \<and> f_dropper (flags c ! i) = - 1)"
proof -
  have inv: "ctf_inv c" by (rule ctf_reachable_inv [OF assms])
  then have oo: "one_owner (flags c)" and ok: "flag_ok (length (holdspawns c)) (flags c ! i)" if "i < length (flags c)" for i
    using that by (simp_all add: ctf_inv_def flags_inv_def)
  have "j = i" if "i < length (flags c)" "0 \<le> f_owner (flags c ! i)" "j < length (flags c)" "f_owner (flags c ! j) = f_owner (flags c ! i)" for i j
    using oo [OF that(1)] that unfolding one_owner_def by metis
  then show ?thesis using inv ok by (auto simp: ctf_inv_def flags_inv_def flag_ok_def)
qed

definition sample_ctf :: ctf where
  "sample_ctf = world.extend (sample_world\<lparr>ments :=
     [\<lparr>e_o = vec0, e_attr1 = 0, e_attr2 = 1, e_type = FLAG\<rparr>,
      \<lparr>e_o = vec0\<lparr>vx := 512\<rparr>, e_attr1 = 0, e_attr2 = 2, e_type = FLAG\<rparr>]\<rparr>)
     (ctf.fields [] [] [0, 0] True)"

text \<open>The packet of a client that claims flag 1 with version 0.\<close>

definition claim_packet :: "uchar databuf" where
  "claim_packet = databuf_new [1, 0] 2"

definition ctf_example :: ctf where
  "ctf_example = snd (msg_takeflag (sample_client 0 ''good'' 3) (Some (sample_client 0 ''good'' 3)) claim_packet
     (ctf_setup sample_ctf))"

lemma ctf_example_flags: "length (flags ctf_example) = 2 \<and> f_owner (flags ctf_example ! 1) = 0"
  by code_simp

lemma setup_example:
  "f_version (get_flag 1 (ctf_setup sample_ctf)) = 0"
  "f_version (get_flag 1 (takeflag (sample_client 0 ''good'' 3) 1 0 (ctf_setup sample_ctf))) = 1"
  "\<not> notgotflags ctf_example" "ctftkpenalty ctf_example" "m_teammode (gamemode ctf_example)"
  "\<not> m_protect (gamemode ctf_example)" "lastmillis ctf_example \<noteq> 0"
  "gamemillis ctf_example < gamelimit ctf_example"
  by code_simp+

theorem takeflag_once_witness:
  "takeflag (sample_client 2 ''good'' 7) 1 0 (takeflag (sample_client 0 ''good'' 3) 1 0 (ctf_setup sample_ctf))
   = takeflag (sample_client 0 ''good'' 3) 1 0 (ctf_setup sample_ctf)"
proof -
  have "takeflag (sample_client 0 ''good'' 3) 1 0 (ctf_setup sample_ctf) \<noteq> ctf_setup sample_ctf"
    using setup_example(1,2) by (metis zero_neq_one)
  from takeflag_once [OF this, of "sample_client 2 ''good'' 7"] show ?thesis by (simp add: sample_client_def)
qed

theorem ctf_reachable_safe_witness:
  "ctf_reachable ctf_example \<and> f_owner (flags ctf_example ! 1) = 0 \<and> f_owner (flags ctf_example ! 0) \<noteq> 0"
proof -
  have "ctf_reachable (ctf_setup (ctf_reset False sample_ctf))"
    by (rule ctf_reachable.step [OF ctf_reachable.start ctf_step.set_up])
  then have "ctf_reachable (ctf_setup sample_ctf)"
    by (simp add: ctf_setup_def ctf_reset_def resetflags_def)
  then have "ctf_reachable ctf_example"
    unfolding ctf_example_def by (rule ctf_reachable.step) (auto intro!: ctf_step.take simp: sample_client_def)
  moreover from ctf_reachable_safe [OF this] ctf_example_flags
  have "\<forall>j < length (flags ctf_example). f_owner (flags ctf_example ! j) = f_owner (flags ctf_example ! 1) \<longrightarrow> j = 1"
    by (metis one_less_numeral_iff order_refl semiring_norm(76))
  then have "f_owner (flags ctf_example ! 0) = 0 \<longrightarrow> (0::nat) = 1" using ctf_example_flags by (auto dest: spec [of _ 0])
  ultimately show ?thesis using ctf_example_flags by simp
qed

text \<open>Dropping takes every flag out of the hands of its player and touches no other flag. In
  protect mode a flag that is dropped inside its own base returns at once; otherwise it lies at
  the player's position as the wire format represents it, from now on, and can be claimed only
  under a new version.\<close>

lemma dropflag_releases:
  fixes ci :: clientinfo
  assumes "\<not> notgotflags c" and "i < length (flags c)"
  defines "f \<equiv> flags c ! i" and "f' \<equiv> flags (dropflag ci None c) ! i"
  shows "(f_owner f \<noteq> ci_clientnum ci \<longrightarrow> f' = f)
    \<and> (f_owner f = ci_clientnum ci \<longrightarrow> f_owner f' = - 1 \<and> f_version f' = f_version f + 1
         \<and> (if m_protect (gamemode c) \<and> insidebase f (gs_o (ci_state ci))
            then f_droptime f' = 0 \<and> f_drops f' = 0
            else f_droploc f' = quantise (gs_o (ci_state ci)) \<and> f_droptime f' = lastmillis c
                 \<and> f_dropper f' = ci_clientnum ci \<and> f_drops f' = f_drops f + 1))"
  using assms(1,2) by (simp add: f_def f'_def dropflag_flags dropped_f_def returnflag_f_def dropflag_f_def Let_def)

text \<open>A player who kills the flag carrier of its own team cannot take the flag that fell,
  whatever version it claims: the flag remembers the killer with the largest drop count.\<close>

lemma teamkill_penalty:
  assumes "\<not> notgotflags c" and "ctftkpenalty c" and "i < length (flags c)"
    and "f_owner (flags c ! i) = ci_clientnum ci"
    and "ci_clientnum a \<noteq> ci_clientnum ci" and "isteam (gamemode c) (ci_team a) (ci_team ci)"
    and "\<not> (m_protect (gamemode c) \<and> insidebase (flags c ! i) (gs_o (ci_state ci)))"
    and "lastmillis c \<noteq> 0" and "0 \<le> ci_clientnum a"
  shows "takeflag a (int i) v (ctf_died ci (Some a) c) = ctf_died ci (Some a) c"
proof -
  have pen: "penalised ci (Some a) c = Some a" using assms by (simp add: penalised_def)
  define f where "f = (if m_hold (gamemode c) then deadflag_f (lastmillis c) (flags c ! i) else flags c ! i)"
  have f: "insidebase f x = insidebase (flags c ! i) x" "f_owner f = ci_clientnum ci" for x
    using assms(4) by (simp_all add: f_def deadflag_f_def Let_def insidebase_def)
  have "f_droptime f' \<noteq> 0 \<and> f_dropper f' = ci_clientnum a \<and> f_dropcount f' \<ge> 3"
    if "f' = died_f (gamemode c) (lastmillis c) ci (Some a) (flags c ! i)" for f'
  proof -
    have "f' = (let f = dropped_f (gamemode c) (lastmillis c) ci (Some a) f
        in if f_dropper f = ci_clientnum ci then f\<lparr>f_dropper := - 1, f_dropcount := 0\<rparr> else f)"
      unfolding that died_f_def f_def using assms(4) by (simp add: Let_def)
    moreover have "dropped_f (gamemode c) (lastmillis c) ci (Some a) f
        = dropflag_f (quantise (gs_o (ci_state ci))) (lastmillis c) (ci_clientnum a) True (f\<lparr>f_version := f_version f + 1\<rparr>)"
      using assms(5,7) f by (auto simp: dropped_f_def)
    ultimately show ?thesis using assms(5,8,9) by (simp add: dropflag_f_def Let_def INT_MAX_def)
  qed
  then show ?thesis using assms(1,3)
    by (auto simp: takeflag_def take_refused_def ctf_died_flags pen Let_def)
qed

text \<open>The part of the server that decides about the intermission.\<close>

definition clock :: "ctf \<Rightarrow> int \<times> int \<times> int \<times> int \<times> (int \<Rightarrow> int \<Rightarrow> int)" where
  "clock c = (gamelimit c, gamemillis c, interm c, intermtime c, timeupdate_hook c)"

lemma clock_draws: "clock (snd (spawnflag_draw k cur n j c)) = clock c"
  by (induction k arbitrary: j c) (simp_all add: case_prod_beta clock_def draw_def)

lemma clock_simps [simp]:
  "clock (record_timetrial cn t c) = clock c" "clock (returnflag i t c) = clock c"
  "clock (upd_state cn h c) = clock c" "clock (snd (addscore tm n c)) = clock c"
  "clock (respawn_hold i c) = clock c" "clock (score_announce ci goal relay tm score tt c) = clock c"
  using clock_draws [unfolded clock_def]
  by (simp_all add: clock_def record_timetrial_def returnflag_def upd_state_def addscore_def Let_def respawn_hold_def
    spawnflag_def case_prod_beta score_announce_def bump_def)

text \<open>C32: a score gives the team of the scorer exactly one point and the scorer one flag, the other
  team and the other players keep theirs, the carried flag is back in nobody's hands, and with
  the tenth point the game ends unless a script extends it.\<close>

theorem scoreflag_counts:
  fixes ci :: clientinfo
  assumes "length (ctf_scores c) = 2" and "tm = 1 \<or> tm = 2" and "ctfteamflag (ci_team ci) = tm"
    and "inrange goal (flags c)" and "relay = - 1 \<or> inrange relay (flags c)"
  defines "c' \<equiv> scoreflag ci goal relay c" and "idx \<equiv> (if relay \<ge> 0 then relay else goal)"
  shows "totalscore tm c' = totalscore tm c + 1 \<and> totalscore (3 - tm) c' = totalscore (3 - tm) c
    \<and> map (\<lambda>x. gs_flags (ci_state x)) (clients c')
        = map (\<lambda>x. gs_flags (ci_state x) + (if ci_clientnum x = ci_clientnum ci then 1 else 0)) (clients c)
    \<and> f_owner (get_flag idx c') = - 1 \<and> f_droptime (get_flag idx c') = 0
    \<and> (totalscore tm c' \<ge> FLAGLIMIT \<and> interm c = 0
         \<and> timeupdate_hook c (min (gamelimit c) (gamemillis c)) (gamemillis c) \<le> gamemillis c
       \<longrightarrow> interm c' = gamemillis c + intermtime c \<and> gamelimit c' \<le> gamemillis c)"
proof -
  define c1 where "c1 = record_timetrial (ci_clientnum ci)
    (if f_tmillis (get_flag idx c) > - 1 then totalmillis c - f_tmillis (get_flag idx c) else - 1) c"
  define c2 where "c2 = upd_state (ci_clientnum ci) (\<lambda>s. s\<lparr>gs_flags := gs_flags s + 1\<rparr>)
    (returnflag idx (if m_protect (gamemode c1) then lastmillis c1 else 0) c1)"
  define c3 where "c3 = snd (addscore tm 1 c2)"
  define score where "score = fst (addscore tm 1 c2)"
  define c4 where "c4 = score_announce ci goal relay tm score
    (if f_tmillis (get_flag idx c) > - 1 then totalmillis c - f_tmillis (get_flag idx c) else - 1) (respawn_hold goal c3)"
  have c': "c' = (if score \<ge> FLAGLIMIT then startintermission c4 else c4)"
    unfolding c'_def scoreflag_def c4_def c3_def score_def c2_def c1_def idx_def assms(3) by (simp add: Let_def case_prod_beta)
  have sc: "score = totalscore tm c + 1" "ctf_scores c' = (ctf_scores c)[nat (tm - 1) := totalscore tm c + 1]"
    unfolding c' c4_def c3_def score_def c2_def c1_def using assms(2)
    by (auto simp: addscore_def totalscore_def Let_def score_announce_simps)
  have cl: "clock c4 = clock c" by (simp add: c4_def c3_def c2_def c1_def)
  have fl: "flags c' = flags c4" by (simp add: c')
  have idx: "inrange idx (flags c)" using assms(4,5) by (auto simp: idx_def inrange_def)
  then have "inrange idx (flags c3)" by (simp add: c3_def c2_def c1_def)
  then have "f_owner (get_flag idx c4) = f_owner (get_flag idx c3) \<and> f_droptime (get_flag idx c4) = f_droptime (get_flag idx c3)"
    unfolding c4_def using respawn_hold_flag [of idx c3 goal]
    by (cases "idx = goal"; cases "idx = relay") (auto simp: score_announce_simps inrange_def)
  then have own: "f_owner (get_flag idx c') = - 1 \<and> f_droptime (get_flag idx c') = 0"
    using idx by (simp add: fl c3_def c2_def c1_def returnflag_f_def)
  have "map (\<lambda>x. gs_flags (ci_state x)) (clients c') = map (\<lambda>x. gs_flags (ci_state x)) (clients c4)"
    by (simp add: c' map_clients_startintermission)
  also have "\<dots> = map (\<lambda>x. gs_flags (ci_state x) + (if ci_clientnum x = ci_clientnum ci then 1 else 0)) (clients c)"
    by (simp add: c4_def c3_def c2_def c1_def score_announce_simps upd_state_def record_timetrial_def upd_client_def)
  finally have pl: "map (\<lambda>x. gs_flags (ci_state x)) (clients c')
    = map (\<lambda>x. gs_flags (ci_state x) + (if ci_clientnum x = ci_clientnum ci then 1 else 0)) (clients c)" .
  have "interm c' = gamemillis c + intermtime c \<and> gamelimit c' \<le> gamemillis c"
    if "score \<ge> FLAGLIMIT" "interm c = 0" "timeupdate_hook c (min (gamelimit c) (gamemillis c)) (gamemillis c) \<le> gamemillis c"
    using startintermission_ends [of c4] cl that by (simp add: c' clock_def)
  then show ?thesis using sc own pl assms(1,2) by (auto simp: totalscore_def)
qed

theorem scoreflag_counts_witness:
  "totalscore 1 (scoreflag (sample_client 0 ''good'' 3) 0 1 ctf_example) = totalscore 1 ctf_example + 1"
proof -
  have "length (ctf_scores ctf_example) = 2" "ctfteamflag (ci_team (sample_client 0 ''good'' 3)) = 1" by code_simp+
  then show ?thesis
    using scoreflag_counts [of ctf_example 1 "sample_client 0 ''good'' 3" 0 1] ctf_example_flags by (simp add: inrange_def)
qed

interpretation ctf_scores: team_scores "\<lambda>c t. getteamscore t c" getteamscores ctf_inv
proof
  fix c :: ctf and t n
  assume "ctf_inv c"
  then obtain a b where ab: "ctf_scores c = [a, b]"
    by (auto simp: ctf_inv_def length_Suc_conv numeral_2_eq_2)
  show "(t, n) \<in> set (getteamscores c) \<Longrightarrow> n = getteamscore t c"
    using ab by (auto simp: getteamscores_def getteamscore_def ctfflagteam_def ctfteamflag_def totalscore_def split: if_splits)
  show "getteamscore t c \<noteq> 0 \<Longrightarrow> t \<in> fst ` set (getteamscores c)"
    using ab by (auto simp: getteamscores_def getteamscore_def ctfflagteam_def ctfteamflag_def totalscore_def split: if_splits)
  show "distinct (map fst (getteamscores c))"
    by (auto simp: getteamscores_def ctfflagteam_def)
qed

subsection \<open>Time limits\<close>

definition flag_timely :: "int \<Rightarrow> flag \<Rightarrow> bool" where
  "flag_timely now f \<longleftrightarrow> (f_owner f < 0 \<and> f_droptime f \<noteq> 0 \<longrightarrow> now - f_droptime f < RESETFLAGTIME)
     \<and> (f_invistime f \<noteq> 0 \<longrightarrow> now - f_invistime f < INVISFLAGTIME)"

lemma spawnflag_nth:
  assumes "inrange i (flags c)" "j < length (flags c)"
  shows "length (flags (spawnflag i c)) = length (flags c)
    \<and> (\<exists>x. flags (spawnflag i c) ! j = (flags c ! j)\<lparr>f_spawnindex := x\<rparr>)
    \<and> (int j \<noteq> i \<longrightarrow> flags (spawnflag i c) ! j = flags c ! j)"
proof -
  obtain h where h: "flags (spawnflag i c) = upd_nth i (\<lambda>f. f\<lparr>f_spawnindex := h f\<rparr>) (flags c)"
    using spawnflag_flags by blast
  have "\<exists>x. f = f\<lparr>f_spawnindex := x\<rparr>" for f :: flag by (rule exI [of _ "f_spawnindex f"]) simp
  with h assms show ?thesis by (auto simp: nth_upd_nth)
qed

lemma update_dropped_nth:
  assumes "j < length (flags c)" "i < length (flags c)"
  shows "length (flags (update_dropped (int i) c)) = length (flags c)
    \<and> (j \<noteq> i \<longrightarrow> flags (update_dropped (int i) c) ! j = flags c ! j)
    \<and> lastmillis (update_dropped (int i) c) = lastmillis c \<and> gamemode (update_dropped (int i) c) = gamemode c
    \<and> (f_owner (flags (update_dropped (int i) c) ! i) < 0 \<and> f_droptime (flags (update_dropped (int i) c) ! i) \<noteq> 0
       \<longrightarrow> lastmillis c - f_droptime (flags (update_dropped (int i) c) ! i) < RESETFLAGTIME)"
proof (cases "f_owner (flags c ! i) < 0 \<and> f_droptime (flags c ! i) \<noteq> 0 \<and> lastmillis c - f_droptime (flags c ! i) \<ge> RESETFLAGTIME")
  case False
  then show ?thesis using assms by (auto simp: update_dropped_def)
next
  case True
  define c1 where "c1 = returnflag (int i) (if m_protect (gamemode c) then lastmillis c else 0) c"
  define c2 where "c2 = (if m_hold (gamemode c) then spawnflag (int i) c1 else c1)"
  define r where "r = (if m_hold (gamemode c) then (0, c2) else addscore (f_team (flags c ! i)) (if m_protect (gamemode c) then - 1 else 0) c2)"
  have eq: "update_dropped (int i) c = reset_msg (int i) (if m_hold (gamemode c) then 0 else f_team (flags c ! i)) (fst r) (snd r)"
    using True unfolding update_dropped_def r_def c2_def c1_def by (simp add: Let_def case_prod_beta)
  have c1: "flags c1 = upd_nth (int i) (returnflag_f (if m_protect (gamemode c) then lastmillis c else 0)) (flags c)"
    by (simp add: c1_def)
  have "flags (snd r) = flags c2" "lastmillis (snd r) = lastmillis c" "gamemode (snd r) = gamemode c"
    by (simp_all add: r_def c2_def c1_def)
  moreover have "length (flags c2) = length (flags c)" "j \<noteq> i \<longrightarrow> flags c2 ! j = flags c ! j" "f_droptime (flags c2 ! i) = 0"
    using assms spawnflag_nth [of "int i" c1 j] spawnflag_nth [of "int i" c1 i]
    by (auto simp: c2_def c1 inrange_def nth_upd_nth returnflag_f_def)
  ultimately show ?thesis using assms unfolding eq by (auto simp: nth_upd_nth)
qed

lemma respawn_hold_nth:
  assumes "i < length (flags c)" "j < length (flags c)"
  shows "length (flags (respawn_hold (int i) c)) = length (flags c)
    \<and> (j \<noteq> i \<longrightarrow> flags (respawn_hold (int i) c) ! j = flags c ! j)
    \<and> f_droptime (flags (respawn_hold (int i) c) ! j) = f_droptime (flags c ! j)
    \<and> f_invistime (flags (respawn_hold (int i) c) ! j) = f_invistime (flags c ! j)"
  using assms spawnflag_nth [of "int i" c j] by (auto simp: respawn_hold_def inrange_def)

lemma scoreflag_nth:
  assumes "i < length (flags c)" "j < length (flags c)"
  shows "length (flags (scoreflag ci (int i) (- 1) c)) = length (flags c)
    \<and> (j \<noteq> i \<longrightarrow> flags (scoreflag ci (int i) (- 1) c) ! j = flags c ! j)
    \<and> lastmillis (scoreflag ci (int i) (- 1) c) = lastmillis c \<and> gamemode (scoreflag ci (int i) (- 1) c) = gamemode c
    \<and> f_droptime (flags (scoreflag ci (int i) (- 1) c) ! i) = 0
    \<and> (f_invistime (flags (scoreflag ci (int i) (- 1) c) ! i) = 0 \<or> f_invistime (flags (scoreflag ci (int i) (- 1) c) ! i) = lastmillis c)"
proof -
  define c3 where "c3 = snd (addscore (ctfteamflag (ci_team ci)) 1 (upd_state (ci_clientnum ci) (\<lambda>s. s\<lparr>gs_flags := gs_flags s + 1\<rparr>)
    (returnflag (int i) (if m_protect (gamemode c) then lastmillis c else 0)
      (record_timetrial (ci_clientnum ci) (if f_tmillis (flags c ! i) > - 1 then totalmillis c - f_tmillis (flags c ! i) else - 1) c))))"
  have c3: "flags c3 = upd_nth (int i) (returnflag_f (if m_protect (gamemode c) then lastmillis c else 0)) (flags c)"
    "lastmillis c3 = lastmillis c" "gamemode c3 = gamemode c" by (simp_all add: c3_def)
  have fl: "flags (scoreflag ci (int i) (- 1) c) = upd_nth (int i) (\<lambda>f. f\<lparr>f_version := f_version f + 1\<rparr>) (flags (respawn_hold (int i) c3))"
    "lastmillis (scoreflag ci (int i) (- 1) c) = lastmillis c3" "gamemode (scoreflag ci (int i) (- 1) c) = gamemode c3"
    unfolding scoreflag_def c3_def by (simp_all add: Let_def case_prod_beta score_announce_simps)
  have "length (flags c3) = length (flags c)" "j \<noteq> i \<longrightarrow> flags c3 ! j = flags c ! j" "f_droptime (flags c3 ! i) = 0"
    "f_invistime (flags c3 ! i) = 0 \<or> f_invistime (flags c3 ! i) = lastmillis c"
    using assms by (simp_all add: c3 nth_upd_nth returnflag_f_def)
  then show ?thesis using respawn_hold_nth [of i c3 j] respawn_hold_nth [of i c3 i] assms
    unfolding fl by (simp add: nth_upd_nth c3)
qed

lemma update_invis_nth:
  assumes "j < length (flags c)" "i < length (flags c)"
  shows "length (flags (update_invis (int i) c)) = length (flags c)
    \<and> (j \<noteq> i \<longrightarrow> flags (update_invis (int i) c) ! j = flags c ! j)
    \<and> lastmillis (update_invis (int i) c) = lastmillis c \<and> gamemode (update_invis (int i) c) = gamemode c
    \<and> f_owner (flags (update_invis (int i) c) ! i) = f_owner (flags c ! i)
    \<and> f_droptime (flags (update_invis (int i) c) ! i) = f_droptime (flags c ! i)
    \<and> (f_invistime (flags (update_invis (int i) c) ! i) \<noteq> 0
       \<longrightarrow> lastmillis c - f_invistime (flags (update_invis (int i) c) ! i) < INVISFLAGTIME)"
  using assms by (auto simp: update_invis_def Let_def nth_upd_nth)

lemma update_hold_nth:
  assumes "j < length (flags c)" "i < length (flags c)" "flag_timely (lastmillis c) (flags c ! i)"
  shows "length (flags (update_hold (int i) c)) = length (flags c)
    \<and> (j \<noteq> i \<longrightarrow> flags (update_hold (int i) c) ! j = flags c ! j)
    \<and> lastmillis (update_hold (int i) c) = lastmillis c \<and> gamemode (update_hold (int i) c) = gamemode c
    \<and> flag_timely (lastmillis c) (flags (update_hold (int i) c) ! i)"
proof (cases "m_hold (gamemode c) \<and> f_owner (flags c ! i) \<ge> 0 \<and> lastmillis c - f_holdtime (flags c ! i) \<ge> HOLDSECS * 1000")
  case False
  then show ?thesis using assms by (auto simp: update_hold_def)
next
  case True
  show ?thesis
  proof (cases "getinfo (f_owner (flags c ! i)) c")
    case None
    then have "update_hold (int i) c = reset_msg (int i) 0 0 (spawnflag (int i) c)"
      using True by (simp add: update_hold_def)
    then show ?thesis using assms spawnflag_nth [of "int i" c j] spawnflag_nth [of "int i" c i]
      by (auto simp: inrange_def nth_upd_nth flag_timely_def)
  next
    case (Some ci)
    then have eq: "update_hold (int i) c = scoreflag ci (int i) (- 1) c" using True by (simp add: update_hold_def)
    show ?thesis using scoreflag_nth [OF assms(2,1), of ci] unfolding eq by (auto simp: flag_timely_def)
  qed
qed

text \<open>C33: after the periodic update of a running flag game no flag has been lying on the ground for
  \<open>RESETFLAGTIME\<close> and no flag has been invisible for \<open>INVISFLAGTIME\<close>: a lost flag always
  comes back.\<close>

theorem ctf_update_timely:
  assumes "gamemillis c < gamelimit c" and "\<not> notgotflags c" and "j < length (flags c)"
  shows "flag_timely (lastmillis c) (flags (ctf_update c) ! j)"
proof -
  let ?op = "\<lambda>i c. update_hold i (update_invis i (update_dropped i c))"
  have "\<forall>j < length (flags c). flag_timely (lastmillis c) (flags (fold ?op (flag_indices c) c) ! j)"
  proof (rule fold_index_establish [where P = "\<lambda>x. lastmillis x = lastmillis c"])
    fix i and s :: ctf
    assume i: "i < length (flags s)" and t: "lastmillis s = lastmillis c"
    let ?d = "update_dropped (int i) s"
    let ?v = "update_invis (int i) ?d"
    note d = update_dropped_nth [OF _ i]
    have id: "i < length (flags ?d)" "lastmillis ?d = lastmillis c" using d [OF i] i t by simp_all
    note v = update_invis_nth [OF _ id(1)]
    have iv: "i < length (flags ?v)" "lastmillis ?v = lastmillis c" using v [OF id(1)] id by simp_all
    have tim: "flag_timely (lastmillis ?v) (flags ?v ! i)"
      using d [OF i] v [OF id(1)] id(2) iv t by (simp add: flag_timely_def)
    note h = update_hold_nth [OF _ iv(1) tim]
    have "flags (?op (int i) s) ! k = flags s ! k" if "k < length (flags s)" "k \<noteq> i" for k
      using d [OF that(1)] v [of k] h [of k] that by simp
    then show "length (flags (?op (int i) s)) = length (flags s)
        \<and> (\<forall>k < length (flags s). k \<noteq> i \<longrightarrow> flags (?op (int i) s) ! k = flags s ! k)
        \<and> flag_timely (lastmillis c) (flags (?op (int i) s) ! i) \<and> lastmillis (?op (int i) s) = lastmillis c"
      using d [OF i] v [OF id(1)] h [OF iv(1)] iv t by simp
  qed simp
  then show ?thesis using assms by (simp add: ctf_update_def)
qed

theorem ctf_update_timely_witness: "flag_timely (lastmillis ctf_example) (flags (ctf_update ctf_example) ! 1)"
  using ctf_update_timely [of ctf_example 1] setup_example ctf_example_flags by simp

end
