(* ===== verification/Capture.thy ===== *)
theory Capture
  imports World Netcodec
begin

text \<open>
  The capture modes of \<^verbatim>\<open>src/src/fpsgame/capture.h\<close> as the server compiles them
  (\<^verbatim>\<open>captureservmode\<close>): the bases with their occupation state machine, the team scores,
  and every handler of the mode as a function of the world extended by the bases.
\<close>

subsection \<open>Bases\<close>

abbreviation (input) CAPTURERADIUS :: int where "CAPTURERADIUS \<equiv> 64"
abbreviation (input) CAPTUREHEIGHT :: int where "CAPTUREHEIGHT \<equiv> 24"
abbreviation (input) OCCUPYBONUS :: int where "OCCUPYBONUS \<equiv> 1"
abbreviation (input) OCCUPYPOINTS :: int where "OCCUPYPOINTS \<equiv> 1"
abbreviation (input) OCCUPYENEMYLIMIT :: int where "OCCUPYENEMYLIMIT \<equiv> 28"
abbreviation (input) OCCUPYNEUTRALLIMIT :: int where "OCCUPYNEUTRALLIMIT \<equiv> 14"
abbreviation (input) SCORESECS :: int where "SCORESECS \<equiv> 10"
abbreviation (input) AMMOSECS :: int where "AMMOSECS \<equiv> 15"
abbreviation (input) REGENSECS :: int where "REGENSECS \<equiv> 1"
abbreviation (input) REGENHEALTH :: int where "REGENHEALTH \<equiv> 10"
abbreviation (input) REGENARMOUR :: int where "REGENARMOUR \<equiv> 10"
abbreviation (input) REGENAMMO :: int where "REGENAMMO \<equiv> 20"
abbreviation (input) MAXAMMO :: int where "MAXAMMO \<equiv> 5"
abbreviation (input) CAP_RESPAWNSECS :: int where "CAP_RESPAWNSECS \<equiv> 5"
abbreviation (input) MAXBASES :: int where "MAXBASES \<equiv> 100"

record baseinfo =
  b_o :: vec
  b_owner :: cstr
  b_enemy :: cstr
  b_ammogroup :: int
  b_ammotype :: int
  b_tag :: int
  b_ammo :: int
  b_owners :: int
  b_enemies :: int
  b_converted :: int
  b_capturetime :: int

definition base_valid :: "baseinfo \<Rightarrow> bool" where
  "base_valid b \<longleftrightarrow> b_ammotype b > 0 \<and> b_ammotype b \<le> I_CARTRIDGES - I_SHELLS + 1"

definition noenemy :: "baseinfo \<Rightarrow> baseinfo" where
  "noenemy b = b\<lparr>b_enemy := [], b_enemies := 0, b_converted := 0\<rparr>"

definition base_reset :: "baseinfo \<Rightarrow> baseinfo" where
  "base_reset b = (noenemy b)\<lparr>b_owner := [], b_capturetime := - 1, b_ammogroup := 0, b_ammotype := 0,
     b_tag := - 1, b_ammo := 0, b_owners := 0\<rparr>"

definition base_new :: baseinfo where
  "base_new = base_reset \<lparr>b_o = vec0, b_owner = [], b_enemy = [], b_ammogroup = 0, b_ammotype = 0, b_tag = 0,
     b_ammo = 0, b_owners = 0, b_enemies = 0, b_converted = 0, b_capturetime = 0\<rparr>"

definition base_enter :: "cstr \<Rightarrow> baseinfo \<Rightarrow> bool \<times> baseinfo" where
  "base_enter team b =
     (if b_owner b = team then (False, b\<lparr>b_owners := b_owners b + 1\<rparr>)
      else if b_enemies b = 0
      then let b = (if b_enemy b \<noteq> team then b\<lparr>b_converted := 0, b_enemy := team\<rparr> else b)
           in (True, b\<lparr>b_enemies := b_enemies b + 1\<rparr>)
      else if b_enemy b \<noteq> team then (False, b)
      else (False, b\<lparr>b_enemies := b_enemies b + 1\<rparr>))"

definition base_steal :: "cstr \<Rightarrow> baseinfo \<Rightarrow> bool" where
  "base_steal team b \<longleftrightarrow> b_enemies b = 0 \<and> b_owner b \<noteq> team"

definition base_leave :: "cstr \<Rightarrow> baseinfo \<Rightarrow> bool \<times> baseinfo" where
  "base_leave team b =
     (if b_owner b = team \<and> b_owners b > 0 then (False, b\<lparr>b_owners := b_owners b - 1\<rparr>)
      else if b_enemy b \<noteq> team \<or> b_enemies b \<le> 0 then (False, b)
      else let b = b\<lparr>b_enemies := b_enemies b - 1\<rparr> in (b_enemies b = 0, b))"

definition base_occupy :: "cstr \<Rightarrow> int \<Rightarrow> baseinfo \<Rightarrow> int \<times> baseinfo" where
  "base_occupy team units b =
     (if b_enemy b \<noteq> team then (- 1, b)
      else let b = b\<lparr>b_converted := b_converted b + units\<rparr>
        in if units < 0 then (- 1, if b_converted b \<le> 0 then noenemy b else b)
           else if b_converted b < (if b_owner b \<noteq> [] then OCCUPYENEMYLIMIT else OCCUPYNEUTRALLIMIT) then (- 1, b)
           else if b_owner b \<noteq> [] then (0, b\<lparr>b_owner := [], b_converted := 0, b_enemy := team\<rparr>)
           else (1, noenemy (b\<lparr>b_owner := team, b_ammo := 0, b_capturetime := 0, b_owners := b_enemies b\<rparr>)))"

definition base_addammo :: "int \<Rightarrow> baseinfo \<Rightarrow> bool \<times> baseinfo" where
  "base_addammo i b = (if b_ammo b \<ge> MAXAMMO then (False, b)
     else (True, b\<lparr>b_ammo := min (b_ammo b + i) MAXAMMO\<rparr>))"

definition base_takeammo :: "cstr \<Rightarrow> baseinfo \<Rightarrow> bool \<times> baseinfo" where
  "base_takeammo team b = (if b_owner b \<noteq> team \<or> b_ammo b \<le> 0 then (False, b)
     else (True, b\<lparr>b_ammo := b_ammo b - 1\<rparr>))"

record capture = world +
  bases :: "baseinfo list"
  cap_scores :: "(cstr \<times> int) list"
  captures :: int
  notgotbases :: bool

abbreviation upd_base :: "int \<Rightarrow> (baseinfo \<Rightarrow> baseinfo) \<Rightarrow> capture \<Rightarrow> capture" where
  "upd_base i g c \<equiv> c\<lparr>bases := upd_nth i g (bases c)\<rparr>"

abbreviation get_base :: "int \<Rightarrow> capture \<Rightarrow> baseinfo" where
  "get_base i c \<equiv> bases c ! nat i"

abbreviation base_indices :: "capture \<Rightarrow> int list" where
  "base_indices c \<equiv> map int [0..<length (bases c)]"

definition resetbases :: "capture \<Rightarrow> capture" where
  "resetbases c = c\<lparr>bases := [], cap_scores := [], captures := 0\<rparr>"

subsection \<open>Scores\<close>

definition cap_getteamscore :: "cstr \<Rightarrow> capture \<Rightarrow> int" where
  "cap_getteamscore team c = (case find (\<lambda>s. fst s = team) (cap_scores c) of Some s \<Rightarrow> snd s | None \<Rightarrow> 0)"

definition cap_getteamscores :: "capture \<Rightarrow> (cstr \<times> int) list" where
  "cap_getteamscores c = map (\<lambda>s. (fst s, snd s)) (cap_scores c)"

text \<open>\<^verbatim>\<open>findscore\<close> returns a reference to the score of a team, new if need be; here the update
  that is made through the reference is applied to the list.\<close>

fun upd_score :: "cstr \<Rightarrow> (int \<Rightarrow> int) \<Rightarrow> (cstr \<times> int) list \<Rightarrow> (cstr \<times> int) list" where
  "upd_score team f [] = [(team, f 0)]"
| "upd_score team f (s # ss) = (if fst s = team then (fst s, f (snd s)) # ss else s # upd_score team f ss)"

definition cap_addscore :: "int \<Rightarrow> cstr \<Rightarrow> int \<Rightarrow> capture \<Rightarrow> capture" where
  "cap_addscore base team n c =
     (if n = 0 then c
      else let c = c\<lparr>cap_scores := upd_score team (\<lambda>t. t + n) (cap_scores c)\<rparr>;
               total = cap_getteamscore team c;
               c = emit (sendf (- 1) 1 [MI N_BASESCORE, MI base, MS team, MI total]) c
           in emit (Event ''scoreupdate'' [MS (utf8 c team), MI total]) c)"

subsection \<open>Set-up\<close>

text \<open>The ammunition of a base in a group: that of the group if it has one, otherwise one of the
  least used types.\<close>

definition group_uses :: "baseinfo list \<Rightarrow> int list" where
  "group_uses bs = map (\<lambda>t. int (length (filter (\<lambda>i. b_ammogroup (bs ! i) \<noteq> 0
       \<and> (\<forall>j < i. b_ammogroup (bs ! j) \<noteq> b_ammogroup (bs ! i))
       \<and> b_ammotype (bs ! i) - 1 = t) [0..<length bs]))) [0..I_GRENADES - I_SHELLS]"

definition group_avail :: "int list \<Rightarrow> int list" where
  "group_avail uses = map (\<lambda>i. int i + 1) (filter (\<lambda>i. uses ! i = Min (set uses)) [0..<length uses])"

definition addbase :: "int \<Rightarrow> vec \<Rightarrow> capture \<Rightarrow> capture" where
  "addbase ammotype ofs c =
     (if int (length (bases c)) \<ge> MAXBASES then c
      else let prior = bases c;
               (t, c) = (if ammotype > 0 then (ammotype, c)
                         else let (r, c) = draw (I_GRENADES - I_SHELLS + 1) c in (r + 1, c));
               g = min ammotype 0;
               (t, c) = (if g = 0 then (t, c)
                         else case find (\<lambda>b. b_ammogroup b = g) prior of
                                Some b \<Rightarrow> (b_ammotype b, c)
                              | None \<Rightarrow> let avail = group_avail (group_uses prior);
                                            (r, c) = draw (int (length avail)) c
                                        in (avail ! nat r, c))
           in c\<lparr>bases := bases c @ [base_new\<lparr>b_ammogroup := g, b_ammotype := t, b_o := ofs\<rparr>]\<rparr>)"

definition initbase :: "int \<Rightarrow> int \<Rightarrow> cstr \<Rightarrow> cstr \<Rightarrow> int \<Rightarrow> int \<Rightarrow> capture \<Rightarrow> capture" where
  "initbase i ammotype owner enemy converted am c = (if \<not> inrange i (bases c) then c
     else upd_base i (\<lambda>b. b\<lparr>b_ammotype := ammotype, b_owner := owner, b_enemy := enemy, b_converted := converted,
            b_ammo := am\<rparr>) c)"

definition hasbases :: "cstr \<Rightarrow> capture \<Rightarrow> bool" where
  "hasbases team c \<longleftrightarrow> (\<exists>b \<in> set (bases c). b_owner b \<noteq> [] \<and> b_owner b = team)"

definition cap_insidebase :: "baseinfo \<Rightarrow> vec \<Rightarrow> bool" where
  "cap_insidebase b ofs \<longleftrightarrow>
     (let dx = vx (b_o b) - vx ofs; dy = vy (b_o b) - vy ofs; dz = vz (b_o b) - vz ofs
      in dx * dx + dy * dy \<le> of_int (CAPTURERADIUS * CAPTURERADIUS) \<and> \<bar>dz\<bar> \<le> of_int CAPTUREHEIGHT)"

definition cap_reset :: "bool \<Rightarrow> capture \<Rightarrow> capture" where
  "cap_reset isempty c = (resetbases c)\<lparr>notgotbases := \<not> isempty\<rparr>"

definition cap_cleanup :: "capture \<Rightarrow> capture" where
  "cap_cleanup = cap_reset False"

definition cap_newmap :: "capture \<Rightarrow> capture" where
  "cap_newmap = cap_reset True"

definition sendbaseinfo :: "int \<Rightarrow> capture \<Rightarrow> capture" where
  "sendbaseinfo i c = (let b = get_base i c
     in emit (sendf (- 1) 1 [MI N_BASEINFO, MI i, MS (b_owner b), MS (b_enemy b),
          MI (if b_enemy b \<noteq> [] then b_converted b else 0), MI (if b_owner b \<noteq> [] then b_ammo b else 0)]) c)"

definition cap_initclient :: "bool \<Rightarrow> capture \<Rightarrow> marg list" where
  "cap_initclient connecting c =
     (if connecting then concat (map (\<lambda>s. [MI N_BASESCORE, MI (- 1), MS (fst s), MI (snd s)]) (cap_scores c)) else [])
     @ [MI N_BASES, MI (int (length (bases c)))]
     @ concat (map (\<lambda>b. [MI (b_ammotype b), MS (b_owner b), MS (b_enemy b), MI (b_converted b), MI (b_ammo b)]) (bases c))"

definition sendbases :: "capture \<Rightarrow> capture" where
  "sendbases c = emit (sendf (- 1) 1 (cap_initclient False c)) c"

subsection \<open>Players and bases\<close>

definition stealbase :: "int \<Rightarrow> cstr \<Rightarrow> capture \<Rightarrow> capture" where
  "stealbase n team c =
     (let present = filter (\<lambda>ci. gs_state (ci_state ci) = CS_ALIVE \<and> ci_team ci \<noteq> [] \<and> ci_team ci = team
            \<and> cap_insidebase (get_base n c) (gs_o (ci_state ci))) (clients c)
      in sendbaseinfo n (upd_base n (\<lambda>b. fold (\<lambda>ci b. snd (base_enter (ci_team ci) b)) present b) c))"

definition gs_hasmaxammo :: "int \<Rightarrow> gamestate \<Rightarrow> bool" where
  "gs_hasmaxammo type s = hasmaxammo type (fpsstate.truncate s)"

fun replenish_from :: "clientinfo \<Rightarrow> int list \<Rightarrow> capture \<Rightarrow> capture" where
  "replenish_from ci [] c = c"
| "replenish_from ci (i # is) c =
     (let b = get_base i c
      in if base_valid b \<and> cap_insidebase b (gs_o (ci_state ci))
            \<and> \<not> gs_hasmaxammo (b_ammotype b - 1 + I_SHELLS) (ci_state ci) \<and> fst (base_takeammo (ci_team ci) b)
         then let c = upd_base i (\<lambda>b. snd (base_takeammo (ci_team ci) b)) c;
                  c = sendbaseinfo i c;
                  c = emit (sendf (- 1) 1 [MI N_REPAMMO, MI (ci_clientnum ci), MI (b_ammotype b)]) c
              in upd_state (ci_clientnum ci) (on_fps (addammo (b_ammotype b) 1 1)) c
         else replenish_from ci is c)"

definition replenishammo :: "clientinfo \<Rightarrow> capture \<Rightarrow> capture" where
  "replenishammo ci c =
     (if m_noitems (gamemode c) \<or> notgotbases c \<or> gs_state (ci_state ci) \<noteq> CS_ALIVE \<or> ci_team ci = [] then c
      else replenish_from ci (base_indices c) c)"

definition movebase_one :: "cstr \<Rightarrow> vec \<Rightarrow> bool \<Rightarrow> vec \<Rightarrow> bool \<Rightarrow> int \<Rightarrow> capture \<Rightarrow> capture" where
  "movebase_one team oldpos oldclip newpos newclip i c =
     (let b = get_base i c
      in if \<not> base_valid b then c
         else let leave = (\<not> oldclip \<and> cap_insidebase b oldpos); enter = (\<not> newclip \<and> cap_insidebase b newpos)
           in if leave \<and> \<not> enter
              then (let c' = upd_base i (\<lambda>b. snd (base_leave team b)) c
                    in if fst (base_leave team b) then sendbaseinfo i c' else c')
              else if enter \<and> \<not> leave
              then (let c' = upd_base i (\<lambda>b. snd (base_enter team b)) c
                    in if fst (base_enter team b) then sendbaseinfo i c' else c')
              else if leave \<and> enter \<and> base_steal team b then stealbase i team c
              else c)"

definition movebases :: "cstr \<Rightarrow> vec \<Rightarrow> bool \<Rightarrow> vec \<Rightarrow> bool \<Rightarrow> capture \<Rightarrow> capture" where
  "movebases team oldpos oldclip newpos newclip c =
     (if team = [] \<or> gamemillis c \<ge> gamelimit c then c
      else fold (movebase_one team oldpos oldclip newpos newclip) (base_indices c) c)"

definition leavebases :: "cstr \<Rightarrow> vec \<Rightarrow> capture \<Rightarrow> capture" where
  "leavebases team ofs = movebases team ofs False vec_nowhere True"

definition enterbases :: "cstr \<Rightarrow> vec \<Rightarrow> capture \<Rightarrow> capture" where
  "enterbases team ofs = movebases team vec_nowhere True ofs False"

definition cap_entergame :: "clientinfo \<Rightarrow> capture \<Rightarrow> capture" where
  "cap_entergame ci c = (if notgotbases c \<or> gs_state (ci_state ci) \<noteq> CS_ALIVE \<or> ci_gameclip ci then c
     else enterbases (ci_team ci) (gs_o (ci_state ci)) c)"

definition cap_spawned :: "clientinfo \<Rightarrow> capture \<Rightarrow> capture" where
  "cap_spawned ci c = (if notgotbases c \<or> ci_gameclip ci then c
     else enterbases (ci_team ci) (gs_o (ci_state ci)) c)"

definition cap_leavegame :: "clientinfo \<Rightarrow> capture \<Rightarrow> capture" where
  "cap_leavegame ci c = (if notgotbases c \<or> gs_state (ci_state ci) \<noteq> CS_ALIVE \<or> ci_gameclip ci then c
     else leavebases (ci_team ci) (gs_o (ci_state ci)) c)"

definition cap_died :: "clientinfo \<Rightarrow> capture \<Rightarrow> capture" where
  "cap_died ci c = (if notgotbases c \<or> ci_gameclip ci then c
     else leavebases (ci_team ci) (gs_o (ci_state ci)) c)"

definition cap_canspawn :: "clientinfo \<Rightarrow> bool \<Rightarrow> capture \<Rightarrow> bool" where
  "cap_canspawn ci connecting c \<longleftrightarrow> m_regencapture (gamemode c) \<or> connecting \<or> gs_lastdeath (ci_state ci) = 0
     \<or> gamemillis c + curtime c - gs_lastdeath (ci_state ci) \<ge> CAP_RESPAWNSECS * 1000"

definition cap_moved :: "clientinfo \<Rightarrow> vec \<Rightarrow> bool \<Rightarrow> vec \<Rightarrow> bool \<Rightarrow> capture \<Rightarrow> capture" where
  "cap_moved ci oldpos oldclip newpos newclip c =
     (if notgotbases c then c else movebases (ci_team ci) oldpos oldclip newpos newclip c)"

definition cap_changeteam :: "clientinfo \<Rightarrow> cstr \<Rightarrow> cstr \<Rightarrow> capture \<Rightarrow> capture" where
  "cap_changeteam ci oldteam newteam c = (if notgotbases c \<or> ci_gameclip ci then c
     else enterbases newteam (gs_o (ci_state ci)) (leavebases oldteam (gs_o (ci_state ci)) c))"

definition entergame_all :: "capture \<Rightarrow> capture" where
  "entergame_all c = fold (\<lambda>ci c. if gs_state (ci_state ci) = CS_ALIVE then cap_entergame ci c else c) (clients c) c"

definition cap_setup :: "capture \<Rightarrow> capture" where
  "cap_setup c =
     (let c = cap_reset False c
      in if notgotitems c \<or> ments c = [] then c
         else let c = fold (\<lambda>e c. if e_type e \<noteq> BASE then c else addbase (e_attr1 e) (e_o e) c) (ments c) c;
                  c = sendbases (c\<lparr>notgotbases := False\<rparr>)
              in entergame_all c)"

subsection \<open>The passage of time\<close>

definition regen_health :: "int \<Rightarrow> fpsstate \<Rightarrow> fpsstate" where
  "regen_health ticks s = (if health s < maxhealth s
     then s\<lparr>health := min (health s + ticks * REGENHEALTH) (maxhealth s)\<rparr> else s)"

definition regen_armour :: "int \<Rightarrow> fpsstate \<Rightarrow> fpsstate" where
  "regen_armour ticks s =
     (let mx = is_max (itemstat_of (I_GREENARMOUR - I_SHELLS))
      in if armourtype s \<noteq> A_GREEN \<or> armour s < mx
         then let s = (if armourtype s \<noteq> A_GREEN then s\<lparr>armourtype := A_GREEN, armour := 0\<rparr> else s)
              in s\<lparr>armour := min (armour s + ticks * REGENARMOUR) mx\<rparr>
         else s)"

definition regen_ammo :: "baseinfo \<Rightarrow> int \<Rightarrow> fpsstate \<Rightarrow> fpsstate" where
  "regen_ammo b ticks s = (if base_valid b \<and> \<not> hasmaxammo (b_ammotype b - 1 + I_SHELLS) s
     then addammo (b_ammotype b) (ticks * REGENAMMO) 100 s else s)"

definition regen_notify :: "baseinfo \<Rightarrow> fpsstate \<Rightarrow> bool" where
  "regen_notify b s \<longleftrightarrow> health s < maxhealth s
     \<or> armourtype s \<noteq> A_GREEN \<or> armour s < is_max (itemstat_of (I_GREENARMOUR - I_SHELLS))
     \<or> (base_valid b \<and> \<not> hasmaxammo (b_ammotype b - 1 + I_SHELLS) s)"

definition regen_client :: "baseinfo \<Rightarrow> int \<Rightarrow> clientinfo \<Rightarrow> capture \<Rightarrow> capture" where
  "regen_client b ticks ci c =
     (if gs_state (ci_state ci) = CS_ALIVE \<and> ci_team ci \<noteq> [] \<and> ci_team ci = b_owner b
         \<and> cap_insidebase b (gs_o (ci_state ci))
      then let s = fpsstate.truncate (ci_state ci);
               regen = (\<lambda>s. regen_ammo b ticks (regen_armour ticks (regen_health ticks s)));
               s' = regen s;
               c = upd_state (ci_clientnum ci) (on_fps regen) c
           in if regen_notify b s
              then emit (sendf (- 1) 1 [MI N_BASEREGEN, MI (ci_clientnum ci), MI (health s'), MI (armour s'),
                     MI (b_ammotype b), MI (if base_valid b then ammo s' ! nat (b_ammotype b) else 0)]) c
              else c
      else c)"

definition regenowners :: "baseinfo \<Rightarrow> int \<Rightarrow> capture \<Rightarrow> capture" where
  "regenowners b ticks c = fold (regen_client b ticks) (clients c) c"

text \<open>\<^verbatim>\<open>endcheck\<close> looks for a team that owns every base.\<close>

fun sole_owner :: "cstr option \<Rightarrow> baseinfo list \<Rightarrow> cstr option" where
  "sole_owner lastteam [] = lastteam"
| "sole_owner lastteam (b # bs) =
     (if \<not> base_valid b then sole_owner lastteam bs
      else if b_owner b \<noteq> []
      then (case lastteam of
              None \<Rightarrow> sole_owner (Some (b_owner b)) bs
            | Some t \<Rightarrow> if t \<noteq> b_owner b then None else sole_owner lastteam bs)
      else None)"

definition endcheck :: "capture \<Rightarrow> capture" where
  "endcheck c =
     (case sole_owner None (bases c) of
        None \<Rightarrow> c
      | Some t \<Rightarrow>
          let c = c\<lparr>cap_scores := upd_score t (\<lambda>_. 10000) (cap_scores c)\<rparr>;
              c = emit (sendf (- 1) 1 [MI N_BASESCORE, MI (- 1), MS t, MI 10000]) c;
              c = emit (Event ''scoreupdate'' [MS (utf8 c t), MI 10000]) c
          in startintermission c)"

definition occupy_units :: "int \<Rightarrow> baseinfo \<Rightarrow> int" where
  "occupy_units t b = OCCUPYBONUS * (if b_enemies b \<noteq> 0 then 1 else - 1)
     + OCCUPYPOINTS * (if b_enemies b \<noteq> 0 then b_enemies b else - (1 + b_owners b)) * t"

definition update_base :: "int \<Rightarrow> int \<Rightarrow> capture \<Rightarrow> capture" where
  "update_base t i c =
     (let b = get_base i c
      in if \<not> base_valid b then c
         else if b_enemy b \<noteq> []
         then sendbaseinfo i (if b_owners b = 0 \<or> b_enemies b = 0
                then upd_base i (\<lambda>b. snd (base_occupy (b_enemy b) (occupy_units t b) b)) c else c)
         else if b_owner b \<noteq> []
         then let c = upd_base i (\<lambda>b. b\<lparr>b_capturetime := b_capturetime b + t\<rparr>) c;
                  ct = b_capturetime b + t;
                  c = cap_addscore i (b_owner b) (cdiv ct SCORESECS - cdiv (ct - t) SCORESECS) c
              in if m_regencapture (gamemode c)
                 then (let regen = cdiv ct REGENSECS - cdiv (ct - t) REGENSECS
                       in if regen \<noteq> 0 then regenowners (get_base i c) regen c else c)
                 else (let am = cdiv ct AMMOSECS - cdiv (ct - t) AMMOSECS
                       in if am \<noteq> 0 \<and> fst (base_addammo am (get_base i c))
                          then sendbaseinfo i (upd_base i (\<lambda>b. snd (base_addammo am b)) c) else c)
         else c)"

definition cap_update :: "capture \<Rightarrow> capture" where
  "cap_update c =
     (if gamemillis c \<ge> gamelimit c then c
      else let c = endcheck c;
               t = cdiv (gamemillis c) 1000 - cdiv (gamemillis c - curtime c) 1000
           in if t < 1 then c else fold (update_base t) (base_indices c) c)"

subsection \<open>Messages\<close>

fun parsebases_loop :: "nat \<Rightarrow> bool \<Rightarrow> uchar databuf \<Rightarrow> capture \<Rightarrow> uchar databuf \<times> capture" where
  "parsebases_loop 0 commit p c = (p, c)"
| "parsebases_loop (Suc k) commit p c =
     (let (t, p) = getint p; (x, p) = get_coord p; (y, p) = get_coord p; (z, p) = get_coord p;
          ammotype = sint t
      in if db_overread p then (p, c)
         else let c = (if commit \<and> notgotbases c
                       then addbase (if ammotype \<ge> GUN_SG \<and> ammotype \<le> GUN_PISTOL then ammotype else min ammotype 0)
                              \<lparr>vx = x, vy = y, vz = z\<rparr> c
                       else c)
              in parsebases_loop k commit p c)"

definition parsebases :: "bool \<Rightarrow> uchar databuf \<Rightarrow> capture \<Rightarrow> uchar databuf \<times> capture" where
  "parsebases commit p c =
     (let (numbases, p) = getint p;
          (p, c) = parsebases_loop (nat (sint numbases)) commit p c
      in if commit \<and> notgotbases c
         then (p, entergame_all (sendbases (c\<lparr>notgotbases := False\<rparr>)))
         else (p, c))"

definition msg_bases :: "clientinfo \<Rightarrow> uchar databuf \<Rightarrow> capture \<Rightarrow> uchar databuf \<times> capture" where
  "msg_bases ci p c = parsebases (can_play ci \<and> ci_clientmap ci = smapname c) p c"

definition msg_repammo :: "clientinfo \<Rightarrow> clientinfo option \<Rightarrow> capture \<Rightarrow> capture" where
  "msg_repammo ci cq c = (case cq of Some q \<Rightarrow> if can_play ci then replenishammo q c else c | None \<Rightarrow> c)"

text \<open>The values that \<^verbatim>\<open>extinfoteam\<close> appends to a reply: the number of the team's bases and their
  indices.\<close>

definition cap_extinfoteam :: "cstr \<Rightarrow> capture \<Rightarrow> int list" where
  "cap_extinfoteam team c =
     (let own = filter (\<lambda>j. b_owner (get_base j c) = team) (base_indices c) in int (length own) # own)"

subsection \<open>What each operation leaves alone\<close>

lemma cap_emit [simp]:
  "bases (emit e c) = bases c" "cap_scores (emit e c) = cap_scores c" "notgotbases (emit e c) = notgotbases c"
  by (simp_all add: emit_def)

lemma cap_upd_state [simp]:
  "bases (upd_state cn h c) = bases c" "cap_scores (upd_state cn h c) = cap_scores c"
  "notgotbases (upd_state cn h c) = notgotbases c" "gamemode (upd_state cn h c) = gamemode c"
  by (simp_all add: upd_state_def upd_client_def)

lemma cap_draw [simp]:
  "bases (snd (draw x c)) = bases c" "cap_scores (snd (draw x c)) = cap_scores c"
  "notgotbases (snd (draw x c)) = notgotbases c"
  by (simp_all add: draw_def case_prod_beta)

lemma cap_team_ranks [simp]:
  "bases (calc_team_ranks t c) = bases c" "cap_scores (calc_team_ranks t c) = cap_scores c"
  "notgotbases (calc_team_ranks t c) = notgotbases c" "curtime (calc_team_ranks t c) = curtime c"
  by (simp_all add: calc_team_ranks_def)

lemma cap_fold_team_ranks [simp]:
  "bases (fold (\<lambda>t. calc_team_ranks (Some t)) ts c) = bases c"
  "cap_scores (fold (\<lambda>t. calc_team_ranks (Some t)) ts c) = cap_scores c"
  "notgotbases (fold (\<lambda>t. calc_team_ranks (Some t)) ts c) = notgotbases c"
  "curtime (fold (\<lambda>t. calc_team_ranks (Some t)) ts c) = curtime c"
  by (induction ts arbitrary: c) simp_all

lemma cap_startintermission [simp]:
  "bases (startintermission c) = bases c" "cap_scores (startintermission c) = cap_scores c"
  "notgotbases (startintermission c) = notgotbases c" "curtime (startintermission c) = curtime c"
  by (simp_all add: startintermission_def enter_intermission_def calc_player_ranks_def Let_def)

lemma sendbaseinfo_simps [simp]:
  "bases (sendbaseinfo i c) = bases c" "cap_scores (sendbaseinfo i c) = cap_scores c"
  "notgotbases (sendbaseinfo i c) = notgotbases c" "gamemode (sendbaseinfo i c) = gamemode c"
  "gamemillis (sendbaseinfo i c) = gamemillis c" "gamelimit (sendbaseinfo i c) = gamelimit c"
  "clients (sendbaseinfo i c) = clients c"
  by (simp_all add: sendbaseinfo_def Let_def)

lemma sendbases_simps [simp]:
  "bases (sendbases c) = bases c" "cap_scores (sendbases c) = cap_scores c" "notgotbases (sendbases c) = notgotbases c"
  "clients (sendbases c) = clients c"
  by (simp_all add: sendbases_def)

lemma cap_addscore_simps [simp]:
  "bases (cap_addscore i t n c) = bases c" "notgotbases (cap_addscore i t n c) = notgotbases c"
  "gamemode (cap_addscore i t n c) = gamemode c" "clients (cap_addscore i t n c) = clients c"
  "cap_scores (cap_addscore i t n c) = (if n = 0 then cap_scores c else upd_score t (\<lambda>m. m + n) (cap_scores c))"
  by (simp_all add: cap_addscore_def Let_def)

lemma regenowners_simps [simp]:
  "bases (regenowners b k c) = bases c" "cap_scores (regenowners b k c) = cap_scores c"
  "notgotbases (regenowners b k c) = notgotbases c" "gamemode (regenowners b k c) = gamemode c"
proof -
  have "bases (fold (regen_client b k) cs c) = bases c \<and> cap_scores (fold (regen_client b k) cs c) = cap_scores c
      \<and> notgotbases (fold (regen_client b k) cs c) = notgotbases c \<and> gamemode (fold (regen_client b k) cs c) = gamemode c" for cs
    by (induction cs arbitrary: c) (simp_all add: regen_client_def Let_def)
  then show "bases (regenowners b k c) = bases c" "cap_scores (regenowners b k c) = cap_scores c"
    "notgotbases (regenowners b k c) = notgotbases c" "gamemode (regenowners b k c) = gamemode c"
    by (simp_all add: regenowners_def)
qed

lemma endcheck_simps [simp]:
  "bases (endcheck c) = bases c" "notgotbases (endcheck c) = notgotbases c" "gamemode (endcheck c) = gamemode c"
  "gamemillis (endcheck c) = gamemillis c" "curtime (endcheck c) = curtime c"
  by (simp_all add: endcheck_def Let_def split: option.split)

subsection \<open>One tick of a base\<close>

text \<open>What the periodic update does to one base, as a function of the base.\<close>

definition base_tick :: "bool \<Rightarrow> int \<Rightarrow> baseinfo \<Rightarrow> baseinfo" where
  "base_tick regen t b =
     (if \<not> base_valid b then b
      else if b_enemy b \<noteq> []
      then (if b_owners b = 0 \<or> b_enemies b = 0 then snd (base_occupy (b_enemy b) (occupy_units t b) b) else b)
      else if b_owner b \<noteq> []
      then (let b = b\<lparr>b_capturetime := b_capturetime b + t\<rparr>;
                am = cdiv (b_capturetime b) AMMOSECS - cdiv (b_capturetime b - t) AMMOSECS
            in if \<not> regen \<and> am \<noteq> 0 then snd (base_addammo am b) else b)
      else b)"

lemma update_base_tick:
  assumes "i < length (bases c)"
  shows "bases (update_base t (int i) c) = upd_nth (int i) (base_tick (m_regencapture (gamemode c)) t) (bases c)
    \<and> gamemode (update_base t (int i) c) = gamemode c"
proof -
  have i: "inrange (int i) (bases c)" using assms by (simp add: inrange_def)
  let ?b = "bases c ! i"
  consider (invalid) "\<not> base_valid ?b" | (enemy) "base_valid ?b" "b_enemy ?b \<noteq> []"
    | (owner) "base_valid ?b" "b_enemy ?b = []" "b_owner ?b \<noteq> []"
    | (neutral) "base_valid ?b" "b_enemy ?b = []" "b_owner ?b = []" by blast
  then show ?thesis
  proof cases
    case invalid
    then show ?thesis using upd_nth_same [OF i, of "base_tick (m_regencapture (gamemode c)) t"]
      by (simp add: update_base_def base_tick_def)
  next
    case enemy
    then show ?thesis
      using upd_nth_cong [OF i, of "\<lambda>b. snd (base_occupy (b_enemy b) (occupy_units t b) b)" "base_tick (m_regencapture (gamemode c)) t"]
        upd_nth_same [OF i, of "base_tick (m_regencapture (gamemode c)) t"]
      by (simp add: update_base_def base_tick_def Let_def)
  next
    case owner
    let ?ct = "b_capturetime ?b + t"
    let ?am = "cdiv ?ct AMMOSECS - cdiv (?ct - t) AMMOSECS"
    let ?h = "\<lambda>b. b\<lparr>b_capturetime := b_capturetime b + t\<rparr>"
    have "bases (update_base t (int i) c)
        = (if \<not> m_regencapture (gamemode c) \<and> ?am \<noteq> 0 then upd_nth (int i) (\<lambda>b. snd (base_addammo ?am (?h b))) (bases c)
           else upd_nth (int i) ?h (bases c))"
    proof (cases "m_regencapture (gamemode c)")
      case True
      then show ?thesis using owner by (simp add: update_base_def Let_def)
    next
      case False
      have "upd_nth (int i) (\<lambda>b. snd (base_addammo ?am (?h b))) (bases c) = upd_nth (int i) ?h (bases c)"
        if "\<not> fst (base_addammo ?am (?h ?b))"
        using that by (intro upd_nth_cong [OF i]) (auto simp: base_addammo_def split: if_splits)
      then show ?thesis using owner False assms by (auto simp: update_base_def Let_def nth_upd_nth)
    qed
    moreover have "gamemode (update_base t (int i) c) = gamemode c" using owner by (simp add: update_base_def Let_def)
    ultimately show ?thesis
      using upd_nth_cong [OF i, of "\<lambda>b. snd (base_addammo ?am (?h b))" "base_tick (m_regencapture (gamemode c)) t"]
        upd_nth_cong [OF i, of ?h "base_tick (m_regencapture (gamemode c)) t"] owner
      by (simp add: base_tick_def Let_def)
  next
    case neutral
    then show ?thesis using upd_nth_same [OF i, of "base_tick (m_regencapture (gamemode c)) t"]
      by (simp add: update_base_def base_tick_def)
  qed
qed

lemma cap_update_bases:
  "bases (cap_update c) = (let t = cdiv (gamemillis c) 1000 - cdiv (gamemillis c - curtime c) 1000
     in if gamemillis c \<ge> gamelimit c \<or> t < 1 then bases c
        else map (base_tick (m_regencapture (gamemode c)) t) (bases c))"
proof -
  have "bases (fold (update_base t) (base_indices (endcheck c)) (endcheck c))
      = map (base_tick (m_regencapture (gamemode c)) t) (bases (endcheck c))" for t
    using fold_index_loop [where get = bases and op = "update_base t" and s = "endcheck c"
      and h = "base_tick (m_regencapture (gamemode c)) t" and P = "\<lambda>x. gamemode x = gamemode c"]
    by (simp add: update_base_tick)
  then show ?thesis by (simp add: cap_update_def Let_def)
qed

subsection \<open>The invariant of the bases\<close>

definition base_ok :: "baseinfo \<Rightarrow> bool" where
  "base_ok b \<longleftrightarrow> 0 \<le> b_owners b \<and> 0 \<le> b_enemies b \<and> (b_owner b = [] \<longrightarrow> b_owners b = 0)
     \<and> (b_enemy b = [] \<longrightarrow> b_enemies b = 0 \<and> b_converted b = 0) \<and> (b_enemy b \<noteq> [] \<longrightarrow> b_enemy b \<noteq> b_owner b)
     \<and> 0 \<le> b_converted b \<and> b_converted b < (if b_owner b = [] then OCCUPYNEUTRALLIMIT else OCCUPYENEMYLIMIT)
     \<and> 0 \<le> b_ammo b \<and> b_ammo b \<le> MAXAMMO
     \<and> b_ammogroup b \<le> 0 \<and> (b_ammogroup b \<noteq> 0 \<longrightarrow> 1 \<le> b_ammotype b \<and> b_ammotype b \<le> I_GRENADES - I_SHELLS + 1)"

definition cap_inv :: "capture \<Rightarrow> bool" where
  "cap_inv c \<longleftrightarrow> int (length (bases c)) \<le> MAXBASES \<and> (\<forall>b \<in> set (bases c). base_ok b)
     \<and> distinct (map fst (cap_scores c))"

lemma base_enter_ok [preserves]: "base_ok b \<Longrightarrow> team \<noteq> [] \<Longrightarrow> base_ok (snd (base_enter team b))"
  by (auto simp: base_ok_def base_enter_def Let_def)

lemma base_leave_ok [preserves]: "base_ok b \<Longrightarrow> base_ok (snd (base_leave team b))"
  by (auto simp: base_ok_def base_leave_def Let_def)

lemma base_occupy_ok [preserves]:
  "base_ok b \<Longrightarrow> b_enemy b \<noteq> [] \<Longrightarrow> (units \<ge> 0 \<longrightarrow> b_owners b = 0) \<Longrightarrow> base_ok (snd (base_occupy team units b))"
  by (auto simp: base_ok_def base_occupy_def noenemy_def Let_def split: if_splits)

lemma base_takeammo_ok [preserves]: "base_ok b \<Longrightarrow> base_ok (snd (base_takeammo team b))"
  by (auto simp: base_ok_def base_takeammo_def)

lemma base_addammo_ok [preserves]: "base_ok b \<Longrightarrow> 0 \<le> n \<Longrightarrow> base_ok (snd (base_addammo n b))"
  by (auto simp: base_ok_def base_addammo_def)

lemma occupy_units_neg:
  assumes "base_ok b" "1 \<le> t" "b_owners b = 0 \<or> b_enemies b = 0" "0 \<le> occupy_units t b"
  shows "b_owners b = 0"
proof (rule ccontr)
  assume "b_owners b \<noteq> 0"
  with assms(3) have "b_enemies b = 0" by simp
  moreover have "0 \<le> b_owners b * t" using assms(1,2) by (simp add: base_ok_def)
  ultimately show False using assms(2,4) by (simp add: occupy_units_def algebra_simps)
qed

lemma base_tick_ok [preserves]:
  assumes "base_ok b" "1 \<le> t"
  shows "base_ok (base_tick regen t b)"
proof -
  have "base_ok (b\<lparr>b_capturetime := x\<rparr>)" for x using assms(1) by (simp add: base_ok_def)
  then show ?thesis
    using assms occupy_units_neg [OF assms] cdiv_mono [of "b_capturetime b" "b_capturetime b + t" AMMOSECS]
    by (auto simp: base_tick_def Let_def intro!: base_occupy_ok base_addammo_ok)
qed

subsection \<open>Every handler keeps the invariant\<close>

lemma cap_inv_upd [preserves]:
  assumes "cap_inv c" "\<And>b. base_ok b \<Longrightarrow> base_ok (h b)"
  shows "cap_inv (upd_base i h c)"
  using assms set_upd_nth [of i h "bases c"] by (auto simp: cap_inv_def)

lemma cap_inv_frame [simp]:
  "cap_inv (emit e c) = cap_inv c" "cap_inv (sendbaseinfo i c) = cap_inv c" "cap_inv (sendbases c) = cap_inv c"
  "cap_inv (upd_state cn h c) = cap_inv c" "cap_inv (startintermission c) = cap_inv c"
  "cap_inv (c\<lparr>notgotbases := b\<rparr>) = cap_inv c" "cap_inv (snd (draw n c)) = cap_inv c"
  by (simp_all add: cap_inv_def)

lemma fst_upd_score: "fst ` set (upd_score t f ss) = insert t (fst ` set ss)"
  by (induction ss) auto

lemma distinct_upd_score: "distinct (map fst ss) \<Longrightarrow> distinct (map fst (upd_score t f ss))"
  by (induction ss) (auto simp: fst_upd_score)

lemma stealbase_inv [preserves]:
  assumes "cap_inv c"
  shows "cap_inv (stealbase n team c)"
proof -
  have main: "base_ok (fold (\<lambda>ci b. snd (base_enter (ci_team ci) b)) cs b)"
    if "base_ok b" "\<forall>ci \<in> set cs. ci_team ci \<noteq> []" for cs b
    using that by (induction cs arbitrary: b) (auto intro: base_enter_ok)
  show ?thesis unfolding stealbase_def Let_def cap_inv_frame by (rule cap_inv_upd [OF assms], rule main) auto
qed

lemma movebase_one_inv [preserves]:
  "cap_inv c \<Longrightarrow> team \<noteq> [] \<Longrightarrow> cap_inv (movebase_one team op oc np nc i c)"
  by (simp add: movebase_one_def Let_def stealbase_inv cap_inv_upd base_leave_ok base_enter_ok)

lemma movebases_inv [preserves]: "cap_inv c \<Longrightarrow> cap_inv (movebases team op oc np nc c)"
proof -
  have "cap_inv c \<Longrightarrow> team \<noteq> [] \<Longrightarrow> cap_inv (fold (movebase_one team op oc np nc) js c)" for js c
    by (induction js arbitrary: c) (simp_all add: movebase_one_inv)
  then show "cap_inv c \<Longrightarrow> cap_inv (movebases team op oc np nc c)" by (simp add: movebases_def)
qed

lemma entergame_all_inv [preserves]: "cap_inv c \<Longrightarrow> cap_inv (entergame_all c)"
proof -
  have "cap_inv c \<Longrightarrow> cap_inv (fold (\<lambda>ci c. if gs_state (ci_state ci) = CS_ALIVE then cap_entergame ci c else c) cs c)" for cs c
    by (induction cs arbitrary: c) (simp_all add: cap_entergame_def enterbases_def movebases_inv)
  then show "cap_inv c \<Longrightarrow> cap_inv (entergame_all c)" by (simp add: entergame_all_def)
qed

lemma group_avail_range:
  assumes "length uses = 5"
  shows "group_avail uses \<noteq> [] \<and> (\<forall>t \<in> set (group_avail uses). 1 \<le> t \<and> t \<le> 5)"
proof -
  have "Min (set uses) \<in> set uses" using assms by (intro Min_in) auto
  then obtain i where "i < length uses" "uses ! i = Min (set uses)" by (auto simp: in_set_conv_nth)
  then show ?thesis using assms by (auto simp: group_avail_def filter_empty_conv)
qed

lemma addbase_inv [preserves]:
  assumes "cap_inv c"
  shows "cap_inv (addbase ammotype ofs c)"
proof -
  have new: "cap_inv (c'\<lparr>bases := bases c @ [base_new\<lparr>b_ammogroup := g, b_ammotype := t, b_o := ofs\<rparr>]\<rparr>)"
    if "cap_scores c' = cap_scores c" "int (length (bases c)) < MAXBASES" "g \<le> 0"
      "g \<noteq> 0 \<longrightarrow> 1 \<le> t \<and> t \<le> 5" for c' g t
    using assms that by (auto simp: cap_inv_def base_ok_def base_new_def base_reset_def noenemy_def)
  let ?avail = "group_avail (group_uses (bases c))"
  have av: "?avail \<noteq> []" "\<And>t. t \<in> set ?avail \<Longrightarrow> 1 \<le> t \<and> t \<le> 5"
    using group_avail_range [of "group_uses (bases c)"] by (simp_all add: group_uses_def)
  have pick: "1 \<le> ?avail ! nat (fst (draw (int (length ?avail)) c')) \<and> ?avail ! nat (fst (draw (int (length ?avail)) c')) \<le> 5" for c' :: capture
    using av(1) draw_bounds [of "int (length ?avail)" c'] by (intro av(2) nth_mem) (auto simp: nat_less_iff)
  have grp: "1 \<le> b_ammotype b \<and> b_ammotype b \<le> 5" if "find (\<lambda>b. b_ammogroup b = min ammotype 0) (bases c) = Some b" "min ammotype 0 \<noteq> 0" for b
  proof -
    from that(1) have "b \<in> set (bases c)" "b_ammogroup b = min ammotype 0" by (auto simp: find_Some_iff)
    with that(2) assms show ?thesis by (auto simp: cap_inv_def base_ok_def)
  qed
  show ?thesis
    using assms pick grp unfolding addbase_def Let_def case_prod_beta
    by (auto intro!: new split: option.split)
qed

lemma parsebases_inv [preserves]:
  assumes "cap_inv c"
  shows "cap_inv (snd (parsebases commit p c))"
proof -
  have "cap_inv c \<Longrightarrow> cap_inv (snd (parsebases_loop k commit p c))" for k p c commit
    by (induction k arbitrary: p c) (simp_all add: case_prod_beta Let_def addbase_inv)
  then show ?thesis using assms by (simp add: parsebases_def case_prod_beta Let_def entergame_all_inv)
qed

lemma cap_reset_inv [preserves]: "cap_inv (cap_reset b c)"
  by (simp add: cap_inv_def cap_reset_def resetbases_def)

lemma cap_setup_inv [preserves]: "cap_inv (cap_setup c)"
proof -
  have "cap_inv c \<Longrightarrow> cap_inv (fold (\<lambda>e c. if e_type e \<noteq> BASE then c else addbase (e_attr1 e) (e_o e) c) es c)"
    for es :: "entity list" and c
    by (induction es arbitrary: c) (simp_all add: addbase_inv)
  from this [OF cap_reset_inv [of False c]] show ?thesis
    using cap_reset_inv [of False c] unfolding cap_setup_def Let_def by (simp add: entergame_all_inv)
qed

lemma replenishammo_inv [preserves]: "cap_inv c \<Longrightarrow> cap_inv (replenishammo ci c)"
proof -
  have "cap_inv c \<Longrightarrow> cap_inv (replenish_from ci js c)" for js
    by (induction js) (simp_all add: Let_def cap_inv_upd base_takeammo_ok)
  then show "cap_inv c \<Longrightarrow> cap_inv (replenishammo ci c)" by (simp add: replenishammo_def)
qed

lemma endcheck_inv [preserves]: "cap_inv c \<Longrightarrow> cap_inv (endcheck c)"
  by (simp add: endcheck_def Let_def cap_inv_def distinct_upd_score split: option.split)

lemma update_base_scores:
  "distinct (map fst (cap_scores c)) \<Longrightarrow> distinct (map fst (cap_scores (update_base t i c)))"
  by (simp add: update_base_def Let_def distinct_upd_score)

lemma cap_update_inv [preserves]:
  assumes "cap_inv c"
  shows "cap_inv (cap_update c)"
proof -
  have "distinct (map fst (cap_scores c)) \<Longrightarrow> distinct (map fst (cap_scores (fold (update_base t) js c)))" for t js c
    by (induction js arbitrary: c) (simp_all add: update_base_scores)
  then have "distinct (map fst (cap_scores (cap_update c)))"
    using endcheck_inv [OF assms] assms by (simp add: cap_update_def Let_def cap_inv_def)
  then show ?thesis using assms by (auto simp: cap_inv_def cap_update_bases Let_def intro: base_tick_ok)
qed

subsection \<open>Runs of the mode\<close>

inductive cap_step :: "capture \<Rightarrow> capture \<Rightarrow> bool" where
  set_up: "cap_step c (cap_setup c)"
| newmap: "cap_step c (cap_newmap c)"
| cleanup: "cap_step c (cap_cleanup c)"
| enter: "cap_step c (cap_entergame ci c)"
| spawned: "cap_step c (cap_spawned ci c)"
| leave: "cap_step c (cap_leavegame ci c)"
| died: "cap_step c (cap_died ci c)"
| moved: "cap_step c (cap_moved ci oldpos oldclip newpos newclip c)"
| changeteam: "cap_step c (cap_changeteam ci oldteam newteam c)"
| repammo: "cap_step c (msg_repammo ci cq c)"
| init: "cap_step c (snd (msg_bases ci p c))"
| update: "cap_step c (cap_update c)"
| server: "bases c' = bases c \<Longrightarrow> cap_scores c' = cap_scores c \<Longrightarrow> notgotbases c' = notgotbases c \<Longrightarrow> cap_step c c'"

inductive cap_reachable :: "capture \<Rightarrow> bool" where
  start: "cap_reachable (cap_reset b c)"
| step: "cap_reachable c \<Longrightarrow> cap_step c c' \<Longrightarrow> cap_reachable c'"

inductive_cases cap_stepE: "cap_step c c'"

lemma cap_step_inv: "cap_step c c' \<Longrightarrow> cap_inv c \<Longrightarrow> cap_inv c'"
proof (induction rule: cap_step.induct)
  case (server c' c)
  then show ?case by (simp add: cap_inv_def)
qed (simp_all add: cap_setup_inv cap_newmap_def cap_cleanup_def cap_reset_inv cap_entergame_def cap_spawned_def
  cap_leavegame_def cap_died_def cap_moved_def cap_changeteam_def enterbases_def leavebases_def movebases_inv
  msg_repammo_def replenishammo_inv msg_bases_def parsebases_inv cap_update_inv split: option.split)

lemma cap_reachable_inv: "cap_reachable c \<Longrightarrow> cap_inv c"
  by (induction rule: cap_reachable.induct) (auto intro: cap_step_inv cap_reset_inv)

subsection \<open>Properties\<close>

text \<open>C5: in every reachable state of a capture game each base is consistent. Its counters of
  attackers and defenders are never negative, a base nobody owns has no defenders, a base
  nobody attacks has no progress, no team attacks its own base, the progress stays below the
  limit at which the owner changes, the stock of ammunition stays within its bounds, and the
  type of a base in a group indexes the table of ammunition types.\<close>

theorem capture_bases_consistent:
  assumes "cap_reachable c" and "b \<in> set (bases c)"
  shows "0 \<le> b_owners b \<and> 0 \<le> b_enemies b \<and> (b_owner b = [] \<longrightarrow> b_owners b = 0)
    \<and> (b_enemy b = [] \<longrightarrow> b_enemies b = 0 \<and> b_converted b = 0) \<and> (b_enemy b \<noteq> [] \<longrightarrow> b_enemy b \<noteq> b_owner b)
    \<and> 0 \<le> b_converted b \<and> b_converted b < (if b_owner b = [] then OCCUPYNEUTRALLIMIT else OCCUPYENEMYLIMIT)
    \<and> 0 \<le> b_ammo b \<and> b_ammo b \<le> MAXAMMO
    \<and> (b_ammogroup b \<noteq> 0 \<longrightarrow> 1 \<le> b_ammotype b \<and> b_ammotype b \<le> I_GRENADES - I_SHELLS + 1)
    \<and> int (length (bases c)) \<le> MAXBASES"
  using cap_reachable_inv [OF assms(1)] assms(2) by (auto simp: cap_inv_def base_ok_def)

definition sample_capture :: capture where
  "sample_capture = world.extend (sample_world\<lparr>gamemode := 9, curtime := 1000, ments :=
     [\<lparr>e_o = vec0, e_attr1 = 1, e_attr2 = 0, e_type = BASE\<rparr>,
      \<lparr>e_o = vec0\<lparr>vx := 512\<rparr>, e_attr1 = - 2, e_attr2 = 0, e_type = BASE\<rparr>],
      clients := map (\<lambda>ci. ci\<lparr>ci_state := (ci_state ci)\<lparr>gs_o := vec0\<rparr>\<rparr>) (clients sample_world)\<rparr>)
     (capture.fields [] [] 0 True)"

theorem capture_bases_consistent_witness:
  "cap_reachable (cap_setup sample_capture) \<and> b_enemies (bases (cap_setup sample_capture) ! 0) = 2
   \<and> b_enemy (bases (cap_setup sample_capture) ! 0) \<noteq> b_owner (bases (cap_setup sample_capture) ! 0)"
proof -
  have eq: "cap_setup sample_capture = cap_setup (cap_reset False sample_capture)"
    by (simp add: cap_setup_def cap_reset_def resetbases_def)
  have r: "cap_reachable (cap_setup sample_capture)"
    unfolding eq by (rule cap_reachable.step [OF cap_reachable.start cap_step.set_up])
  have e: "length (bases (cap_setup sample_capture)) = 2" "b_enemies (bases (cap_setup sample_capture) ! 0) = 2" by code_simp+
  then have "bases (cap_setup sample_capture) ! 0 \<in> set (bases (cap_setup sample_capture))" by simp
  from capture_bases_consistent [OF r this] e r show ?thesis by auto
qed

lemma occupy_owner:
  "b_owner (snd (base_occupy team u b)) =
     (if b_enemy b = team \<and> 0 \<le> u \<and> b_converted b + u \<ge> (if b_owner b \<noteq> [] then OCCUPYENEMYLIMIT else OCCUPYNEUTRALLIMIT)
      then (if b_owner b \<noteq> [] then [] else team) else b_owner b)"
  by (simp add: base_occupy_def Let_def noenemy_def)

lemma tick_owner:
  "b_owner (base_tick regen t b) =
     (if base_valid b \<and> b_enemy b \<noteq> [] \<and> (b_owners b = 0 \<or> b_enemies b = 0) \<and> 0 \<le> occupy_units t b
         \<and> b_converted b + occupy_units t b \<ge> (if b_owner b \<noteq> [] then OCCUPYENEMYLIMIT else OCCUPYNEUTRALLIMIT)
      then (if b_owner b \<noteq> [] then [] else b_enemy b) else b_owner b)"
  by (simp add: base_tick_def Let_def base_addammo_def occupy_owner)

text \<open>A base never passes from one team to another directly. In one update an owned base keeps
  its owner or becomes neutral, and it becomes neutral only while attackers and no defenders
  are inside; a neutral base stays neutral or goes to the team that attacks it.\<close>

lemma capture_through_neutral:
  assumes "cap_reachable c" and "i < length (bases c)"
  defines "b \<equiv> bases c ! i" and "b' \<equiv> bases (cap_update c) ! i"
  shows "(b_owner b \<noteq> [] \<longrightarrow> b_owner b' = b_owner b \<or> (b_owner b' = [] \<and> b_enemies b > 0 \<and> b_owners b = 0))
    \<and> (b_owner b = [] \<longrightarrow> b_owner b' = [] \<or> (b_owner b' = b_enemy b \<and> b_enemies b > 0))"
proof -
  let ?t = "cdiv (gamemillis c) 1000 - cdiv (gamemillis c - curtime c) 1000"
  have ok: "base_ok b" using cap_reachable_inv [OF assms(1)] assms(2) by (auto simp: cap_inv_def b_def)
  have neg: "b_enemies b = 0 \<Longrightarrow> 1 \<le> ?t \<Longrightarrow> occupy_units ?t b < 0"
  proof -
    assume e: "b_enemies b = 0" and t: "1 \<le> ?t"
    have "0 \<le> b_owners b * ?t" using ok t by (simp add: base_ok_def)
    then show "occupy_units ?t b < 0" using e t by (simp add: occupy_units_def algebra_simps)
  qed
  have "b' = b \<or> (1 \<le> ?t \<and> b' = base_tick (m_regencapture (gamemode c)) ?t b)"
    using assms(2) by (auto simp: b'_def b_def cap_update_bases Let_def)
  then show ?thesis
  proof
    assume "1 \<le> ?t \<and> b' = base_tick (m_regencapture (gamemode c)) ?t b"
    then have "b_owner b' = b_owner b \<or> ((b_owners b = 0 \<or> b_enemies b = 0) \<and> 0 \<le> occupy_units ?t b
        \<and> b_owner b' = (if b_owner b \<noteq> [] then [] else b_enemy b))" and "1 \<le> ?t"
      by (auto simp: tick_owner)
    moreover have "0 \<le> b_enemies b" using ok by (simp add: base_ok_def)
    moreover have "b_enemies b \<noteq> 0" if "0 \<le> occupy_units ?t b" using neg \<open>1 \<le> ?t\<close> that by linarith
    ultimately show ?thesis by auto
  qed simp
qed

lemma tick_progress:
  assumes "base_valid b" "b_owner b = []" "b_enemy b = team" "team \<noteq> []" "b_owners b = 0" "b_enemies b = n" "0 < n"
    "0 \<le> b_converted b"
  shows "base_tick regen 1 b = (if b_converted b + (1 + n) < OCCUPYNEUTRALLIMIT
      then b\<lparr>b_converted := b_converted b + (1 + n)\<rparr>
      else noenemy (b\<lparr>b_converted := b_converted b + (1 + n), b_owner := team, b_ammo := 0, b_capturetime := 0, b_owners := n\<rparr>))"
  using assms by (simp add: base_tick_def base_occupy_def occupy_units_def Let_def)

lemma sole_owner_Some:
  "sole_owner (Some t) bs = (if \<forall>b \<in> set bs. base_valid b \<longrightarrow> b_owner b = t \<and> b_owner b \<noteq> [] then Some t else None)"
  by (induction bs) auto

lemma sole_owner_None:
  "sole_owner None bs = Some t \<longleftrightarrow> (\<exists>b \<in> set bs. base_valid b) \<and> (\<forall>b \<in> set bs. base_valid b \<longrightarrow> b_owner b = t) \<and> t \<noteq> []"
  by (induction bs) (auto simp: sole_owner_Some split: if_splits)

text \<open>The updates of the game, one a second.\<close>

definition second :: "capture \<Rightarrow> capture" where
  "second c = cap_update (c\<lparr>gamemillis := gamemillis c + 1000, curtime := 1000\<rparr>)"

lemma clock_update_base:
  "gamemillis (update_base t i c) = gamemillis c" "gamelimit (update_base t i c) = gamelimit c" "gamemode (update_base t i c) = gamemode c"
proof -
  have "gamemillis (fold (regen_client b k) cs c) = gamemillis c \<and> gamelimit (fold (regen_client b k) cs c) = gamelimit c" for b k cs c
    by (induction cs arbitrary: c) (simp_all add: regen_client_def Let_def upd_state_def upd_client_def)
  then have r: "gamemillis (regenowners b k c) = gamemillis c" "gamelimit (regenowners b k c) = gamelimit c" for b k c
    by (simp_all add: regenowners_def)
  have "gamemillis (cap_addscore j x n c) = gamemillis c \<and> gamelimit (cap_addscore j x n c) = gamelimit c" for j x n c
    by (simp add: cap_addscore_def Let_def)
  moreover have "gamemillis (sendbaseinfo j c) = gamemillis c \<and> gamelimit (sendbaseinfo j c) = gamelimit c \<and> gamemode (sendbaseinfo j c) = gamemode c" for j c
    by (simp add: sendbaseinfo_def Let_def)
  ultimately show "gamemillis (update_base t i c) = gamemillis c" "gamelimit (update_base t i c) = gamelimit c"
    "gamemode (update_base t i c) = gamemode c"
    by (simp_all add: update_base_def Let_def r)
qed

lemma unowned_endcheck:
  assumes "b \<in> set (bases c)" "base_valid b" "b_owner b = []"
  shows "endcheck c = c"
  using assms sole_owner_None [of "bases c"] by (force simp: endcheck_def split: option.split)

text \<open>A second of a running game with a base that nobody owns.\<close>

lemma second_unowned:
  assumes "i < length (bases c)" "base_valid (bases c ! i)" "b_owner (bases c ! i) = []"
    and "0 \<le> gamemillis c" and "gamemillis c + 1000 < gamelimit c"
  shows "bases (second c) ! i = base_tick (m_regencapture (gamemode c)) 1 (bases c ! i)"
    "gamemillis (second c) = gamemillis c + 1000" "gamelimit (second c) = gamelimit c" "gamemode (second c) = gamemode c"
    "length (bases (second c)) = length (bases c)"
proof -
  let ?c = "c\<lparr>gamemillis := gamemillis c + 1000, curtime := 1000\<rparr>"
  have t: "cdiv (gamemillis ?c) 1000 - cdiv (gamemillis ?c - curtime ?c) 1000 = 1" using assms(4) by simp
  have bs: "bases (second c) = map (base_tick (m_regencapture (gamemode c)) 1) (bases c)"
    unfolding second_def cap_update_bases Let_def t using assms(5) by simp
  then show "bases (second c) ! i = base_tick (m_regencapture (gamemode c)) 1 (bases c ! i)" "length (bases (second c)) = length (bases c)"
    using assms(1) by simp_all
  have e: "endcheck ?c = ?c" by (rule unowned_endcheck [of "bases c ! i"]) (use assms in simp_all)
  have "gamemillis (fold (update_base 1) is d) = gamemillis d \<and> gamelimit (fold (update_base 1) is d) = gamelimit d
      \<and> gamemode (fold (update_base 1) is d) = gamemode d" for "is" d
    by (induction "is" arbitrary: d) (simp_all add: clock_update_base)
  moreover have "second c = fold (update_base 1) (base_indices ?c) ?c"
    unfolding second_def cap_update_def e Let_def t using assms(5) by simp
  ultimately show "gamemillis (second c) = gamemillis c + 1000" "gamelimit (second c) = gamelimit c" "gamemode (second c) = gamemode c"
    by simp_all
qed



lemma team_lookup_upd_score: "team_lookup t (upd_score t f ss) = f (team_lookup t ss)"
  by (induction ss) (auto simp: team_lookup_def)

lemma cap_getteamscore_lookup: "cap_getteamscore t c = team_lookup t (cap_scores c)"
  by (simp add: cap_getteamscore_def team_lookup_def)

interpretation cap_scores: team_scores "\<lambda>c t. cap_getteamscore t c" cap_getteamscores cap_inv
proof
  fix c :: capture and t n
  assume inv: "cap_inv c"
  have look: "team_lookup t ss = n" if "distinct (map fst ss)" "(t, n) \<in> set ss" for ss :: "(cstr \<times> int) list"
    using that
  proof (induction ss)
    case (Cons s ss)
    then have "(t, n) = s \<or> (fst s \<noteq> t \<and> (t, n) \<in> set ss)" by (auto simp: rev_image_eqI)
    with Cons show ?case by (auto simp: team_lookup_def)
  qed simp
  show "(t, n) \<in> set (cap_getteamscores c) \<Longrightarrow> n = cap_getteamscore t c"
    using look [of "cap_scores c"] inv by (auto simp: cap_getteamscores_def cap_getteamscore_lookup cap_inv_def)
  show "cap_getteamscore t c \<noteq> 0 \<Longrightarrow> t \<in> fst ` set (cap_getteamscores c)"
    by (auto simp: cap_getteamscore_lookup team_lookup_def cap_getteamscores_def find_Some_iff image_image
      split: option.splits)
  show "distinct (map fst (cap_getteamscores c))"
    using inv by (simp add: cap_getteamscores_def cap_inv_def comp_def)
qed

text \<open>The game ends early exactly when one team owns every usable base and there is one: then
  that team has 10000 points and, unless a script extends the game, the intermission starts.
  Otherwise the check changes nothing.\<close>

lemma endcheck_iff:
  fixes c :: capture
  defines "won t \<equiv> (\<exists>b \<in> set (bases c). base_valid b) \<and> (\<forall>b \<in> set (bases c). base_valid b \<longrightarrow> b_owner b = t) \<and> t \<noteq> []"
  shows "(\<forall>t. won t \<longrightarrow> cap_getteamscore t (endcheck c) = 10000
        \<and> (interm c = 0 \<and> timeupdate_hook c (min (gamelimit c) (gamemillis c)) (gamemillis c) \<le> gamemillis c
           \<longrightarrow> interm (endcheck c) = gamemillis c + intermtime c))
    \<and> ((\<forall>t. \<not> won t) \<longrightarrow> endcheck c = c)"
proof -
  have won: "won t \<longleftrightarrow> sole_owner None (bases c) = Some t" for t by (simp add: won_def sole_owner_None)
  have "cap_getteamscore t (endcheck c) = 10000
        \<and> (interm c = 0 \<and> timeupdate_hook c (min (gamelimit c) (gamemillis c)) (gamemillis c) \<le> gamemillis c
           \<longrightarrow> interm (endcheck c) = gamemillis c + intermtime c)" if "won t" for t
    using that unfolding won
    by (simp add: endcheck_def Let_def cap_getteamscore_lookup team_lookup_upd_score startintermission_ends)
  moreover have "endcheck c = c" if "\<forall>t. \<not> won t"
    using that unfolding won endcheck_def by (simp split: option.split)
  ultimately show ?thesis by blast
qed

lemma regen_ok:
  assumes "fps_ok s" "0 \<le> ticks"
  shows "fps_ok (regen_ammo b ticks (regen_armour ticks (regen_health ticks s)))"
proof -
  have h: "fps_ok (regen_health ticks s)" using assms by (auto simp: fps_ok_def regen_health_def min_def)
  have "fps_ok (regen_armour ticks (regen_health ticks s))"
    using h assms(2) unfolding fps_ok_def regen_armour_def Let_def
    by (auto simp: itemstat_of_def itemstats_def min_def)
  then show ?thesis using assms(2)
    by (auto simp: regen_ammo_def base_valid_def intro!: addammo_ok)
qed

lemma regenowners_players [preserves]:
  assumes "players_ok c" "0 \<le> ticks"
  shows "players_ok (regenowners b ticks c)"
proof -
  have "players_ok c' \<Longrightarrow> players_ok (fold (regen_client b ticks) cs c')"
    if "\<forall>ci \<in> set cs. fps_ok (fpsstate.truncate (ci_state ci))" for cs c'
    using that
  proof (induction cs arbitrary: c')
    case (Cons ci cs)
    have "players_ok (regen_client b ticks ci c')"
      using Cons.prems assms(2) by (auto simp: regen_client_def Let_def intro!: players_ok_on_fps regen_ok)
    then show ?case using Cons by simp
  qed simp
  then show ?thesis using assms(1) by (simp add: regenowners_def players_ok_def)
qed

lemma update_base_players [preserves]:
  assumes "players_ok c" "1 \<le> t"
  shows "players_ok (update_base t i c)"
proof -
  have f: "players_ok (c'\<lparr>bases := bs\<rparr>) = players_ok c'" "players_ok (sendbaseinfo i c') = players_ok c'"
    "players_ok (cap_addscore i tm n c') = players_ok c'" for c' bs i tm n
    by (simp_all add: players_ok_def)
  have "cdiv x 1 = x" for x by (simp add: cdiv_def)
  then show ?thesis using assms
    by (simp add: update_base_def Let_def f regenowners_players)
qed

text \<open>Regeneration at bases and the replenishing of ammunition leave every player in a valid
  state, so health, armour and ammunition never exceed what items can give.\<close>

lemma capture_players_ok:
  assumes "players_ok c"
  shows "players_ok (cap_update c) \<and> players_ok (replenishammo ci c)"
proof
  have e: "players_ok (endcheck c)"
    using assms by (auto simp: endcheck_def Let_def split: option.split) (simp add: players_ok_def)
  have "players_ok c' \<Longrightarrow> 1 \<le> t \<Longrightarrow> players_ok (fold (update_base t) js c')" for js t c'
    by (induction js arbitrary: c') (simp_all add: update_base_players)
  then show "players_ok (cap_update c)" using assms e by (simp add: cap_update_def Let_def)
  have f: "players_ok (c'\<lparr>bases := bs\<rparr>) = players_ok c'" "players_ok (sendbaseinfo i c') = players_ok c'" for c' bs i
    by (simp_all add: players_ok_def)
  have "players_ok (replenish_from ci js c)" for js
  proof (induction js)
    case (Cons i js)
    have "players_ok (upd_state (ci_clientnum ci) (on_fps (addammo (b_ammotype b) 1 1)) c')"
      if "players_ok c'" "base_valid b" for c' :: capture and b
      using that by (auto simp: base_valid_def intro!: players_ok_on_fps addammo_ok)
    then show ?case using Cons assms by (simp add: Let_def f)
  qed (simp add: assms)
  then show "players_ok (replenishammo ci c)" using assms by (simp add: replenishammo_def)
qed

end
