(* ===== verification/Collect.thy ===== *)
theory Collect
  imports World Netcodec
begin

text \<open>
  The collect modes of \<^verbatim>\<open>src/src/fpsgame/collect.h\<close> as the server compiles them
  (\<^verbatim>\<open>collectservmode\<close>): tokens that fall when players die, are carried to the enemy's base and
  deposited there. The state of the mode extends the world.
\<close>

subsection \<open>Bases and tokens\<close>

definition collectteambase :: "cstr \<Rightarrow> int" where
  "collectteambase s = (if s = ''good'' then 1 else if s = ''evil'' then 2 else 0)"

definition collectbaseteam :: "int \<Rightarrow> cstr option" where
  "collectbaseteam i = (if i = 1 then Some ''good'' else if i = 2 then Some ''evil'' else None)"

abbreviation (input) COL_BASERADIUS :: int where "COL_BASERADIUS \<equiv> 16"
abbreviation (input) COL_BASEHEIGHT :: int where "COL_BASEHEIGHT \<equiv> 16"
abbreviation (input) COL_MAXBASES :: int where "COL_MAXBASES \<equiv> 20"
abbreviation (input) TOKENLIMIT :: int where "TOKENLIMIT \<equiv> 5"
abbreviation (input) UNOWNEDTOKENLIMIT :: int where "UNOWNEDTOKENLIMIT \<equiv> 15"
abbreviation (input) SCORELIMIT :: int where "SCORELIMIT \<equiv> 50"
abbreviation (input) COL_RESPAWNSECS :: int where "COL_RESPAWNSECS \<equiv> 5"
abbreviation (input) EXPIRETOKENTIME :: int where "EXPIRETOKENTIME \<equiv> 10000"
abbreviation (input) STEALTOKENTIME :: int where "STEALTOKENTIME \<equiv> 5000"

record cbase =
  cb_id :: int
  cb_team :: int
  cb_o :: vec
  cb_laststeal :: int

definition cbase_reset :: "cbase \<Rightarrow> cbase" where
  "cbase_reset b = b\<lparr>cb_o := vec0, cb_team := 0, cb_laststeal := 0\<rparr>"

definition cbase_new :: cbase where
  "cbase_new = cbase_reset \<lparr>cb_id = 0, cb_team = 0, cb_o = vec0, cb_laststeal = 0\<rparr>"

record token =
  tk_id :: int
  tk_team :: int
  tk_droptime :: int
  tk_o :: vec
  tk_yaw :: int
  tk_dropper :: int

definition token_reset :: "token \<Rightarrow> token" where
  "token_reset t = t\<lparr>tk_o := vec0, tk_team := 0, tk_dropper := - 1, tk_droptime := 0\<rparr>"

definition token_new :: token where
  "token_new = token_reset \<lparr>tk_id = 0, tk_team = 0, tk_droptime = 0, tk_o = vec0, tk_yaw = 0, tk_dropper = 0\<rparr>"

record collect = world +
  col_bases :: "cbase list"
  col_scores :: "int list"
  tokens :: "token list"
  nexttoken :: int
  col_notgotbases :: bool

definition col_resetbases :: "collect \<Rightarrow> collect" where
  "col_resetbases c = c\<lparr>col_bases := [], tokens := [], col_scores := [0, 0], nexttoken := 0\<rparr>"

definition col_addbase :: "int \<Rightarrow> vec \<Rightarrow> int \<Rightarrow> collect \<Rightarrow> bool \<times> collect" where
  "col_addbase i ofs team c =
     (if i < 0 \<or> i \<ge> COL_MAXBASES then (False, c)
      else let bs = col_bases c @ replicate (nat (i + 1) - length (col_bases c)) cbase_new
        in (True, c\<lparr>col_bases := upd_nth i (\<lambda>b. (cbase_reset b)\<lparr>cb_id := i, cb_team := team, cb_o := ofs\<rparr>) bs\<rparr>))"

definition findtoken :: "int \<Rightarrow> collect \<Rightarrow> token option" where
  "findtoken tid c = find (\<lambda>t. tk_id t = tid) (tokens c)"

text \<open>The counter of identifiers starts again at 1 when a 32-bit integer overflows.\<close>

definition next_id :: "int \<Rightarrow> int" where
  "next_id n = (if n + 1 > INT_MAX then 1 else n + 1)"

definition droptoken :: "vec \<Rightarrow> int \<Rightarrow> int \<Rightarrow> int \<Rightarrow> int \<Rightarrow> collect \<Rightarrow> token \<times> collect" where
  "droptoken ofs yaw team droptime dropper c =
     (let n = next_id (nexttoken c);
          t = token_new\<lparr>tk_o := ofs, tk_team := team, tk_droptime := droptime, tk_id := n, tk_dropper := dropper, tk_yaw := yaw\<rparr>
      in (t, c\<lparr>tokens := tokens c @ [t], nexttoken := n\<rparr>))"

fun token_index :: "int \<Rightarrow> nat \<Rightarrow> token list \<Rightarrow> nat option" where
  "token_index tid i [] = None"
| "token_index tid i (t # ts) = (if tk_id t = tid then Some i else token_index tid (Suc i) ts)"

definition removetoken :: "int \<Rightarrow> collect \<Rightarrow> bool \<times> collect" where
  "removetoken tid c = (case token_index tid 0 (tokens c) of
     Some i \<Rightarrow> (True, c\<lparr>tokens := remove_unordered i (tokens c)\<rparr>) | None \<Rightarrow> (False, c))"

subsection \<open>Scores\<close>

definition col_totalscore :: "int \<Rightarrow> collect \<Rightarrow> int" where
  "col_totalscore team c = (if team \<ge> 1 \<and> team \<le> 2 then col_scores c ! nat (team - 1) else 0)"

definition col_setscore :: "int \<Rightarrow> int \<Rightarrow> collect \<Rightarrow> int \<times> collect" where
  "col_setscore team score c = (if team \<ge> 1 \<and> team \<le> 2
     then (score, c\<lparr>col_scores := (col_scores c)[nat (team - 1) := score]\<rparr>) else (0, c))"

definition col_addscore :: "int \<Rightarrow> int \<Rightarrow> collect \<Rightarrow> int \<times> collect" where
  "col_addscore team score c = (if team \<ge> 1 \<and> team \<le> 2
     then let v = col_scores c ! nat (team - 1) + score
          in (v, c\<lparr>col_scores := (col_scores c)[nat (team - 1) := v]\<rparr>)
     else (0, c))"

definition col_getteamscore :: "cstr \<Rightarrow> collect \<Rightarrow> int" where
  "col_getteamscore t c = col_totalscore (collectteambase t) c"

definition col_getteamscores :: "collect \<Rightarrow> (cstr \<times> int) list" where
  "col_getteamscores c = concat (map (\<lambda>k. if col_scores c ! k \<noteq> 0
     then [(the (collectbaseteam (int k + 1)), col_scores c ! k)] else []) [0, 1])"

definition col_insidebase :: "cbase \<Rightarrow> vec \<Rightarrow> bool" where
  "col_insidebase b ofs \<longleftrightarrow>
     (let dx = vx (cb_o b) - vx ofs; dy = vy (cb_o b) - vy ofs; dz = vz (cb_o b) - vz ofs
      in dx * dx + dy * dy \<le> of_int (COL_BASERADIUS * COL_BASERADIUS) \<and> \<bar>dz\<bar> \<le> of_int COL_BASEHEIGHT)"

subsection \<open>Set-up\<close>

definition col_reset :: "bool \<Rightarrow> collect \<Rightarrow> collect" where
  "col_reset isempty c = (col_resetbases c)\<lparr>col_notgotbases := \<not> isempty\<rparr>"

definition col_cleanup :: "collect \<Rightarrow> collect" where
  "col_cleanup = col_reset False"

fun col_setup_bases :: "entity list \<Rightarrow> collect \<Rightarrow> collect" where
  "col_setup_bases [] c = c"
| "col_setup_bases (e # es) c =
     (if e_type e \<noteq> FLAG \<or> e_attr2 e < 1 \<or> e_attr2 e > 2 then col_setup_bases es c
      else let (ok, c) = col_addbase (int (length (col_bases c))) (e_o e) (e_attr2 e) c
           in if \<not> ok then c else col_setup_bases es c)"

definition col_setup :: "collect \<Rightarrow> collect" where
  "col_setup c =
     (let c = col_reset False c
      in if notgotitems c \<or> ments c = [] then c
         else (col_setup_bases (ments c) c)\<lparr>col_notgotbases := False\<rparr>)"

definition col_newmap :: "collect \<Rightarrow> collect" where
  "col_newmap = col_reset True"

subsection \<open>Handlers\<close>

text \<open>The loops that walk the tokens from the last to the first and remove some of them:
  \<open>f\<close> decides about a token, may change it, and carries a state. The result has the state, the
  identifiers of the removed tokens and the tokens that are left.\<close>

fun rev_expire :: "(token \<Rightarrow> 's \<Rightarrow> bool \<times> token \<times> 's) \<Rightarrow> nat \<Rightarrow> 's \<Rightarrow> int list \<Rightarrow> token list
    \<Rightarrow> 's \<times> int list \<times> token list" where
  "rev_expire f 0 s ex ts = (s, ex, ts)"
| "rev_expire f (Suc i) s ex ts =
     (let (kill, t, s) = f (ts ! i) s; ts = ts[i := t]
      in if kill then rev_expire f i s (ex @ [tk_id t]) (remove_unordered i ts)
         else rev_expire f i s ex ts)"

definition count_token :: "int \<Rightarrow> int \<Rightarrow> token \<Rightarrow> int \<times> int \<Rightarrow> bool \<times> token \<times> int \<times> int" where
  "count_token team limit t s =
     (if tk_team t = team then (fst s + 1 > limit, t, (fst s + 1, snd s))
      else (snd s + 1 > limit, t, (fst s, snd s + 1)))"

definition expire_dropped :: "int \<Rightarrow> int \<Rightarrow> token \<Rightarrow> int \<times> int \<Rightarrow> bool \<times> token \<times> int \<times> int" where
  "expire_dropped cn team t s = (if tk_dropper t = cn then count_token team TOKENLIMIT t s else (False, t, s))"

text \<open>The loop that drops \<open>numdrops\<close> tokens in a circle; the first belongs to the team of the
  player, the others are the tokens it carried.\<close>

fun drop_loop :: "nat \<Rightarrow> int \<Rightarrow> int \<Rightarrow> int \<Rightarrow> int \<Rightarrow> clientinfo \<Rightarrow> marg list \<Rightarrow> collect \<Rightarrow> marg list \<times> collect" where
  "drop_loop 0 i n yaw team ci out c = (out, c)"
| "drop_loop (Suc k) i n yaw team ci out c =
     (let (t, c) = droptoken (gs_o (ci_state ci)) (yaw + cdiv (i * 360) n) (if i = 0 then team else - team)
                     (lastmillis c) (ci_clientnum ci) c
      in drop_loop k (i + 1) n yaw team ci (out @ [MI (tk_id t), MI (tk_team t), MI (tk_yaw t)]) c)"

definition droptokens :: "clientinfo \<Rightarrow> bool \<Rightarrow> collect \<Rightarrow> collect" where
  "droptokens ci penalty c =
     (if col_notgotbases c then c
      else let cn = ci_clientnum ci; team = collectteambase (ci_team ci);
               carried = (if penalty then 0 else gs_tokens (ci_state ci));
               (s, ex, ts) = rev_expire (expire_dropped cn team) (length (tokens c)) (1, carried) [] (tokens c);
               c = c\<lparr>tokens := ts\<rparr>;
               ofs = gs_o (ci_state ci);
               out = (if ex \<noteq> [] then MI N_EXPIRETOKENS # map MI ex @ [MI (- 1)] else [])
                 @ [MI N_DROPTOKENS, MI cn, MI (dmf_int (vx ofs)), MI (dmf_int (vy ofs)), MI (dmf_int (vz ofs))];
               numdrops = 1 + carried;
               (yaw, c) = draw 360 c;
               (out, c) = drop_loop (nat numdrops) 0 numdrops yaw team ci out c;
               c = emit (sendf (- 1) 1 (out @ [MI (- 1)])) c
           in upd_state cn (\<lambda>s. s\<lparr>gs_tokens := 0\<rparr>) c)"

definition expire_unowned :: "int \<Rightarrow> int \<Rightarrow> token \<Rightarrow> int \<times> int \<Rightarrow> bool \<times> token \<times> int \<times> int" where
  "expire_unowned cn team t s =
     (if tk_dropper t = cn then count_token team UNOWNEDTOKENLIMIT (t\<lparr>tk_dropper := INT_MIN\<rparr>) s
      else if tk_dropper t > INT_MIN then (False, t, s)
      else count_token team UNOWNEDTOKENLIMIT t s)"

text \<open>The two nested loops of \<^verbatim>\<open>leavegame\<close> are one walk over the tokens: the inner loop takes over
  when the first token is removed and opens the packet.\<close>

definition col_leavegame :: "clientinfo \<Rightarrow> bool \<Rightarrow> collect \<Rightarrow> collect" where
  "col_leavegame ci disconnecting c =
     (let cn = ci_clientnum ci; c = upd_state cn (\<lambda>s. s\<lparr>gs_tokens := 0\<rparr>) c
      in if \<not> disconnecting then c
         else let (s, ex, ts) = rev_expire (expire_unowned cn (collectteambase (ci_team ci))) (length (tokens c)) (0, 0) [] (tokens c);
                  c = c\<lparr>tokens := ts\<rparr>
              in if ex \<noteq> [] then emit (sendf (- 1) 1 (MI N_EXPIRETOKENS # map MI ex @ [MI (- 1)])) c else c)"

definition col_died :: "clientinfo \<Rightarrow> clientinfo option \<Rightarrow> collect \<Rightarrow> collect" where
  "col_died ci actor c = droptokens ci
     (case actor of None \<Rightarrow> True | Some a \<Rightarrow> isteam (gamemode c) (ci_team a) (ci_team ci)) c"

definition col_canspawn :: "clientinfo \<Rightarrow> bool \<Rightarrow> collect \<Rightarrow> bool" where
  "col_canspawn ci connecting c \<longleftrightarrow> connecting \<or> gs_lastdeath (ci_state ci) = 0
     \<or> gamemillis c + curtime c - gs_lastdeath (ci_state ci) \<ge> COL_RESPAWNSECS * 1000"

definition col_canchangeteam :: "cstr \<Rightarrow> bool" where
  "col_canchangeteam newteam \<longleftrightarrow> collectteambase newteam > 0"

definition deposit_own :: "clientinfo \<Rightarrow> int \<Rightarrow> int \<Rightarrow> collect \<Rightarrow> collect" where
  "deposit_own ci basenum team c =
     (let cn = ci_clientnum ci; n = gs_tokens (ci_state ci);
          c = c\<lparr>col_bases := upd_nth basenum (\<lambda>b. b\<lparr>cb_laststeal := gamemillis c\<rparr>) (col_bases c)\<rparr>;
          c = upd_state cn (\<lambda>s. s\<lparr>gs_flags := gs_flags s + n\<rparr>) c;
          (score, c) = col_addscore team n c;
          c = emit (sendf (- 1) 1 [MI N_DEPOSITTOKENS, MI cn, MI basenum, MI n, MI team, MI score,
                MI (gs_flags (ci_state ci) + n)]) c;
          c = upd_state cn (\<lambda>s. s\<lparr>gs_tokens := 0\<rparr>) c
      in if score \<ge> SCORELIMIT then startintermission c else c)"

definition steal_token :: "clientinfo \<Rightarrow> int \<Rightarrow> int \<Rightarrow> collect \<Rightarrow> collect" where
  "steal_token ci basenum team c =
     (let b = col_bases c ! nat basenum;
          c = c\<lparr>col_bases := upd_nth basenum (\<lambda>b. b\<lparr>cb_laststeal := gamemillis c\<rparr>) (col_bases c)\<rparr>;
          (score, c) = col_addscore (cb_team b) (- 1) c;
          (yaw, c) = draw 360 c;
          (t, c) = droptoken (cb_o b) yaw team (lastmillis c) (- 1 - basenum) c
      in emit (sendf (- 1) 1 [MI N_STEALTOKENS, MI (ci_clientnum ci), MI team, MI basenum, MI (cb_team b), MI score,
           MI (dmf_int (vx (tk_o t))), MI (dmf_int (vy (tk_o t))), MI (dmf_int (vz (tk_o t))), MI (tk_id t), MI (tk_yaw t), MI (- 1)]) c)"

definition deposittokens :: "clientinfo \<Rightarrow> int \<Rightarrow> collect \<Rightarrow> collect" where
  "deposittokens ci basenum c =
     (if col_notgotbases c \<or> \<not> inrange basenum (col_bases c) \<or> gs_state (ci_state ci) \<noteq> CS_ALIVE \<or> ci_team ci = [] then c
      else let b = col_bases c ! nat basenum; team = collectteambase (ci_team ci)
        in if collectbaseteam (cb_team b) = None \<or> cb_team b = team then c
           else if gs_tokens (ci_state ci) > 0 then deposit_own ci basenum team c
           else if gamemillis c < cb_laststeal b + STEALTOKENTIME \<or> col_totalscore (cb_team b) c \<le> 0 then c
           else if int (length (filter (\<lambda>t. tk_dropper t = - 1 - basenum) (tokens c))) < TOKENLIMIT
           then steal_token ci basenum team c
           else c)"

definition taketoken :: "clientinfo \<Rightarrow> int \<Rightarrow> collect \<Rightarrow> collect" where
  "taketoken ci tid c =
     (if col_notgotbases c \<or> gs_state (ci_state ci) \<noteq> CS_ALIVE \<or> ci_team ci = [] then c
      else case findtoken tid c of
             None \<Rightarrow> c
           | Some t \<Rightarrow>
               let team = collectteambase (ci_team ci); cn = ci_clientnum ci;
                   n = (if tk_team t \<noteq> team \<and> (tk_team t > 0 \<or> - tk_team t = team) \<and> gs_tokens (ci_state ci) < TOKENLIMIT
                        then gs_tokens (ci_state ci) + 1 else gs_tokens (ci_state ci));
                   c = upd_state cn (\<lambda>s. s\<lparr>gs_tokens := n\<rparr>) c
               in emit (sendf (- 1) 1 [MI N_TAKETOKEN, MI cn, MI tid, MI n]) c)"

definition expire_old :: "int \<Rightarrow> token \<Rightarrow> unit \<Rightarrow> bool \<times> token \<times> unit" where
  "expire_old now t s = (now - tk_droptime t \<ge> EXPIRETOKENTIME, t, ())"

definition col_update :: "collect \<Rightarrow> collect" where
  "col_update c =
     (if gamemillis c \<ge> gamelimit c \<or> col_notgotbases c then c
      else let (s, ex, ts) = rev_expire (expire_old (lastmillis c)) (length (tokens c)) () [] (tokens c);
               c = c\<lparr>tokens := ts\<rparr>
           in if ex \<noteq> [] then emit (sendf (- 1) 1 (MI N_EXPIRETOKENS # map MI ex @ [MI (- 1)])) c else c)"

definition col_initclient :: "collect \<Rightarrow> int list" where
  "col_initclient c = [N_INITTOKENS] @ take 2 (col_scores c) @ [int (length (tokens c))]
     @ concat (map (\<lambda>t. [tk_id t, tk_team t, tk_yaw t, dmf_int (vx (tk_o t)), dmf_int (vy (tk_o t)), dmf_int (vz (tk_o t))]) (tokens c))
     @ concat (map (\<lambda>ci. [ci_clientnum ci, gs_tokens (ci_state ci)])
         (filter (\<lambda>ci. gs_state (ci_state ci) = CS_ALIVE \<and> gs_tokens (ci_state ci) > 0) (clients c)))
     @ [- 1]"

fun col_parsebases_loop :: "nat \<Rightarrow> int \<Rightarrow> bool \<Rightarrow> uchar databuf \<Rightarrow> collect \<Rightarrow> uchar databuf \<times> collect" where
  "col_parsebases_loop 0 i commit p c = (p, c)"
| "col_parsebases_loop (Suc k) i commit p c =
     (let (tm, p) = getint p; (x, p) = get_coord p; (y, p) = get_coord p; (z, p) = get_coord p
      in if db_overread p then (p, c)
         else col_parsebases_loop k (i + 1) commit p
                (if commit \<and> col_notgotbases c then snd (col_addbase i \<lparr>vx = x, vy = y, vz = z\<rparr> (sint tm) c) else c))"

definition col_parsebases :: "bool \<Rightarrow> uchar databuf \<Rightarrow> collect \<Rightarrow> uchar databuf \<times> collect" where
  "col_parsebases commit p c =
     (let (numbases, p) = getint p;
          (p, c) = col_parsebases_loop (nat (sint numbases)) 0 commit p c
      in (p, if commit \<and> col_notgotbases c then c\<lparr>col_notgotbases := False\<rparr> else c))"

definition msg_inittokens :: "clientinfo \<Rightarrow> uchar databuf \<Rightarrow> collect \<Rightarrow> uchar databuf \<times> collect" where
  "msg_inittokens ci p c = col_parsebases (can_play ci \<and> ci_clientmap ci = smapname c) p c"

definition msg_taketoken :: "clientinfo \<Rightarrow> clientinfo option \<Rightarrow> uchar databuf \<Rightarrow> collect \<Rightarrow> uchar databuf \<times> collect" where
  "msg_taketoken ci cq p c = (let (tid, p) = getint p
     in (p, case cq of Some q \<Rightarrow> if can_play ci then taketoken q (sint tid) c else c | None \<Rightarrow> c))"

definition msg_deposittokens :: "clientinfo \<Rightarrow> clientinfo option \<Rightarrow> uchar databuf \<Rightarrow> collect \<Rightarrow> uchar databuf \<times> collect" where
  "msg_deposittokens ci cq p c = (let (tid, p) = getint p
     in (p, case cq of Some q \<Rightarrow> if can_play ci then deposittokens q (sint tid) c else c | None \<Rightarrow> c))"

subsection \<open>What the shared operations leave alone\<close>

lemma col_frame [simp]:
  "tokens (emit e c) = tokens c" "tokens (upd_client cn f c) = tokens c" "tokens (snd (draw n c)) = tokens c"
  "col_scores (emit e c) = col_scores c" "col_scores (upd_client cn f c) = col_scores c" "col_scores (snd (draw n c)) = col_scores c"
  "col_bases (emit e c) = col_bases c" "col_bases (upd_client cn f c) = col_bases c" "col_bases (snd (draw n c)) = col_bases c"
  "nexttoken (emit e c) = nexttoken c" "nexttoken (upd_client cn f c) = nexttoken c" "nexttoken (snd (draw n c)) = nexttoken c"
  "col_notgotbases (emit e c) = col_notgotbases c" "col_notgotbases (upd_client cn f c) = col_notgotbases c"
  "col_notgotbases (snd (draw n c)) = col_notgotbases c"
  by (simp_all add: emit_def upd_client_def draw_def case_prod_beta)

lemma col_state_frame [simp]:
  "tokens (upd_state cn f c) = tokens c" "col_scores (upd_state cn f c) = col_scores c"
  "col_bases (upd_state cn f c) = col_bases c" "nexttoken (upd_state cn f c) = nexttoken c"
  "col_notgotbases (upd_state cn f c) = col_notgotbases c"
  by (simp_all add: upd_state_def)

lemma col_ranks_frame [simp]:
  "tokens (fold (\<lambda>t. calc_team_ranks (Some t)) ts c) = tokens c"
  "col_scores (fold (\<lambda>t. calc_team_ranks (Some t)) ts c) = col_scores c"
  "col_bases (fold (\<lambda>t. calc_team_ranks (Some t)) ts c) = col_bases c"
  by (induction ts arbitrary: c) (simp_all add: calc_team_ranks_def)

lemma col_startintermission [simp]:
  "tokens (startintermission c) = tokens c" "col_scores (startintermission c) = col_scores c"
  "col_bases (startintermission c) = col_bases c"
  by (simp_all add: startintermission_def enter_intermission_def calc_player_ranks_def calc_team_ranks_def Let_def)

subsection \<open>The loops over the tokens\<close>

text \<open>What such a loop keeps, as a function of the tokens in the order of the walk.\<close>

fun survivors :: "(token \<Rightarrow> 's \<Rightarrow> bool \<times> token \<times> 's) \<Rightarrow> 's \<Rightarrow> token list \<Rightarrow> token list" where
  "survivors f s [] = []"
| "survivors f s (t # ts) = (let (kill, t', s') = f t s in (if kill then [] else [t']) @ survivors f s' ts)"

lemma rev_expire_survivors:
  "n \<le> length ts \<Longrightarrow> mset (snd (snd (rev_expire f n s ex ts)))
     = mset (drop n ts) + mset (survivors f s (rev (take n ts)))"
proof (induction n arbitrary: s ex ts)
  case (Suc n)
  obtain kill t s' where f: "f (ts ! n) s = (kill, t, s')" by (cases "f (ts ! n) s") auto
  have n: "n < length ts" using Suc.prems by simp
  have take: "take (Suc n) ts = take n ts @ [ts ! n]" using n by (simp add: take_Suc_conv_app_nth)
  let ?ts = "ts[n := t]"
  have dropu: "drop n ?ts = t # drop (Suc n) ts" using n by (simp add: Cons_nth_drop_Suc [symmetric])
  show ?case
  proof (cases kill)
    case True
    have rem: "take n (remove_unordered n ?ts) = take n ts" using n by (simp add: take_remove_unordered)
    have "mset (remove_unordered n ?ts) = mset ?ts - {#t#}"
      using n by (simp add: mset_remove_unordered)
    moreover have "mset ?ts = mset (take n ts) + add_mset t (mset (drop (Suc n) ts))"
      using append_take_drop_id [of n ?ts] dropu n by (metis (no_types, lifting) mset.simps(2) mset_append take_update_cancel order_refl)
    moreover have "mset (remove_unordered n ?ts) = mset (take n ts) + mset (drop n (remove_unordered n ?ts))"
      using append_take_drop_id [of n "remove_unordered n ?ts"] rem by (metis mset_append)
    ultimately have "mset (drop n (remove_unordered n ?ts)) = mset (drop (Suc n) ts)" by simp
    moreover have "n \<le> length (remove_unordered n ?ts)" using n by simp
    ultimately show ?thesis using True f Suc.IH [of "remove_unordered n ?ts" s' "ex @ [tk_id t]"] rem take by simp
  next
    case False
    then show ?thesis using f Suc.IH [of ?ts s' ex] n dropu take by simp
  qed
qed simp

lemma rev_expire_all:
  "mset (snd (snd (rev_expire f (length ts) s ex ts))) = mset (survivors f s (rev ts))"
  using rev_expire_survivors [of "length ts" ts] by simp

lemma count_rev_expire:
  "length (filter P (snd (snd (rev_expire f (length ts) s ex ts)))) = length (filter P (survivors f s (rev ts)))"
  by (metis mset_filter rev_expire_all size_mset)

lemma survivors_filter:
  assumes "\<And>t s. fst (f t s) = p t \<and> fst (snd (f t s)) = t"
  shows "survivors f s ts = filter (\<lambda>t. \<not> p t) ts"
  using assms
proof (induction ts arbitrary: s)
  case (Cons t ts)
  obtain k t' s' where "f t s = (k, t', s')" by (cases "f t s") auto
  with Cons show ?case by (auto dest: spec [of _ s]) (metis fst_conv snd_conv)+
qed simp

text \<open>The periodic update of a collect game removes exactly the tokens that have lain for
  \<open>EXPIRETOKENTIME\<close>; every other token stays as it is.\<close>

lemma col_update_expires:
  assumes "gamemillis c < gamelimit c" and "\<not> col_notgotbases c"
  shows "mset (tokens (col_update c))
    = filter_mset (\<lambda>t. lastmillis c - tk_droptime t < EXPIRETOKENTIME) (mset (tokens c))"
proof -
  have "mset (snd (snd (rev_expire (expire_old (lastmillis c)) (length (tokens c)) () [] (tokens c))))
      = mset (filter (\<lambda>t. \<not> lastmillis c - tk_droptime t \<ge> EXPIRETOKENTIME) (rev (tokens c)))"
    unfolding rev_expire_all by (subst survivors_filter [where p = "\<lambda>t. lastmillis c - tk_droptime t \<ge> EXPIRETOKENTIME"])
      (simp_all add: expire_old_def)
  then show ?thesis using assms
    by (simp add: col_update_def Let_def case_prod_beta not_le)
qed

abbreviation own_dropped :: "int \<Rightarrow> int \<Rightarrow> token \<Rightarrow> bool" where
  "own_dropped cn team t \<equiv> tk_dropper t = cn \<and> tk_team t = team"

abbreviation enemy_dropped :: "int \<Rightarrow> int \<Rightarrow> token \<Rightarrow> bool" where
  "enemy_dropped cn team t \<equiv> tk_dropper t = cn \<and> tk_team t \<noteq> team"

lemma survivors_limit:
  "int (length (filter (own_dropped cn team) (survivors (expire_dropped cn team) (fr, en) ts))) \<le> max 0 (TOKENLIMIT - fr)
   \<and> int (length (filter (enemy_dropped cn team) (survivors (expire_dropped cn team) (fr, en) ts))) \<le> max 0 (TOKENLIMIT - en)"
proof (induction ts arbitrary: fr en)
  case (Cons t ts)
  show ?case
    using Cons [of fr en] Cons [of "fr + 1" en] Cons [of fr "en + 1"]
    by (auto simp: expire_dropped_def count_token_def)
qed simp

lemma survivors_others:
  "filter (\<lambda>t. tk_dropper t \<noteq> cn) (survivors (expire_dropped cn team) s ts) = filter (\<lambda>t. tk_dropper t \<noteq> cn) ts"
  by (induction ts arbitrary: s) (auto simp: expire_dropped_def count_token_def)

lemma droptoken_simps [simp]:
  "tokens (snd (droptoken ofs yaw team dt dr c)) = tokens c @ [fst (droptoken ofs yaw team dt dr c)]"
  "tk_team (fst (droptoken ofs yaw team dt dr c)) = team" "tk_dropper (fst (droptoken ofs yaw team dt dr c)) = dr"
  "tk_droptime (fst (droptoken ofs yaw team dt dr c)) = dt"
  "lastmillis (snd (droptoken ofs yaw team dt dr c)) = lastmillis c" "clients (snd (droptoken ofs yaw team dt dr c)) = clients c"
  "connects (snd (droptoken ofs yaw team dt dr c)) = connects c"
  "col_scores (snd (droptoken ofs yaw team dt dr c)) = col_scores c" "col_bases (snd (droptoken ofs yaw team dt dr c)) = col_bases c"
  by (simp_all add: droptoken_def Let_def)

text \<open>The tokens that the loop drops, by the team of each.\<close>

lemma drop_loop_spec:
  "\<exists>ts. tokens (snd (drop_loop k i n yaw team ci out c)) = tokens c @ ts
     \<and> map tk_team ts = map (\<lambda>j. if i + int j = 0 then team else - team) [0..<k]
     \<and> (\<forall>t \<in> set ts. tk_dropper t = ci_clientnum ci \<and> tk_droptime t = lastmillis c)"
proof (induction k arbitrary: i out c)
  case (Suc k)
  define d where "d = droptoken (gs_o (ci_state ci)) (yaw + cdiv (i * 360) n) (if i = 0 then team else - team)
    (lastmillis c) (ci_clientnum ci) c"
  define out' where "out' = out @ [MI (tk_id (fst d)), MI (tk_team (fst d)), MI (tk_yaw (fst d))]"
  have unf: "drop_loop (Suc k) i n yaw team ci out c = drop_loop k (i + 1) n yaw team ci out' (snd d)"
    by (simp add: d_def out'_def case_prod_beta del: droptoken_simps)
  have lm: "lastmillis (snd d) = lastmillis c" by (simp add: d_def)
  obtain ts where ts: "tokens (snd (drop_loop k (i + 1) n yaw team ci out' (snd d))) = tokens (snd d) @ ts"
    "map tk_team ts = map (\<lambda>j. if (i + 1) + int j = 0 then team else - team) [0..<k]"
    "\<forall>t \<in> set ts. tk_dropper t = ci_clientnum ci \<and> tk_droptime t = lastmillis c"
    using Suc.IH [of "i + 1" out' "snd d"] unfolding lm by blast
  have up: "[0..<Suc k] = 0 # map Suc [0..<k]" by (simp add: map_Suc_upt upt_conv_Cons del: upt_Suc)
  have "map tk_team (fst d # ts) = map (\<lambda>j. if i + int j = 0 then team else - team) [0..<Suc k]"
    unfolding up by (simp add: ts(2) add_ac) (simp add: d_def)
  moreover have "tokens (snd d) = tokens c @ [fst d]" "tk_dropper (fst d) = ci_clientnum ci" "tk_droptime (fst d) = lastmillis c"
    by (simp_all add: d_def)
  ultimately show ?case unfolding unf using ts by (intro exI [of _ "fst d # ts"]) simp
qed simp

lemma drop_loop_frame [simp]:
  "clients (snd (drop_loop k i n yaw team ci out c)) = clients c"
  "connects (snd (drop_loop k i n yaw team ci out c)) = connects c"
  "col_scores (snd (drop_loop k i n yaw team ci out c)) = col_scores c"
  "col_bases (snd (drop_loop k i n yaw team ci out c)) = col_bases c"
  by (induction k arbitrary: i out c) (simp_all add: case_prod_beta Let_def)

text \<open>The parts of \<^verbatim>\<open>droptokens\<close> that matter for the tokens.\<close>

definition drop_carried :: "clientinfo \<Rightarrow> bool \<Rightarrow> int" where
  "drop_carried ci penalty = (if penalty then 0 else gs_tokens (ci_state ci))"

definition drop_survivors :: "clientinfo \<Rightarrow> bool \<Rightarrow> collect \<Rightarrow> token list" where
  "drop_survivors ci penalty c = snd (snd (rev_expire (expire_dropped (ci_clientnum ci) (collectteambase (ci_team ci)))
     (length (tokens c)) (1, drop_carried ci penalty) [] (tokens c)))"

lemma droptokens_unfold:
  assumes "\<not> col_notgotbases c"
  obtains out yaw out' c1 where
    "droptokens ci penalty c = upd_state (ci_clientnum ci) (\<lambda>s. s\<lparr>gs_tokens := 0\<rparr>)
       (emit (sendf (- 1) 1 out') (snd (drop_loop (nat (1 + drop_carried ci penalty)) 0 (1 + drop_carried ci penalty)
          yaw (collectteambase (ci_team ci)) ci out c1)))"
    "tokens c1 = drop_survivors ci penalty c" "lastmillis c1 = lastmillis c" "clients c1 = clients c"
    "col_scores c1 = col_scores c" "col_bases c1 = col_bases c"
proof -
  let ?c = "c\<lparr>tokens := drop_survivors ci penalty c\<rparr>"
  have "\<exists>out out'. droptokens ci penalty c = upd_state (ci_clientnum ci) (\<lambda>s. s\<lparr>gs_tokens := 0\<rparr>)
       (emit (sendf (- 1) 1 out') (snd (drop_loop (nat (1 + drop_carried ci penalty)) 0 (1 + drop_carried ci penalty)
          (fst (draw 360 ?c)) (collectteambase (ci_team ci)) ci out (snd (draw 360 ?c)))))"
    unfolding droptokens_def drop_survivors_def drop_carried_def Let_def case_prod_beta if_not_P [OF assms]
    by (intro exI) (rule refl)
  then obtain out out' where "droptokens ci penalty c = upd_state (ci_clientnum ci) (\<lambda>s. s\<lparr>gs_tokens := 0\<rparr>)
       (emit (sendf (- 1) 1 out') (snd (drop_loop (nat (1 + drop_carried ci penalty)) 0 (1 + drop_carried ci penalty)
          (fst (draw 360 ?c)) (collectteambase (ci_team ci)) ci out (snd (draw 360 ?c)))))" by (elim exE)
  then show thesis by (rule that) simp_all
qed

text \<open>C34: after a player has dropped its tokens there are at most \<open>TOKENLIMIT\<close> tokens of its own team and
  at most \<open>TOKENLIMIT\<close> others on the ground that it dropped, whatever was there before; the tokens that
  other players dropped stay.\<close>

theorem droptokens_limits:
  assumes "\<not> col_notgotbases c" and "collectteambase (ci_team ci) \<noteq> 0"
    and "0 \<le> gs_tokens (ci_state ci)" "gs_tokens (ci_state ci) \<le> TOKENLIMIT"
  shows "int (length (filter (own_dropped (ci_clientnum ci) (collectteambase (ci_team ci))) (tokens (droptokens ci penalty c)))) \<le> TOKENLIMIT
    \<and> int (length (filter (enemy_dropped (ci_clientnum ci) (collectteambase (ci_team ci))) (tokens (droptokens ci penalty c)))) \<le> TOKENLIMIT
    \<and> filter_mset (\<lambda>t. tk_dropper t \<noteq> ci_clientnum ci) (mset (tokens (droptokens ci penalty c)))
        = filter_mset (\<lambda>t. tk_dropper t \<noteq> ci_clientnum ci) (mset (tokens c))"
proof -
  let ?cn = "ci_clientnum ci" and ?team = "collectteambase (ci_team ci)" and ?k = "drop_carried ci penalty"
  let ?own = "own_dropped ?cn ?team" and ?en = "enemy_dropped ?cn ?team"
  obtain out yaw out' c1 where d: "droptokens ci penalty c = upd_state ?cn (\<lambda>s. s\<lparr>gs_tokens := 0\<rparr>)
       (emit (sendf (- 1) 1 out') (snd (drop_loop (nat (1 + ?k)) 0 (1 + ?k) yaw ?team ci out c1)))"
    and c1: "tokens c1 = drop_survivors ci penalty c"
    by (rule droptokens_unfold [OF assms(1)])
  obtain ts where ts: "tokens (snd (drop_loop (nat (1 + ?k)) 0 (1 + ?k) yaw ?team ci out c1)) = tokens c1 @ ts"
    "map tk_team ts = map (\<lambda>j. if 0 + int j = 0 then ?team else - ?team) [0..<nat (1 + ?k)]"
    "\<forall>t \<in> set ts. tk_dropper t = ci_clientnum ci \<and> tk_droptime t = lastmillis c1"
    using drop_loop_spec [of "nat (1 + ?k)" 0 "1 + ?k" yaw ?team ci out c1] by blast
  have k: "0 \<le> ?k" "?k \<le> TOKENLIMIT" using assms(3,4) by (simp_all add: drop_carried_def)
  have up: "[0..<nat (1 + ?k)] = 0 # map Suc [0..<nat ?k]" using k by (simp add: nat_add_distrib map_Suc_upt upt_conv_Cons del: upt_Suc)
  obtain t0 ts' where cons: "ts = t0 # ts'" using ts(2) unfolding up by (cases ts) auto
  have teams: "tk_team t0 = ?team" "\<forall>t \<in> set ts'. tk_team t \<noteq> ?team" "length ts' = nat ?k"
  proof -
    have m: "map tk_team ts' = map (\<lambda>j. - ?team) [0..<nat ?k]" and "tk_team t0 = ?team"
      using ts(2) unfolding up cons by (simp_all add: comp_def)
    from m have "set (map tk_team ts') \<subseteq> {- ?team}" by auto
    then show "\<forall>t \<in> set ts'. tk_team t \<noteq> ?team" using assms(2) by auto
    show "tk_team t0 = ?team" by fact
    show "length ts' = nat ?k" using arg_cong [OF m, of length] by simp
  qed
  have new: "length (filter ?own ts) = 1" "length (filter ?en ts) = nat ?k"
    using teams ts(3) unfolding cons by (auto simp: filter_empty_conv filter_id_conv)
  have old: "int (length (filter ?own (drop_survivors ci penalty c))) \<le> TOKENLIMIT - 1"
    "int (length (filter ?en (drop_survivors ci penalty c))) \<le> TOKENLIMIT - ?k"
    using survivors_limit [of ?cn ?team 1 ?k "rev (tokens c)"] k
    unfolding drop_survivors_def count_rev_expire by linarith+
  have oth: "filter_mset (\<lambda>t. tk_dropper t \<noteq> ?cn) (mset (drop_survivors ci penalty c)) = filter_mset (\<lambda>t. tk_dropper t \<noteq> ?cn) (mset (tokens c))"
    unfolding drop_survivors_def rev_expire_all by (simp flip: mset_filter) (simp add: survivors_others mset_filter)
  have "filter (\<lambda>t. tk_dropper t \<noteq> ?cn) ts = []" using ts(3) by (simp add: filter_empty_conv)
  then show ?thesis using new old oth k ts(3) by (simp add: d c1 ts(1))
qed

subsection \<open>Invariant and reachable states\<close>

definition carry_ok :: "'a world_scheme \<Rightarrow> bool" where
  "carry_ok w \<longleftrightarrow> (\<forall>ci \<in> set (clients w). 0 \<le> gs_tokens (ci_state ci) \<and> gs_tokens (ci_state ci) \<le> TOKENLIMIT)"

definition col_inv :: "collect \<Rightarrow> bool" where
  "col_inv c \<longleftrightarrow> length (col_scores c) = 2 \<and> (\<forall>s \<in> set (col_scores c). 0 \<le> s)
     \<and> int (length (col_bases c)) \<le> COL_MAXBASES \<and> carry_ok c"

lemma carry_ok_alt: "carry_ok w \<longleftrightarrow> list_all (\<lambda>n. 0 \<le> n \<and> n \<le> TOKENLIMIT) (map (\<lambda>ci. gs_tokens (ci_state ci)) (clients w))"
  by (simp add: carry_ok_def list_all_iff)

lemma carry_ok_intermission [simp]: "carry_ok (startintermission w) = carry_ok w"
  unfolding carry_ok_alt by (subst map_clients_startintermission) simp_all

lemma carry_ok_frame [simp]:
  "carry_ok (emit e w) = carry_ok w" "carry_ok (snd (draw n w)) = carry_ok w"
  by (simp_all add: carry_ok_def)

lemma col_inv_score: "col_inv c \<Longrightarrow> 0 \<le> col_totalscore team c"
  by (auto simp: col_inv_def col_totalscore_def)

lemma carry_ok_upd [preserves]:
  assumes "carry_ok w" and "\<And>s. 0 \<le> gs_tokens s \<and> gs_tokens s \<le> TOKENLIMIT \<Longrightarrow> 0 \<le> gs_tokens (f s) \<and> gs_tokens (f s) \<le> TOKENLIMIT"
  shows "carry_ok (upd_state cn f w)"
  using assms by (auto simp: carry_ok_def upd_state_def upd_client_def)

lemma col_inv_frame [simp]:
  "col_inv (emit e c) = col_inv c" "col_inv (snd (draw n c)) = col_inv c" "col_inv (startintermission c) = col_inv c"
  by (simp_all add: col_inv_def)

lemma col_inv_tokens [simp]: "col_inv (c\<lparr>tokens := ts\<rparr>) = col_inv c" "col_inv (snd (droptoken ofs yaw team dt dr c)) = col_inv c"
  by (simp_all add: col_inv_def carry_ok_def)

lemma col_inv_drop_loop [simp]: "col_inv (snd (drop_loop k i n yaw team ci out c)) = col_inv c"
  by (simp add: col_inv_def carry_ok_def)

lemma col_inv_upd [preserves]:
  assumes "col_inv c" and "\<And>s. 0 \<le> gs_tokens s \<and> gs_tokens s \<le> TOKENLIMIT \<Longrightarrow> 0 \<le> gs_tokens (f s) \<and> gs_tokens (f s) \<le> TOKENLIMIT"
  shows "col_inv (upd_state cn f c)"
  using assms carry_ok_upd [of c f cn] by (simp add: col_inv_def)

lemma col_inv_addscore [preserves]:
  assumes "col_inv c" and "0 \<le> col_totalscore team c + n"
  shows "col_inv (snd (col_addscore team n c))"
  using assms set_update_subset_insert [of "col_scores c" "nat (team - 1)" "col_scores c ! nat (team - 1) + n"]
  by (auto simp: col_inv_def carry_ok_def col_addscore_def col_totalscore_def Let_def)

lemma col_inv_bases [simp]: "col_inv (c\<lparr>col_bases := upd_nth i f (col_bases c)\<rparr>) = col_inv c"
  by (simp add: col_inv_def carry_ok_def)

lemma col_inv_flag [simp]: "col_inv (c\<lparr>col_notgotbases := b\<rparr>) = col_inv c"
  by (simp add: col_inv_def carry_ok_def)

lemma col_addbase_inv [preserves]: "col_inv c \<Longrightarrow> col_inv (snd (col_addbase i ofs team c))"
  by (auto simp: col_inv_def carry_ok_def col_addbase_def Let_def)

lemma col_inv_carry: "col_inv c \<Longrightarrow> carry_ok c"
  by (simp add: col_inv_def)

lemma col_reset_inv [preserves]: "carry_ok c \<Longrightarrow> col_inv (col_reset b c)"
  by (simp add: col_inv_def carry_ok_def col_reset_def col_resetbases_def)

lemma col_setup_bases_inv [preserves]: "col_inv c \<Longrightarrow> col_inv (col_setup_bases es c)"
  using col_addbase_inv
  by (induction es arbitrary: c) (simp_all add: case_prod_beta Let_def)

lemma col_parsebases_loop_inv [preserves]: "col_inv c \<Longrightarrow> col_inv (snd (col_parsebases_loop k i commit p c))"
proof (induction k arbitrary: i commit p c)
  case (Suc k)
  show ?case using Suc.prems
    by (simp add: case_prod_beta Let_def del: split_paired_All) (auto intro!: Suc.IH col_addbase_inv)
qed simp

lemma droptokens_inv [preserves]:
  assumes "col_inv c"
  shows "col_inv (droptokens ci penalty c)"
proof (cases "col_notgotbases c")
  case False
  from droptokens_unfold [OF this] obtain out yaw out' c1 where d: "droptokens ci penalty c = upd_state (ci_clientnum ci) (\<lambda>s. s\<lparr>gs_tokens := 0\<rparr>)
       (emit (sendf (- 1) 1 out') (snd (drop_loop (nat (1 + drop_carried ci penalty)) 0 (1 + drop_carried ci penalty)
          yaw (collectteambase (ci_team ci)) ci out c1)))"
    and "clients c1 = clients c" "col_scores c1 = col_scores c" "col_bases c1 = col_bases c" by metis
  then have "col_inv c1" using assms by (simp add: col_inv_def carry_ok_def)
  then show ?thesis unfolding d by (intro col_inv_upd) simp_all
qed (use assms in \<open>simp add: droptokens_def\<close>)

lemma deposittokens_inv [preserves]:
  assumes "col_inv c"
  shows "col_inv (deposittokens ci basenum c)"
proof -
  have own: "col_inv (deposit_own ci basenum team c)" if "gs_tokens (ci_state ci) > 0" for team
  proof -
    let ?c = "upd_state (ci_clientnum ci) (\<lambda>s. s\<lparr>gs_flags := gs_flags s + gs_tokens (ci_state ci)\<rparr>)
      (c\<lparr>col_bases := upd_nth basenum (\<lambda>b. b\<lparr>cb_laststeal := gamemillis c\<rparr>) (col_bases c)\<rparr>)"
    have "col_inv ?c" using assms by (intro col_inv_upd) simp_all
    moreover from col_inv_score [OF this, of team] that have "0 \<le> col_totalscore team ?c + gs_tokens (ci_state ci)" by linarith
    ultimately have "col_inv (snd (col_addscore team (gs_tokens (ci_state ci)) ?c))" by (rule col_inv_addscore)
    then show ?thesis by (simp add: deposit_own_def Let_def case_prod_beta col_inv_upd)
  qed
  have steal: "col_inv (steal_token ci basenum team c)" if "0 < col_totalscore (cb_team (col_bases c ! nat basenum)) c" for team
  proof -
    have "col_inv (snd (col_addscore (cb_team (col_bases c ! nat basenum)) (- 1)
        (c\<lparr>col_bases := upd_nth basenum (\<lambda>b. b\<lparr>cb_laststeal := gamemillis c\<rparr>) (col_bases c)\<rparr>)))"
      by (rule col_inv_addscore) (use assms that in \<open>simp_all add: col_totalscore_def split: if_splits\<close>)
    then show ?thesis by (simp add: steal_token_def Let_def case_prod_beta)
  qed
  show ?thesis using assms own steal by (simp add: deposittokens_def Let_def)
qed

lemma taketoken_inv [preserves]:
  assumes "col_inv c" and "ci \<in> set (clients c)"
  shows "col_inv (taketoken ci tid c)"
  using assms(1)
proof -
  have "0 \<le> gs_tokens (ci_state ci) \<and> gs_tokens (ci_state ci) \<le> TOKENLIMIT" using assms by (simp add: col_inv_def carry_ok_def)
  then show ?thesis using assms(1) by (auto simp: taketoken_def Let_def intro!: col_inv_upd split: option.split)
qed

lemma col_leavegame_inv [preserves]: "col_inv c \<Longrightarrow> col_inv (col_leavegame ci d c)"
  by (simp add: col_leavegame_def Let_def case_prod_beta col_inv_upd)

lemma col_update_inv [preserves]: "col_inv c \<Longrightarrow> col_inv (col_update c)"
  by (simp add: col_update_def Let_def case_prod_beta)

text \<open>The steps of a collect game. The server runs a handler for one of its clients; what it does
  elsewhere leaves the state of the mode alone and takes tokens from a player only all at once, when the
  player spawns or the map changes.\<close>

inductive col_step :: "collect \<Rightarrow> collect \<Rightarrow> bool" where
  set_up: "col_step c (col_setup c)"
| newmap: "col_step c (col_newmap c)"
| cleanup: "col_step c (col_cleanup c)"
| leave: "col_step c (col_leavegame ci d c)"
| died: "col_step c (col_died ci actor c)"
| take: "q \<in> set (clients c) \<Longrightarrow> col_step c (snd (msg_taketoken ci (Some q) p c))"
| deposit: "col_step c (snd (msg_deposittokens ci cq p c))"
| init: "col_step c (snd (msg_inittokens ci p c))"
| update: "col_step c (col_update c)"
| server: "col_bases c' = col_bases c \<Longrightarrow> col_scores c' = col_scores c
    \<Longrightarrow> \<forall>x \<in> set (clients c'). gs_tokens (ci_state x) \<in> insert 0 ((\<lambda>y. gs_tokens (ci_state y)) ` set (clients c)) \<Longrightarrow> col_step c c'"

inductive col_reachable :: "collect \<Rightarrow> bool" where
  start: "\<forall>ci \<in> set (clients c). gs_tokens (ci_state ci) = 0 \<Longrightarrow> col_reachable (col_reset b c)"
| step: "col_reachable c \<Longrightarrow> col_step c c' \<Longrightarrow> col_reachable c'"

inductive_cases col_stepE: "col_step c c'"

lemma col_step_inv: "col_step c c' \<Longrightarrow> col_inv c \<Longrightarrow> col_inv c'"
proof (induction rule: col_step.induct)
  case (server c' c)
  then show ?case by (fastforce simp: col_inv_def carry_ok_def)
next
  case (set_up c)
  then have "carry_ok c" by (simp add: col_inv_def)
  then show ?case by (simp add: col_setup_def Let_def col_reset_inv col_setup_bases_inv)
next
  case (take q c ci p)
  then show ?case by (simp add: msg_taketoken_def case_prod_beta Let_def taketoken_inv)
next
  case (init c ci p)
  then show ?case by (simp add: msg_inittokens_def col_parsebases_def case_prod_beta Let_def col_parsebases_loop_inv)
qed (auto simp: col_newmap_def col_cleanup_def col_reset_inv col_inv_carry col_leavegame_inv col_died_def
  droptokens_inv msg_deposittokens_def case_prod_beta Let_def deposittokens_inv col_update_inv split: option.split)

lemma col_reachable_inv: "col_reachable c \<Longrightarrow> col_inv c"
  by (induction rule: col_reachable.induct) (auto intro: col_step_inv col_reset_inv simp: carry_ok_def)

interpretation col_team_scores: team_scores "\<lambda>c t. col_getteamscore t c" col_getteamscores col_inv
proof
  fix c :: collect and t n
  assume "col_inv c"
  then obtain a b where ab: "col_scores c = [a, b]"
    by (auto simp: col_inv_def length_Suc_conv numeral_2_eq_2)
  show "(t, n) \<in> set (col_getteamscores c) \<Longrightarrow> n = col_getteamscore t c"
    "col_getteamscore t c \<noteq> 0 \<Longrightarrow> t \<in> fst ` set (col_getteamscores c)"
    using ab by (auto simp: col_getteamscores_def col_getteamscore_def collectbaseteam_def collectteambase_def
      col_totalscore_def split: if_splits)
  show "distinct (map fst (col_getteamscores c))"
    by (auto simp: col_getteamscores_def collectbaseteam_def)
qed

subsection \<open>Properties\<close>

text \<open>C6: in every reachable state of a collect game no player carries more than \<open>TOKENLIMIT\<close> tokens
  or fewer than none, both teams have a score and it is never negative, and there are at most
  \<open>COL_MAXBASES\<close> bases.\<close>

theorem collect_reachable_safe:
  assumes "col_reachable c"
  shows "(\<forall>ci \<in> set (clients c). 0 \<le> gs_tokens (ci_state ci) \<and> gs_tokens (ci_state ci) \<le> TOKENLIMIT)
    \<and> length (col_scores c) = 2 \<and> 0 \<le> col_totalscore team c \<and> int (length (col_bases c)) \<le> COL_MAXBASES"
  using col_reachable_inv [OF assms] col_inv_score [of c team] by (auto simp: col_inv_def carry_ok_def)

text \<open>A deposit pays out exactly: the team's score and the player's own flags grow by the number of
  tokens carried, the player is left with none, the other team's score does not change, and the game
  ends when the score reaches \<open>SCORELIMIT\<close>.\<close>

lemma deposit_pays_out:
  assumes "\<not> col_notgotbases c" and "inrange basenum (col_bases c)" and "gs_state (ci_state ci) = CS_ALIVE"
    and "collectbaseteam (cb_team (col_bases c ! nat basenum)) \<noteq> None" and "team = collectteambase (ci_team ci)"
    and "cb_team (col_bases c ! nat basenum) \<noteq> team" and "0 < gs_tokens (ci_state ci)"
    and "length (col_scores c) = 2" and "team \<noteq> 0"
  shows "col_totalscore team (deposittokens ci basenum c) = col_totalscore team c + gs_tokens (ci_state ci)
    \<and> col_totalscore (3 - team) (deposittokens ci basenum c) = col_totalscore (3 - team) c
    \<and> map (\<lambda>x. (gs_flags (ci_state x), gs_tokens (ci_state x))) (clients (deposittokens ci basenum c))
      = map (\<lambda>x. if ci_clientnum x = ci_clientnum ci then (gs_flags (ci_state x) + gs_tokens (ci_state ci), 0)
                 else (gs_flags (ci_state x), gs_tokens (ci_state x))) (clients c)
    \<and> (col_totalscore team c + gs_tokens (ci_state ci) \<ge> SCORELIMIT \<and> interm c = 0
        \<and> timeupdate_hook c (min (gamelimit c) (gamemillis c)) (gamemillis c) \<le> gamemillis c
       \<longrightarrow> interm (deposittokens ci basenum c) = gamemillis c + intermtime c)"
proof -
  let ?n = "gs_tokens (ci_state ci)" and ?cn = "ci_clientnum ci"
  have team: "team = 1 \<or> team = 2" using assms(5,9) by (auto simp: collectteambase_def split: if_splits)
  have ne: "ci_team ci \<noteq> []" using assms(5,9) by (auto simp: collectteambase_def)
  define c1 where "c1 = upd_state ?cn (\<lambda>s. s\<lparr>gs_flags := gs_flags s + ?n\<rparr>)
      (c\<lparr>col_bases := upd_nth basenum (\<lambda>b. b\<lparr>cb_laststeal := gamemillis c\<rparr>) (col_bases c)\<rparr>)"
  define score where "score = fst (col_addscore team ?n c1)"
  define c2 where "c2 = upd_state ?cn (\<lambda>s. s\<lparr>gs_tokens := 0\<rparr>) (emit (sendf (- 1) 1 [MI N_DEPOSITTOKENS, MI ?cn, MI basenum, MI ?n,
     MI team, MI score, MI (gs_flags (ci_state ci) + ?n)]) (snd (col_addscore team ?n c1)))"
  have d: "deposittokens ci basenum c = (if score \<ge> SCORELIMIT then startintermission c2 else c2)"
    using assms ne by (simp add: deposittokens_def deposit_own_def Let_def case_prod_beta c1_def c2_def score_def del: not_None_eq)
  have sc: "score = col_totalscore team c + ?n" "col_scores c2 = (col_scores c)[nat (team - 1) := col_totalscore team c + ?n]"
    using team by (auto simp: score_def c2_def c1_def col_addscore_def col_totalscore_def Let_def)
  have cl: "map (\<lambda>x. (gs_flags (ci_state x), gs_tokens (ci_state x))) (clients c2)
      = map (\<lambda>x. if ci_clientnum x = ?cn then (gs_flags (ci_state x) + ?n, 0)
                 else (gs_flags (ci_state x), gs_tokens (ci_state x))) (clients c)"
    using team by (auto simp: c2_def c1_def col_addscore_def upd_state_def upd_client_def Let_def)
  have clock: "interm c2 = interm c" "gamelimit c2 = gamelimit c" "gamemillis c2 = gamemillis c" "intermtime c2 = intermtime c"
    "timeupdate_hook c2 = timeupdate_hook c"
    using team by (auto simp: c2_def c1_def col_addscore_def upd_state_def upd_client_def Let_def)
  have "map (\<lambda>x. (gs_flags (ci_state x), gs_tokens (ci_state x))) (clients (deposittokens ci basenum c))
      = map (\<lambda>x. (gs_flags (ci_state x), gs_tokens (ci_state x))) (clients c2)"
    by (simp add: d map_clients_startintermission)
  moreover have "col_scores (deposittokens ci basenum c) = col_scores c2" by (simp add: d)
  ultimately show ?thesis
    using team sc cl assms(8) startintermission_ends [of c2] clock by (auto simp: d col_totalscore_def)
qed

text \<open>C40: taking a token does not remove it. The message tells the clients that the token is gone, but it
  stays among the tokens of the server, so that the same token can be taken again and counts again.\<close>

theorem taketoken_repeats:
  assumes "\<not> col_notgotbases c" and "findtoken tid c = Some t" and "gs_state (ci_state ci) = CS_ALIVE"
    and "team = collectteambase (ci_team ci)" and "team \<noteq> 0" and "tk_team t \<noteq> team" and "0 < tk_team t"
    and "gs_tokens (ci_state ci) < TOKENLIMIT" and "x \<in> set (clients (taketoken ci tid c))" and "ci_clientnum x = ci_clientnum ci"
  shows "gs_tokens (ci_state x) = gs_tokens (ci_state ci) + 1 \<and> findtoken tid (taketoken ci tid c) = Some t"
proof -
  have ne: "ci_team ci \<noteq> []" using assms(4,5) by (auto simp: collectteambase_def)
  define m where "m = sendf (- 1) 1 [MI N_TAKETOKEN, MI (ci_clientnum ci), MI tid, MI (gs_tokens (ci_state ci) + 1)]"
  have eq: "taketoken ci tid c = emit m (upd_state (ci_clientnum ci) (\<lambda>s. s\<lparr>gs_tokens := gs_tokens (ci_state ci) + 1\<rparr>) c)"
    using assms(1-8) ne by (simp add: taketoken_def Let_def m_def)
  show ?thesis using assms(2,9,10) unfolding eq by (auto simp: upd_state_def upd_client_def findtoken_def split: if_splits)
qed

subsection \<open>An example game\<close>

definition sample_collect :: collect where
  "sample_collect = world.extend (sample_world\<lparr>ments :=
     [\<lparr>e_o = vec0, e_attr1 = 0, e_attr2 = 1, e_type = FLAG\<rparr>,
      \<lparr>e_o = vec0\<lparr>vx := 512\<rparr>, e_attr1 = 0, e_attr2 = 2, e_type = FLAG\<rparr>]\<rparr>)
     (collect.fields [] [0, 0] [] 0 True)"

text \<open>Player 1 of the team evil dies and drops a token; player 0 takes it.\<close>

definition col_dropped :: collect where
  "col_dropped = col_died (sample_client 1 ''evil'' 5) None (col_setup sample_collect)"

definition col_taken :: collect where
  "col_taken = snd (msg_taketoken (sample_client 0 ''good'' 3) (Some (sample_client 0 ''good'' 3)) (databuf_new [1] 1) col_dropped)"

lemma col_dropped_facts:
  "findtoken 1 col_dropped \<noteq> None" "tk_team (the (findtoken 1 col_dropped)) = 2" "\<not> col_notgotbases col_dropped"
  "gamemillis col_dropped < gamelimit col_dropped" "map tk_id (tokens col_dropped) = [1]" "lastmillis col_dropped = 1000"
  "map tk_droptime (tokens col_dropped) = [1000]" "length (col_scores col_dropped) = 2" "inrange 1 (col_bases col_dropped)"
  "cb_team (col_bases col_dropped ! 1) = 2" "gs_tokens (ci_state (sample_client 0 ''good'' 3)) = 0"
  by code_simp+

lemma col_taken_facts:
  "map (\<lambda>x. gs_tokens (ci_state x)) (clients col_taken) = [1, 0, 0]" "\<not> col_notgotbases col_taken" "inrange 1 (col_bases col_taken)"
  "cb_team (col_bases col_taken ! 1) = 2" "length (col_scores col_taken) = 2" "col_totalscore 1 col_taken = 0"
  "map ci_clientnum (clients col_taken) = [0, 1, 2]" "collectteambase (ci_team (clients col_taken ! 0)) = 1"
  "gs_state (ci_state (clients col_taken ! 0)) = CS_ALIVE" "gs_tokens (ci_state (clients col_taken ! 0)) = 1"
  by code_simp+

theorem droptokens_limits_witness:
  "length (filter (own_dropped 1 2) (tokens (droptokens (sample_client 1 ''evil'' 5) False col_dropped))) \<le> 5"
proof -
  have "collectteambase (ci_team (sample_client 1 ''evil'' 5)) = 2" "ci_clientnum (sample_client 1 ''evil'' 5) = 1"
    "gs_tokens (ci_state (sample_client 1 ''evil'' 5)) = 0" by code_simp+
  then show ?thesis using droptokens_limits [of col_dropped "sample_client 1 ''evil'' 5" False] col_dropped_facts(3) by simp
qed

lemma col_reset_reset: "col_setup (col_reset b c) = col_setup c"
  by (cases c) (simp add: col_setup_def col_reset_def col_resetbases_def Let_def)

lemma col_taken_reachable: "col_reachable col_taken"
proof -
  have "col_reachable (col_reset False sample_collect)"
    by (rule col_reachable.start) code_simp
  from col_reachable.step [OF this col_step.set_up] have "col_reachable (col_setup sample_collect)"
    by (simp add: col_reset_reset)
  moreover have "clients (col_setup sample_collect) = clients sample_world" "clients col_dropped = clients sample_world"
    by code_simp+
  moreover have "sample_client 1 ''evil'' 5 \<in> set (clients sample_world)" "sample_client 0 ''good'' 3 \<in> set (clients sample_world)"
    by (simp_all add: sample_world_def)
  ultimately have "col_reachable col_dropped"
    unfolding col_dropped_def by (metis col_reachable.step col_step.died)
  then show ?thesis unfolding col_taken_def
    using \<open>clients col_dropped = clients sample_world\<close> \<open>sample_client 0 ''good'' 3 \<in> set (clients sample_world)\<close>
    by (metis col_reachable.step col_step.take)
qed

theorem collect_reachable_safe_witness:
  "gs_tokens (ci_state (clients col_taken ! 0)) = 1 \<and> gs_tokens (ci_state (clients col_taken ! 0)) \<le> TOKENLIMIT"
proof -
  have "length (clients col_taken) = 3" using arg_cong [OF col_taken_facts(7), of length] by simp
  then have "clients col_taken ! 0 \<in> set (clients col_taken)" by simp
  with collect_reachable_safe [OF col_taken_reachable] col_taken_facts(10) show ?thesis by blast
qed

theorem taketoken_repeats_witness:
  "\<exists>t. findtoken 1 (taketoken (sample_client 0 ''good'' 3) 1 col_dropped) = Some t \<and> tk_team t = 2"
proof -
  let ?ci = "sample_client 0 ''good'' 3"
  obtain t where t: "findtoken 1 col_dropped = Some t" "tk_team t = 2" using col_dropped_facts(1,2) by auto
  have n: "map ci_clientnum (clients (taketoken ?ci 1 col_dropped)) = [0, 1, 2]" by code_simp
  then have "length (clients (taketoken ?ci 1 col_dropped)) = 3" by (metis length_map list.size(3,4) One_nat_def add_Suc numeral_3_eq_3 plus_nat.add_0)
  then have x: "clients (taketoken ?ci 1 col_dropped) ! 0 \<in> set (clients (taketoken ?ci 1 col_dropped))"
    "ci_clientnum (clients (taketoken ?ci 1 col_dropped) ! 0) = 0"
    using arg_cong [OF n, of "\<lambda>xs. xs ! 0"] by simp_all
  have c: "collectteambase (ci_team ?ci) = 1" "gs_state (ci_state ?ci) = CS_ALIVE" "ci_clientnum ?ci = 0" by code_simp+
  show ?thesis using taketoken_repeats [of col_dropped 1 t ?ci 1 "clients (taketoken ?ci 1 col_dropped) ! 0"] t x c col_dropped_facts(3,11) by simp
qed

end
