(* ===== verification/Modes.thy ===== *)
theory Modes
  imports Spawn Ctf Capture Collect
begin

text \<open>
  The three objective modes behind the interface that the server uses them through: \<^verbatim>\<open>ctfmode\<close>,
  \<^verbatim>\<open>capturemode\<close> and \<^verbatim>\<open>collectmode\<close> as tables of virtual functions (the overriding functions of
  \<^verbatim>\<open>ctf.h\<close>, \<^verbatim>\<open>capture.h\<close> and \<^verbatim>\<open>collect.h\<close>, the defaults of \<^verbatim>\<open>servmode\<close> for the rest), and
  the proof that each of them honours the contract that the handlers of the server rely on.
\<close>

subsection \<open>The mode objects\<close>

definition ctfmode :: "ctf servmode" where
  "ctfmode = base_servmode\<lparr>sm_leavegame := (\<lambda>ci _. ctf_leavegame ci), sm_canspawn := ctf_canspawn, sm_died := ctf_died,
     sm_canchangeteam := (\<lambda>_ _ newteam. ctf_canchangeteam newteam), sm_changeteam := (\<lambda>ci _ _. ctf_changeteam ci),
     sm_initclient := (\<lambda>_ _ c. map MI (ctf_initclient c)), sm_update := ctf_update, sm_cleanup := ctf_cleanup, sm_setup := ctf_setup,
     sm_newmap := ctf_newmap, sm_hidefrags := True, sm_getteamscore := Ctf.getteamscore, sm_getteamscores := Ctf.getteamscores\<rparr>"

definition capturemode :: "capture servmode" where
  "capturemode = base_servmode\<lparr>sm_entergame := cap_entergame, sm_leavegame := (\<lambda>ci _. cap_leavegame ci), sm_moved := cap_moved,
     sm_canspawn := cap_canspawn, sm_spawned := cap_spawned, sm_died := (\<lambda>ci _. cap_died ci), sm_changeteam := cap_changeteam,
     sm_initclient := (\<lambda>_. cap_initclient), sm_update := cap_update, sm_cleanup := cap_cleanup, sm_setup := cap_setup,
     sm_newmap := cap_newmap, sm_hidefrags := True, sm_getteamscore := cap_getteamscore, sm_getteamscores := cap_getteamscores,
     sm_extinfoteam := (\<lambda>t c. Some (cap_extinfoteam t c))\<rparr>"

definition collectmode :: "collect servmode" where
  "collectmode = base_servmode\<lparr>sm_leavegame := col_leavegame, sm_canspawn := col_canspawn, sm_died := col_died,
     sm_canchangeteam := (\<lambda>_ _ newteam. col_canchangeteam newteam),
     sm_initclient := (\<lambda>_ _ c. map MI (col_initclient c)), sm_update := col_update, sm_cleanup := col_cleanup, sm_setup := col_setup,
     sm_newmap := col_newmap, sm_hidefrags := True, sm_getteamscore := col_getteamscore, sm_getteamscores := col_getteamscores\<rparr>"

subsection \<open>The contract of the modes\<close>

text \<open>The functions of the modes leave the frame alone, except for those that end a game or feed the players.\<close>

lemma frame_ctf [simp]:
  "frame (c\<lparr>flags := fs\<rparr>) = frame c" "frame (upd_flag i g c) = frame c" "frame (deadflag i c) = frame c"
  "frame (bump i c) = frame c" "frame (returnflag i t c) = frame c" "frame (dropflag_at i p t d b c) = frame c"
  "frame (return_msg n i c) = frame c" "frame (forget_dropper n c) = frame c"
  by (simp_all add: frame_def world.truncate_def deadflag_def bump_def returnflag_def dropflag_at_def return_msg_def forget_dropper_def
    emit_def Let_def)

lemma frame_dropflag [simp]: "frame (dropflag ci d c) = frame c"
  by (auto simp: dropflag_def dropflag_one_def Let_def intro!: frame_fold)

lemma frame_ctf_calls [simp]:
  "frame (ctf_died ci a c) = frame c" "frame (ctf_leavegame ci c) = frame c" "frame (ctf_changeteam ci c) = frame c"
  by (auto simp: ctf_died_def ctf_leavegame_def ctf_changeteam_def Let_def intro!: frame_fold)

lemma frame_cap [simp]:
  "frame (upd_base i g c) = frame c" "frame (sendbaseinfo i c) = frame c"
  by (simp_all add: frame_def world.truncate_def sendbaseinfo_def emit_def Let_def)

lemma frame_steal [simp]: "frame (stealbase i t c) = frame c"
  by (auto simp: stealbase_def Let_def intro!: frame_fold)

lemma frame_movebases [simp]: "frame (movebases t p b q d c) = frame c"
  by (auto simp: movebases_def movebase_one_def Let_def intro!: frame_fold)

lemma frame_cap_calls [simp]:
  "frame (cap_died ci c) = frame c" "frame (cap_leavegame ci c) = frame c" "frame (cap_entergame ci c) = frame c"
  "frame (cap_changeteam ci t u c) = frame c" "frame (cap_spawned ci c) = frame c" "frame (cap_moved ci p b q d c) = frame c"
  by (simp_all add: cap_died_def cap_leavegame_def cap_entergame_def cap_changeteam_def cap_spawned_def cap_moved_def leavebases_def
    enterbases_def Let_def)

lemma frame_col [simp]: "frame (c\<lparr>tokens := ts\<rparr>) = frame c" "frame (snd (droptoken p y t d r c)) = frame c"
  by (simp_all add: frame_def world.truncate_def droptoken_def Let_def)

lemma frame_drop_loop [simp]: "frame (snd (drop_loop k i n yaw team ci out c)) = frame c"
  by (induction k arbitrary: i out c) (simp_all add: split_beta Let_def)

lemma frame_droptokens [simp]: "frame (droptokens ci b c) = frame c"
  by (simp add: droptokens_def Let_def split_beta del: drop_loop.simps)

lemma frame_col_calls [simp]: "frame (col_died ci a c) = frame c" "frame (col_leavegame ci d c) = frame c"
  by (simp_all add: col_died_def col_leavegame_def Let_def split_beta)

lemma frame_contract:
  assumes "frame w' = frame w"
  shows "map tokenless (clients w') = map tokenless (clients w)" "map tokenless (connects w') = map tokenless (connects w)"
    "arena w' = arena w"
  using frame_fields(13) [OF assms] frame_map [OF assms, of tokenless] by (simp_all add: tokenless_def)

lemmas mode_calls = smode_fragvalue_def smode_died_def smode_leavegame_def smode_entergame_def smode_changeteam_def smode_spawned_def
  smode_moved_def ctfmode_def capturemode_def collectmode_def base_servmode_def

interpretation ctf_contract: mode_frame "Some ctfmode"
  by unfold_locales (simp_all add: mode_calls, (rule frame_contract, simp)+)

interpretation capture_contract: mode_frame "Some capturemode"
  by unfold_locales (simp_all add: mode_calls, (rule frame_contract, simp)+)

interpretation collect_contract: mode_frame "Some collectmode"
  by unfold_locales (simp_all add: mode_calls, (rule frame_contract, simp)+)

subsection \<open>Fighting keeps the invariant of the mode\<close>

text \<open>A mode together with an invariant: the invariant looks at the players only for the tokens they carry and for who they
  are, it does not look at messages, items and the frags of teams, and the death of a player keeps it.\<close>

definition ident :: "clientinfo \<Rightarrow> int \<times> int \<times> int \<times> bool \<times> int list" where
  "ident ci = (ci_n ci, ci_clientnum ci, ci_ownernum ci, ci_spy ci, ci_bots ci)"

lemma ident_keeps [simp]: "ident (setpushed m r ci) = ident ci" "ident (ci\<lparr>ci_events := es\<rparr>) = ident ci" "ident (ci\<lparr>ci_lastevent := n\<rparr>) = ident ci"
  "ident (ci\<lparr>ci_position := bs\<rparr>) = ident ci"
  by (simp_all add: ident_def setpushed_def Let_def)

lemma aitype_keeps [simp]:
  "aitype (snd (fps_dodamage d s)) = aitype s" "aitype (fps_respawn s) = aitype s" "aitype (pickup t s) = aitype s"
  "aitype (on_fps f g) = aitype (f (fpsstate.truncate g))" "aitype (fpsstate.truncate g) = aitype (g :: gamestate)"
  by (simp_all add: fps_dodamage_def fps_respawn_def pickup_def pickup_health_def on_fps_def fpsstate.truncate_def Let_def)

locale mode_invariant = mode_contract sm for sm :: "'a smode" +
  fixes inv :: "'a world_scheme \<Rightarrow> bool"
  assumes inv_state: "(\<And>s. (gs_tokens (f s) = gs_tokens s \<or> gs_tokens (f s) = 0) \<and> aitype (f s) = aitype s) \<Longrightarrow> inv w \<Longrightarrow> inv (upd_state cn f w)"
    and inv_client: "(\<And>ci. ci_state (h ci) = ci_state ci \<and> ident (h ci) = ident ci) \<Longrightarrow> inv w \<Longrightarrow> inv (upd_client cn h w)"
    and inv_emit: "inv w \<Longrightarrow> inv (emit e w)"
    and inv_teams: "inv w \<Longrightarrow> inv (w\<lparr>teaminfos := ts\<rparr>)"
    and inv_sents: "inv w \<Longrightarrow> inv (w\<lparr>sents := es\<rparr>)"
    and inv_died: "inv w \<Longrightarrow> inv (smode_died sm t b w)"
begin

lemmas inv_intros = inv_state inv_client inv_emit inv_teams inv_sents inv_died

lemma inv_push: "inv w \<Longrightarrow> inv (push tcn acn dmg g dir w)"
  by (auto simp: push_def push_client_def intro!: inv_intros)

lemma inv_hurt: "inv w \<Longrightarrow> inv (hurt tcn acn dmg w)"
  by (auto simp: hurt_def Let_def on_fps_def intro!: inv_intros)

lemma inv_credit: "inv w \<Longrightarrow> inv (snd (credit_team acn fv w))"
  by (auto simp: credit_team_def team_addfrags_def Let_def intro!: inv_intros)

lemma inv_clear_position: "inv w \<Longrightarrow> inv (clear_position cn w)"
  by (auto simp: clear_position_def intro!: inv_intros)

lemma inv_kill: "inv w \<Longrightarrow> inv (kill sm tcn acn w)"
  by (auto simp: kill_def mark_dead_def count_frag_def count_death_def Let_def split_beta intro!: inv_intros inv_credit inv_clear_position)

lemma inv_dodamage: "inv w \<Longrightarrow> inv (dodamage sm tcn acn dmg g dir w)"
  by (auto simp: dodamage_def Let_def intro!: inv_push inv_hurt inv_kill)

lemma inv_suicide: "inv w \<Longrightarrow> inv (suicide sm cn w)"
  by (auto simp: suicide_def gs_respawn_def Let_def split_beta intro!: inv_intros inv_credit inv_clear_position)

lemma inv_count_hit: "inv w \<Longrightarrow> inv (count_hit cn tcn w)"
  by (auto simp: count_hit_def intro!: inv_intros)

lemma inv_shot_hits: "inv w \<Longrightarrow> inv (shot_hits sm cn g tot hs w)"
  by (induction hs arbitrary: tot w) (auto simp: Let_def inv_dodamage inv_count_hit split: option.split)

lemma inv_explode_hits: "inv w \<Longrightarrow> inv (explode_hits sm cn g seen hs w)"
  by (induction hs arbitrary: seen w) (auto simp: inv_dodamage inv_count_hit split: option.split)

lemma inv_shoot: "inv w \<Longrightarrow> inv (shoot sm millis sid g from to hits cn w)"
  by (auto simp: shoot_def fire_def Let_def intro!: inv_intros inv_shot_hits)

lemma inv_remove_projectile: "inv w \<Longrightarrow> inv (snd (remove_projectile g pid cn w))"
  by (auto simp: remove_projectile_def intro!: inv_intros)

lemma inv_explode: "inv w \<Longrightarrow> inv (explode sm pid g hits cn w)"
  by (auto simp: explode_def Let_def split_beta intro!: inv_intros inv_remove_projectile inv_explode_hits)

lemma inv_pickup: "inv w \<Longrightarrow> inv (snd (pickup_item i sender w))"
  by (auto simp: pickup_item_def on_fps_def Let_def split: option.split intro!: inv_intros)

lemma inv_process_event: "inv w \<Longrightarrow> inv (process_event sm e cn w)"
  by (cases e) (auto simp: inv_shoot inv_explode inv_suicide inv_pickup)

lemma inv_flush_loop: "inv w \<Longrightarrow> inv (flush_loop sm es cn m w)"
proof (induction es arbitrary: w)
  case (Cons e es)
  then have "inv (snd (flush_event sm e cn m w))"
    by (auto simp: flush_event_def inv_client split: option.split intro!: inv_process_event)
  then show ?case using Cons.IH by (auto simp: split_beta Let_def clearevent_def inv_client)
qed simp

lemma inv_process_client: "inv w \<Longrightarrow> inv (process_client sm cn w)"
  by (auto simp: process_client_def flushevents_def Let_def intro!: inv_flush_loop inv_intros)

lemma inv_processevents: "inv w \<Longrightarrow> inv (processevents sm w)"
proof -
  have "inv w \<Longrightarrow> inv (fold (process_client sm) ns w)" for ns
    by (induction ns arbitrary: w) (simp_all add: inv_process_client)
  then show "inv w \<Longrightarrow> inv (processevents sm w)" by (simp add: processevents_def)
qed

end

text \<open>The states that a mode reaches are such an invariant, for each of the three modes.\<close>

interpretation ctf_games: mode_invariant "Some ctfmode" ctf_reachable
proof unfold_locales
  fix c :: ctf and t b assume "ctf_reachable c"
  then show "ctf_reachable (smode_died (Some ctfmode) t b c)"
    by (auto simp: smode_died_def ctfmode_def base_servmode_def intro: ctf_reachable.step ctf_step.died)
qed (auto simp: upd_state_def upd_client_def emit_def elim!: ctf_reachable.step intro!: ctf_step.server)

interpretation capture_games: mode_invariant "Some capturemode" cap_reachable
proof unfold_locales
  fix c :: capture and t b assume "cap_reachable c"
  then show "cap_reachable (smode_died (Some capturemode) t b c)"
    by (auto simp: smode_died_def capturemode_def base_servmode_def intro: cap_reachable.step cap_step.died)
qed (auto simp: upd_state_def upd_client_def emit_def elim!: cap_reachable.step intro!: cap_step.server)

interpretation collect_games: mode_invariant "Some collectmode" col_reachable
proof unfold_locales
  fix c :: collect and t b assume "col_reachable c"
  then show "col_reachable (smode_died (Some collectmode) t b c)"
    by (auto simp: smode_died_def collectmode_def base_servmode_def intro: col_reachable.step col_step.died)
next
  fix f :: "gamestate \<Rightarrow> gamestate" and c :: collect and cn
  assume f: "\<And>s. (gs_tokens (f s) = gs_tokens s \<or> gs_tokens (f s) = 0) \<and> aitype (f s) = aitype s" and "col_reachable c"
  have "gs_tokens (ci_state x) \<in> insert 0 ((\<lambda>y. gs_tokens (ci_state y)) ` set (clients c))"
    if "x \<in> set (clients (upd_state cn f c))" for x
  proof -
    from that obtain y where y: "y \<in> set (clients c)" "x = y \<or> x = y\<lparr>ci_state := f (ci_state y)\<rparr>"
      by (auto simp: upd_state_def upd_client_def split: if_splits)
    then show ?thesis using f [of "ci_state y"] by auto
  qed
  then have "col_step c (upd_state cn f c)" by (intro col_step.server) (simp_all add: upd_state_def upd_client_def)
  then show "col_reachable (upd_state cn f c)" by (rule col_reachable.step [OF \<open>col_reachable c\<close>])
qed (auto simp: upd_client_def emit_def elim!: col_reachable.step intro!: col_step.server)

end
