(* ===== verification/Parser.thy ===== *)
theory Parser
  imports Balance Modes
begin

text \<open>
  The messages of a client that plays, from \<^verbatim>\<open>parsepacket\<close> of \<^verbatim>\<open>src/src/fpsgame/server.cpp\<close>: the loop reads the
  type of a message and its values from the bytes of a packet and acts on them. What the bytes are is up to the
  sender. \<open>ci\<close> is the client that sent the packet and \<open>cq\<close> the player that the messages are about, itself or a bot
  that it runs. A pointer is the number of a client, and one to a client that has been deleted is \<open>dangling\<close>. The
  outcome of a message is a value: the loop goes on, the function returns, it returns after throwing the sender out for
  a reason (\<open>Kick\<close>; \<open>parse_all\<close> of the theory \<open>Chat\<close> calls \<open>disconnect_client\<close> then), memory outside of an object is used, or
  the message is \<open>Other\<close>, one of the theory \<open>Chat\<close> (texts, names, teams, masters, maps, demos, authentication and the
  clipboard). Drawing guns may not return, which is \<open>None\<close>, as in the theory \<open>Spawn\<close>.
\<close>

subsection \<open>Outcomes and reading\<close>

datatype 'w outcome =
    Next "uchar databuf" "int option" 'w
  | Stop 'w
  | Kick int int 'w
  | Fault string 'w
  | Other int int "uchar databuf" "int option" 'w

abbreviation (input) DISC_MSGERR :: int where "DISC_MSGERR \<equiv> 4"
abbreviation (input) DISC_OVERFLOW :: int where "DISC_OVERFLOW \<equiv> 9"
abbreviation (input) MAXENTS :: int where "MAXENTS \<equiv> 10000"
abbreviation (input) MAXTRANS :: nat where "MAXTRANS \<equiv> 5000"

definition geti :: "uchar databuf \<Rightarrow> int \<times> uchar databuf" where
  "geti p = (let (n, p) = getint p in (sint n, p))"

fun getis :: "nat \<Rightarrow> uchar databuf \<Rightarrow> int list \<times> uchar databuf" where
  "getis 0 p = ([], p)"
| "getis (Suc k) p = (let (n, p) = geti p; (ns, p) = getis k p in (n # ns, p))"

definition text_of :: "uchar list \<Rightarrow> cstr" where
  "text_of bs = map (\<lambda>b. char_of (unat b)) bs"

definition gettext :: "uchar databuf \<Rightarrow> cstr \<times> uchar databuf" where
  "gettext p = (let (t, p) = getstring MAXTRANS p in (text_of t, p))"

definition getvec :: "rat \<Rightarrow> uchar databuf \<Rightarrow> vec \<times> uchar databuf" where
  "getvec scale p = (let (x, p) = geti p; (y, p) = geti p; (z, p) = geti p
     in (\<lparr>vx = of_int x / scale, vy = of_int y / scale, vz = of_int z / scale\<rparr>, p))"

definition dangling :: "int option \<Rightarrow> 'a world_scheme \<Rightarrow> bool" where
  "dangling c w = (case c of Some n \<Rightarrow> n \<notin> set (map ci_clientnum (roster w)) | None \<Rightarrow> False)"

text \<open>Reading goes forward and keeps the bytes; \<open>forward\<close> needs no well-formed buffer. A read that does not run
  over the end takes at least one byte.\<close>

definition forward :: "uchar databuf \<Rightarrow> uchar databuf \<Rightarrow> bool" where
  "forward p q \<longleftrightarrow> dlen p \<le> dlen q \<and> dmaxlen q = dmaxlen p \<and> dbuf q = dbuf p \<and> (db_overread p \<longrightarrow> db_overread q)
     \<and> (dlen p \<le> dmaxlen p \<longrightarrow> dlen q \<le> dmaxlen q)"

lemma forward_refl [simp]: "forward p p"
  by (simp add: forward_def)

lemma forward_trans [trans]: "forward p q \<Longrightarrow> forward q r \<Longrightarrow> forward p r"
  by (auto simp: forward_def)

lemma forward_get: "forward p (snd (db_get p)) \<and> (db_overread (snd (db_get p)) \<or> dlen p < dlen (snd (db_get p)) \<and> dlen p < dmaxlen p)"
  using db_get_overread_mono [of p] by (auto simp: forward_def db_get_def db_overread_def)

lemma forward_gets: "forward p (((\<lambda>p. snd (db_get p)) ^^ k) p)"
  by (induction k) (auto intro: forward_trans forward_get [THEN conjunct1])

lemma getint_gets1: "\<exists>k. snd (getint p) = ((\<lambda>p. snd (db_get p)) ^^ k) (snd (db_get p))"
proof -
  consider "sint (fst (db_get p)) = - 128" | "sint (fst (db_get p)) = - 127"
    | "sint (fst (db_get p)) \<noteq> - 128" "sint (fst (db_get p)) \<noteq> - 127" by blast
  then show ?thesis
  proof cases
    case 1
    then show ?thesis by (intro exI [of _ 2]) (simp add: getint_def Let_def case_prod_beta eval_nat_numeral)
  next
    case 2
    then show ?thesis by (intro exI [of _ 4]) (simp add: getint_def Let_def case_prod_beta eval_nat_numeral)
  next
    case 3
    then show ?thesis by (intro exI [of _ 0]) (simp add: getint_def Let_def case_prod_beta)
  qed
qed

lemma forward_geti: "forward p (snd (geti p)) \<and> (db_overread (snd (geti p)) \<or> dlen p < dlen (snd (geti p)) \<and> dlen p < dmaxlen p)"
proof -
  obtain k where k: "snd (getint p) = ((\<lambda>p. snd (db_get p)) ^^ k) (snd (db_get p))" using getint_gets1 by blast
  let ?q = "snd (db_get p)"
  have f: "forward ?q (snd (geti p))" using k forward_gets [of ?q k] by (simp add: geti_def split_beta)
  with forward_get [of p] show ?thesis by (auto simp: forward_def)
qed

text \<open>A player that the sender of the packet may speak for: itself or a bot of its own.\<close>

definition own_player :: "int \<Rightarrow> int \<Rightarrow> 'a world_scheme \<Rightarrow> int option" where
  "own_player sender pcn w =
     (case getinfo pcn w of
        Some c \<Rightarrow> if pcn \<noteq> sender \<and> ci_ownernum c \<noteq> sender then None else Some (ci_clientnum c)
      | None \<Rightarrow> None)"

definition sendprivtext :: "int \<Rightarrow> cstr \<Rightarrow> 'a world_scheme \<Rightarrow> 'a world_scheme" where
  "sendprivtext cn msg w =
     (if aitype (cstate cn w) \<noteq> AI_NONE then w else emit (sendf cn 1 [MI N_SERVMSG, MS msg]) w)"

abbreviation (input) RED :: cstr where "RED \<equiv> [CHR 0x0C, CHR ''3'']"

subsection \<open>Relayed bytes\<close>

definition relays :: "int \<Rightarrow> 'a world_scheme \<Rightarrow> bool" where
  "relays cm w \<longleftrightarrow> \<not> ci_local (client cm w) \<or> demorecord w \<or> hasnonlocalclients w"

definition bytes_from :: "int \<Rightarrow> uchar databuf \<Rightarrow> uchar list" where
  "bytes_from curmsg p = take (nat (dlen p - curmsg)) (drop (nat curmsg) (dbuf p))"

definition queue :: "int \<Rightarrow> uchar list \<Rightarrow> 'a world_scheme \<Rightarrow> 'a world_scheme" where
  "queue cm bs w = (if relays cm w then upd_client cm (\<lambda>ci. ci\<lparr>ci_messages := ci_messages ci @ bs\<rparr>) w else w)"

definition flushclientposition :: "int \<Rightarrow> 'a world_scheme \<Rightarrow> 'a world_scheme" where
  "flushclientposition cn w =
     (let ci = client cn w
      in if ci_position ci = [] \<or> (\<not> hasnonlocalclients w \<and> \<not> demorecord w) then w
         else emit (Sendf (- 1) 0 [MB (ci_position ci)] (ci_ownernum ci)) (upd_client cn (\<lambda>ci. ci\<lparr>ci_position := []\<rparr>) w))"

subsection \<open>Spectators\<close>

definition start_spectating :: "'a smode \<Rightarrow> int \<Rightarrow> 'a world_scheme \<Rightarrow> 'a world_scheme" where
  "start_spectating sm cn w =
     (let w = smode_leavegame sm cn False w;
          w = upd_client cn (\<lambda>ci. ci\<lparr>ci_specmillis := totalmillis w\<rparr>)
                (upd_state cn (\<lambda>s. s\<lparr>gs_state := CS_SPECTATOR, gs_timeplayed := gs_timeplayed s + (lastmillis w - gs_lasttimeplayed s)\<rparr>) w)
      in if \<not> ci_local (client cn w) \<and> ci_privilege (client cn w) = 0 then removeai sm cn w else w)"

definition stop_spectating :: "int \<Rightarrow> 'a world_scheme \<Rightarrow> 'a world_scheme" where
  "stop_spectating cn w =
     ai_addclient cn (upd_state cn (\<lambda>s. (gs_respawn (s\<lparr>gs_state := CS_DEAD\<rparr>))\<lparr>gs_lasttimeplayed := lastmillis w\<rparr>) w)"

definition announce_spectator :: "int \<Rightarrow> int \<Rightarrow> bool \<Rightarrow> 'a world_scheme \<Rightarrow> 'a world_scheme" where
  "announce_spectator cn v broadcast w =
     (let w = emit (sendf (if broadcast then - 1 else cn) 1 [MI N_SPECTATOR, MI cn, MI v]) w;
          w = (if spectator_delay w \<noteq> 0
               then emit (sendf cn 1 [MI N_TIMEUP, MI (cdiv (gamelimit w - gamemillis w + spectator_delay w) 1000)])
                      (emit (sendf cn 1 [MI N_SPECTATOR, MI cn, MI v]) w)
               else w)
      in emit (Event ''spectator'' [MI cn, MI v]) w)"

definition setspectator :: "'a smode \<Rightarrow> int \<Rightarrow> bool \<Rightarrow> bool \<Rightarrow> 'a world_scheme \<Rightarrow> 'a world_scheme" where
  "setspectator sm cn val broadcast w =
     (let ci = client cn w
      in if \<not> ci_connected ci \<or> (gs_state (ci_state ci) = CS_SPECTATOR) = val \<or> aitype (ci_state ci) \<noteq> AI_NONE \<or> ci_spy ci then w
         else announce_spectator cn (if val then 1 else 0) broadcast (if val then start_spectating sm cn w else stop_spectating cn w))"

text \<open>\<^verbatim>\<open>message::limit\<close> for the message \<^verbatim>\<open>N_SPECTATOR\<close>: the result says that the message is refused.\<close>

definition limit_spec :: "int \<Rightarrow> 'a world_scheme \<Rightarrow> bool \<times> 'a world_scheme" where
  "limit_spec cn w =
     (if ci_privilege (client cn w) = PRIV_ADMIN then (False, w)
      else let wait = curmillis w - ci_spec_millis (client cn w)
           in if wait \<ge> resend_spec w then (False, upd_client cn (\<lambda>ci. ci\<lparr>ci_spec_millis := curmillis w\<rparr>) w)
              else (True, sendprivtext cn (RED @ ''Rejected spectator status change message (wait ''
                      @ decimal (nat \<lceil>(of_int (resend_spec w - wait) :: rat) / 1000\<rceil>) @ '' seconds before resending)!'') w))"

definition msg_spectator :: "'a smode \<Rightarrow> int \<Rightarrow> int \<Rightarrow> int \<Rightarrow> int \<Rightarrow> 'a world_scheme \<Rightarrow> 'a world_scheme" where
  "msg_spectator sm sender me spectator val w =
     (let ci = client me w; self = (spectator = sender); spec = (gs_state (ci_state ci) = CS_SPECTATOR);
          (refused, w) =
            (if ci_privilege ci \<noteq> 0 then (False, w)
             else if \<not> self \<or> (spec \<and> mastermode w \<ge> MM_LOCKED) \<or> (spec \<and> val = 0 \<and> \<not> ci_allow_self_unspec ci) then (True, w)
             else limit_spec me w)
      in if refused then w
         else case getclientinfo spectator w of
                None \<Rightarrow> w
              | Some sp \<Rightarrow>
                  let s = ci_clientnum sp
                  in if s \<noteq> me \<and> ci_spy sp then w
                     else if val \<noteq> 0 \<and> s \<noteq> me \<and> ci_privilege sp \<noteq> 0 \<and> ci_privilege ci < PRIV_ADMIN
                     then sendprivtext me (RED @ ''You cannot spec that player because they have an above normal privilege.'') w
                     else setspectator sm s (val \<noteq> 0) True (upd_client s (\<lambda>ci. ci\<lparr>ci_allow_self_unspec := (self \<and> val \<noteq> 0)\<rparr>) w))"

subsection \<open>Positions\<close>

definition getb :: "uchar databuf \<Rightarrow> int \<times> uchar databuf" where
  "getb p = (let (b, p) = db_get p in (uint b, p))"

text \<open>A coordinate of a position: two bytes, or three with a sign when its flag is set.\<close>

definition pos_coord :: "bool \<Rightarrow> uchar databuf \<Rightarrow> rat \<times> uchar databuf" where
  "pos_coord wide p =
     (let (b0, p) = getb p; (b1, p) = getb p
      in if wide
         then let (b2, p) = getb p; n = b0 + 256 * b1 + 65536 * b2
              in (of_int (if n \<ge> 8388608 then n - 16777216 else n) / DMF, p)
         else (of_int (b0 + 256 * b1) / DMF, p))"

text \<open>\<open>getbs\<close> reads bytes that are not used.\<close>

fun getbs :: "nat \<Rightarrow> uchar databuf \<Rightarrow> uchar databuf" where
  "getbs 0 p = p"
| "getbs (Suc k) p = getbs k (snd (getb p))"

record posmsg =
  pm_flags :: u32
  pm_pos :: vec
  pm_cam :: vec
  pm_mag :: int
  pm_dir :: int

text \<open>The order in which a compiler evaluates the arguments of \<^verbatim>\<open>vec(p.get(), p.get(), p.get())\<close> is not fixed; here it is from
  left to right.\<close>

definition getpos :: "uchar databuf \<Rightarrow> int \<times> posmsg \<times> uchar databuf" where
  "getpos p =
     (let (pcn, p) = getuint p; (_, p) = getb p; (flags, p) = getuint p;
          (x, p) = pos_coord (bit flags 0) p; (y, p) = pos_coord (bit flags 1) p; (z, p) = pos_coord (bit flags 2) p;
          (cx, p) = getb p; (cy, p) = getb p; (cz, p) = getb p;
          (m0, p) = getb p; (m1, p) = (if bit flags 3 then getb p else (0, p));
          (d0, p) = getb p; (d1, p) = getb p;
          p = (if bit flags 4 then getbs (1 + (if bit flags 5 then 1 else 0) + (if bit flags 6 then 2 else 0)) p else p)
      in (sint pcn, \<lparr>pm_flags = flags, pm_pos = \<lparr>vx = x, vy = y, vz = z\<rparr>, pm_cam = \<lparr>vx = of_int cx, vy = of_int cy, vz = of_int cz\<rparr>,
            pm_mag = m0 + 256 * m1, pm_dir = d0 + 256 * d1\<rparr>, p))"

definition in_world :: "int \<Rightarrow> 'a world_scheme \<Rightarrow> bool" where
  "in_world cn w \<longleftrightarrow> gs_state (cstate cn w) = CS_ALIVE \<or> gs_state (cstate cn w) = CS_EDITING"

definition set_exceeded :: "int \<Rightarrow> 'a world_scheme \<Rightarrow> 'a world_scheme" where
  "set_exceeded cn w =
     (let (ci, ne) = setexceeded (gamemillis w) (peer_rtt w (ci_ownernum (client cn w))) (client cn w) (nextexceeded w)
      in (upd_client cn (\<lambda>c. c\<lparr>ci_exceeded := ci_exceeded ci\<rparr>) w)\<lparr>nextexceeded := ne\<rparr>)"

definition msg_pos :: "'a smode \<Rightarrow> int \<Rightarrow> int \<Rightarrow> uchar list \<Rightarrow> posmsg \<Rightarrow> 'a world_scheme \<Rightarrow> 'a world_scheme" where
  "msg_pos sm me cp raw m w =
     (let clip = bit (pm_flags m) 7;
          w = (if relays me w \<and> in_world cp w
               then upd_client cp (\<lambda>ci. ci\<lparr>ci_position := raw\<rparr>)
                      (if \<not> ci_local (client me w) \<and> \<not> m_edit (gamemode w) \<and> overspeed w (pm_mag m) (pm_dir m) then set_exceeded cp w else w)
               else w);
          w = (if gs_state (cstate cp w) = CS_ALIVE
               then smode_moved sm cp (gs_o (cstate cp w)) (ci_gameclip (client cp w)) (pm_pos m) clip w else w);
          w = upd_client cp (\<lambda>ci. ci\<lparr>ci_gameclip := clip\<rparr>) (upd_state cp (\<lambda>s. s\<lparr>gs_o := pm_pos m, gs_cam := pm_cam m\<rparr>) w);
          w = (if gs_state (cstate cp w) = CS_ALIVE \<and> ci_maploaded (client cp w) = 0 \<and> aitype (cstate cp w) = AI_NONE
               then emit (Event ''maploaded'' [MI cp])
                      (upd_client cp (\<lambda>ci. ci\<lparr>ci_lastposupdate := totalmillis w - 30, ci_maploaded := gamemillis w\<rparr>) w)
               else w)
      in if ci_maploaded (client me w) \<noteq> 0
         then upd_client cp (\<lambda>ci. ci\<lparr>ci_lag := cdiv (max 30 (ci_lag ci) * 10 + (totalmillis w - ci_lastposupdate ci)) 12,
                ci_last_lag := totalmillis w - ci_lastposupdate ci, ci_lastposupdate := totalmillis w\<rparr>) w
         else w)"

definition msg_teleport :: "int \<Rightarrow> int \<Rightarrow> int \<Rightarrow> int \<Rightarrow> int \<Rightarrow> 'a world_scheme \<Rightarrow> 'a world_scheme" where
  "msg_teleport me cp pcn teleport teledest w =
     (if relays me w \<and> in_world cp w
      then emit (Sendf (- 1) 0 [MI N_TELEPORT, MI pcn, MI teleport, MI teledest] (ci_ownernum (client cp w))) (flushclientposition cp w)
      else w)"

definition msg_jumppad :: "int \<Rightarrow> int \<Rightarrow> int \<Rightarrow> int \<Rightarrow> 'a world_scheme \<Rightarrow> 'a world_scheme" where
  "msg_jumppad me cp pcn jumppad w =
     (if relays me w \<and> in_world cp w
      then emit (Sendf (- 1) 0 [MI N_JUMPPAD, MI pcn, MI jumppad] (ci_ownernum (client cp w))) (flushclientposition cp (push_client cp w))
      else w)"

subsection \<open>Maps and editing\<close>

definition msg_editmode :: "'a smode \<Rightarrow> int \<Rightarrow> int \<Rightarrow> uchar list \<Rightarrow> 'a world_scheme \<Rightarrow> 'a world_scheme" where
  "msg_editmode sm me val raw w =
     (let st = gs_state (cstate me w)
      in if (\<not> ci_local (client me w) \<and> \<not> m_edit (gamemode w))
           \<or> (if val \<noteq> 0 then st \<noteq> CS_ALIVE \<and> st \<noteq> CS_DEAD else st \<noteq> CS_EDITING) then w
         else let w = (if val \<noteq> 0 then smode_leavegame sm me False w else smode_entergame sm me w);
                  w = (if val \<noteq> 0
                       then upd_client me (\<lambda>ci. ci\<lparr>ci_events := []\<rparr>)
                              (upd_state me (\<lambda>s. s\<lparr>gs_editstate := gs_state s, gs_state := CS_EDITING,
                                 gs_rockets := proj_reset (gs_rockets s), gs_grenades := proj_reset (gs_grenades s)\<rparr>) w)
                       else upd_state me (\<lambda>s. s\<lparr>gs_state := gs_editstate s\<rparr>) w)
              in queue me raw (emit (Event ''editmode'' [MI me, MI (if val \<noteq> 0 then 1 else 0)]) w))"

definition modmap :: "int \<Rightarrow> cstr \<Rightarrow> int \<Rightarrow> 'a world_scheme \<Rightarrow> 'a world_scheme" where
  "modmap cn cmap crc w = emit (Event ''modmap'' [MI cn, MS (utf8 w cmap), MI crc]) w"

definition crc_differs :: "int \<Rightarrow> 'a world_scheme \<Rightarrow> bool" where
  "crc_differs crc w \<longleftrightarrow> mcrc w \<noteq> word_of_int crc"

definition msg_mapcrc :: "int \<Rightarrow> cstr \<Rightarrow> int \<Rightarrow> 'a world_scheme \<Rightarrow> 'a world_scheme" where
  "msg_mapcrc me txt crc w =
     (let ci = client me w
      in if txt \<noteq> smapname w
         then if ci_clientmap ci \<noteq> [] then upd_client me (\<lambda>ci. ci\<lparr>ci_clientmap := [], ci_mapcrc := 0\<rparr>) w
              else if ci_mapcrc ci > 0 then upd_client me (\<lambda>ci. ci\<lparr>ci_mapcrc := 0\<rparr>) w else w
         else let crc = (if txt \<noteq> [] then crc else 1);
                  w = upd_client me (\<lambda>ci. ci\<lparr>ci_clientmap := txt, ci_mapcrc := crc\<rparr>) w
              in if \<not> m_edit (gamemode w) \<and> mcrc w \<noteq> 0 \<and> crc_differs crc w then modmap me txt crc w else w)"

definition msg_checkmaps :: "'a world_scheme \<Rightarrow> 'a world_scheme" where
  "msg_checkmaps w =
     (if mcrc w = 0 then w
      else fold (\<lambda>ci w. if ci_mapcrc ci \<noteq> 0 \<and> crc_differs (ci_mapcrc ci) w
                        then modmap (ci_clientnum ci) (ci_clientmap ci) (ci_mapcrc ci) w else w) (clients w) w)"

definition pad_sents :: "int \<Rightarrow> server_entity list \<Rightarrow> server_entity list" where
  "pad_sents n xs = xs @ replicate (nat (n + 1) - length xs) NOTUSED_entity"

text \<open>The loops of \<^verbatim>\<open>N_ITEMLIST\<close>: the items of a message that is refused are skipped, those of one that is accepted are
  entered. The type of an item is used as an index as it was sent.\<close>

lemma geti_shrinks:
  assumes "geti p = (n, q)" and "\<not> db_overread q"
  shows "nat (dmaxlen q - dlen q) < nat (dmaxlen p - dlen p)"
  using forward_geti [of p] assms by (auto simp: forward_def)

function (sequential) skip_items :: "uchar databuf \<Rightarrow> uchar databuf" where
  "skip_items p = (let (n, q) = geti p in if n \<ge> 0 \<and> \<not> db_overread q then skip_items (snd (geti q)) else q)"
  by pat_completeness auto
termination
proof (relation "measure (\<lambda>p. nat (dmaxlen p - dlen p))")
  fix p x n q assume "x = geti p" "(n, q) = x" "0 \<le> n \<and> \<not> db_overread q"
  then show "(snd (geti q), p) \<in> measure (\<lambda>p. nat (dmaxlen p - dlen p))"
    using geti_shrinks [of p n q] forward_geti [of q] by (auto simp: forward_def)
qed simp

definition set_item :: "int \<Rightarrow> int \<Rightarrow> 'a world_scheme \<Rightarrow> 'a world_scheme" where
  "set_item n t w = w\<lparr>sents := upd_nth n (\<lambda>e. e\<lparr>se_type := t\<rparr>) (pad_sents n (sents w))\<rparr>"

definition enter_item :: "int \<Rightarrow> int \<Rightarrow> 'a world_scheme \<Rightarrow> 'a world_scheme" where
  "enter_item n t w =
     (let w = w\<lparr>sents_type_index := (sents_type_index w)[nat t := n]\<rparr>
      in if canspawnitem (gamemode w) t
         then w\<lparr>sents := upd_nth n (\<lambda>e. if m_mp (gamemode w) \<and> delayspawn (gamemode w) t then e\<lparr>se_spawntime := spawntime t w\<rparr>
                                      else e\<lparr>se_spawned := True\<rparr>) (sents w)\<rparr>
         else w)"

function (sequential) enter_items :: "uchar databuf \<Rightarrow> 'a world_scheme \<Rightarrow> bool \<times> uchar databuf \<times> 'a world_scheme" where
  "enter_items p w =
     (let (n, q) = geti p
      in if n \<ge> 0 \<and> n < MAXENTS \<and> \<not> db_overread q
         then let (t, q) = geti q
              in if 0 \<le> t \<and> t < MAXENTTYPES then enter_items q (enter_item n t (set_item n t w)) else (False, q, set_item n t w)
         else (True, q, w))"
  by pat_completeness auto
termination
proof (relation "measure (\<lambda>(p, w). nat (dmaxlen p - dlen p))", goal_cases)
  case (2 p w x n q y t r)
  then have "\<not> db_overread q" "geti p = (n, q)" "geti q = (t, r)" by simp_all
  then show ?case using geti_shrinks [of p n q] forward_geti [of q] by (auto simp: forward_def)
qed simp

declare skip_items.simps [simp del] enter_items.simps [simp del]

text \<open>\<^verbatim>\<open>N_EDITENT\<close>. The result is false when an element outside of \<^verbatim>\<open>sents\<close> is written: the test is only \<^verbatim>\<open>i<MAXENTS\<close>.\<close>

definition msg_editent :: "int \<Rightarrow> int \<Rightarrow> int \<Rightarrow> uchar list \<Rightarrow> 'a world_scheme \<Rightarrow> bool \<times> 'a world_scheme" where
  "msg_editent me i t raw w =
     (let w = queue me raw w; canspawn = canspawnitem (gamemode w) t
      in if i < MAXENTS \<and> (inrange i (sents w) \<or> canspawn)
         then if i < 0 then (False, w)
              else (True, w\<lparr>sents := upd_nth i (\<lambda>e. let e = e\<lparr>se_type := t\<rparr>
                     in if (if canspawn then \<not> se_spawned e else se_spawned e \<or> se_spawntime e \<noteq> 0)
                        then e\<lparr>se_spawntime := (if canspawn then 1 else 0), se_spawned := False\<rparr> else e) (pad_sents i (sents w))\<rparr>)
         else (True, w))"

subsection \<open>Playing\<close>

definition msg_gunselect :: "int \<Rightarrow> int \<Rightarrow> uchar list \<Rightarrow> 'a world_scheme \<Rightarrow> 'a world_scheme" where
  "msg_gunselect g q raw w =
     (if gs_state (cstate q w) \<noteq> CS_ALIVE \<or> g < GUN_FIST \<or> g > GUN_PISTOL then w
      else queue q raw (upd_state q (\<lambda>s. s\<lparr>gunselect := g\<rparr>) w))"

definition spawn_refused :: "int \<Rightarrow> int \<Rightarrow> 'a world_scheme \<Rightarrow> bool" where
  "spawn_refused ls q w \<longleftrightarrow> (let s = cstate q w
     in (gs_state s \<noteq> CS_ALIVE \<and> gs_state s \<noteq> CS_DEAD \<and> gs_state s \<noteq> CS_EDITING) \<or> ls \<noteq> gs_lifesequence s \<or> gs_lastspawn s < 0)"

definition spawn_spy :: "'a smode \<Rightarrow> int \<Rightarrow> 'a world_scheme \<Rightarrow> 'a world_scheme" where
  "spawn_spy sm me w =
     (let w = upd_state me (\<lambda>s. s\<lparr>gs_state := CS_DEAD\<rparr>) (upd_client me (\<lambda>ci. ci\<lparr>ci_spy := False\<rparr>) w);
          w = upd_client me (\<lambda>ci. ci\<lparr>ci_spy := True\<rparr>) (setspectator sm me True False w)
      in sendprivtext me (RED @ ''You've entered the spy-mode.'') w)"

definition msg_spawn :: "'a smode \<Rightarrow> int \<Rightarrow> int \<Rightarrow> int \<Rightarrow> int \<Rightarrow> 'a world_scheme \<Rightarrow> 'a world_scheme" where
  "msg_spawn sm me ls g q w =
     (if spawn_refused ls q w then w
      else let w = (if ci_mapcrc (client q w) = 0 \<and> aitype (cstate q w) = AI_NONE
                    then upd_client q (\<lambda>ci. ci\<lparr>ci_mapcrc := 1\<rparr>) (modmap q (ci_clientmap (client me w)) 0 w) else w)
           in if ci_spy (client me w) then spawn_spy sm me w
              else let w = upd_client q (\<lambda>ci. ci\<lparr>ci_exceeded := 0, ci_lastposupdate := 0\<rparr>)
                             (upd_state q (\<lambda>s. s\<lparr>gs_lastspawn := - 1, gs_state := CS_ALIVE, gunselect := g\<rparr>) w);
                       w = smode_spawned sm q w;
                       w = queue q (concat (map (int_bytes \<circ> word_of_int) (N_SPAWN # sendstate (cstate q w)))) w;
                       w = emit (Event ''spawn'' [MI q]) w
                   in upd_state q (\<lambda>s. s\<lparr>gs_lastdeath := 0\<rparr>) w)"

abbreviation (input) DNF :: rat where "DNF \<equiv> 100"

fun get_hits :: "nat \<Rightarrow> uchar databuf \<Rightarrow> hitinfo list \<times> uchar databuf" where
  "get_hits 0 p = ([], p)"
| "get_hits (Suc k) p =
     (if db_overread p then ([], p)
      else let (target, p) = geti p; (ls, p) = geti p; (d, p) = geti p; (rays, p) = geti p; (dir, p) = getvec DNF p;
               (hs, p) = get_hits k p
           in (\<lparr>hi_target = target, hi_lifesequence = ls, hi_rays = word_of_int rays, hi_dist = of_int d / DMF, hi_dir = dir\<rparr> # hs, p))"

text \<open>\<^verbatim>\<open>cq ? cq->geteventmillis(gamemillis, m) : 0\<close>\<close>

definition event_millis :: "int option \<Rightarrow> int \<Rightarrow> 'a world_scheme \<Rightarrow> int \<times> 'a world_scheme" where
  "event_millis cq m w = (case cq of
     Some q \<Rightarrow> (fst (geteventmillis (gamemillis w) m (client q w)), upd_client q (\<lambda>ci. snd (geteventmillis (gamemillis w) m ci)) w)
   | None \<Rightarrow> (0, w))"

definition on_cq :: "int option \<Rightarrow> (int \<Rightarrow> 'w \<Rightarrow> 'w) \<Rightarrow> 'w \<Rightarrow> 'w" where
  "on_cq cq f w = (case cq of Some q \<Rightarrow> f q w | None \<Rightarrow> w)"

definition msg_shoot :: "int option \<Rightarrow> uchar databuf \<Rightarrow> 'a world_scheme \<Rightarrow> uchar databuf \<times> 'a world_scheme" where
  "msg_shoot cq p w =
     (let (sid, p) = geti p; (millis, w) = event_millis cq sid w; (g, p) = geti p;
          (from, p) = getvec DMF p; (to, p) = getvec DMF p; (n, p) = geti p; (hits, p) = get_hits (nat n) p
      in (p, on_cq cq (\<lambda>q w. push_client q (upd_client q (addevent (ShotEvent millis sid g from to hits)) w)) w))"

definition msg_explode :: "int option \<Rightarrow> uchar databuf \<Rightarrow> 'a world_scheme \<Rightarrow> uchar databuf \<times> 'a world_scheme" where
  "msg_explode cq p w =
     (let (cmillis, p) = geti p; (millis, w) = event_millis cq cmillis w; (g, p) = geti p; (eid, p) = geti p;
          (n, p) = geti p; (hits, p) = get_hits (nat n) p
      in (p, on_cq cq (\<lambda>q w. upd_client q (addevent (ExplodeEvent millis eid g hits)) w) w))"

subsection \<open>The state of the connection\<close>

definition msg_switchmodel :: "int \<Rightarrow> int \<Rightarrow> uchar list \<Rightarrow> 'a world_scheme \<Rightarrow> 'a world_scheme" where
  "msg_switchmodel me model raw w =
     (if model < 0 \<or> model > 4 then w
      else let w = upd_client me (\<lambda>ci. ci\<lparr>ci_playermodel := model\<rparr>) w in if ci_spy (client me w) then w else queue me raw w)"

definition msg_ping :: "int \<Rightarrow> int \<Rightarrow> int \<Rightarrow> 'a world_scheme \<Rightarrow> 'a world_scheme" where
  "msg_ping sender me cmillis w =
     (let ci = client me w;
          w = (if ci_maploaded ci = 0 \<and> totalmillis w - ci_connectmillis ci > 2000
               then emit (Event ''maploaded'' [MI me]) (upd_client me (\<lambda>ci. ci\<lparr>ci_maploaded := gamemillis w\<rparr>) w) else w);
          w = upd_client me (\<lambda>ci. ci\<lparr>ci_lastpingupdate := totalmillis w, ci_clientmillis := cmillis\<rparr>) w
      in emit (sendf sender 1 [MI N_PONG, MI cmillis]) w)"

definition msg_clientping :: "int \<Rightarrow> int \<Rightarrow> uchar list \<Rightarrow> 'a world_scheme \<Rightarrow> 'a world_scheme" where
  "msg_clientping me pg raw w =
     (if pg > 0 \<and> pg < 15000
      then let w = fold (\<lambda>b. upd_client b (\<lambda>ci. ci\<lparr>ci_ping := pg\<rparr>)) (ci_bots (client me w)) (upd_client me (\<lambda>ci. ci\<lparr>ci_ping := pg\<rparr>) w)
           in if ci_spy (client me w) then w else queue me raw w
      else w)"

definition msg_pausegame :: "int \<Rightarrow> int \<Rightarrow> 'a world_scheme \<Rightarrow> 'a world_scheme" where
  "msg_pausegame me val w =
     (if ci_privilege (client me w) < (if restrictpausegame w then PRIV_ADMIN else PRIV_MASTER) \<and> \<not> ci_local (client me w) then w
      else (pausegame (val > 0) (Some me) w)\<lparr>pausegame_owner := me\<rparr>)"

definition msg_gamespeed :: "int \<Rightarrow> int \<Rightarrow> 'a world_scheme \<Rightarrow> 'a world_scheme" where
  "msg_gamespeed me val w =
     (if ci_privilege (client me w) < (if restrictgamespeed w then PRIV_ADMIN else PRIV_MASTER) \<and> \<not> ci_local (client me w) then w
      else changegamespeed val (Some me) w)"

subsection \<open>Which messages are allowed\<close>

text \<open>The table of \<^verbatim>\<open>msgfilter\<close>; a later entry for a message overrides an earlier one.\<close>

definition msgmask :: "(int \<times> int) list" where
  "msgmask =
     map (\<lambda>m. (m, 1)) [N_CONNECT, N_SERVINFO, N_INITCLIENT, N_WELCOME, N_MAPCHANGE, N_SERVMSG, N_DAMAGE, N_HITPUSH, N_SHOTFX, N_EXPLODEFX,
       N_DIED, N_SPAWNSTATE, N_FORCEDEATH, N_TEAMINFO, N_ITEMACC, N_ITEMSPAWN, N_TIMEUP, N_CDIS, N_CURRENTMASTER, N_PONG, N_RESUME,
       N_BASESCORE, N_BASEINFO, N_BASEREGEN, N_ANNOUNCE, N_SENDDEMOLIST, N_SENDDEMO, N_DEMOPLAYBACK, N_SENDMAP, N_DROPFLAG, N_SCOREFLAG,
       N_RETURNFLAG, N_RESETFLAG, N_INVISFLAG, N_CLIENT, N_AUTHCHAL, N_INITAI, N_EXPIRETOKENS, N_DROPTOKENS, N_STEALTOKENS, N_DEMOPACKET]
     @ map (\<lambda>m. (m, 2)) [N_REMIP, N_NEWMAP, N_GETMAP, N_SENDMAP, N_CLIPBOARD]
     @ map (\<lambda>m. (m, 3)) [N_EDITENT, N_EDITF, N_EDITT, N_EDITM, N_FLIP, N_COPY, N_PASTE, N_ROTATE, N_REPLACE, N_DELCUBE, N_EDITVAR,
       N_EDITVSLOT, N_UNDO, N_REDO]
     @ [(N_POS, 4)]"

definition msgfilter :: "int \<Rightarrow> int" where
  "msgfilter t = (if 0 \<le> t \<and> t < NUMMSG then (case map_of (rev msgmask) t of Some v \<Rightarrow> v | None \<Rightarrow> 0) else 0)"

text \<open>\<^verbatim>\<open>checktype\<close> for a client that is connected.\<close>

definition count_message :: "int \<Rightarrow> int \<Rightarrow> 'a world_scheme \<Rightarrow> int \<times> 'a world_scheme" where
  "count_message t me w =
     (let w = upd_client me (\<lambda>ci. ci\<lparr>ci_overflow := ci_overflow ci + 1\<rparr>) w
      in (if ci_overflow (client me w) \<ge> 200 then - 2 else t, w))"

definition checktype :: "int \<Rightarrow> int \<Rightarrow> 'a world_scheme \<Rightarrow> int \<times> 'a world_scheme" where
  "checktype t me w =
     (if ci_local (client me w) then (t, w)
      else if msgfilter t = 1 then (- 1, w)
      else if msgfilter t = 2 then (if m_edit (gamemode w) then count_message t me w else (- 1, w))
      else if msgfilter t = 3 then (if m_edit (gamemode w) then (t, w) else (- 1, w))
      else if msgfilter t = 4 then (t, w)
      else count_message t me w)"

subsection \<open>The loop\<close>

text \<open>A client that plays, as the loop sees it: the number \<open>sender\<close> of its connection, the number \<open>me\<close> of its record,
  and the place \<open>curmsg\<close> where the message starts.\<close>

text \<open>The last case is \<^verbatim>\<open>N_FROMAI\<close>.\<close>

definition move_types :: "int list" where "move_types = [N_POS, N_TELEPORT, N_JUMPPAD, N_FROMAI]"

definition parse_moves :: "'a smode \<Rightarrow> int \<Rightarrow> int \<Rightarrow> int \<Rightarrow> int option \<Rightarrow> int \<Rightarrow> uchar databuf \<Rightarrow> 'a world_scheme
    \<Rightarrow> 'a world_scheme outcome" where
  "parse_moves sm sender me curmsg cq t p w =
     (if t = N_POS
      then let (pcn, m, p) = getpos p
           in Next p cq (case own_player sender pcn w of Some cp \<Rightarrow> msg_pos sm me cp (bytes_from curmsg p) m w | None \<Rightarrow> w)
      else if t = N_TELEPORT
      then let (pcn, p) = geti p; (tp, p) = geti p; (td, p) = geti p
           in Next p cq (if cq = None then w
                else case own_player sender pcn w of Some cp \<Rightarrow> msg_teleport me cp pcn tp td w | None \<Rightarrow> w)
      else if t = N_JUMPPAD
      then let (pcn, p) = geti p; (jp, p) = geti p
           in Next p cq (if cq = None then w
                else case own_player sender pcn w of Some cp \<Rightarrow> msg_jumppad me cp pcn jp w | None \<Rightarrow> w)
      else let (qcn, p) = geti p in Next p (if qcn < 0 then Some me else own_player sender qcn w) w)"

text \<open>The last case is \<^verbatim>\<open>N_ITEMPICKUP\<close>.\<close>

definition fight_types :: "int list" where
  "fight_types = [N_TRYSPAWN, N_SPAWN, N_GUNSELECT, N_SUICIDE, N_SHOOT, N_EXPLODE, N_ITEMPICKUP]"

definition parse_fight :: "'a smode \<Rightarrow> int \<Rightarrow> int \<Rightarrow> int option \<Rightarrow> int \<Rightarrow> uchar databuf \<Rightarrow> 'a world_scheme
    \<Rightarrow> 'a world_scheme outcome option" where
  "parse_fight sm me curmsg cq t p w =
     (if t = N_TRYSPAWN
      then (case cq of
              None \<Rightarrow> Some (Next p cq w)
            | Some q \<Rightarrow> if dangling cq w then Some (Fault ''use after free'' w) else map_option (Next p cq) (try_respawn sm me q w))
      else if t = N_SPAWN
      then let (ls, p) = geti p; (g, p) = geti p
           in Some (if g < GUN_FIST \<or> g > GUN_PISTOL then Next p cq w
                    else if dangling cq w then Fault ''use after free'' w
                    else Next p cq (on_cq cq (msg_spawn sm me ls g) w))
      else if dangling cq w then Some (Fault ''use after free'' w)
      else if t = N_GUNSELECT
      then let (g, p) = geti p in Some (Next p cq (on_cq cq (\<lambda>q. msg_gunselect g q (bytes_from curmsg p)) w))
      else if t = N_SUICIDE then Some (Next p cq (on_cq cq (\<lambda>q. upd_client q (addevent SuicideEvent)) w))
      else if t = N_SHOOT then let (p, w) = msg_shoot cq p w in Some (Next p cq w)
      else if t = N_EXPLODE then let (p, w) = msg_explode cq p w in Some (Next p cq w)
      else let (n, p) = geti p in Some (Next p cq (on_cq cq (\<lambda>q. upd_client q (addevent (PickupEvent n))) w)))"

text \<open>The messages of the modes: the mode that is played names those of its messages that use \<open>cq\<close> and handles all of
  them; the server reads the values of those of the other modes.\<close>

type_synonym 's modemsgs = "int list \<times> (int \<Rightarrow> clientinfo \<Rightarrow> clientinfo option \<Rightarrow> uchar databuf \<Rightarrow> 's \<Rightarrow> uchar databuf \<times> 's)"

definition mode_types :: "int list" where
  "mode_types = [N_TRYDROPFLAG, N_TAKEFLAG, N_INITFLAGS, N_BASES, N_REPAMMO, N_INITTOKENS, N_TAKETOKEN, N_DEPOSITTOKENS]"

definition idle_msgs :: "int \<Rightarrow> clientinfo \<Rightarrow> clientinfo option \<Rightarrow> uchar databuf \<Rightarrow> 's \<Rightarrow> uchar databuf \<times> 's" where
  "idle_msgs t ci cq p w = (snd (getis (if t = N_TAKEFLAG then 2 else if t = N_TAKETOKEN \<or> t = N_DEPOSITTOKENS then 1 else 0) p), w)"

definition no_msgs :: "'a world_scheme modemsgs" where "no_msgs = ([], idle_msgs)"

definition ctf_msgs :: "ctf modemsgs" where
  "ctf_msgs = ([N_TRYDROPFLAG, N_TAKEFLAG], \<lambda>t ci cq p w.
     if t = N_TRYDROPFLAG then (p, msg_trydropflag ci cq w) else if t = N_TAKEFLAG then msg_takeflag ci cq p w
     else if t = N_INITFLAGS then msg_initflags ci p w else idle_msgs t ci cq p w)"

definition capture_msgs :: "capture modemsgs" where
  "capture_msgs = ([N_REPAMMO], \<lambda>t ci cq p w.
     if t = N_BASES then msg_bases ci p w else if t = N_REPAMMO then (p, msg_repammo ci cq w) else idle_msgs t ci cq p w)"

definition collect_msgs :: "collect modemsgs" where
  "collect_msgs = ([N_TAKETOKEN, N_DEPOSITTOKENS], \<lambda>t ci cq p w.
     if t = N_INITTOKENS then msg_inittokens ci p w else if t = N_TAKETOKEN then msg_taketoken ci cq p w
     else if t = N_DEPOSITTOKENS then msg_deposittokens ci cq p w else idle_msgs t ci cq p w)"

definition parse_mode :: "'a world_scheme modemsgs \<Rightarrow> int \<Rightarrow> int option \<Rightarrow> int \<Rightarrow> uchar databuf \<Rightarrow> 'a world_scheme
    \<Rightarrow> 'a world_scheme outcome" where
  "parse_mode om me cq t p w =
     (if t \<in> set (fst om) \<and> can_play (client me w) \<and> dangling cq w then Fault ''use after free'' w
      else let (p, w) = snd om t (client me w) (map_option (\<lambda>q. client q w) cq) p w in Next p cq w)"

subsection \<open>Editing and requests\<close>

definition kick_out :: "int \<Rightarrow> int \<Rightarrow> 'a world_scheme \<Rightarrow> 'a world_scheme outcome" where
  "kick_out sender reason w = Kick sender reason w"

text \<open>A message of the client or of \<open>cq\<close> is relayed to the others.\<close>

definition relay :: "int \<Rightarrow> int option \<Rightarrow> int \<Rightarrow> uchar list \<Rightarrow> uchar databuf \<Rightarrow> 'a world_scheme \<Rightarrow> 'a world_scheme outcome" where
  "relay me cq t raw p w =
     (if msgfilter t = 2 \<or> msgfilter t = 3
      then Next p cq (if gs_state (cstate me w) \<noteq> CS_SPECTATOR then queue me raw w else w)
      else case cq of
             None \<Rightarrow> Next p cq w
           | Some q \<Rightarrow>
               if me = q \<and> gs_state (cstate me w) = CS_SPECTATOR then Next p cq w
               else if dangling cq w then Fault ''use after free'' w
               else Next p cq (queue q raw w))"

definition parse_generic :: "int \<Rightarrow> int \<Rightarrow> int \<Rightarrow> int option \<Rightarrow> int \<Rightarrow> uchar databuf \<Rightarrow> 'a world_scheme \<Rightarrow> 'a world_scheme outcome" where
  "parse_generic sender me curmsg cq t p w =
     (if msgsizelookup t \<le> 0 then kick_out sender DISC_MSGERR w
      else let p = snd (getis (nat (msgsizelookup t - 1)) p) in relay me cq t (bytes_from curmsg p) p w)"

definition edit_types :: "int list" where
  "edit_types = [N_EDITMODE, N_ITEMLIST, N_EDITENT, N_EDITVAR, N_EDITT, N_REPLACE, N_EDITVSLOT, N_UNDO, N_REDO, N_REMIP, N_EDITF, N_EDITM, N_FLIP, N_ROTATE, N_DELCUBE]"

definition msg_itemlist :: "int \<Rightarrow> int option \<Rightarrow> uchar databuf \<Rightarrow> 'a world_scheme \<Rightarrow> 'a world_scheme outcome" where
  "msg_itemlist me cq p w =
     (let ci = client me w
      in if \<not> can_play ci \<or> \<not> notgotitems w \<or> ci_clientmap ci \<noteq> smapname w then Next (skip_items p) cq w
         else let (ok, p, w) = enter_items p w
              in if ok then Next p cq (w\<lparr>notgotitems := False\<rparr>) else Fault ''index out of bounds'' w)"

text \<open>\<^verbatim>\<open>N_EDITT\<close>, \<^verbatim>\<open>N_REPLACE\<close> and \<^verbatim>\<open>N_EDITVSLOT\<close> have a tail whose length they name.\<close>

definition msg_edittail :: "int \<Rightarrow> int \<Rightarrow> int \<Rightarrow> int option \<Rightarrow> int \<Rightarrow> uchar databuf \<Rightarrow> 'a world_scheme \<Rightarrow> 'a world_scheme outcome" where
  "msg_edittail sender me curmsg cq t p w =
     (if msgsizelookup t \<le> 0 then kick_out sender DISC_MSGERR w
      else let p = snd (getis (nat (msgsizelookup t - 1)) p)
           in if editpacket_hook w me then Stop w
              else if db_remaining p < 2 then kick_out sender DISC_MSGERR w
              else let (b0, p) = getb p; (b1, p) = getb p; extra = b0 + 256 * b1
                   in if db_remaining p < extra then kick_out sender DISC_MSGERR w
                      else let p = snd (db_pad extra p)
                           in Next p cq (if gs_state (cstate me w) \<noteq> CS_SPECTATOR then queue me (bytes_from curmsg p) w else w))"

definition msg_undo :: "int \<Rightarrow> int \<Rightarrow> int option \<Rightarrow> int \<Rightarrow> uchar databuf \<Rightarrow> 'a world_scheme \<Rightarrow> 'a world_scheme outcome" where
  "msg_undo sender me cq t p w =
     (let (unpacklen, p) = geti p; (packlen, p) = geti p
      in if gs_state (cstate me w) = CS_SPECTATOR \<or> packlen \<le> 0 \<or> packlen > 65536 \<or> unpacklen \<le> 0
         then Next (if packlen > 0 then snd (db_subbuf packlen p) else p) cq w
         else if db_remaining p < packlen then kick_out sender DISC_MSGERR w
         else if editpacket_hook w me then Stop w
         else let (bs, _, p) = db_get_n packlen p
              in Next p cq (emit (Sendf (- 1) 1 [MI t, MI me, MI unpacklen, MI packlen, MB bs] me) w))"

definition parse_edit :: "'a smode \<Rightarrow> int \<Rightarrow> int \<Rightarrow> int \<Rightarrow> int option \<Rightarrow> int \<Rightarrow> uchar databuf \<Rightarrow> 'a world_scheme \<Rightarrow> 'a world_scheme outcome" where
  "parse_edit sm sender me curmsg cq t p w =
     (if t = N_EDITMODE then let (val, p) = geti p in Next p cq (msg_editmode sm me val (bytes_from curmsg p) w)
      else if t = N_ITEMLIST then msg_itemlist me cq p w
      else if t = N_EDITENT
      then let (i, p) = geti p; (_, p) = getis 3 p; (ty, p) = geti p; (_, p) = getis 5 p
           in if gs_state (cstate me w) = CS_SPECTATOR then Next p cq w
              else if editpacket_hook w me then Stop w
              else let (ok, w) = msg_editent me i ty (bytes_from curmsg p) w
                   in if ok then Next p cq w else Fault ''index out of bounds'' w
      else if t = N_EDITVAR
      then let (ty, p) = geti p; (_, p) = gettext p;
               p = (if ty = 0 then snd (geti p) else if ty = 1 then getbs 4 p else if ty = 2 then snd (gettext p) else p)
           in if editpacket_hook w me then Stop w
              else Next p cq (if gs_state (cstate me w) \<noteq> CS_SPECTATOR then queue me (bytes_from curmsg p) w else w)
      else if t = N_EDITT \<or> t = N_REPLACE \<or> t = N_EDITVSLOT then msg_edittail sender me curmsg cq t p w
      else if t = N_UNDO \<or> t = N_REDO then msg_undo sender me cq t p w
      else if msgsizelookup t \<le> 0 then kick_out sender DISC_MSGERR w
      else let p = snd (getis (nat (msgsizelookup t - 1)) p)
           in if editpacket_hook w me then Stop w else relay me cq t (bytes_from curmsg p) p w)"

definition request_types :: "int list" where
  "request_types = [N_MAPCRC, N_CHECKMAPS, N_SWITCHMODEL, N_PING, N_CLIENTPING, N_SPECTATOR, N_FORCEINTERMISSION, N_CLEARBANS, N_ADDBOT, N_DELBOT,
     N_BOTLIMIT, N_BOTBALANCE, N_PAUSEGAME, N_GAMESPEED, N_SERVCMD, N_CONNECT]"

definition parse_request :: "'a smode \<Rightarrow> int \<Rightarrow> int \<Rightarrow> int \<Rightarrow> int \<Rightarrow> uchar databuf \<Rightarrow> 'a world_scheme \<Rightarrow> uchar databuf \<times> 'a world_scheme" where
  "parse_request sm sender me curmsg t p w =
     (if t = N_MAPCRC then let (txt, p) = gettext p; (crc, p) = geti p in (p, msg_mapcrc me txt crc w)
      else if t = N_CHECKMAPS then (p, msg_checkmaps w)
      else if t = N_SWITCHMODEL then let (n, p) = geti p in (p, msg_switchmodel me n (bytes_from curmsg p) w)
      else if t = N_PING then let (n, p) = geti p in (p, msg_ping sender me n w)
      else if t = N_CLIENTPING then let (n, p) = geti p in (p, msg_clientping me n (bytes_from curmsg p) w)
      else if t = N_SPECTATOR then let (n, p) = geti p; (val, p) = geti p in (p, msg_spectator sm sender me n val w)
      else if t = N_FORCEINTERMISSION then (p, if ci_local (client me w) \<and> \<not> hasnonlocalclients w then startintermission w else w)
      else if t = N_CLEARBANS then (p, if ci_privilege (client me w) \<noteq> 0 then emit (Event ''clearbans_request'' [MI me]) w else w)
      else if t = N_ADDBOT then let (n, p) = geti p in (p, reqadd me n w)
      else if t = N_DELBOT then (p, reqdel sm me w)
      else if t = N_BOTLIMIT then let (n, p) = geti p in (p, setbotlimit (Some me) n w)
      else if t = N_BOTBALANCE then let (n, p) = geti p in (p, setbotbalance (Some me) (n \<noteq> 0) w)
      else if t = N_PAUSEGAME then let (n, p) = geti p in (p, msg_pausegame me n w)
      else if t = N_GAMESPEED then let (n, p) = geti p in (p, msg_gamespeed me n w)
      else if t = N_SERVCMD then let (txt, p) = gettext p in (p, emit (Event ''servcmd'' [MI me, MS (utf8 w txt)]) w)
      else let (_, p) = gettext p; (_, p) = gettext p; (_, p) = geti p in (p, w))"

text \<open>The messages of the theory \<open>Chat\<close>.\<close>

definition other_types :: "int list" where
  "other_types = [N_TEXT, N_SAYTEAM, N_SWITCHNAME, N_MAPVOTE, N_SWITCHTEAM, N_MAPCHANGE, N_MASTERMODE, N_KICK, N_SETTEAM, N_RECORDDEMO, N_STOPDEMO,
     N_CLEARDEMOS, N_LISTDEMOS, N_GETDEMO, N_GETMAP, N_NEWMAP, N_SETMASTER, N_AUTHTRY, N_AUTHKICK, N_AUTHANS, N_COPY, N_PASTE, N_CLIPBOARD]"

definition parse_msg :: "'a smode \<Rightarrow> 'a world_scheme modemsgs \<Rightarrow> int \<Rightarrow> int \<Rightarrow> int \<Rightarrow> int option \<Rightarrow> int \<Rightarrow> uchar databuf \<Rightarrow> 'a world_scheme
    \<Rightarrow> 'a world_scheme outcome option" where
  "parse_msg sm om sender me curmsg cq t p w =
     (if t = - 1 then Some (kick_out sender DISC_MSGERR w)
      else if t = - 2 then Some (kick_out sender DISC_OVERFLOW w)
      else if t \<in> set move_types then Some (parse_moves sm sender me curmsg cq t p w)
      else if t \<in> set fight_types then parse_fight sm me curmsg cq t p w
      else if t \<in> set mode_types then Some (parse_mode om me cq t p w)
      else if t \<in> set edit_types then Some (parse_edit sm sender me curmsg cq t p w)
      else if t \<in> set request_types then let (p, w) = parse_request sm sender me curmsg t p w in Some (Next p cq w)
      else if t \<in> set other_types then Some (Other t curmsg p cq w)
      else Some (parse_generic sender me curmsg cq t p w))"

text \<open>The loop of \<^verbatim>\<open>parsepacket\<close> up to the end of the packet, the message that ends it, or the first message of the theory
  \<open>Chat\<close>. It is a part of the whole loop, \<open>parse_all\<close> of that theory, which goes on behind such a message.\<close>

partial_function (option) parse_loop :: "'a smode \<Rightarrow> 'a world_scheme modemsgs \<Rightarrow> int \<Rightarrow> int \<Rightarrow> int option \<Rightarrow> uchar databuf \<Rightarrow> 'a world_scheme
    \<Rightarrow> 'a world_scheme outcome option" where
  "parse_loop sm om sender me cq p w =
     (if dlen p \<ge> dmaxlen p then Some (Stop w)
      else let (t, q) = geti p; (t, w) = checktype t me w
           in Option.bind (parse_msg sm om sender me (dlen p) cq t q w) (\<lambda>r. case r of
                Next q cq w \<Rightarrow> parse_loop sm om sender me cq q w | _ \<Rightarrow> Some r))"

declare parse_loop.simps [code]

end
