(* ===== verification/Packets.thy ===== *)
theory Packets
  imports Parser
begin

text \<open>
  What holds of every packet, whatever its bytes are: reading goes forward and stays in the buffer, so the loop ends;
  the tables of clients and bots stay consistent; the hits of a shot take no more memory than the packet has room
  for. Three ways are shown in which a packet makes the server use memory that it must not use.
\<close>

subsection \<open>Reading goes forward\<close>

lemma forward_getb [simp]: "forward p (snd (getb p))"
  using forward_get [of p] by (simp add: getb_def split_beta)

lemma forward_geti' [simp]: "forward p (snd (geti p))"
  using forward_geti [of p] by blast

lemma forward_getis [simp]: "forward p (snd (getis k p))"
proof (induction k arbitrary: p)
  case (Suc k)
  then show ?case using forward_trans [OF forward_geti' [of p]] by (simp add: split_beta Let_def)
qed simp

lemma forward_getbs [simp]: "forward p (getbs k p)"
proof (induction k arbitrary: p)
  case (Suc k)
  then show ?case using forward_trans [OF forward_getb [of p]] by simp
qed simp

lemma forward_getvec [simp]: "forward p (snd (getvec k p))"
  unfolding getvec_def by (simp add: split_beta Let_def) (meson forward_geti' forward_trans)

lemma forward_getuint [simp]: "forward p (snd (getuint p))"
proof -
  obtain k where "snd (getuint p) = ((\<lambda>p. snd (db_get p)) ^^ k) p" using getuint_gets by blast
  then show ?thesis by (simp add: forward_gets)
qed

lemma forward_getstring_loop: "forward p (snd (getstring_loop len acc p))"
proof (induction len acc p rule: getstring_loop.induct)
  case (1 len acc p)
  obtain n q where q: "getint p = (n, q)" by force
  have "forward p q" using forward_geti' [of p] q by (simp add: geti_def)
  then show ?case using "1.IH" [of "(n, q)" n q "ucast n"] q
    by (subst getstring_loop.simps) (auto simp: Let_def intro: forward_trans split: prod.splits)
qed

lemma forward_gettext [simp]: "forward p (snd (gettext p))"
  using forward_getstring_loop [of p] by (simp add: gettext_def getstring_def split_beta Let_def)

lemma forward_pos_coord [simp]: "forward p (snd (pos_coord b p))"
  unfolding pos_coord_def by (simp add: split_beta Let_def) (meson forward_getb forward_trans)

text \<open>The same as rules that go back over a chain of reads.\<close>

lemma fwd:
  "forward p q \<Longrightarrow> forward p (snd (getb q))" "forward p q \<Longrightarrow> forward p (snd (geti q))" "forward p q \<Longrightarrow> forward p (snd (getis k q))"
  "forward p q \<Longrightarrow> forward p (getbs k q)" "forward p q \<Longrightarrow> forward p (snd (getvec c q))" "forward p q \<Longrightarrow> forward p (snd (getuint q))"
  "forward p q \<Longrightarrow> forward p (snd (gettext q))" "forward p q \<Longrightarrow> forward p (snd (pos_coord b q))"
  by (erule forward_trans, simp)+

lemma forward_skip [simp]: "forward p (skip_items p)"
proof (induction p rule: skip_items.induct)
  case (1 p)
  obtain n q where q: "geti p = (n, q)" by force
  have "forward p (snd (geti q))" using fwd(2) [OF forward_geti', of p] q by simp
  then show ?case using "1.IH" [OF refl, of n q] q forward_geti' [of p]
    by (subst skip_items.simps) (auto intro: forward_trans)
qed

lemma forward_hits [simp]: "forward p (snd (get_hits k p))"
proof (induction k arbitrary: p)
  case (Suc k)
  have "forward p (snd (getvec 100 (snd (geti (snd (geti (snd (geti (snd (geti p))))))))))"
    by (intro fwd forward_refl)
  from forward_trans [OF this Suc] show ?case by (simp add: split_beta Let_def)
qed simp

lemma forward_getpos: "forward p (snd (snd (getpos p)))"
proof -
  define q where "q = snd (pos_coord (bit (fst (getuint (snd (getb (snd (getuint p)))))) 2)
    (snd (pos_coord (bit (fst (getuint (snd (getb (snd (getuint p)))))) 1)
    (snd (pos_coord (bit (fst (getuint (snd (getb (snd (getuint p)))))) 0)
    (snd (getuint (snd (getb (snd (getuint p)))))))))))"
  have "forward p q" unfolding q_def by (intro fwd forward_refl)
  then show ?thesis unfolding getpos_def split_beta Let_def snd_conv q_def [symmetric]
    by (auto intro!: fwd)
qed

lemma forward_enter [simp]: "forward p (fst (snd (enter_items p w)))"
proof (induction p w rule: enter_items.induct)
  case (1 p w)
  obtain n q where q: "geti p = (n, q)" by force
  obtain t r where r: "geti q = (t, r)" by force
  have pq: "forward p q" "forward p r" using forward_geti' [of p] fwd(2) [OF forward_geti', of p] q r by simp_all
  show ?case
  proof (cases "0 \<le> n \<and> n < MAXENTS \<and> \<not> db_overread q \<and> 0 \<le> t \<and> t < MAXENTTYPES")
    case False
    then show ?thesis using pq q r by (subst enter_items.simps) (auto simp: Let_def)
  next
    case True
    then have "forward r (fst (snd (enter_items r (enter_item n t (set_item n t w)))))" using "1.IH" [OF refl q [symmetric] _ refl r [symmetric]] by blast
    then show ?thesis using pq q r True by (subst enter_items.simps) (auto intro: forward_trans)
  qed
qed

lemma forward_pad [simp]: "0 \<le> n \<Longrightarrow> dlen p \<le> dmaxlen p \<Longrightarrow> forward p (snd (db_pad n p))"
  by (simp add: db_pad_def forward_def db_overread_def)

lemma forward_subbuf [simp]: "dlen p \<le> dmaxlen p \<Longrightarrow> forward p (snd (db_subbuf n p))"
  by (simp add: db_subbuf_def Let_def forward_def db_overread_def clamp_def)

lemma forward_get_n [simp]: "0 \<le> n \<Longrightarrow> dlen p \<le> dmaxlen p \<Longrightarrow> forward p (snd (snd (db_get_n n p)))"
  by (auto simp: db_get_n_def Let_def forward_def db_overread_def)

subsection \<open>Hits\<close>

lemma geti_takes: "\<not> db_overread (snd (geti p)) \<Longrightarrow> dlen p + 1 \<le> dlen (snd (geti p)) \<and> \<not> db_overread p"
  using forward_geti [of p] by (auto simp: forward_def)

lemma getis_takes: "\<not> db_overread (snd (getis k p)) \<Longrightarrow> dlen p + int k \<le> dlen (snd (getis k p))"
proof (induction k arbitrary: p)
  case (Suc k)
  have "\<not> db_overread (snd (geti p))" using Suc.prems forward_getis [of "snd (geti p)" k] by (auto simp: forward_def split_beta Let_def)
  then show ?case using Suc.IH [of "snd (geti p)"] Suc.prems geti_takes [of p] by (simp add: split_beta Let_def)
qed simp

lemma hit_reads:
  "snd (getvec c (snd (geti (snd (geti (snd (geti (snd (geti p))))))))) = snd (getis 7 p)"
  by (simp add: getvec_def split_beta Let_def eval_nat_numeral)

lemma get_hits_room: "dlen p \<le> dmaxlen p \<Longrightarrow> 7 * int (length (fst (get_hits k p))) \<le> db_remaining p + 7"
proof (induction k arbitrary: p)
  case 0
  then show ?case by (simp add: db_remaining_def)
next
  case (Suc k)
  define q where "q = snd (getis 7 p)"
  have q: "forward p q" by (simp add: q_def)
  show ?case
  proof (cases "db_overread p")
    case True
    then show ?thesis using Suc.prems by (simp add: db_remaining_def)
  next
    case False
    then have len: "length (fst (get_hits (Suc k) p)) = Suc (length (fst (get_hits k q)))"
      by (simp add: split_beta Let_def hit_reads q_def)
    show ?thesis
    proof (cases "db_overread q")
      case True
      then have "get_hits k q = ([], q)" by (cases k) simp_all
      then show ?thesis using len Suc.prems by (simp add: db_remaining_def)
    next
      case False
      then have "dlen p + 7 \<le> dlen q" using getis_takes [of 7 p] by (simp add: q_def)
      moreover have "dlen q \<le> dmaxlen q" using q Suc.prems by (simp add: forward_def)
      ultimately show ?thesis using len Suc.IH [of q] q by (simp add: db_remaining_def forward_def)
    qed
  qed
qed

definition hits_of :: "gameevent \<Rightarrow> hitinfo list" where
  "hits_of e = (case e of ShotEvent _ _ _ _ _ hs \<Rightarrow> hs | ExplodeEvent _ _ _ hs \<Rightarrow> hs | _ \<Rightarrow> [])"

text \<open>What happens to the queue of a player: nothing, or it had room and got one event, the hits of which take no more bytes
  than \<open>n\<close>, and one more.\<close>

definition queues_event :: "int \<Rightarrow> int \<Rightarrow> 'a world_scheme \<Rightarrow> 'a world_scheme \<Rightarrow> bool" where
  "queues_event n q w w' \<longleftrightarrow> ci_events (client q w') = ci_events (client q w)
     \<or> length (ci_events (client q w)) \<le> 100
       \<and> (\<exists>e. ci_events (client q w') = ci_events (client q w) @ [e] \<and> 7 * int (length (hits_of e)) \<le> n + 7)"

lemma queues_event_cong:
  "ci_events (client q w2) = ci_events (client q w') \<Longrightarrow> ci_events (client q w1) = ci_events (client q w)
    \<Longrightarrow> queues_event n q w w' \<Longrightarrow> queues_event n q w1 w2"
  by (simp add: queues_event_def)

lemma queues_event_add:
  assumes "7 * int (length (hits_of e)) \<le> n + 7"
  shows "queues_event n q w (upd_client q (addevent e) w)"
proof (cases "q \<in> ci_clientnum ` set (roster w)")
  case True
  have "client q (upd_client q (addevent e) w) = addevent e (client q w)"
    by (rule client_upd_same [OF _ True]) (simp add: addevent_def)
  then show ?thesis using assms by (auto simp: queues_event_def addevent_def)
next
  case False
  then have "map (\<lambda>ci. if ci_clientnum ci = q then addevent e ci else ci) (roster w) = roster w" by (intro map_idI) auto
  then have "roster (upd_client q (addevent e) w) = roster w" by (simp add: roster_upd_client)
  then have "client q (upd_client q (addevent e) w) = client q w" by (rule client_cong)
  then show ?thesis by (simp add: queues_event_def)
qed

lemma events_push: "ci_events (client q (push_client q w)) = ci_events (client q w)"
  by (simp add: push_client_def, rule client_upd_keep, simp_all add: setpushed_def Let_def)

lemma events_millis: "ci_events (client q (snd (event_millis cq m w))) = ci_events (client q w)"
  by (auto simp: event_millis_def split: option.split intro!: client_upd_keep, simp_all add: geteventmillis_def Let_def)

lemma queues_event_msg:
  assumes "7 * int (length (hits_of e)) \<le> n + 7"
  shows "queues_event n q w (push_client q (upd_client q (addevent e) (snd (event_millis cq m w))))"
    "queues_event n q w (upd_client q (addevent e) (snd (event_millis cq m w)))"
  using queues_event_cong [OF _ _ queues_event_add [OF assms]] events_push events_millis by metis+

text \<open>C13: the number of hits that a shot or an explosion names is not trusted. Whatever the bytes and the queues are, reading
  the message ends, stays in the packet, and adds at most one event to the queue, and none to one of more than 100; the hits
  of the event that is added take at most a seventh of the bytes that were left in the packet, and one more.\<close>

theorem hits_fit_packet:
  assumes "db_wf p"
  shows "forward p (fst (msg_shoot (Some q) p w)) \<and> queues_event (db_remaining p) q w (snd (msg_shoot (Some q) p w))
    \<and> forward p (fst (msg_explode (Some q) p w)) \<and> queues_event (db_remaining p) q w (snd (msg_explode (Some q) p w))"
proof -
  have room: "7 * int (length (fst (get_hits k r))) \<le> db_remaining p + 7" if "forward p r" for k r
    using get_hits_room [of r k] that assms by (simp add: forward_def db_wf_def db_remaining_def)
  let ?s = "snd (geti (snd (getvec DMF (snd (getvec DMF (snd (geti (snd (geti p)))))))))"
  let ?e = "snd (geti (snd (geti (snd (geti (snd (geti p)))))))"
  have f: "forward p ?s" "forward p ?e" by (intro fwd forward_refl)+
  note ff = forward_trans [OF f(1) forward_hits] forward_trans [OF f(2) forward_hits]
  show ?thesis using ff room [OF f(1)] room [OF f(2)]
    by (simp add: msg_shoot_def msg_explode_def split_beta Let_def on_cq_def queues_event_msg hits_of_def)
qed

subsection \<open>Memory that must not be used\<close>

lemma geti_bytes:
  assumes "db_wf p" and "rest p = int_bytes n @ bs"
  obtains q where "geti p = (sint n, q)" "db_wf q" "rest q = bs" "db_overread q = db_overread p"
proof -
  from getint_bytes [OF assms] obtain q where "getint p = (n, q)" "db_wf q" "rest q = bs" "dflags q = dflags p" .
  then show thesis using that [of q] by (simp add: geti_def db_overread_def)
qed

text \<open>C14: \<^verbatim>\<open>N_ITEMLIST\<close> uses the type of an item as an index of \<^verbatim>\<open>sents_type_index\<close> as the client sent it. The first player on a
  map that the server has no file of can write past the end of the array, with any offset, by a message of two numbers.\<close>

theorem itemlist_writes_outside:
  assumes "db_wf p" "\<not> db_overread p" "rest p = int_bytes n @ int_bytes t @ bs"
    and "0 \<le> sint n" "sint n < MAXENTS" "sint t < 0 \<or> sint t \<ge> MAXENTTYPES"
    and "notgotitems w" "can_play (client me w)" "ci_clientmap (client me w) = smapname w"
  shows "\<exists>w'. parse_edit sm sender me curmsg cq N_ITEMLIST p w = Fault ''index out of bounds'' w'"
proof -
  from geti_bytes [OF assms(1,3)] obtain q where q: "geti p = (sint n, q)" "db_wf q" "rest q = int_bytes t @ bs" "db_overread q = db_overread p" .
  from geti_bytes [OF q(2,3)] obtain r where r: "geti q = (sint t, r)" .
  have "enter_items p w = (False, r, set_item (sint n) (sint t) w)"
    using assms(2,4-6) q r by (subst enter_items.simps) auto
  then show ?thesis using assms(7-9) by (simp add: parse_edit_def msg_itemlist_def)
qed

text \<open>C15: \<^verbatim>\<open>N_EDITENT\<close> tests the index of an entity only against \<^verbatim>\<open>MAXENTS\<close>. With the type of an item, a negative index passes and
  an element in front of \<^verbatim>\<open>sents\<close> is written.\<close>

theorem editent_writes_outside:
  assumes "db_wf p" "rest p = concat (map int_bytes ([i] @ xyz @ [t] @ attrs)) @ bs" "length xyz = 3" "length attrs = 5"
    and "sint i < 0" "canspawnitem (gamemode w) (sint t)"
    and "gs_state (cstate me w) \<noteq> CS_SPECTATOR" "\<not> editpacket_hook w me"
  shows "\<exists>w'. parse_edit sm sender me curmsg cq N_EDITENT p w = Fault ''index out of bounds'' w'"
proof -
  have getis: "\<exists>q. getis (length ns) r = (map sint ns, q) \<and> db_wf q \<and> rest q = cs" if "db_wf r" "rest r = concat (map int_bytes ns) @ cs" for r ns cs
    using that
  proof (induction ns arbitrary: r)
    case (Cons n ns)
    then have "rest r = int_bytes n @ concat (map int_bytes ns) @ cs" by simp
    from geti_bytes [OF Cons.prems(1) this] obtain q where q: "geti r = (sint n, q)" "db_wf q" "rest q = concat (map int_bytes ns) @ cs" .
    from Cons.IH [OF q(2,3)] show ?case using q(1) by (auto simp: Let_def)
  qed simp
  from assms(2) have "rest p = int_bytes i @ concat (map int_bytes xyz) @ int_bytes t @ concat (map int_bytes attrs) @ bs" by simp
  from geti_bytes [OF assms(1) this] obtain q where q: "geti p = (sint i, q)" "db_wf q"
    "rest q = concat (map int_bytes xyz) @ int_bytes t @ concat (map int_bytes attrs) @ bs" .
  from getis [OF q(2,3)] assms(3) obtain r where r: "getis 3 q = (map sint xyz, r)" "db_wf r" "rest r = int_bytes t @ concat (map int_bytes attrs) @ bs" by auto
  from geti_bytes [OF r(2,3)] obtain u where u: "geti r = (sint t, u)" .
  have "gamemode (queue me raw w) = gamemode w" for raw by (simp add: queue_def)
  then have "\<not> fst (msg_editent me (sint i) (sint t) raw w)" for raw
    using assms(5,6) by (simp add: msg_editent_def Let_def)
  then show ?thesis using assms(7,8) q(1) r(1) u by (simp add: parse_edit_def split_beta Let_def)
qed

lemma freed_slot_dangles:
  assumes "bots_ok w" and "i < length (bots w)" and "bots w ! i = None"
  shows "dangling (Some (MAXCLIENTS + int i)) w"
proof -
  have tab: "table_ok (rows w) (lobby w) (bots w)" using assms(1) by (simp add: bots_ok_def)
  have small: "int i < MAXBOTS" using table_okD(6) [OF tab] assms(2) by (simp add: slots_ok_def)
  have "ci_clientnum ci \<noteq> MAXCLIENTS + int i" if "ci \<in> set (roster w)" for ci
  proof
    assume n: "ci_clientnum ci = MAXCLIENTS + int i"
    have "seat ci \<in> set (rows w @ lobby w)" using that unfolding seats_roster [symmetric] by simp
    from table_okD(4) [OF tab this] show False using n small assms(3) by (auto simp: seat_ok_def split: if_splits)
  qed
  then have "MAXCLIENTS + int i \<notin> ci_clientnum ` set (roster w)" by (metis imageE)
  then show ?thesis by (simp add: dangling_def)
qed

lemma deleted_bot_dangles:
  assumes "mode_frame sm" and "bots_ok w" and "Some b \<in> set (bots w)"
  shows "dangling (Some b) (deleteai sm b w)"
proof -
  from assms(2,3) obtain i where i: "i < length (bots w)" "b = MAXCLIENTS + int i" by (rule bot_entry)
  note d = mode_frame.deleteai_ok [OF assms]
  have "dangling (Some (MAXCLIENTS + int i)) (deleteai sm b w)" by (rule freed_slot_dangles [OF d(1)]) (use d(3) i in simp_all)
  then show ?thesis by (simp add: i(2))
qed

lemma dangling_emit [simp]: "dangling c (emit e w) = dangling c w"
  by (simp add: dangling_def split: option.split)

text \<open>C12: a packet can go on with a bot that it has deleted. When a client with the privilege to remove bots speaks for a bot of
  its own, asks for the removal of a bot, and it is that one, the loop still has the pointer to the bot, and the next
  message of the packet that selects a gun, shoots, explodes, dies or takes an item uses memory that was freed.\<close>

theorem packet_uses_freed_bot:
  assumes "mode_frame sm" and "bots_ok w" and "ci_privilege (client me w) \<noteq> 0"
    and "find (\<lambda>slot. \<not> slot_free w slot) (rev (bots w)) = Some (Some b)"
    and "t \<in> {N_GUNSELECT, N_SUICIDE, N_SHOOT, N_EXPLODE, N_ITEMPICKUP}"
  shows "\<exists>w'. parse_msg sm om sender me curmsg (Some b) N_DELBOT p w = Some (Next p (Some b) w')
    \<and> parse_msg sm om sender me curmsg' (Some b) t p' w' = Some (Fault ''use after free'' w')"
proof -
  have "Some b \<in> set (bots w)" using assms(4) by (auto simp: find_Some_iff) (metis nth_mem set_rev length_rev)
  then have "dangling (Some b) (deleteai sm b w)" by (rule deleted_bot_dangles [OF assms(1,2)])
  then have d: "dangling (Some b) (reqdel sm me w)" using assms(3,4) by (simp add: reqdel_def deleteai_last_def)
  have "parse_msg sm om sender me curmsg (Some b) N_DELBOT p w = Some (Next p (Some b) (reqdel sm me w))"
    by (simp add: parse_msg_def move_types_def fight_types_def mode_types_def edit_types_def request_types_def parse_request_def)
  moreover have "parse_msg sm om sender me curmsg' (Some b) t p' (reqdel sm me w) = Some (Fault ''use after free'' (reqdel sm me w))"
    using assms(5) d by (auto simp: parse_msg_def move_types_def fight_types_def parse_fight_def)
  ultimately show ?thesis by blast
qed

text \<open>Player 0 of \<open>bot_server\<close> as a master.\<close>

definition master_server :: world where
  "master_server = upd_client 0 (\<lambda>ci. ci\<lparr>ci_privilege := PRIV_MASTER\<rparr>) bot_server"

definition freed_bot_packet :: "uchar databuf" where
  "freed_bot_packet = (let bs = concat (map int_bytes [99, 130, 97, 20, 1]) in databuf_new bs (int (length bs)))"

theorem packet_uses_freed_bot_witness:
  "(\<exists>w'. parse_msg None no_msgs 0 0 3 (Some 130) N_DELBOT freed_bot_packet master_server = Some (Next freed_bot_packet (Some 130) w')
      \<and> parse_msg None no_msgs 0 0 4 (Some 130) N_GUNSELECT freed_bot_packet w' = Some (Fault ''use after free'' w'))
    \<and> (case parse_loop None no_msgs 0 0 (Some 0) freed_bot_packet master_server of Some (Fault m _) \<Rightarrow> m = ''use after free'' | _ \<Rightarrow> False)"
proof
  have h: "bots_ok master_server" "ci_privilege (client 0 master_server) \<noteq> 0"
    "find (\<lambda>slot. \<not> slot_free master_server slot) (rev (bots master_server)) = Some (Some 130)" by code_simp+
  show "\<exists>w'. parse_msg None no_msgs 0 0 3 (Some 130) N_DELBOT freed_bot_packet master_server = Some (Next freed_bot_packet (Some 130) w')
      \<and> parse_msg None no_msgs 0 0 4 (Some 130) N_GUNSELECT freed_bot_packet w' = Some (Fault ''use after free'' w')"
    by (rule packet_uses_freed_bot [OF no_mode_frame h]) simp
qed code_simp

definition edit_server :: world where
  "edit_server = sample_world\<lparr>gamemode := 1, notgotitems := True, clients := map (\<lambda>ci. ci\<lparr>ci_clientmap := ''reissen''\<rparr>) (clients sample_world)\<rparr>"

theorem itemlist_writes_outside_witness:
  "\<exists>w'. parse_edit None 0 0 0 (Some 0) N_ITEMLIST (databuf_new (int_bytes 3 @ int_bytes 100000) 6) edit_server = Fault ''index out of bounds'' w'"
proof -
  have "db_wf (databuf_new (int_bytes 3 @ int_bytes 100000) 6)" "\<not> db_overread (databuf_new (int_bytes 3 @ int_bytes 100000) 6)"
    "rest (databuf_new (int_bytes 3 @ int_bytes 100000) 6) = int_bytes 3 @ int_bytes 100000 @ []"
    "0 \<le> sint (3 :: i32)" "sint (3 :: i32) < MAXENTS" "sint (100000 :: i32) < 0 \<or> sint (100000 :: i32) \<ge> MAXENTTYPES"
    "notgotitems edit_server" "can_play (client 0 edit_server)" "ci_clientmap (client 0 edit_server) = smapname edit_server" by code_simp+
  from itemlist_writes_outside [OF this] show ?thesis by blast
qed

theorem editent_writes_outside_witness:
  "\<exists>w'. parse_edit None 0 0 0 (Some 0) N_EDITENT (databuf_new (concat (map int_bytes ([- 8] @ [0, 0, 0] @ [9] @ [0, 0, 0, 0, 0]))) 10) edit_server
    = Fault ''index out of bounds'' w'"
proof -
  have "db_wf (databuf_new (concat (map int_bytes ([- 8] @ [0, 0, 0] @ [9] @ [0, 0, 0, 0, 0]))) 10)"
    "rest (databuf_new (concat (map int_bytes ([- 8] @ [0, 0, 0] @ [9] @ [0, 0, 0, 0, 0]))) 10)
      = concat (map int_bytes ([- 8] @ [0, 0, 0] @ [9] @ [0, 0, 0, 0, 0])) @ []"
    "sint (- 8 :: i32) < 0" "canspawnitem (gamemode edit_server) (sint (9 :: i32))"
    "gs_state (cstate 0 edit_server) \<noteq> CS_SPECTATOR" "\<not> editpacket_hook edit_server 0" by code_simp+
  from editent_writes_outside [OF this(1,2) _ _ this(3-6)] show ?thesis by simp
qed

theorem hits_fit_packet_witness:
  "queues_event 4 0 sample_world (snd (msg_shoot (Some 0) (databuf_new [1, 2, 3, 4] 4) sample_world))"
proof -
  have "db_wf (databuf_new [1, 2, 3, 4 :: uchar] 4)" "db_remaining (databuf_new [1, 2, 3, 4 :: uchar] 4) = 4" by code_simp+
  then show ?thesis using hits_fit_packet [of "databuf_new [1, 2, 3, 4] 4" 0 sample_world] by simp
qed

end
