(* ===== verification/Consistency.thy ===== *)
theory Consistency
  imports Packets
begin

text \<open>
  No packet breaks the tables of clients and bots, and every packet is parsed to its end. The handlers fall into two
  kinds: most of them change neither who the clients are nor the mode of the game, which \<open>lineup\<close> shows, and the
  few that hand over, add or delete bots have their lemmas in the theory \<open>Bots\<close>. The locale \<open>packet_mode\<close> adds to the contract
  of a mode what its own messages have to fulfil; the three modes and a game without one are instances of it.
\<close>

subsection \<open>Who the clients are\<close>

definition seated :: "clientinfo \<Rightarrow> seat" where "seated ci = (seat ci)\<lparr>s_valid := True\<rparr>"

definition lineup :: "'a world_scheme \<Rightarrow> int \<times> seat list \<times> seat list \<times> int option list" where
  "lineup w = (gamemode w, map seated (clients w), map seated (connects w), bots w)"

definition any_valid :: "seat \<Rightarrow> seat" where "any_valid s = s\<lparr>s_valid := True\<rparr>"

lemma any_valid_sels [simp]:
  "s_num (any_valid s) = s_num s" "s_slot (any_valid s) = s_slot s" "s_human (any_valid s) = s_human s" "s_spy (any_valid s) = s_spy s"
  "s_owner (any_valid s) = s_owner s" "s_bots (any_valid s) = s_bots s"
  by (simp_all add: any_valid_def)

lemma table_ok_any_valid: "table_ok (map any_valid cs) (map any_valid ns) bs = table_ok cs ns bs"
proof -
  have h: "map s_slot (filter s_human (map any_valid ss)) = map s_slot (filter s_human ss)" for ss
    by (simp add: filter_map comp_def)
  have l: "listing_ok (map any_valid cs) (any_valid s) = listing_ok cs s" for s
    by (simp add: listing_ok_def)
  have o: "seat_ok bs (any_valid s) = seat_ok bs s" for s by (simp add: seat_ok_def)
  have "s_num ` set (map any_valid cs) = s_num ` set cs" by (simp add: image_image)
  then have sl: "slots_ok (map any_valid cs) bs = slots_ok cs bs" by (simp only: slots_ok_def)
  show ?thesis unfolding table_ok_def map_append [symmetric] h sl by (simp add: comp_def l o ball_Un)
qed

lemma lineup_bots_ok:
  fixes w w' :: "'a world_scheme"
  assumes "lineup w' = lineup w"
  shows "bots_ok w' = bots_ok w"
proof -
  have m: "map any_valid (map seat cs) = map seated cs" for cs by (simp add: seated_def [abs_def] any_valid_def [abs_def] comp_def)
  have "bots_ok v = table_ok (map seated (clients v)) (map seated (connects v)) (bots v)" for v :: "'a world_scheme"
    unfolding bots_ok_def by (subst table_ok_any_valid [symmetric]) (simp only: m)
  then show ?thesis using assms by (simp add: lineup_def)
qed

lemma lineup_emit [simp]: "lineup (emit e w) = lineup w"
  by (simp add: lineup_def)

lemma lineup_client: "(\<And>ci. seated (f ci) = seated ci) \<Longrightarrow> lineup (upd_client n f w) = lineup w"
  by (simp add: lineup_def upd_client_def)

lemma seated_cong: "ident ci = ident ci' \<Longrightarrow> aitype (ci_state ci) = aitype (ci_state ci') \<Longrightarrow> seated ci = seated ci'"
  by (simp add: seated_def seat_def ident_def)

lemma lineup_state: "(\<And>s. aitype (f s) = aitype s) \<Longrightarrow> lineup (upd_state n f w) = lineup w"
  unfolding upd_state_def by (rule lineup_client) (rule seated_cong, simp_all add: ident_def)

lemma seated_tokenless [simp]: "seated (tokenless ci) = seated ci"
  by (simp add: seated_def)

lemma lineup_frame: "frame w' = frame w \<Longrightarrow> lineup w' = lineup w"
  using frame_map [of w' w seated, OF _ seated_tokenless] frame_fields(1,3) [of w' w] by (simp add: lineup_def)

lemma lineup_fold: "(\<And>x w. lineup (f x w) = lineup w) \<Longrightarrow> lineup (fold f xs w) = lineup w"
  by (induction xs arbitrary: w) simp_all

lemma lineup_fields [simp]:
  "lineup (w\<lparr>sents := a\<rparr>) = lineup w" "lineup (w\<lparr>sents_type_index := b\<rparr>) = lineup w" "lineup (w\<lparr>notgotitems := c\<rparr>) = lineup w"
  "lineup (w\<lparr>nextexceeded := d\<rparr>) = lineup w" "lineup (w\<lparr>pausegame_owner := e\<rparr>) = lineup w" "lineup (w\<lparr>gamepaused := f\<rparr>) = lineup w"
  "lineup (w\<lparr>gamespeed := g\<rparr>) = lineup w" "lineup (w\<lparr>dorefresh := h\<rparr>) = lineup w" "lineup (w\<lparr>botbalance := i\<rparr>) = lineup w"
  "lineup (w\<lparr>botlimit := j\<rparr>) = lineup w" "lineup (w\<lparr>teaminfos := k\<rparr>) = lineup w" "lineup (w\<lparr>rngst := l\<rparr>) = lineup w" "lineup (w\<lparr>gamelimit := m\<rparr>) = lineup w"
  "lineup (w\<lparr>interm := n\<rparr>) = lineup w"
  by (simp_all add: lineup_def)

text \<open>Every handler of events keeps it, by the invariant of fighting.\<close>

sublocale mode_frame \<subseteq> fights: mode_invariant sm "\<lambda>w. lineup w = x" for x
proof unfold_locales
  fix t b and w :: "'a world_scheme"
  assume x: "lineup w = x"
  have "map seated (clients (smode_died sm t b w)) = map seated (clients w)" by (rule died_map) simp
  moreover have "map seated (connects (smode_died sm t b w)) = map seated (connects w)"
    using died_connects [of t b w] by (metis (no_types, lifting) map_map comp_apply seated_tokenless map_cong)
  moreover have "gamemode (smode_died sm t b w) = gamemode w" "bots (smode_died sm t b w) = bots w" using died_arena [of t b w] by (simp_all add: arena_def)
  ultimately show "lineup (smode_died sm t b w) = x" using x by (simp add: lineup_def)
next
  fix f :: "gamestate \<Rightarrow> gamestate" and n and w :: "'a world_scheme"
  assume "\<And>s. (gs_tokens (f s) = gs_tokens s \<or> gs_tokens (f s) = 0) \<and> aitype (f s) = aitype s" and "lineup w = x"
  then show "lineup (upd_state n f w) = x" by (simp add: lineup_state)
next
  fix h :: "clientinfo \<Rightarrow> clientinfo" and n and w :: "'a world_scheme"
  assume h: "\<And>ci. ci_state (h ci) = ci_state ci \<and> ident (h ci) = ident ci" and x: "lineup w = x"
  have "seated (h ci) = seated ci" for ci using h [of ci] by (intro seated_cong) simp_all
  then show "lineup (upd_client n h w) = x" using x by (simp add: lineup_client)
qed simp_all

subsection \<open>Handlers that keep the lineup\<close>

text \<open>Fields of a client that no seat shows.\<close>

lemma seated_upd [simp]:
  "seated (ci\<lparr>ci_messages := a\<rparr>) = seated ci" "seated (ci\<lparr>ci_position := b\<rparr>) = seated ci" "seated (ci\<lparr>ci_events := c\<rparr>) = seated ci"
  "seated (ci\<lparr>ci_exceeded := d\<rparr>) = seated ci" "seated (ci\<lparr>ci_mapcrc := e\<rparr>) = seated ci" "seated (ci\<lparr>ci_clientmap := f\<rparr>) = seated ci"
  "seated (ci\<lparr>ci_lastposupdate := g\<rparr>) = seated ci" "seated (ci\<lparr>ci_gameclip := h\<rparr>) = seated ci" "seated (ci\<lparr>ci_maploaded := i\<rparr>) = seated ci"
  "seated (ci\<lparr>ci_lag := j\<rparr>) = seated ci" "seated (ci\<lparr>ci_last_lag := k\<rparr>) = seated ci" "seated (ci\<lparr>ci_overflow := l\<rparr>) = seated ci"
  "seated (ci\<lparr>ci_playermodel := m\<rparr>) = seated ci" "seated (ci\<lparr>ci_ping := n\<rparr>) = seated ci" "seated (ci\<lparr>ci_specmillis := o'\<rparr>) = seated ci"
  "seated (ci\<lparr>ci_spec_millis := p\<rparr>) = seated ci" "seated (ci\<lparr>ci_allow_self_unspec := q\<rparr>) = seated ci" "seated (ci\<lparr>ci_clientmillis := r\<rparr>) = seated ci"
  "seated (ci\<lparr>ci_lastpingupdate := s\<rparr>) = seated ci" "seated (setpushed t u ci) = seated ci" "seated (addevent v ci) = seated ci"
  "seated (snd (geteventmillis x y ci)) = seated ci" "seated (cleartimedevents ci) = seated ci"
  by (rule seated_cong; simp add: ident_def setpushed_def addevent_def geteventmillis_def cleartimedevents_def Let_def)+

lemma lineup_ops [simp]:
  "lineup (queue cm bs w) = lineup w" "lineup (flushclientposition n w) = lineup w" "lineup (sendprivtext n m w) = lineup w"
  "lineup (push_client n w) = lineup w" "lineup (set_exceeded n w) = lineup w" "lineup (modmap n m c w) = lineup w"
  by (simp_all add: queue_def flushclientposition_def sendprivtext_def push_client_def set_exceeded_def modmap_def lineup_client Let_def split_beta)

lemma lineup_small [simp]:
  "lineup (msg_teleport me cp a b c w) = lineup w" "lineup (msg_jumppad me cp a b w) = lineup w" "lineup (msg_mapcrc me txt crc w) = lineup w"
  "lineup (msg_gunselect g q raw w) = lineup w" "lineup (snd (event_millis cq m w)) = lineup w" "lineup (msg_switchmodel me n raw w) = lineup w"
  "lineup (msg_ping sender me n w) = lineup w" "lineup (msg_pausegame me n w) = lineup w" "lineup (msg_gamespeed me n w) = lineup w"
  "lineup (snd (checktype t me w)) = lineup w" "lineup (snd (limit_spec me w)) = lineup w"
  by (simp_all add: msg_teleport_def msg_jumppad_def msg_mapcrc_def msg_gunselect_def event_millis_def msg_switchmodel_def msg_ping_def
    msg_pausegame_def pausegame_def msg_gamespeed_def changegamespeed_def checktype_def count_message_def limit_spec_def
    lineup_client lineup_state Let_def split: option.split)

lemma lineup_msgs [simp]:
  "lineup (msg_clientping me n raw w) = lineup w" "lineup (msg_checkmaps w) = lineup w" "lineup (set_item n t w) = lineup w" "lineup (enter_item n t w) = lineup w"
  "lineup (snd (msg_editent me i t raw w)) = lineup w" "lineup (setbotlimit c n w) = lineup w" "lineup (setbotbalance c b w) = lineup w"
  "lineup (snd (msg_shoot cq p w)) = lineup w" "lineup (snd (msg_explode cq p w)) = lineup w"
  by (simp_all add: msg_clientping_def msg_checkmaps_def set_item_def enter_item_def msg_editent_def setbotlimit_def setbotbalance_def msg_shoot_def
    msg_explode_def on_cq_def lineup_client lineup_fold Let_def split_beta split: option.split)

lemma lineup_enter_items [simp]: "lineup (snd (snd (enter_items p w))) = lineup w"
proof (induction p w rule: enter_items.induct)
  case (1 p w)
  obtain n q where q: "geti p = (n, q)" by force
  obtain t r where r: "geti q = (t, r)" by force
  show ?case using "1.IH" [OF refl q [symmetric] _ refl r [symmetric]] q r by (subst enter_items.simps) simp
qed

lemma lineup_team_ranks [simp]: "lineup (calc_team_ranks t w) = lineup w"
proof -
  have r: "seated (ci\<lparr>ci_rank := n\<rparr>) = seated ci" for ci n by (rule seated_cong) (simp_all add: ident_def)
  show ?thesis by (simp add: lineup_def calc_team_ranks_def assign_ranks_only_rank [of seated, OF r])
qed

lemma lineup_player_ranks [simp]: "lineup (calc_player_ranks w) = lineup w"
  by (simp add: calc_player_ranks_def lineup_fold)

lemma lineup_startintermission [simp]: "lineup (startintermission w) = lineup w"
  by (simp add: startintermission_def enter_intermission_def Let_def)

lemma unseen_lineup: "unseen w' w \<Longrightarrow> gamemode w' = gamemode w \<Longrightarrow> lineup w' = lineup w"
proof -
  assume u: "unseen w' w" and g: "gamemode w' = gamemode w"
  have m: "map seated cs = map any_valid (map seat cs)" for cs by (simp add: seated_def any_valid_def)
  show ?thesis using u g unfolding lineup_def m by (simp add: unseen_def)
qed

lemma lineup_lookup:
  assumes "lineup w' = lineup w"
  shows "seated (client x w') = seated (client x w)"
proof -
  have num: "ci_clientnum ci = s_num (seated ci)" for ci by (simp add: seated_def)
  have "map seated xs = map seated ys \<Longrightarrow> seated (case find (\<lambda>ci. ci_clientnum ci = x) xs of Some ci \<Rightarrow> ci | None \<Rightarrow> d)
      = seated (case find (\<lambda>ci. ci_clientnum ci = x) ys of Some ci \<Rightarrow> ci | None \<Rightarrow> d)" for xs ys d
    by (induction xs ys rule: list_induct2') (auto simp: num)
  moreover have "map seated (roster w') = map seated (roster w)" using assms by (simp add: lineup_def roster_def)
  ultimately show ?thesis unfolding client_find by blast
qed

context mode_frame
begin

lemma lineup_calls [simp]:
  "lineup (smode_leavegame sm n d w) = lineup w" "lineup (smode_entergame sm n w) = lineup w" "lineup (smode_moved sm n a b c e w) = lineup w"
  "lineup (smode_spawned sm n w) = lineup w"
  by (rule lineup_frame, rule frame_leave frame_enter frame_moved frame_spawned)+

lemma lineup_pos [simp]: "lineup (msg_pos sm me cp raw m w) = lineup w"
  by (simp add: msg_pos_def lineup_client lineup_state Let_def)

lemma lineup_editmode [simp]: "lineup (msg_editmode sm me val raw w) = lineup w"
  by (simp add: msg_editmode_def lineup_client lineup_state Let_def)

lemma lineup_flushevents [simp]: "lineup (flushevents sm cn m w) = lineup w"
  using fights.inv_flush_loop [of w "lineup w"] by (simp add: flushevents_def lineup_client)

end

subsection \<open>Handlers that keep the tables\<close>

definition kept :: "'a world_scheme \<Rightarrow> 'a world_scheme \<Rightarrow> bool" where
  "kept w w' \<longleftrightarrow> gamemode w' = gamemode w \<and> (bots_ok w \<longrightarrow> bots_ok w')"

lemma kept_trans [trans]: "kept w v \<Longrightarrow> kept v u \<Longrightarrow> kept w u"
  by (auto simp: kept_def)

lemma kept_lineup: "lineup w' = lineup w \<Longrightarrow> kept w w'"
  using lineup_bots_ok [of w' w] by (simp add: kept_def lineup_def)

lemma kept_lineup_trans: "kept w v \<Longrightarrow> lineup u = lineup v \<Longrightarrow> kept w u"
  using kept_lineup kept_trans by blast

lemma kept_sendspawn:
  assumes "sendspawn q w = Some w'"
  shows "kept w w'"
proof -
  have "gamemode w' = gamemode w" using assms by (auto simp: sendspawn_def spawnstate_ci_def Let_def upd_state_def split: if_splits option.splits)
  then show ?thesis using sendspawn_unseen [OF _ assms] unseen_ok by (auto simp: kept_def)
qed

lemma kept_reqadd:
  fixes w :: "'a world_scheme"
  shows "kept w (reqadd n sk w)"
proof -
  have "gamemode (snd (create_ai sk i v)) = gamemode v" for i and v :: "'a world_scheme"
    by (simp add: create_ai_def Let_def split_beta draw_skill_def add_bot_def split: option.split)
  then have "gamemode (snd (addai sk l w)) = gamemode w" for l
    by (auto simp: addai_def Let_def split: option.split)
  then have "kept w (snd (addai sk l w))" for l unfolding kept_def using addai_ok by blast
  then have e: "kept w (emit e (snd (addai sk l w)))" for e l by (rule kept_lineup_trans) simp
  define l where "l = (if \<not> ci_local (client n w) \<and> ci_privilege (client n w) < PRIV_ADMIN then botlimit w else - 1)"
  show ?thesis using kept_lineup [of w w] e [where l = l]
    by (cases "addai sk l w") (simp add: reqadd_def Let_def split: option.split flip: l_def)
qed

context mode_frame
begin

lemma kept_try_respawn:
  assumes "try_respawn sm n q w = Some w'"
  shows "kept w w'"
proof -
  define v where "v = (if ci_clientmap (client n w) = [] \<and> ci_mapcrc (client n w) = 0 then upd_client n (\<lambda>ci. ci\<lparr>ci_mapcrc := - 1\<rparr>) w else w)"
  have v: "lineup v = lineup w" by (simp add: v_def lineup_client)
  define u where "u = (if gs_deadflush (cstate q w) \<noteq> 0
    then upd_state q gs_respawn (flushevents sm q (gs_deadflush (cstate q w)) v) else v)"
  have u: "lineup (upd_client q cleartimedevents u) = lineup w"
    using v by (simp add: u_def lineup_client lineup_state gs_respawn_def)
  from assms have "w' = w \<or> w' = v \<or> sendspawn q (upd_client q cleartimedevents u) = Some w'"
    unfolding try_respawn_def Let_def v_def [symmetric] u_def [symmetric] by (auto split: if_splits)
  then show ?thesis using kept_lineup [OF v] kept_lineup [OF u] kept_lineup [of w w] kept_trans kept_sendspawn by blast
qed

lemma gamemode_removeai [simp]: "gamemode (removeai sm cn w) = gamemode w"
proof -
  have "gamemode (shiftai sm b owner v) = gamemode v" for b owner v
    by (simp add: shiftai_def Let_def add_bot_def split: option.split)
  then have "gamemode (remove_loop sm cn i v) = gamemode v" for i v by (induction i arbitrary: v) simp_all
  then show ?thesis by (simp add: removeai_def)
qed

lemma kept_removeai:
  assumes "cn \<in> ci_clientnum ` set (roster w)"
  shows "kept w (removeai sm cn w)"
  using remove_loop_spec [OF _ assms refl, of "{}"] by (simp add: kept_def removeai_def [of sm cn w, symmetric])

lemma removeai_absent:
  assumes "cn \<notin> ci_clientnum ` set (roster w)"
  shows "removeai sm cn w = w"
proof -
  have "find (\<lambda>ci. ci_clientnum ci = cn) (roster w) = None" using assms by (auto simp: find_None_iff)
  then have "client cn w = ci_new" by (simp add: client_find)
  moreover have "ci_bots ci_new = []" by (simp add: ci_new_def ci_reset_def ci_mapchange_def)
  ultimately show ?thesis by (simp add: removeai_def)
qed

lemma kept_removeai': "kept w (removeai sm cn w)"
  using kept_removeai [of cn w] removeai_absent [of cn w] kept_lineup [of w w] by (cases "cn \<in> ci_clientnum ` set (roster w)") auto

lemma lineup_announce [simp]: "lineup (announce_spectator cn v br w) = lineup w"
  by (simp add: announce_spectator_def Let_def)

lemma lineup_stop [simp]: "lineup (stop_spectating cn w) = lineup w"
  by (simp add: stop_spectating_def ai_addclient_def lineup_state gs_respawn_def)

lemma kept_start: "kept w (start_spectating sm cn w)"
proof -
  define v where "v = upd_client cn (\<lambda>ci. ci\<lparr>ci_specmillis := totalmillis (smode_leavegame sm cn False w)\<rparr>)
    (upd_state cn (\<lambda>s. s\<lparr>gs_state := CS_SPECTATOR, gs_timeplayed := gs_timeplayed s + (lastmillis (smode_leavegame sm cn False w) - gs_lasttimeplayed s)\<rparr>)
      (smode_leavegame sm cn False w))"
  have "lineup v = lineup w" by (simp add: v_def lineup_client lineup_state)
  then have "kept w v" by (rule kept_lineup)
  with kept_trans [OF this kept_removeai'] show ?thesis by (simp add: start_spectating_def Let_def flip: v_def)
qed

lemma kept_setspectator: "kept w (setspectator sm cn val br w)"
  using kept_start [of w cn] kept_lineup [of w w]
  by (auto simp: setspectator_def Let_def intro: kept_lineup_trans kept_lineup)

lemma kept_msg_spectator: "kept w (msg_spectator sm sender me n val w)"
proof -
  define r where "r = (if ci_privilege (client me w) \<noteq> 0 then (False, w)
    else if n \<noteq> sender \<or> (gs_state (cstate me w) = CS_SPECTATOR \<and> mastermode w \<ge> MM_LOCKED)
           \<or> (gs_state (cstate me w) = CS_SPECTATOR \<and> val = 0 \<and> \<not> ci_allow_self_unspec (client me w)) then (True, w)
    else limit_spec me w)"
  have r: "lineup (snd r) = lineup w" by (simp add: r_def)
  have s: "kept w (setspectator sm s v True (upd_client s (\<lambda>ci. ci\<lparr>ci_allow_self_unspec := x\<rparr>) (snd r)))" for s v x
    using r by (intro kept_trans [OF kept_lineup kept_setspectator]) (simp add: lineup_client)
  show ?thesis using s kept_lineup [OF r] r unfolding msg_spectator_def Let_def r_def [symmetric] split_beta
    by (auto split: option.split intro!: kept_lineup)
qed

lemma kept_reqdel: "kept w (reqdel sm n w)"
proof -
  have "kept w (snd (deleteai_last sm w))"
  proof (cases "find (\<lambda>slot. \<not> slot_free w slot) (rev (bots w))")
    case None
    then show ?thesis by (simp add: deleteai_last_def kept_lineup)
  next
    case (Some slot)
    then have "slot \<in> set (bots w)" "\<not> slot_free w slot" by (auto simp: find_Some_iff) (metis nth_mem set_rev length_rev)
    moreover from this(2) obtain b where "slot = Some b" by (auto simp: slot_free_def split: option.splits)
    ultimately have b: "slot = Some b" "Some b \<in> set (bots w)" by simp_all
    then show ?thesis using deleteai_ok(1) [OF _ b(2)] Some by (simp add: deleteai_last_def kept_def)
  qed
  then have "kept w (emit e (snd (deleteai_last sm w)))" for e by (rule kept_lineup_trans) simp
  then show ?thesis using kept_lineup [of w w] by (cases "deleteai_last sm w") (simp add: reqdel_def Let_def split: bool.split)
qed

text \<open>A spy that spawns is a player for a moment, and a spy again.\<close>

definition respy :: "int \<Rightarrow> bool \<Rightarrow> seat list \<Rightarrow> seat list" where
  "respy n v = map (\<lambda>s. if s_num s = n then s\<lparr>s_spy := v\<rparr> else s)"

lemma lineup_respy:
  "lineup (upd_client n (\<lambda>ci. ci\<lparr>ci_spy := v\<rparr>) w)
    = (gamemode w, respy n v (map seated (clients w)), respy n v (map seated (connects w)), bots w)"
  by (auto simp: lineup_def upd_client_def respy_def seated_def seat_def)

lemma respy_back: "(\<And>s. s \<in> set ss \<Longrightarrow> s_num s = n \<Longrightarrow> s_spy s) \<Longrightarrow> respy n True (respy n False ss) = ss"
  by (auto simp: respy_def intro!: map_idI)

lemma start_spectating_alone:
  assumes "ci_bots (client cn w) = []"
  shows "lineup (start_spectating sm cn w) = lineup w"
proof -
  define v where "v = upd_client cn (\<lambda>ci. ci\<lparr>ci_specmillis := totalmillis (smode_leavegame sm cn False w)\<rparr>)
    (upd_state cn (\<lambda>s. s\<lparr>gs_state := CS_SPECTATOR, gs_timeplayed := gs_timeplayed s + (lastmillis (smode_leavegame sm cn False w) - gs_lasttimeplayed s)\<rparr>)
      (smode_leavegame sm cn False w))"
  have l: "lineup v = lineup w" by (simp add: v_def lineup_client lineup_state)
  have "s_bots (seated (client cn v)) = s_bots (seated (client cn w))" by (simp only: lineup_lookup [OF l])
  then have "removeai sm cn v = v" using assms by (simp add: removeai_def seated_def)
  then show ?thesis using l by (simp add: start_spectating_def Let_def flip: v_def)
qed

lemma kept_spawn_spy:
  assumes "ci_spy (client me w)"
  shows "kept w (spawn_spy sm me w)"
proof -
  define u where "u = upd_client me (\<lambda>ci. ci\<lparr>ci_spy := False\<rparr>) w"
  define v where "v = upd_state me (\<lambda>s. s\<lparr>gs_state := CS_DEAD\<rparr>) u"
  have lv: "lineup v = lineup u" by (simp add: v_def lineup_state)
  have "lineup (spawn_spy sm me w) = lineup w" if ok: "bots_ok w"
  proof -
    have in_r: "me \<in> ci_clientnum ` set (roster w)"
    proof (rule ccontr)
      assume "me \<notin> ci_clientnum ` set (roster w)"
      then have "find (\<lambda>ci. ci_clientnum ci = me) (roster w) = None" by (auto simp: find_None_iff)
      then show False using assms by (simp add: client_find ci_new_def ci_reset_def ci_mapchange_def)
    qed
    have spy: "s_spy s" if "s \<in> set (map seated (roster w))" "s_num s = me" for s
    proof -
      from that(1) obtain ci where ci: "ci \<in> set (roster w)" "seated ci = s" by (rule in_map_set)
      have "s_num (seated ci) = ci_clientnum ci" by (simp add: seated_def)
      then have "client me w = ci" using bots_ok_client [OF ok ci(1)] ci(2) that(2) by simp
      then show ?thesis using assms ci(2) by (auto simp: seated_def)
    qed
    have "seat (client me w) \<in> set (rows w @ lobby w)" using client_in_roster [OF in_r] unfolding seats_roster [symmetric] by simp
    from table_okD(4) [OF ok [unfolded bots_ok_def] this] assms have "ci_bots (client me w) = []" by (auto simp: seat_ok_def split: if_splits)
    moreover have "ci_bots (client me u) = ci_bots (client me w)" unfolding u_def by (rule client_upd_keep) simp_all
    moreover have "s_bots (seated (client me v)) = s_bots (seated (client me u))" by (simp only: lineup_lookup [OF lv])
    ultimately have "ci_bots (client me v) = []" by (simp add: seated_def)
    then have "lineup (setspectator sm me True False v) = lineup u"
      using start_spectating_alone lv by (simp add: setspectator_def Let_def)
    then have x: "gamemode (setspectator sm me True False v) = gamemode w" "map seated (clients (setspectator sm me True False v)) = respy me False (map seated (clients w))"
      "map seated (connects (setspectator sm me True False v)) = respy me False (map seated (connects w))" "bots (setspectator sm me True False v) = bots w"
      by (simp_all add: u_def lineup_respy) (simp_all add: lineup_def)
    have "respy me True (respy me False (map seated cs)) = map seated cs" if "set cs \<subseteq> set (roster w)" for cs
      by (rule respy_back) (use spy that in auto)
    then show ?thesis unfolding spawn_spy_def Let_def u_def [symmetric] v_def [symmetric]
      by (simp add: lineup_respy x roster_def) (simp add: lineup_def)
  qed
  moreover have "gamemode (spawn_spy sm me w) = gamemode w"
    using kept_setspectator [of v me True False] lv unfolding spawn_spy_def Let_def u_def [symmetric] v_def [symmetric]
    by (simp add: kept_def sendprivtext_def lineup_def u_def)
  ultimately show ?thesis using lineup_bots_ok by (auto simp: kept_def)
qed

lemma kept_msg_spawn: "kept w (msg_spawn sm me ls g q w)"
proof -
  define v where "v = (if ci_mapcrc (client q w) = 0 \<and> aitype (cstate q w) = AI_NONE
    then upd_client q (\<lambda>ci. ci\<lparr>ci_mapcrc := 1\<rparr>) (modmap q (ci_clientmap (client me w)) 0 w) else w)"
  have v: "lineup v = lineup w" by (simp add: v_def lineup_client)
  have "kept w (spawn_spy sm me v)" if "ci_spy (client me v)" using kept_trans [OF kept_lineup [OF v] kept_spawn_spy [OF that]] .
  then show ?thesis using v
    by (auto simp: msg_spawn_def Let_def lineup_client lineup_state simp flip: v_def intro!: kept_lineup)
qed

end

subsection \<open>One message\<close>

fun outcome_world :: "'w outcome \<Rightarrow> 'w" where
  "outcome_world (Next p cq w) = w"
| "outcome_world (Stop w) = w"
| "outcome_world (Kick n r w) = w"
| "outcome_world (Fault m w) = w"
| "outcome_world (Other t k p cq w) = w"

fun goes_on :: "uchar databuf \<Rightarrow> 'w outcome \<Rightarrow> bool" where
  "goes_on p (Next q cq w) = forward p q"
| "goes_on p (Other t k q cq w) = forward p q"
| "goes_on p _ = True"

lemma goes_on_trans: "forward p q \<Longrightarrow> goes_on q r \<Longrightarrow> goes_on p r"
  by (cases r) (auto intro: forward_trans)

definition step_ok :: "uchar databuf \<Rightarrow> 'a world_scheme \<Rightarrow> 'a world_scheme outcome \<Rightarrow> bool" where
  "step_ok p w r \<longleftrightarrow> kept w (outcome_world r) \<and> goes_on p r"

lemma step_lineup: "lineup (outcome_world r) = lineup w \<Longrightarrow> goes_on p r \<Longrightarrow> step_ok p w r"
  by (simp add: step_ok_def kept_lineup)

lemma step_next: "kept w w' \<Longrightarrow> forward p q \<Longrightarrow> step_ok p w (Next q cq w')"
  by (simp add: step_ok_def)

lemma if_step: "(c \<Longrightarrow> step_ok p w a) \<Longrightarrow> (\<not> c \<Longrightarrow> step_ok p w b) \<Longrightarrow> step_ok p w (if c then a else b)"
  by simp

lemma step_kick [simp]: "step_ok p w (kick_out sender reason w)"
  by (rule step_lineup) (simp_all add: kick_out_def)

lemma step_relay: "forward p q \<Longrightarrow> step_ok p w (relay me cq t raw q w)"
  by (rule step_lineup) (auto simp: relay_def split: option.split)

lemma step_generic: "step_ok p w (parse_generic sender me curmsg cq t p w)"
  by (simp add: parse_generic_def Let_def step_relay)

lemma step_itemlist: "step_ok p w (msg_itemlist me cq p w)"
  using lineup_enter_items [of p w] forward_enter [of p w]
  by (cases "enter_items p w") (auto simp: msg_itemlist_def Let_def intro!: step_lineup)

lemma step_undo:
  assumes "dlen p \<le> dmaxlen p"
  shows "step_ok p w (msg_undo sender me cq t p w)"
proof -
  let ?q = "snd (geti (snd (geti p)))"
  have f: "forward p ?q" by (intro fwd forward_refl)
  then have l: "dlen ?q \<le> dmaxlen ?q" using assms by (simp add: forward_def)
  show ?thesis using f forward_trans [OF f forward_subbuf [OF l]] forward_trans [OF f forward_get_n [OF _ l]]
    by (auto simp: msg_undo_def split_beta Let_def intro!: step_lineup)
qed

lemma step_edittail:
  assumes "dlen p \<le> dmaxlen p"
  shows "step_ok p w (msg_edittail sender me curmsg cq t p w)"
proof -
  let ?q = "snd (getb (snd (getb (snd (getis (nat (msgsizelookup t - 1)) p)))))"
  have f: "forward p ?q" by (intro fwd forward_refl)
  then have l: "dlen ?q \<le> dmaxlen ?q" using assms by (simp add: forward_def)
  have nn: "0 \<le> fst (getb r)" for r by (simp add: getb_def split_beta)
  have "forward p (snd (db_pad (fst (getb a) + 256 * fst (getb b)) ?q))" for a b
    by (rule forward_trans [OF f forward_pad [OF _ l]]) (use nn [of a] nn [of b] in simp)
  then show ?thesis by (auto simp: msg_edittail_def split_beta Let_def intro!: step_lineup)
qed

context mode_frame
begin

lemma step_moves: "step_ok p w (parse_moves sm sender me curmsg cq t p w)"
  by (rule step_lineup) (auto simp: parse_moves_def split_beta Let_def forward_getpos split: option.split intro!: fwd)

lemma step_fight:
  assumes "parse_fight sm me curmsg cq t p w = Some r"
  shows "step_ok p w r"
proof (cases "t = N_TRYSPAWN")
  case True
  then show ?thesis using assms kept_try_respawn by (auto simp: parse_fight_def step_next step_lineup split: option.splits if_splits)
next
  case False
  have sp: "kept w (on_cq cq (msg_spawn sm me ls g) w)" for ls g
    using kept_msg_spawn by (simp add: on_cq_def kept_lineup split: option.split)
  have fs: "forward p (fst (msg_shoot cq p w))" "forward p (fst (msg_explode cq p w))"
    unfolding msg_shoot_def msg_explode_def split_beta Let_def fst_conv by (intro forward_trans [OF _ forward_hits] fwd forward_refl)+
  show ?thesis
  proof (cases "t = N_SPAWN")
    case True
    let ?q = "snd (geti (snd (geti p)))"
    have f: "forward p ?q" by (intro fwd forward_refl)
    from assms True consider "r = Next ?q cq w" | "r = Fault ''use after free'' w" | ls g where "r = Next ?q cq (on_cq cq (msg_spawn sm me ls g) w)"
      by (auto simp: parse_fight_def split_beta Let_def split: if_splits)
    then show ?thesis using f sp by cases (simp_all add: step_next step_lineup)
  next
    case other: False
    then show ?thesis using assms False fs
      by (auto simp: parse_fight_def split_beta Let_def on_cq_def lineup_client split: if_splits option.splits intro!: step_lineup fwd)
  qed
qed

lemma step_edit:
  assumes "dlen p \<le> dmaxlen p"
  shows "step_ok p w (parse_edit sm sender me curmsg cq t p w)"
proof -
  have ent: "step_ok p w (case msg_editent me i ty raw w of (ok, w) \<Rightarrow> if ok then Next q cq w else Fault m w)" if "forward p q" for i ty raw q m
    using that lineup_msgs(5) [of me i ty raw w] by (cases "msg_editent me i ty raw w") (auto intro!: step_lineup)
  show ?thesis unfolding parse_edit_def split_beta Let_def
    by (intro if_step step_itemlist step_undo [OF assms] step_edittail [OF assms] step_kick step_relay fwd forward_refl
        ent [unfolded split_beta] step_lineup) (simp_all add: fwd)
qed

lemma step_request:
  "kept w (snd (parse_request sm sender me curmsg t p w)) \<and> forward p (fst (parse_request sm sender me curmsg t p w))"
  using kept_msg_spectator kept_reqadd kept_reqdel
  by (auto simp: parse_request_def split_beta Let_def kept_lineup intro!: fwd)

end

subsection \<open>Whole packets\<close>

text \<open>What the messages of a mode have to fulfil.\<close>

locale packet_mode = mode_frame sm for sm :: "'a smode" +
  fixes om :: "'a world_scheme modemsgs"
  assumes om_forward: "dlen p \<le> dmaxlen p \<Longrightarrow> forward p (fst (snd om t ci cq p w))"
    and om_lineup: "lineup (snd (snd om t ci cq p w)) = lineup w"
begin

lemma step_msg:
  assumes "parse_msg sm om sender me curmsg cq t p w = Some r" and "dlen p \<le> dmaxlen p"
  shows "step_ok p w r"
proof -
  have mode: "step_ok p w (parse_mode om me cq t p w)"
    using om_forward [OF assms(2)] om_lineup by (auto simp: parse_mode_def split_beta Let_def intro!: step_lineup)
  have req: "step_ok p w (Next (fst (parse_request sm sender me curmsg t p w)) cq (snd (parse_request sm sender me curmsg t p w)))"
    using step_request by (blast intro: step_next)
  show ?thesis using assms mode req step_moves step_fight [of me curmsg cq t p w r] step_edit [OF assms(2)] step_generic
    by (auto simp: parse_msg_def split_beta Let_def step_lineup split: if_splits)
qed

lemma try_respawn_some:
  assumes "\<not> m_tactics (gamemode w)"
  shows "\<exists>w'. try_respawn sm n q w = Some w'"
proof -
  define v where "v = (if ci_clientmap (client n w) = [] \<and> ci_mapcrc (client n w) = 0 then upd_client n (\<lambda>ci. ci\<lparr>ci_mapcrc := - 1\<rparr>) w else w)"
  define u where "u = upd_client q cleartimedevents (if gs_deadflush (cstate q w) \<noteq> 0
    then upd_state q gs_respawn (flushevents sm q (gs_deadflush (cstate q w)) v) else v)"
  have "lineup u = lineup w" by (simp add: u_def v_def lineup_client lineup_state gs_respawn_def)
  then have "\<not> m_tactics (gamemode u)" using assms by (simp add: lineup_def)
  from sendspawn_some [OF this, of q] show ?thesis
    unfolding try_respawn_def Let_def v_def [symmetric] u_def [symmetric] by auto
qed

lemma parse_msg_some:
  assumes "\<not> m_tactics (gamemode w)"
  shows "\<exists>r. parse_msg sm om sender me curmsg cq t p w = Some r"
proof -
  have "\<exists>r. parse_fight sm me curmsg cq t p w = Some r"
    using try_respawn_some [OF assms, of me] by (auto simp: parse_fight_def split_beta Let_def split: option.split)
  then show ?thesis by (simp add: parse_msg_def split_beta Let_def)
qed

lemma geti_progress: "dlen p < dmaxlen p \<Longrightarrow> dlen p < dlen (snd (geti p))"
proof -
  assume a: "dlen p < dmaxlen p"
  obtain k where k: "snd (getint p) = ((\<lambda>p. snd (db_get p)) ^^ k) (snd (db_get p))" using getint_gets1 by blast
  have "dlen (snd (db_get p)) = dlen p + 1" using a by (simp add: db_get_def)
  then show ?thesis using k forward_gets [of "snd (db_get p)" k] by (simp add: geti_def split_beta forward_def)
qed

text \<open>The loop over the messages ends. Only the draw of two different guns for a tactics game can keep it from a result.\<close>

lemma parse_loop_goes:
  assumes "dlen p \<le> dmaxlen p"
  shows "parse_loop sm om sender me cq p w = None \<and> m_tactics (gamemode w)
    \<or> (\<exists>r. parse_loop sm om sender me cq p w = Some r \<and> kept w (outcome_world r) \<and> goes_on p r \<and> (\<forall>q c v. r \<noteq> Next q c v))"
  using assms
proof (induction "nat (dmaxlen p - dlen p)" arbitrary: p cq w rule: less_induct)
  case less
  show ?case
  proof (cases "dlen p \<ge> dmaxlen p")
    case True
    then show ?thesis by (simp add: parse_loop.simps kept_lineup)
  next
    case False
    obtain t q where g: "geti p = (t, q)" by force
    obtain t' v where c: "checktype t me w = (t', v)" by force
    have pq: "forward p q" "dlen p < dlen q" using forward_geti' [of p] geti_progress [of p] False g by simp_all
    have qm: "dlen q \<le> dmaxlen q" "dmaxlen q = dmaxlen p" using pq(1) less.prems by (simp_all add: forward_def)
    have lv: "lineup v = lineup w" using lineup_small(10) [of t me w] c by simp
    then have kv: "kept w v" by (rule kept_lineup)
    show ?thesis
    proof (cases "parse_msg sm om sender me (dlen p) cq t' q v")
      case None
      then have "m_tactics (gamemode v)" using parse_msg_some [of v sender me "dlen p" cq t' q] by auto
      then show ?thesis using None False g c kv by (subst parse_loop.simps) (simp add: kept_def)
    next
      case (Some r)
      have st: "kept v (outcome_world r)" "goes_on q r" using step_msg [OF Some qm(1)] by (simp_all add: step_ok_def)
      have loop: "parse_loop sm om sender me cq p w = (case r of Next q cq w \<Rightarrow> parse_loop sm om sender me cq q w | _ \<Rightarrow> Some r)"
        using False g c Some by (subst parse_loop.simps) simp
      show ?thesis
      proof (cases r)
        case (Next q' cq' w')
        have f: "forward q q'" using st(2) Next by simp
        have k: "kept w w'" using kept_trans [OF kv st(1)] Next by simp
        have "parse_loop sm om sender me cq' q' w' = None \<and> m_tactics (gamemode w')
          \<or> (\<exists>r. parse_loop sm om sender me cq' q' w' = Some r \<and> kept w' (outcome_world r) \<and> goes_on q' r \<and> (\<forall>q c v. r \<noteq> Next q c v))"
          by (rule less.hyps) (use f pq qm less.prems False in \<open>auto simp: forward_def\<close>)
        then show ?thesis using loop Next k kept_trans [OF k] goes_on_trans [OF forward_trans [OF pq(1) f]] by (auto simp: kept_def)
      qed (use loop kept_trans [OF kv st(1)] goes_on_trans [OF pq(1) st(2)] in auto)
    qed
  qed
qed

lemma parse_loop_spec:
  assumes "dlen p \<le> dmaxlen p"
  shows "parse_loop sm om sender me cq p w = None \<and> m_tactics (gamemode w)
    \<or> (\<exists>r. parse_loop sm om sender me cq p w = Some r \<and> kept w (outcome_world r) \<and> (\<forall>q c v. r \<noteq> Next q c v))"
  using parse_loop_goes [OF assms] by blast

end

end
