(* ===== verification/Session.thy ===== *)
theory Session
  imports Worldstate Consistency
begin

unbundle bit_operations_syntax

text \<open>
  The life of a game on the server, from \<^verbatim>\<open>src/src/fpsgame/server.cpp\<close>: clients connect and leave, maps change, votes
  and intermissions end games, and a tick of the server moves the time on. The game mode \<^verbatim>\<open>smode\<close> depends on the number of the mode:
  \<open>modes\<close> gives it. A client that the engine has but that is not in \<^verbatim>\<open>clients\<close> is in \<open>connects\<close>: one that has not
  sent its name, and one that is leaving until the engine deletes it. Demos are not played back, no client becomes a spy here, and the anti-cheat is off.
  A step that draws guns may have no result, as in the theory \<open>Spawn\<close>.
\<close>

subsection \<open>Calls of the mode\<close>

type_synonym 'a modetable = "int \<Rightarrow> 'a smode"

definition smode_cleanup :: "'a smode \<Rightarrow> 'a world_scheme \<Rightarrow> 'a world_scheme" where
  "smode_cleanup sm w = (case sm of Some m \<Rightarrow> sm_cleanup m w | None \<Rightarrow> w)"

definition smode_setup :: "'a smode \<Rightarrow> 'a world_scheme \<Rightarrow> 'a world_scheme" where
  "smode_setup sm w = (case sm of Some m \<Rightarrow> sm_setup m w | None \<Rightarrow> w)"

definition smode_update :: "'a smode \<Rightarrow> 'a world_scheme \<Rightarrow> 'a world_scheme" where
  "smode_update sm w = (case sm of Some m \<Rightarrow> sm_update m w | None \<Rightarrow> w)"

definition smode_initclient :: "'a smode \<Rightarrow> clientinfo \<Rightarrow> bool \<Rightarrow> 'a world_scheme \<Rightarrow> marg list" where
  "smode_initclient sm ci connecting w = (case sm of Some m \<Rightarrow> sm_initclient m ci connecting w | None \<Rightarrow> [])"

subsection \<open>Welcome\<close>

definition servmsg :: "cstr \<Rightarrow> 'a world_scheme \<Rightarrow> 'a world_scheme" where
  "servmsg s = emit (sendf (- 1) 1 [MI N_SERVMSG, MS s])"

definition putinitclient :: "clientinfo \<Rightarrow> marg list" where
  "putinitclient ci =
     (if aitype (ci_state ci) \<noteq> AI_NONE
      then [MI N_INITAI, MI (ci_clientnum ci), MI (ci_ownernum ci), MI (aitype (ci_state ci)), MI (skill (ci_state ci)), MI (ci_playermodel ci),
        MS (ci_name ci), MS (ci_team ci)]
      else [MI N_INITCLIENT, MI (ci_clientnum ci), MS (ci_name ci), MS (ci_team ci), MI (ci_playermodel ci)])"

definition sendinitclient :: "int \<Rightarrow> 'a world_scheme \<Rightarrow> 'a world_scheme" where
  "sendinitclient cn w = emit (Sendf (- 1) 1 (putinitclient (client cn w)) cn) w"

definition welcomeinitclient :: "int \<Rightarrow> 'a world_scheme \<Rightarrow> marg list" where
  "welcomeinitclient exclude w =
     concat (map putinitclient (filter (\<lambda>ci. ci_connected ci \<and> ci_clientnum ci \<noteq> exclude \<and> \<not> ci_spy ci) (clients w)))"

definition timeleft :: "'a world_scheme \<Rightarrow> int" where
  "timeleft w = (if gamemillis w < gamelimit w \<and> interm w = 0 then max (cdiv (gamelimit w - gamemillis w) 1000) 1 else 0)"

text \<open>The parts of \<^verbatim>\<open>welcomepacket\<close>, for the client \<open>who\<close> or for a demo.\<close>

definition welcome_game :: "int option \<Rightarrow> 'a world_scheme \<Rightarrow> marg list" where
  "welcome_game who w =
     [MI N_WELCOME, MI N_MAPCHANGE, MS (smapname w), MI (gamemode w), MI (if notgotitems w then 1 else 0)]
     @ (if who = None \<or> (m_timed (gamemode w) \<and> smapname w \<noteq> []) then [MI N_TIMEUP, MI (timeleft w)] else [])
     @ (if notgotitems w then []
        else [MI N_ITEMLIST] @ concat (map (\<lambda>i. if se_spawned (sents w ! i) then [MI (int i), MI (se_type (sents w ! i))] else []) [0..<length (sents w)])
          @ [MI (- 1)])"

definition welcome_masters :: "'a world_scheme \<Rightarrow> marg list" where
  "welcome_masters w =
     (let ms = concat (map (\<lambda>ci. if ci_privilege ci \<ge> PRIV_MASTER then [MI (ci_clientnum ci), MI (ci_privilege ci)] else []) (clients w))
      in if mastermode w \<noteq> MM_OPEN \<or> ms \<noteq> [] then [MI N_CURRENTMASTER, MI (mastermode w)] @ ms @ [MI (- 1)] else [])"

definition welcome_state :: "int option \<Rightarrow> 'a world_scheme \<Rightarrow> marg list" where
  "welcome_state who w =
     (if gamepaused w then [MI N_PAUSEGAME, MI 1, MI (- 1)] else [])
     @ (if gamespeed w \<noteq> 100 then [MI N_GAMESPEED, MI (gamespeed w), MI (- 1)] else [])
     @ (if m_teammode (gamemode w)
        then [MI N_TEAMINFO] @ concat (map (\<lambda>(t, f). if f \<noteq> 0 then [MS t, MI f] else []) (teaminfos w)) @ [MS []] else [])
     @ (case who of Some n \<Rightarrow> [MI N_SETTEAM, MI n, MS (ci_team (client n w)), MI (- 1)] | None \<Rightarrow> [])"

definition welcome_spawn :: "'a smode \<Rightarrow> int \<Rightarrow> 'a world_scheme \<Rightarrow> (marg list \<times> 'a world_scheme) option" where
  "welcome_spawn sm n w =
     (if \<not> ((m_demo (gamemode w) \<or> m_mp (gamemode w)) \<and> gs_state (cstate n w) \<noteq> CS_SPECTATOR) then Some ([], w)
      else if \<not> smode_canspawn sm (client n w) True w
      then Some ([MI N_FORCEDEATH, MI n], emit (Sendf (- 1) 1 [MI N_FORCEDEATH, MI n] n) (upd_state n (\<lambda>s. s\<lparr>gs_state := CS_DEAD\<rparr>) w))
      else do {
        w \<leftarrow> spawnstate_ci n w;
        Some ([MI N_SPAWNSTATE, MI n] @ map MI (sendstate (cstate n w)), upd_state n (\<lambda>s. s\<lparr>gs_lastspawn := gamemillis w\<rparr>) w)
      })"

definition welcome_spectator :: "int \<Rightarrow> 'a world_scheme \<Rightarrow> marg list \<times> 'a world_scheme" where
  "welcome_spectator n w =
     (if gs_state (cstate n w) = CS_SPECTATOR
      then ([MI N_SPECTATOR, MI n, MI 1], emit (Sendf (- 1) 1 [MI N_SPECTATOR, MI n, MI 1] n) w) else ([], w))"

definition resume_entry :: "clientinfo \<Rightarrow> marg list" where
  "resume_entry ci =
     (let s = ci_state ci in map MI ([ci_clientnum ci, gs_state s, gs_frags s, gs_flags s, gs_deaths s, quadmillis s] @ sendstate s))"

definition welcome_others :: "int option \<Rightarrow> 'a world_scheme \<Rightarrow> marg list" where
  "welcome_others who w =
     (if who = None \<or> length (clients w) > 1
      then [MI N_RESUME] @ concat (map resume_entry (filter (\<lambda>ci. who \<noteq> Some (ci_clientnum ci)) (clients w))) @ [MI (- 1)]
        @ welcomeinitclient (case who of Some n \<Rightarrow> n | None \<Rightarrow> - 1) w
      else [])"

definition welcomepacket :: "'a smode \<Rightarrow> int option \<Rightarrow> 'a world_scheme \<Rightarrow> (marg list \<times> 'a world_scheme) option" where
  "welcomepacket sm who w =
     (let start = welcome_game who w @ welcome_masters w @ welcome_state who w
      in do {
        (spawn, w) \<leftarrow> (case who of Some n \<Rightarrow> welcome_spawn sm n w | None \<Rightarrow> Some ([], w));
        let (spec, w) = (case who of Some n \<Rightarrow> welcome_spectator n w | None \<Rightarrow> ([], w));
        Some (start @ spawn @ spec @ welcome_others who w
          @ smode_initclient sm (case who of Some n \<Rightarrow> client n w | None \<Rightarrow> ci_new) True w, w)
      })"

definition sendwelcome :: "'a smode \<Rightarrow> int \<Rightarrow> 'a world_scheme \<Rightarrow> 'a world_scheme option" where
  "sendwelcome sm n w = do { (p, w) \<leftarrow> welcomepacket sm (Some n) w; Some (emit (sendf n 1 p) w) }"

subsection \<open>Recording\<close>

fun marg_bytes :: "marg \<Rightarrow> uchar list" where
  "marg_bytes (MI n) = int_bytes (word_of_int n)"
| "marg_bytes (MS s) = string_bytes (map (\<lambda>c. of_nat (of_char c)) s)"
| "marg_bytes (MB bs) = bs"
| "marg_bytes (MV v) = []"

abbreviation (input) MAXDEMOS :: nat where "MAXDEMOS \<equiv> 5"

text \<open>What the file holds is \<open>demo_file\<close>; its name, which the listeners also get, is not modelled.\<close>

definition enddemorecord :: "'a world_scheme \<Rightarrow> 'a world_scheme" where
  "enddemorecord w =
     (if \<not> demorecord w then w
      else let (info, data) = demo_file (conf w); ds = demos (conf w);
               ds = (if length ds \<ge> MAXDEMOS then tl ds else ds) @ [(info, data)];
               w = servmsg (''demo '' @ [CHR 0x22] @ info @ [CHR 0x22] @ '' recorded'') (w\<lparr>demorecord := False, conf := (conf w)\<lparr>demos := ds\<rparr>\<rparr>)
           in emit (Event ''endrecord'' [MI 0, MI (int (length data))]) w)"

definition setupdemorecord :: "'a smode \<Rightarrow> 'a world_scheme \<Rightarrow> 'a world_scheme option" where
  "setupdemorecord sm w =
     (if \<not> m_mp (gamemode w) \<or> m_edit (gamemode w) \<or> \<not> demo_opens (conf w) then Some w
      else let w = (servmsg ''recording demo'' w)\<lparr>demorecord := True, net := (net w)\<lparr>demoffset := gamemillis w\<rparr>\<rparr>
           in do {
             (p, w) \<leftarrow> welcomepacket sm None w;
             Some (emit (Event ''beginrecord'' [MI 0]) (writedemo 1 (concat (map marg_bytes p)) w))
           })"

subsection \<open>Leaving\<close>

abbreviation (input) DISC_NONE :: int where "DISC_NONE \<equiv> 0"
abbreviation (input) DISC_EOP :: int where "DISC_EOP \<equiv> 1"
abbreviation (input) DISC_IPBAN :: int where "DISC_IPBAN \<equiv> 5"
abbreviation (input) DISC_PRIVATE :: int where "DISC_PRIVATE \<equiv> 6"
abbreviation (input) DISC_MAXCLIENTS :: int where "DISC_MAXCLIENTS \<equiv> 7"
abbreviation (input) DISC_TIMEOUT :: int where "DISC_TIMEOUT \<equiv> 8"
abbreviation (input) MM_AUTOAPPROVE :: int where "MM_AUTOAPPROVE \<equiv> 4096"

definition update_mastermask :: "'a world_scheme \<Rightarrow> 'a world_scheme" where
  "update_mastermask w =
     (let c = conf w; m = mastermask c AND NOT (2 ^ nat MM_VETO) AND NOT (2 ^ nat MM_LOCKED) AND NOT (2 ^ nat MM_PRIVATE) AND NOT MM_AUTOAPPROVE;
          m = m OR (if allow_mm_veto c then 2 ^ nat MM_VETO else 0);
          m = m OR (if allow_mm_locked c then 2 ^ nat MM_LOCKED else 0);
          m = m OR (if allow_mm_private c then 2 ^ nat MM_PRIVATE else 0);
          m = (if mastermask c AND MM_AUTOAPPROVE \<noteq> 0 then m OR MM_AUTOAPPROVE else m)
      in w\<lparr>conf := c\<lparr>mastermask := m\<rparr>\<rparr>)"

definition setmaster :: "int \<Rightarrow> bool \<Rightarrow> cstr \<Rightarrow> 'a world_scheme \<Rightarrow> 'a world_scheme" where
  "setmaster cn request hash w =
     (let w = emit (Event ''setmaster'' [MI cn, MS hash, MI (if request then 1 else 0)]) (update_mastermask w)
      in if reset_mm w then checkpausegame w else w)"

definition noclients :: "'a smode \<Rightarrow> 'a world_scheme \<Rightarrow> 'a world_scheme" where
  "noclients sm w = clearai sm (emit (Event ''clearbans_request'' [MI (- 1)]) w)"

definition disconnect_reason :: "int \<Rightarrow> cstr" where
  "disconnect_reason code =
     (let reasons = [''normal'', ''end of packet'', ''client num'', ''kicked/banned'', ''tag type'', ''ip is banned'', ''server is in private mode'',
            ''server FULL (maxclients)'', ''connection timed out'', ''overflow'']
      in if code < 0 then [] else reasons ! nat (code mod int (length reasons)))"

text \<open>\<^verbatim>\<open>disc_record\<close> has the times at which clients of an address left.\<close>

definition note_leaving :: "u32 \<Rightarrow> 'a world_scheme \<Rightarrow> bool \<times> 'a world_scheme" where
  "note_leaving ip w =
     (if disc_window w > 0 \<and> disc_msgs w > 0
      then let ms = (case map_of (disc_record w) ip of Some ms \<Rightarrow> ms | None \<Rightarrow> []) @ [totalmillis w]
           in (int (length ms) \<le> disc_msgs w,
               w\<lparr>disc_record := (if ip \<in> fst ` set (disc_record w) then map (\<lambda>(a, r). if a = ip then (a, ms) else (a, r)) (disc_record w)
                  else disc_record w @ [(ip, ms)])\<rparr>)
      else (True, w))"

definition leave_message :: "clientinfo \<Rightarrow> int \<Rightarrow> int \<Rightarrow> 'a world_scheme \<Rightarrow> cstr \<times> 'a world_scheme" where
  "leave_message ci n reason w =
     (if reason = DISC_NONE \<and> ci_disconnect_reason ci = [] then (''normal'', w)
      else let msg = (if ci_disconnect_reason ci \<noteq> [] then ci_disconnect_reason ci else disconnect_reason reason)
           in if ci_spy ci then (msg, w)
              else let (tell, w) = note_leaving (client_ip w n) w
                   in (msg, if tell then servmsg (''client ('' @ hostname (conf w) (ci_clientnum ci) @ '') disconnected because: '' @ convert2cube (conf w) msg) w
                            else w))"

text \<open>A client that leaves stays in the engine's table, here in \<open>connects\<close>, while its bots are handed over.\<close>

definition removeobj_client :: "int \<Rightarrow> 'a world_scheme \<Rightarrow> 'a world_scheme" where
  "removeobj_client cn w =
     w\<lparr>clients := filter (\<lambda>ci. ci_clientnum ci \<noteq> cn) (clients w), connects := connects w @ filter (\<lambda>ci. ci_clientnum ci = cn) (clients w)\<rparr>"

definition release_slot :: "bool \<Rightarrow> 'a world_scheme \<Rightarrow> 'a world_scheme" where
  "release_slot using w =
     (let extra = (if reservedslots_use w > 0 then 1 else 0)
      in w\<lparr>maxclients := maxclients w - extra, reservedslots_use := reservedslots_use w - extra, reservedslots := reservedslots w + (if using then 1 else 0)\<rparr>)"

definition leave_game :: "'a smode \<Rightarrow> int \<Rightarrow> int \<Rightarrow> cstr \<Rightarrow> 'a world_scheme \<Rightarrow> 'a world_scheme" where
  "leave_game sm cn n msg w =
     (let w = (if ci_privilege (client cn w) \<noteq> 0 then setmaster cn False [] w else w);
          w = smode_leavegame sm cn True w;
          w = upd_state cn (\<lambda>s. s\<lparr>gs_timeplayed := gs_timeplayed s + (lastmillis w - gs_lasttimeplayed s), gs_disconnecttime := totalmillis w\<rparr>) w;
          w = savescore (client cn w) w;
          w = (if ci_spy (client cn w) then w else emit (sendf (- 1) 1 [MI N_CDIS, MI n]) w);
          w = removeai sm cn (removeobj_client cn w);
          w = release_slot (ci_using_reservedslot (client cn w)) w;
          w = emit (Event ''disconnect'' [MI n, MS msg]) w;
          w = (if clients w = [] then noclients sm w else w\<lparr>dorefresh := True\<rparr>)
      in if reset_mm w then checkpausegame w else w)"

definition clientdisconnect :: "'a smode \<Rightarrow> int \<Rightarrow> int \<Rightarrow> 'a world_scheme \<Rightarrow> 'a world_scheme" where
  "clientdisconnect sm n reason w =
     (case getinfo n w of
        None \<Rightarrow> w
      | Some ci \<Rightarrow>
          let (msg, w) = leave_message ci n reason w
          in if ci_connected ci then leave_game sm (ci_clientnum ci) n msg w
             else emit (Event ''failedconnect'' [MS (hostname (conf w) (ci_clientnum ci)), MS msg]) w)"

text \<open>The engine: \<^verbatim>\<open>delclient\<close> frees the place of a client, and \<^verbatim>\<open>disconnect_client\<close> throws a client out.\<close>

definition delclient :: "int \<Rightarrow> 'a world_scheme \<Rightarrow> 'a world_scheme" where
  "delclient n w =
     (case getclientinfo n w of
        None \<Rightarrow> w
      | Some ci \<Rightarrow>
          w\<lparr>connects := filter (\<lambda>c. ci_clientnum c \<noteq> ci_clientnum ci) (connects w),
            nonlocalclients := (if ci_local ci then nonlocalclients w else nonlocalclients w - 1)\<rparr>)"

definition disconnect_client :: "'a smode \<Rightarrow> int \<Rightarrow> int \<Rightarrow> 'a world_scheme \<Rightarrow> 'a world_scheme" where
  "disconnect_client sm n reason w =
     (case getclientinfo n w of
        None \<Rightarrow> w
      | Some ci \<Rightarrow> if ci_local ci then w else delclient n (clientdisconnect sm n reason (emit (Disconnect n reason) w)))"

text \<open>The engine hears that the connection of a client has ended.\<close>

definition engine_disconnect :: "'a smode \<Rightarrow> int \<Rightarrow> 'a world_scheme \<Rightarrow> 'a world_scheme" where
  "engine_disconnect sm n w =
     (case getclientinfo n w of
        None \<Rightarrow> w
      | Some ci \<Rightarrow> delclient n (clientdisconnect sm n DISC_NONE w))"

definition kicknonlocalclients :: "'a smode \<Rightarrow> int \<Rightarrow> 'a world_scheme \<Rightarrow> 'a world_scheme" where
  "kicknonlocalclients sm reason w =
     fold (\<lambda>i w. case getclientinfo (int i) w of
       Some ci \<Rightarrow> if ci_local ci then w else disconnect_client sm (int i) reason w | None \<Rightarrow> w) [0..<nat MAXCLIENTS] w"

subsection \<open>Changing the map\<close>

definition stopdemo :: "'a world_scheme \<Rightarrow> 'a world_scheme" where
  "stopdemo w = (if m_demo (gamemode w) then w else enddemorecord w)"

fun restart_players :: "int list \<Rightarrow> 'a world_scheme \<Rightarrow> 'a world_scheme option" where
  "restart_players [] w = Some w"
| "restart_players (cn # cns) w =
     (let w = upd_client cn (\<lambda>ci. (ci_mapchange ci)\<lparr>ci_state := (ci_state (ci_mapchange ci))\<lparr>gs_lasttimeplayed := lastmillis w\<rparr>\<rparr>) w
      in do {
        w \<leftarrow> (if m_mp (gamemode w) \<and> gs_state (cstate cn w) \<noteq> CS_SPECTATOR then sendspawn cn w else Some w);
        restart_players cns w
      })"

text \<open>What ends with the old game, and what starts with the new one.\<close>

definition end_game :: "'a smode \<Rightarrow> 'a world_scheme \<Rightarrow> 'a world_scheme" where
  "end_game sm w =
     (let w = emit (Event ''finishedgame'' []) (calc_player_ranks w);
          w = changegamespeed 100 None (pausegame False None (stopdemo w))
      in clearai sm (smode_cleanup sm w))"

definition enter_map :: "cstr \<Rightarrow> int \<Rightarrow> int \<Rightarrow> 'a world_scheme \<Rightarrow> 'a world_scheme" where
  "enter_map s mode mins w =
     (let w = w\<lparr>mapreload := False, gamemode := mode, gamemillis := 0, gamelimit := (if mins = - 1 then 10 else mins) * 60000, interm := 0,
            nextexceeded := 0, smapname := take 259 s\<rparr>;
          w = (loaditems (mapents w (smapname w)) w)\<lparr>scores := []\<rparr>
      in w\<lparr>clients := map (\<lambda>ci. ci\<lparr>ci_state := (ci_state ci)\<lparr>gs_timeplayed :=
            gs_timeplayed (ci_state ci) + (lastmillis w - gs_lasttimeplayed (ci_state ci))\<rparr>\<rparr>) (clients w)\<rparr>)"

definition changemap :: "'a modetable \<Rightarrow> cstr \<Rightarrow> int \<Rightarrow> int \<Rightarrow> 'a world_scheme \<Rightarrow> 'a world_scheme option" where
  "changemap modes s mode mins w =
     (let old = modes (gamemode w); sm = modes mode;
          w = enter_map s mode mins (end_game old w);
          w = (if m_mp mode then w else kicknonlocalclients old DISC_PRIVATE w);
          w = clearteaminfo (emit (sendf (- 1) 1 [MI N_MAPCHANGE, MS (smapname w), MI mode, MI 1]) w);
          w = (if m_teammode mode then autoteam sm w else w);
          w = (if m_timed mode \<and> smapname w \<noteq> [] then emit (sendf (- 1) 1 [MI N_TIMEUP, MI (timeleft w)]) w else w)
      in do {
        w \<leftarrow> restart_players (map ci_clientnum (clients w)) w;
        let w = ai_changemap w;
        w \<leftarrow> (if m_demo mode then Some w
             else do {
               w \<leftarrow> (if demonextmatch (conf w) then setupdemorecord sm w else Some w);
               Some (w\<lparr>conf := (conf w)\<lparr>demonextmatch := autorecorddemo (conf w)\<rparr>\<rparr>)
             });
        let w = emit (Event ''mapchange'' [MS (utf8 w (smapname w)), MS (modename mode ''unknown'')]) (smode_setup sm w);
        Some (w\<lparr>next_timeupdate := 0\<rparr>)
      })"

definition rotatemap :: "'a modetable \<Rightarrow> 'a world_scheme \<Rightarrow> 'a world_scheme option" where
  "rotatemap modes w =
     (let w = emit (Event ''setnextgame'' []) w;
          (g, m, t) = setnextgame_hook w (next_gamemode w, next_mapname w, next_gametime w);
          w = w\<lparr>next_gamemode := g, next_mapname := m, next_gametime := t\<rparr>
      in if g \<noteq> [] \<and> m \<noteq> [] \<and> m_mp (modecode g)
         then do {
           w \<leftarrow> changemap modes m (modecode g) t (w\<lparr>mapreload := False\<rparr>);
           Some (w\<lparr>next_gamemode := [], next_mapname := [], next_gametime := - 1\<rparr>)
         }
         else Some w)"

subsection \<open>Votes\<close>

text \<open>\<open>checkvotes\<close> of the theory \<open>Match\<close> says what the votes lead to; here it is done.\<close>

definition run_votes :: "'a modetable \<Rightarrow> bool \<Rightarrow> 'a world_scheme \<Rightarrow> 'a world_scheme option" where
  "run_votes modes force w =
     (let outcome = fst (checkvotes force w); w = snd (best_vote None (tally (clients w)) w)
      in if outcome = NoChange then Some w
         else do {
           (flush, w) \<leftarrow> sendpackets True w;
           let w = enddemorecord w;
           case outcome of
             ChangeMap mp mode \<Rightarrow> changemap modes mp mode (- 1)
               (emit (Event ''votepassed'' [MS (utf8 w mp), MS (modename mode ''unknown'')])
                 (servmsg (if force then ''vote passed by default'' else ''vote passed by majority'') w))
           | _ \<Rightarrow> rotatemap modes w
         })"

definition duplicatename :: "clientinfo \<Rightarrow> 'a world_scheme \<Rightarrow> bool" where
  "duplicatename ci w \<longleftrightarrow> (\<exists>c \<in> set (clients w). ci_clientnum c \<noteq> ci_clientnum ci \<and> ci_name c = ci_name ci \<and> \<not> ci_spy c)"

definition colorname :: "clientinfo \<Rightarrow> 'a world_scheme \<Rightarrow> cstr" where
  "colorname ci w =
     (if ci_name ci \<noteq> [] \<and> \<not> duplicatename ci w \<and> aitype (ci_state ci) = AI_NONE then ci_name ci
      else let num = (if ci_clientnum ci < 0 then ''-'' else []) @ decimal (nat \<bar>ci_clientnum ci\<bar>); esc = CHR 0x0C
           in ci_name ci @ '' '' @ [esc] @ ''s'' @ [esc] @ ''5'' @ (if aitype (ci_state ci) = AI_NONE then ''('' @ num @ '')'' else ''['' @ num @ '']'') @ [esc] @ ''r'')"

definition privname :: "int \<Rightarrow> cstr" where
  "privname p =
     (let esc = CHR 0x0C; col = (\<lambda>c t. [esc] @ ''s'' @ [esc] @ c @ t @ [esc] @ ''r'')
      in if p = PRIV_ADMIN then col ''6'' ''admin'' else if p = PRIV_AUTH then col ''1'' ''auth'' else if p = PRIV_MASTER then col ''0'' ''master''
         else if p = PRIV_NONE then col ''f'' ''none'' else ''unknown'')"

text \<open>\<^verbatim>\<open>strncpy\<close> writes 64 bytes and does not end a longer name.\<close>

definition vote_name :: "cstr \<Rightarrow> 'a world_scheme \<Rightarrow> cstr" where
  "vote_name s w = (if length s < 64 then s else take 64 s @ vote_tail (conf w))"

definition vote :: "'a modetable \<Rightarrow> cstr \<Rightarrow> int \<Rightarrow> int \<Rightarrow> 'a world_scheme \<Rightarrow> 'a world_scheme option" where
  "vote modes s reqmode sender w =
     (case getinfo sender w of
        None \<Rightarrow> Some w
      | Some ci \<Rightarrow>
          if \<not> can_play ci \<or> (\<not> ci_local ci \<and> \<not> m_mp reqmode) then Some w
          else let v = vote_name s w; w = upd_client (ci_clientnum ci) (\<lambda>ci. ci\<lparr>ci_mapvote := v, ci_modevote := reqmode\<rparr>) w;
                   mode = modename reqmode ''unknown''
               in if v = [] then Some w
                  else if ci_local ci \<or> mapreload w \<or> (ci_privilege ci \<noteq> 0 \<and> mastermode w \<ge> MM_VETO)
                  then do {
                    (flush, w) \<leftarrow> sendpackets True w;
                    let w = enddemorecord w;
                    let who = (if ci_privilege ci \<noteq> 0 \<and> mastermode w \<ge> MM_VETO then privname (ci_privilege ci) else ''local player'');
                    let w = (if (\<not> ci_local ci \<or> hasnonlocalclients w) \<and> \<not> mapreload w \<and> \<not> ci_spy ci
                             then servmsg (who @ '' '' @ colorname ci w @ '' forced '' @ mode @ '' on map '' @ v) w else w);
                    changemap modes v reqmode (- 1) w
                  }
                  else run_votes modes False
                    (if ci_spy ci then w else servmsg (colorname ci w @ '' suggests '' @ mode @ '' on map '' @ s @ '' (select map to vote)'') w))"

subsection \<open>Connecting\<close>

definition sendservinfo :: "int \<Rightarrow> 'a world_scheme \<Rightarrow> 'a world_scheme" where
  "sendservinfo cn w =
     emit (sendf cn 1 [MI N_SERVINFO, MI cn, MI 260, MI (ci_sessionid (client cn w)), MI (if serverpass (conf w) \<noteq> [] then 1 else 0),
       MS (serverdesc (conf w)), MS (serverauth (conf w))]) w"

definition clientconnect :: "int \<Rightarrow> 'a world_scheme \<Rightarrow> int \<times> 'a world_scheme" where
  "clientconnect n w =
     (let (r, w) = draw 0x1000000 w;
          ci = ci_new\<lparr>ci_clientnum := n, ci_ownernum := n, ci_n := n, ci_connectmillis := totalmillis w,
            ci_sessionid := (r * (totalmillis w mod 10000 + 1)) AND 0xFFFFFF\<rparr>;
          w = w\<lparr>connects := connects w @ [ci]\<rparr>
      in if \<not> m_mp (gamemode w) then (DISC_PRIVATE, w) else (DISC_NONE, sendservinfo n w))"

text \<open>The engine's part of it: the client gets a place, and is thrown out again if the game does not want it. The tick that the
  engine runs before it asks the game is a step of its own.\<close>

definition engine_connect :: "'a modetable \<Rightarrow> int \<Rightarrow> 'a world_scheme \<Rightarrow> 'a world_scheme" where
  "engine_connect modes n w =
     (let (reason, w) = clientconnect n (w\<lparr>nonlocalclients := nonlocalclients w + 1\<rparr>)
      in if reason \<noteq> 0 then disconnect_client (modes (gamemode w)) n reason w else w)"

definition spies :: "'a world_scheme \<Rightarrow> nat" where "spies w = length (filter ci_spy (roster w))"

definition spec_count :: "'a world_scheme \<Rightarrow> int" where
  "spec_count w = int (length (filter (\<lambda>ci. gs_state (ci_state ci) = CS_SPECTATOR \<and> \<not> ci_spy ci) (clients w)))"

definition checkpassword :: "clientinfo \<Rightarrow> cstr \<Rightarrow> cstr \<Rightarrow> 'a world_scheme \<Rightarrow> bool" where
  "checkpassword ci wanted given w = password_ok (conf w) (ci_clientnum ci) (ci_sessionid ci) wanted given"

definition take_reserved :: "int \<Rightarrow> int \<Rightarrow> 'a world_scheme \<Rightarrow> 'a world_scheme" where
  "take_reserved cn clientcount w =
     (let w = (if clientcount \<ge> maxclients w then w\<lparr>reservedslots_use := reservedslots_use w + 1, maxclients := maxclients w + 1\<rparr> else w)
      in upd_client cn (\<lambda>ci. ci\<lparr>ci_using_reservedslot := True\<rparr>) (w\<lparr>reservedslots := reservedslots w - 1\<rparr>))"

text \<open>\<^verbatim>\<open>set_spy(cn, true)\<close> of a script for a client that is not in the game yet. The client has another number from then on.\<close>

definition enter_spy :: "int \<Rightarrow> 'a world_scheme \<Rightarrow> int \<times> 'a world_scheme" where
  "enter_spy cn w =
     (let name = ci_name (client cn w); num = spycn w + int (spies w);
          w = upd_client cn (\<lambda>ci. ci\<lparr>ci_messages := []\<rparr>) w;
          w = fold (\<lambda>ci. sendprivtext (ci_clientnum ci) (RED @ ''ADMIN-INFO: '' @ name @ '' joined the spy-mode.''))
                (filter (\<lambda>ci. ci_clientnum ci \<noteq> cn \<and> ci_privilege ci \<ge> PRIV_ADMIN) (clients w)) w;
          w = upd_client cn (\<lambda>ci. ci\<lparr>ci_spy := True, ci_privilege := PRIV_ADMIN, ci_hide_privilege := True, ci_clientnum := num\<rparr>) w
      in (num, sendservinfo num w))"

text \<open>What \<^verbatim>\<open>allowconnect\<close> decides once the listeners have answered.\<close>

definition admission :: "int \<Rightarrow> cstr \<Rightarrow> bool \<Rightarrow> int \<Rightarrow> 'a world_scheme \<Rightarrow> int \<times> 'a world_scheme" where
  "admission cn pwd is_reserved clientcount w =
     (let ci = client cn w; c = conf w; spy_count = int (spies w) + (if ci_spy ci then 1 else 0)
      in if (ci_privilege ci = PRIV_ADMIN \<or> is_reserved) \<and> reservedslots w > 0 then (DISC_NONE, take_reserved cn clientcount w)
         else if clientcount \<ge> maxclients w + (if spec_slots c then spec_count w else 0) + spy_count then (DISC_MAXCLIENTS, w)
         else if serverpass c \<noteq> [] then (if checkpassword ci (serverpass c) pwd w then DISC_NONE else DISC_PRIVATE, w)
         else if mastermode w \<ge> MM_PRIVATE \<and> client_ip w cn \<notin> set (allowedips c) then (DISC_PRIVATE, w)
         else (DISC_NONE, w))"

text \<open>\<^verbatim>\<open>event_connecting\<close> calls the listeners, who may veto, give the client a privilege and make it a spy. A spy has
  a new number, which is the second part of the result. When there are five spies already, \<^verbatim>\<open>set_spy\<close> throws the client out and
  the engine frees it, while \<^verbatim>\<open>allowconnect\<close> and its caller go on to use it: there is no result then.\<close>

definition allowconnect :: "int \<Rightarrow> cstr \<Rightarrow> 'a world_scheme \<Rightarrow> (int \<times> int \<times> 'a world_scheme) option" where
  "allowconnect cn pwd w =
     (let ci = client cn w; c = conf w
      in if ci_local ci then Some (DISC_NONE, cn, w)
         else if \<not> m_mp (gamemode w) then Some (DISC_PRIVATE, cn, w)
         else let clientcount = numclients (- 1) False True False w;
                  is_reserved = (slotpass c \<noteq> [] \<and> checkpassword ci (slotpass c) pwd w);
                  w = upd_client cn (\<lambda>ci. ci\<lparr>ci_spy := False\<rparr>) w;
                  (veto, privilege, spy) = connecting_hook c cn (hostname c cn) (utf8 w (ci_name ci)) pwd is_reserved;
                  w = upd_client cn (\<lambda>ci. ci\<lparr>ci_privilege := privilege\<rparr>) w
              in if spy \<and> int (spies w) \<ge> MAXSPIES then None
                 else let (cn, w) = (if spy then enter_spy cn w else (cn, w))
                   in if veto then Some (DISC_IPBAN, cn, w)
                      else let (disc, w) = admission cn pwd is_reserved clientcount w in Some (disc, cn, w))"

definition join_game :: "int \<Rightarrow> 'a world_scheme \<Rightarrow> 'a world_scheme" where
  "join_game cn w =
     (let ci = client cn w; s = ci_state ci;
          s = (if mastermode w \<ge> MM_LOCKED then s\<lparr>gs_state := CS_SPECTATOR\<rparr> else s)\<lparr>gs_lasttimeplayed := lastmillis w\<rparr>
      in w\<lparr>connects := filter (\<lambda>c. ci_clientnum c \<noteq> cn) (connects w),
           clients := clients w @ [ci\<lparr>ci_connected := True, ci_needclipboard := (if totalmillis w \<noteq> 0 then totalmillis w else 1), ci_state := s\<rparr>]\<rparr>)"

definition first_map :: "'a modetable \<Rightarrow> 'a world_scheme \<Rightarrow> 'a world_scheme option" where
  "first_map modes w = (if length (clients w) = 1 \<and> mapreload w then rotatemap modes w else Some w)"

definition connected :: "'a modetable \<Rightarrow> int \<Rightarrow> 'a world_scheme \<Rightarrow> 'a world_scheme option" where
  "connected modes cn w =
     (let w = join_game cn w;
          (worst, w) = (if m_teammode (gamemode w) then chooseworstteam (modes (gamemode w)) (Some cn) w else (''good'', w));
          w = upd_client cn (\<lambda>ci. ci\<lparr>ci_team := copyteam worst\<rparr>) w
      in do {
        w \<leftarrow> first_map modes w;
        w \<leftarrow> sendwelcome (modes (gamemode w)) cn w;
        let (found, w) = restorescore (client cn w) w;
        let w = (if found then sendresume cn w else w);
        let w = ai_addclient cn (sendinitclient cn w);
        w \<leftarrow> first_map modes w;
        Some (emit (Event ''connect'' [MI cn, MI (if ci_spy (client cn w) then 1 else 0)]) w)
      })"

subsection \<open>A tick of the server\<close>

definition timeout_one :: "'a smode \<Rightarrow> nat \<Rightarrow> 'a world_scheme \<Rightarrow> 'a world_scheme" where
  "timeout_one sm i w =
     (let ci = connects w ! i
      in if totalmillis w - ci_connectmillis ci > 15000 then disconnect_client sm (ci_clientnum ci) DISC_TIMEOUT w else w)"

text \<open>The index goes up also when a client has been removed, so the next one waits for the next tick.\<close>

fun timeout_loop :: "'a smode \<Rightarrow> nat \<Rightarrow> nat \<Rightarrow> 'a world_scheme \<Rightarrow> 'a world_scheme" where
  "timeout_loop sm 0 i w = w"
| "timeout_loop sm (Suc k) i w = (if i < length (connects w) then timeout_loop sm k (Suc i) (timeout_one sm i w) else w)"

definition exceeded_one :: "'a smode \<Rightarrow> nat \<Rightarrow> 'a world_scheme \<Rightarrow> 'a world_scheme" where
  "exceeded_one sm i w =
     (if i \<ge> length (clients w) then w
      else let c = clients w ! i; rtt = peer_rtt w (ci_ownernum c)
           in if aitype (ci_state c) \<noteq> AI_NONE then w
              else if checkexceeded (gamemillis w) rtt c then disconnect_client sm (ci_clientnum c) DISC_MSGERR w
              else w\<lparr>nextexceeded := scheduleexceeded rtt c (nextexceeded w)\<rparr>)"

definition check_exceeded :: "'a smode \<Rightarrow> 'a world_scheme \<Rightarrow> 'a world_scheme" where
  "check_exceeded sm w =
     (if nextexceeded w \<noteq> 0 \<and> gamemillis w > nextexceeded w \<and> (\<not> m_timed (gamemode w) \<or> gamemillis w < gamelimit w)
      then fold (exceeded_one sm) (rev [0..<length (clients w)]) (w\<lparr>nextexceeded := 0\<rparr>) else w)"

definition running :: "'a world_scheme \<Rightarrow> bool" where "running w \<longleftrightarrow> shouldstep w \<and> \<not> gamepaused w"

definition update_game :: "'a smode \<Rightarrow> 'a world_scheme \<Rightarrow> 'a world_scheme option" where
  "update_game sm w =
     (if \<not> running w then Some w
      else let w = w\<lparr>gamemillis := gamemillis w + curtime w\<rparr>
           in if m_demo (gamemode w) then Some w
              else if m_timed (gamemode w) \<and> gamemillis w \<ge> gamelimit w then Some w
              else do { w \<leftarrow> checkai sm (items_update (processevents sm w)); Some (smode_update sm w) })"

definition time_event :: "'a world_scheme \<Rightarrow> 'a world_scheme" where
  "time_event w =
     (if gamemillis w > next_timeupdate w
      then let left = gamelimit w - gamemillis w;
               w = emit (Event ''timeupdate'' [MI (if left \<le> 0 then 0 else cdiv (left + 60000 - 1) 60000), MI (if left \<le> 0 then 0 else cdiv left 1000)]) w
           in w\<lparr>gamelimit := timeupdate_hook w (gamelimit w) (gamemillis w), next_timeupdate := gamemillis w + 60000\<rparr>
      else w)"

definition end_of_game :: "'a modetable \<Rightarrow> 'a world_scheme \<Rightarrow> 'a world_scheme option" where
  "end_of_game modes w =
     (if \<not> running w then Some w
      else let w = (if m_timed (gamemode w) \<and> smapname w \<noteq> [] \<and> gamemillis w - curtime w > 0
                    then checkintermission (modes (gamemode w)) False w else w)
           in if interm w > 0 \<and> gamemillis w > interm w + spectator_delay w \<and> delayed_sendpackets (net w) = []
              then run_votes modes True ((enddemorecord (w\<lparr>spectator_delay := 0\<rparr>))\<lparr>interm := - 1\<rparr>)
              else Some w)"

text \<open>\<open>toremove\<close> stays 0 when all times of an address are old, so such an entry is kept.\<close>

definition purge_entry :: "int \<Rightarrow> int \<Rightarrow> u32 \<times> int list \<Rightarrow> (u32 \<times> int list) list" where
  "purge_entry now window rec =
     (let (ip, ms) = rec; toremove = (case first_index (\<lambda>t. now - t < window) ms of Some i \<Rightarrow> i | None \<Rightarrow> 0)
      in if toremove = 0 then [(ip, ms)]
         else let ms = drop toremove ms in if ms = [] then [] else [(ip, ms)])"

definition purge_record :: "'a world_scheme \<Rightarrow> 'a world_scheme" where
  "purge_record w = w\<lparr>disc_record := concat (map (purge_entry (totalmillis w) (disc_window w)) (disc_record w))\<rparr>"

definition serverupdate :: "'a modetable \<Rightarrow> 'a world_scheme \<Rightarrow> 'a world_scheme option" where
  "serverupdate modes w =
     do {
       w \<leftarrow> update_game (modes (gamemode w)) w;
       let w = timeout_loop (modes (gamemode w)) (length (connects w)) 0 w;
       let w = time_event (check_exceeded (modes (gamemode w)) w);
       w \<leftarrow> end_of_game modes w;
       Some (purge_record (w\<lparr>shouldstep := (clients w \<noteq> [])\<rparr>))
     }"

end
