(* ===== verification/Chat.thy ===== *)
theory Chat
  imports Session
begin

unbundle bit_operations_syntax

text \<open>
  The other messages of \<^verbatim>\<open>parsepacket\<close> of \<^verbatim>\<open>src/src/fpsgame/server.cpp\<close>: texts, names, teams, votes, masters, kicks, demos,
  the map transfer, keys and the clipboard, and the packets of clients that have not entered the game. \<open>parse_all\<close> is the loop over
  a whole packet of a client that plays, \<open>parse_new\<close> the one for a client that connects. Texts are filtered as in \<^verbatim>\<open>shared/tools.cpp\<close>.
\<close>

subsection \<open>Text of the game\<close>

text \<open>The table \<^verbatim>\<open>cubectype\<close>, with the letters of its macro: \<open>s\<close> is space, \<open>p\<close> punctuation, \<open>d\<close> a digit, and the others are letters.\<close>

definition cubectypes :: string where
  "cubectypes = concat [
     ''0UUUUUUUUsssssUU'', ''UUUUUUUUUUUUUUUU'', ''sppppppppppppppp'', ''ddddddddddpppppp'',
     ''pAAAAAAAAAAAAAAA'', ''AAAAAAAAAAAppppp'', ''paaaaaaaaaaaaaaa'', ''aaaaaaaaaaappppU'',
     ''Uuuuuuuuuuuuuuuu'', ''uuuuuuuuuuuuuuuU'', ''uUuUuUuUuUuUuUuU'', ''uUuUuUuUuUuUuUuU'',
     ''uUuUuUuUUuUuUuuU'', ''UUUUUUUUUUUUUUUU'', ''UUUUuuuuuuuuuuuu'', ''uuuuuuuuuuuuuuUu'']"

definition cubectype :: "char \<Rightarrow> char" where "cubectype c = cubectypes ! of_char c"

definition iscubespace :: "char \<Rightarrow> bool" where "iscubespace c \<longleftrightarrow> cubectype c = CHR ''s''"
definition iscubeprint :: "char \<Rightarrow> bool" where "iscubeprint c \<longleftrightarrow> cubectype c \<in> set ''pdaAuU''"
definition iscubealnum :: "char \<Rightarrow> bool" where "iscubealnum c \<longleftrightarrow> cubectype c \<in> set ''daAuU''"

text \<open>A form feed takes the character behind it away, which would be its colour.\<close>

function filtertext :: "bool \<Rightarrow> bool \<Rightarrow> nat \<Rightarrow> cstr \<Rightarrow> cstr" where
  "filtertext ws fs n [] = []"
| "filtertext ws fs n (c # s) =
     (if c = CHR 0x0C then filtertext ws fs n (tl s)
      else if \<not> iscubeprint c \<and> (\<not> iscubespace c \<or> \<not> ws) then filtertext ws fs n s
      else (if \<not> iscubeprint c \<and> fs then CHR '' '' else c) # (if n \<le> 1 then [] else filtertext ws fs (n - 1) s))"
  by pat_completeness auto
termination by (relation "measure (\<lambda>(ws, fs, n, s). length s)") auto

definition validmapname :: "cstr \<Rightarrow> cstr" where
  "validmapname s = take 100 (takeWhile (\<lambda>c. iscubealnum c \<or> c \<in> {CHR ''_'', CHR ''-'', CHR ''/'', CHR 0x5C}) s)"

abbreviation (input) MAXNAMELEN :: nat where "MAXNAMELEN \<equiv> 15"
abbreviation (input) MAXSTRLEN :: nat where "MAXSTRLEN \<equiv> 260"

definition gettext_n :: "nat \<Rightarrow> uchar databuf \<Rightarrow> cstr \<times> uchar databuf" where
  "gettext_n n p = (let (t, p) = getstring n p in (text_of t, p))"

definition unnamed :: "cstr \<Rightarrow> cstr" where "unnamed s = (if s = [] then ''unnamed'' else s)"

text \<open>\<^verbatim>\<open>message::limit\<close>: the counter, the time that has to pass, and the name of the message for the player.\<close>

definition limit_msg :: "limited \<Rightarrow> limited \<Rightarrow> cstr \<Rightarrow> int \<Rightarrow> 'a world_scheme \<Rightarrow> bool \<times> 'a world_scheme" where
  "limit_msg counter kind what cn w =
     (if ci_privilege (client cn w) = PRIV_ADMIN then (False, w)
      else let wait = curmillis w - ci_limits (client cn w) counter; rt = resend_time (conf w) kind
           in if wait \<ge> rt then (False, upd_client cn (\<lambda>ci. ci\<lparr>ci_limits := (ci_limits ci)(counter := curmillis w)\<rparr>) w)
              else (True, sendprivtext cn (RED @ ''Rejected '' @ what @ '' message (wait ''
                      @ decimal (nat \<lceil>(of_int (rt - wait) :: rat) / 1000\<rceil>) @ '' seconds before resending)!'') w))"

subsection \<open>Talking\<close>

definition text_bytes :: "int \<Rightarrow> cstr \<Rightarrow> uchar list" where "text_bytes t s = marg_bytes (MI t) @ marg_bytes (MS s)"

text \<open>The result says whether the text goes to the others.\<close>

definition msg_text :: "int \<Rightarrow> cstr \<Rightarrow> 'a world_scheme \<Rightarrow> bool \<times> 'a world_scheme" where
  "msg_text me text w =
     (let (refused, w) = limit_msg LText LText ''text'' me w; ci = client me w; command = (text \<noteq> [] \<and> hd text = CHR 0x23)
      in if refused then (False, w)
         else if command \<and> tl text = ''reload'' \<and> ci_privilege ci = PRIV_ADMIN then (False, emit (Event ''reload'' []) w)
         else if ci_spy ci \<and> \<not> command
         then (False, let esc = CHR 0x0C in servmsg ([esc] @ ''3REMOTE ADMIN '' @ [esc] @ ''0('' @ [esc] @ ''8'' @ ci_name ci @ [esc] @ ''0)'' @ [esc] @ ''3: '' @ [esc] @ ''8'' @ text) w)
         else (\<not> text_hook (conf w) me (utf8 w text) \<and> \<not> is_delayed_spectator w ci, w))"

definition msg_sayteam :: "int \<Rightarrow> int \<Rightarrow> cstr \<Rightarrow> 'a world_scheme \<Rightarrow> 'a world_scheme" where
  "msg_sayteam me q text w =
     (if ci_team (client q w) = [] then w
      else let (refused, w) = limit_msg LSayteam LSayteam ''team chat'' me w
           in if refused \<or> ci_spy (client me w) then w
              else let text = filtertext True True (MAXTRANS - 1) text
                   in if sayteam_hook (conf w) me (utf8 w text) then w
                      else fold (\<lambda>t w. if ci_clientnum t = q \<or> gs_state (ci_state t) = CS_SPECTATOR \<or> aitype (ci_state t) \<noteq> AI_NONE
                                          \<or> ci_team t \<noteq> ci_team (client q w) then w
                                       else emit (sendf (ci_clientnum t) 1 [MI N_SAYTEAM, MI me, MS text]) w) (clients w) w)"

subsection \<open>Names\<close>

text \<open>\<^verbatim>\<open>putuint\<close> writes the small numbers of messages as \<^verbatim>\<open>putint\<close> does.\<close>

definition player_rename :: "int \<Rightarrow> cstr \<Rightarrow> bool \<Rightarrow> 'a world_scheme \<Rightarrow> 'a world_scheme" where
  "player_rename cn newname public_rename w =
     (let name = unnamed (filtertext False True MAXNAMELEN (convert2cube (conf w) newname)); old = ci_name (client cn w)
      in if cn \<ge> 128 then w
         else let w = upd_client cn (\<lambda>ci. ci\<lparr>ci_messages := ci_messages ci @ text_bytes N_SWITCHNAME name\<rparr>) w;
                  w = emit (sendf cn 1 [MI N_CLIENT, MI cn, MI (int (length (text_bytes N_SWITCHNAME name))), MB (text_bytes N_SWITCHNAME name)]) w;
                  w = upd_client cn (\<lambda>ci. ci\<lparr>ci_name := name\<rparr>) w
              in if public_rename
                 then emit (Event ''rename'' [MI cn, MS (utf8 w old), MS (utf8 w name)]) (emit (Event ''renaming'' [MI cn, MI 0]) w) else w)"

definition msg_switchname :: "int \<Rightarrow> cstr \<Rightarrow> 'a world_scheme \<Rightarrow> 'a world_scheme" where
  "msg_switchname me text w =
     (let ci = client me w; new = unnamed (filtertext False False MAXNAMELEN text); old = ci_name ci;
          (refused, w) = (if ci_spy ci \<or> old = new then (True, w) else limit_msg LSwitchname LSwitchname ''name change'' me w);
          refused = (refused \<or> rename_hook (conf w) me (utf8 w new))
      in if \<not> refused
         then let w = upd_client me (\<lambda>ci. ci\<lparr>ci_name := new\<rparr>) w;
                  w = emit (Event ''rename'' [MI me, MS (utf8 w old), MS (utf8 w new)]) (emit (Event ''renaming'' [MI me, MI 0]) w)
              in queue me (text_bytes N_SWITCHNAME new) w
         else if old \<noteq> new then player_rename me old False w else w)"

subsection \<open>Votes and teams\<close>

definition msg_mapvote :: "'a modetable \<Rightarrow> int \<Rightarrow> int \<Rightarrow> cstr \<Rightarrow> int \<Rightarrow> 'a world_scheme \<Rightarrow> 'a world_scheme option" where
  "msg_mapvote modes sender me text reqmode w =
     (let text = filtertext False False (MAXTRANS - 1) text; mode = (if \<not> ci_local (client me w) \<and> \<not> m_mp reqmode then 0 else reqmode);
          (refused, w) = limit_msg LMapvote LMapvote ''mapvote'' me w
      in if refused \<or> mapvote_hook (conf w) me (utf8 w text) (modename mode ''unknown'') then Some w else vote modes text mode sender w)"

definition canchangeteam :: "'a smode \<Rightarrow> clientinfo \<Rightarrow> cstr \<Rightarrow> cstr \<Rightarrow> bool" where
  "canchangeteam sm ci old new = (case sm of None \<Rightarrow> True | Some m \<Rightarrow> sm_canchangeteam m ci old new)"

definition msg_switchteam :: "'a smode \<Rightarrow> int \<Rightarrow> int \<Rightarrow> cstr \<Rightarrow> 'a world_scheme \<Rightarrow> 'a world_scheme" where
  "msg_switchteam sm sender me text w =
     (let text = filtertext False False MAXTEAMLEN text; ci = client me w; old = ci_team ci;
          (refused, w) = (if \<not> m_teammode (gamemode w) \<or> text = [] \<or> old = text \<or> \<not> canchangeteam sm ci old text then (True, w)
                          else limit_msg LSwitchteam LSwitchteam ''team change'' me w)
      in if refused \<or> chteam_hook (conf w) me (utf8 w old) (utf8 w text) sender then w
         else let w = addteaminfo text w
              in if team_access text w = None then w
                 else let w = (if gs_state (cstate me w) = CS_ALIVE then suicide sm me w else w);
                          w = ai_changeteam me (upd_client me (\<lambda>ci. ci\<lparr>ci_team := text\<rparr>) w);
                          w = emit (Event ''reteam'' [MI me, MS (utf8 w old), MS (utf8 w text)]) w
                      in if ci_spy (client me w) then w
                         else emit (sendf (- 1) 1 [MI N_SETTEAM, MI sender, MS text, MI (if gs_state (cstate me w) = CS_SPECTATOR then - 1 else 0)]) w)"

text \<open>\<^verbatim>\<open>N_SETTEAM\<close> counts with the counter of name changes.\<close>

definition msg_setteam :: "'a smode \<Rightarrow> int \<Rightarrow> int \<Rightarrow> int \<Rightarrow> cstr \<Rightarrow> 'a world_scheme \<Rightarrow> 'a world_scheme" where
  "msg_setteam sm sender me who text w =
     (let text = filtertext False False MAXTEAMLEN text
      in if ci_privilege (client me w) = 0 \<and> \<not> ci_local (client me w) then w
         else case getinfo who w of
                None \<Rightarrow> w
              | Some wi \<Rightarrow>
                  let q = ci_clientnum wi; old = ci_team wi
                  in if \<not> m_teammode (gamemode w) \<or> text = [] \<or> \<not> ci_connected wi \<or> old = text then w
                     else let (refused, w) = (if \<not> canchangeteam sm wi old text then (True, w) else limit_msg LSwitchname LSwitchteam ''N_SWITCHTEAM'' me w);
                              refused = (refused \<or> chteam_hook (conf w) q (utf8 w old) (utf8 w text) sender);
                              w = (if refused then w else addteaminfo text w);
                              w = (if refused \<or> team_access text w = None then w
                                   else let w = (if sm \<noteq> None \<and> gs_state (cstate q w) = CS_ALIVE then suicide sm q w else w);
                                            w = emit (Event ''reteam'' [MI q, MS (utf8 w old), MS (utf8 w text)]) w
                                        in upd_client q (\<lambda>ci. ci\<lparr>ci_team := copyteam text\<rparr>) w);
                              w = ai_changeteam q w
                          in emit (sendf (- 1) 1 [MI N_SETTEAM, MI who, MS (ci_team (client q w)), MI 1]) w)"

subsection \<open>Masters\<close>

definition set_mastermode_cn :: "int \<Rightarrow> int \<Rightarrow> 'a world_scheme \<Rightarrow> 'a world_scheme" where
  "set_mastermode_cn val cn w =
     (if val = mastermode w then w
      else let old = mastermode w;
               ips = (if allow_mm_private_reconnect (conf w) \<and> val \<ge> MM_PRIVATE then map (\<lambda>ci. client_ip w (ci_clientnum ci)) (clients w) else []);
               w = w\<lparr>mastermode := val, conf := (conf w)\<lparr>allowedips := ips\<rparr>\<rparr>;
               w = emit (Event ''setmastermode'' [MI cn, MS (mastermodename old ''unknown''), MS (mastermodename val ''unknown'')]) w
           in emit (sendf (- 1) 1 [MI N_MASTERMODE, MI val]) w)"

definition msg_mastermode :: "int \<Rightarrow> int \<Rightarrow> int \<Rightarrow> 'a world_scheme \<Rightarrow> 'a world_scheme" where
  "msg_mastermode sender me mm w =
     (let w = update_mastermask w; ci = client me w
      in if (ci_privilege ci = 0 \<and> \<not> ci_local ci) \<or> mm < MM_OPEN \<or> mm > MM_PRIVATE then w
         else if ci_privilege ci \<ge> PRIV_ADMIN \<or> ci_local ci \<or> mastermask (conf w) AND 2 ^ nat mm \<noteq> 0
         then if mastermode_hook (conf w) me (mastermodename (mastermode w) ''unknown'') (mastermodename mm ''unknown'') then w
              else set_mastermode_cn mm me w
         else emit (sendf sender 1 [MI N_SERVMSG, MS (''mastermode '' @ decimal (nat mm) @ '' is disabled on this server'')]) w)"

definition hasmaster :: "'a world_scheme \<Rightarrow> bool" where "hasmaster w \<longleftrightarrow> (\<exists>ci \<in> set (clients w). ci_privilege ci \<ge> PRIV_MASTER)"

definition cleanup_masterstate :: "'a world_scheme \<Rightarrow> 'a world_scheme" where
  "cleanup_masterstate w =
     (if reset_mm w \<and> \<not> hasmaster w
      then let w = w\<lparr>mastermode := (if display_open (conf w) then MM_OPEN else MM_AUTH), conf := (conf w)\<lparr>allowedips := []\<rparr>\<rparr>
           in if gamepaused w then pausegame False None w else w
      else w)"

definition cleanup_master :: "'a smode \<Rightarrow> int \<Rightarrow> 'a world_scheme \<Rightarrow> 'a world_scheme" where
  "cleanup_master sm cn w = (let w = cleanup_masterstate w in if gs_state (cstate cn w) = CS_SPECTATOR then removeai sm cn w else w)"

definition send_currentmaster :: "'a world_scheme \<Rightarrow> 'a world_scheme" where
  "send_currentmaster w =
     emit (sendf (- 1) 1 ([MI N_CURRENTMASTER, MI (mastermode w)]
       @ concat (map (\<lambda>ci. [MI (ci_clientnum ci), MI (ci_privilege ci)]) (filter (\<lambda>ci. ci_privilege ci \<ge> PRIV_MASTER \<and> \<not> ci_hide_privilege ci) (clients w)))
       @ [MI (- 1)])) w"

definition unset_player_privilege :: "'a smode \<Rightarrow> int \<Rightarrow> 'a world_scheme \<Rightarrow> 'a world_scheme" where
  "unset_player_privilege sm cn w =
     (let old = ci_privilege (client cn w)
      in if old = PRIV_NONE then w
         else let w = cleanup_master sm cn (upd_client cn (\<lambda>ci. ci\<lparr>ci_privilege := PRIV_NONE\<rparr>) w)
              in emit (Event ''privilege'' [MI cn, MI old, MI PRIV_NONE]) (send_currentmaster w))"

definition set_player_privilege :: "'a smode \<Rightarrow> int \<Rightarrow> int \<Rightarrow> bool \<Rightarrow> 'a world_scheme \<Rightarrow> 'a world_scheme" where
  "set_player_privilege sm cn priv public_priv w =
     (let ci = client cn w
      in if ci_privilege ci = priv \<and> ci_hide_privilege ci \<noteq> public_priv then w
         else let public_priv = (\<not> ci_spy ci \<and> public_priv);
                  w = (if priv = PRIV_NONE then unset_player_privilege sm cn w else w); old = ci_privilege (client cn w);
                  w = upd_client cn (\<lambda>ci. ci\<lparr>ci_privilege := priv, ci_hide_privilege := \<not> public_priv\<rparr>) w;
                  esc = CHR 0x0C; col = (\<lambda>c t. [esc] @ ''s'' @ [esc] @ c @ t @ [esc] @ ''r'');
                  change = (if old = priv then col ''2'' ''changed'' else if old < priv then col ''2'' ''raised'' else col ''0'' ''lowered'');
                  w = sendprivtext cn (''The server has '' @ change @ '' your privilege to '' @ (if public_priv then [] else col ''4'' ''invisible'' @ '' '') @ privname priv @ ''.'') w
              in emit (Event ''privilege'' [MI cn, MI old, MI priv]) (send_currentmaster w))"

definition msg_setmaster :: "'a smode \<Rightarrow> int \<Rightarrow> int \<Rightarrow> int \<Rightarrow> cstr \<Rightarrow> 'a world_scheme \<Rightarrow> 'a world_scheme" where
  "msg_setmaster sm me mn val text w =
     (let ci = client me w
      in if mn = me then setmaster me (val \<noteq> 0) text w
         else if ci_privilege ci = 0 \<and> \<not> ci_local ci then w
         else case getclientinfo mn w of
                None \<Rightarrow> w
              | Some mi \<Rightarrow>
                  if \<not> ci_connected mi \<or> (\<not> ci_local ci \<and> ci_privilege mi \<ge> ci_privilege ci) \<or> (val \<noteq> 0 \<and> ci_privilege mi \<noteq> 0) then w
                  else set_player_privilege sm (ci_clientnum mi) PRIV_MASTER True w)"

text \<open>\<^verbatim>\<open>trykick\<close> as the parser calls it, without the name of a key.\<close>

definition trykick :: "int \<Rightarrow> int \<Rightarrow> cstr \<Rightarrow> 'a world_scheme \<Rightarrow> 'a world_scheme" where
  "trykick me victim reason w =
     (case getclientinfo victim w of
        None \<Rightarrow> w
      | Some vi \<Rightarrow>
          let ci = client me w
          in if ci_privilege ci = 0 \<or> ci_clientnum vi = me \<or> ci_spy vi \<or> ci_privilege vi \<ge> PRIV_ADMIN then w
             else let (refused, w) = (if ci_privilege ci < PRIV_ADMIN then limit_msg LKick LKick ''kick'' me w else (False, w))
                  in if refused then w
                     else let w = servmsg (colorname ci w @ '' kicked '' @ colorname vi w @ (if reason = [] then [] else '' because: '' @ reason)) w
                          in emit (Event ''kick_request'' [MI me, MS (utf8 w (ci_name ci)), MI 14400, MI victim, MS (utf8 w reason)]) w)"

definition tryauth :: "int \<Rightarrow> cstr \<Rightarrow> cstr \<Rightarrow> int \<Rightarrow> 'a world_scheme \<Rightarrow> 'a world_scheme" where
  "tryauth cn user domain kickcn w = emit (Event ''authreq'' [MI cn, MS (utf8 w user), MS domain, MI kickcn]) w"

text \<open>\<^verbatim>\<open>authkickvictim\<close> is never set, so no kick follows.\<close>

definition answerchallenge :: "int \<Rightarrow> int \<Rightarrow> cstr \<Rightarrow> 'a world_scheme \<Rightarrow> 'a world_scheme" where
  "answerchallenge cn n ans w =
     emit (Event ''authrep'' [MI cn, MI (n mod 4294967296), MS (takeWhile (\<lambda>c. c \<in> set ''0123456789abcdefABCDEF'') ans)]) w"

subsection \<open>Demos and maps\<close>

definition listdemos :: "int \<Rightarrow> 'a world_scheme \<Rightarrow> 'a world_scheme" where
  "listdemos cn w =
     emit (sendf cn 1 ([MI N_SENDDEMOLIST, MI (int (length (demos (conf w))))] @ map (\<lambda>d. MS (fst d)) (demos (conf w)))) w"

definition cleardemos :: "int \<Rightarrow> 'a world_scheme \<Rightarrow> 'a world_scheme" where
  "cleardemos n w =
     (if demorecord w then w
      else if n = 0 then servmsg ''cleared all demos'' (w\<lparr>conf := (conf w)\<lparr>demos := []\<rparr>\<rparr>)
      else if inrange (n - 1) (demos (conf w))
      then servmsg (''cleared demo '' @ decimal (nat n))
             (w\<lparr>conf := (conf w)\<lparr>demos := take (nat (n - 1)) (demos (conf w)) @ drop (nat n) (demos (conf w))\<rparr>\<rparr>)
      else w)"

text \<open>What is left to the library here is when the packet is sent: then \<^verbatim>\<open>freegetdemo\<close> and \<^verbatim>\<open>freegetmap\<close> forget it.\<close>

definition senddemo :: "int \<Rightarrow> int \<Rightarrow> int \<Rightarrow> 'a world_scheme \<Rightarrow> 'a world_scheme" where
  "senddemo cn num tag w =
     (let n = (if num = 0 then int (length (demos (conf w))) else num)
      in if ci_getdemo (client cn w) \<or> \<not> inrange (n - 1) (demos (conf w)) then w
         else upd_client cn (\<lambda>ci. ci\<lparr>ci_getdemo := peer_accepts (net w) cn\<rparr>)
                (emit (sendf cn 2 [MI N_SENDDEMO, MI tag, MB (snd (demos (conf w) ! nat (n - 1)))]) w))"

text \<open>The bytes of the map follow its message; what the file holds is not modelled.\<close>

definition msg_getmap :: "int \<Rightarrow> int \<Rightarrow> 'a world_scheme \<Rightarrow> 'a world_scheme" where
  "msg_getmap sender me w =
     (if \<not> mapdata (conf w) then emit (sendf sender 1 [MI N_SERVMSG, MS ''no map to send'']) w
      else if ci_getmap (client me w) then emit (sendf sender 1 [MI N_SERVMSG, MS ''already sending map'']) w
      else let w = emit (sendf sender 2 [MI N_SENDMAP]) (servmsg (''['' @ colorname (client me w) w @ '' is getting the map]'') w)
           in upd_client me (\<lambda>ci. ci\<lparr>ci_getmap := peer_accepts (net w) sender, ci_needclipboard := (if totalmillis w \<noteq> 0 then totalmillis w else 1)\<rparr>) w)"

definition smode_newmap :: "'a smode \<Rightarrow> 'a world_scheme \<Rightarrow> 'a world_scheme" where
  "smode_newmap sm w = (case sm of Some m \<Rightarrow> sm_newmap m w | None \<Rightarrow> w)"

text \<open>The result says whether the parser returns.\<close>

definition msg_newmap :: "'a smode \<Rightarrow> int \<Rightarrow> int \<Rightarrow> uchar list \<Rightarrow> 'a world_scheme \<Rightarrow> bool \<times> 'a world_scheme" where
  "msg_newmap sm me sz raw w =
     (if \<not> can_play (client me w) then (False, w)
      else let (refused, w) = limit_msg LNewmap LNewmap ''map change'' me w
           in if refused then (False, w)
              else if editpacket_hook w me then (True, w)
              else let w = (if sz \<ge> 0 then smode_newmap sm ((resetitems (w\<lparr>smapname := []\<rparr>))\<lparr>notgotitems := False\<rparr>) else w)
                   in (False, queue me raw w))"

subsection \<open>The clipboard\<close>

definition cleanclipboard :: "bool \<Rightarrow> clientinfo \<Rightarrow> clientinfo" where
  "cleanclipboard full ci = ci\<lparr>ci_clipboard := None, ci_lastclipboard := (if full then 0 else ci_lastclipboard ci)\<rparr>"

definition copy_clipboard :: "int \<Rightarrow> 'a world_scheme \<Rightarrow> 'a world_scheme" where
  "copy_clipboard me w = upd_client me (\<lambda>ci. (cleanclipboard True ci)\<lparr>ci_lastclipboard := (if totalmillis w \<noteq> 0 then totalmillis w else 1)\<rparr>) w"

definition sendclipboard :: "int \<Rightarrow> 'a world_scheme \<Rightarrow> 'a world_scheme option" where
  "sendclipboard me w =
     (let ci = client me w; es = map ci_clientnum (filter (\<lambda>e. ci_clientnum e \<noteq> me \<and> ci_needclipboard e - ci_lastclipboard ci \<ge> 0) (clients w))
      in case ci_clipboard ci of
           None \<Rightarrow> Some w
         | Some bs \<Rightarrow>
             if ci_lastclipboard ci = 0 \<or> editpacket_hook w me \<or> es = [] then Some w
             else do { (flush, w) \<leftarrow> sendpackets True w; Some (fold (\<lambda>n. emit (sendf n 1 [MB bs])) es w) })"

text \<open>A packet that is shorter than it says leaves the rest of the clipboard as the memory was.\<close>

definition msg_clipboard :: "int \<Rightarrow> uchar databuf \<Rightarrow> 'a world_scheme \<Rightarrow> uchar databuf \<times> 'a world_scheme" where
  "msg_clipboard me p w =
     (let (unpacklen, p) = geti p; (packlen, p) = geti p; w = upd_client me (cleanclipboard False) w; skip = (\<lambda>p. if packlen > 0 then snd (db_subbuf packlen p) else p)
      in if gs_state (cstate me w) = CS_SPECTATOR then (skip p, w)
         else let bad = (packlen \<le> 0 \<or> packlen > 65536 \<or> unpacklen \<le> 0); p = (if bad then skip p else p);
                  (unpacklen, packlen) = (if bad then (0, 0) else (unpacklen, packlen));
                  (bs, _, p) = (if packlen > 0 then db_get_n packlen p else ([], 0, p));
                  bs = bs @ drop (length bs) (take (nat packlen) (fresh_memory (conf w) (nat packlen)));
                  clip = concat (map marg_bytes [MI N_CLIPBOARD, MI me, MI unpacklen, MI packlen]) @ bs
              in (p, upd_client me (\<lambda>ci. ci\<lparr>ci_clipboard := Some clip\<rparr>) w))"

subsection \<open>The loop over a packet\<close>

definition text_types :: "int list" where "text_types = [N_TEXT, N_SAYTEAM]"

definition parse_text :: "int \<Rightarrow> int option \<Rightarrow> int \<Rightarrow> uchar databuf \<Rightarrow> 'a world_scheme \<Rightarrow> 'a world_scheme outcome" where
  "parse_text me cq t p w =
     (let (text, p) = gettext p; text = filtertext True True (MAXTRANS - 1) text
      in if t = N_TEXT
         then let (tell, w) = msg_text me text w
              in case cq of
                   None \<Rightarrow> Next p cq w
                 | Some q \<Rightarrow> if \<not> tell then Next p cq w
                             else if dangling cq w then Fault ''use after free'' w
                             else Next p cq (queue q (text_bytes N_TEXT text) w)
         else case cq of
                None \<Rightarrow> Next p cq w
              | Some q \<Rightarrow> if (gs_state (cstate me w) = CS_SPECTATOR \<and> ci_privilege (client me w) = 0) \<or> \<not> m_teammode (gamemode w) then Next p cq w
                          else if dangling cq w then Fault ''use after free'' w
                          else Next p cq (msg_sayteam me q text w))"

text \<open>The messages that may change the map.\<close>

definition vote_types :: "int list" where "vote_types = [N_MAPVOTE, N_MAPCHANGE]"

definition parse_vote :: "'a modetable \<Rightarrow> int \<Rightarrow> int \<Rightarrow> int \<Rightarrow> uchar databuf \<Rightarrow> 'a world_scheme \<Rightarrow> uchar databuf \<times> 'a world_scheme option" where
  "parse_vote modes sender me t p w =
     (let (text, p) = gettext p; (reqmode, p) = geti p
      in (p, if t = N_MAPVOTE then msg_mapvote modes sender me text reqmode w
             else if \<not> mapreload w then Some w
             else vote modes (validmapname (filtertext False False (MAXTRANS - 1) text))
               (if \<not> ci_local (client me w) \<and> \<not> m_mp reqmode then 0 else reqmode) sender w))"

definition demo_types :: "int list" where
  "demo_types = [N_RECORDDEMO, N_STOPDEMO, N_CLEARDEMOS, N_LISTDEMOS, N_GETDEMO, N_GETMAP]"

definition parse_demo :: "int \<Rightarrow> int \<Rightarrow> int \<Rightarrow> uchar databuf \<Rightarrow> 'a world_scheme \<Rightarrow> uchar databuf \<times> 'a world_scheme" where
  "parse_demo sender me t p w =
     (let ci = client me w; admin = (ci_privilege ci \<ge> PRIV_ADMIN \<or> ci_local ci)
      in if t = N_RECORDDEMO
         then let (n, p) = geti p
              in (p, if admin then servmsg (''demo recording is '' @ (if n \<noteq> 0 then ''enabled'' else ''disabled'') @ '' for next match'')
                       (w\<lparr>conf := (conf w)\<lparr>demonextmatch := (n \<noteq> 0)\<rparr>\<rparr>) else w)
         else if t = N_STOPDEMO then (p, if admin then stopdemo w else w)
         else if t = N_CLEARDEMOS then let (n, p) = geti p in (p, if admin then cleardemos n w else w)
         else if t = N_LISTDEMOS then (p, if can_play ci then listdemos sender w else w)
         else if t = N_GETDEMO then let (n, p) = geti p; (tag, p) = geti p in (p, if can_play ci then senddemo me n tag w else w)
         else (p, msg_getmap sender me w))"

definition person_types :: "int list" where
  "person_types = [N_SWITCHNAME, N_SWITCHTEAM, N_MASTERMODE, N_KICK, N_SETTEAM, N_SETMASTER, N_AUTHTRY, N_AUTHKICK, N_AUTHANS]"

definition parse_person :: "'a smode \<Rightarrow> int \<Rightarrow> int \<Rightarrow> int \<Rightarrow> uchar databuf \<Rightarrow> 'a world_scheme \<Rightarrow> uchar databuf \<times> 'a world_scheme" where
  "parse_person sm sender me t p w =
     (if t = N_SWITCHNAME then let (text, p) = gettext p in (p, msg_switchname me text w)
      else if t = N_SWITCHTEAM then let (text, p) = gettext p in (p, msg_switchteam sm sender me text w)
      else if t = N_MASTERMODE then let (mm, p) = geti p in (p, msg_mastermode sender me mm w)
      else if t = N_KICK then let (victim, p) = geti p; (text, p) = gettext p in (p, trykick me victim (filtertext False False (MAXTRANS - 1) text) w)
      else if t = N_SETTEAM then let (who, p) = geti p; (text, p) = gettext p in (p, msg_setteam sm sender me who text w)
      else if t = N_SETMASTER then let (mn, p) = geti p; (val, p) = geti p; (text, p) = gettext p in (p, msg_setmaster sm me mn val text w)
      else let (desc, p) = gettext_n MAXSTRLEN p
           in if t = N_AUTHANS then let (n, p) = geti p; (ans, p) = gettext_n MAXSTRLEN p in (p, answerchallenge me n ans w)
              else let (name, p) = gettext_n MAXSTRLEN p
                   in if t = N_AUTHTRY then (p, tryauth me name desc (- 1) w)
                      else let (victim, p) = geti p; (_, p) = gettext p in (p, tryauth me name desc victim w))"

text \<open>The rest edits: a new map, and the clipboard.\<close>

definition parse_other :: "'a modetable \<Rightarrow> int \<Rightarrow> int \<Rightarrow> int \<Rightarrow> int option \<Rightarrow> int \<Rightarrow> uchar databuf \<Rightarrow> 'a world_scheme \<Rightarrow> 'a world_scheme outcome option" where
  "parse_other modes sender me curmsg cq t p w =
     (if t \<in> set text_types then Some (parse_text me cq t p w)
      else if t \<in> set vote_types then let (p, r) = parse_vote modes sender me t p w in map_option (Next p cq) r
      else if t \<in> set demo_types then let (p, w) = parse_demo sender me t p w in Some (Next p cq w)
      else if t \<in> set person_types then let (p, w) = parse_person (modes (gamemode w)) sender me t p w in Some (Next p cq w)
      else if t = N_NEWMAP
      then let (sz, p) = geti p; (ret, w) = msg_newmap (modes (gamemode w)) me sz (bytes_from curmsg p) w
           in Some (if ret then Stop w else Next p cq w)
      else if t = N_COPY then Some (parse_generic sender me curmsg cq t p (copy_clipboard me w))
      else if t = N_PASTE
      then do {
        w \<leftarrow> (if gs_state (cstate me w) \<noteq> CS_SPECTATOR then sendclipboard me w else Some w);
        Some (parse_generic sender me curmsg cq t p w)
      }
      else let (p, w) = msg_clipboard me p w in Some (Next p cq w))"

text \<open>A message may throw its sender out; the function returns then.\<close>

fun carry_out :: "'a modetable \<Rightarrow> 'a world_scheme outcome \<Rightarrow> 'a world_scheme outcome" where
  "carry_out modes (Kick n reason w) = Stop (disconnect_client (modes (gamemode w)) n reason w)"
| "carry_out modes r = r"

text \<open>A vote may change the mode in the middle of a packet; the messages behind it are handled by the new one.\<close>

partial_function (option) parse_all :: "'a modetable \<Rightarrow> (int \<Rightarrow> 'a world_scheme modemsgs) \<Rightarrow> int \<Rightarrow> int \<Rightarrow> int option \<Rightarrow> uchar databuf \<Rightarrow> 'a world_scheme
    \<Rightarrow> 'a world_scheme outcome option" where
  "parse_all modes msgs sender me cq p w =
     Option.bind (parse_loop (modes (gamemode w)) (msgs (gamemode w)) sender me cq p w) (\<lambda>r. case r of
       Other t curmsg p cq w \<Rightarrow>
         Option.bind (parse_other modes sender me curmsg cq t p w) (\<lambda>r. case r of
           Next p cq w \<Rightarrow> parse_all modes msgs sender me cq p w | _ \<Rightarrow> Some (carry_out modes r))
     | _ \<Rightarrow> Some (carry_out modes r))"

declare parse_all.simps [code]

subsection \<open>Clients that connect\<close>

text \<open>\<^verbatim>\<open>checktype\<close> for a client that is not in the game yet.\<close>

definition connectfilter :: "int \<Rightarrow> int" where
  "connectfilter t = (if t = N_CONNECT then 1 else if t = N_AUTHANS then 2 else if t = N_PING then 3 else 0)"

definition checktype_new :: "int \<Rightarrow> int \<Rightarrow> 'a world_scheme \<Rightarrow> int \<times> 'a world_scheme" where
  "checktype_new t cn w =
     (let ci = client cn w
      in if ci_connected ci then checktype t cn w
         else (if connectfilter t = 1 then (if ci_connectauth ci = 0 then t else - 1)
               else if connectfilter t = 2 then (if ci_connectauth ci \<noteq> 0 then t else - 1)
               else if connectfilter t = 3 then t else - 1, w))"

text \<open>The outcome is that of a message, where \<open>Next\<close> has the number that the client has then: it changes when the client
  becomes a spy.\<close>

definition msg_connect :: "'a modetable \<Rightarrow> int \<Rightarrow> int \<Rightarrow> uchar databuf \<Rightarrow> 'a world_scheme \<Rightarrow> 'a world_scheme outcome option" where
  "msg_connect modes sender cn p w =
     (let (text, p) = gettext p; (model, p) = geti p; name = unnamed (filtertext False False MAXNAMELEN text);
          w = upd_client cn (\<lambda>ci. ci\<lparr>ci_name := name, ci_playermodel := model, ci_state := (ci_state ci)\<lparr>gs_lastdeath := - 5000\<rparr>\<rparr>) w;
          (pwd, p) = gettext_n MAXSTRLEN p; (authdesc, p) = gettext_n MAXSTRLEN p; (authname, p) = gettext_n MAXSTRLEN p
      in case allowconnect cn pwd w of
           None \<Rightarrow> Some (Fault ''use after free'' w)
         | Some (disc, cn, w) \<Rightarrow>
             if disc = DISC_NONE then do { w \<leftarrow> connected modes cn w; Some (Next p (Some cn) w) }
             else if serverauth (conf w) = [] \<or> serverauth (conf w) \<noteq> authdesc
             then Some (Stop (disconnect_client (modes (gamemode w)) sender disc w))
             else Some (Next p (Some cn) (upd_client cn (\<lambda>ci. ci\<lparr>ci_connectauth := disc\<rparr>) (tryauth cn authname authdesc (- 1) w))))"

definition new_msg :: "'a modetable \<Rightarrow> int \<Rightarrow> int \<Rightarrow> int \<Rightarrow> uchar databuf \<Rightarrow> 'a world_scheme \<Rightarrow> 'a world_scheme outcome option" where
  "new_msg modes sender cn t p w =
     (if t = N_CONNECT then msg_connect modes sender cn p w
      else if t = N_AUTHANS
      then let (_, p) = gettext_n MAXSTRLEN p; (n, p) = geti p; (ans, p) = gettext_n MAXSTRLEN p in Some (Next p (Some cn) (answerchallenge cn n ans w))
      else if t = N_PING then let (_, p) = geti p in Some (Next p (Some cn) w)
      else Some (Stop (disconnect_client (modes (gamemode w)) sender DISC_MSGERR w)))"

partial_function (option) parse_new :: "'a modetable \<Rightarrow> int \<Rightarrow> int \<Rightarrow> uchar databuf \<Rightarrow> 'a world_scheme \<Rightarrow> 'a world_scheme outcome option" where
  "parse_new modes sender cn p w =
     (if dlen p \<ge> dmaxlen p then Some (Stop w)
      else let (t, p) = geti p; (t, w) = checktype_new t cn w
           in Option.bind (new_msg modes sender cn t p w) (\<lambda>r. case r of
                Next p c w \<Rightarrow> (case c of Some cn \<Rightarrow> parse_new modes sender cn p w | None \<Rightarrow> Some (Stop w))
              | _ \<Rightarrow> Some r))"

declare parse_new.simps [code]

end
