(* ===== verification/Packetmodes.thy ===== *)
theory Packetmodes
  imports Consistency
begin

text \<open>
  The messages of the modes fulfil the contract \<open>packet_mode\<close>, so that what is shown of packets holds for a game of any
  mode: every packet is parsed to its end and leaves the tables of clients and bots consistent.
\<close>

subsection \<open>No mode\<close>

interpretation no_packets: packet_mode "None :: 'a smode" no_msgs
  by unfold_locales (simp_all add: no_msgs_def idle_msgs_def)

subsection \<open>Flags\<close>

lemma forward_getint [simp]: "forward p (snd (getint p))"
  using forward_geti' [of p] by (simp add: geti_def split_beta)

lemma forward_coord [simp]: "forward p (snd (get_coord p))"
  by (simp add: get_coord_def split_beta Let_def)

lemma fwd_map: "forward p q \<Longrightarrow> forward p (snd (getint q))" "forward p q \<Longrightarrow> forward p (snd (get_coord q))"
  by (erule forward_trans, simp)+

lemma lineup_ctf_fields [simp]:
  "lineup (c\<lparr>flags := a\<rparr>) = lineup c" "lineup (c\<lparr>ctf_scores := b\<rparr>) = lineup c" "lineup (c\<lparr>notgotflags := d\<rparr>) = lineup c" "lineup (c\<lparr>holdspawns := e\<rparr>) = lineup c"
  by (simp_all add: lineup_def)

lemma lineup_draw [simp]: "lineup (snd (draw n w)) = lineup w"
  by (rule lineup_frame) simp

lemma lineup_flag_ops [simp]:
  "lineup (upd_flag i g c) = lineup c" "lineup (deadflag i c) = lineup c" "lineup (bump i c) = lineup c" "lineup (returnflag i t c) = lineup c"
  "lineup (return_msg n i c) = lineup c" "lineup (dropflag ci d c) = lineup c"
  by (rule lineup_frame, simp)+

lemma seated_timetrial: "seated (ci\<lparr>ci_timetrial := t\<rparr>) = seated ci"
  by (rule seated_cong) (simp_all add: ident_def)

lemma lineup_spawnflag_draw [simp]: "lineup (snd (spawnflag_draw k cur n idx c)) = lineup c"
  by (induction k arbitrary: idx c) (simp_all add: split_beta Let_def)

lemma lineup_scoring [simp]:
  "lineup (record_timetrial n t c) = lineup c" "lineup (snd (addscore tm s c)) = lineup c" "lineup (spawnflag i c) = lineup c"
  "lineup (reset_msg i tm s c) = lineup c" "lineup (take_own n i tm c) = lineup c"
  by (simp_all add: record_timetrial_def addscore_def spawnflag_def reset_msg_def take_own_def ownflag_def lineup_client seated_timetrial
    split_beta Let_def)

lemma lineup_scoreflag [simp]: "lineup (scoreflag ci goal r c) = lineup c"
  by (simp add: scoreflag_def respawn_hold_def score_announce_def lineup_state split_beta Let_def)

lemma lineup_takeflag [simp]: "lineup (takeflag ci i v c) = lineup c"
  by (simp add: takeflag_def Let_def split: option.split)

lemma lineup_addflag [simp]: "lineup (snd (addflag i ofs tm t c)) = lineup c" "lineup (snd (addholdspawn ofs c)) = lineup c"
  by (simp_all add: addflag_def addholdspawn_def Let_def)

lemma lineup_holdspawns_loop [simp]: "lineup (setupholdspawns_loop k c) = lineup c"
  by (induction k arbitrary: c) (simp_all add: split_beta Let_def)

lemma lineup_parseflags_loop [simp]: "lineup (snd (parseflags_loop k i b p c)) = lineup c"
  by (induction k arbitrary: i p c) (simp_all add: split_beta Let_def)

lemma lineup_parseflags [simp]: "lineup (snd (parseflags b p c)) = lineup c"
  by (simp add: parseflags_def setupholdspawns_def split_beta Let_def)

text \<open>One entity of a list is a number and a place; the loops of the three modes read them alike.\<close>

abbreviation after_entity :: "uchar databuf \<Rightarrow> uchar databuf" where
  "after_entity p \<equiv> snd (get_coord (snd (get_coord (snd (get_coord (snd (getint p)))))))"

lemma forward_entity: "forward p (after_entity p)"
  by (intro fwd_map forward_refl)

lemma forward_parseflags_loop: "forward p (fst (parseflags_loop k i b p c))"
proof (induction k arbitrary: i p c)
  case (Suc k)
  show ?case using forward_entity [of p] forward_trans [OF forward_entity [of p] Suc] by (simp add: split_beta Let_def)
qed simp

lemma forward_parseflags: "forward p (fst (parseflags b p c))"
  using forward_trans [OF forward_getint forward_parseflags_loop, of p] by (simp add: parseflags_def split_beta Let_def)

interpretation ctf_packets: packet_mode "Some ctfmode" ctf_msgs
proof unfold_locales
  fix t ci cq and p :: "uchar databuf" and w :: ctf
  show "forward p (fst (snd ctf_msgs t ci cq p w))"
    by (auto simp: ctf_msgs_def idle_msgs_def msg_takeflag_def msg_initflags_def forward_parseflags split_beta Let_def intro!: fwd_map)
  show "lineup (snd (snd ctf_msgs t ci cq p w)) = lineup w"
    by (simp add: ctf_msgs_def idle_msgs_def msg_trydropflag_def msg_takeflag_def msg_initflags_def split_beta Let_def split: option.split)
qed

subsection \<open>Bases\<close>

lemma lineup_cap_fields [simp]: "lineup (c\<lparr>bases := a\<rparr>) = lineup c" "lineup (c\<lparr>notgotbases := b\<rparr>) = lineup c"
  by (simp_all add: lineup_def)

lemma lineup_addbase [simp]: "lineup (addbase t ofs c) = lineup c"
  by (simp add: addbase_def split_beta Let_def split: option.split)

lemma lineup_base_ops [simp]:
  "lineup (upd_base i g c) = lineup c" "lineup (sendbaseinfo i c) = lineup c" "lineup (cap_entergame ci c) = lineup c"
  by (rule lineup_frame, simp)+

lemma lineup_sendbases [simp]: "lineup (sendbases c) = lineup c" "lineup (entergame_all c) = lineup c"
  by (simp_all add: sendbases_def entergame_all_def lineup_fold)

lemma lineup_replenish_from [simp]: "lineup (replenish_from ci is c) = lineup c"
  by (induction "is" arbitrary: c) (simp_all add: lineup_state addammo_def Let_def)

lemma lineup_parsebases_loop [simp]: "lineup (snd (parsebases_loop k b p c)) = lineup c"
  by (induction k arbitrary: p c) (simp_all add: split_beta Let_def)

lemma forward_parsebases_loop: "forward p (fst (parsebases_loop k b p c))"
proof (induction k arbitrary: p c)
  case (Suc k)
  show ?case using forward_entity [of p] forward_trans [OF forward_entity [of p] Suc] by (simp add: split_beta Let_def)
qed simp

interpretation capture_packets: packet_mode "Some capturemode" capture_msgs
proof unfold_locales
  fix t ci cq and p :: "uchar databuf" and w :: capture
  show "forward p (fst (snd capture_msgs t ci cq p w))"
    using forward_trans [OF forward_getint forward_parsebases_loop, of p]
    by (simp add: capture_msgs_def idle_msgs_def msg_bases_def parsebases_def split_beta Let_def)
  show "lineup (snd (snd capture_msgs t ci cq p w)) = lineup w"
    by (simp add: capture_msgs_def idle_msgs_def msg_bases_def parsebases_def msg_repammo_def replenishammo_def split_beta Let_def
      split: option.split)
qed

subsection \<open>Tokens\<close>

lemma lineup_col_fields [simp]:
  "lineup (c\<lparr>col_bases := a\<rparr>) = lineup c" "lineup (c\<lparr>col_notgotbases := b\<rparr>) = lineup c" "lineup (c\<lparr>col_scores := d\<rparr>) = lineup c"
  by (simp_all add: lineup_def)

lemma lineup_droptoken [simp]: "lineup (snd (droptoken ofs yaw team t d c)) = lineup c"
  by (rule lineup_frame) simp

lemma lineup_deposit [simp]: "lineup (deposit_own ci b team c) = lineup c" "lineup (steal_token ci b team c) = lineup c"
  by (simp_all add: deposit_own_def steal_token_def col_addscore_def lineup_state split_beta Let_def)

lemma lineup_tokens [simp]: "lineup (deposittokens ci b c) = lineup c" "lineup (taketoken ci t c) = lineup c"
  by (simp_all add: deposittokens_def taketoken_def lineup_state Let_def split: option.split)

lemma lineup_col_parsebases_loop [simp]: "lineup (snd (col_parsebases_loop k i b p c)) = lineup c"
  by (induction k arbitrary: i p c) (simp_all add: col_addbase_def split_beta Let_def)

lemma forward_col_parsebases_loop: "forward p (fst (col_parsebases_loop k i b p c))"
proof (induction k arbitrary: i p c)
  case (Suc k)
  show ?case using forward_entity [of p] forward_trans [OF forward_entity [of p] Suc] by (simp add: split_beta Let_def)
qed simp

interpretation collect_packets: packet_mode "Some collectmode" collect_msgs
proof unfold_locales
  fix t ci cq and p :: "uchar databuf" and w :: collect
  show "forward p (fst (snd collect_msgs t ci cq p w))"
    using forward_trans [OF forward_getint forward_col_parsebases_loop, of p]
    by (simp add: collect_msgs_def idle_msgs_def msg_inittokens_def col_parsebases_def msg_taketoken_def msg_deposittokens_def split_beta Let_def)
  show "lineup (snd (snd collect_msgs t ci cq p w)) = lineup w"
    by (simp add: collect_msgs_def idle_msgs_def msg_inittokens_def col_parsebases_def msg_taketoken_def msg_deposittokens_def split_beta Let_def
      split: option.split)
qed

subsection \<open>Every packet\<close>

text \<open>What the messages up to the first one of the theory \<open>Chat\<close> may do to a game: the loop over them ends, not in the middle of a message, the mode is the one of
  before, and the tables of clients and bots are consistent. There may be no result only in a tactics game, where two guns are drawn until
  they differ.\<close>

fun ends_well :: "'a world_scheme \<Rightarrow> 'a world_scheme outcome option \<Rightarrow> bool" where
  "ends_well w (Some (Next p cq v)) = False"
| "ends_well w (Some r) = (gamemode (outcome_world r) = gamemode w \<and> bots_ok (outcome_world r))"
| "ends_well w None = m_tactics (gamemode w)"

lemma ends_wellI:
  assumes "x = None \<and> m_tactics (gamemode w) \<or> (\<exists>r. x = Some r \<and> kept w (outcome_world r) \<and> (\<forall>q c v. r \<noteq> Next q c v))" and "bots_ok w"
  shows "ends_well w x"
proof (cases x)
  case (Some r)
  then show ?thesis using assms by (cases r) (simp_all add: kept_def)
qed (use assms in simp)

text \<open>Whatever bytes a client sends, in a game without flags, bases and tokens as in each of the three modes that have them, and
  whoever the sender and the player it speaks for are, \<open>parse_loop\<close> ends: at the end of the packet, at a message that
  ends it, or at the first message of the theory \<open>Chat\<close>. Up to there the mode of the game is the one of before and the tables of
  clients and bots stay consistent (\<open>bots_ok\<close>). There may be no result only in a game of
  tactics, where the choice of two different guns repeats a draw.\<close>

lemma packets_keep_tables:
  fixes w :: "'a world_scheme" and f :: ctf and b :: capture and t :: collect
  assumes "dlen p \<le> dmaxlen p" and "bots_ok w" and "bots_ok f" and "bots_ok b" and "bots_ok t"
  shows "ends_well w (parse_loop None no_msgs sender me cq p w) \<and> ends_well f (parse_loop (Some ctfmode) ctf_msgs sender me cq p f)
    \<and> ends_well b (parse_loop (Some capturemode) capture_msgs sender me cq p b)
    \<and> ends_well t (parse_loop (Some collectmode) collect_msgs sender me cq p t)"
  by (intro conjI ends_wellI assms no_packets.parse_loop_spec ctf_packets.parse_loop_spec capture_packets.parse_loop_spec
    collect_packets.parse_loop_spec)

end
