(* ===== verification/Server.thy ===== *)
theory Server
  imports Chat Packetmodes
begin

text \<open>
  What the steps of the theory \<open>Session\<close> keep: the tables of clients and bots agree with each other while clients come and go, maps
  change and games end. The locale \<open>game_modes\<close> is what the server asks of its modes for this, and \<open>game_packets\<close> adds what it
  asks of their messages; the theory \<open>Reachable\<close> has their instances and puts all steps together.
\<close>

subsection \<open>Seats\<close>

definition seating :: "'a world_scheme \<Rightarrow> seat list \<times> seat list \<times> int option list" where
  "seating w = (map seated (clients w), map seated (connects w), bots w)"

lemma lineup_seating: "lineup w' = lineup w \<Longrightarrow> seating w' = seating w"
  by (simp add: lineup_def seating_def)

lemma seating_lineup: "lineup w = (gamemode w, seating w)"
  by (simp add: lineup_def seating_def)

lemma seating_bots_ok:
  fixes w w' :: "'a world_scheme"
  assumes "seating w' = seating w"
  shows "bots_ok w' = bots_ok w"
proof -
  have "lineup (w'\<lparr>gamemode := gamemode w\<rparr>) = lineup w" using assms by (simp add: lineup_def seating_def)
  from lineup_bots_ok [OF this] show ?thesis by (simp add: bots_ok_def)
qed

definition safe :: "'a world_scheme \<Rightarrow> 'a world_scheme \<Rightarrow> bool" where "safe w w' \<longleftrightarrow> (bots_ok w \<longrightarrow> bots_ok w')"

lemma safe_refl [simp]: "safe w w"
  by (simp add: safe_def)

lemma safe_trans [trans]: "safe w v \<Longrightarrow> safe v u \<Longrightarrow> safe w u"
  by (simp add: safe_def)

lemma safe_seating: "seating w' = seating w \<Longrightarrow> safe w w'"
  using seating_bots_ok [of w' w] by (simp add: safe_def)

lemma safe_kept: "kept w w' \<Longrightarrow> safe w w'"
  by (simp add: kept_def safe_def)

lemma safe_then: "safe w v \<Longrightarrow> seating u = seating v \<Longrightarrow> safe w u"
  using safe_trans safe_seating by blast

lemma safe_first: "safe v u \<Longrightarrow> seating v = seating w \<Longrightarrow> safe w u"
  using safe_trans [of w v u] safe_seating [of v w] by simp

lemma seating_emit [simp]: "seating (emit e w) = seating w"
  by (simp add: seating_def)

lemma seating_client: "(\<And>ci. seated (f ci) = seated ci) \<Longrightarrow> seating (upd_client n f w) = seating w"
  by (rule lineup_seating) (rule lineup_client)

lemma seating_state: "(\<And>s. aitype (f s) = aitype s) \<Longrightarrow> seating (upd_state n f w) = seating w"
  by (rule lineup_seating) (rule lineup_state)

lemma seating_fold: "(\<And>x w. seating (f x w) = seating w) \<Longrightarrow> seating (fold f xs w) = seating w"
  by (induction xs arbitrary: w) simp_all

lemma seating_fields [simp]:
  "seating (w\<lparr>net := a\<rparr>) = seating w" "seating (w\<lparr>conf := b\<rparr>) = seating w" "seating (w\<lparr>demorecord := c\<rparr>) = seating w"
  "seating (w\<lparr>disc_record := d\<rparr>) = seating w" "seating (w\<lparr>maxclients := e\<rparr>) = seating w" "seating (w\<lparr>reservedslots := f\<rparr>) = seating w"
  "seating (w\<lparr>reservedslots_use := g\<rparr>) = seating w" "seating (w\<lparr>dorefresh := h\<rparr>) = seating w" "seating (w\<lparr>mapreload := i\<rparr>) = seating w"
  "seating (w\<lparr>gamemode := j\<rparr>) = seating w" "seating (w\<lparr>gamemillis := k\<rparr>) = seating w" "seating (w\<lparr>gamelimit := l\<rparr>) = seating w"
  "seating (w\<lparr>interm := m\<rparr>) = seating w" "seating (w\<lparr>nextexceeded := n\<rparr>) = seating w" "seating (w\<lparr>smapname := o'\<rparr>) = seating w"
  "seating (w\<lparr>scores := p\<rparr>) = seating w" "seating (w\<lparr>teaminfos := q\<rparr>) = seating w" "seating (w\<lparr>next_timeupdate := r\<rparr>) = seating w"
  "seating (w\<lparr>next_gamemode := s\<rparr>) = seating w" "seating (w\<lparr>next_mapname := t\<rparr>) = seating w" "seating (w\<lparr>next_gametime := u\<rparr>) = seating w"
  "seating (w\<lparr>spectator_delay := v\<rparr>) = seating w" "seating (w\<lparr>shouldstep := x\<rparr>) = seating w" "seating (w\<lparr>nonlocalclients := y\<rparr>) = seating w"
  "seating (w\<lparr>rngst := z\<rparr>) = seating w" "seating (w\<lparr>sents := a'\<rparr>) = seating w" "seating (w\<lparr>ments := b'\<rparr>) = seating w" "seating (w\<lparr>notgotitems := c'\<rparr>) = seating w"
  "seating (w\<lparr>mastermode := m'\<rparr>) = seating w" "seating (w\<lparr>outbox := d'\<rparr>) = seating w" "seating (w\<lparr>next_botid := e'\<rparr>) = seating w" "seating (w\<lparr>botbalance := f'\<rparr>) = seating w"
  "seating (w\<lparr>gamepaused := g'\<rparr>) = seating w" "seating (w\<lparr>pausegame_owner := h'\<rparr>) = seating w" "seating (w\<lparr>gamespeed := i'\<rparr>) = seating w"
  by (simp_all add: seating_def)

lemma seated_more [simp]:
  "seated (ci\<lparr>ci_team := a\<rparr>) = seated ci" "seated (ci\<lparr>ci_mapvote := b\<rparr>) = seated ci" "seated (ci\<lparr>ci_modevote := c\<rparr>) = seated ci"
  "seated (ci\<lparr>ci_privilege := d\<rparr>) = seated ci" "seated (ci\<lparr>ci_using_reservedslot := e\<rparr>) = seated ci" "seated (ci\<lparr>ci_wsdata := f\<rparr>) = seated ci"
  "seated (ci\<lparr>ci_wslen := g\<rparr>) = seated ci" "seated (ci\<lparr>ci_connected := h\<rparr>) = seated ci" "seated (ci\<lparr>ci_needclipboard := i\<rparr>) = seated ci"
  "seated (ci\<lparr>ci_rank := j\<rparr>) = seated ci" "seated (ci\<lparr>ci_name := k\<rparr>) = seated ci" "seated (ci\<lparr>ci_connectauth := l\<rparr>) = seated ci"
  "seated (ci\<lparr>ci_limits := m\<rparr>) = seated ci" "seated (ci\<lparr>ci_hide_privilege := n\<rparr>) = seated ci" "seated (ci\<lparr>ci_clipboard := o'\<rparr>) = seated ci"
  "seated (ci\<lparr>ci_lastclipboard := p\<rparr>) = seated ci" "seated (ci\<lparr>ci_getmap := q\<rparr>) = seated ci" "seated (ci\<lparr>ci_getdemo := r\<rparr>) = seated ci"
  by (rule seated_cong; simp add: ident_def)+

lemma seated_state: "aitype s = aitype (ci_state ci) \<Longrightarrow> seated (ci\<lparr>ci_state := s\<rparr>) = seated ci"
  by (rule seated_cong) (simp_all add: ident_def)

subsection \<open>Steps that keep all seats\<close>

lemma seating_send [simp]:
  "seating (servmsg s w) = seating w" "seating (writedemo c bs w) = seating w" "seating (recordpacket c bs w) = seating w"
  "seating (enddemorecord w) = seating w" "seating (stopdemo w) = seating w" "seating (sendinitclient n w) = seating w" "seating (sendservinfo n w) = seating w"
  "seating (sendresume n w) = seating w" "seating (snd (draw k w)) = seating w" "seating (update_mastermask w) = seating w"
  by (simp_all add: servmsg_def writedemo_def recordpacket_def write_delayed_broadcast_def enddemorecord_def stopdemo_def sendinitclient_def
    sendservinfo_def sendresume_def draw_def update_mastermask_def split_beta Let_def)

lemma seating_fold_snd: "(\<And>x bw. seating (snd (f x bw)) = seating (snd bw)) \<Longrightarrow> seating (snd (fold f xs bw)) = seating (snd bw)"
  by (induction xs arbitrary: bw) simp_all

lemma seating_send_part [simp]: "seating (snd (send_part chan rel bw)) = seating (snd bw)"
proof -
  have "seating (snd (send_client c r n ci bw)) = seating (snd bw)" for c r n ci and bw :: "wsbuilder \<times> 'a world_scheme"
    by (simp add: send_client_def Let_def split_beta)
  from seating_fold_snd [of "send_client _ _ _", OF this] show ?thesis by (simp add: send_part_def Let_def split_beta)
qed

lemma seating_mark [simp]: "seating (mark_own cn ofs b w) = seating w"
  by (simp add: mark_own_def seating_client Let_def)

lemma seating_adds [simp]:
  "seating (snd (addposition m cn bn bw)) = seating (snd bw)" "seating (snd (addmessages m cn bn bw)) = seating (snd bw)"
  by (simp_all add: addposition_def addmessages_def sendpositions_def sendmessages_def Let_def split_beta seating_client)

lemma seating_add_client: "(\<And>cn bn bw. seating (snd (add cn bn bw)) = seating (snd bw)) \<Longrightarrow> seating (snd (add_client add cn bw)) = seating (snd bw)"
  using seating_fold_snd [of "add cn"] by (simp add: add_client_def Let_def)

lemma seating_fill [simp]: "seating (snd (fill_block w)) = seating w"
  by (simp add: fill_block_def sendpositions_def sendmessages_def Let_def seating_fold_snd seating_add_client)

lemma seating_reset [simp]: "seating (reset_clients w) = seating w"
  by (simp add: seating_def reset_clients_def comp_def)

lemma seating_build [simp]: "seating (snd (buildworldstate w)) = seating w"
  using seating_fill [of "reset_clients w"] by (simp add: buildworldstate_def Let_def split_beta)

lemma seating_delayed [simp]: "seating (send_delayed w) = seating w"
  by (auto simp: send_delayed_def Let_def intro!: seating_fold split: list.split)

lemma seating_sendpackets: "sendpackets force w = Some (f, w') \<Longrightarrow> seating w' = seating w"
  using seating_build [of "send_delayed w"] by (auto simp: sendpackets_def Let_def split_beta split: if_splits)

subsection \<open>Clients that come and go\<close>

text \<open>The table when a client leaves the game, leaves the server, connects, and enters the game.\<close>

lemma human_number: "seat_ok bs s \<Longrightarrow> s_human s \<Longrightarrow> s_num s < MAXCLIENTS \<or> s_num s \<ge> MAXCLIENTS + MAXBOTS"
  by (auto simp: seat_ok_def)

lemma leaving_table:
  assumes ok: "table_ok cs ns bs" and human: "\<And>s. s \<in> set cs \<Longrightarrow> s_num s = n \<Longrightarrow> s_human s"
  shows "table_ok (filter (\<lambda>s. s_num s \<noteq> n) cs) (ns @ filter (\<lambda>s. s_num s = n) cs) bs"
proof (rule table_okI)
  have m: "mset (filter (\<lambda>s. s_num s \<noteq> n) cs @ ns @ filter (\<lambda>s. s_num s = n) cs) = mset (cs @ ns)"
    using multiset_partition [of "mset cs" "\<lambda>s. s_num s = n"] by simp
  show "distinct (map s_num (filter (\<lambda>s. s_num s \<noteq> n) cs @ ns @ filter (\<lambda>s. s_num s = n) cs))"
    using table_okD(1) [OF ok] arg_cong [OF m, of "image_mset s_num"] by (metis mset_map mset_eq_imp_distinct_iff)
  show "distinct (map s_slot (filter s_human (filter (\<lambda>s. s_num s \<noteq> n) cs @ ns @ filter (\<lambda>s. s_num s = n) cs)))"
    using table_okD(2) [OF ok] arg_cong [OF m, of "\<lambda>x. image_mset s_slot (filter_mset s_human x)"]
    by (metis mset_map mset_filter mset_eq_imp_distinct_iff)
next
  fix s assume "s \<in> set (filter (\<lambda>s. s_num s \<noteq> n) cs @ ns @ filter (\<lambda>s. s_num s = n) cs)"
  then have s: "s \<in> set (cs @ ns)" by auto
  show "seat_ok bs s" by (rule table_okD(4) [OF ok s])
  show "listing_ok (filter (\<lambda>s. s_num s \<noteq> n) cs) s" using table_okD(5) [OF ok s] human unfolding listing_ok_def set_filter by (metis (mono_tags, lifting) mem_Collect_eq)
next
  have "b \<in> s_num ` set (filter (\<lambda>s. s_num s \<noteq> n) cs)" if "i < length bs" "bs ! i = Some b" for i b
  proof -
    from table_okD(6) [OF ok] that have b: "b = MAXCLIENTS + int i" "b \<in> s_num ` set cs" by (auto simp: slots_ok_iff)
    from b(2) obtain s where s: "s \<in> set cs" "s_num s = b" by blast
    have "\<not> s_human s" using bot_number [OF ok _ that(1), of s] s b(1) by simp
    then have "s_num s \<noteq> n" using human [OF s(1)] by blast
    then show ?thesis using s by force
  qed
  then show "slots_ok (filter (\<lambda>s. s_num s \<noteq> n) cs) bs" using table_okD(6) [OF ok] by (simp add: slots_ok_iff)
qed (use table_okD(3) [OF ok] human in force)

lemma gone_table: "table_ok cs ns bs \<Longrightarrow> table_ok cs (filter P ns) bs"
  unfolding table_ok_def by (auto simp: distinct_map_filter intro: inj_on_subset)

lemma filter_number: "distinct (map f ns) \<Longrightarrow> s \<in> set ns \<Longrightarrow> filter (\<lambda>q. f q = f s) ns = [s]"
  by (induction ns) (auto simp: filter_empty_conv image_iff)

lemma entering_table:
  assumes ok: "table_ok cs ns bs" and s: "s \<in> set ns"
  shows "table_ok (cs @ [s]) (filter (\<lambda>q. s_num q \<noteq> s_num s) ns) bs"
proof (rule table_okI)
  have "distinct (map s_num ns)" using table_okD(1) [OF ok] by simp
  from arg_cong [OF filter_number [OF this s], of mset] multiset_partition [of "mset ns" "\<lambda>q. s_num q = s_num s"]
  have m: "mset ((cs @ [s]) @ filter (\<lambda>q. s_num q \<noteq> s_num s) ns) = mset (cs @ ns)" by simp
  show "distinct (map s_num ((cs @ [s]) @ filter (\<lambda>q. s_num q \<noteq> s_num s) ns))"
    using table_okD(1) [OF ok] arg_cong [OF m, of "image_mset s_num"] by (metis mset_map mset_eq_imp_distinct_iff)
  show "distinct (map s_slot (filter s_human ((cs @ [s]) @ filter (\<lambda>q. s_num q \<noteq> s_num s) ns)))"
    using table_okD(2) [OF ok] arg_cong [OF m, of "\<lambda>x. image_mset s_slot (filter_mset s_human x)"]
    by (metis mset_map mset_filter mset_eq_imp_distinct_iff)
next
  fix q assume "q \<in> set ((cs @ [s]) @ filter (\<lambda>q. s_num q \<noteq> s_num s) ns)"
  then have q: "q \<in> set (cs @ ns)" using s by auto
  show "seat_ok bs q" by (rule table_okD(4) [OF ok q])
  show "listing_ok (cs @ [s]) q" by (rule listing_mono [OF table_okD(5) [OF ok q] refl]) (use table_okD(5) [OF ok q] in \<open>auto simp: listing_ok_def\<close>)
next
  show "slots_ok (cs @ [s]) bs" using table_okD(6) [OF ok] by (fastforce simp: slots_ok_iff)
qed (use table_okD(3) [OF ok] in auto)

lemma arriving_table:
  assumes ok: "table_ok cs ns bs" and r: "s_human r" "s_num r = n" "s_slot r = n" "\<not> s_spy r" "s_bots r = []" and n: "0 \<le> n" "n < MAXCLIENTS"
    and new: "\<And>s. s \<in> set (cs @ ns) \<Longrightarrow> s_human s \<Longrightarrow> s_slot s \<noteq> n"
  shows "table_ok cs (ns @ [r]) bs"
proof (rule table_okI)
  have "s_num s \<noteq> n" if "s \<in> set (cs @ ns)" for s
    using table_okD(4) [OF ok that] new [OF that] n by (auto simp: seat_ok_def inrange_def split: if_splits)
  then show "distinct (map s_num (cs @ ns @ [r]))" using table_okD(1) [OF ok] r(2) by fastforce
  show "distinct (map s_slot (filter s_human (cs @ ns @ [r])))" using table_okD(2) [OF ok] new r by fastforce
  show "seat_ok bs s" "listing_ok cs s" if "s \<in> set (cs @ ns @ [r])" for s
    using that table_okD(4,5) [OF ok, of s] r n by (auto simp: seat_ok_def listing_ok_def)
qed (use table_okD(3,6) [OF ok] r(1) in auto)

subsection \<open>The tables of the server\<close>

lemma seated_sels [simp]:
  "s_num (seated ci) = ci_clientnum ci" "s_slot (seated ci) = ci_n ci" "s_human (seated ci) = (aitype (ci_state ci) = AI_NONE)"
  "s_spy (seated ci) = ci_spy ci" "s_owner (seated ci) = ci_ownernum ci" "s_bots (seated ci) = ci_bots ci"
  by (simp_all add: seated_def)

lemma bots_ok_seated: "bots_ok w = table_ok (map seated (clients w)) (map seated (connects w)) (bots w)"
proof -
  have m: "map any_valid (map seat cs) = map seated cs" for cs by (simp add: seated_def [abs_def] any_valid_def [abs_def] comp_def)
  show ?thesis unfolding bots_ok_def by (subst table_ok_any_valid [symmetric]) (simp only: m)
qed

definition human :: "int \<Rightarrow> 'a world_scheme \<Rightarrow> bool" where
  "human cn w \<longleftrightarrow> (\<forall>s \<in> set (map seated (clients w)). s_num s = cn \<longrightarrow> s_human s)"

lemma human_seating: "seating w' = seating w \<Longrightarrow> human cn w' = human cn w"
  by (simp add: human_def seating_def)

lemma filter_seated:
  "filter (\<lambda>s. s_num s \<noteq> n) (map seated cs) = map seated (filter (\<lambda>ci. ci_clientnum ci \<noteq> n) cs)"
  "filter (\<lambda>s. s_num s = n) (map seated cs) = map seated (filter (\<lambda>ci. ci_clientnum ci = n) cs)"
  by (simp_all add: filter_map comp_def)

lemma removeobj_ok:
  assumes "bots_ok w" and "human cn w"
  shows "bots_ok (removeobj_client cn w)"
proof -
  have "s_human s" if "s \<in> set (map seated (clients w))" "s_num s = cn" for s using that assms(2) unfolding human_def by blast
  from leaving_table [OF assms(1) [unfolded bots_ok_seated] this] show ?thesis
    by (simp add: bots_ok_seated removeobj_client_def filter_seated)
qed

lemma safe_delclient: "safe w (delclient n w)"
proof -
  have "table_ok cs (map seated (filter (\<lambda>c. ci_clientnum c \<noteq> k) ns)) bs" if "table_ok cs (map seated ns) bs" for cs ns bs k
    using gone_table [OF that, of "\<lambda>s. s_num s \<noteq> k"] by (simp only: filter_seated)
  then show ?thesis by (auto simp: safe_def bots_ok_seated delclient_def split: option.split)
qed

lemma getclientinfo_human:
  assumes ok: "bots_ok w" and "getclientinfo n w = Some ci"
  shows "ci \<in> set (roster w)" "ci_n ci = n" "0 \<le> n" "n < MAXCLIENTS" "human (ci_clientnum ci) w" "getinfo n w = Some ci"
proof -
  have ci: "ci \<in> set (roster w)" "aitype (ci_state ci) = AI_NONE" "ci_n ci = n"
    using assms(2) by (auto simp: getclientinfo_def find_Some_iff)
  note t = ok [unfolded bots_ok_seated]
  have s: "seated ci \<in> set (map seated (clients w) @ map seated (connects w))" using ci(1) by (auto simp: roster_def)
  from table_okD(4) [OF t s] ci(2,3) have n: "0 \<le> n" "n < MAXCLIENTS" by (simp_all add: seat_ok_def)
  have "\<not> (ci_spy c \<and> ci_clientnum c = n)" if "c \<in> set (roster w)" for c
  proof
    assume c: "ci_spy c \<and> ci_clientnum c = n"
    have "seated c \<in> set (map seated (clients w) @ map seated (connects w))" using that by (auto simp: roster_def)
    from table_okD(4) [OF t this] n c show False by (auto simp: seat_ok_def inrange_def split: if_splits)
  qed
  then have "find (\<lambda>ci. ci_spy ci \<and> ci_clientnum ci = n) (clients w @ connects w) = None" by (auto simp: find_None_iff roster_def)
  then show "getinfo n w = Some ci" using assms(2) n by (simp add: getinfo_def getclientinfo_def roster_def)
  have "c = ci" if "c \<in> set (clients w)" "ci_clientnum c = ci_clientnum ci" for c
    using that bots_ok_client [OF ok ci(1)] bots_ok_client [OF ok, of c] by (simp add: roster_def)
  then show "human (ci_clientnum ci) w" using ci(2) by (auto simp: human_def)
  show "ci \<in> set (roster w)" "ci_n ci = n" "0 \<le> n" "n < MAXCLIENTS" using ci n by simp_all
qed

subsection \<open>Steps that keep all seats, continued\<close>

lemma seating_leaving [simp]:
  "seating (snd (note_leaving ip w)) = seating w" "seating (snd (leave_message ci n reason w)) = seating w" "seating (release_slot using w) = seating w"
  "seating (savescore ci w) = seating w" "seating (pausegame v c w) = seating w" "seating (checkpausegame w) = seating w"
  "seating (changegamespeed k c w) = seating w" "seating (setmaster cn r h w) = seating w"
  by (simp_all add: note_leaving_def leave_message_def release_slot_def savescore_def pausegame_def checkpausegame_def changegamespeed_def
    setmaster_def Let_def split_beta split: option.split)

lemma seating_map: "map seated cs = map seated (clients w) \<Longrightarrow> seating (w\<lparr>clients := cs\<rparr>) = seating w"
  by (simp add: seating_def)

lemma seating_catch_up [simp]: "seating (catch_up ex w) = seating w"
  unfolding catch_up_def by (rule seating_map) (simp add: comp_def seated_state)

lemma seating_teams [simp]:
  "seating (addteaminfo t w) = seating w" "seating (clearteaminfo w) = seating w" "seating (assign_team sm t cn w) = seating w"
  "seating (snd (chooseworstteam sm ex w)) = seating w"
  by (simp_all add: addteaminfo_def pruneteaminfo_def clearteaminfo_def assign_team_def chooseworstteam_def seating_client Let_def split_beta)

lemma seating_autoteam [simp]: "seating (autoteam sm w) = seating w"
  by (simp add: autoteam_def split_beta Let_def seating_fold seating_state)

lemma seating_load_sents [simp]: "seating (load_sents i es w) = seating w"
  by (induction es arbitrary: i w) (simp_all add: Let_def)

lemma seating_loaditems [simp]: "seating (loaditems es w) = seating w"
  by (simp add: loaditems_def resetitems_def Let_def split: option.split)

lemma seating_ranks [simp]: "seating (calc_player_ranks w) = seating w"
  by (rule lineup_seating) simp

lemma seating_maps [simp]:
  "seating (ai_changemap w) = seating w" "seating (ai_addclient cn w) = seating w" "seating (items_update w) = seating w" "seating (purge_record w) = seating w"
  by (simp_all add: ai_changemap_def setbotbalance_def ai_addclient_def items_update_def purge_record_def Let_def)

lemma seating_time_event [simp]: "seating (time_event w) = seating w"
  by (simp add: time_event_def Let_def)

lemma seating_enter_map [simp]: "seating (enter_map s mode mins w) = seating w"
  by (simp add: enter_map_def Let_def seating_map comp_def seated_state)

lemma seating_scores [simp]: "seating (snd (restorescore ci w)) = seating w"
  by (auto simp: restorescore_def findscore_def sc_restore_def seating_state Let_def split: option.split)

lemma seating_best_vote [simp]: "seating (snd (best_vote b vs w)) = seating w"
  by (induction vs arbitrary: b w) (auto simp: split_beta Let_def split: option.split)

lemma seating_checkintermission [simp]: "seating (checkintermission sm force w) = seating w"
  by (auto simp: checkintermission_def checkovertime_def enter_intermission_def Let_def)

subsection \<open>Leaving\<close>

lemma seating_cases: "seating u = seating w \<Longrightarrow> seating v = seating w \<Longrightarrow> seating (if b then u else v) = seating w"
  by simp

context mode_frame
begin

lemma seating_calls [simp]: "seating (smode_leavegame sm cn d w) = seating w"
  by (rule lineup_seating) simp

lemma safe_clearai: "safe w (clearai sm w)"
  using clear_loop_ok [of w "length (bots w)"] by (simp add: safe_def clearai_def bots_ok_def)

lemma safe_noclients: "safe w (noclients sm w)"
  unfolding noclients_def by (rule safe_first [OF safe_clearai]) simp

lemma safe_removeai: "safe w (removeai sm cn w)"
  by (rule safe_kept) (rule kept_removeai')

lemma safe_departed: "safe w (if clients w = [] then noclients sm w else w\<lparr>dorefresh := True\<rparr>)"
  using safe_noclients [of w] safe_seating [of "w\<lparr>dorefresh := True\<rparr>" w] by simp

lemma safe_leave_game:
  assumes "human cn w"
  shows "safe w (leave_game sm cn n msg w)"
proof -
  define a where "a = smode_leavegame sm cn True (if ci_privilege (client cn w) \<noteq> 0 then setmaster cn False [] w else w)"
  define b where "b = upd_state cn (\<lambda>s. s\<lparr>gs_timeplayed := gs_timeplayed s + (lastmillis a - gs_lasttimeplayed s), gs_disconnecttime := totalmillis a\<rparr>) a"
  define c where "c = (if ci_spy (client cn (savescore (client cn b) b)) then savescore (client cn b) b
    else emit (sendf (- 1) 1 [MI N_CDIS, MI n]) (savescore (client cn b) b))"
  define d where "d = removeai sm cn (removeobj_client cn c)"
  define e where "e = emit (Event ''disconnect'' [MI n, MS msg]) (release_slot (ci_using_reservedslot (client cn d)) d)"
  define f where "f = (if clients e = [] then noclients sm e else e\<lparr>dorefresh := True\<rparr>)"
  have c: "seating c = seating w" by (simp add: a_def b_def c_def seating_state)
  have "safe w (removeobj_client cn c)"
    unfolding safe_def using removeobj_ok [of c cn] human_seating [OF c] seating_bots_ok [OF c] assms by simp
  also have "safe (removeobj_client cn c) d" unfolding d_def by (rule safe_removeai)
  also have "safe d e" unfolding e_def by (rule safe_seating) simp
  also have "safe e f" unfolding f_def by (rule safe_departed)
  finally have "safe w f" .
  moreover have "leave_game sm cn n msg w = (if reset_mm f then checkpausegame f else f)"
    unfolding leave_game_def Let_def a_def [symmetric] b_def [symmetric] c_def [symmetric] d_def [symmetric] e_def [symmetric] f_def [symmetric] ..
  ultimately show ?thesis using safe_then [of w f "checkpausegame f"] by simp
qed

lemma safe_clientdisconnect:
  assumes "\<And>ci. getinfo n w = Some ci \<Longrightarrow> human (ci_clientnum ci) w"
  shows "safe w (clientdisconnect sm n reason w)"
proof (cases "getinfo n w")
  case (Some ci)
  define v where "v = snd (leave_message ci n reason w)"
  have v: "seating v = seating w" by (simp add: v_def)
  have "safe w (leave_game sm (ci_clientnum ci) n msg v)" for msg
    using safe_leave_game [of "ci_clientnum ci" v n msg] human_seating [OF v] assms [OF Some] safe_first [OF _ v] by simp
  then show ?thesis using Some safe_seating [of _ w] v
    by (simp add: clientdisconnect_def split_beta Let_def flip: v_def)
qed (simp add: clientdisconnect_def)

lemma safe_disconnect_client: "safe w (disconnect_client sm n reason w)"
  unfolding safe_def
proof
  assume ok: "bots_ok w"
  show "bots_ok (disconnect_client sm n reason w)"
  proof (cases "getclientinfo n w")
    case (Some ci)
    define v where "v = emit (Disconnect n reason) w"
    have v: "seating v = seating w" "bots_ok v" "getclientinfo n v = Some ci" using ok Some by (simp_all add: v_def)
    from getclientinfo_human [OF v(2,3)] have "human (ci_clientnum ci) v" "getinfo n v = Some ci" by simp_all
    then have "safe v (clientdisconnect sm n reason v)" by (intro safe_clientdisconnect) simp
    then have "safe v (delclient n (clientdisconnect sm n reason v))" by (rule safe_trans) (rule safe_delclient)
    then show ?thesis using Some v(2) ok by (simp add: disconnect_client_def safe_def flip: v_def)
  qed (simp add: disconnect_client_def ok)
qed

lemma safe_fold: "(\<And>x w. safe w (f x w)) \<Longrightarrow> safe w (fold f xs w)"
  by (induction xs arbitrary: w) (auto intro: safe_trans)

lemma safe_kick: "safe w (kicknonlocalclients sm reason w)"
  unfolding kicknonlocalclients_def by (rule safe_fold) (simp add: safe_disconnect_client split: option.split)

end

subsection \<open>Entering the game and changing the map\<close>

lemma safe_spawnstate: "spawnstate_ci n w = Some v \<Longrightarrow> safe w v"
  using spawnstate_ci_unseen [of w n v] unseen_ok [of v w] by (simp add: safe_def)

lemma safe_sendspawn: "sendspawn n w = Some v \<Longrightarrow> safe w v"
  by (rule safe_kept) (rule kept_sendspawn)

lemma seated_mapchange: "seated ((ci_mapchange ci)\<lparr>ci_state := (ci_state (ci_mapchange ci))\<lparr>gs_lasttimeplayed := t\<rparr>\<rparr>) = seated ci"
  by (rule seated_cong) (simp_all add: ident_def ci_mapchange_def gs_reset_def gs_respawn_def Let_def)

lemma safe_restart: "restart_players cns w = Some v \<Longrightarrow> safe w v"
proof (induction cns arbitrary: w)
  case (Cons cn cns)
  define u where "u = upd_client cn (\<lambda>ci. (ci_mapchange ci)\<lparr>ci_state := (ci_state (ci_mapchange ci))\<lparr>gs_lasttimeplayed := lastmillis w\<rparr>\<rparr>) w"
  have u: "seating u = seating w" by (simp add: u_def seating_client seated_mapchange)
  from Cons.prems obtain x where x: "(if m_mp (gamemode u) \<and> gs_state (cstate cn u) \<noteq> CS_SPECTATOR then sendspawn cn u else Some u) = Some x"
    "restart_players cns x = Some v" by (auto simp: Let_def bind_eq_Some_conv simp flip: u_def)
  have "safe u x" using x(1) safe_sendspawn by (auto split: if_splits)
  then have "safe u v" using Cons.IH [OF x(2)] by (rule safe_trans)
  then show ?case using u by (rule safe_first)
qed simp

lemma safe_welcome_spawn: "welcome_spawn sm n w = Some (p, v) \<Longrightarrow> safe w v"
  using safe_spawnstate [of n w]
  by (auto simp: welcome_spawn_def bind_eq_Some_conv seating_state split: if_splits intro: safe_then safe_seating)

lemma seating_spectator [simp]: "seating (snd (welcome_spectator n w)) = seating w"
  by (simp add: welcome_spectator_def)

lemma safe_welcomepacket: "welcomepacket sm who w = Some (p, v) \<Longrightarrow> safe w v"
proof (cases who)
  case (Some n)
  assume "welcomepacket sm who w = Some (p, v)"
  then obtain q u where u: "welcome_spawn sm n w = Some (q, u)" "v = snd (welcome_spectator n u)"
    using Some by (auto simp: welcomepacket_def bind_eq_Some_conv split_beta Let_def)
  show ?thesis using safe_then [OF safe_welcome_spawn [OF u(1)]] u(2) by simp
qed (simp add: welcomepacket_def)

lemma safe_sendwelcome: "sendwelcome sm n w = Some v \<Longrightarrow> safe w v"
  by (auto simp: sendwelcome_def bind_eq_Some_conv intro: safe_then safe_welcomepacket)

lemma safe_setupdemo: "setupdemorecord sm w = Some v \<Longrightarrow> safe w v"
proof -
  define u where "u = (servmsg ''recording demo'' w)\<lparr>demorecord := True, net := (net w)\<lparr>demoffset := gamemillis w\<rparr>\<rparr>"
  assume a: "setupdemorecord sm w = Some v"
  show ?thesis
  proof (cases "\<not> m_mp (gamemode w) \<or> m_edit (gamemode w) \<or> \<not> demo_opens (conf w)")
    case False
    with a obtain p x where x: "welcomepacket sm None u = Some (p, x)" "seating v = seating x"
      by (auto simp: setupdemorecord_def Let_def bind_eq_Some_conv u_def servmsg_def)
    show ?thesis using safe_first [OF safe_then [OF safe_welcomepacket [OF x(1)] x(2)], of w] by (simp add: u_def)
  qed (use a in \<open>auto simp: setupdemorecord_def\<close>)
qed

subsection \<open>What the server asks of its modes\<close>

locale game_modes =
  fixes modes :: "'a modetable"
  assumes frames: "mode_frame (modes g)"
    and lineup_cleanup: "lineup (smode_cleanup (modes g) w) = lineup w"
    and lineup_setup: "lineup (smode_setup (modes g) w) = lineup w"
    and lineup_update: "lineup (smode_update (modes g) w) = lineup w"
    and lineup_newmap: "lineup (smode_newmap (modes g) w) = lineup w"

sublocale game_modes \<subseteq> play: mode_frame "modes g" for g
  by (rule frames)

context game_modes
begin

lemma seating_mode [simp]:
  "seating (smode_cleanup (modes g) w) = seating w" "seating (smode_setup (modes g) w) = seating w" "seating (smode_update (modes g) w) = seating w"
  "seating (smode_newmap (modes g) w) = seating w"
  by (rule lineup_seating, simp add: lineup_cleanup lineup_setup lineup_update lineup_newmap)+

lemma safe_end_game: "safe w (end_game (modes g) w)"
  unfolding end_game_def Let_def by (rule safe_first [OF play.safe_clearai]) simp

lemma safe_changemap:
  assumes "changemap modes s mode mins w = Some v"
  shows "safe w v"
proof -
  define a where "a = enter_map s mode mins (end_game (modes (gamemode w)) w)"
  define b where "b = (if m_mp mode then a else kicknonlocalclients (modes (gamemode w)) DISC_PRIVATE a)"
  define c where "c = clearteaminfo (emit (sendf (- 1) 1 [MI N_MAPCHANGE, MS (smapname b), MI mode, MI 1]) b)"
  define d where "d = (if m_teammode mode then autoteam (modes mode) c else c)"
  define e where "e = (if m_timed mode \<and> smapname d \<noteq> [] then emit (sendf (- 1) 1 [MI N_TIMEUP, MI (timeleft d)]) d else d)"
  obtain f where f: "restart_players (map ci_clientnum (clients e)) e = Some f"
    using assms unfolding changemap_def Let_def a_def [symmetric] b_def [symmetric] c_def [symmetric] d_def [symmetric] e_def [symmetric]
    by (cases "restart_players (map ci_clientnum (clients e)) e") simp_all
  define g where "g = ai_changemap f"
  obtain h x where h: "(if m_demo mode then Some g
             else do {
               w \<leftarrow> (if demonextmatch (conf g) then setupdemorecord (modes mode) g else Some g);
               Some (w\<lparr>conf := (conf w)\<lparr>demonextmatch := autorecorddemo (conf w)\<rparr>\<rparr>)
             }) = Some h" "v = (emit x (smode_setup (modes mode) h))\<lparr>next_timeupdate := 0\<rparr>"
    using assms f unfolding changemap_def Let_def a_def [symmetric] b_def [symmetric] c_def [symmetric] d_def [symmetric] e_def [symmetric] g_def
    by (auto simp: bind_eq_Some_conv)
  have "safe w a" unfolding a_def by (rule safe_then [OF safe_end_game]) simp
  also have "safe a b" unfolding b_def by (simp add: play.safe_kick)
  also have "safe b e" by (rule safe_seating) (simp add: c_def d_def e_def)
  also have "safe e f" by (rule safe_restart [OF f])
  also have "safe f g" unfolding g_def by (rule safe_seating) simp
  also have "safe g h" using h(1) by (auto simp: bind_eq_Some_conv split: if_splits intro: safe_then safe_setupdemo safe_seating)
  also have "safe h v" unfolding h(2) by (rule safe_seating) simp
  finally show ?thesis .
qed

lemma safe_rotatemap:
  assumes "rotatemap modes w = Some v"
  shows "safe w v"
proof -
  define e where "e = emit (Event ''setnextgame'' []) w"
  obtain g m t where h: "setnextgame_hook e (next_gamemode e, next_mapname e, next_gametime e) = (g, m, t)" using prod_cases3 by blast
  define u where "u = e\<lparr>next_gamemode := g, next_mapname := m, next_gametime := t\<rparr>"
  from assms h consider "v = u"
    | x where "changemap modes m (modecode g) t (u\<lparr>mapreload := False\<rparr>) = Some x" "v = x\<lparr>next_gamemode := [], next_mapname := [], next_gametime := - 1\<rparr>"
    by (auto simp: rotatemap_def u_def Let_def bind_eq_Some_conv simp flip: e_def split: if_splits)
  then show ?thesis
  proof cases
    case 1
    then show ?thesis by (simp add: safe_seating u_def e_def)
  next
    case (2 x)
    show ?thesis unfolding 2(2) by (rule safe_then [OF safe_first [OF safe_changemap [OF 2(1)]]]) (simp_all add: u_def e_def)
  qed
qed

lemma safe_run_votes:
  assumes "run_votes modes force w = Some v"
  shows "safe w v"
proof -
  define u where "u = snd (best_vote None (tally (clients w)) w)"
  show ?thesis
  proof (cases "fst (checkvotes force w) = NoChange")
    case False
    with assms obtain f x where x: "sendpackets True u = Some (f, x)" by (auto simp: run_votes_def Let_def bind_eq_Some_conv u_def)
    have seat: "seating (enddemorecord x) = seating w" using seating_sendpackets [OF x] by (simp add: u_def)
    have c: "safe w y" if "changemap modes mp mode (- 1) (emit e (servmsg msg (enddemorecord x))) = Some y" for mp mode e msg y
      using safe_first [OF safe_changemap [OF that]] seat by simp
    have r: "safe w y" if "rotatemap modes (enddemorecord x) = Some y" for y by (rule safe_first [OF safe_rotatemap [OF that] seat])
    show ?thesis using assms False x c r by (auto simp: run_votes_def Let_def u_def split: vote_outcome.splits)
  qed (use assms in \<open>auto simp: run_votes_def Let_def intro: safe_seating\<close>)
qed

end

subsection \<open>Votes and connections\<close>

lemma seating_client_at:
  assumes "bots_ok w" and "seated (f (client cn w)) = seated (client cn w)"
  shows "seating (upd_client cn f w) = seating w"
proof -
  have "seated (if ci_clientnum ci = cn then f ci else ci) = seated ci" if "ci \<in> set (roster w)" for ci
    using that assms(2) bots_ok_client [OF assms(1) that] by auto
  then show ?thesis by (simp add: seating_def upd_client_def roster_def)
qed

lemma seating_take_reserved [simp]: "seating (take_reserved cn k w) = seating w"
  by (simp add: take_reserved_def seating_client Let_def)

lemma seating_admission [simp]: "seating (snd (admission cn pwd r k w)) = seating w"
  by (simp add: admission_def Let_def)

text \<open>The listeners do not make a client with this number a spy.\<close>

definition no_spy_hook :: "int \<Rightarrow> 'a world_scheme \<Rightarrow> bool" where
  "no_spy_hook n w \<longleftrightarrow> (\<forall>h name pwd r. \<not> snd (snd (connecting_hook (conf w) n h name pwd r)))"

lemma seating_allowconnect:
  assumes "bots_ok w" and "\<not> ci_spy (client cn w)" and "no_spy_hook cn w" and "allowconnect cn pwd w = Some (d, cn', v)"
  shows "cn' = cn \<and> seating v = seating w"
proof -
  have "seated ((client cn w)\<lparr>ci_spy := False\<rparr>) = seated (client cn w)" using assms(2) by (intro seated_cong) (simp_all add: ident_def)
  then have "seating (upd_client cn (\<lambda>ci. ci\<lparr>ci_spy := False\<rparr>) w) = seating w" by (rule seating_client_at [OF assms(1)])
  then have k: "seating (upd_client cn (\<lambda>ci. ci\<lparr>ci_privilege := p\<rparr>) (upd_client cn (\<lambda>ci. ci\<lparr>ci_spy := False\<rparr>) w)) = seating w" for p
    by (simp add: seating_client)
  then have a: "seating (snd (admission cn q r l (upd_client cn (\<lambda>ci. ci\<lparr>ci_privilege := p\<rparr>) (upd_client cn (\<lambda>ci. ci\<lparr>ci_spy := False\<rparr>) w)))) = seating w"
    for q r l p by simp
  show ?thesis using assms(3,4) k a unfolding allowconnect_def Let_def split_beta no_spy_hook_def
    by (auto split: if_splits)
qed

lemma join_ok:
  assumes ok: "bots_ok w" and "cn \<in> ci_clientnum ` set (connects w)"
  shows "bots_ok (join_game cn w)"
proof -
  from assms(2) obtain ci where ci: "ci \<in> set (connects w)" "ci_clientnum ci = cn" by blast
  then have c: "client cn w = ci" using bots_ok_client [OF ok, of ci] by (simp add: roster_def)
  define r where "r = ci\<lparr>ci_connected := True, ci_needclipboard := (if totalmillis w \<noteq> 0 then totalmillis w else 1),
    ci_state := (if mastermode w \<ge> MM_LOCKED then (ci_state ci)\<lparr>gs_state := CS_SPECTATOR\<rparr> else ci_state ci)\<lparr>gs_lasttimeplayed := lastmillis w\<rparr>\<rparr>"
  have r: "seated r = seated ci" unfolding r_def by (rule seated_cong) (simp_all add: ident_def)
  have j: "join_game cn w = w\<lparr>connects := filter (\<lambda>c. ci_clientnum c \<noteq> cn) (connects w), clients := clients w @ [r]\<rparr>"
    by (simp add: join_game_def c r_def Let_def)
  have "table_ok (map seated (clients w) @ [seated ci]) (filter (\<lambda>q. s_num q \<noteq> cn) (map seated (connects w))) (bots w)"
    using entering_table [OF ok [unfolded bots_ok_seated], of "seated ci"] ci by simp
  then show ?thesis by (simp add: bots_ok_seated j r filter_seated)
qed

lemma arrive_ok:
  assumes ok: "bots_ok w" and n: "0 \<le> n" "n < MAXCLIENTS" and "getclientinfo n w = None"
  shows "bots_ok (snd (clientconnect n w))"
proof -
  obtain r x where d: "draw 0x1000000 w = (r, x)" by force
  define ci where "ci = ci_new\<lparr>ci_clientnum := n, ci_ownernum := n, ci_n := n, ci_connectmillis := totalmillis x,
            ci_sessionid := (r * (totalmillis x mod 10000 + 1)) AND 0xFFFFFF\<rparr>"
  have x: "seating x = seating w" using d by (metis seating_send(9) snd_conv)
  have "s_slot s \<noteq> n" if "s \<in> set (map seated (clients w) @ map seated (connects w))" "s_human s" for s
    using that assms(4) by (auto simp: getclientinfo_def find_None_iff roster_def)
  then have "table_ok (map seated (clients w)) (map seated (connects w) @ [seated ci]) (bots w)"
    using n by (intro arriving_table [OF ok [unfolded bots_ok_seated]])
      (simp_all add: ci_def ci_new_def ci_reset_def ci_mapchange_def gs_reset_def gs_respawn_def gs_new_def)
  moreover have "seating (snd (clientconnect n w)) = (map seated (clients w), map seated (connects w) @ [seated ci], bots w)"
    using x by (simp add: clientconnect_def d Let_def ci_def [symmetric]) (simp add: seating_def)
  ultimately show ?thesis by (simp add: bots_ok_seated seating_def)
qed

context mode_frame
begin

lemma seating_events [simp]: "seating (processevents sm w) = seating w"
  by (rule lineup_seating) (rule fights.inv_processevents, rule refl)

lemma safe_checkai:
  assumes "checkai sm w = Some v"
  shows "safe w v"
  unfolding safe_def
proof
  assume ok: "bots_ok w"
  define u where "u = w\<lparr>dorefresh := False\<rparr>"
  have u: "bots_ok u" using ok seating_bots_ok [of u w] by (simp add: u_def)
  from assms consider "v = w" | "v = clearai sm u" | x where "checksetup sm u = Some x" "reassign_all sm x = Some v"
    by (auto simp: checkai_def Let_def bind_eq_Some_conv simp flip: u_def split: if_splits)
  then show "bots_ok v"
  proof cases
    case 2
    then show ?thesis using safe_clearai [of u] u by (simp add: safe_def)
  next
    case (3 x)
    then have "bots_ok x" using checksetup_ok [OF u] by simp
    from reassign_all_spec [OF this] 3(2) show ?thesis by simp
  qed (use ok in simp)
qed

lemma safe_timeouts: "safe w (timeout_loop sm k i w)"
proof (induction k arbitrary: i w)
  case (Suc k)
  have "safe w (timeout_one sm i w)" by (simp add: timeout_one_def Let_def safe_disconnect_client)
  then show ?case using safe_trans [OF _ Suc.IH] by simp
qed simp

lemma safe_exceeded: "safe w (check_exceeded sm w)"
proof -
  have "safe w (exceeded_one sm i w)" for i and w :: "'a world_scheme"
    by (simp add: exceeded_one_def Let_def safe_disconnect_client safe_seating)
  then have "safe v (fold (exceeded_one sm) xs v)" for xs and v :: "'a world_scheme" by (rule safe_fold)
  from safe_first [OF this] show ?thesis by (simp add: check_exceeded_def)
qed

end

context game_modes
begin

lemma safe_force:
  assumes "sendpackets True u = Some (f, x)" and "seating u = seating w" and "seating y = seating x"
    and "changemap modes s mode mins y = Some v"
  shows "safe w v"
  using safe_first [OF safe_changemap [OF assms(4)]] seating_sendpackets [OF assms(1)] assms(2,3) by simp

lemma safe_vote:
  assumes "vote modes s reqmode sender w = Some v"
  shows "safe w v"
proof -
  show ?thesis
  proof (cases "getinfo sender w")
    case (Some ci)
    define u where "u = upd_client (ci_clientnum ci) (\<lambda>ci. ci\<lparr>ci_mapvote := vote_name s w, ci_modevote := reqmode\<rparr>) w"
    have u: "seating u = seating w" by (simp add: u_def seating_client)
    note v = assms [unfolded vote_def Let_def Some option.case, folded u_def]
    consider "v = w \<or> v = u" | "ci_local ci \<or> mapreload u \<or> ci_privilege ci \<noteq> 0 \<and> mastermode u \<ge> MM_VETO" "can_play ci \<and> (ci_local ci \<or> m_mp reqmode) \<and> vote_name s w \<noteq> []"
      | "\<not> (ci_local ci \<or> mapreload u \<or> ci_privilege ci \<noteq> 0 \<and> mastermode u \<ge> MM_VETO)" "can_play ci \<and> (ci_local ci \<or> m_mp reqmode) \<and> vote_name s w \<noteq> []"
      using v by (cases "can_play ci \<and> (ci_local ci \<or> m_mp reqmode) \<and> vote_name s w \<noteq> []") (auto split: if_splits)
    then show ?thesis
    proof cases
      case 1
      then show ?thesis using safe_seating [OF u] by auto
    next
      case 2
      with v have "\<exists>f x c t. sendpackets True u = Some (f, x) \<and> changemap modes (vote_name s w) reqmode (- 1)
          (if c then servmsg t (enddemorecord x) else enddemorecord x) = Some v"
        by (auto simp: bind_eq_Some_conv split del: if_split) blast+
      then obtain f x c t where x: "sendpackets True u = Some (f, x)" "changemap modes (vote_name s w) reqmode (- 1)
          (if c then servmsg t (enddemorecord x) else enddemorecord x) = Some v" by blast
      show ?thesis by (rule safe_force [OF x(1) u _ x(2)]) simp
    next
      case 3
      with v have "\<exists>c t. run_votes modes False (if c then u else servmsg t u) = Some v" by (auto split del: if_split) blast+
      then obtain c t where r: "run_votes modes False (if c then u else servmsg t u) = Some v" by blast
      show ?thesis by (rule safe_first [OF safe_run_votes [OF r]]) (simp add: u)
    qed
  qed (use assms in \<open>simp add: vote_def\<close>)
qed

lemma safe_first_map: "first_map modes w = Some v \<Longrightarrow> safe w v"
  by (auto simp: first_map_def safe_rotatemap split: if_splits)

lemma safe_connected:
  assumes ok: "bots_ok w" and cn: "cn \<in> ci_clientnum ` set (connects w)" and "connected modes cn w = Some v"
  shows "bots_ok v"
proof -
  define a where "a = join_game cn w"
  define b where "b = (if m_teammode (gamemode a) then chooseworstteam (modes (gamemode a)) (Some cn) a else (''good'', a))"
  define c where "c = upd_client cn (\<lambda>ci. ci\<lparr>ci_team := copyteam (fst b)\<rparr>) (snd b)"
  obtain d e where de: "first_map modes c = Some d" "sendwelcome (modes (gamemode d)) cn d = Some e"
    using assms(3) unfolding connected_def Let_def split_beta a_def [symmetric] b_def [symmetric] c_def [symmetric]
    by (auto simp: bind_eq_Some_conv)
  define f where "f = (if fst (restorescore (client cn e) e) then sendresume cn (snd (restorescore (client cn e) e)) else snd (restorescore (client cn e) e))"
  obtain g where g: "first_map modes (ai_addclient cn (sendinitclient cn f)) = Some g" "seating v = seating g"
    using assms(3) de unfolding connected_def Let_def split_beta a_def [symmetric] b_def [symmetric] c_def [symmetric]
    by (auto simp: bind_eq_Some_conv simp flip: f_def)
  have "bots_ok a" unfolding a_def by (rule join_ok [OF ok cn])
  moreover have "safe a c" by (rule safe_seating) (simp add: c_def b_def seating_client)
  moreover have "safe c d" by (rule safe_first_map [OF de(1)])
  moreover have "safe d e" by (rule safe_sendwelcome [OF de(2)])
  moreover have "safe e g" by (rule safe_first [OF safe_first_map [OF g(1)]]) (simp add: f_def)
  moreover have "safe g v" by (rule safe_seating [OF g(2)])
  ultimately show ?thesis unfolding safe_def by blast
qed

lemma safe_update_game: "update_game (modes k) w = Some v \<Longrightarrow> safe w v"
proof -
  define u where "u = w\<lparr>gamemillis := gamemillis w + curtime w\<rparr>"
  have u: "seating u = seating w" by (simp add: u_def)
  have c: "safe w y" if "checkai (modes k) (items_update (processevents (modes k) u)) = Some x" "seating y = seating x" for x y
    by (rule safe_then [OF safe_first [OF play.safe_checkai [OF that(1)]] that(2)]) (simp add: u)
  assume "update_game (modes k) w = Some v"
  then show ?thesis using c safe_seating [OF u]
    by (auto simp: update_game_def Let_def bind_eq_Some_conv simp flip: u_def split: if_splits)
qed

lemma safe_end_of_game:
  assumes "end_of_game modes w = Some v"
  shows "safe w v"
proof -
  define u where "u = (if m_timed (gamemode w) \<and> smapname w \<noteq> [] \<and> gamemillis w - curtime w > 0
                    then checkintermission (modes (gamemode w)) False w else w)"
  have u: "seating u = seating w" by (simp add: u_def)
  have "v = w \<or> v = u \<or> run_votes modes True ((enddemorecord (u\<lparr>spectator_delay := 0\<rparr>))\<lparr>interm := - 1\<rparr>) = Some v"
    using assms unfolding end_of_game_def Let_def u_def [symmetric] by (auto split: if_splits)
  moreover have "safe w v" if "run_votes modes True ((enddemorecord (u\<lparr>spectator_delay := 0\<rparr>))\<lparr>interm := - 1\<rparr>) = Some v"
    by (rule safe_first [OF safe_run_votes [OF that]]) (simp add: u)
  ultimately show ?thesis using safe_seating [OF u] by auto
qed

lemma safe_serverupdate:
  assumes "serverupdate modes w = Some v"
  shows "safe w v"
proof -
  from assms obtain a where a: "update_game (modes (gamemode w)) w = Some a" by (auto simp: serverupdate_def bind_eq_Some_conv)
  define b where "b = timeout_loop (modes (gamemode a)) (length (connects a)) 0 a"
  define c where "c = time_event (check_exceeded (modes (gamemode b)) b)"
  from assms a obtain d where d: "end_of_game modes c = Some d" "v = purge_record (d\<lparr>shouldstep := (clients d \<noteq> [])\<rparr>)"
    by (auto simp: serverupdate_def Let_def bind_eq_Some_conv simp flip: b_def c_def)
  have "safe w a" by (rule safe_update_game [OF a])
  also have "safe a b" unfolding b_def by (rule play.safe_timeouts)
  also have "safe b c" unfolding c_def by (rule safe_then [OF play.safe_exceeded]) simp
  also have "safe c d" by (rule safe_end_of_game [OF d(1)])
  also have "safe d v" by (rule safe_seating) (simp add: d(2))
  finally show ?thesis .
qed

lemma safe_engine_connect:
  assumes "bots_ok w" and "0 \<le> n" "n < MAXCLIENTS" and "getclientinfo n w = None"
  shows "bots_ok (engine_connect modes n w)"
proof -
  define u where "u = w\<lparr>nonlocalclients := nonlocalclients w + 1\<rparr>"
  have u: "bots_ok u" "getclientinfo n u = None" using assms seating_bots_ok [of u w]
    by (simp_all add: u_def getclientinfo_def roster_def)
  have "bots_ok (snd (clientconnect n u))" by (rule arrive_ok [OF u(1) assms(2,3) u(2)])
  then show ?thesis using play.safe_disconnect_client [of "snd (clientconnect n u)"]
    by (simp add: engine_connect_def split_beta Let_def safe_def flip: u_def)
qed

end

subsection \<open>The other messages\<close>

lemma seating_limit [simp]: "seating (snd (limit_msg c k t cn w)) = seating w"
  by (simp add: limit_msg_def Let_def sendprivtext_def seating_client)

lemma seating_queue [simp]: "seating (queue q bs w) = seating w"
  by (rule lineup_seating) simp

lemma seating_talk [simp]: "seating (snd (msg_text me text w)) = seating w" "seating (msg_sayteam me q text w) = seating w"
  by (auto simp: msg_text_def msg_sayteam_def Let_def split_beta seating_fold)

lemma seating_names [simp]: "seating (player_rename cn name pub w) = seating w" "seating (msg_switchname me text w) = seating w"
  by (simp_all add: player_rename_def msg_switchname_def Let_def split_beta seating_client)

lemma seating_masters [simp]:
  "seating (set_mastermode_cn m cn w) = seating w" "seating (msg_mastermode sender me m w) = seating w" "seating (cleanup_masterstate w) = seating w"
  "seating (send_currentmaster w) = seating w" "seating (trykick me v t w) = seating w" "seating (tryauth cn a b k w) = seating w"
  "seating (answerchallenge cn n a w) = seating w"
  by (simp_all add: set_mastermode_cn_def msg_mastermode_def cleanup_masterstate_def send_currentmaster_def trykick_def tryauth_def answerchallenge_def
    Let_def split_beta split: option.split)

lemma seating_demos [simp]:
  "seating (listdemos cn w) = seating w" "seating (cleardemos n w) = seating w" "seating (senddemo cn n t w) = seating w" "seating (msg_getmap sender me w) = seating w"
  by (simp_all add: listdemos_def cleardemos_def senddemo_def msg_getmap_def seating_client Let_def)

lemma seating_clipboard [simp]: "seating (copy_clipboard me w) = seating w" "seating (snd (msg_clipboard me p w)) = seating w"
  by (simp_all add: copy_clipboard_def msg_clipboard_def cleanclipboard_def seating_client Let_def split_beta)

lemma seating_parse_demo [simp]: "seating (snd (parse_demo sender me t p w)) = seating w"
  by (simp add: parse_demo_def Let_def split_beta)

lemma seating_sendclipboard: "sendclipboard me w = Some v \<Longrightarrow> seating v = seating w"
  using seating_sendpackets [of True w]
  by (auto simp: sendclipboard_def Let_def bind_eq_Some_conv seating_fold split: option.splits if_splits)

context mode_frame
begin

lemma seating_suicide [simp]: "seating (suicide sm cn w) = seating w"
  by (rule lineup_seating) (rule fights.inv_suicide, rule refl)

lemma seating_team_msgs [simp]: "seating (msg_switchteam sm sender me text w) = seating w" "seating (msg_setteam sm sender me who text w) = seating w"
  by (simp_all add: msg_switchteam_def msg_setteam_def ai_changeteam_def seating_client Let_def split_beta split: option.split)

lemma safe_cleanup_master: "safe w (cleanup_master sm cn w)"
  using safe_first [OF safe_removeai, of "cleanup_masterstate w" w cn] by (simp add: cleanup_master_def Let_def safe_seating)

lemma safe_unset: "safe w (unset_player_privilege sm cn w)"
proof -
  define v where "v = upd_client cn (\<lambda>ci. ci\<lparr>ci_privilege := PRIV_NONE\<rparr>) w"
  have "seating v = seating w" by (simp add: v_def seating_client)
  from safe_then [OF safe_first [OF safe_cleanup_master this]] show ?thesis
    by (simp add: unset_player_privilege_def Let_def flip: v_def)
qed

lemma safe_set: "safe w (set_player_privilege sm cn p pub w)"
proof -
  define v where "v = (if p = PRIV_NONE then unset_player_privilege sm cn w else w)"
  have "safe w v" by (simp add: v_def safe_unset)
  from safe_then [OF this] show ?thesis
    by (simp add: set_player_privilege_def Let_def sendprivtext_def seating_client flip: v_def)
qed

lemma safe_setmaster_msg: "safe w (msg_setmaster sm me mn val text w)"
  by (auto simp: msg_setmaster_def Let_def safe_set safe_seating split: option.split)

lemma safe_person: "safe w (snd (parse_person sm sender me t p w))"
  by (simp add: parse_person_def split_beta Let_def safe_seating safe_setmaster_msg)

end

lemma forward_gettext_n [simp]: "forward p (snd (gettext_n n p))"
  using forward_getstring_loop [of p n "[]"] by (simp add: gettext_n_def getstring_def split_beta)

lemma fwd_texts: "forward p q \<Longrightarrow> forward p (snd (gettext_n n q))" "forward p q \<Longrightarrow> forward p (snd (gettext q))" "forward p q \<Longrightarrow> forward p (snd (geti q))"
  by (erule forward_trans, simp)+

lemma forward_parts:
  "forward p (fst (parse_demo sender me t p w))" "forward p (fst (parse_person sm sender me t p w))" "forward p (fst (parse_vote modes sender me t p w))"
  by (auto simp: parse_demo_def parse_person_def parse_vote_def Let_def split_beta intro!: fwd_texts)

lemma forward_clipboard:
  assumes "dlen p \<le> dmaxlen p"
  shows "forward p (fst (msg_clipboard me p w))"
proof -
  define q where "q = snd (geti (snd (geti p)))"
  have q: "forward p q" by (simp add: q_def fwd_texts)
  then have l: "dlen q \<le> dmaxlen q" using assms by (simp add: forward_def)
  have s: "forward p (snd (db_subbuf n q))" for n by (rule forward_trans [OF q forward_subbuf [OF l]])
  have g: "forward p (snd (snd (db_get_n n q)))" if "0 < n" for n by (rule forward_trans [OF q forward_get_n [OF _ l]]) (use that in simp)
  show ?thesis using q s g by (auto simp: msg_clipboard_def Let_def split_beta simp flip: q_def)
qed

definition moves :: "uchar databuf \<Rightarrow> 'a world_scheme \<Rightarrow> 'a world_scheme outcome \<Rightarrow> bool" where
  "moves p w r \<longleftrightarrow> safe w (outcome_world r) \<and> goes_on p r"

lemma moves_seating: "seating (outcome_world r) = seating w \<Longrightarrow> goes_on p r \<Longrightarrow> moves p w r"
  by (simp add: moves_def safe_seating)

lemma moves_step: "step_ok p v r \<Longrightarrow> safe w v \<Longrightarrow> moves p w r"
  unfolding moves_def step_ok_def using safe_trans safe_kept by blast

lemma moves_text: "moves p w (parse_text me cq t p w)"
  by (rule moves_seating) (auto simp: parse_text_def Let_def split_beta split: option.split intro!: fwd_texts)

context game_modes
begin

lemma seating_newmap [simp]: "seating (snd (msg_newmap (modes g) me sz raw w)) = seating w"
  by (simp add: msg_newmap_def resetitems_def Let_def split_beta)

lemma safe_parse_vote: "snd (parse_vote modes sender me t p w) = Some v \<Longrightarrow> safe w v"
proof -
  have v: "safe w v" if "vote modes s m sender u = Some v" "seating u = seating w" for s m u v by (rule safe_first [OF safe_vote [OF that(1)] that(2)])
  show "snd (parse_vote modes sender me t p w) = Some v \<Longrightarrow> safe w v"
    by (auto simp: parse_vote_def msg_mapvote_def Let_def split_beta split: if_splits intro: v safe_seating)
qed

lemma moves_carried: "moves p w r \<Longrightarrow> moves p w (carry_out modes r)"
  by (cases r) (auto simp: moves_def play.safe_disconnect_client intro: safe_trans)

lemma moves_other:
  assumes "parse_other modes sender me curmsg cq t p w = Some r" and l: "dlen p \<le> dmaxlen p"
  shows "moves p w r"
proof -
  have vote: "moves p w (Next (fst (parse_vote modes sender me t p w)) cq v)" if "snd (parse_vote modes sender me t p w) = Some v" for v
    using safe_parse_vote [OF that] by (simp add: moves_def forward_parts)
  have demo: "moves p w (Next (fst (parse_demo sender me t p w)) cq (snd (parse_demo sender me t p w)))"
    by (rule moves_seating) (simp_all add: forward_parts)
  have person: "moves p w (Next (fst (parse_person (modes g) sender me t p w)) cq (snd (parse_person (modes g) sender me t p w)))" for g
    by (simp add: moves_def play.safe_person forward_parts)
  have newmap: "moves p w (Next (snd (geti p)) cq (snd (msg_newmap (modes g) me z raw w)))" "moves p w (Stop (snd (msg_newmap (modes g) me z raw w)))" for g z raw
    by (rule moves_seating, simp_all)+
  have copy: "moves p w (parse_generic sender me curmsg cq k p (copy_clipboard me w))" for k by (rule moves_step [OF step_generic]) (simp add: safe_seating)
  have same: "moves p w (parse_generic sender me curmsg cq k p w)" for k by (rule moves_step [OF step_generic]) simp
  have paste: "moves p w (parse_generic sender me curmsg cq k p v)" if "sendclipboard me w = Some v" for k v
    by (rule moves_step [OF step_generic]) (simp add: safe_seating seating_sendclipboard [OF that])
  have clip: "moves p w (Next (fst (msg_clipboard me p w)) cq (snd (msg_clipboard me p w)))" by (rule moves_seating) (simp_all add: forward_clipboard [OF l])
  show ?thesis using assms(1) unfolding parse_other_def split_beta Let_def
    by (auto simp: bind_eq_Some_conv moves_text vote demo person newmap copy same paste clip split: if_splits)
qed

end

text \<open>With what the messages of each mode have to fulfil.\<close>

locale game_packets = game_modes modes for modes :: "'a modetable" +
  fixes msgs :: "int \<Rightarrow> 'a world_scheme modemsgs"
  assumes packets: "packet_mode (modes g) (msgs g)"
begin

lemma moves_loop:
  assumes "parse_loop (modes g) (msgs g) sender me cq p w = Some r" and "dlen p \<le> dmaxlen p"
  shows "moves p w r"
  using packet_mode.parse_loop_goes [OF packets assms(2), of g sender me cq w] assms(1) by (auto simp: moves_def safe_kept)

lemma moves_all:
  assumes "parse_all modes msgs sender me cq p w = Some r" and "dlen p \<le> dmaxlen p"
  shows "moves p w r"
proof -
  have "ms = modes \<longrightarrow> os = msgs \<longrightarrow> dlen p \<le> dmaxlen p \<longrightarrow> moves p w r" if "parse_all ms os sender me cq p w = Some r"
    for ms os sender me cq p w r
  proof (rule parse_all.raw_induct [OF _ that], intro impI)
    fix parse ms os sender me cq p r and w :: "'a world_scheme"
    assume IH: "\<And>ms os sender me cq p w r. parse ms os sender me cq p w = Some r
        \<Longrightarrow> ms = modes \<longrightarrow> os = msgs \<longrightarrow> dlen p \<le> dmaxlen p \<longrightarrow> moves p w r"
      and step: "Option.bind (parse_loop (ms (gamemode w)) (os (gamemode w)) sender me cq p w) (\<lambda>r. case r of
          Other t curmsg p cq w \<Rightarrow> Option.bind (parse_other ms sender me curmsg cq t p w) (\<lambda>r. case r of
            Next p cq w \<Rightarrow> parse ms os sender me cq p w | _ \<Rightarrow> Some (carry_out ms r))
        | _ \<Rightarrow> Some (carry_out ms r)) = Some r"
      and same: "ms = modes" "os = msgs" and len: "dlen p \<le> dmaxlen p"
    obtain a where a: "parse_loop (modes (gamemode w)) (msgs (gamemode w)) sender me cq p w = Some a"
      using step same by (auto simp: bind_eq_Some_conv)
    have ma: "moves p w a" by (rule moves_loop [OF a len])
    show "moves p w r"
    proof (cases a)
      case (Other t k q c v)
      have q: "forward p q" "safe w v" using ma by (simp_all add: moves_def Other)
      then have lq: "dlen q \<le> dmaxlen q" using len by (simp add: forward_def)
      obtain b where b: "parse_other modes sender me k c t q v = Some b"
        using step same a Other by (auto simp: bind_eq_Some_conv)
      have mb: "moves q v b" by (rule moves_other [OF b lq])
      show ?thesis
      proof (cases b)
        case (Next q' c' v')
        have q': "forward q q'" "safe v v'" using mb by (simp_all add: moves_def Next)
        then have "dlen q' \<le> dmaxlen q'" using lq by (simp add: forward_def)
        moreover have "parse modes msgs sender me c' q' v' = Some r" using step same a Other b Next by simp
        ultimately have "moves q' v' r" using IH by blast
        then show ?thesis using q q' by (auto simp: moves_def intro: safe_trans goes_on_trans)
      qed (use step same a Other b moves_carried [OF mb] q in \<open>auto simp: moves_def simp del: carry_out.simps intro: safe_trans goes_on_trans\<close>)
    qed (use step same a moves_carried [OF ma] in \<open>auto simp del: carry_out.simps\<close>)
  qed
  then show ?thesis using assms by blast
qed

end

subsection \<open>Clients that have not entered\<close>

lemma seating_checktype [simp]: "seating (snd (checktype_new t cn w)) = seating w"
  by (simp add: checktype_new_def checktype_def count_message_def seating_client Let_def)

lemma conf_checktype: "conf (snd (checktype_new t cn w)) = conf w"
  by (simp add: checktype_new_def checktype_def count_message_def upd_client_def Let_def)

lemma seating_numbers: "seating w' = seating w \<Longrightarrow> ci_clientnum ` set (connects w') = ci_clientnum ` set (connects w)"
proof -
  assume "seating w' = seating w"
  then have "map s_num (map seated (connects w')) = map s_num (map seated (connects w))" by (simp add: seating_def)
  then show ?thesis by (metis (no_types, lifting) comp_apply image_set map_map map_eq_conv seated_sels(1))
qed

text \<open>The number of a spy is not one that a connection has.\<close>

lemma newcomer_not_spy:
  assumes ok: "bots_ok w" and n: "n \<in> ci_clientnum ` set (roster w)" "n < MAXCLIENTS"
  shows "\<not> ci_spy (client n w)"
proof -
  from n(1) obtain ci where ci: "ci \<in> set (roster w)" "ci_clientnum ci = n" by blast
  then have "seated ci \<in> set (map seated (clients w) @ map seated (connects w))" by (auto simp: roster_def)
  from table_okD(4) [OF ok [unfolded bots_ok_seated] this] n(2) ci(2) bots_ok_client [OF ok ci(1)] show ?thesis
    by (auto simp: seat_ok_def inrange_def split: if_splits)
qed

context game_modes
begin

lemma msg_connect_ok:
  assumes ok: "bots_ok w" and n: "n \<in> ci_clientnum ` set (connects w)" "n < MAXCLIENTS" and spy: "no_spy_hook n w"
    and step: "msg_connect modes n n p w = Some r"
  shows "bots_ok (outcome_world r)"
proof -
  define a where "a = upd_client n (\<lambda>ci. ci\<lparr>ci_name := unnamed (filtertext False False MAXNAMELEN (fst (gettext p))),
    ci_playermodel := fst (geti (snd (gettext p))), ci_state := (ci_state ci)\<lparr>gs_lastdeath := - 5000\<rparr>\<rparr>) w"
  define pwd where "pwd = fst (gettext_n MAXSTRLEN (snd (geti (snd (gettext p)))))"
  have a: "seating a = seating w" by (simp add: a_def seating_client seated_state)
  have oka: "bots_ok a" using ok seating_bots_ok [OF a] by simp
  have na: "n \<in> ci_clientnum ` set (connects a)" using n seating_numbers [OF a] by simp
  have spya: "no_spy_hook n a" using spy by (simp add: no_spy_hook_def a_def upd_client_def)
  show ?thesis
  proof (cases "allowconnect n pwd a")
    case None
    then have "r = Fault ''use after free'' a"
      using step unfolding msg_connect_def Let_def split_beta a_def [symmetric] pwd_def [symmetric] by simp
    then show ?thesis using oka by simp
  next
    case (Some x)
    then obtain d cn b where x: "allowconnect n pwd a = Some (d, cn, b)" by (cases x) auto
    have "\<not> ci_spy (client n a)" by (rule newcomer_not_spy [OF oka]) (use na n in \<open>auto simp: roster_def\<close>)
    from seating_allowconnect [OF oka this spya x] have cn: "cn = n" and b: "seating b = seating a" by simp_all
    have okb: "bots_ok b" using oka seating_bots_ok [OF b] by simp
    have nb: "n \<in> ci_clientnum ` set (connects b)" using na seating_numbers [OF b] by simp
    consider v where "connected modes n b = Some v" "outcome_world r = v" | "outcome_world r = disconnect_client (modes (gamemode b)) n d b"
      | f g h k where "outcome_world r = upd_client n (\<lambda>ci. ci\<lparr>ci_connectauth := f\<rparr>) (tryauth n g h k b)"
      using step unfolding msg_connect_def Let_def split_beta a_def [symmetric] pwd_def [symmetric] x cn
      by (auto simp: bind_eq_Some_conv split: if_splits)
    then show ?thesis
    proof cases
      case 1
      then show ?thesis using safe_connected [OF okb nb] by simp
    next
      case 2
      then show ?thesis using okb play.safe_disconnect_client unfolding safe_def by simp
    next
      case (3 f g h k)
      then have "seating (outcome_world r) = seating b" by (simp add: seating_client)
      then show ?thesis using okb seating_bots_ok by blast
    qed
  qed
qed

lemma new_msg_ok:
  assumes ok: "bots_ok w" and n: "t = N_CONNECT \<Longrightarrow> n \<in> ci_clientnum ` set (connects w)" "n < MAXCLIENTS" and spy: "no_spy_hook n w"
    and step: "new_msg modes n n t p w = Some r"
  shows "bots_ok (outcome_world r)"
proof (cases "t = N_CONNECT")
  case True
  then show ?thesis using msg_connect_ok [OF ok n(1) n(2) spy] step by (simp add: new_msg_def)
next
  case False
  then have "seating (outcome_world r) = seating w \<or> outcome_world r = disconnect_client (modes (gamemode w)) n DISC_MSGERR w"
    using step by (auto simp: new_msg_def split_beta Let_def split: if_splits)
  then show ?thesis using ok seating_bots_ok [of "outcome_world r" w] play.safe_disconnect_client unfolding safe_def by auto
qed

lemma safe_engine_disconnect: "safe w (engine_disconnect (modes g) n w)"
  unfolding safe_def
proof
  assume ok: "bots_ok w"
  show "bots_ok (engine_disconnect (modes g) n w)"
  proof (cases "getclientinfo n w")
    case (Some ci)
    from getclientinfo_human [OF ok Some] have "human (ci_clientnum ci) w" "getinfo n w = Some ci" by simp_all
    then have "safe w (clientdisconnect (modes g) n DISC_NONE w)" by (intro play.safe_clientdisconnect) simp
    then have "safe w (delclient n (clientdisconnect (modes g) n DISC_NONE w))" by (rule safe_trans) (rule safe_delclient)
    then show ?thesis using Some ok by (simp add: engine_disconnect_def safe_def)
  qed (simp add: engine_disconnect_def ok)
qed

end

end
