(* ===== verification/Reachable.thy ===== *)
theory Reachable
  imports Server
begin

text \<open>
  The server as a whole: \<open>server_reachable\<close> are the states that it gets into from an empty one, by connections, packets, scripts and
  ticks in any order. A world has the state of one objective mode, so there are four tables of modes, one for a server
  that plays no objective mode and one for each of the three; each fulfils the contract of the theory \<open>Server\<close>.
\<close>

subsection \<open>The tables of modes\<close>

definition plain_modes :: "'a modetable" where "plain_modes g = None"
definition plain_msgs :: "int \<Rightarrow> 'a world_scheme modemsgs" where "plain_msgs g = no_msgs"

definition ctf_modes :: "int \<Rightarrow> ctf servmode option" where "ctf_modes g = (if m_ctf g then Some ctfmode else None)"
definition ctf_msgs_of :: "int \<Rightarrow> ctf modemsgs" where "ctf_msgs_of g = (if m_ctf g then ctf_msgs else no_msgs)"

definition capture_modes :: "int \<Rightarrow> capture servmode option" where "capture_modes g = (if m_capture g then Some capturemode else None)"
definition capture_msgs_of :: "int \<Rightarrow> capture modemsgs" where "capture_msgs_of g = (if m_capture g then capture_msgs else no_msgs)"

definition collect_modes :: "int \<Rightarrow> collect servmode option" where "collect_modes g = (if m_collect g then Some collectmode else None)"
definition collect_msgs_of :: "int \<Rightarrow> collect modemsgs" where "collect_msgs_of g = (if m_collect g then collect_msgs else no_msgs)"

lemma smode_none [simp]: "smode_cleanup None w = w" "smode_setup None w = w" "smode_update None w = w" "smode_newmap None w = w"
  by (simp_all add: smode_cleanup_def smode_setup_def smode_update_def smode_newmap_def)

lemma smode_some [simp]:
  "smode_cleanup (Some m) w = sm_cleanup m w" "smode_setup (Some m) w = sm_setup m w" "smode_update (Some m) w = sm_update m w"
  "smode_newmap (Some m) w = sm_newmap m w"
  by (simp_all add: smode_cleanup_def smode_setup_def smode_update_def smode_newmap_def)

interpretation plain_server: game_packets plain_modes plain_msgs
  by (intro game_packets.intro game_modes.intro game_packets_axioms.intro) (simp_all add: plain_modes_def plain_msgs_def no_packets.packet_mode_axioms no_mode_frame.mode_frame_axioms)

subsection \<open>Flags\<close>

lemma lineup_ctf_reset [simp]: "lineup (ctf_reset e c) = lineup c"
  by (simp add: ctf_reset_def resetflags_def)

lemma lineup_ctf_loops [simp]: "lineup (setup_holdspawns es c) = lineup c" "lineup (setup_flags es c) = lineup c"
  by (induction es arbitrary: c) (simp_all add: split_beta Let_def)

lemma lineup_ctf_setup [simp]: "lineup (ctf_setup c) = lineup c"
  by (simp add: ctf_setup_def setupholdspawns_def Let_def)

lemma lineup_ctf_steps [simp]: "lineup (update_dropped i c) = lineup c" "lineup (update_invis i c) = lineup c" "lineup (update_hold i c) = lineup c"
  by (simp_all add: update_dropped_def update_invis_def update_hold_def split_beta Let_def split: option.split)

lemma lineup_ctf_update [simp]: "lineup (ctf_update c) = lineup c"
  by (simp add: ctf_update_def lineup_fold)

interpretation ctf_server: game_packets ctf_modes ctf_msgs_of
proof (intro game_packets.intro game_modes.intro game_packets_axioms.intro)
  fix g and w :: ctf
  show "mode_frame (ctf_modes g)" by (simp add: ctf_modes_def no_mode_frame.mode_frame_axioms ctf_contract.mode_frame_axioms)
  show "packet_mode (ctf_modes g) (ctf_msgs_of g)"
    by (simp add: ctf_modes_def ctf_msgs_of_def no_packets.packet_mode_axioms ctf_packets.packet_mode_axioms)
  show "lineup (smode_cleanup (ctf_modes g) w) = lineup w" "lineup (smode_setup (ctf_modes g) w) = lineup w"
    "lineup (smode_update (ctf_modes g) w) = lineup w" "lineup (smode_newmap (ctf_modes g) w) = lineup w"
    by (simp_all add: ctf_modes_def ctfmode_def ctf_cleanup_def ctf_newmap_def)
qed

subsection \<open>Bases\<close>

lemma lineup_cap_reset [simp]: "lineup (cap_reset e c) = lineup c"
  by (simp add: cap_reset_def resetbases_def lineup_def)

lemma lineup_cap_setup [simp]: "lineup (cap_setup c) = lineup c"
  by (simp add: cap_setup_def lineup_fold Let_def)

lemma aitype_on_fps: "aitype (f (fpsstate.truncate s)) = aitype (fpsstate.truncate s) \<Longrightarrow> aitype (on_fps f s) = aitype s"
  by (simp add: on_fps_def fpsstate.truncate_def Let_def)

lemma aitype_regen: "aitype (regen_ammo b k (regen_armour k (regen_health k s))) = aitype s"
  by (simp add: regen_ammo_def regen_armour_def regen_health_def addammo_def Let_def)

lemma lineup_regen [simp]: "lineup (regen_client b k ci c) = lineup c" "lineup (regenowners b k c) = lineup c"
proof -
  show r: "lineup (regen_client b k ci c) = lineup c" for ci c
    by (simp add: regen_client_def Let_def lineup_state aitype_on_fps aitype_regen)
  show "lineup (regenowners b k c) = lineup c" by (simp add: regenowners_def lineup_fold r)
qed

lemma lineup_cap_steps [simp]: "lineup (c\<lparr>cap_scores := sc\<rparr>) = lineup c" "lineup (cap_addscore i tm n c) = lineup c" "lineup (update_base t i c) = lineup c"
proof -
  show s: "lineup (c\<lparr>cap_scores := sc\<rparr>) = lineup c" for c sc by (simp add: lineup_def)
  show a: "lineup (cap_addscore i tm n c) = lineup c" for c n tm by (simp add: cap_addscore_def s Let_def)
  show "lineup (update_base t i c) = lineup c" by (simp add: update_base_def a Let_def)
qed

lemma lineup_cap_update [simp]: "lineup (cap_update c) = lineup c"
  by (simp add: cap_update_def endcheck_def lineup_fold Let_def split: option.split)

interpretation capture_server: game_packets capture_modes capture_msgs_of
proof (intro game_packets.intro game_modes.intro game_packets_axioms.intro)
  fix g and w :: capture
  show "mode_frame (capture_modes g)" by (simp add: capture_modes_def no_mode_frame.mode_frame_axioms capture_contract.mode_frame_axioms)
  show "packet_mode (capture_modes g) (capture_msgs_of g)"
    by (simp add: capture_modes_def capture_msgs_of_def no_packets.packet_mode_axioms capture_packets.packet_mode_axioms)
  show "lineup (smode_cleanup (capture_modes g) w) = lineup w" "lineup (smode_setup (capture_modes g) w) = lineup w"
    "lineup (smode_update (capture_modes g) w) = lineup w" "lineup (smode_newmap (capture_modes g) w) = lineup w"
    by (simp_all add: capture_modes_def capturemode_def cap_cleanup_def cap_newmap_def)
qed

subsection \<open>Tokens\<close>

lemma lineup_col_reset [simp]: "lineup (col_reset e c) = lineup c" "lineup (c\<lparr>tokens := ts\<rparr>) = lineup c"
  by (simp_all add: col_reset_def col_resetbases_def lineup_def)

lemma lineup_col_setup_bases [simp]: "lineup (col_setup_bases es c) = lineup c"
  by (induction es arbitrary: c) (simp_all add: col_addbase_def Let_def)

lemma lineup_col_steps [simp]: "lineup (col_setup c) = lineup c" "lineup (col_update c) = lineup c"
  by (simp_all add: col_setup_def col_update_def split_beta Let_def)

interpretation collect_server: game_packets collect_modes collect_msgs_of
proof (intro game_packets.intro game_modes.intro game_packets_axioms.intro)
  fix g and w :: collect
  show "mode_frame (collect_modes g)" by (simp add: collect_modes_def no_mode_frame.mode_frame_axioms collect_contract.mode_frame_axioms)
  show "packet_mode (collect_modes g) (collect_msgs_of g)"
    by (simp add: collect_modes_def collect_msgs_of_def no_packets.packet_mode_axioms collect_packets.packet_mode_axioms)
  show "lineup (smode_cleanup (collect_modes g) w) = lineup w" "lineup (smode_setup (collect_modes g) w) = lineup w"
    "lineup (smode_update (collect_modes g) w) = lineup w" "lineup (smode_newmap (collect_modes g) w) = lineup w"
    by (simp_all add: collect_modes_def collectmode_def col_cleanup_def col_newmap_def)
qed

subsection \<open>Everything that happens to a server\<close>

text \<open>An empty server starts. The engine tells of connections and of their end; a packet of a client that has not entered is read
  message by message, one of a client that plays as a whole; ticks move the time on and \<^verbatim>\<open>sendpackets\<close> flushes what has
  gathered; scripts throw clients out and change the map. A client gets a number that no other has, and
  only one that has not entered yet enters, since \<open>checktype\<close> refuses \<^verbatim>\<open>N_CONNECT\<close> of others. Two things are left out, because the
  code does not survive them: packets whose handling uses memory outside of an object (\<open>Fault\<close>), and scripts that
  make a client a spy while it connects, whose new number may be that of another client.\<close>

inductive server_reachable :: "'a modetable \<Rightarrow> (int \<Rightarrow> 'a world_scheme modemsgs) \<Rightarrow> 'a world_scheme \<Rightarrow> bool"
  for modes msgs where
  start: "clients w = [] \<Longrightarrow> connects w = [] \<Longrightarrow> bots w = [] \<Longrightarrow> server_reachable modes msgs w"
| arrival: "server_reachable modes msgs w \<Longrightarrow> 0 \<le> n \<Longrightarrow> n < MAXCLIENTS \<Longrightarrow> getclientinfo n w = None
    \<Longrightarrow> server_reachable modes msgs (engine_connect modes n w)"
| newcomer: "server_reachable modes msgs w \<Longrightarrow> n < MAXCLIENTS \<Longrightarrow> checktype_new t n w = (k, u)
    \<Longrightarrow> (k = N_CONNECT \<Longrightarrow> n \<in> ci_clientnum ` set (connects w)) \<Longrightarrow> no_spy_hook n w \<Longrightarrow> new_msg modes n n k p u = Some r
    \<Longrightarrow> server_reachable modes msgs (outcome_world r)"
| packet: "server_reachable modes msgs w \<Longrightarrow> dlen p \<le> dmaxlen p \<Longrightarrow> parse_all modes msgs sender me cq p w = Some (Stop v)
    \<Longrightarrow> server_reachable modes msgs v"
| departure: "server_reachable modes msgs w \<Longrightarrow> server_reachable modes msgs (engine_disconnect (modes (gamemode w)) n w)"
| expulsion: "server_reachable modes msgs w \<Longrightarrow> server_reachable modes msgs (disconnect_client (modes (gamemode w)) n reason w)"
| tick: "server_reachable modes msgs w \<Longrightarrow> serverupdate modes (w\<lparr>curtime := a, lastmillis := b, totalmillis := c\<rparr>) = Some v
    \<Longrightarrow> server_reachable modes msgs v"
| flush: "server_reachable modes msgs w \<Longrightarrow> sendpackets force w = Some (f, v) \<Longrightarrow> server_reachable modes msgs v"
| newgame: "server_reachable modes msgs w \<Longrightarrow> changemap modes s mode mins w = Some v \<Longrightarrow> server_reachable modes msgs v"

text \<open>What the tables say of each other, spelled out: numbers are unique, the table of bots has exactly the bots among the clients, and
  who lists a bot is its owner.\<close>

definition is_bot :: "clientinfo \<Rightarrow> bool" where "is_bot ci \<longleftrightarrow> aitype (ci_state ci) \<noteq> AI_NONE"

definition tables_agree :: "'a world_scheme \<Rightarrow> bool" where
  "tables_agree w \<longleftrightarrow> distinct (map ci_clientnum (roster w))
     \<and> set (filter (\<lambda>e. e \<noteq> None) (bots w)) = (Some \<circ> ci_clientnum) ` set (filter is_bot (clients w))
     \<and> (\<forall>oi \<in> set (roster w). distinct (ci_bots oi)
          \<and> (\<forall>b \<in> set (ci_bots oi). \<exists>ci \<in> set (clients w). ci_clientnum ci = b \<and> is_bot ci \<and> ci_ownernum ci = ci_clientnum oi))"

lemma bots_ok_agree:
  assumes ok: "bots_ok w"
  shows "tables_agree w"
  unfolding tables_agree_def
proof (intro conjI ballI)
  note t = ok [unfolded bots_ok_seated]
  show "distinct (map ci_clientnum (roster w))" by (rule roster_distinct [OF ok])
  show "set (filter (\<lambda>e. e \<noteq> None) (bots w)) = (Some \<circ> ci_clientnum) ` set (filter is_bot (clients w))" (is "?B = ?C")
  proof
    show "?B \<subseteq> ?C"
    proof
      fix e assume "e \<in> ?B"
      then obtain i b where i: "i < length (bots w)" "bots w ! i = Some b" "e = Some b" by (auto simp: in_set_conv_nth)
      from table_okD(6) [OF t] i(1,2) have b: "b = MAXCLIENTS + int i" "b \<in> s_num ` set (map seated (clients w))" by (auto simp: slots_ok_iff)
      then obtain ci where ci: "ci \<in> set (clients w)" "ci_clientnum ci = b" by auto
      then have "seated ci \<in> set (map seated (clients w) @ map seated (connects w))" by simp
      from bot_number [OF t this i(1)] ci(2) b(1) have "is_bot ci" by (simp add: is_bot_def)
      then show "e \<in> ?C" using ci i(3) by auto
    qed
    show "?C \<subseteq> ?B"
    proof
      fix e assume "e \<in> ?C"
      then obtain ci where ci: "ci \<in> set (clients w)" "is_bot ci" "e = Some (ci_clientnum ci)" by auto
      then have "seated ci \<in> set (map seated (clients w) @ map seated (connects w))" by simp
      from table_okD(4) [OF t this] ci(2) have i: "inrange (ci_clientnum ci - MAXCLIENTS) (bots w)"
        "bots w ! nat (ci_clientnum ci - MAXCLIENTS) = Some (ci_clientnum ci)" by (simp_all add: seat_ok_def is_bot_def)
      then have "nat (ci_clientnum ci - MAXCLIENTS) < length (bots w)" by (simp add: inrange_def nat_less_iff)
      from nth_mem [OF this] i(2) show "e \<in> ?B" using ci(3) by simp
    qed
  qed
next
  fix oi assume "oi \<in> set (roster w)"
  then have "seated oi \<in> set (map seated (clients w) @ map seated (connects w))" by (auto simp: roster_def)
  from table_okD(5) [OF ok [unfolded bots_ok_seated] this] have l: "listing_ok (map seated (clients w)) (seated oi)" .
  then show "distinct (ci_bots oi)" by (simp add: listing_ok_def)
  show "\<exists>ci \<in> set (clients w). ci_clientnum ci = b \<and> is_bot ci \<and> ci_ownernum ci = ci_clientnum oi" if "b \<in> set (ci_bots oi)" for b
    using l that by (auto simp: listing_ok_def is_bot_def)
qed

context game_packets
begin

lemma reachable_ok: "server_reachable modes msgs w \<Longrightarrow> bots_ok w"
proof (induction rule: server_reachable.induct)
  case (start w)
  then show ?case by (simp add: bots_ok_seated table_ok_def slots_ok_def)
next
  case (newcomer w n t k u p r)
  have u: "seating u = seating w" using newcomer.hyps(3) seating_checktype [of t n w] by simp
  have "no_spy_hook n u" using newcomer.hyps(3,5) conf_checktype [of t n w] by (simp add: no_spy_hook_def)
  from new_msg_ok [OF _ _ newcomer.hyps(2) this newcomer.hyps(6)] u show ?case
    using newcomer.IH newcomer.hyps(4) seating_bots_ok [of u w] seating_numbers [of u w] by simp
next
  case (packet w p sender me cq v)
  then show ?case using moves_all [of sender me cq p w "Stop v"] by (simp add: moves_def safe_def)
next
  case (tick w c b a v)
  then show ?case using safe_serverupdate [OF tick.hyps(2)] seating_bots_ok [of "w\<lparr>curtime := a, lastmillis := b, totalmillis := c\<rparr>" w]
    by (simp add: safe_def seating_def)
next
  case (flush w force f v)
  then show ?case using seating_bots_ok [OF seating_sendpackets] by blast
qed (use safe_engine_connect safe_engine_disconnect play.safe_disconnect_client safe_changemap in \<open>unfold safe_def, blast+\<close>)

end

subsection \<open>A change of the map returns\<close>

definition seat_tag :: "clientinfo \<Rightarrow> int \<times> bool" where "seat_tag ci = (ci_clientnum ci, is_bot ci)"

definition tags :: "'a world_scheme \<Rightarrow> (int \<times> bool) list" where "tags w = map seat_tag (clients w)"

definition tag_of :: "seat \<Rightarrow> int \<times> bool" where "tag_of s = (s_num s, \<not> s_human s)"

lemma tags_rows: "tags w = map tag_of (rows w)"
  by (simp add: tags_def tag_of_def seat_tag_def is_bot_def)

lemma tags_seating:
  fixes w w' :: "'a world_scheme"
  shows "seating w' = seating w \<Longrightarrow> tags w' = tags w"
proof -
  have t: "tags v = map tag_of (map seated (clients v))" for v :: "'a world_scheme" by (simp add: tags_def tag_of_def seat_tag_def is_bot_def)
  assume "seating w' = seating w"
  then have "map seated (clients w') = map seated (clients w)" by (simp add: seating_def)
  then show "tags w' = tags w" by (simp only: t)
qed

lemma unseen_seating:
  assumes "unseen w' w"
  shows "seating w' = seating w"
proof -
  have t: "map seated cs = map any_valid (map seat cs)" for cs by (simp add: seated_def [abs_def] any_valid_def [abs_def] comp_def)
  show ?thesis using assms unfolding seating_def unseen_def t by simp
qed

lemma tag_upd_rows: "(\<And>s. tag_of (g s) = tag_of s) \<Longrightarrow> map tag_of (upd_rows n g ss) = map tag_of ss"
  by (induction ss) (simp_all add: upd_rows_def)

context mode_frame
begin

lemma tags_release: "tags (release sm b w) = tags w"
proof -
  have "map tag_of (rows (remove_bot b owner v)) = map tag_of (rows v)" for owner and v :: "'a world_scheme"
    by (cases owner) (simp_all add: remove_bot_def tag_upd_rows tag_of_def rows_upd_client [where g = "unlist_bot b"] seat_remove_bot)
  then have "map tag_of (rows (release sm b w)) = map tag_of (rows (leave_bot sm b w))" unfolding release_def Let_def .
  also have "rows (leave_bot sm b w) = rows w" using unseen_leave [of b w] by (simp only: unseen_def)
  finally show ?thesis by (simp only: tags_rows)
qed

lemma tags_deleteai:
  assumes ok: "bots_ok w" and "Some b \<in> set (bots w)"
  shows "filter (\<lambda>t. \<not> snd t) (tags (deleteai sm b w)) = filter (\<lambda>t. \<not> snd t) (tags w)"
proof -
  obtain i ci where i: "i < length (bots w)" "b = MAXCLIENTS + int i" and ci: "ci \<in> set (clients w)" "ci_clientnum ci = b" "aitype (ci_state ci) \<noteq> AI_NONE"
    using assms by (rule bot_entry)
  have "tags (deleteai sm b w) = filter (\<lambda>t. fst t \<noteq> b) (tags (release sm b w))"
    using deleteai_release(1) [of b w sm] i by (simp add: tags_rows inrange_def filter_map comp_def tag_of_def)
  moreover have "is_bot c" if "c \<in> set (clients w)" "ci_clientnum c = b" for c
    using that ci bots_ok_client [OF ok, of c] bots_ok_client [OF ok, of ci] by (simp add: is_bot_def roster_def)
  then have "filter (\<lambda>t. \<not> snd t \<and> fst t \<noteq> b) (tags w) = filter (\<lambda>t. \<not> snd t) (tags w)"
    by (intro filter_cong) (auto simp: tags_def seat_tag_def)
  ultimately show ?thesis by (simp add: tags_release conj_commute)
qed

lemma tags_clear_loop:
  assumes "bots_ok w" and "n \<le> length (bots w)"
  shows "filter (\<lambda>t. \<not> snd t) (tags (clear_loop sm n w)) = filter (\<lambda>t. \<not> snd t) (tags w)"
  using assms
proof (induction n arbitrary: w)
  case (Suc n)
  let ?v = "case bots w ! n of Some b \<Rightarrow> deleteai sm b w | None \<Rightarrow> w"
  have "bots_ok ?v \<and> n \<le> length (bots ?v) \<and> filter (\<lambda>t. \<not> snd t) (tags ?v) = filter (\<lambda>t. \<not> snd t) (tags w)"
  proof (cases "bots w ! n")
    case (Some b)
    then have "Some b \<in> set (bots w)" using Suc.prems(2) by (metis Suc_le_eq nth_mem)
    then show ?thesis using deleteai_ok [OF Suc.prems(1), of b] tags_deleteai [OF Suc.prems(1), of b] Some Suc.prems(2) by simp
  qed (use Suc.prems in simp)
  then show ?case using Suc.IH [of ?v] by simp
qed simp

lemma cleared:
  assumes "bots_ok w"
  shows "set (bots (clearai sm w)) \<subseteq> {None}" "tags (clearai sm w) = filter (\<lambda>t. \<not> snd t) (tags w)"
proof -
  note c = clear_loop_ok [OF assms order_refl]
  show none: "set (bots (clearai sm w)) \<subseteq> {None}" using c by (auto simp: clearai_def in_set_conv_nth)
  have ok: "bots_ok (clearai sm w)" using safe_clearai assms unfolding safe_def by blast
  have "filter is_bot (clients (clearai sm w)) = []"
  proof -
    have "(Some \<circ> ci_clientnum) ` set (filter is_bot (clients (clearai sm w))) = {}"
      using bots_ok_agree [OF ok] none unfolding tables_agree_def by auto
    then show ?thesis by (simp only: image_is_empty set_empty)
  qed
  then have "filter (\<lambda>t. \<not> snd t) (tags (clearai sm w)) = tags (clearai sm w)"
    by (simp add: tags_def filter_map comp_def seat_tag_def filter_empty_conv)
  then show "tags (clearai sm w) = filter (\<lambda>t. \<not> snd t) (tags w)"
    using tags_clear_loop [OF assms order_refl] by (simp add: clearai_def tags_def)
qed

end

lemma sendspawn_seating:
  assumes ok: "bots_ok w" and "sendspawn cn w = Some v"
  shows "seating v = seating w \<and> gamemode v = gamemode w"
proof (cases "ci_no_spawn (client cn w) = 1")
  case False
  then obtain x where x: "spawnstate_ci cn w = Some x" and v: "seating v = seating x" "gamemode v = gamemode x"
    using assms(2) by (auto simp: sendspawn_def bind_eq_Some_conv seating_state Let_def)
  have "gamemode x = gamemode w" using x by (auto simp: spawnstate_ci_def upd_state_def Let_def split: option.splits)
  then show ?thesis using unseen_seating [OF spawnstate_ci_unseen [OF ok x]] v by simp
qed (use assms in \<open>simp add: sendspawn_def\<close>)

lemma restart_some:
  assumes "bots_ok w" and "\<not> m_tactics (gamemode w)"
  shows "\<exists>v. restart_players cns w = Some v \<and> seating v = seating w \<and> gamemode v = gamemode w"
  using assms
proof (induction cns arbitrary: w)
  case (Cons cn cns)
  define u where "u = upd_client cn (\<lambda>ci. (ci_mapchange ci)\<lparr>ci_state := (ci_state (ci_mapchange ci))\<lparr>gs_lasttimeplayed := lastmillis w\<rparr>\<rparr>) w"
  have u: "seating u = seating w" "gamemode u = gamemode w" by (simp_all add: u_def seating_client seated_mapchange)
  then have ok: "bots_ok u" "\<not> m_tactics (gamemode u)" using Cons.prems seating_bots_ok [of u w] by simp_all
  obtain x where x: "(if m_mp (gamemode u) \<and> gs_state (cstate cn u) \<noteq> CS_SPECTATOR then sendspawn cn u else Some u) = Some x"
    "seating x = seating u" "gamemode x = gamemode u"
  proof (cases "m_mp (gamemode u) \<and> gs_state (cstate cn u) \<noteq> CS_SPECTATOR")
    case True
    obtain y where "sendspawn cn u = Some y" using no_mode_frame.sendspawn_some [OF ok(2), of cn] by blast
    then show thesis using that True sendspawn_seating [OF ok(1)] by simp
  next
    case False
    then have "(if m_mp (gamemode u) \<and> gs_state (cstate cn u) \<noteq> CS_SPECTATOR then sendspawn cn u else Some u) = Some u" by (rule if_not_P)
    then show thesis using that by blast
  qed
  then have "bots_ok x" "\<not> m_tactics (gamemode x)" using ok seating_bots_ok [of x u] by simp_all
  from Cons.IH [OF this] obtain v where "restart_players cns x = Some v" "seating v = seating x" "gamemode v = gamemode x" by blast
  then show ?case using x u by (simp add: Let_def flip: u_def)
qed simp

lemma setupdemo_some: "\<exists>v. setupdemorecord sm w = Some v \<and> seating v = seating w \<and> gamemode v = gamemode w"
  by (simp add: setupdemorecord_def welcomepacket_def Let_def servmsg_def writedemo_def)

lemma gamemode_teams [simp]: "gamemode (addteaminfo t w) = gamemode w" "gamemode (clearteaminfo w) = gamemode w" "gamemode (assign_team sm t cn w) = gamemode w"
  by (simp_all add: addteaminfo_def pruneteaminfo_def clearteaminfo_def assign_team_def Let_def)

lemma gamemode_fold: "(\<And>x w. gamemode (f x w) = gamemode w) \<Longrightarrow> gamemode (fold f xs w) = gamemode w"
  by (induction xs arbitrary: w) simp_all

lemma gamemode_autoteam [simp]: "gamemode (autoteam sm w) = gamemode w"
  by (simp add: autoteam_def split_beta Let_def gamemode_fold upd_state_def)

lemma gamemode_enter_map [simp]: "gamemode (enter_map s mode mins w) = mode"
proof -
  have l: "gamemode (load_sents i es w) = gamemode w" for i es and w :: "'a world_scheme" by (induction es arbitrary: i w) (simp_all add: Let_def)
  show ?thesis by (simp add: enter_map_def loaditems_def resetitems_def Let_def l split: option.split)
qed

context game_modes
begin

lemma ended:
  assumes "bots_ok w"
  shows "set (bots (end_game (modes g) w)) \<subseteq> {None}" "tags (end_game (modes g) w) = filter (\<lambda>t. \<not> snd t) (tags w)"
proof -
  define u where "u = smode_cleanup (modes g) (changegamespeed 100 None (pausegame False None (stopdemo (emit (Event ''finishedgame'' []) (calc_player_ranks w)))))"
  have u: "seating u = seating w" by (simp add: u_def)
  then have "bots_ok u" using assms seating_bots_ok by blast
  from play.cleared [OF this] show "set (bots (end_game (modes g) w)) \<subseteq> {None}" "tags (end_game (modes g) w) = filter (\<lambda>t. \<not> snd t) (tags w)"
    unfolding end_game_def Let_def u_def [symmetric] by (simp_all add: tags_seating [OF u])
qed

lemma changemap_some:
  assumes ok: "bots_ok w" and mode: "m_mp mode" "\<not> m_tactics mode"
  shows "\<exists>v. changemap modes s mode mins w = Some v \<and> gamemode v = mode \<and> seating v = seating (end_game (modes (gamemode w)) w)"
proof -
  define a where "a = enter_map s mode mins (end_game (modes (gamemode w)) w)"
  define c where "c = clearteaminfo (emit (sendf (- 1) 1 [MI N_MAPCHANGE, MS (smapname a), MI mode, MI 1]) a)"
  define d where "d = (if m_teammode mode then autoteam (modes mode) c else c)"
  define e where "e = (if m_timed mode \<and> smapname d \<noteq> [] then emit (sendf (- 1) 1 [MI N_TIMEUP, MI (timeleft d)]) d else d)"
  have e: "seating e = seating (end_game (modes (gamemode w)) w)" "gamemode e = mode" by (simp_all add: a_def c_def d_def e_def)
  have "bots_ok (end_game (modes (gamemode w)) w)" using safe_end_game ok unfolding safe_def by blast
  then have "bots_ok e" "\<not> m_tactics (gamemode e)" using seating_bots_ok [OF e(1)] mode e(2) by simp_all
  from restart_some [OF this] obtain f where f: "restart_players (map ci_clientnum (clients e)) e = Some f" "seating f = seating e" "gamemode f = mode"
    using e(2) by blast
  define g where "g = ai_changemap f"
  have g: "seating g = seating e" "gamemode g = mode" using f by (simp_all add: g_def) (simp add: ai_changemap_def setbotbalance_def Let_def)
  obtain h where h: "(if m_demo mode then Some g
             else do {
               w \<leftarrow> (if demonextmatch (conf g) then setupdemorecord (modes mode) g else Some g);
               Some (w\<lparr>conf := (conf w)\<lparr>demonextmatch := autorecorddemo (conf w)\<rparr>\<rparr>)
             }) = Some h" "seating h = seating e" "gamemode h = mode"
  proof -
    obtain x where x: "setupdemorecord (modes mode) g = Some x" "seating x = seating g" "gamemode x = gamemode g" using setupdemo_some by blast
    define y where "y = (if demonextmatch (conf g) then x else g)"
    have y: "(if demonextmatch (conf g) then setupdemorecord (modes mode) g else Some g) = Some y" "seating y = seating e" "gamemode y = mode"
      using x g by (simp_all add: y_def)
    show thesis
      by (rule that [of "if m_demo mode then g else y\<lparr>conf := (conf y)\<lparr>demonextmatch := autorecorddemo (conf y)\<rparr>\<rparr>"]) (use y g in simp_all)
  qed
  have "gamemode (smode_setup (modes mode) h) = mode" using lineup_setup [of mode h] h(3) by (simp add: lineup_def)
  moreover have "changemap modes s mode mins w = Some ((emit (Event ''mapchange'' [MS (utf8 h (smapname h)),
      MS (modename mode ''unknown'')]) (smode_setup (modes mode) h))\<lparr>next_timeupdate := 0\<rparr>)"
    using f(1) h(1) unfolding changemap_def Let_def a_def [symmetric] if_P [OF mode(1)] c_def [symmetric] d_def [symmetric] e_def [symmetric]
    by (simp only: Option.bind.bind_lunit g_def [symmetric])
  ultimately show ?thesis using h e(1) by simp
qed

end

subsection \<open>The tables of every server\<close>

text \<open>C2: whatever happens to a server (connections, packets, departures, votes, ticks, flushes, kicks and new maps in any
  order, with no objective mode, with flags, with bases or with tokens), the tables of clients and bots agree: no two
  clients have the same number, every bot in the game has its own entry in the table of bots and there is no other
  entry, a client lists no bot twice, and a bot that a client lists is in the game and has that client as its owner. So
  following the table of bots or the list of a client never leads to a client that is gone. Nothing is said the other way
  round: after \<open>addai_reuse_unlisted\<close> a bot may name an owner that does not list it, and that owner may leave. The
  packets are those whose handling stays within the objects (the others are the subject of
  \<open>packet_uses_freed_bot\<close>, \<open>itemlist_writes_outside\<close> and \<open>editent_writes_outside\<close>), and no script
  makes a client a spy.\<close>

theorem server_keeps_tables:
  fixes w :: "'a world_scheme" and f :: ctf and b :: capture and t :: collect
  assumes "server_reachable plain_modes plain_msgs w" and "server_reachable ctf_modes ctf_msgs_of f"
    and "server_reachable capture_modes capture_msgs_of b" and "server_reachable collect_modes collect_msgs_of t"
  shows "bots_ok w \<and> tables_agree w \<and> bots_ok f \<and> tables_agree f \<and> bots_ok b \<and> tables_agree b \<and> bots_ok t \<and> tables_agree t"
  by (intro conjI bots_ok_agree plain_server.reachable_ok ctf_server.reachable_ok capture_server.reachable_ok collect_server.reachable_ok assms)

text \<open>A client connects to an empty server and enters, and another one connects.\<close>

definition empty_server :: world where "empty_server = sample_world\<lparr>gamemode := 0, clients := [], nonlocalclients := 0\<rparr>"

definition hello_packet :: "uchar databuf" where "hello_packet = databuf_new [97, 0, 0, 0, 0, 0] 6"

definition after_hello :: world where
  "after_hello = (case new_msg plain_modes 3 3 N_CONNECT hello_packet (engine_connect plain_modes 3 empty_server) of
     Some r \<Rightarrow> outcome_world r | None \<Rightarrow> empty_server)"

definition two_guests :: world where "two_guests = engine_connect plain_modes 5 after_hello"

abbreviation before_hello :: world where "before_hello \<equiv> engine_connect plain_modes 3 empty_server"

lemma hello_accepted:
  "new_msg plain_modes 3 3 N_CONNECT hello_packet before_hello \<noteq> None"
  "\<not> ci_connected (client 3 before_hello) \<and> ci_connectauth (client 3 before_hello) = 0"
  "map ci_clientnum (connects before_hello) = [3]"
  by code_simp+

lemma guest_numbers:
  "map ci_n (roster after_hello) = [3]" "map ci_clientnum (clients two_guests) = [3]" "map ci_clientnum (connects two_guests) = [5]"
  by code_simp+

lemma after_hello_reachable: "server_reachable plain_modes plain_msgs after_hello"
proof -
  have start: "server_reachable plain_modes plain_msgs before_hello"
  proof (rule server_reachable.arrival)
    show "server_reachable plain_modes plain_msgs empty_server" by (rule server_reachable.start) (simp_all add: empty_server_def sample_world_def)
    show "getclientinfo 3 empty_server = None" by (simp add: getclientinfo_def empty_server_def sample_world_def roster_def)
  qed simp_all
  have ct: "checktype_new N_CONNECT 3 before_hello = (N_CONNECT, before_hello)"
    using hello_accepted(2) by (simp add: checktype_new_def connectfilter_def Let_def)
  have "3 \<in> set (map ci_clientnum (connects before_hello))" unfolding hello_accepted(3) by simp
  then have mem: "3 \<in> ci_clientnum ` set (connects before_hello)" by (simp only: set_map)
  have "m_mp (gamemode empty_server)" by code_simp
  then have "conf before_hello = conf empty_server"
    by (simp add: engine_connect_def clientconnect_def draw_def sendservinfo_def emit_def Let_def split_beta)
  then have "conf before_hello = sample_conf" by (simp add: empty_server_def sample_world_def)
  then have spy: "no_spy_hook 3 before_hello" by (simp add: no_spy_hook_def sample_conf_def)
  obtain r where r: "new_msg plain_modes 3 3 N_CONNECT hello_packet before_hello = Some r" using hello_accepted(1) by blast
  then have "after_hello = outcome_world r" by (simp only: after_hello_def option.case)
  then show ?thesis using server_reachable.newcomer [OF start _ ct _ spy r] mem by simp
qed

lemma two_guests_reachable: "server_reachable plain_modes plain_msgs two_guests"
proof -
  have "ci_n ci = 3" if "ci \<in> set (roster after_hello)" for ci using that guest_numbers(1) by (metis imageI image_set list.set(1,2) singletonD)
  then have "getclientinfo 5 after_hello = None" by (auto simp: getclientinfo_def find_None_iff)
  then show ?thesis unfolding two_guests_def by (intro server_reachable.arrival [OF after_hello_reachable]) simp_all
qed

text \<open>A game with an empty table of clients, where the first one connects.\<close>

definition ctf_guest :: ctf where "ctf_guest = engine_connect ctf_modes 3 (sample_ctf\<lparr>clients := []\<rparr>)"
definition capture_guest :: capture where "capture_guest = engine_connect capture_modes 3 (sample_capture\<lparr>clients := []\<rparr>)"
definition collect_guest :: collect where "collect_guest = engine_connect collect_modes 3 (sample_collect\<lparr>clients := []\<rparr>)"

lemma guest_reachable:
  "clients w = [] \<Longrightarrow> connects w = [] \<Longrightarrow> bots w = [] \<Longrightarrow> server_reachable modes msgs (engine_connect modes 3 w)"
  by (rule server_reachable.arrival, rule server_reachable.start) (simp_all add: getclientinfo_def roster_def)

lemma guests_reachable:
  "server_reachable ctf_modes ctf_msgs_of ctf_guest" "server_reachable capture_modes capture_msgs_of capture_guest"
  "server_reachable collect_modes collect_msgs_of collect_guest"
  unfolding ctf_guest_def capture_guest_def collect_guest_def
  by (rule guest_reachable, code_simp, code_simp, code_simp)+

theorem server_keeps_tables_witness:
  "tables_agree two_guests \<and> map ci_clientnum (clients two_guests) = [3] \<and> map ci_clientnum (connects two_guests) = [5]
    \<and> tables_agree ctf_guest \<and> bots_ok capture_guest \<and> bots_ok collect_guest"
  using server_keeps_tables [OF two_guests_reachable guests_reachable] guest_numbers(2,3) by (intro conjI) simp_all

subsection \<open>The start of a game\<close>

text \<open>C9: a change of the map always comes to its end, in a server with any modes that keep their contract and for every multiplayer
  mode in which guns are not drawn in pairs: the mode is the new one, the tables of clients and bots agree, the bots of the
  old game are gone and every player and spectator is still there, in the same order. So no vote for such a mode and no
  rotation to one can hang the server or lose a client.\<close>

theorem changemap_starts_game:
  assumes "game_modes modes" and "bots_ok w" and "m_mp mode" and "\<not> m_tactics mode"
  shows "\<exists>v. changemap modes s mode mins w = Some v \<and> gamemode v = mode \<and> bots_ok v \<and> set (bots v) \<subseteq> {None}
    \<and> map ci_clientnum (clients v) = map ci_clientnum (filter (\<lambda>ci. \<not> is_bot ci) (clients w))"
proof -
  obtain v where v: "changemap modes s mode mins w = Some v" "gamemode v = mode" "seating v = seating (end_game (modes (gamemode w)) w)"
    using game_modes.changemap_some [OF assms] by blast
  note e = game_modes.ended [OF assms(1,2), of "gamemode w"]
  have "map fst (tags v) = map fst (filter (\<lambda>t. \<not> snd t) (tags w))" using e(2) tags_seating [OF v(3)] by simp
  then have "map ci_clientnum (clients v) = map ci_clientnum (filter (\<lambda>ci. \<not> is_bot ci) (clients w))"
    by (simp add: tags_def filter_map comp_def seat_tag_def)
  moreover have "bots v = bots (end_game (modes (gamemode w)) w)" using v(3) by (simp add: seating_def)
  moreover have "bots_ok v" using game_modes.safe_changemap [OF assms(1) v(1)] assms(2) by (simp add: safe_def)
  ultimately show ?thesis using v e(1) by auto
qed

theorem changemap_starts_game_witness:
  "\<exists>v. changemap ctf_modes ''reissen'' 11 10 sample_ctf = Some v \<and> gamemode v = 11 \<and> bots_ok v \<and> set (bots v) \<subseteq> {None}
    \<and> map ci_clientnum (clients v) = [0, 1, 2]"
proof -
  have h: "bots_ok sample_ctf" "m_mp 11" "\<not> m_tactics 11" "map ci_clientnum (filter (\<lambda>ci. \<not> is_bot ci) (clients sample_ctf)) = [0, 1, 2]"
    by code_simp+
  show ?thesis using changemap_starts_game [OF ctf_server.game_modes_axioms h(1-3), of "''reissen''" 10] h(4) by simp
qed

end
