(* ===== verification/Vectors.thy ===== *)
theory Vectors
  imports Sorting
begin

text \<open>
  The growing array \<^verbatim>\<open>vector<T>\<close> of \<^verbatim>\<open>src/src/shared/tools.h\<close>: a buffer of \<^verbatim>\<open>alen\<close> slots of which the
  first \<^verbatim>\<open>ulen\<close> are in use, with the operations that the server uses, and the binary heap on it. The contents of a
  vector are the list \<open>v_list\<close>; each operation refines an operation on lists. Growing is a loop that need not end
  when the capacity is one, so it may return \<open>None\<close>, and the theorems show that it never does. Slots that are
  allocated and not yet written hold \<open>junk\<close>.
\<close>

subsection \<open>The vector\<close>

record 'a vector =
  v_buf :: "'a list"
  v_ulen :: nat

definition vector_new :: "'a vector" where
  "vector_new = \<lparr>v_buf = [], v_ulen = 0\<rparr>"

definition MINSIZE :: nat where "MINSIZE = 8"

partial_function (option) grow_loop :: "nat \<Rightarrow> nat \<Rightarrow> nat option" where
  [code]: "grow_loop alen sz = (if alen < sz then grow_loop (alen + alen div 2) sz else Some alen)"

definition growbuf :: "'a \<Rightarrow> nat \<Rightarrow> 'a vector \<Rightarrow> 'a vector option" where
  "growbuf junk sz v =
     (let olen = length (v_buf v)
      in case (if olen = 0 then Some (max MINSIZE sz) else grow_loop olen sz) of
           None \<Rightarrow> None
         | Some alen \<Rightarrow>
             Some (if alen \<le> olen then v
                   else v\<lparr>v_buf := take (v_ulen v) (v_buf v) @ replicate (alen - v_ulen v) junk\<rparr>))"

definition v_add :: "'a \<Rightarrow> 'a \<Rightarrow> 'a vector \<Rightarrow> 'a vector option" where
  "v_add junk x v =
     (case (if v_ulen v = length (v_buf v) then growbuf junk (v_ulen v + 1) v else Some v) of
        None \<Rightarrow> None
      | Some v \<Rightarrow> Some (v\<lparr>v_buf := (v_buf v)[v_ulen v := x], v_ulen := v_ulen v + 1\<rparr>))"

definition v_pop :: "'a vector \<Rightarrow> 'a \<times> 'a vector" where
  "v_pop v = (v_buf v ! (v_ulen v - 1), v\<lparr>v_ulen := v_ulen v - 1\<rparr>)"

definition v_last :: "'a vector \<Rightarrow> 'a" where
  "v_last v = v_buf v ! (v_ulen v - 1)"

definition v_setsize :: "nat \<Rightarrow> 'a vector \<Rightarrow> 'a vector" where
  "v_setsize i v = v\<lparr>v_ulen := i\<rparr>"

text \<open>The loop of both forms of \<^verbatim>\<open>remove\<close>.\<close>

function (sequential) move_down :: "nat \<Rightarrow> nat \<Rightarrow> nat \<Rightarrow> 'a list \<Rightarrow> 'a list" where
  "move_down p n u buf = (if p < u then move_down (Suc p) n u (buf[p - n := buf ! p]) else buf)"
  by pat_completeness auto
termination
  by (relation "measure (\<lambda>(p, n, u, buf). u - p)") auto

definition v_remove_n :: "nat \<Rightarrow> nat \<Rightarrow> 'a vector \<Rightarrow> 'a vector" where
  "v_remove_n i n v = v\<lparr>v_buf := move_down (i + n) n (v_ulen v) (v_buf v), v_ulen := v_ulen v - n\<rparr>"

definition v_remove :: "nat \<Rightarrow> 'a vector \<Rightarrow> 'a \<times> 'a vector" where
  "v_remove i v = (v_buf v ! i, v_remove_n i 1 v)"

definition v_removeunordered :: "nat \<Rightarrow> 'a vector \<Rightarrow> 'a \<times> 'a vector" where
  "v_removeunordered i v =
     (let e = v_buf v ! i; v = v\<lparr>v_ulen := v_ulen v - 1\<rparr>
      in (e, if v_ulen v > 0 then v\<lparr>v_buf := (v_buf v)[i := v_buf v ! v_ulen v]\<rparr> else v))"

function (sequential) find_loop :: "nat \<Rightarrow> nat \<Rightarrow> ('a \<Rightarrow> bool) \<Rightarrow> 'a list \<Rightarrow> nat option" where
  "find_loop i u P buf = (if i < u then if P (buf ! i) then Some i else find_loop (Suc i) u P buf else None)"
  by pat_completeness auto
termination
  by (relation "measure (\<lambda>(i, u, P, buf). u - i)") auto

text \<open>\<^verbatim>\<open>find\<close> and \<^verbatim>\<open>htfind\<close>: \<open>None\<close> stands for \<open>-1\<close>.\<close>

definition v_find :: "'a \<Rightarrow> 'a vector \<Rightarrow> nat option" where
  "v_find e v = find_loop 0 (v_ulen v) (\<lambda>x. x = e) (v_buf v)"

definition v_htfind :: "('a \<Rightarrow> bool) \<Rightarrow> 'a vector \<Rightarrow> nat option" where
  "v_htfind htcmp v = find_loop 0 (v_ulen v) htcmp (v_buf v)"

definition v_addunique :: "'a \<Rightarrow> 'a \<Rightarrow> 'a vector \<Rightarrow> 'a vector option" where
  "v_addunique junk e v = (if v_find e v = None then v_add junk e v else Some v)"

function (sequential) removeobj_loop :: "nat \<Rightarrow> nat \<Rightarrow> nat \<Rightarrow> 'a \<Rightarrow> 'a list \<Rightarrow> nat \<times> 'a list" where
  "removeobj_loop j dst u e buf =
     (if j < u
      then if buf ! j \<noteq> e then removeobj_loop (Suc j) (Suc dst) u e (buf[dst := buf ! j])
           else removeobj_loop (Suc j) dst u e buf
      else (dst, buf))"
  by pat_completeness auto
termination
  by (relation "measure (\<lambda>(j, dst, u, e, buf). u - j)") auto

definition v_removeobj :: "'a \<Rightarrow> 'a vector \<Rightarrow> 'a vector" where
  "v_removeobj e v = (case v_find e v of
     None \<Rightarrow> v
   | Some i \<Rightarrow> let (dst, buf) = removeobj_loop (Suc i) i (v_ulen v) e (v_buf v) in v\<lparr>v_buf := buf, v_ulen := dst\<rparr>)"

function (sequential) move_up :: "nat \<Rightarrow> nat \<Rightarrow> 'a list \<Rightarrow> 'a list" where
  "move_up p i buf = (if p > i then move_up (p - 1) i (buf[p := buf ! (p - 1)]) else buf)"
  by pat_completeness auto
termination
  by (relation "measure (\<lambda>(p, i, buf). p)") auto

definition v_insert :: "'a \<Rightarrow> 'a \<Rightarrow> nat \<Rightarrow> 'a \<Rightarrow> 'a vector \<Rightarrow> 'a vector option" where
  "v_insert junk blank i e v = (case v_add junk blank v of
     None \<Rightarrow> None
   | Some v \<Rightarrow> Some (v\<lparr>v_buf := (move_up (v_ulen v - 1) i (v_buf v))[i := e]\<rparr>))"

fun reverse_loop :: "nat \<Rightarrow> nat \<Rightarrow> 'a list \<Rightarrow> 'a list" where
  "reverse_loop 0 u buf = buf"
| "reverse_loop (Suc k) u buf = swap k (u - 1 - k) (reverse_loop k u buf)"

definition v_reverse :: "'a vector \<Rightarrow> 'a vector" where
  "v_reverse v = v\<lparr>v_buf := reverse_loop (v_ulen v div 2) (v_ulen v) (v_buf v)\<rparr>"

declare move_down.simps [simp del] move_up.simps [simp del] find_loop.simps [simp del] removeobj_loop.simps [simp del]

subsection \<open>Vectors refine lists\<close>

definition v_list :: "'a vector \<Rightarrow> 'a list" where
  "v_list v = take (v_ulen v) (v_buf v)"

definition vec_ok :: "'a vector \<Rightarrow> bool" where
  "vec_ok v \<longleftrightarrow> v_ulen v \<le> length (v_buf v) \<and> (v_buf v = [] \<or> MINSIZE \<le> length (v_buf v))"

lemma grow_loop_enough: "2 \<le> alen \<Longrightarrow> \<exists>n. grow_loop alen sz = Some n \<and> sz \<le> n \<and> alen \<le> n"
proof (induction "sz - alen" arbitrary: alen rule: less_induct)
  case less
  show ?case
  proof (cases "alen < sz")
    case True
    have d: "alen < alen + alen div 2" "sz - (alen + alen div 2) < sz - alen" using less.prems True by auto
    then obtain n where "grow_loop (alen + alen div 2) sz = Some n" "sz \<le> n" "alen + alen div 2 \<le> n"
      using less.hyps [OF d(2)] less.prems by auto
    then show ?thesis using True d by (subst grow_loop.simps) (intro exI [of _ n], simp)
  next
    case False
    then show ?thesis by (subst grow_loop.simps) simp
  qed
qed

lemma growbuf_ok:
  assumes "vec_ok v"
  shows "\<exists>v'. growbuf junk sz v = Some v' \<and> vec_ok v' \<and> v_list v' = v_list v \<and> v_ulen v' = v_ulen v
    \<and> sz \<le> length (v_buf v') \<and> length (v_buf v) \<le> length (v_buf v')"
proof (cases "v_buf v = []")
  case True
  then show ?thesis using assms
    by (auto simp: growbuf_def vec_ok_def v_list_def MINSIZE_def Let_def)
next
  case False
  then have "2 \<le> length (v_buf v)" using assms by (simp add: vec_ok_def MINSIZE_def)
  then obtain n where "grow_loop (length (v_buf v)) sz = Some n" "sz \<le> n" "length (v_buf v) \<le> n"
    using grow_loop_enough by blast
  then show ?thesis using assms False by (auto simp: growbuf_def vec_ok_def v_list_def Let_def)
qed

lemma v_add_refines:
  assumes "vec_ok v"
  shows "\<exists>v'. v_add junk x v = Some v' \<and> vec_ok v' \<and> v_list v' = v_list v @ [x]"
proof -
  have step: "vec_ok (u\<lparr>v_buf := (v_buf u)[v_ulen u := x], v_ulen := v_ulen u + 1\<rparr>)
      \<and> v_list (u\<lparr>v_buf := (v_buf u)[v_ulen u := x], v_ulen := v_ulen u + 1\<rparr>) = v_list u @ [x]"
    if "vec_ok u" "v_ulen u < length (v_buf u)" for u
    using that by (auto simp: vec_ok_def v_list_def take_Suc_conv_app_nth)
  show ?thesis
  proof (cases "v_ulen v = length (v_buf v)")
    case True
    obtain u where u: "growbuf junk (v_ulen v + 1) v = Some u" "vec_ok u" "v_list u = v_list v" "v_ulen u = v_ulen v"
      "v_ulen v + 1 \<le> length (v_buf u)"
      using growbuf_ok [OF assms] by blast
    then show ?thesis using step [of u] True by (simp add: v_add_def)
  next
    case False
    then show ?thesis using step [of v] assms by (simp add: v_add_def vec_ok_def)
  qed
qed

lemma move_down_spec:
  "n \<le> p \<Longrightarrow> p \<le> u \<Longrightarrow> u \<le> length buf \<Longrightarrow> length (move_down p n u buf) = length buf
    \<and> (\<forall>k. move_down p n u buf ! k = (if p - n \<le> k \<and> k < u - n then buf ! (k + n) else buf ! k))"
proof (induction "u - p" arbitrary: p buf)
  case 0
  then show ?case by (subst (1 2) move_down.simps) auto
next
  case (Suc d)
  let ?b = "buf[p - n := buf ! p]"
  have p: "p < u" "d = u - Suc p" using Suc.hyps(2) by auto
  have ih: "length (move_down (Suc p) n u ?b) = length ?b"
    "\<And>k. move_down (Suc p) n u ?b ! k = (if Suc p - n \<le> k \<and> k < u - n then ?b ! (k + n) else ?b ! k)"
    using Suc.hyps(1) [OF p(2), of ?b] Suc.prems p by auto
  have e: "move_down p n u buf = move_down (Suc p) n u ?b" using p by (subst move_down.simps) simp
  show ?case unfolding e using ih Suc.prems p by (auto simp: nth_list_update)
qed

lemma v_remove_n_refines:
  assumes "vec_ok v" and "i + n \<le> v_ulen v"
  shows "vec_ok (v_remove_n i n v) \<and> v_list (v_remove_n i n v) = take i (v_list v) @ drop (i + n) (v_list v)"
proof -
  have "i + n \<le> v_ulen v" "v_ulen v \<le> length (v_buf v)" using assms by (auto simp: vec_ok_def)
  then have m: "length (move_down (i + n) n (v_ulen v) (v_buf v)) = length (v_buf v)"
    "\<And>k. move_down (i + n) n (v_ulen v) (v_buf v) ! k = (if i \<le> k \<and> k < v_ulen v - n then v_buf v ! (k + n) else v_buf v ! k)"
    using move_down_spec [of n "i + n" "v_ulen v" "v_buf v"] by auto
  have "v_list (v_remove_n i n v) = take i (v_list v) @ drop (i + n) (v_list v)"
  proof (rule nth_equalityI)
    fix k assume "k < length (v_list (v_remove_n i n v))"
    then have "k < v_ulen v - n" by (simp add: v_list_def v_remove_n_def)
    then show "v_list (v_remove_n i n v) ! k = (take i (v_list v) @ drop (i + n) (v_list v)) ! k"
      using assms m by (auto simp: v_list_def v_remove_n_def nth_append vec_ok_def add.commute)
  qed (use assms m in \<open>auto simp: v_list_def v_remove_n_def vec_ok_def\<close>)
  moreover have "vec_ok (v_remove_n i n v)"
    using assms m(1) by (auto simp: vec_ok_def v_remove_n_def simp flip: length_0_conv)
  ultimately show ?thesis by blast
qed

lemma v_removeunordered_refines:
  assumes "vec_ok v" and "i < v_ulen v"
  shows "vec_ok (snd (v_removeunordered i v)) \<and> fst (v_removeunordered i v) = v_list v ! i
    \<and> v_list (snd (v_removeunordered i v)) = remove_unordered i (v_list v)"
proof -
  have len: "v_ulen v \<le> length (v_buf v)" using assms by (simp add: vec_ok_def)
  have "v_list v \<noteq> []" using assms(2) len by (auto simp: v_list_def)
  then have l: "last (v_list v) = v_buf v ! (v_ulen v - 1)" using assms len by (simp add: v_list_def last_conv_nth)
  have "v_list (snd (v_removeunordered i v)) = remove_unordered i (v_list v)"
  proof (rule nth_equalityI)
    show "v_list (snd (v_removeunordered i v)) ! k = remove_unordered i (v_list v) ! k"
      if "k < length (v_list (snd (v_removeunordered i v)))" for k
      using that assms(2) len l
      by (auto simp: v_removeunordered_def v_list_def remove_unordered_def Let_def nth_butlast nth_list_update)
  qed (use assms(2) len in \<open>auto simp: v_removeunordered_def v_list_def Let_def\<close>)
  then show ?thesis using assms by (auto simp: v_removeunordered_def vec_ok_def v_list_def Let_def)
qed

lemma find_loop_spec:
  "(case find_loop i u P buf of
      None \<Rightarrow> \<forall>k. i \<le> k \<longrightarrow> k < u \<longrightarrow> \<not> P (buf ! k)
    | Some m \<Rightarrow> i \<le> m \<and> m < u \<and> P (buf ! m) \<and> (\<forall>k. i \<le> k \<longrightarrow> k < m \<longrightarrow> \<not> P (buf ! k)))"
proof (induction i u P buf rule: find_loop.induct)
  case (1 i u P buf)
  then show ?case by (subst find_loop.simps) (auto simp: Suc_le_eq dest: le_neq_implies_less split: option.splits)
qed

lemma removeobj_loop_spec:
  assumes "removeobj_loop j dst u e buf = (d, b)" and "dst \<le> j" and "j \<le> u" and "u \<le> length buf"
  shows "length b = length buf \<and> d \<le> u \<and> take d b = take dst buf @ filter (\<lambda>x. x \<noteq> e) (take (u - j) (drop j buf))"
  using assms
proof (induction "u - j" arbitrary: j dst buf)
  case 0
  then show ?case by (subst (asm) (1) removeobj_loop.simps) auto
next
  case (Suc n)
  then have j: "j < u" "n = u - Suc j" by auto
  have d: "take (u - j) (drop j buf) = buf ! j # take (u - Suc j) (drop (Suc j) buf)"
    using j Suc.prems(4) by (metis Cons_nth_drop_Suc Suc_diff_Suc less_le_trans take_Suc_Cons)
  show ?case
  proof (cases "buf ! j = e")
    case True
    then have "removeobj_loop (Suc j) dst u e buf = (d, b)" using Suc.prems(1) j by (subst (asm) removeobj_loop.simps) simp
    then show ?thesis using Suc.hyps(1) [OF j(2), of dst buf] Suc.prems j d True by simp
  next
    case False
    then have "removeobj_loop (Suc j) (Suc dst) u e (buf[dst := buf ! j]) = (d, b)"
      using Suc.prems(1) j by (subst (asm) removeobj_loop.simps) simp
    then show ?thesis using Suc.hyps(1) [OF j(2), of "Suc dst" "buf[dst := buf ! j]"] Suc.prems j d False
      by (simp add: take_Suc_conv_app_nth)
  qed
qed

lemma v_removeobj_refines:
  assumes "vec_ok v"
  shows "vec_ok (v_removeobj e v) \<and> v_list (v_removeobj e v) = removeAll e (v_list v)"
proof (cases "v_find e v")
  case None
  then have "\<forall>k < v_ulen v. v_buf v ! k \<noteq> e" using find_loop_spec [of 0 "v_ulen v" "\<lambda>x. x = e" "v_buf v"] by (simp add: v_find_def)
  then have "e \<notin> set (v_list v)" using assms by (auto simp: v_list_def in_set_conv_nth vec_ok_def)
  then show ?thesis using assms None by (simp add: v_removeobj_def removeAll_id)
next
  case (Some i)
  then have i: "i < v_ulen v" "v_buf v ! i = e" "\<And>k. k < i \<Longrightarrow> v_buf v ! k \<noteq> e"
    using find_loop_spec [of 0 "v_ulen v" "\<lambda>x. x = e" "v_buf v"] by (auto simp: v_find_def)
  obtain d b where r: "removeobj_loop (Suc i) i (v_ulen v) e (v_buf v) = (d, b)" by fastforce
  have len: "v_ulen v \<le> length (v_buf v)" using assms by (simp add: vec_ok_def)
  note rs = removeobj_loop_spec [OF r _ _ len]
  have "v_list v = take i (v_buf v) @ e # take (v_ulen v - Suc i) (drop (Suc i) (v_buf v))"
    using i(1,2) len unfolding v_list_def
    by (metis Cons_nth_drop_Suc Suc_diff_Suc add_diff_cancel_left' le_add_diff_inverse less_imp_le less_le_trans take_Suc_Cons take_add)
  moreover have "filter (\<lambda>x. x \<noteq> e) (take i (v_buf v)) = take i (v_buf v)"
  proof -
    have "x \<noteq> e" if "x \<in> set (take i (v_buf v))" for x
    proof -
      from that obtain k where "k < i" "x = v_buf v ! k" by (auto simp: in_set_conv_nth)
      then show ?thesis using i(3) [of k] by simp
    qed
    then show ?thesis by (simp add: filter_id_conv)
  qed
  ultimately have "removeAll e (v_list v) = take d b"
    using rs i(1) by (simp add: removeAll_filter_not_eq neq_commute)
  then show ?thesis using rs i(1) assms Some r by (auto simp: v_removeobj_def v_list_def vec_ok_def)
qed

lemma move_up_spec:
  "i \<le> p \<Longrightarrow> p < length buf \<Longrightarrow> length (move_up p i buf) = length buf
    \<and> (\<forall>k. move_up p i buf ! k = (if i < k \<and> k \<le> p then buf ! (k - 1) else buf ! k))"
proof (induction "p - i" arbitrary: p buf)
  case 0
  then show ?case by (subst (1 2) move_up.simps) auto
next
  case (Suc d)
  let ?b = "buf[p := buf ! (p - 1)]"
  have p: "i < p" "d = p - 1 - i" using Suc.hyps(2) by auto
  have ih: "length (move_up (p - 1) i ?b) = length ?b"
    "\<And>k. move_up (p - 1) i ?b ! k = (if i < k \<and> k \<le> p - 1 then ?b ! (k - 1) else ?b ! k)"
    using Suc.hyps(1) [OF p(2), of ?b] Suc.prems p by auto
  have e: "move_up p i buf = move_up (p - 1) i ?b" using p by (subst move_up.simps) simp
  show ?case unfolding e using ih Suc.prems p by (auto simp: nth_list_update)
qed

lemma v_insert_refines:
  assumes "vec_ok v" and "i \<le> v_ulen v"
  shows "\<exists>v'. v_insert junk blank i e v = Some v' \<and> vec_ok v' \<and> v_list v' = take i (v_list v) @ e # drop i (v_list v)"
proof -
  obtain u where u: "v_add junk blank v = Some u" "vec_ok u" "v_list u = v_list v @ [blank]"
    using v_add_refines [OF assms(1)] by blast
  have len: "v_ulen u \<le> length (v_buf u)" "length (v_list v) = v_ulen v" using u(2) assms(1) by (auto simp: vec_ok_def v_list_def)
  then have ul: "v_ulen u = Suc (v_ulen v)" using arg_cong [OF u(3), of length] by (simp add: v_list_def)
  have el: "v_buf u ! k = v_list v ! k" if "k < v_ulen v" for k
  proof -
    have "v_buf u ! k = v_list u ! k" using that ul by (simp add: v_list_def)
    then show ?thesis unfolding u(3) using that len(2) by (simp add: nth_append)
  qed
  have m: "length (move_up (v_ulen u - 1) i (v_buf u)) = length (v_buf u)"
    "\<And>k. move_up (v_ulen u - 1) i (v_buf u) ! k = (if i < k \<and> k \<le> v_ulen u - 1 then v_buf u ! (k - 1) else v_buf u ! k)"
    using move_up_spec [of i "v_ulen u - 1" "v_buf u"] assms(2) len ul by auto
  let ?w = "u\<lparr>v_buf := (move_up (v_ulen u - 1) i (v_buf u))[i := e]\<rparr>"
  have "v_list ?w = take i (v_list v) @ e # drop i (v_list v)"
  proof (rule nth_equalityI)
    fix k assume "k < length (v_list ?w)"
    then have "k \<le> v_ulen v" using ul by (simp add: v_list_def)
    then show "v_list ?w ! k = (take i (v_list v) @ e # drop i (v_list v)) ! k"
      using m ul len assms(2) el [of k] el [of "k - 1"] by (auto simp: v_list_def nth_append nth_list_update nth_Cons' min_def)
  qed (use m ul len assms in \<open>auto simp: v_list_def vec_ok_def\<close>)
  moreover have "vec_ok ?w" using u(2) m(1) by (auto simp: vec_ok_def simp flip: length_0_conv)
  ultimately show ?thesis using u(1) by (simp add: v_insert_def)
qed

lemma reverse_loop_spec:
  "k \<le> u div 2 \<Longrightarrow> u \<le> length buf \<Longrightarrow> length (reverse_loop k u buf) = length buf
    \<and> (\<forall>m. reverse_loop k u buf ! m = (if m < k \<or> u - k \<le> m \<and> m < u then buf ! (u - 1 - m) else buf ! m))"
proof (induction k)
  case (Suc k)
  then have ih: "length (reverse_loop k u buf) = length buf"
    "\<And>m. reverse_loop k u buf ! m = (if m < k \<or> u - k \<le> m \<and> m < u then buf ! (u - 1 - m) else buf ! m)"
    by auto
  have b: "k < length buf" "u - 1 - k < length buf" "k < u - 1 - k \<or> k = u - 1 - k" "k < u" using Suc.prems by auto
  have sw: "reverse_loop (Suc k) u buf ! m = (if m = u - 1 - k then reverse_loop k u buf ! k else if m = k then reverse_loop k u buf ! (u - 1 - k) else reverse_loop k u buf ! m)" for m
    using b ih(1) by simp
  have "u - Suc k \<le> m \<and> m < u \<longleftrightarrow> m = u - 1 - k \<or> u - k \<le> m \<and> m < u" for m using b by auto
  then show ?case unfolding sw using ih b Suc.prems by (auto simp: less_Suc_eq)
qed auto

lemma v_reverse_refines:
  assumes "vec_ok v"
  shows "vec_ok (v_reverse v) \<and> v_list (v_reverse v) = rev (v_list v)"
proof -
  have len: "v_ulen v \<le> length (v_buf v)" using assms by (simp add: vec_ok_def)
  have r: "length (reverse_loop (v_ulen v div 2) (v_ulen v) (v_buf v)) = length (v_buf v)"
    "\<And>m. reverse_loop (v_ulen v div 2) (v_ulen v) (v_buf v) ! m
      = (if m < v_ulen v div 2 \<or> v_ulen v - v_ulen v div 2 \<le> m \<and> m < v_ulen v then v_buf v ! (v_ulen v - 1 - m) else v_buf v ! m)"
    using reverse_loop_spec [of "v_ulen v div 2" "v_ulen v" "v_buf v"] len by auto
  have "v_list (v_reverse v) = rev (v_list v)"
  proof (rule nth_equalityI)
    fix m assume m: "m < length (v_list (v_reverse v))"
    then have "m < v_ulen v" using r(1) by (simp add: v_list_def v_reverse_def)
    moreover from this have "m < v_ulen v div 2 \<or> v_ulen v - v_ulen v div 2 \<le> m \<or> m = v_ulen v - 1 - m" by linarith
    ultimately show "v_list (v_reverse v) ! m = rev (v_list v) ! m"
      using r len by (auto simp: v_list_def v_reverse_def rev_nth)
  qed (use r(1) len in \<open>auto simp: v_list_def v_reverse_def\<close>)
  then show ?thesis using assms r(1) by (auto simp: vec_ok_def v_reverse_def simp flip: length_0_conv)
qed

lemma v_remove_refines:
  assumes "vec_ok v" and "i < v_ulen v"
  shows "fst (v_remove i v) = v_list v ! i \<and> vec_ok (snd (v_remove i v))
    \<and> v_list (snd (v_remove i v)) = take i (v_list v) @ drop (Suc i) (v_list v)"
  using v_remove_n_refines [OF assms(1), of i 1] assms(2) by (simp add: v_remove_def v_list_def)

lemma v_find_refines:
  assumes "vec_ok v"
  shows "case v_htfind P v of
      None \<Rightarrow> \<forall>x \<in> set (v_list v). \<not> P x
    | Some i \<Rightarrow> i < v_ulen v \<and> P (v_list v ! i) \<and> (\<forall>k < i. \<not> P (v_list v ! k))"
  using find_loop_spec [of 0 "v_ulen v" P "v_buf v"] assms
  by (auto simp: v_htfind_def v_list_def vec_ok_def in_set_conv_nth split: option.splits)

text \<open>C36: the growing array does what the list of its contents would do. Adding an element ends, however often the
  buffer has to grow, and appends it; inserting, removing one element or a range, removing without keeping the order,
  removing every copy of an object and reversing change the contents exactly as said, a search returns the
  first match, and the buffer stays consistent.\<close>

theorem vector_refines_list:
  assumes "vec_ok v"
  shows "(\<exists>v'. v_add junk x v = Some v' \<and> vec_ok v' \<and> v_list v' = v_list v @ [x])
    \<and> (i \<le> v_ulen v \<longrightarrow> (\<exists>v'. v_insert junk blank i x v = Some v' \<and> vec_ok v' \<and> v_list v' = take i (v_list v) @ x # drop i (v_list v)))
    \<and> (i + n \<le> v_ulen v \<longrightarrow> vec_ok (v_remove_n i n v) \<and> v_list (v_remove_n i n v) = take i (v_list v) @ drop (i + n) (v_list v))
    \<and> (i < v_ulen v \<longrightarrow> fst (v_remove i v) = v_list v ! i \<and> vec_ok (snd (v_remove i v))
         \<and> v_list (snd (v_remove i v)) = take i (v_list v) @ drop (Suc i) (v_list v))
    \<and> (i < v_ulen v \<longrightarrow> fst (v_removeunordered i v) = v_list v ! i \<and> vec_ok (snd (v_removeunordered i v))
         \<and> mset (v_list (snd (v_removeunordered i v))) = mset (v_list v) - {#v_list v ! i#})
    \<and> vec_ok (v_removeobj x v) \<and> v_list (v_removeobj x v) = removeAll x (v_list v)
    \<and> vec_ok (v_reverse v) \<and> v_list (v_reverse v) = rev (v_list v)
    \<and> (case v_find x v of None \<Rightarrow> x \<notin> set (v_list v) | Some k \<Rightarrow> k < v_ulen v \<and> v_list v ! k = x \<and> (\<forall>m < k. v_list v ! m \<noteq> x))"
proof -
  have "length (v_list v) = v_ulen v" using assms by (simp add: vec_ok_def v_list_def)
  moreover have "case v_find x v of None \<Rightarrow> x \<notin> set (v_list v) | Some k \<Rightarrow> k < v_ulen v \<and> v_list v ! k = x \<and> (\<forall>m < k. v_list v ! m \<noteq> x)"
    using v_find_refines [OF assms, of "\<lambda>y. y = x"] by (auto simp: v_find_def v_htfind_def split: option.splits)
  ultimately show ?thesis
    using v_add_refines [OF assms] v_insert_refines [OF assms] v_remove_n_refines [OF assms] v_remove_refines [OF assms]
      v_removeunordered_refines [OF assms] v_removeobj_refines [OF assms] v_reverse_refines [OF assms]
    by (simp add: mset_remove_unordered)
qed

theorem vector_refines_list_witness:
  "\<exists>v'. v_add 0 (9 :: int) \<lparr>v_buf = [1, 2, 3, 4, 5, 6, 7, 8], v_ulen = 8\<rparr> = Some v' \<and> v_list v' = [1, 2, 3, 4, 5, 6, 7, 8, 9]"
proof -
  have "vec_ok \<lparr>v_buf = [1, 2, 3, 4, 5, 6, 7, 8 :: int], v_ulen = 8\<rparr>" by (simp add: vec_ok_def MINSIZE_def)
  from vector_refines_list [OF this, of 0 9 0 0 0] show ?thesis by (auto simp: v_list_def)
qed

end
