(* ===== verification/Tables.thy ===== *)
theory Tables
  imports Prelude
begin

text \<open>
  The hash tables of \<^verbatim>\<open>src/src/shared/tools.h\<close> (\<^verbatim>\<open>hashbase\<close> as \<^verbatim>\<open>hashtable<K, T>\<close> uses it), in which
  the server keeps the frags of teams and the times of disconnects: an array of chains of entries, the newest
  entry first, with a number of chains that is a power of two. The pool of unused entries is memory management
  and left out. A table refines a finite map, for every hash function.
\<close>

subsection \<open>Hash functions\<close>

text \<open>Bernstein's hash of a string; a \<^verbatim>\<open>char\<close> is signed. An integer is its own hash.\<close>

definition hthash_step :: "u32 \<Rightarrow> char \<Rightarrow> u32" where
  "hthash_step h c = (push_bit 5 h + h) XOR (signed_take_bit 7 (of_char c))"

definition hthash :: "cstr \<Rightarrow> u32" where
  "hthash key = foldl hthash_step 5381 key"

text \<open>\<^verbatim>\<open>memhash\<close>, the hash of a string slice, reads the bytes as unsigned.\<close>

definition memhash :: "cstr \<Rightarrow> u32" where
  "memhash data = foldl (\<lambda>h c. (push_bit 5 h + h) XOR of_char c) 5381 data"

definition hthash_int :: "i32 \<Rightarrow> u32" where
  "hthash_int key = key"

subsection \<open>The table\<close>

record ('k, 'd) hashtable =
  ht_chains :: "('k \<times> 'd) list list"
  ht_numelems :: nat

abbreviation (input) DEFAULTSIZE :: nat where "DEFAULTSIZE \<equiv> 1024"

definition ht_new :: "nat \<Rightarrow> ('k, 'd) hashtable" where
  "ht_new sz = \<lparr>ht_chains = replicate sz [], ht_numelems = 0\<rparr>"

definition ht_index :: "('k \<Rightarrow> u32) \<Rightarrow> 'k \<Rightarrow> ('k, 'd) hashtable \<Rightarrow> nat" where
  "ht_index hash k t = unat (hash k AND (of_nat (length (ht_chains t)) - 1))"

definition ht_insert :: "nat \<Rightarrow> 'k \<Rightarrow> 'd \<Rightarrow> ('k, 'd) hashtable \<Rightarrow> ('k, 'd) hashtable" where
  "ht_insert h k d t = t\<lparr>ht_chains := (ht_chains t)[h := (k, d) # ht_chains t ! h], ht_numelems := ht_numelems t + 1\<rparr>"

fun chain_find :: "'k \<Rightarrow> ('k \<times> 'd) list \<Rightarrow> 'd option" where
  "chain_find key [] = None"
| "chain_find key ((k, d) # c) = (if key = k then Some d else chain_find key c)"

definition ht_access :: "('k \<Rightarrow> u32) \<Rightarrow> 'k \<Rightarrow> ('k, 'd) hashtable \<Rightarrow> 'd option" where
  "ht_access hash key t = chain_find key (ht_chains t ! ht_index hash key t)"

text \<open>\<^verbatim>\<open>access(key, elem)\<close> and \<^verbatim>\<open>operator[]\<close>: the entry is inserted when the key has none. What the caller does
  with the reference that is returned is the function \<open>f\<close>.\<close>

fun chain_update :: "'k \<Rightarrow> ('d \<Rightarrow> 'd) \<Rightarrow> ('k \<times> 'd) list \<Rightarrow> ('k \<times> 'd) list" where
  "chain_update key f [] = []"
| "chain_update key f ((k, d) # c) = (if key = k then (k, f d) # c else (k, d) # chain_update key f c)"

definition ht_update :: "('k \<Rightarrow> u32) \<Rightarrow> 'k \<Rightarrow> 'd \<Rightarrow> ('d \<Rightarrow> 'd) \<Rightarrow> ('k, 'd) hashtable \<Rightarrow> ('k, 'd) hashtable" where
  "ht_update hash key elem f t =
     (let h = ht_index hash key t;
          t = (if chain_find key (ht_chains t ! h) = None then ht_insert h key elem t else t)
      in t\<lparr>ht_chains := (ht_chains t)[h := chain_update key f (ht_chains t ! h)]\<rparr>)"

fun chain_remove :: "'k \<Rightarrow> ('k \<times> 'd) list \<Rightarrow> bool \<times> ('k \<times> 'd) list" where
  "chain_remove key [] = (False, [])"
| "chain_remove key ((k, d) # c) =
     (if key = k then (True, c) else let (found, c) = chain_remove key c in (found, (k, d) # c))"

definition ht_remove :: "('k \<Rightarrow> u32) \<Rightarrow> 'k \<Rightarrow> ('k, 'd) hashtable \<Rightarrow> bool \<times> ('k, 'd) hashtable" where
  "ht_remove hash key t =
     (let h = ht_index hash key t; (found, c) = chain_remove key (ht_chains t ! h)
      in if found then (True, t\<lparr>ht_chains := (ht_chains t)[h := c], ht_numelems := ht_numelems t - 1\<rparr>) else (False, t))"

definition ht_clear :: "('k, 'd) hashtable \<Rightarrow> ('k, 'd) hashtable" where
  "ht_clear t = (if ht_numelems t = 0 then t
     else t\<lparr>ht_chains := replicate (length (ht_chains t)) [], ht_numelems := 0\<rparr>)"

text \<open>The order in which \<^verbatim>\<open>enumerate\<close> visits the entries.\<close>

definition ht_enumerate :: "('k, 'd) hashtable \<Rightarrow> ('k \<times> 'd) list" where
  "ht_enumerate t = concat (ht_chains t)"

subsection \<open>Tables refine maps\<close>

definition ht_ok :: "('k \<Rightarrow> u32) \<Rightarrow> ('k, 'd) hashtable \<Rightarrow> bool" where
  "ht_ok hash t \<longleftrightarrow> (\<exists>m < 32. length (ht_chains t) = 2 ^ m)
     \<and> (\<forall>h < length (ht_chains t). distinct (map fst (ht_chains t ! h)) \<and> (\<forall>e \<in> set (ht_chains t ! h). ht_index hash (fst e) t = h))
     \<and> ht_numelems t = length (ht_enumerate t)"

lemma ht_index_cong: "length (ht_chains t') = length (ht_chains t) \<Longrightarrow> ht_index hash k t' = ht_index hash k t"
  by (simp add: ht_index_def)

lemma ht_index_bound: "length (ht_chains t) = 2 ^ m \<Longrightarrow> m < 32 \<Longrightarrow> ht_index hash k t < length (ht_chains t)"
proof -
  assume m: "length (ht_chains t) = 2 ^ m" "m < 32"
  have "hash k AND (of_nat (2 ^ m) - 1) = take_bit m (hash k)" by (simp add: take_bit_eq_mask mask_eq_exp_minus_1)
  then have "ht_index hash k t = unat (take_bit m (hash k))" using m by (simp add: ht_index_def)
  also have "\<dots> < 2 ^ m" by (simp add: unsigned_take_bit_eq)
  finally show ?thesis using m by simp
qed

lemma chain_find_map_of: "chain_find k c = map_of c k"
  by (induction c) auto

lemma chain_update_simps [simp]:
  "map fst (chain_update k f c) = map fst c" "length (chain_update k f c) = length c"
  "chain_find k' (chain_update k f c) = (if k' = k then map_option f (chain_find k c) else chain_find k' c)"
  by (induction c) auto

lemma chain_update_keys: "fst ` set (chain_update k f c) = fst ` set c"
  by (metis chain_update_simps(1) set_map)

lemma length_filter_key: "length (filter (\<lambda>e. fst e = k) c) = count (mset (map fst c)) k"
  by (induction c) auto

lemma chain_remove_spec:
  "distinct (map fst c) \<Longrightarrow> fst (chain_remove k c) = (k \<in> fst ` set c) \<and> snd (chain_remove k c) = filter (\<lambda>e. fst e \<noteq> k) c"
proof (induction c)
  case (Cons e c)
  have "filter (\<lambda>e. fst e \<noteq> k) c = c" if "fst e = k"
  proof (rule filter_True)
    have "k \<notin> fst ` set c" using that Cons.prems by simp
    then show "\<forall>x \<in> set c. fst x \<noteq> k" by blast
  qed
  with Cons show ?case by (cases e) (auto simp: split_beta Let_def)
qed simp

text \<open>All operations replace one chain; this is what such a replacement does to the map.\<close>

lemma replace_chain:
  assumes ok: "ht_ok hash t" and h: "h = ht_index hash key t" and d: "distinct (map fst c)"
    and i: "\<And>e. e \<in> set c \<Longrightarrow> ht_index hash (fst e) t = h"
    and t': "ht_chains t' = (ht_chains t)[h := c]" and n: "ht_numelems t' = ht_numelems t + length c - length (ht_chains t ! h)"
  shows "ht_ok hash t' \<and> ht_access hash k t' = (if ht_index hash k t = h then map_of c k else ht_access hash k t)"
proof -
  obtain m where m: "length (ht_chains t) = 2 ^ m" "m < 32" using ok by (auto simp: ht_ok_def)
  note b = ht_index_bound [OF m, of hash]
  have len: "length (ht_chains t') = length (ht_chains t)" by (simp add: t')
  have "length (concat ((ht_chains t)[h := c])) = length (concat (ht_chains t)) + length c - length (ht_chains t ! h)"
    using b [of key] by (simp add: h length_concat map_update sum_list_update)
  then have "ht_numelems t' = length (ht_enumerate t')" using ok n by (simp add: ht_ok_def ht_enumerate_def t')
  moreover have "distinct (map fst (ht_chains t' ! g)) \<and> (\<forall>e \<in> set (ht_chains t' ! g). ht_index hash (fst e) t' = g)"
    if "g < length (ht_chains t')" for g
    using that ok d i len by (cases "g = h") (auto simp: ht_ok_def t' ht_index_cong [OF len])
  ultimately have "ht_ok hash t'" using m len unfolding ht_ok_def by auto
  moreover have "ht_access hash k t' = (if ht_index hash k t = h then map_of c k else ht_access hash k t)"
    using b [of k] by (simp add: ht_access_def ht_index_cong [OF len] t' chain_find_map_of)
  ultimately show ?thesis by blast
qed

lemma ht_ok_chain:
  assumes "ht_ok hash t"
  shows "distinct (map fst (ht_chains t ! ht_index hash k t))" "e \<in> set (ht_chains t ! ht_index hash k t) \<Longrightarrow> ht_index hash (fst e) t = ht_index hash k t"
  using assms ht_index_bound [of t _ hash k] by (auto simp: ht_ok_def)

lemma ht_update_refines:
  assumes "ht_ok hash t"
  shows "ht_ok hash (ht_update hash key d f t) \<and> ht_access hash k (ht_update hash key d f t)
    = (if k = key then Some (f (case ht_access hash key t of Some d' \<Rightarrow> d' | None \<Rightarrow> d)) else ht_access hash k t)"
proof -
  let ?h = "ht_index hash key t"
  let ?c = "if chain_find key (ht_chains t ! ?h) = None then (key, d) # ht_chains t ! ?h else ht_chains t ! ?h"
  have c: "distinct (map fst (chain_update key f ?c))" "\<And>e. e \<in> set (chain_update key f ?c) \<Longrightarrow> ht_index hash (fst e) t = ?h"
  proof -
    show "distinct (map fst (chain_update key f ?c))"
      using ht_ok_chain(1) [OF assms, of key] by (auto simp: chain_find_map_of map_of_eq_None_iff)
    fix e assume "e \<in> set (chain_update key f ?c)"
    then have "fst e \<in> fst ` set (chain_update key f ?c)" by (rule imageI)
    then have "fst e \<in> fst ` set ?c" by (simp only: chain_update_keys)
    then show "ht_index hash (fst e) t = ?h" using ht_ok_chain(2) [OF assms, of _ key] by (auto split: if_splits)
  qed
  have t': "ht_chains (ht_update hash key d f t) = (ht_chains t)[?h := chain_update key f ?c]"
    "ht_numelems (ht_update hash key d f t) = ht_numelems t + length (chain_update key f ?c) - length (ht_chains t ! ?h)"
    using assms ht_index_bound [of t _ hash key] by (auto simp: ht_update_def ht_insert_def Let_def ht_ok_def)
  note r = replace_chain [OF assms refl c t']
  have "map_of (chain_update key f ?c) k
      = (if k = key then Some (f (case ht_access hash key t of Some d' \<Rightarrow> d' | None \<Rightarrow> d)) else map_of (ht_chains t ! ?h) k)"
    by (auto simp: ht_access_def chain_find_map_of [symmetric] split: option.splits)
  then show ?thesis using r by (auto simp: ht_access_def chain_find_map_of)
qed

lemma map_of_filter_neq: "map_of (filter (\<lambda>e. fst e \<noteq> k) c) x = (if x = k then None else map_of c x)"
  by (induction c) auto

lemma ht_remove_refines:
  assumes "ht_ok hash t"
  shows "ht_ok hash (snd (ht_remove hash key t)) \<and> fst (ht_remove hash key t) = (ht_access hash key t \<noteq> None)
    \<and> ht_access hash k (snd (ht_remove hash key t)) = (if k = key then None else ht_access hash k t)"
proof -
  let ?h = "ht_index hash key t"
  let ?c = "ht_chains t ! ?h"
  note cr = chain_remove_spec [OF ht_ok_chain(1) [OF assms, of key], of key]
  have f: "fst (chain_remove key ?c) = (ht_access hash key t \<noteq> None)"
    using cr by (auto simp: ht_access_def chain_find_map_of map_of_eq_None_iff)
  show ?thesis
  proof (cases "ht_access hash key t = None")
    case True
    then show ?thesis using assms f by (auto simp: ht_remove_def Let_def split_beta)
  next
    case False
    let ?t = "snd (ht_remove hash key t)"
    have "key \<in> fst ` set ?c" using False f cr by simp
    then obtain e where e: "e \<in> set ?c" "fst e = key" by auto
    have "length (filter (\<lambda>e. fst e \<noteq> key) ?c) = length ?c - 1"
    proof -
      have "length (filter (\<lambda>e. fst e = key) ?c) = 1" unfolding length_filter_key using ht_ok_chain(1) [OF assms, of key] e by (metis distinct_count_atmost_1 image_eqI set_map)
      then show ?thesis using sum_length_filter_compl [of "\<lambda>e. fst e = key" ?c] by simp
    qed
    moreover have "length ?c \<le> ht_numelems t"
    proof -
      have "?h < length (ht_chains t)" using assms ht_index_bound [of t _ hash key] by (auto simp: ht_ok_def)
      then have "length ?c \<in> set (map length (ht_chains t))" by auto
      then have "length ?c \<le> sum_list (map length (ht_chains t))" by (rule member_le_sum_list) simp
      then show ?thesis using assms by (simp add: ht_ok_def ht_enumerate_def length_concat)
    qed
    moreover have "0 < length ?c" using e by auto
    ultimately have t': "ht_chains ?t = (ht_chains t)[?h := filter (\<lambda>e. fst e \<noteq> key) ?c]"
      "ht_numelems ?t = ht_numelems t + length (filter (\<lambda>e. fst e \<noteq> key) ?c) - length ?c"
      using f cr False by (simp_all add: ht_remove_def Let_def split_beta) (cases "length ?c"; simp)
    have "distinct (map fst (filter (\<lambda>e. fst e \<noteq> key) ?c))"
      using ht_ok_chain(1) [OF assms, of key] by (rule distinct_map_filter)
    note r = replace_chain [OF assms refl this _ t', of k]
    then show ?thesis using ht_ok_chain(2) [OF assms, of _ key] f False
      by (auto simp: ht_remove_def Let_def split_beta map_of_filter_neq ht_access_def chain_find_map_of)
  qed
qed

lemma ht_new_ok: "m < 32 \<Longrightarrow> ht_ok hash (ht_new (2 ^ m) :: ('k, 'd) hashtable) \<and> ht_access hash k (ht_new (2 ^ m) :: ('k, 'd) hashtable) = None"
proof -
  assume m: "m < 32"
  let ?t = "ht_new (2 ^ m) :: ('k, 'd) hashtable"
  have "ht_index hash k ?t < 2 ^ m" using ht_index_bound [of ?t m hash k] m by (simp add: ht_new_def)
  then show ?thesis using m by (auto simp: ht_ok_def ht_new_def ht_access_def ht_enumerate_def)
qed

lemma ht_clear_refines: "ht_ok hash t \<Longrightarrow> ht_ok hash (ht_clear t) \<and> ht_access hash k (ht_clear t) = None"
proof -
  assume ok: "ht_ok hash t"
  then obtain m where m: "length (ht_chains t) = 2 ^ m" "m < 32" by (auto simp: ht_ok_def)
  show ?thesis
  proof (cases "ht_numelems t = 0")
    case True
    then have e: "\<forall>c \<in> set (ht_chains t). c = []" using ok by (simp add: ht_ok_def ht_enumerate_def)
    have "ht_chains t ! ht_index hash k t = []" using e ht_index_bound [OF m, of hash k] by auto
    then show ?thesis using ok True by (simp add: ht_clear_def ht_access_def)
  next
    case False
    have "ht_clear t = ht_new (2 ^ m)" using False m by (cases t) (simp add: ht_clear_def ht_new_def)
    then show ?thesis using ht_new_ok [OF m(2), of hash k] by simp
  qed
qed

lemma ht_enumerate_map:
  assumes "ht_ok hash t"
  shows "(k, d) \<in> set (ht_enumerate t) \<longleftrightarrow> ht_access hash k t = Some d"
proof -
  obtain m where m: "length (ht_chains t) = 2 ^ m" "m < 32" using assms by (auto simp: ht_ok_def)
  let ?h = "ht_index hash k t"
  have "(k, d) \<in> set (ht_enumerate t) \<longleftrightarrow> (k, d) \<in> set (ht_chains t ! ?h)"
  proof
    assume "(k, d) \<in> set (ht_enumerate t)"
    then obtain h where "h < length (ht_chains t)" "(k, d) \<in> set (ht_chains t ! h)"
      by (auto simp: ht_enumerate_def in_set_conv_nth [of _ "ht_chains t"])
    moreover from this have "ht_index hash (fst (k, d)) t = h" using assms unfolding ht_ok_def by blast
    ultimately show "(k, d) \<in> set (ht_chains t ! ?h)" by simp
  next
    assume "(k, d) \<in> set (ht_chains t ! ?h)"
    then show "(k, d) \<in> set (ht_enumerate t)" using ht_index_bound [OF m, of hash k] by (auto simp: ht_enumerate_def)
  qed
  then show ?thesis using ht_ok_chain(1) [OF assms, of k] by (simp add: ht_access_def chain_find_map_of)
qed

text \<open>C37: the hash table is a finite map, for every hash function and every power of two as its size. A new table
  is well formed and empty, and so is a cleared one; writing through the reference that the table hands out for a key, which
  inserts the key if it is new, changes the value of that key and of no other; removing a key says whether it was
  there and removes it alone; and enumerating visits exactly the entries that can be looked up.\<close>

theorem hashtable_refines_map:
  fixes t :: "('k, 'd) hashtable"
  assumes "m < 32" and "ht_ok hash t"
  shows "ht_ok hash (ht_new (2 ^ m) :: ('k, 'd) hashtable) \<and> (\<lambda>k. ht_access hash k (ht_new (2 ^ m) :: ('k, 'd) hashtable)) = Map.empty
    \<and> (\<lambda>k. ht_access hash k (ht_update hash key d f t))
      = (\<lambda>k. ht_access hash k t)(key \<mapsto> f (case ht_access hash key t of Some d' \<Rightarrow> d' | None \<Rightarrow> d))
    \<and> fst (ht_remove hash key t) = (ht_access hash key t \<noteq> None)
    \<and> (\<lambda>k. ht_access hash k (snd (ht_remove hash key t))) = (\<lambda>k. ht_access hash k t)(key := None)
    \<and> (\<lambda>k. ht_access hash k (ht_clear t)) = Map.empty
    \<and> set (ht_enumerate t) = {(k, v). ht_access hash k t = Some v}
    \<and> ht_ok hash (ht_update hash key d f t) \<and> ht_ok hash (snd (ht_remove hash key t)) \<and> ht_ok hash (ht_clear t)"
  using ht_update_refines [OF assms(2), of key d f] ht_remove_refines [OF assms(2), of key] ht_clear_refines [OF assms(2)]
    ht_enumerate_map [OF assms(2)] ht_new_ok [OF assms(1), of hash, where 'd = 'd]
  by (auto simp: fun_eq_iff)

theorem hashtable_refines_map_witness:
  "ht_access hthash ''good'' (ht_update hthash ''evil'' 0 (\<lambda>n. n + 1) (ht_update hthash ''good'' 0 (\<lambda>n. n + 3) (ht_new DEFAULTSIZE))) = Some (3 :: int)"
proof -
  have size: "DEFAULTSIZE = 2 ^ 10" by simp
  then have ok: "ht_ok hthash (ht_new DEFAULTSIZE :: (cstr, int) hashtable)"
    using ht_new_ok [of 10 hthash "''good''", where 'd = int] by simp
  from hashtable_refines_map [of 10, OF _ this, of "''good''" 0 "\<lambda>n. n + 3"]
  have one: "ht_access hthash ''good'' (ht_update hthash ''good'' 0 (\<lambda>n. n + 3) (ht_new DEFAULTSIZE)) = Some (3 :: int)"
    "ht_ok hthash (ht_update hthash ''good'' 0 (\<lambda>n. n + 3) (ht_new DEFAULTSIZE) :: (cstr, int) hashtable)"
    by (simp_all add: fun_eq_iff)
  from hashtable_refines_map [of 10, OF _ one(2), of "''evil''" 0 "\<lambda>n. n + 1"] one(1) show ?thesis by (simp add: fun_eq_iff)
qed

text \<open>The two hash functions for strings disagree on characters above 127, which one of them reads as negative
  numbers: a table that is filled by names and searched by slices does not find such a name.\<close>

lemma string_hashes_differ: "hthash [CHR 0xE9] \<noteq> memhash [CHR 0xE9]"
  by (simp add: hthash_def memhash_def hthash_step_def) 

end
