(* ===== verification/Spec2Isabelle.thy ===== *)
theory Spec2Isabelle
  imports Reachable Vectors Tables
begin

text \<open>
  SuckerServ is a dedicated game server for Cube 2: Sauerbraten. Its sources under \<^verbatim>\<open>src/src\<close> are the
  engine (\<^verbatim>\<open>shared\<close>, \<^verbatim>\<open>engine\<close>), the network library (\<^verbatim>\<open>enet\<close>), the game itself (\<^verbatim>\<open>fpsgame\<close>) and a
  scripting layer (\<^verbatim>\<open>hopmod\<close>). This development models the path of a game through the server: bytes that
  arrive in packets become integers and strings, these become events of players, events become damage, deaths,
  frags and items, deaths and moves become changes of the objective modes, and the results go out as messages.

  \<^bold>\<open>Theories and the code they model.\<close>

  \<^item> \<open>Prelude\<close>: machine types, C idioms (division that truncates, \<^verbatim>\<open>clamp\<close>, \<^verbatim>\<open>rnd\<close>, team names as strings),
    \<^verbatim>\<open>vector::removeunordered\<close>, and the lemmas that all theories share.
  \<^item> \<open>Databuf\<close>, \<open>Packetbuf\<close>: the cursor buffer \<^verbatim>\<open>databuf\<close> and the growing \<^verbatim>\<open>packetbuf\<close> of
    \<^verbatim>\<open>shared/tools.h\<close> on the packets of \<^verbatim>\<open>enet/packet.c\<close>. A buffer is a record of its bytes, position, limit and
    flags; the locale \<open>byte_sink\<close> is what the encoders ask of a buffer, and both kinds of buffer provide it.
  \<^item> \<open>Netcodec\<close>: \<^verbatim>\<open>putint\<close>, \<^verbatim>\<open>putuint\<close>, \<^verbatim>\<open>putfloat\<close>, \<^verbatim>\<open>sendstring\<close> and their readers
    (\<^verbatim>\<open>shared/tools.cpp\<close>) on 32-bit words. What is written is read back, and no reader leaves its buffer.
  \<^item> \<open>Messages\<close>, \<open>Game\<close>: message numbers and sizes, the tables of modes, guns and items, and the state
    \<^verbatim>\<open>fpsstate\<close> of a player with damage, spawning and pickups (\<^verbatim>\<open>fpsgame/game.h\<close>).
  \<^item> \<open>World\<close>: \<^verbatim>\<open>gamestate\<close>, \<^verbatim>\<open>clientinfo\<close>, \<^verbatim>\<open>savedscore\<close> and the globals of
    \<^verbatim>\<open>fpsgame/server.cpp\<close> as a record \<open>world\<close>. Messages and script events are appended to \<open>outbox\<close>, random numbers
    come from the stream \<open>rngst\<close>, a client is identified by its number. The locale \<open>team_scores\<close> is what the
    server asks of the scores of a mode.
  \<^item> \<open>Combat\<close>: damage, death, suicide, shots, explosions, items, the event queues of clients, the table of team
    frags, and the interface \<^verbatim>\<open>servmode\<close> of a mode as a record of functions (\<^verbatim>\<open>fpsgame/server.cpp\<close>).
    The locale \<open>mode_contract\<close> says what these handlers rely on when a mode is told of a death.
  \<^item> \<open>Match\<close>: teams (\<^verbatim>\<open>autoteam\<close>, \<^verbatim>\<open>chooseworstteam\<close>), votes, overtime and intermission, pausing, and the scores
    that survive a disconnect.
  \<^item> \<open>Ctf\<close>, \<open>Capture\<close>, \<open>Collect\<close>: every handler of the server side of the flag, base and skull modes
    (\<^verbatim>\<open>fpsgame/ctf.h\<close>, \<^verbatim>\<open>capture.h\<close>, \<^verbatim>\<open>collect.h\<close>), each with a step relation of what the server and the
    clients can do to it.
  \<^item> \<open>Spawn\<close>: the states and messages of a spawning player and the calls that a mode gets.
  \<^item> \<open>Sorting\<close>, \<open>Vectors\<close>, \<open>Tables\<close>: \<^verbatim>\<open>quicksort\<close>, \<^verbatim>\<open>vector\<close> and \<^verbatim>\<open>hashtable\<close> of
    \<^verbatim>\<open>shared/tools.h\<close>, each with the list or map that it stands for.
  \<^item> \<open>Aiman\<close>, \<open>Bots\<close>, \<open>Balance\<close>: the bot manager (\<^verbatim>\<open>fpsgame/aiman.h\<close>); \<open>Aiman\<close> has the functions, \<open>Bots\<close> the
    invariant of the tables of clients and bots and what every function keeps of it, \<open>Balance\<close> what balancing achieves.
  \<^item> \<open>Parser\<close>, \<open>Packets\<close>, \<open>Consistency\<close>, \<open>Packetmodes\<close>: \<^verbatim>\<open>parsepacket\<close>. \<open>Parser\<close> has a function per message, which
    takes the packet and the server and returns both, and the loop over a packet up to the first message of \<open>Chat\<close>; \<open>Packets\<close>
    shows what single messages do, \<open>Consistency\<close> that this loop ends and keeps the tables of clients, and \<open>Packetmodes\<close> puts
    in the messages of the modes.
  \<^item> \<open>Worldstate\<close>: how the positions and messages that have gathered are sent to all clients from one block of memory
    (\<^verbatim>\<open>buildworldstate\<close>). The locale \<open>chunk_adder\<close> is what the proof asks of the loops over positions and over messages.
  \<^item> \<open>Session\<close>: clients connect, enter the game and leave, maps change, votes end games, and a tick of the server moves
    the time on (\<^verbatim>\<open>fpsgame/server.cpp\<close>, and the table of clients of \<^verbatim>\<open>engine/server.cpp\<close>).
  \<^item> \<open>Chat\<close>: the messages of \<^verbatim>\<open>parsepacket\<close> that \<open>Parser\<close> hands on, and the whole loop, \<open>parse_all\<close>: texts, names, teams, votes, masters, kicks,
    demos, maps, keys and the clipboard, and the packets of clients that have not entered the game.
  \<^item> \<open>Server\<close>, \<open>Reachable\<close>: what connections, packets, votes, new maps and ticks keep of the tables of clients and bots. The locales
    \<open>game_modes\<close> and \<open>game_packets\<close> are what the server asks of the table of its modes and of their messages; \<open>Reachable\<close>
    has an instance for no mode and for each mode, and the step relation of a whole server.
  \<^item> \<open>Modes\<close>: the three modes as instances of the interface, and the proof that each fulfils the contract; the
    locale \<open>mode_invariant\<close> carries an invariant of a mode through all event handlers.

  \<^bold>\<open>How code becomes definitions.\<close> A struct is a record, a method or handler a function that returns the new state,
  a loop a recursive function with its termination proof, an early return a branch. \<^verbatim>\<open>int\<close> counters and times are
  mathematical integers, because the server never brings them near their bounds; the wire format, the CRC and the hash
  functions use words, since they depend on the width, and so do the rays that a client claims for a shot, since a
  client can make their sum and the damage wrap around (\<open>shot_hits\<close>). Other numbers of clients, such as the times of
  events and coordinates, are read as words and computed with exactly. \<^verbatim>\<open>float\<close> values are exact rationals, so that rounding is not modelled;
  a conversion to \<^verbatim>\<open>int\<close> truncates. Pointers to clients are client numbers, and a null pointer is \<open>None\<close>. What
  scripts decide (\<^verbatim>\<open>event_damage\<close>, \<^verbatim>\<open>event_suicide\<close>, \<^verbatim>\<open>event_timeupdate\<close>) is a function in the state,
  and so are the addresses and round trip times of peers.

  \<^bold>\<open>Bounds and fuel.\<close> The loops of the code are bounded by the length of a list or by a counter, and are recursive
  functions over it; the loop of \<^verbatim>\<open>parsepacket\<close> is a \<open>partial_function\<close>: \<open>parse_loop\<close>, its part up to the first message of
  \<open>Chat\<close>, is shown to end because every message takes a byte (\<open>packets_keep_tables\<close>), and \<open>parse_all\<close> is the whole of it; what is
  shown of \<open>parse_all\<close> and of \<open>parse_new\<close> is what holds when they return; \<open>setupholdspawns_loop\<close> takes the number of missing flags, \<open>spawnflag_draw\<close> the four
  draws of the code, \<open>getstring_loop\<close> the length of the buffer, and \<open>autoteam\<close> ends because each round either stops or takes a
  client. No theorem has running out of fuel as a case.

  \<^bold>\<open>What is shown.\<close> Encoding: round trips and memory safety. Players: every
  state stays within its bounds, a shot whose rays can be added takes at most what the gun can deal, a death is entered on the scoreboard
  exactly once, an item is taken by one player and comes back in time. Modes: in every reachable state no player
  holds two flags, bases are consistent, nobody carries too many tokens, scores are what the lists say; flags
  return in time, an undisputed base is captured in as many seconds as its limit allows, a deposit pays what was carried. Match: votes follow the majority, the teams
  of the objective modes are fair, overtime is given exactly for a tie, scores are restored. Composition: all events
  of a tick keep every mode in its reachable states.
  Server: in every reachable state the numbers are unique and the tables of clients and bots agree, and a change of the map always
  comes to its end with every client still there.
  Bots: those that their owner lists are handed over when it leaves, spread evenly over the clients and balanced over the teams. Broadcasting: every
  client hears every other one exactly once, inside of memory that lives as long as its packets.
  The code also has defects that are shown here: rays of a shot whose sum wraps around, so that the player who is hit gains
  health (\<open>shot_rays_wrap\<close>), armour that takes off more than its comment says (\<open>armour_comment_diverges\<close>), a token that stays after it is taken (\<open>taketoken_repeats\<close>), an index past
  the end (\<open>hasammo_bound\<close>), players left in no team (\<open>autoteam_leaves_out\<close>), bots that are not handed over
  (\<open>addai_reuse_unlisted\<close>), balancing that stops early (\<open>balanceteams_stale_name\<close>), and packets that make the server write outside
  of its arrays or use a bot that is freed (\<open>itemlist_writes_outside\<close>, \<open>editent_writes_outside\<close>, \<open>packet_uses_freed_bot\<close>).

  \<^bold>\<open>Not modelled.\<close> The anti-cheat module is taken to be switched off. The contents of demo files and of maps that are
  transferred, the playback of demos and the extended info reply are left out; a client can become a spy while it connects
  (\<open>enter_spy\<close>), but not later, and spies are the clients that are marked so (the code has a list of them, too, of which it removes the
  wrong ones when spies leave out of order). The answers of scripts
  and of the key cryptography are functions in the state. The transport
  protocol of ENet, Lua bindings, HTTP server, databases, file streams, the console language and the client's
  geometry are libraries or services beside the game.
\<close>

section \<open>The game modes together\<close>

text \<open>C10: whichever objective mode is played, the list of team scores that the server sends to browsers
  and uses to decide about overtime gives every team name the score that the mode reports for it, in
  every reachable state, and the points in the list are all the points there are.\<close>

theorem mode_scores_agree:
  assumes "ctf_reachable f" and "cap_reachable b" and "col_reachable k"
  shows "team_lookup t (getteamscores f) = getteamscore t f
    \<and> team_lookup t (cap_getteamscores b) = cap_getteamscore t b
    \<and> team_lookup t (col_getteamscores k) = col_getteamscore t k
    \<and> (\<Sum>p \<leftarrow> getteamscores f. snd p) = (\<Sum>t \<in> fst ` set (getteamscores f). getteamscore t f)
    \<and> (\<Sum>p \<leftarrow> cap_getteamscores b. snd p) = (\<Sum>t \<in> fst ` set (cap_getteamscores b). cap_getteamscore t b)
    \<and> (\<Sum>p \<leftarrow> col_getteamscores k. snd p) = (\<Sum>t \<in> fst ` set (col_getteamscores k). col_getteamscore t k)"
  using ctf_scores.lookup_score cap_scores.lookup_score col_team_scores.lookup_score
    ctf_scores.sum_scores [where T = "fst ` set (getteamscores f)"] cap_scores.sum_scores [where T = "fst ` set (cap_getteamscores b)"]
    col_team_scores.sum_scores [where T = "fst ` set (col_getteamscores k)"]
    ctf_reachable_inv [OF assms(1)] cap_reachable_inv [OF assms(2)] col_reachable_inv [OF assms(3)] by simp

theorem mode_scores_agree_witness:
  "team_lookup ''good'' (col_getteamscores col_taken) = col_getteamscore ''good'' col_taken"
  using mode_scores_agree [OF ctf_reachable.start cap_reachable.start col_taken_reachable] by simp

text \<open>C11: a tick of the server that flushes the events of all players (shots, explosions, suicides, pickups, with every
  death reported to the mode) takes a game of any objective mode from a reachable state of that mode to a reachable
  state of it, so all that is shown of reachable states goes on to hold. If every player is valid before (within
  the bounds of health, armour and ammunition, with positive health while alive) and the rays claimed for each shot
  in the queues add up to no more than an \<^verbatim>\<open>int\<close> holds, every player is valid afterwards (without the second condition
  \<open>shot_rays_wrap\<close> shows the contrary).\<close>

theorem events_keep_games:
  assumes "ctf_reachable f" and "cap_reachable b" and "col_reachable k"
  shows "ctf_reachable (processevents (Some ctfmode) f) \<and> cap_reachable (processevents (Some capturemode) b)
    \<and> col_reachable (processevents (Some collectmode) k)
    \<and> (arena_ok f \<and> volleys_fit f \<longrightarrow> arena_ok (processevents (Some ctfmode) f))
    \<and> (arena_ok b \<and> volleys_fit b \<longrightarrow> arena_ok (processevents (Some capturemode) b))
    \<and> (arena_ok k \<and> volleys_fit k \<longrightarrow> arena_ok (processevents (Some collectmode) k))"
  using assms by (intro conjI impI ctf_games.inv_processevents capture_games.inv_processevents collect_games.inv_processevents
    ctf_contract.processevents_ok capture_contract.processevents_ok collect_contract.processevents_ok) simp_all

theorem events_keep_games_witness:
  "ctf_reachable (processevents (Some ctfmode) (ctf_reset False sample_ctf))
    \<and> cap_reachable (processevents (Some capturemode) (cap_reset False sample_capture))
    \<and> col_reachable (processevents (Some collectmode) col_taken) \<and> arena_ok (processevents (Some collectmode) col_taken)"
proof -
  have "arena_ok col_taken" "volleys_fit col_taken" by code_simp+
  with events_keep_games [OF ctf_reachable.start cap_reachable.start col_taken_reachable] show ?thesis by blast
qed

end
